(* ===== verification/Prelude.thy ===== *)
theory Prelude
  imports Main "HOL-Library.Word"
begin

text \<open>
  Shared vocabulary of the development: bytes, C strings, little-endian integers, the
  short-circuit composition of operations that report success by a flag, and the contract
  of a byte sink, which the C++ buffer \<^verbatim>\<open>RawData\<close> and the fixed event buffer of the C
  writer both provide. No definition of this theory stands for code of the repository;
  the component theories do.
\<close>

named_theorems sink_intros \<open>writers that append exactly the stated bytes\<close>
named_theorems decode_simps \<open>decoding what an encoder wrote\<close>
named_theorems event_frames \<open>fields of the event that an operation leaves alone\<close>

section \<open>Bytes and strings\<close>

type_synonym byte = "8 word"
type_synonym u32 = "32 word"
type_synonym u64 = "64 word"

definition byte_of_char :: "char \<Rightarrow> byte" where
  "byte_of_char c = of_nat (of_char c)"

definition char_of_byte :: "byte \<Rightarrow> char" where
  "char_of_byte b = char_of (unat b)"

definition bytes_of_string :: "string \<Rightarrow> byte list" where
  "bytes_of_string s = map byte_of_char s"

definition string_of_bytes :: "byte list \<Rightarrow> string" where
  "string_of_bytes bs = map char_of_byte bs"

lemma unat_byte_of_char [simp]: "unat (byte_of_char c) = of_char c"
  by (simp add: byte_of_char_def unat_of_nat)

lemma char_of_byte_of_char [simp]: "char_of_byte (byte_of_char c) = c"
  by (simp add: char_of_byte_def)

lemma byte_of_char_inject [simp]: "byte_of_char c = byte_of_char d \<longleftrightarrow> c = d"
  by (metis char_of_byte_of_char)

lemma length_bytes_of_string [simp]: "length (bytes_of_string s) = length s"
  by (simp add: bytes_of_string_def)

lemma string_of_bytes_of_string [simp]: "string_of_bytes (bytes_of_string s) = s"
  by (simp add: bytes_of_string_def string_of_bytes_def comp_def)

lemma byte_of_char_eq_0 [simp]: "byte_of_char c = 0 \<longleftrightarrow> c = CHR 0x00"
proof -
  have "byte_of_char (CHR 0x00) = 0"
    by (simp add: byte_of_char_def)
  then show ?thesis
    by (metis byte_of_char_inject)
qed

text \<open>A C string ends at its first NUL byte.\<close>

definition c_string :: "byte list \<Rightarrow> string" where
  "c_string bs = string_of_bytes (takeWhile (\<lambda>b. b \<noteq> 0) bs)"

definition no_nul :: "string \<Rightarrow> bool" where
  "no_nul s \<longleftrightarrow> CHR 0x00 \<notin> set s"

lemma c_string_padded:
  assumes "no_nul s"
  shows "c_string (bytes_of_string s @ 0 # rest) = s"
proof -
  have "takeWhile (\<lambda>b. b \<noteq> 0) (bytes_of_string s @ 0 # rest) = bytes_of_string s"
    using assms by (induction s) (auto simp: no_nul_def bytes_of_string_def)
  then show ?thesis
    by (simp add: c_string_def)
qed

section \<open>Little-endian integers\<close>

primrec le_bytes :: "nat \<Rightarrow> nat \<Rightarrow> byte list" where
  "le_bytes 0 v = []"
| "le_bytes (Suc n) v = of_nat (v mod 256) # le_bytes n (v div 256)"

primrec of_le_bytes :: "byte list \<Rightarrow> nat" where
  "of_le_bytes [] = 0"
| "of_le_bytes (b # bs) = unat b + 256 * of_le_bytes bs"

lemma length_le_bytes [simp]: "length (le_bytes n v) = n"
  by (induction n arbitrary: v) auto

lemma of_le_bytes_le_bytes: "of_le_bytes (le_bytes n v) = v mod 256 ^ n"
proof (induction n arbitrary: v)
  case 0
  then show ?case by simp
next
  case (Suc n)
  have "v mod 256 + 256 * (v div 256 mod 256 ^ n) = v mod (256 * 256 ^ n)"
    by (simp add: mod_mult2_eq)
  with Suc show ?case
    by (simp add: unat_of_nat)
qed

lemma of_le_bytes_le_bytes_id [simp]: "v < 256 ^ n \<Longrightarrow> of_le_bytes (le_bytes n v) = v"
  by (simp add: of_le_bytes_le_bytes)

section \<open>Lists\<close>

text \<open>\<open>splice_at pos xs ys\<close> overwrites \<open>ys\<close> with \<open>xs\<close> from index \<open>pos\<close> on.\<close>

definition splice_at :: "nat \<Rightarrow> 'a list \<Rightarrow> 'a list \<Rightarrow> 'a list" where
  "splice_at pos xs ys = take pos ys @ xs @ drop (pos + length xs) ys"

lemma length_splice_at:
  "pos + length xs \<le> length ys \<Longrightarrow> length (splice_at pos xs ys) = length ys"
  by (simp add: splice_at_def)

lemma splice_at_end: "splice_at (length ys) xs ys = ys @ xs"
  by (simp add: splice_at_def)

lemma splice_at_middle:
  "pos = length as \<Longrightarrow> length xs = length bs \<Longrightarrow> splice_at pos xs (as @ bs @ cs) = as @ xs @ cs"
  by (simp add: splice_at_def)

lemma nth_splice_at_lt: "i < pos \<Longrightarrow> pos \<le> length ys \<Longrightarrow> splice_at pos xs ys ! i = ys ! i"
  by (simp add: splice_at_def nth_append)

section \<open>Decimal numbers\<close>

fun decimal :: "nat \<Rightarrow> string" where
  "decimal n = (if n < 10 then [char_of (48 + n)] else decimal (n div 10) @ [char_of (48 + n mod 10)])"

declare decimal.simps [simp del]

definition decimal_int :: "int \<Rightarrow> string" where
  "decimal_int i = (if i < 0 then CHR ''-'' # decimal (nat (- i)) else decimal (nat i))"

text \<open>The string that a C pointer to the characters of a \<^verbatim>\<open>std::string\<close> stands for.\<close>

definition cut_at_nul :: "string \<Rightarrow> string" where
  "cut_at_nul s = takeWhile (\<lambda>c. c \<noteq> CHR 0x00) s"

section \<open>Operations that report success by a flag\<close>

text \<open>
  \<open>and_then w1 w2\<close> is the C expression \<^verbatim>\<open>w1() && w2()\<close> on operations that change a
  state: the second one runs only when the first one succeeded.
\<close>

definition and_then :: "('s \<Rightarrow> 's \<times> bool) \<Rightarrow> ('s \<Rightarrow> 's \<times> bool) \<Rightarrow> 's \<Rightarrow> 's \<times> bool" where
  "and_then w1 w2 s = (case w1 s of (s', ok) \<Rightarrow> if ok then w2 s' else (s', False))"

text \<open>
  \<open>and_all w xs\<close> is the loop \<^verbatim>\<open>for (x : xs) ret = ret && w(x)\<close> started with \<open>ret\<close> true:
  after the first failure nothing more is written.
\<close>

primrec and_all :: "('a \<Rightarrow> 's \<Rightarrow> 's \<times> bool) \<Rightarrow> 'a list \<Rightarrow> 's \<Rightarrow> 's \<times> bool" where
  "and_all w [] s = (s, True)"
| "and_all w (x # xs) s = and_then (w x) (and_all w xs) s"

text \<open>
  A queue of items: \<open>takes content read mk\<close> says that \<open>read\<close> takes a first item \<open>mk v\<close> off the
  queue and returns \<open>v\<close>.
\<close>

definition takes :: "('p \<Rightarrow> 'i list) \<Rightarrow> ('p \<Rightarrow> 'p \<times> 'v option) \<Rightarrow> ('v \<Rightarrow> 'i) \<Rightarrow> bool" where
  "takes content read mk \<longleftrightarrow>
     (\<forall>p v rest. content p = mk v # rest \<longrightarrow> snd (read p) = Some v \<and> content (fst (read p)) = rest)"

lemma takesD: "takes content read mk \<Longrightarrow> content p = mk v # rest \<Longrightarrow> \<exists>p1. read p = (p1, Some v) \<and> content p1 = rest"
  unfolding takes_def by (metis prod.collapse)

section \<open>The contract of a byte sink\<close>

text \<open>
  A writer keeps the contract \<open>writes\<close> for \<open>bs\<close> when, in every well-formed state with
  room for \<open>bs\<close>, it succeeds, keeps the state well formed and appends exactly \<open>bs\<close> to
  the contents.
\<close>

definition writes ::
  "('s \<Rightarrow> bool) \<Rightarrow> ('s \<Rightarrow> byte list) \<Rightarrow> nat \<Rightarrow> ('s \<Rightarrow> 's \<times> bool) \<Rightarrow> byte list \<Rightarrow> bool" where
  "writes ok contents lim w bs \<longleftrightarrow>
     (\<forall>s. ok s \<and> length (contents s) + length bs \<le> lim \<longrightarrow>
        (\<exists>s'. w s = (s', True) \<and> ok s' \<and> contents s' = contents s @ bs))"

lemma writesE:
  assumes "writes ok contents lim w bs" "ok s" "length (contents s) + length bs \<le> lim"
  obtains s' where "w s = (s', True)" "ok s'" "contents s' = contents s @ bs"
  using assms unfolding writes_def by blast

lemma writesD:
  assumes "writes ok contents lim w bs" "ok s" "length (contents s) + length bs \<le> lim"
  shows "\<exists>s'. w s = (s', True) \<and> ok s' \<and> contents s' = contents s @ bs"
  using assms unfolding writes_def by blast

text \<open>
  The interface the encoders call: one operation that appends a run of bytes. The laws
  are what every encoder of the development relies on.
\<close>

locale byte_sink =
  fixes ok :: "'s \<Rightarrow> bool"
    and contents :: "'s \<Rightarrow> byte list"
    and lim :: nat
    and append_op :: "byte list \<Rightarrow> 's \<Rightarrow> 's \<times> bool"
  assumes append_writes: "writes ok contents lim (append_op bs) bs"
begin

lemma seq_writes:
  assumes w1: "writes ok contents lim w1 b1" and w2: "writes ok contents lim w2 b2"
  shows "writes ok contents lim (and_then w1 w2) (b1 @ b2)"
  unfolding writes_def
proof (intro allI impI)
  fix s assume s: "ok s \<and> length (contents s) + length (b1 @ b2) \<le> lim"
  from w1 s obtain s1 where s1: "w1 s = (s1, True)" "ok s1" "contents s1 = contents s @ b1"
    by (elim writesE [of ok contents lim w1 b1 s]) auto
  from w2 s s1 obtain s2 where s2: "w2 s1 = (s2, True)" "ok s2" "contents s2 = contents s1 @ b2"
    by (elim writesE [of ok contents lim w2 b2 s1]) auto
  from s1 s2 show "\<exists>s'. and_then w1 w2 s = (s', True) \<and> ok s' \<and> contents s' = contents s @ b1 @ b2"
    by (simp add: and_then_def)
qed

lemma skip_writes: "writes ok contents lim (\<lambda>s. (s, True)) []"
  by (simp add: writes_def)

lemma all_writes:
  assumes "\<And>x. x \<in> set xs \<Longrightarrow> writes ok contents lim (w x) (f x)"
  shows "writes ok contents lim (and_all w xs) (concat (map f xs))"
  using assms
proof (induction xs)
  case Nil
  then show ?case
    using skip_writes by (simp add: writes_def)
next
  case (Cons x xs)
  then have "writes ok contents lim (and_then (w x) (and_all w xs)) (f x @ concat (map f xs))"
    by (intro seq_writes) auto
  then show ?case
    by (simp add: writes_def)
qed

end

end
