(* ===== verification/SysEventDef.thy ===== *)
theory SysEventDef
  imports Prelude
begin

text \<open>
  The constants of \<^verbatim>\<open>hisysevent/include/def.h\<close>: result codes (negative: the event is
  dropped; positive: the event is sent although a parameter was questionable), their
  messages and the limits, and the event types of \<^verbatim>\<open>HiSysEvent::EventType\<close>.
\<close>

section \<open>Result codes and limits\<close>

definition SUCCESS :: int where "SUCCESS = 0"
definition ERR_DOMAIN_NAME_INVALID :: int where "ERR_DOMAIN_NAME_INVALID = -1"
definition ERR_EVENT_NAME_INVALID :: int where "ERR_EVENT_NAME_INVALID = -2"
definition ERR_DOES_NOT_INIT :: int where "ERR_DOES_NOT_INIT = -3"
definition ERR_OVER_SIZE :: int where "ERR_OVER_SIZE = -4"
definition ERR_SEND_FAIL :: int where "ERR_SEND_FAIL = -5"
definition ERR_WRITE_IN_HIGH_FREQ :: int where "ERR_WRITE_IN_HIGH_FREQ = -6"
definition ERR_DOMAIN_MASKED :: int where "ERR_DOMAIN_MASKED = -7"
definition ERR_EMPTY_EVENT :: int where "ERR_EMPTY_EVENT = -8"
definition ERR_RAW_DATA_WROTE_EXCEPTION :: int where "ERR_RAW_DATA_WROTE_EXCEPTION = -9"
definition ERR_KEY_NAME_INVALID :: int where "ERR_KEY_NAME_INVALID = 1"
definition ERR_VALUE_LENGTH_TOO_LONG :: int where "ERR_VALUE_LENGTH_TOO_LONG = 2"
definition ERR_KEY_NUMBER_TOO_MUCH :: int where "ERR_KEY_NUMBER_TOO_MUCH = 3"
definition ERR_ARRAY_TOO_MUCH :: int where "ERR_ARRAY_TOO_MUCH = 4"
definition ERR_VALUE_INVALID :: int where "ERR_VALUE_INVALID = 5"

lemmas err_code_defs = SUCCESS_def ERR_DOMAIN_NAME_INVALID_def ERR_EVENT_NAME_INVALID_def
  ERR_DOES_NOT_INIT_def ERR_OVER_SIZE_def ERR_SEND_FAIL_def ERR_WRITE_IN_HIGH_FREQ_def
  ERR_DOMAIN_MASKED_def ERR_EMPTY_EVENT_def ERR_RAW_DATA_WROTE_EXCEPTION_def
  ERR_KEY_NAME_INVALID_def ERR_VALUE_LENGTH_TOO_LONG_def ERR_KEY_NUMBER_TOO_MUCH_def
  ERR_ARRAY_TOO_MUCH_def ERR_VALUE_INVALID_def

definition ERR_MSG_LEVEL0 :: "string list" where
  "ERR_MSG_LEVEL0 = [''invalid domain name'', ''invalid event name'', ''socket init error'',
     ''over size'', ''send data failed'', ''write too frequently'', ''domain has been masked'',
     ''empty event'', ''raw data wrote failed'']"

definition ERR_MSG_LEVEL1 :: "string list" where
  "ERR_MSG_LEVEL1 = [''invalid key name'', ''string value too long'', ''too many keys (>128)'',
     ''too many array items (>100)'', ''invalid value'']"

definition MAX_DOMAIN_LENGTH :: nat where "MAX_DOMAIN_LENGTH = 16"
definition MAX_EVENT_NAME_LENGTH :: nat where "MAX_EVENT_NAME_LENGTH = 32"
definition MAX_PARAM_NAME_LENGTH :: nat where "MAX_PARAM_NAME_LENGTH = 48"
definition MAX_ARRAY_SIZE :: nat where "MAX_ARRAY_SIZE = 100"
definition MAX_PARAM_NUMBER :: nat where "MAX_PARAM_NUMBER = 128"
definition MAX_STRING_LENGTH :: nat where "MAX_STRING_LENGTH = 256 * 1024"
definition MAX_DATA_SIZE :: nat where "MAX_DATA_SIZE = 384 * 1024"

lemmas limit_defs = MAX_DOMAIN_LENGTH_def MAX_EVENT_NAME_LENGTH_def MAX_PARAM_NAME_LENGTH_def
  MAX_ARRAY_SIZE_def MAX_PARAM_NUMBER_def MAX_STRING_LENGTH_def MAX_DATA_SIZE_def

text \<open>
  \<^verbatim>\<open>HiSysEvent::ExplainThenReturnRetCode\<close> reads the message tables at an index computed
  from the code; \<open>explain_index\<close> is the table and index it reads, if any.
\<close>

datatype msg_table = Level0 | Level1

definition explain_index :: "int \<Rightarrow> (msg_table \<times> int) option" where
  "explain_index retCode =
     (if retCode > SUCCESS then Some (Level1, retCode - 1)
      else if retCode < SUCCESS then Some (Level0, - retCode - 1)
      else None)"

definition ExplainThenReturnRetCode :: "int \<Rightarrow> string option \<times> int" where
  "ExplainThenReturnRetCode retCode =
     (case explain_index retCode of
        None \<Rightarrow> (None, retCode)
      | Some (Level1, i) \<Rightarrow> (Some (ERR_MSG_LEVEL1 ! nat i), retCode)
      | Some (Level0, i) \<Rightarrow> (Some (ERR_MSG_LEVEL0 ! nat i), retCode))"

section \<open>Event types\<close>

datatype event_type = FAULT | STATISTIC | SECURITY | BEHAVIOR

primrec event_type_code :: "event_type \<Rightarrow> int" where
  "event_type_code FAULT = 1"
| "event_type_code STATISTIC = 2"
| "event_type_code SECURITY = 3"
| "event_type_code BEHAVIOR = 4"

text \<open>The C enumerations are compared by their codes.\<close>

instantiation event_type :: linorder
begin

definition less_eq_event_type :: "event_type \<Rightarrow> event_type \<Rightarrow> bool" where
  "less_eq_event_type a b \<longleftrightarrow> event_type_code a \<le> event_type_code b"

definition less_event_type :: "event_type \<Rightarrow> event_type \<Rightarrow> bool" where
  "less_event_type a b \<longleftrightarrow> event_type_code a < event_type_code b"

instance
proof
  fix x y z :: event_type
  show "x < y \<longleftrightarrow> x \<le> y \<and> \<not> y \<le> x"
    by (auto simp: less_eq_event_type_def less_event_type_def)
  show "x \<le> x"
    by (simp add: less_eq_event_type_def)
  show "x \<le> y \<Longrightarrow> y \<le> z \<Longrightarrow> x \<le> z"
    by (simp add: less_eq_event_type_def)
  show "x \<le> y \<Longrightarrow> y \<le> x \<Longrightarrow> x = y"
    by (cases x; cases y) (auto simp: less_eq_event_type_def)
  show "x \<le> y \<or> y \<le> x"
    by (auto simp: less_eq_event_type_def)
qed

end

lemma event_type_code_range: "1 \<le> event_type_code t \<and> event_type_code t \<le> 4"
  by (cases t) auto

end
