(* ===== verification/RawData.thy ===== *)
theory RawData
  imports SysEventDef
begin

text \<open>
  \<^verbatim>\<open>Encoded::RawData\<close> (raw_data.cpp): the growing byte buffer every event is encoded
  into. Memory that \<^verbatim>\<open>new\<close> returned and nothing wrote to yet is \<open>None\<close>, so that reading
  an uninitialised byte shows in the model. The allocator and the bounds-checking
  \<^verbatim>\<open>memcpy_s\<close> of the securec library are parameters (\<open>mem_env\<close>).
  The theory proves that the buffer refines a plain byte list and that it is a byte sink.
\<close>

section \<open>The environment\<close>

text \<open>
  \<open>new_ok n\<close>: whether \<^verbatim>\<open>new(std::nothrow) uint8_t[n]\<close> returns memory. \<open>memcpy_ok d n\<close>:
  whether \<^verbatim>\<open>memcpy_s\<close> into \<open>d\<close> bytes of \<open>n\<close> bytes returns EOK. \<open>memcpy_max\<close>: the
  largest destination size the library accepts.
\<close>

record mem_env =
  new_ok :: "nat \<Rightarrow> bool"
  memcpy_ok :: "nat \<Rightarrow> nat \<Rightarrow> bool"
  memcpy_max :: nat

text \<open>
  The documented behaviour: memory is available, and a copy succeeds when the destination
  is not empty, not larger than the library's limit (\<^verbatim>\<open>SECUREC_MEM_MAX_LEN\<close>,
  at most \<^verbatim>\<open>0x7fffffff\<close>) and holds the source.
\<close>

definition mem_ok :: "mem_env \<Rightarrow> bool" where
  "mem_ok env \<longleftrightarrow> memcpy_max env \<le> 0x7fffffff \<and> (\<forall>n. new_ok env n) \<and>
     (\<forall>d n. 0 < d \<and> d \<le> memcpy_max env \<and> n \<le> d \<longrightarrow> memcpy_ok env d n)"

section \<open>State and operations\<close>

record raw_data =
  rd_data :: "byte option list option"
  rd_len :: nat
  rd_capacity :: nat

definition EXPAND_BUF_SIZE :: nat where
  "EXPAND_BUF_SIZE = 128"

definition RawData_new :: "mem_env \<Rightarrow> raw_data" where
  "RawData_new env =
     (if new_ok env EXPAND_BUF_SIZE
      then \<lparr>rd_data = Some (replicate EXPAND_BUF_SIZE None), rd_len = 0,
             rd_capacity = EXPAND_BUF_SIZE\<rparr>
      else \<lparr>rd_data = None, rd_len = 0, rd_capacity = 0\<rparr>)"

definition GetData :: "raw_data \<Rightarrow> byte option list option" where
  "GetData rd = rd_data rd"

definition GetDataLength :: "raw_data \<Rightarrow> nat" where
  "GetDataLength rd = rd_len rd"

definition IsEmpty :: "raw_data \<Rightarrow> bool" where
  "IsEmpty rd \<longleftrightarrow> rd_len rd = 0 \<or> rd_data rd = None"

definition RawData_copy :: "mem_env \<Rightarrow> raw_data \<Rightarrow> raw_data" where
  "RawData_copy env src =
     (let dataLen = GetDataLength src in
      case GetData src of
        None \<Rightarrow> RawData_new env
      | Some rawData \<Rightarrow>
          if dataLen = 0 then RawData_new env
          else if \<not> new_ok env dataLen
          then \<lparr>rd_data = None, rd_len = 0, rd_capacity = 0\<rparr>
          else if \<not> memcpy_ok env dataLen dataLen
          then \<lparr>rd_data = Some (replicate dataLen None), rd_len = 0, rd_capacity = 0\<rparr>
          else \<lparr>rd_data = Some (take dataLen rawData), rd_len = dataLen, rd_capacity = dataLen\<rparr>)"

text \<open>\<open>same_object\<close> is the self-assignment test \<^verbatim>\<open>this == &data\<close>.\<close>

definition RawData_assign :: "mem_env \<Rightarrow> bool \<Rightarrow> raw_data \<Rightarrow> raw_data \<Rightarrow> raw_data" where
  "RawData_assign env same_object this src =
     (if same_object then this
      else let dataLen = GetDataLength src in
      case GetData src of
        None \<Rightarrow> this
      | Some rawData \<Rightarrow>
          if dataLen = 0 then this
          else if \<not> new_ok env dataLen then this
          else if \<not> memcpy_ok env dataLen dataLen then this
          else \<lparr>rd_data = Some (take dataLen rawData), rd_len = dataLen, rd_capacity = dataLen\<rparr>)"

text \<open>
  \<^verbatim>\<open>Update\<close>, in two parts: the copy at \<open>pos\<close>, and the growth of the buffer before it.
  \<open>data = None\<close> is the null pointer; otherwise \<open>len\<close> bytes are read from \<open>data\<close>.
\<close>

definition Update_copy ::
  "mem_env \<Rightarrow> raw_data \<Rightarrow> byte option list \<Rightarrow> byte list \<Rightarrow> nat \<Rightarrow> nat \<Rightarrow> raw_data \<times> bool" where
  "Update_copy env rd buf data len pos =
     (if \<not> memcpy_ok env (rd_capacity rd - pos) len then (rd, False)
      else (rd\<lparr>rd_data := Some (splice_at pos (map Some (take len data)) buf),
               rd_len := (if pos + len > rd_len rd then pos + len else rd_len rd)\<rparr>, True))"

definition Update :: "mem_env \<Rightarrow> byte list option \<Rightarrow> nat \<Rightarrow> nat \<Rightarrow> raw_data \<Rightarrow> raw_data \<times> bool" where
  "Update env data len pos rd =
     (case data of
        None \<Rightarrow> (rd, False)
      | Some d \<Rightarrow>
          if pos > rd_len rd then (rd, False)
          else case rd_data rd of
            None \<Rightarrow> (rd, False)
          | Some buf \<Rightarrow>
              if pos + len > rd_capacity rd then
                let expandedSize = (if len > EXPAND_BUF_SIZE then len else EXPAND_BUF_SIZE);
                    expandedCapacity = rd_capacity rd + expandedSize in
                if \<not> new_ok env expandedCapacity then (rd, False)
                else if \<not> memcpy_ok env expandedCapacity (rd_len rd) then (rd, False)
                else
                  let resized = take (rd_len rd) buf @ replicate (expandedCapacity - rd_len rd) None in
                  Update_copy env
                    (rd\<lparr>rd_data := Some resized, rd_capacity := rd_capacity rd + expandedSize\<rparr>)
                    resized d len pos
              else Update_copy env rd buf d len pos)"

definition Append :: "mem_env \<Rightarrow> byte list \<Rightarrow> raw_data \<Rightarrow> raw_data \<times> bool" where
  "Append env data rd =
     (if length data = 0 then (rd, True)
      else Update env (Some data) (length data) (rd_len rd) rd)"

section \<open>Abstraction and invariant\<close>

definition contents :: "raw_data \<Rightarrow> byte list" where
  "contents rd = (case rd_data rd of None \<Rightarrow> [] | Some buf \<Rightarrow> map the (take (rd_len rd) buf))"

text \<open>
  Every byte below the length was written, the length stays within the capacity and the
  capacity within the allocated block. \<open>rd_tight\<close>: growth does not over-allocate by more
  than the length plus one expansion step.
\<close>

definition rd_inv :: "raw_data \<Rightarrow> bool" where
  "rd_inv rd \<longleftrightarrow>
     (case rd_data rd of
        None \<Rightarrow> rd_len rd = 0 \<and> rd_capacity rd = 0
      | Some buf \<Rightarrow> rd_len rd \<le> rd_capacity rd \<and> rd_capacity rd \<le> length buf \<and>
          (\<forall>i < rd_len rd. buf ! i \<noteq> None))"

definition rd_tight :: "raw_data \<Rightarrow> bool" where
  "rd_tight rd \<longleftrightarrow> rd_capacity rd \<le> 2 * rd_len rd + EXPAND_BUF_SIZE"

lemma length_contents [simp]: "rd_inv rd \<Longrightarrow> length (contents rd) = rd_len rd"
  by (auto simp: rd_inv_def contents_def split: option.splits)

lemma rd_inv_new: "rd_inv (RawData_new env)"
  by (simp add: rd_inv_def RawData_new_def)

lemma contents_new [simp]: "contents (RawData_new env) = []"
  by (simp add: contents_def RawData_new_def)

lemma rd_inv_copy: "rd_inv rd \<Longrightarrow> rd_inv (RawData_copy env rd)"
  by (auto simp: rd_inv_def RawData_copy_def RawData_new_def Let_def GetDataLength_def GetData_def
      split: option.splits)

lemma rd_inv_assign: "rd_inv this \<Longrightarrow> rd_inv src \<Longrightarrow> rd_inv (RawData_assign env same this src)"
  by (auto simp: rd_inv_def RawData_assign_def Let_def GetDataLength_def GetData_def
      split: option.splits)

lemma contents_copy:
  assumes "mem_ok env" "rd_inv rd" "rd_len rd \<le> memcpy_max env"
  shows "contents (RawData_copy env rd) = contents rd"
  using assms
  by (auto simp: rd_inv_def RawData_copy_def RawData_new_def Let_def GetDataLength_def GetData_def
      contents_def mem_ok_def split: option.splits)

lemma Update_copy_refines:
  assumes data: "rd_data rd = Some buf" and inv: "rd_inv rd" and pos: "pos \<le> rd_len rd"
    and room: "pos + length d \<le> rd_capacity rd"
    and upd: "Update_copy env rd buf d (length d) pos = (rd', res)"
  shows "rd_inv rd' \<and> contents rd' = (if res then splice_at pos d (contents rd) else contents rd)"
proof (cases res)
  case False
  with upd inv show ?thesis
    by (auto simp: Update_copy_def split: if_splits)
next
  case True
  with upd have rd': "rd' = rd\<lparr>rd_data := Some (splice_at pos (map Some d) buf),
               rd_len := max (pos + length d) (rd_len rd)\<rparr>"
    by (auto simp: Update_copy_def max_def split: if_splits)
  from data inv have i: "rd_len rd \<le> rd_capacity rd" "rd_capacity rd \<le> length buf"
      "\<forall>i < rd_len rd. buf ! i \<noteq> None"
    by (auto simp: rd_inv_def)
  have "\<forall>i < max (pos + length d) (rd_len rd). splice_at pos (map Some d) buf ! i \<noteq> None"
    using i room pos by (auto simp: splice_at_def nth_append)
  then have "rd_inv rd'"
    using i room pos by (auto simp: rd' rd_inv_def splice_at_def max_def)
  moreover have "contents rd' = splice_at pos d (contents rd)"
    using i room pos data
    by (auto simp: rd' contents_def splice_at_def max_def take_map drop_map min_def drop_take)
  ultimately show ?thesis
    using True by simp
qed

text \<open>Growing the block keeps the contents.\<close>

definition grown :: "raw_data \<Rightarrow> byte option list \<Rightarrow> nat \<Rightarrow> raw_data" where
  "grown rd buf len =
     (let expandedSize = (if len > EXPAND_BUF_SIZE then len else EXPAND_BUF_SIZE);
          expandedCapacity = rd_capacity rd + expandedSize in
      rd\<lparr>rd_data := Some (take (rd_len rd) buf @ replicate (expandedCapacity - rd_len rd) None),
         rd_capacity := rd_capacity rd + expandedSize\<rparr>)"

lemma grown_facts:
  assumes "rd_data rd = Some buf" "rd_inv rd"
  shows "rd_inv (grown rd buf len)" "contents (grown rd buf len) = contents rd"
    "rd_len (grown rd buf len) = rd_len rd"
    "rd_capacity (grown rd buf len) = rd_capacity rd + max len EXPAND_BUF_SIZE"
  using assms by (auto simp: grown_def rd_inv_def contents_def Let_def nth_append max_def)

lemma Update_unfold:
  "Update env (Some d) len pos rd =
     (if pos > rd_len rd then (rd, False)
      else case rd_data rd of
        None \<Rightarrow> (rd, False)
      | Some buf \<Rightarrow>
          if pos + len > rd_capacity rd then
            if \<not> new_ok env (rd_capacity (grown rd buf len)) \<or>
               \<not> memcpy_ok env (rd_capacity (grown rd buf len)) (rd_len rd) then (rd, False)
            else Update_copy env (grown rd buf len) (the (rd_data (grown rd buf len))) d len pos
          else Update_copy env rd buf d len pos)"
  by (cases "rd_data rd") (simp_all add: Update_def grown_def Let_def)

lemma Update_refines:
  assumes inv: "rd_inv rd" and upd: "Update env (Some d) (length d) pos rd = (rd', res)"
  shows "rd_inv rd' \<and> contents rd' = (if res then splice_at pos d (contents rd) else contents rd)"
proof (cases "pos > rd_len rd \<or> rd_data rd = None")
  case True
  with inv upd show ?thesis
    by (auto simp: Update_def split: option.splits)
next
  case False
  then obtain buf where pos: "pos \<le> rd_len rd" and data: "rd_data rd = Some buf"
    by auto
  let ?g = "grown rd buf (length d)"
  have len: "rd_len rd \<le> rd_capacity rd"
    using inv data by (auto simp: rd_inv_def)
  have step: "Update env (Some d) (length d) pos rd =
      (if pos + length d > rd_capacity rd then
         if \<not> new_ok env (rd_capacity ?g) \<or> \<not> memcpy_ok env (rd_capacity ?g) (rd_len rd)
         then (rd, False)
         else Update_copy env ?g (the (rd_data ?g)) d (length d) pos
       else Update_copy env rd buf d (length d) pos)"
    using pos data by (simp add: Update_unfold)
  consider (fail) "Update env (Some d) (length d) pos rd = (rd, False)"
    | (grow) "Update env (Some d) (length d) pos rd =
         Update_copy env ?g (the (rd_data ?g)) d (length d) pos"
    | (fits) "pos + length d \<le> rd_capacity rd"
        "Update env (Some d) (length d) pos rd = Update_copy env rd buf d (length d) pos"
    unfolding step by (metis not_less)
  then show ?thesis
  proof cases
    case fail
    with inv upd show ?thesis by simp
  next
    case grow
    with upd have g: "Update_copy env ?g (the (rd_data ?g)) d (length d) pos = (rd', res)"
      by simp
    have "rd_data ?g = Some (the (rd_data ?g))"
      by (simp add: grown_def Let_def)
    moreover have "pos + length d \<le> rd_capacity ?g"
      using grown_facts(4) [OF data inv] pos len by simp
    ultimately show ?thesis
      using Update_copy_refines [OF _ grown_facts(1) [OF data inv] _ _ g]
        grown_facts [OF data inv, of "length d"] pos by simp
  next
    case fits
    with upd have f: "Update_copy env rd buf d (length d) pos = (rd', res)"
      by simp
    show ?thesis
      by (rule Update_copy_refines [OF data inv pos fits(1) f])
  qed
qed

text \<open>In a working environment an update below the copy limit succeeds and stays tight.\<close>

lemma Update_succeeds:
  assumes env: "mem_ok env" and inv: "rd_inv rd" "rd_tight rd" "rd_data rd \<noteq> None"
    and pos: "pos \<le> rd_len rd" and d: "0 < length d"
    and lim: "2 * (rd_len rd + length d) + EXPAND_BUF_SIZE \<le> memcpy_max env"
  shows "\<exists>rd'. Update env (Some d) (length d) pos rd = (rd', True) \<and> rd_tight rd' \<and>
           rd_data rd' \<noteq> None \<and> rd_len rd' = max (rd_len rd) (pos + length d)"
proof -
  from inv obtain buf where data: "rd_data rd = Some buf"
    by auto
  let ?g = "grown rd buf (length d)"
  have len: "rd_len rd \<le> rd_capacity rd" and tight: "rd_capacity rd \<le> 2 * rd_len rd + EXPAND_BUF_SIZE"
    using inv data by (auto simp: rd_inv_def rd_tight_def)
  note g = grown_facts [OF data inv(1), of "length d"]
  show ?thesis
  proof (cases "pos + length d > rd_capacity rd")
    case True
    then have "rd_capacity ?g \<le> 2 * (pos + length d) + EXPAND_BUF_SIZE"
      using g(4) by (simp add: max_def)
    moreover have "rd_capacity ?g \<le> memcpy_max env"
      using calculation pos lim by simp
    moreover have "0 < max (length d) EXPAND_BUF_SIZE"
      by (simp add: EXPAND_BUF_SIZE_def)
    with g(4) pos len have "0 < rd_capacity ?g - pos"
      by linarith
    moreover have "length d \<le> rd_capacity ?g - pos"
      "rd_len rd \<le> rd_capacity ?g"
      using g(4) pos len d by auto
    ultimately have "new_ok env (rd_capacity ?g)" "memcpy_ok env (rd_capacity ?g) (rd_len rd)"
      "memcpy_ok env (rd_capacity ?g - pos) (length d)"
      using env by (auto simp: mem_ok_def)
    with True data pos g \<open>rd_capacity ?g \<le> 2 * (pos + length d) + EXPAND_BUF_SIZE\<close>
    show ?thesis
      by (auto simp: Update_unfold Update_copy_def rd_tight_def max_def)
  next
    case False
    moreover have "memcpy_ok env (rd_capacity rd - pos) (length d)"
    proof -
      have "0 < rd_capacity rd - pos" "length d \<le> rd_capacity rd - pos"
        using False d by linarith+
      moreover have "rd_capacity rd - pos \<le> memcpy_max env"
        using tight lim by auto
      moreover note env
      ultimately show ?thesis by (simp add: mem_ok_def)
    qed
    ultimately show ?thesis
      using data pos tight by (auto simp: Update_unfold Update_copy_def rd_tight_def max_def)
  qed
qed

section \<open>The buffer is a byte sink\<close>

definition rd_ok :: "mem_env \<Rightarrow> raw_data \<Rightarrow> bool" where
  "rd_ok env rd \<longleftrightarrow> mem_ok env \<and> rd_inv rd \<and> rd_tight rd \<and> rd_data rd \<noteq> None"

text \<open>The contents length up to which no copy exceeds the library's limit.\<close>

definition sink_limit :: "mem_env \<Rightarrow> nat" where
  "sink_limit env = (memcpy_max env - EXPAND_BUF_SIZE) div 2"

lemma sink_limitD: "n \<le> sink_limit env \<Longrightarrow> 0 < n \<Longrightarrow> 2 * n + EXPAND_BUF_SIZE \<le> memcpy_max env"
  by (simp add: sink_limit_def)

lemma rd_ok_new: "mem_ok env \<Longrightarrow> rd_ok env (RawData_new env)"
  by (auto simp: rd_ok_def rd_inv_new rd_tight_def) (auto simp: RawData_new_def mem_ok_def)

lemma Append_writes: "writes (rd_ok env) contents (sink_limit env) (Append env bs) bs"
  unfolding writes_def
proof (intro allI impI)
  fix rd assume rd: "rd_ok env rd \<and> length (contents rd) + length bs \<le> sink_limit env"
  show "\<exists>rd'. Append env bs rd = (rd', True) \<and> rd_ok env rd' \<and> contents rd' = contents rd @ bs"
  proof (cases "bs = []")
    case True
    with rd show ?thesis by (simp add: Append_def)
  next
    case False
    have env: "mem_ok env" and inv: "rd_inv rd" "rd_tight rd" "rd_data rd \<noteq> None"
      using rd by (auto simp: rd_ok_def)
    have lim: "2 * (rd_len rd + length bs) + EXPAND_BUF_SIZE \<le> memcpy_max env"
      using sink_limitD [of "rd_len rd + length bs" env] rd inv(1) False by simp
    obtain rd' where rd': "Update env (Some bs) (length bs) (rd_len rd) rd = (rd', True)"
        "rd_tight rd'" "rd_data rd' \<noteq> None"
      using Update_succeeds [OF env inv order_refl _ lim] False by auto
    then have "rd_inv rd' \<and> contents rd' = contents rd @ bs"
      using Update_refines [OF inv(1) rd'(1)] splice_at_end [of "contents rd" bs] inv(1) by simp
    with rd' False env show ?thesis
      by (auto simp: Append_def rd_ok_def)
  qed
qed

interpretation buffer: byte_sink "rd_ok env" contents "sink_limit env" "Append env" for env
  by unfold_locales (rule Append_writes)

lemmas buffer_writes [sink_intros] = buffer.append_writes buffer.seq_writes buffer.skip_writes

section \<open>Properties\<close>

text \<open>
  The buffer refines a byte list: whatever the allocator and \<^verbatim>\<open>memcpy_s\<close> answer,
  \<^verbatim>\<open>Update\<close> keeps the invariant (no byte below the length is uninitialised or outside the
  allocated block), overwrites or extends the contents at the position when it reports
  success, and leaves them untouched when it reports failure.
\<close>

lemma Update_refines_list:
  assumes "rd_inv rd"
  shows "rd_inv (fst (Update env (Some d) (length d) pos rd)) \<and>
    contents (fst (Update env (Some d) (length d) pos rd)) =
      (if snd (Update env (Some d) (length d) pos rd)
       then splice_at pos d (contents rd) else contents rd)"
  using Update_refines [OF assms] by (metis prod.collapse)

definition std_env :: mem_env where
  "std_env = \<lparr>new_ok = (\<lambda>_. True), memcpy_ok = (\<lambda>d n. 0 < d \<and> d \<le> 0x7fffffff \<and> n \<le> d),
     memcpy_max = 0x7fffffff\<rparr>"

lemma mem_ok_std_env: "mem_ok std_env"
  by (simp add: mem_ok_def std_env_def)

lemma Update_refines_list_example:
  "contents (fst (Update std_env (Some [1, 2]) 2 0 (RawData_new std_env))) = [1, 2]"
proof -
  have ok: "snd (Update std_env (Some [1, 2]) 2 0 (RawData_new std_env))"
    by (simp add: Update_def RawData_new_def std_env_def EXPAND_BUF_SIZE_def Update_copy_def)
  show ?thesis
    using Update_refines_list [OF rd_inv_new [of std_env], of std_env "[1, 2]" 0] ok
    by (simp add: splice_at_def numeral_2_eq_2)
qed

text \<open>
  With a working allocator, appending to a non-failed buffer always succeeds as long
  as the data stays below half the library's copy limit, and appends exactly the bytes.
\<close>

theorem Append_succeeds:
  assumes "rd_ok env rd" "length (contents rd) + length bs \<le> sink_limit env"
  shows "\<exists>rd'. Append env bs rd = (rd', True) \<and> rd_ok env rd' \<and> contents rd' = contents rd @ bs"
  using Append_writes [of env bs] assms unfolding writes_def by blast

theorem Append_succeeds_witness:
  "\<exists>rd'. Append std_env [7] (RawData_new std_env) = (rd', True) \<and> contents rd' = [7]"
  using Append_succeeds [OF rd_ok_new [OF mem_ok_std_env], of "[7]"]
  by (auto simp: sink_limit_def std_env_def EXPAND_BUF_SIZE_def)

end
