(* ===== verification/RawDataEncoder.thy ===== *)
theory RawDataEncoder
  imports RawData
begin

unbundle bit_operations_syntax

text \<open>
  \<^verbatim>\<open>RawDataEncoder\<close> (raw_data_encoder.h and .cpp): the tagged variable-length integers,
  the zigzag code of signed integers, strings, floating-point numbers and the value-type
  byte. Each operation appends to a buffer and may fail half-way, as the code does.
  The theory gives each wire format as a byte list, proves that the operation writes it,
  and decodes it back.
\<close>

section \<open>Types of the wire format (raw_data_base_def.h)\<close>

datatype value_type = UNKNOWN | BOOL | INT8 | UINT8 | INT16 | UINT16 | INT32 | UINT32
  | INT64 | UINT64 | FLOAT | DOUBLE | STRING

primrec value_type_code :: "value_type \<Rightarrow> nat" where
  "value_type_code UNKNOWN = 0"
| "value_type_code BOOL = 1"
| "value_type_code INT8 = 2"
| "value_type_code UINT8 = 3"
| "value_type_code INT16 = 4"
| "value_type_code UINT16 = 5"
| "value_type_code INT32 = 6"
| "value_type_code UINT32 = 7"
| "value_type_code INT64 = 8"
| "value_type_code UINT64 = 9"
| "value_type_code FLOAT = 10"
| "value_type_code DOUBLE = 11"
| "value_type_code STRING = 12"

datatype encode_type = VARINT | LENGTH_DELIMITED | INVALID

primrec encode_type_code :: "encode_type \<Rightarrow> nat" where
  "encode_type_code VARINT = 0"
| "encode_type_code LENGTH_DELIMITED = 1"
| "encode_type_code INVALID = 4"

text \<open>
  \<^verbatim>\<open>struct ParamValueType\<close>, one byte of bit-fields, allocated from the least significant
  bit as the ABIs of the supported targets do.
\<close>

definition ParamValueType :: "nat \<Rightarrow> nat \<Rightarrow> nat \<Rightarrow> byte" where
  "ParamValueType isArray valueType valueByteCnt =
     of_nat (isArray mod 2 + 2 * (valueType mod 16) + 32 * (valueByteCnt mod 8))"

section \<open>Operations\<close>

definition TAG_BYTE_OFFSET :: nat where "TAG_BYTE_OFFSET = 5"
definition TAG_BYTE_BOUND :: u64 where "TAG_BYTE_BOUND = push_bit TAG_BYTE_OFFSET 1"
definition TAG_BYTE_MASK :: u64 where "TAG_BYTE_MASK = TAG_BYTE_BOUND - 1"
definition NON_TAG_BYTE_OFFSET :: nat where "NON_TAG_BYTE_OFFSET = 7"
definition NON_TAG_BYTE_BOUND :: u64 where "NON_TAG_BYTE_BOUND = push_bit NON_TAG_BYTE_OFFSET 1"
definition NON_TAG_BYTE_MASK :: u64 where "NON_TAG_BYTE_MASK = NON_TAG_BYTE_BOUND - 1"

lemmas varint_consts = TAG_BYTE_OFFSET_def TAG_BYTE_BOUND_def TAG_BYTE_MASK_def
  NON_TAG_BYTE_OFFSET_def NON_TAG_BYTE_BOUND_def NON_TAG_BYTE_MASK_def

definition EncodedTag :: "byte \<Rightarrow> byte" where
  "EncodedTag type = push_bit (TAG_BYTE_OFFSET + 1) type"

text \<open>
  The template is instantiated at the unsigned types up to 64 bits; their values are read
  here as 64-bit words, since the shifts, masks and comparisons do not depend on the width.
\<close>

definition tag_byte :: "encode_type \<Rightarrow> u64 \<Rightarrow> byte" where
  "tag_byte type val =
     EncodedTag (of_nat (encode_type_code type)) OR
     (if val < TAG_BYTE_BOUND then 0 else ucast TAG_BYTE_BOUND) OR
     ucast (val AND TAG_BYTE_MASK)"

definition non_tag_byte :: "u64 \<Rightarrow> byte" where
  "non_tag_byte val =
     (if val < NON_TAG_BYTE_BOUND then 0 else ucast NON_TAG_BYTE_BOUND) OR
     ucast (val AND NON_TAG_BYTE_MASK)"

lemma unat_drop_7: "unat (drop_bit NON_TAG_BYTE_OFFSET val) = unat (val :: u64) div 128"
  by (simp add: varint_consts drop_bit_eq_div unat_div)

lemma unat_drop_5: "unat (drop_bit TAG_BYTE_OFFSET val) = unat (val :: u64) div 32"
  by (simp add: varint_consts drop_bit_eq_div unat_div)

function varint_loop :: "mem_env \<Rightarrow> u64 \<Rightarrow> raw_data \<Rightarrow> raw_data \<times> bool" where
  "varint_loop env val rd =
     (if val > 0 then
        (case Append env [non_tag_byte val] rd of (rd', ok) \<Rightarrow>
           if \<not> ok then (rd', False)
           else varint_loop env (drop_bit NON_TAG_BYTE_OFFSET val) rd')
      else (rd, True))"
  by pat_completeness auto
termination
  by (relation "measure (\<lambda>(env, val, rd). unat val)")
     (auto simp: unat_drop_7 unat_gt_0 div_less_dividend)

declare varint_loop.simps [simp del]

definition UnsignedVarintEncoded :: "mem_env \<Rightarrow> encode_type \<Rightarrow> u64 \<Rightarrow> raw_data \<Rightarrow> raw_data \<times> bool" where
  "UnsignedVarintEncoded env type val rd =
     (case Append env [tag_byte type val] rd of (rd', ok) \<Rightarrow>
        if \<not> ok then (rd', False)
        else varint_loop env (drop_bit TAG_BYTE_OFFSET val) rd')"

text \<open>The zigzag code: the sign moves to the least significant bit.\<close>

definition zigzag :: "64 word \<Rightarrow> u64" where
  "zigzag val = (let signMask = (if 0 \<le> sint val then 0 else - 1) in push_bit 1 val XOR signMask)"

definition SignedVarintEncoded :: "mem_env \<Rightarrow> encode_type \<Rightarrow> 64 word \<Rightarrow> raw_data \<Rightarrow> raw_data \<times> bool" where
  "SignedVarintEncoded env type val rd = UnsignedVarintEncoded env type (zigzag val) rd"

text \<open>\<open>bits\<close> is the object representation of the float or double, \<open>sz\<close> its size.\<close>

definition FloatingNumberEncoded :: "mem_env \<Rightarrow> nat \<Rightarrow> nat \<Rightarrow> raw_data \<Rightarrow> raw_data \<times> bool" where
  "FloatingNumberEncoded env sz bits rd =
     (case UnsignedVarintEncoded env LENGTH_DELIMITED (of_nat sz) rd of (rd', ok) \<Rightarrow>
        if \<not> ok then (rd', False) else Append env (le_bytes sz bits) rd')"

definition StringValueEncoded :: "mem_env \<Rightarrow> string \<Rightarrow> raw_data \<Rightarrow> raw_data \<times> bool" where
  "StringValueEncoded env val rd =
     (case UnsignedVarintEncoded env LENGTH_DELIMITED (of_nat (length val)) rd of (rd', ok) \<Rightarrow>
        if \<not> ok then (rd', False) else Append env (bytes_of_string val) rd')"

definition ValueTypeEncoded ::
  "mem_env \<Rightarrow> bool \<Rightarrow> value_type \<Rightarrow> nat \<Rightarrow> raw_data \<Rightarrow> raw_data \<times> bool" where
  "ValueTypeEncoded env isArray type count rd =
     Append env [ParamValueType (if isArray then 1 else 0) (value_type_code type) count] rd"

section \<open>The bytes the operations write\<close>

fun varint_tail :: "nat \<Rightarrow> byte list" where
  "varint_tail n =
     (if n = 0 then []
      else of_nat (n mod 128 + (if n < 128 then 0 else 128)) # varint_tail (n div 128))"

declare varint_tail.simps [simp del]

definition varint :: "encode_type \<Rightarrow> nat \<Rightarrow> byte list" where
  "varint type n =
     of_nat (64 * encode_type_code type + n mod 32 + (if n < 32 then 0 else 32)) #
     varint_tail (n div 32)"

definition float_bytes :: "nat \<Rightarrow> nat \<Rightarrow> byte list" where
  "float_bytes sz bits = varint LENGTH_DELIMITED sz @ le_bytes sz bits"

definition string_bytes :: "string \<Rightarrow> byte list" where
  "string_bytes s = varint LENGTH_DELIMITED (length s) @ bytes_of_string s"

lemma or_disjoint_add:
  fixes a b :: "'a::len word"
  assumes "\<And>n. bit b n \<Longrightarrow> n < k" "\<And>n. bit a n \<Longrightarrow> k \<le> n"
  shows "a OR b = a + b"
  using assms disjunctive_add_eq_or [of a b]
  by (auto simp: bit_eq_iff bit_and_iff dest: leD)

lemma ucast_and_mask: "(ucast (v AND mask k) :: byte) = of_nat (unat (v::u64) mod 2 ^ k)"
proof -
  have "unat (v AND mask k) = unat v mod 2 ^ k"
    by (metis take_bit_eq_mask take_bit_eq_mod unsigned_take_bit_eq)
  then show ?thesis
    by (metis of_nat_unat)
qed

lemma non_tag_byte_eq:
  "non_tag_byte v = of_nat (unat v mod 128 + (if unat v < 128 then 0 else 128))"
proof -
  have m: "(ucast (v AND 127) :: byte) = of_nat (unat v mod 128)"
    using ucast_and_mask [of v 7] by (simp add: mask_eq_exp_minus_1)
  have "(128 :: byte) OR of_nat (unat v mod 128) = 128 + of_nat (unat v mod 128)"
  proof (rule or_disjoint_add [where k = 7])
    show "n < 7" if "bit (of_nat (unat v mod 128) :: byte) n" for n
      using that by (simp add: bit_simps flip: take_bit_eq_mod [where n = 7, simplified])
    show "7 \<le> n" if "bit (128 :: byte) n" for n
      using that bit_exp_iff [of 7 n, where 'a = byte] by simp
  qed
  then show ?thesis
    by (simp add: non_tag_byte_def varint_consts m word_less_nat_alt)
qed

lemma byte_256: "(256 :: byte) = 0"
proof -
  have "unat (256 :: byte) = 0" by simp
  then show ?thesis by (simp only: unat_eq_0)
qed

lemma tag_byte_eq:
  "tag_byte type v =
     of_nat (64 * encode_type_code type + unat v mod 32 + (if unat v < 32 then 0 else 32))"
proof -
  let ?m = "of_nat (unat v mod 32) :: byte"
  have m: "(ucast (v AND 31) :: byte) = ?m"
    using ucast_and_mask [of v 5] by (simp add: mask_eq_exp_minus_1)
  have low: "n < 5" if "bit ?m n" for n
    using that by (simp add: bit_simps flip: take_bit_eq_mod [where n = 5, simplified])
  have 32: "(32 :: byte) OR ?m = 32 + ?m"
    by (rule or_disjoint_add [where k = 5])
       (use low bit_exp_iff [of 5, where 'a = byte] in auto)
  have low': "n < 6" if "bit ((if c then 0 else 32) OR ?m) n" for n c
    using that low [of n] bit_exp_iff [of 5 n, where 'a = byte]
    by (auto simp: bit_or_iff split: if_splits)
  have 64: "(64 :: byte) OR ((if c then 0 else 32) OR ?m) = 64 + ((if c then 0 else 32) OR ?m)" for c
    by (rule or_disjoint_add [where k = 6])
       (use low' bit_exp_iff [of 6, where 'a = byte] in auto)
  have t: "EncodedTag (of_nat (encode_type_code type)) = of_nat (64 * encode_type_code type)"
    by (cases type) (simp_all add: EncodedTag_def varint_consts)
  have "tag_byte type v =
      of_nat (64 * encode_type_code type) OR ((if v < 32 then 0 else 32) OR ?m)"
    by (simp add: tag_byte_def varint_consts t m)
  also have "\<dots> = of_nat (64 * encode_type_code type) + ((if v < 32 then 0 else 32) OR ?m)"
  proof (cases type)
    case INVALID
    have "(of_nat (64 * 4) :: byte) = 0"
      by (rule trans [OF _ byte_256]) simp
    with INVALID show ?thesis
      by (simp only: encode_type_code.simps or.left_neutral add_0_left)
  qed (use 64 in simp_all)
  finally show ?thesis
    by (simp add: 32 word_less_nat_alt)
qed

text \<open>Every operation writes exactly its bytes when the buffer has room for them.\<close>

lemma varint_loop_writes:
  "writes (rd_ok env) contents (sink_limit env) (varint_loop env v) (varint_tail (unat v))"
proof (induction "unat v" arbitrary: v rule: less_induct)
  case less
  show ?case
  proof (cases "v = 0")
    case True
    then show ?thesis
      using buffer.skip_writes [of env] by (simp add: varint_loop.simps varint_tail.simps writes_def)
  next
    case False
    then have "unat (drop_bit NON_TAG_BYTE_OFFSET v) < unat v"
      by (simp add: unat_drop_7 unat_gt_0 div_less_dividend)
    then have rest: "writes (rd_ok env) contents (sink_limit env)
        (varint_loop env (drop_bit NON_TAG_BYTE_OFFSET v)) (varint_tail (unat v div 128))"
      using less by (metis unat_drop_7)
    have "varint_loop env v = and_then (Append env [non_tag_byte v])
        (varint_loop env (drop_bit NON_TAG_BYTE_OFFSET v))"
      using False
      by (auto simp: fun_eq_iff and_then_def varint_loop.simps [of env v] word_neq_0_conv split: prod.splits)
    moreover have "varint_tail (unat v) = [non_tag_byte v] @ varint_tail (unat v div 128)"
      using False by (simp add: varint_tail.simps [of "unat v"] non_tag_byte_eq unat_eq_0)
    ultimately show ?thesis
      using buffer.seq_writes [OF buffer.append_writes rest] by metis
  qed
qed

lemma UnsignedVarintEncoded_writes [sink_intros]:
  "writes (rd_ok env) contents (sink_limit env) (UnsignedVarintEncoded env type v) (varint type (unat v))"
proof -
  have "UnsignedVarintEncoded env type v = and_then (Append env [tag_byte type v])
      (varint_loop env (drop_bit TAG_BYTE_OFFSET v))"
    by (auto simp: fun_eq_iff and_then_def UnsignedVarintEncoded_def split: prod.splits)
  moreover have "varint type (unat v) = [tag_byte type v] @ varint_tail (unat (drop_bit TAG_BYTE_OFFSET v))"
    by (simp add: varint_def tag_byte_eq unat_drop_5)
  ultimately show ?thesis
    using buffer.seq_writes [OF buffer.append_writes varint_loop_writes] by metis
qed

lemma SignedVarintEncoded_writes [sink_intros]:
  "writes (rd_ok env) contents (sink_limit env) (SignedVarintEncoded env type v)
     (varint type (unat (zigzag v)))"
proof -
  have "SignedVarintEncoded env type v = UnsignedVarintEncoded env type (zigzag v)"
    by (simp add: fun_eq_iff SignedVarintEncoded_def)
  then show ?thesis
    by (simp add: UnsignedVarintEncoded_writes)
qed

lemma FloatingNumberEncoded_writes [sink_intros]:
  assumes "sz < 2 ^ 64"
  shows "writes (rd_ok env) contents (sink_limit env) (FloatingNumberEncoded env sz n) (float_bytes sz n)"
proof -
  have "FloatingNumberEncoded env sz n = and_then (UnsignedVarintEncoded env LENGTH_DELIMITED (of_nat sz))
      (Append env (le_bytes sz n))"
    by (auto simp: fun_eq_iff and_then_def FloatingNumberEncoded_def split: prod.splits)
  moreover have "unat (of_nat sz :: u64) = sz"
    using assms by (simp add: unat_of_nat)
  ultimately show ?thesis
    using buffer.seq_writes [OF UnsignedVarintEncoded_writes [of env LENGTH_DELIMITED "of_nat sz"]
        buffer.append_writes [of env "le_bytes sz n"]]
    by (simp add: float_bytes_def)
qed

lemma StringValueEncoded_writes [sink_intros]:
  assumes "length s < 2 ^ 64"
  shows "writes (rd_ok env) contents (sink_limit env) (StringValueEncoded env s) (string_bytes s)"
proof -
  have "StringValueEncoded env s =
      and_then (UnsignedVarintEncoded env LENGTH_DELIMITED (of_nat (length s)))
        (Append env (bytes_of_string s))"
    by (auto simp: fun_eq_iff and_then_def StringValueEncoded_def split: prod.splits)
  moreover have "unat (of_nat (length s) :: u64) = length s"
    using assms by (simp add: unat_of_nat)
  ultimately show ?thesis
    using buffer.seq_writes [OF UnsignedVarintEncoded_writes [of env LENGTH_DELIMITED "of_nat (length s)"]
        buffer.append_writes [of env "bytes_of_string s"]]
    by (simp add: string_bytes_def)
qed

lemma ValueTypeEncoded_writes [sink_intros]:
  "writes (rd_ok env) contents (sink_limit env) (ValueTypeEncoded env arr t cnt)
     [ParamValueType (if arr then 1 else 0) (value_type_code t) cnt]"
proof -
  have "ValueTypeEncoded env arr t cnt =
      Append env [ParamValueType (if arr then 1 else 0) (value_type_code t) cnt]"
    by (simp add: fun_eq_iff ValueTypeEncoded_def)
  then show ?thesis
    using buffer.append_writes [of env] by simp
qed

section \<open>Reading the bytes back\<close>

text \<open>
  The reader of the events is another repository; this is the reference decoder of the
  format, on natural numbers. Each decoder returns the value and the bytes it left.
\<close>

fun dec_tail :: "byte list \<Rightarrow> (nat \<times> byte list) option" where
  "dec_tail [] = None"
| "dec_tail (b # bs) =
     (if unat b < 128 then Some (unat b, bs)
      else map_option (\<lambda>(n, r). (unat b - 128 + 128 * n, r)) (dec_tail bs))"

fun dec_varint :: "encode_type \<Rightarrow> byte list \<Rightarrow> (nat \<times> byte list) option" where
  "dec_varint type [] = None"
| "dec_varint type (b # bs) =
     (if unat b div 64 \<noteq> encode_type_code type then None
      else if unat b div 32 mod 2 = 0 then Some (unat b mod 32, bs)
      else map_option (\<lambda>(n, r). (unat b mod 32 + 32 * n, r)) (dec_tail bs))"

definition dec_bytes :: "nat \<Rightarrow> byte list \<Rightarrow> (byte list \<times> byte list) option" where
  "dec_bytes n bs = (if length bs < n then None else Some (take n bs, drop n bs))"

definition dec_string :: "byte list \<Rightarrow> (string \<times> byte list) option" where
  "dec_string bs = (case dec_varint LENGTH_DELIMITED bs of
     None \<Rightarrow> None
   | Some (n, r) \<Rightarrow> map_option (\<lambda>(d, r'). (string_of_bytes d, r')) (dec_bytes n r))"

definition dec_float :: "nat \<Rightarrow> byte list \<Rightarrow> (nat \<times> byte list) option" where
  "dec_float sz bs = (case dec_varint LENGTH_DELIMITED bs of
     None \<Rightarrow> None
   | Some (n, r) \<Rightarrow> if n \<noteq> sz then None
       else map_option (\<lambda>(d, r'). (of_le_bytes d, r')) (dec_bytes n r))"

definition unzigzag :: "u64 \<Rightarrow> 64 word" where
  "unzigzag u = (if odd u then NOT (drop_bit 1 u) else drop_bit 1 u)"

lemma dec_tail_varint_tail [decode_simps]:
  "0 < n \<Longrightarrow> dec_tail (varint_tail n @ rest) = Some (n, rest)"
proof (induction n rule: varint_tail.induct)
  case (1 n)
  show ?case
  proof (cases "n < 128")
    case True
    with "1.prems" show ?thesis
      by (simp add: varint_tail.simps [of n] varint_tail.simps [of 0] unat_of_nat)
  next
    case False
    let ?b = "of_nat (n mod 128 + 128) :: byte"
    have b: "unat ?b = n mod 128 + 128"
      by (simp add: unat_of_nat del: of_nat_add)
    have "dec_tail (varint_tail (n div 128) @ rest) = Some (n div 128, rest)"
      using 1 False by simp
    moreover have "varint_tail n @ rest = ?b # varint_tail (n div 128) @ rest"
      using False by (simp add: varint_tail.simps [of n])
    ultimately show ?thesis
      using b by (simp del: of_nat_add)
  qed
qed

lemma head_parts:
  assumes "m < (32 :: nat)"
  shows "(64 * c + m) div 64 = c" "(64 * c + m + 32) div 64 = c"
    "(64 * c + m) mod 32 = m" "(64 * c + m + 32) mod 32 = m"
    "(64 * c + m) div 32 mod 2 = 0" "(64 * c + m + 32) div 32 mod 2 = 1"
proof -
  have e: "64 * c + m = m + 32 * (2 * c)" "64 * c + m + 32 = m + 32 * (2 * c + 1)"
    by simp_all
  have d: "(64 * c + m) div 32 = 2 * c" "(64 * c + m + 32) div 32 = 2 * c + 1"
    unfolding e using assms by simp_all
  show "(64 * c + m) div 64 = c" "(64 * c + m + 32) div 64 = c"
    using assms by simp_all
  show "(64 * c + m) mod 32 = m" "(64 * c + m + 32) mod 32 = m"
    using e assms by (metis mod_mult_self2 mod_less)+
  show "(64 * c + m) div 32 mod 2 = 0" "(64 * c + m + 32) div 32 mod 2 = 1"
    unfolding d by simp_all
qed

lemma dec_varint_varint [decode_simps]:
  assumes "type \<noteq> INVALID"
  shows "dec_varint type (varint type n @ rest) = Some (n, rest)"
proof -
  let ?v = "64 * encode_type_code type + n mod 32 + (if n < 32 then 0 else 32)"
  have c: "encode_type_code type < 4"
    using assms by (cases type) auto
  have "?v < 256"
  proof -
    have "n mod 32 < 32" by simp
    moreover have "(if n < 32 then 0 else 32) \<le> (32 :: nat)" by simp
    ultimately show ?thesis using c by linarith
  qed
  then have v: "unat (of_nat ?v :: byte) = ?v"
    by (simp add: unat_of_nat del: of_nat_add of_nat_mult)
  have parts: "?v div 64 = encode_type_code type" "?v mod 32 = n mod 32"
      "?v div 32 mod 2 = (if n < 32 then 0 else 1)"
    using head_parts [of "n mod 32" "encode_type_code type"] by auto
  show ?thesis
  proof (cases "n < 32")
    case True
    then show ?thesis
      using v parts by (simp add: varint_def varint_tail.simps [of 0] del: of_nat_add of_nat_mult)
  next
    case False
    then have "dec_tail (varint_tail (n div 32) @ rest) = Some (n div 32, rest)"
      by (intro dec_tail_varint_tail) simp
    then show ?thesis
      using v parts False by (simp add: varint_def del: of_nat_add of_nat_mult)
  qed
qed

lemma dec_string_string_bytes [decode_simps]:
  "dec_string (string_bytes s @ rest) = Some (s, rest)"
  by (simp add: dec_string_def string_bytes_def decode_simps dec_bytes_def)

lemma dec_float_float_bytes [decode_simps]:
  "n < 256 ^ sz \<Longrightarrow> dec_float sz (float_bytes sz n @ rest) = Some (n, rest)"
  by (simp add: dec_float_def float_bytes_def decode_simps dec_bytes_def)

lemma bit_zigzag:
  "bit (zigzag v) n \<longleftrightarrow> n < 64 \<and> ((0 < n \<and> bit v (n - 1)) \<noteq> (sint v < 0))"
proof -
  have "bit (push_bit 1 v) n \<longleftrightarrow> n < 64 \<and> 0 < n \<and> bit v (n - 1)"
    by (simp only: bit_push_bit_iff) (auto simp: Suc_le_eq)
  moreover have "bit (if 0 \<le> sint v then 0 else - 1 :: u64) n \<longleftrightarrow> n < 64 \<and> sint v < 0"
    by auto
  ultimately show ?thesis
    unfolding zigzag_def Let_def bit_xor_iff by auto
qed

lemma unzigzag_zigzag [decode_simps]: "unzigzag (zigzag v) = v"
proof (rule bit_word_eqI)
  fix n assume n: "n < LENGTH(64)"
  have odd: "odd (zigzag v) \<longleftrightarrow> sint v < 0"
    using bit_zigzag [of v 0] by (simp add: bit_0)
  have last: "bit v 63 \<longleftrightarrow> sint v < 0"
    using bit_last_iff [of v] by simp
  show "bit (unzigzag (zigzag v)) n \<longleftrightarrow> bit v n"
  proof (cases "n = 63")
    case True
    then show ?thesis
      using odd last by (auto simp: unzigzag_def bit_drop_bit_eq bit_not_iff bit_zigzag)
  next
    case False
    then have "Suc n < 64" using n by simp
    then show ?thesis
      using odd by (auto simp: unzigzag_def bit_drop_bit_eq bit_not_iff bit_zigzag)
  qed
qed

lemma length_varint_tail: "n < 128 ^ k \<Longrightarrow> length (varint_tail n) \<le> k"
proof (induction k arbitrary: n)
  case 0
  then show ?case by (simp add: varint_tail.simps [of 0])
next
  case (Suc k)
  then have "n div 128 < 128 ^ k"
    by (simp add: less_mult_imp_div_less mult.commute)
  with Suc.IH show ?case
    by (simp add: varint_tail.simps [of n])
qed

lemma length_varint: "n < 2 ^ 64 \<Longrightarrow> length (varint type n) \<le> 10"
proof -
  assume "n < 2 ^ 64"
  then have "n div 32 < 128 ^ 9" by simp
  then show ?thesis
    using length_varint_tail [of "n div 32" 9] by (simp add: varint_def)
qed

section \<open>Properties\<close>

text \<open>
  Unsigned integers survive the wire: appending a 64-bit value to a buffer with room
  for ten more bytes succeeds, adds at most ten bytes, and the reference decoder reads the
  same value back and stops right behind it.
\<close>

lemma UnsignedVarintEncoded_roundtrip:
  assumes "rd_ok env rd" "length (contents rd) + 10 \<le> sink_limit env" "type \<noteq> INVALID"
  shows "\<exists>rd' bs. UnsignedVarintEncoded env type v rd = (rd', True) \<and> rd_ok env rd' \<and>
    contents rd' = contents rd @ bs \<and> length bs \<le> 10 \<and>
    (\<forall>rest. dec_varint type (bs @ rest) = Some (unat v, rest))"
proof -
  have len: "length (varint type (unat v)) \<le> 10"
    using length_varint [of "unat v"] unsigned_less [where 'a = nat, of v] by simp
  then have room: "length (contents rd) + length (varint type (unat v)) \<le> sink_limit env"
    using assms(2) by simp
  then obtain rd' where "UnsignedVarintEncoded env type v rd = (rd', True)" "rd_ok env rd'"
      "contents rd' = contents rd @ varint type (unat v)"
    using writesD [OF UnsignedVarintEncoded_writes assms(1) room] by blast
  with len assms(3) show ?thesis
    by (auto simp: decode_simps)
qed

lemma UnsignedVarintEncoded_roundtrip_example:
  "\<exists>rd' bs. UnsignedVarintEncoded std_env VARINT 300 (RawData_new std_env) = (rd', True) \<and>
     contents rd' = bs \<and> length bs \<le> 10 \<and> dec_varint VARINT bs = Some (300, [])"
proof -
  have "length (contents (RawData_new std_env)) + 10 \<le> sink_limit std_env"
    by (simp add: sink_limit_def std_env_def EXPAND_BUF_SIZE_def)
  from UnsignedVarintEncoded_roundtrip [OF rd_ok_new [OF mem_ok_std_env] this, of VARINT 300]
  show ?thesis
    by (simp, metis append_Nil2)
qed

text \<open>
  Signed integers survive the wire: the zigzag code is injective on all 64-bit values,
  the most negative one included, and its decoder is its inverse.
\<close>

theorem SignedVarintEncoded_roundtrip:
  assumes "rd_ok env rd" "length (contents rd) + 10 \<le> sink_limit env"
  shows "\<exists>rd' bs u. SignedVarintEncoded env VARINT v rd = (rd', True) \<and>
    contents rd' = contents rd @ bs \<and>
    (\<forall>rest. dec_varint VARINT (bs @ rest) = Some (unat u, rest)) \<and> unzigzag u = v"
proof -
  have "length (varint VARINT (unat (zigzag v))) \<le> 10"
    using length_varint [of "unat (zigzag v)"] unsigned_less [where 'a = nat, of "zigzag v"] by simp
  then have room: "length (contents rd) + length (varint VARINT (unat (zigzag v))) \<le> sink_limit env"
    using assms(2) by simp
  then obtain rd' where "SignedVarintEncoded env VARINT v rd = (rd', True)"
      "contents rd' = contents rd @ varint VARINT (unat (zigzag v))"
    using writesD [OF SignedVarintEncoded_writes assms(1) room] by blast
  then show ?thesis
    by (auto simp: decode_simps)
qed

theorem SignedVarintEncoded_roundtrip_witness:
  "\<exists>rd' bs u. SignedVarintEncoded std_env VARINT (- 1) (RawData_new std_env) = (rd', True) \<and>
     contents rd' = bs \<and> dec_varint VARINT bs = Some (unat u, []) \<and> unzigzag u = - 1"
proof -
  have "length (contents (RawData_new std_env)) + 10 \<le> sink_limit std_env"
    by (simp add: sink_limit_def std_env_def EXPAND_BUF_SIZE_def)
  from SignedVarintEncoded_roundtrip [OF rd_ok_new [OF mem_ok_std_env] this, of "- 1"]
  show ?thesis
    by (simp, metis append_Nil2)
qed

end
