(* ===== verification/EncodedParam.thy ===== *)
theory EncodedParam
  imports RawDataEncoder
begin

text \<open>
  The class hierarchy of \<^verbatim>\<open>encoded_param.h\<close> / \<^verbatim>\<open>encoded_param.cpp\<close>: one constructor of
  \<open>param_value\<close> per subclass (the two instances of the floating-point templates are told
  apart inside it), the constructors with their truncation to \<^verbatim>\<open>MAX_ARRAY_SIZE\<close> items and
  their normalisation of non-finite numbers, and the virtual \<^verbatim>\<open>EncodeKey\<close>,
  \<^verbatim>\<open>EncodeValueType\<close> and \<^verbatim>\<open>EncodeValue\<close> that \<^verbatim>\<open>Encode\<close> chains.
  The theory proves that a parameter writes its wire bytes and that they decode to it.
\<close>

section \<open>Objects\<close>

datatype floating = Float "32 word" | Double "64 word"
datatype floating_array = FloatArr "32 word list" | DoubleArr "64 word list"

datatype param_value =
    PUnsigned u64
  | PUnsignedArr "u64 list"
  | PSigned "64 word"
  | PSignedArr "64 word list"
  | PFloating floating
  | PFloatingArr floating_array
  | PString string
  | PStringArr "string list"

text \<open>\<open>ep_rawData\<close> is the shared pointer to the buffer of the event, \<open>None\<close> when null.\<close>

record encoded_param =
  ep_key :: string
  ep_val :: param_value
  ep_rawData :: "raw_data option"
  ep_hasEncoded :: bool

definition EncodedParam_base :: "string \<Rightarrow> param_value \<Rightarrow> encoded_param" where
  "EncodedParam_base key v = \<lparr>ep_key = key, ep_val = v, ep_rawData = None, ep_hasEncoded = False\<rparr>"

text \<open>The copying loop of the array constructors, with the running index.\<close>

fun copy_vals :: "('a \<Rightarrow> 'b) \<Rightarrow> nat \<Rightarrow> 'a list \<Rightarrow> 'b list" where
  "copy_vals f index [] = []"
| "copy_vals f index (item # vals) =
     (let index' = index + 1 in
      if index' > MAX_ARRAY_SIZE then [] else f item # copy_vals f index' vals)"

text \<open>\<^verbatim>\<open>std::isfinite\<close> on the IEEE-754 bit patterns: the exponent bits are not all set.\<close>

definition isfinite32 :: "32 word \<Rightarrow> bool" where
  "isfinite32 w \<longleftrightarrow> drop_bit 23 w AND 0xFF \<noteq> 0xFF"

definition isfinite64 :: "64 word \<Rightarrow> bool" where
  "isfinite64 w \<longleftrightarrow> drop_bit 52 w AND 0x7FF \<noteq> 0x7FF"

definition finite_or_zero32 :: "32 word \<Rightarrow> 32 word" where
  "finite_or_zero32 w = (if isfinite32 w then w else 0)"

definition finite_or_zero64 :: "64 word \<Rightarrow> 64 word" where
  "finite_or_zero64 w = (if isfinite64 w then w else 0)"

definition UnsignedVarintEncodedParam :: "string \<Rightarrow> u64 \<Rightarrow> encoded_param" where
  "UnsignedVarintEncodedParam key val = EncodedParam_base key (PUnsigned val)"

definition UnsignedVarintEncodedArrayParam :: "string \<Rightarrow> u64 list \<Rightarrow> encoded_param" where
  "UnsignedVarintEncodedArrayParam key vals =
     EncodedParam_base key (PUnsignedArr (copy_vals (\<lambda>x. x) 0 vals))"

definition SignedVarintEncodedParam :: "string \<Rightarrow> 64 word \<Rightarrow> encoded_param" where
  "SignedVarintEncodedParam key val = EncodedParam_base key (PSigned val)"

definition SignedVarintEncodedArrayParam :: "string \<Rightarrow> 64 word list \<Rightarrow> encoded_param" where
  "SignedVarintEncodedArrayParam key vals =
     EncodedParam_base key (PSignedArr (copy_vals (\<lambda>x. x) 0 vals))"

definition FloatingNumberEncodedParam :: "string \<Rightarrow> floating \<Rightarrow> encoded_param" where
  "FloatingNumberEncodedParam key val = EncodedParam_base key (PFloating (case val of
     Float w \<Rightarrow> Float (finite_or_zero32 w) | Double w \<Rightarrow> Double (finite_or_zero64 w)))"

definition FloatingNumberEncodedArrayParam :: "string \<Rightarrow> floating_array \<Rightarrow> encoded_param" where
  "FloatingNumberEncodedArrayParam key vals = EncodedParam_base key (PFloatingArr (case vals of
     FloatArr ws \<Rightarrow> FloatArr (copy_vals finite_or_zero32 0 ws)
   | DoubleArr ws \<Rightarrow> DoubleArr (copy_vals finite_or_zero64 0 ws)))"

definition StringEncodedParam :: "string \<Rightarrow> string \<Rightarrow> encoded_param" where
  "StringEncodedParam key val = EncodedParam_base key (PString val)"

definition StringEncodedArrayParam :: "string \<Rightarrow> string list \<Rightarrow> encoded_param" where
  "StringEncodedArrayParam key vals = EncodedParam_base key (PStringArr (copy_vals (\<lambda>x. x) 0 vals))"

section \<open>Encoding of the value types\<close>

definition Unsigned_EncodeValueType :: "mem_env \<Rightarrow> raw_data \<Rightarrow> raw_data \<times> bool" where
  "Unsigned_EncodeValueType env = ValueTypeEncoded env False UINT64 0"

definition UnsignedArray_EncodeValueType :: "mem_env \<Rightarrow> raw_data \<Rightarrow> raw_data \<times> bool" where
  "UnsignedArray_EncodeValueType env = ValueTypeEncoded env True UINT64 0"

definition Signed_EncodeValueType :: "mem_env \<Rightarrow> raw_data \<Rightarrow> raw_data \<times> bool" where
  "Signed_EncodeValueType env = ValueTypeEncoded env False INT64 0"

definition SignedArray_EncodeValueType :: "mem_env \<Rightarrow> raw_data \<Rightarrow> raw_data \<times> bool" where
  "SignedArray_EncodeValueType env = ValueTypeEncoded env True INT64 0"

definition Floating_EncodeValueType :: "mem_env \<Rightarrow> floating \<Rightarrow> raw_data \<Rightarrow> raw_data \<times> bool" where
  "Floating_EncodeValueType env val =
     (let valueType = (case val of Float _ \<Rightarrow> FLOAT | Double _ \<Rightarrow> DOUBLE)
      in ValueTypeEncoded env False valueType 0)"

definition FloatingArray_EncodeValueType ::
  "mem_env \<Rightarrow> floating_array \<Rightarrow> raw_data \<Rightarrow> raw_data \<times> bool" where
  "FloatingArray_EncodeValueType env vals =
     (let valueType = (case vals of FloatArr _ \<Rightarrow> FLOAT | DoubleArr _ \<Rightarrow> DOUBLE)
      in ValueTypeEncoded env True valueType 0)"

definition String_EncodeValueType :: "mem_env \<Rightarrow> raw_data \<Rightarrow> raw_data \<times> bool" where
  "String_EncodeValueType env = ValueTypeEncoded env False STRING 0"

definition StringArray_EncodeValueType :: "mem_env \<Rightarrow> raw_data \<Rightarrow> raw_data \<times> bool" where
  "StringArray_EncodeValueType env = ValueTypeEncoded env True STRING 0"

section \<open>Encoding of the values\<close>

text \<open>
  The array encoders start with the item count and go on as long as every step succeeds
  (\<^verbatim>\<open>ret = ret && ...\<close>).
\<close>

definition Array_EncodeValue ::
  "mem_env \<Rightarrow> ('a \<Rightarrow> raw_data \<Rightarrow> raw_data \<times> bool) \<Rightarrow> 'a list \<Rightarrow> raw_data \<Rightarrow> raw_data \<times> bool" where
  "Array_EncodeValue env item_op vals =
     and_then (UnsignedVarintEncoded env LENGTH_DELIMITED (of_nat (length vals)))
       (and_all item_op vals)"

definition Unsigned_EncodeValue :: "mem_env \<Rightarrow> u64 \<Rightarrow> raw_data \<Rightarrow> raw_data \<times> bool" where
  "Unsigned_EncodeValue env val = UnsignedVarintEncoded env VARINT val"

definition UnsignedArray_EncodeValue :: "mem_env \<Rightarrow> u64 list \<Rightarrow> raw_data \<Rightarrow> raw_data \<times> bool" where
  "UnsignedArray_EncodeValue env vals = Array_EncodeValue env (UnsignedVarintEncoded env VARINT) vals"

definition Signed_EncodeValue :: "mem_env \<Rightarrow> 64 word \<Rightarrow> raw_data \<Rightarrow> raw_data \<times> bool" where
  "Signed_EncodeValue env val = SignedVarintEncoded env VARINT val"

definition SignedArray_EncodeValue :: "mem_env \<Rightarrow> 64 word list \<Rightarrow> raw_data \<Rightarrow> raw_data \<times> bool" where
  "SignedArray_EncodeValue env vals = Array_EncodeValue env (SignedVarintEncoded env VARINT) vals"

definition Floating_EncodeValue :: "mem_env \<Rightarrow> floating \<Rightarrow> raw_data \<Rightarrow> raw_data \<times> bool" where
  "Floating_EncodeValue env val = (case val of
     Float w \<Rightarrow> FloatingNumberEncoded env 4 (unat w)
   | Double w \<Rightarrow> FloatingNumberEncoded env 8 (unat w))"

definition FloatingArray_EncodeValue ::
  "mem_env \<Rightarrow> floating_array \<Rightarrow> raw_data \<Rightarrow> raw_data \<times> bool" where
  "FloatingArray_EncodeValue env vals = (case vals of
     FloatArr ws \<Rightarrow> Array_EncodeValue env (\<lambda>w. FloatingNumberEncoded env 4 (unat w)) ws
   | DoubleArr ws \<Rightarrow> Array_EncodeValue env (\<lambda>w. FloatingNumberEncoded env 8 (unat w)) ws)"

definition String_EncodeValue :: "mem_env \<Rightarrow> string \<Rightarrow> raw_data \<Rightarrow> raw_data \<times> bool" where
  "String_EncodeValue env val = StringValueEncoded env val"

definition StringArray_EncodeValue :: "mem_env \<Rightarrow> string list \<Rightarrow> raw_data \<Rightarrow> raw_data \<times> bool" where
  "StringArray_EncodeValue env vals = Array_EncodeValue env (StringValueEncoded env) vals"

section \<open>The base class\<close>

text \<open>
  Every virtual method starts with the null check of \<^verbatim>\<open>rawData_\<close>; \<open>on_raw_data\<close> is this
  check around a writer.
\<close>

definition on_raw_data ::
  "(raw_data \<Rightarrow> raw_data \<times> bool) \<Rightarrow> encoded_param \<Rightarrow> encoded_param \<times> bool" where
  "on_raw_data w ep = (case ep_rawData ep of
     None \<Rightarrow> (ep, False)
   | Some rd \<Rightarrow> (case w rd of (rd', ok) \<Rightarrow> (ep\<lparr>ep_rawData := Some rd'\<rparr>, ok)))"

definition SetRawData :: "raw_data option \<Rightarrow> encoded_param \<Rightarrow> encoded_param" where
  "SetRawData rd ep = ep\<lparr>ep_rawData := rd\<rparr>"

definition EncodeKey :: "mem_env \<Rightarrow> encoded_param \<Rightarrow> encoded_param \<times> bool" where
  "EncodeKey env ep = on_raw_data (StringValueEncoded env (ep_key ep)) ep"

definition EncodeValueType :: "mem_env \<Rightarrow> encoded_param \<Rightarrow> encoded_param \<times> bool" where
  "EncodeValueType env ep = on_raw_data (case ep_val ep of
       PUnsigned _ \<Rightarrow> Unsigned_EncodeValueType env
     | PUnsignedArr _ \<Rightarrow> UnsignedArray_EncodeValueType env
     | PSigned _ \<Rightarrow> Signed_EncodeValueType env
     | PSignedArr _ \<Rightarrow> SignedArray_EncodeValueType env
     | PFloating v \<Rightarrow> Floating_EncodeValueType env v
     | PFloatingArr v \<Rightarrow> FloatingArray_EncodeValueType env v
     | PString _ \<Rightarrow> String_EncodeValueType env
     | PStringArr _ \<Rightarrow> StringArray_EncodeValueType env) ep"

definition EncodeValue :: "mem_env \<Rightarrow> encoded_param \<Rightarrow> encoded_param \<times> bool" where
  "EncodeValue env ep = on_raw_data (case ep_val ep of
       PUnsigned v \<Rightarrow> Unsigned_EncodeValue env v
     | PUnsignedArr v \<Rightarrow> UnsignedArray_EncodeValue env v
     | PSigned v \<Rightarrow> Signed_EncodeValue env v
     | PSignedArr v \<Rightarrow> SignedArray_EncodeValue env v
     | PFloating v \<Rightarrow> Floating_EncodeValue env v
     | PFloatingArr v \<Rightarrow> FloatingArray_EncodeValue env v
     | PString v \<Rightarrow> String_EncodeValue env v
     | PStringArr v \<Rightarrow> StringArray_EncodeValue env v) ep"

definition Encode :: "mem_env \<Rightarrow> encoded_param \<Rightarrow> encoded_param \<times> bool" where
  "Encode env ep =
     (case and_then (EncodeKey env) (and_then (EncodeValueType env) (EncodeValue env)) ep of
        (ep', ok) \<Rightarrow> (ep'\<lparr>ep_hasEncoded := ok\<rparr>, ok))"

definition GetRawData :: "mem_env \<Rightarrow> encoded_param \<Rightarrow> encoded_param \<times> raw_data option" where
  "GetRawData env ep =
     (let ep' = (if \<not> ep_hasEncoded ep then fst (Encode env ep) else ep) in (ep', ep_rawData ep'))"

section \<open>What a parameter writes\<close>

lemma copy_vals_take: "copy_vals f index vals = map f (take (MAX_ARRAY_SIZE - index) vals)"
proof (induction f index vals rule: copy_vals.induct)
  case (1 f index)
  then show ?case by simp
next
  case (2 f index item vals)
  show ?case
  proof (cases "index + 1 > MAX_ARRAY_SIZE")
    case True
    then show ?thesis by (simp add: Let_def)
  next
    case False
    then have "MAX_ARRAY_SIZE - index = Suc (MAX_ARRAY_SIZE - (index + 1))" by simp
    with 2 False show ?thesis by (simp add: Let_def)
  qed
qed

definition type_writer :: "mem_env \<Rightarrow> param_value \<Rightarrow> raw_data \<Rightarrow> raw_data \<times> bool" where
  "type_writer env v = (case v of
       PUnsigned _ \<Rightarrow> Unsigned_EncodeValueType env
     | PUnsignedArr _ \<Rightarrow> UnsignedArray_EncodeValueType env
     | PSigned _ \<Rightarrow> Signed_EncodeValueType env
     | PSignedArr _ \<Rightarrow> SignedArray_EncodeValueType env
     | PFloating v \<Rightarrow> Floating_EncodeValueType env v
     | PFloatingArr v \<Rightarrow> FloatingArray_EncodeValueType env v
     | PString _ \<Rightarrow> String_EncodeValueType env
     | PStringArr _ \<Rightarrow> StringArray_EncodeValueType env)"

definition value_writer :: "mem_env \<Rightarrow> param_value \<Rightarrow> raw_data \<Rightarrow> raw_data \<times> bool" where
  "value_writer env v = (case v of
       PUnsigned v \<Rightarrow> Unsigned_EncodeValue env v
     | PUnsignedArr v \<Rightarrow> UnsignedArray_EncodeValue env v
     | PSigned v \<Rightarrow> Signed_EncodeValue env v
     | PSignedArr v \<Rightarrow> SignedArray_EncodeValue env v
     | PFloating v \<Rightarrow> Floating_EncodeValue env v
     | PFloatingArr v \<Rightarrow> FloatingArray_EncodeValue env v
     | PString v \<Rightarrow> String_EncodeValue env v
     | PStringArr v \<Rightarrow> StringArray_EncodeValue env v)"

definition param_writer :: "mem_env \<Rightarrow> string \<Rightarrow> param_value \<Rightarrow> raw_data \<Rightarrow> raw_data \<times> bool" where
  "param_writer env k v =
     and_then (StringValueEncoded env k) (and_then (type_writer env v) (value_writer env v))"

lemma Encode_param_writer:
  assumes "ep_rawData ep = Some rd"
  shows "Encode env ep = (case param_writer env (ep_key ep) (ep_val ep) rd of
    (rd', ok) \<Rightarrow> (ep\<lparr>ep_rawData := Some rd', ep_hasEncoded := ok\<rparr>, ok))"
  using assms
  by (auto simp: Encode_def and_then_def EncodeKey_def EncodeValueType_def EncodeValue_def
      on_raw_data_def param_writer_def type_writer_def value_writer_def split: prod.splits)

lemma Encode_null: "ep_rawData ep = None \<Longrightarrow> snd (Encode env ep) = False"
  by (simp add: Encode_def and_then_def EncodeKey_def on_raw_data_def)

text \<open>The bytes of a value: its type byte and its encoding.\<close>

definition array_bytes :: "('a \<Rightarrow> byte list) \<Rightarrow> 'a list \<Rightarrow> byte list" where
  "array_bytes f xs = varint LENGTH_DELIMITED (length xs) @ concat (map f xs)"

fun value_kind :: "param_value \<Rightarrow> bool \<times> value_type" where
  "value_kind (PUnsigned _) = (False, UINT64)"
| "value_kind (PUnsignedArr _) = (True, UINT64)"
| "value_kind (PSigned _) = (False, INT64)"
| "value_kind (PSignedArr _) = (True, INT64)"
| "value_kind (PFloating (Float _)) = (False, FLOAT)"
| "value_kind (PFloating (Double _)) = (False, DOUBLE)"
| "value_kind (PFloatingArr (FloatArr _)) = (True, FLOAT)"
| "value_kind (PFloatingArr (DoubleArr _)) = (True, DOUBLE)"
| "value_kind (PString _) = (False, STRING)"
| "value_kind (PStringArr _) = (True, STRING)"

fun value_bytes :: "param_value \<Rightarrow> byte list" where
  "value_bytes (PUnsigned v) = varint VARINT (unat v)"
| "value_bytes (PUnsignedArr vs) = array_bytes (\<lambda>v. varint VARINT (unat v)) vs"
| "value_bytes (PSigned v) = varint VARINT (unat (zigzag v))"
| "value_bytes (PSignedArr vs) = array_bytes (\<lambda>v. varint VARINT (unat (zigzag v))) vs"
| "value_bytes (PFloating (Float w)) = float_bytes 4 (unat w)"
| "value_bytes (PFloating (Double w)) = float_bytes 8 (unat w)"
| "value_bytes (PFloatingArr (FloatArr ws)) = array_bytes (\<lambda>w. float_bytes 4 (unat w)) ws"
| "value_bytes (PFloatingArr (DoubleArr ws)) = array_bytes (\<lambda>w. float_bytes 8 (unat w)) ws"
| "value_bytes (PString s) = string_bytes s"
| "value_bytes (PStringArr ss) = array_bytes string_bytes ss"

definition kind_byte :: "param_value \<Rightarrow> byte" where
  "kind_byte v = (case value_kind v of (arr, t) \<Rightarrow>
     ParamValueType (if arr then 1 else 0) (value_type_code t) 0)"

definition param_bytes :: "string \<times> param_value \<Rightarrow> byte list" where
  "param_bytes kv = (case kv of (k, v) \<Rightarrow> string_bytes k @ kind_byte v # value_bytes v)"

text \<open>Lengths are 64-bit quantities: the strings and arrays of a value fit the address space.\<close>

fun addressable :: "param_value \<Rightarrow> bool" where
  "addressable (PUnsignedArr vs) = (length vs < 2 ^ 64)"
| "addressable (PSignedArr vs) = (length vs < 2 ^ 64)"
| "addressable (PFloatingArr (FloatArr ws)) = (length ws < 2 ^ 64)"
| "addressable (PFloatingArr (DoubleArr ws)) = (length ws < 2 ^ 64)"
| "addressable (PString s) = (length s < 2 ^ 64)"
| "addressable (PStringArr ss) = (length ss < 2 ^ 64 \<and> (\<forall>s \<in> set ss. length s < 2 ^ 64))"
| "addressable _ = True"

lemma Array_EncodeValue_writes:
  assumes "length xs < 2 ^ 64"
    and "\<And>x. x \<in> set xs \<Longrightarrow> writes (rd_ok env) contents (sink_limit env) (w x) (f x)"
  shows "writes (rd_ok env) contents (sink_limit env) (Array_EncodeValue env w xs) (array_bytes f xs)"
proof -
  have "unat (of_nat (length xs) :: u64) = length xs"
    using assms(1) by (simp add: unat_of_nat)
  then have "writes (rd_ok env) contents (sink_limit env)
      (UnsignedVarintEncoded env LENGTH_DELIMITED (of_nat (length xs))) (varint LENGTH_DELIMITED (length xs))"
    using UnsignedVarintEncoded_writes [of env LENGTH_DELIMITED "of_nat (length xs)"] by simp
  from buffer.seq_writes [OF this buffer.all_writes [OF assms(2)]] show ?thesis
    by (simp add: Array_EncodeValue_def array_bytes_def)
qed

lemmas value_op_defs = Unsigned_EncodeValue_def UnsignedArray_EncodeValue_def Signed_EncodeValue_def
  SignedArray_EncodeValue_def Floating_EncodeValue_def FloatingArray_EncodeValue_def
  String_EncodeValue_def StringArray_EncodeValue_def

lemmas type_op_defs = Unsigned_EncodeValueType_def UnsignedArray_EncodeValueType_def
  Signed_EncodeValueType_def SignedArray_EncodeValueType_def Floating_EncodeValueType_def
  FloatingArray_EncodeValueType_def String_EncodeValueType_def StringArray_EncodeValueType_def

lemma value_writer_writes:
  assumes "addressable v"
  shows "writes (rd_ok env) contents (sink_limit env) (value_writer env v) (value_bytes v)"
  using assms
  by (cases v rule: value_bytes.cases)
     (auto simp: value_writer_def value_op_defs intro!: Array_EncodeValue_writes sink_intros)

lemma type_writer_writes:
  "writes (rd_ok env) contents (sink_limit env) (type_writer env v) [kind_byte v]"
proof -
  have "type_writer env v =
      ValueTypeEncoded env (fst (value_kind v)) (snd (value_kind v)) 0"
    by (cases v rule: value_kind.cases) (simp_all add: type_writer_def type_op_defs Let_def)
  then show ?thesis
    using ValueTypeEncoded_writes [of env "fst (value_kind v)" "snd (value_kind v)" 0]
    by (simp add: kind_byte_def case_prod_beta)
qed

lemma param_writer_writes [sink_intros]:
  assumes "addressable v" "length k < 2 ^ 64"
  shows "writes (rd_ok env) contents (sink_limit env) (param_writer env k v) (param_bytes (k, v))"
  using buffer.seq_writes [OF StringValueEncoded_writes [OF assms(2)]
      buffer.seq_writes [OF type_writer_writes value_writer_writes [OF assms(1)]]]
  by (simp add: param_writer_def param_bytes_def)

section \<open>Reading a parameter back\<close>

primrec dec_times :: "nat \<Rightarrow> (byte list \<Rightarrow> ('a \<times> byte list) option) \<Rightarrow> byte list \<Rightarrow>
    ('a list \<times> byte list) option" where
  "dec_times 0 d bs = Some ([], bs)"
| "dec_times (Suc n) d bs = (case d bs of
     None \<Rightarrow> None
   | Some (x, r) \<Rightarrow> map_option (\<lambda>(xs, r'). (x # xs, r')) (dec_times n d r))"

definition dec_array :: "(byte list \<Rightarrow> ('a \<times> byte list) option) \<Rightarrow> byte list \<Rightarrow>
    ('a list \<times> byte list) option" where
  "dec_array d bs = (case dec_varint LENGTH_DELIMITED bs of
     None \<Rightarrow> None | Some (n, r) \<Rightarrow> dec_times n d r)"

definition dec_map :: "('a \<Rightarrow> 'b) \<Rightarrow> ('a \<times> byte list) option \<Rightarrow> ('b \<times> byte list) option" where
  "dec_map f = map_option (\<lambda>(x, r). (f x, r))"

definition dec_value :: "bool \<Rightarrow> nat \<Rightarrow> byte list \<Rightarrow> (param_value \<times> byte list) option" where
  "dec_value arr t bs =
    (if t = value_type_code UINT64 \<and> \<not> arr
       then dec_map (\<lambda>n. PUnsigned (of_nat n)) (dec_varint VARINT bs)
     else if t = value_type_code UINT64
       then dec_map (\<lambda>ns. PUnsignedArr (map of_nat ns)) (dec_array (dec_varint VARINT) bs)
     else if t = value_type_code INT64 \<and> \<not> arr
       then dec_map (\<lambda>n. PSigned (unzigzag (of_nat n))) (dec_varint VARINT bs)
     else if t = value_type_code INT64
       then dec_map (\<lambda>ns. PSignedArr (map (\<lambda>n. unzigzag (of_nat n)) ns)) (dec_array (dec_varint VARINT) bs)
     else if t = value_type_code FLOAT \<and> \<not> arr
       then dec_map (\<lambda>n. PFloating (Float (of_nat n))) (dec_float 4 bs)
     else if t = value_type_code FLOAT
       then dec_map (\<lambda>ns. PFloatingArr (FloatArr (map of_nat ns))) (dec_array (dec_float 4) bs)
     else if t = value_type_code DOUBLE \<and> \<not> arr
       then dec_map (\<lambda>n. PFloating (Double (of_nat n))) (dec_float 8 bs)
     else if t = value_type_code DOUBLE
       then dec_map (\<lambda>ns. PFloatingArr (DoubleArr (map of_nat ns))) (dec_array (dec_float 8) bs)
     else if t = value_type_code STRING \<and> \<not> arr
       then dec_map PString (dec_string bs)
     else if t = value_type_code STRING
       then dec_map PStringArr (dec_array dec_string bs)
     else None)"

definition dec_param :: "byte list \<Rightarrow> ((string \<times> param_value) \<times> byte list) option" where
  "dec_param bs = (case dec_string bs of
     None \<Rightarrow> None
   | Some (k, []) \<Rightarrow> None
   | Some (k, b # r) \<Rightarrow> dec_map (Pair k) (dec_value (odd (unat b)) (unat b div 2 mod 16) r))"

lemma dec_times_concat:
  assumes "\<And>x rest. x \<in> set xs \<Longrightarrow> d (f x @ rest) = Some (g x, rest)"
  shows "dec_times (length xs) d (concat (map f xs) @ rest) = Some (map g xs, rest)"
  using assms by (induction xs) auto

lemma dec_array_array_bytes [decode_simps]:
  assumes "\<And>x rest. x \<in> set xs \<Longrightarrow> d (f x @ rest) = Some (g x, rest)"
  shows "dec_array d (array_bytes f xs @ rest) = Some (map g xs, rest)"
  using dec_times_concat [of xs d f g, OF assms]
  by (simp add: dec_array_def array_bytes_def decode_simps)

lemma float_range [simp]:
  "unat (w :: 32 word) < 4294967296" "unat (v :: 64 word) < 18446744073709551616"
  using unsigned_less [where 'a = nat, of w] unsigned_less [where 'a = nat, of v] by simp_all

lemma dec_value_value_bytes:
  "value_kind v = (arr, t) \<Longrightarrow> dec_value arr (value_type_code t) (value_bytes v @ rest) = Some (v, rest)"
  by (cases v rule: value_bytes.cases)
     (auto simp: dec_value_def dec_map_def decode_simps comp_def
        dec_array_array_bytes [where g = unat]
        dec_array_array_bytes [where g = "\<lambda>v. unat (zigzag v)"]
        dec_array_array_bytes [where g = "\<lambda>s. s"])

lemma kind_byte_parts:
  assumes "value_kind v = (arr, t)"
  shows "odd (unat (kind_byte v)) = arr" "unat (kind_byte v) div 2 mod 16 = value_type_code t"
  using assms by (cases v rule: value_kind.cases; simp add: kind_byte_def ParamValueType_def)+

lemma dec_param_param_bytes [decode_simps]:
  "dec_param (param_bytes kv @ rest) = Some (kv, rest)"
proof -
  obtain k v where kv: "kv = (k, v)" by force
  obtain arr t where kind: "value_kind v = (arr, t)" by force
  show ?thesis
    using dec_value_value_bytes [OF kind, of rest] kind_byte_parts [OF kind]
    by (simp add: kv dec_param_def param_bytes_def decode_simps dec_map_def)
qed

section \<open>Properties\<close>

text \<open>
  C16. A parameter survives the wire: encoding any parameter object that holds a buffer
  with room for it succeeds and appends bytes from which the reference decoder recovers
  the key, the type and the value of every item, and nothing else.
\<close>

theorem Encode_roundtrip:
  assumes "ep_rawData ep = Some rd" "rd_ok env rd" "addressable (ep_val ep)" "length (ep_key ep) < 2 ^ 64"
    and "length (contents rd) + length (param_bytes (ep_key ep, ep_val ep)) \<le> sink_limit env"
  shows "\<exists>ep' rd' bs. Encode env ep = (ep', True) \<and> ep_rawData ep' = Some rd' \<and> rd_ok env rd' \<and>
    contents rd' = contents rd @ bs \<and>
    (\<forall>rest. dec_param (bs @ rest) = Some ((ep_key ep, ep_val ep), rest))"
proof -
  obtain rd' where "param_writer env (ep_key ep) (ep_val ep) rd = (rd', True)" "rd_ok env rd'"
      "contents rd' = contents rd @ param_bytes (ep_key ep, ep_val ep)"
    using writesD [OF param_writer_writes [OF assms(3,4)] assms(2,5)] by blast
  then show ?thesis
    using Encode_param_writer [OF assms(1)] by (auto simp: decode_simps)
qed

theorem Encode_roundtrip_witness:
  "\<exists>ep' rd' bs. Encode std_env (SetRawData (Some (RawData_new std_env)) (StringEncodedParam ''K'' ''ab''))
     = (ep', True) \<and> ep_rawData ep' = Some rd' \<and> contents rd' = bs \<and>
     dec_param bs = Some ((''K'', PString ''ab''), [])"
proof -
  let ?ep = "SetRawData (Some (RawData_new std_env)) (StringEncodedParam ''K'' ''ab'')"
  have ep: "ep_rawData ?ep = Some (RawData_new std_env)" "ep_key ?ep = ''K''" "ep_val ?ep = PString ''ab''"
    by (simp_all add: SetRawData_def StringEncodedParam_def EncodedParam_base_def)
  have "length (contents (RawData_new std_env)) + length (param_bytes (ep_key ?ep, ep_val ?ep))
      \<le> sink_limit std_env"
    unfolding ep
    by (simp add: param_bytes_def string_bytes_def varint_def varint_tail.simps [of 0] sink_limit_def
        std_env_def EXPAND_BUF_SIZE_def)
  then obtain ep' rd' bs where "Encode std_env ?ep = (ep', True)" "ep_rawData ep' = Some rd'"
      "contents rd' = bs" "\<forall>rest. dec_param (bs @ rest) = Some ((''K'', PString ''ab''), rest)"
    using Encode_roundtrip [OF ep(1) rd_ok_new [OF mem_ok_std_env]] by (auto simp: ep)
  then show ?thesis
    by (metis append_Nil2)
qed

end
