(* ===== verification/StringFilter.thy ===== *)
theory StringFilter
  imports SysEventDef
begin

text \<open>
  \<^verbatim>\<open>StringFilter\<close> (stringfilter.cpp): the two static tables its constructor fills, the
  name check run over the state table and the escaping of string values. The theory
  proves that the table walk accepts exactly the identifiers of bounded length, and that
  escaping is undone by JSON unescaping and yields a valid JSON string body.
\<close>

section \<open>Tables\<close>

definition CHAR_RANGE :: nat where "CHAR_RANGE = 128"
definition STATE_NUM :: int where "STATE_NUM = 2"
definition STATE_BEGIN :: int where "STATE_BEGIN = 0"
definition STATE_RUN :: int where "STATE_RUN = 1"
definition STATE_STOP :: int where "STATE_STOP = -1"

lemmas state_defs = CHAR_RANGE_def STATE_NUM_def STATE_BEGIN_def STATE_RUN_def STATE_STOP_def

definition escape_mapping :: "(char \<times> string) list" where
  "escape_mapping =
     [(CHR 0x5C, [CHR 0x5C, CHR 0x5C]), (CHR 0x22, [CHR 0x5C, CHR 0x22]),
      (CHR 0x08, [CHR 0x5C, CHR ''b'']), (CHR 0x0C, [CHR 0x5C, CHR ''f'']),
      (CHR 0x0A, [CHR 0x5C, CHR ''n'']), (CHR 0x0D, [CHR 0x5C, CHR ''r'']),
      (CHR 0x09, [CHR 0x5C, CHR ''t''])]"

text \<open>
  A row of \<^verbatim>\<open>charTab_\<close> is the C string the constructor extracts from a string stream:
  stream extraction skips white space, so the row of a white-space character is empty
  unless the mapping overwrites it.
\<close>

definition is_space :: "nat \<Rightarrow> bool" where
  "is_space i \<longleftrightarrow> i = 32 \<or> 9 \<le> i \<and> i \<le> 13"

definition charTab :: "nat \<Rightarrow> string" where
  "charTab i = (case map_of escape_mapping (char_of i) of
     Some s \<Rightarrow> s
   | None \<Rightarrow> if is_space i \<or> i = 0 then [] else [char_of i])"

definition is_lower :: "nat \<Rightarrow> bool" where "is_lower i \<longleftrightarrow> 97 \<le> i \<and> i \<le> 122"
definition is_upper :: "nat \<Rightarrow> bool" where "is_upper i \<longleftrightarrow> 65 \<le> i \<and> i \<le> 90"
definition is_digit :: "nat \<Rightarrow> bool" where "is_digit i \<longleftrightarrow> 48 \<le> i \<and> i \<le> 57"

definition statTab :: "int \<Rightarrow> nat \<Rightarrow> int" where
  "statTab state i =
     (if state = STATE_BEGIN
      then (if is_lower i \<or> is_upper i then STATE_RUN else STATE_STOP)
      else (if is_digit i \<or> is_lower i \<or> is_upper i \<or> i = 95 then STATE_RUN else STATE_STOP))"

section \<open>Operations\<close>

fun EscapeToRaw_loop :: "string \<Rightarrow> string \<Rightarrow> string" where
  "EscapeToRaw_loop [] rawText = rawText"
| "EscapeToRaw_loop (c # cs) rawText =
     (let ic = of_char c in
      if ic < CHAR_RANGE \<and> 1 < length (charTab ic)
      then EscapeToRaw_loop cs (rawText @ charTab ic)
      else if ic = 0x7F \<or> ic \<le> 0x1F
      then EscapeToRaw_loop cs rawText
      else EscapeToRaw_loop cs (rawText @ [c]))"

definition EscapeToRaw :: "string \<Rightarrow> string" where
  "EscapeToRaw text = EscapeToRaw_loop text []"

text \<open>
  A \<^verbatim>\<open>char\<close> above 127 becomes at least \<^verbatim>\<open>CHAR_RANGE\<close> as \<^verbatim>\<open>unsigned int\<close> whether plain
  \<^verbatim>\<open>char\<close> is signed or not, so its unsigned code decides the test in both cases.
\<close>

fun IsValidName_loop :: "string \<Rightarrow> int \<Rightarrow> bool" where
  "IsValidName_loop [] state = True"
| "IsValidName_loop (c # cs) state =
     (let ic = of_char c in
      if ic \<ge> CHAR_RANGE \<or> state < 0 \<or> state \<ge> STATE_NUM then False
      else let state' = statTab state ic in
           if state' = STATE_STOP then False else IsValidName_loop cs state')"

definition IsValidName :: "string \<Rightarrow> nat \<Rightarrow> bool" where
  "IsValidName text maxSize =
     (if text = [] then False
      else if length text > maxSize then False
      else IsValidName_loop text STATE_BEGIN)"

section \<open>The name check is the identifier grammar\<close>

definition name_head :: "char \<Rightarrow> bool" where
  "name_head c \<longleftrightarrow> is_lower (of_char c) \<or> is_upper (of_char c)"

definition name_tail :: "char \<Rightarrow> bool" where
  "name_tail c \<longleftrightarrow> name_head c \<or> is_digit (of_char c) \<or> c = CHR ''_''"

lemma of_char_eq_95: "(of_char c = (95::nat)) = (c = CHR ''_'')"
proof -
  have "(of_char (CHR ''_'') :: nat) = 95" by simp
  then show ?thesis by (metis of_char_eq_iff)
qed

lemma IsValidName_loop_run: "IsValidName_loop cs STATE_RUN \<longleftrightarrow> (\<forall>c \<in> set cs. name_tail c)"
  by (induction cs)
     (auto simp: Let_def state_defs statTab_def name_tail_def name_head_def of_char_eq_95
        is_lower_def is_upper_def is_digit_def)

lemma IsValidName_loop_begin:
  "IsValidName_loop (c # cs) STATE_BEGIN \<longleftrightarrow> name_head c \<and> (\<forall>d \<in> set cs. name_tail d)"
  using IsValidName_loop_run [of cs]
  by (auto simp: Let_def state_defs statTab_def name_head_def is_lower_def is_upper_def)

lemma IsValidName_Cons:
  "IsValidName (c # cs) n \<longleftrightarrow> Suc (length cs) \<le> n \<and> name_head c \<and> (\<forall>d \<in> set cs. name_tail d)"
  by (auto simp: IsValidName_def IsValidName_loop_begin simp del: IsValidName_loop.simps)

lemma IsValidName_Nil [simp]: "\<not> IsValidName [] n"
  by (simp add: IsValidName_def)

lemma name_head_no_nul: "\<not> name_head (CHR 0x00)"
  by (simp add: name_head_def is_lower_def is_upper_def)

lemma name_tail_no_nul: "\<not> name_tail (CHR 0x00)"
  by (simp add: name_tail_def name_head_no_nul is_digit_def)

lemma IsValidName_no_nul: "IsValidName s n \<Longrightarrow> no_nul s"
  using name_head_no_nul name_tail_no_nul
  by (cases s) (auto simp: IsValidName_Cons no_nul_def)

lemma IsValidName_length: "IsValidName s n \<Longrightarrow> s \<noteq> [] \<and> length s \<le> n"
  by (cases s) (auto simp: IsValidName_Cons)

text \<open>
  What the clients of the filter rely on: an accepted name fits the bound and a C string
  can hold it.
\<close>

locale name_filter =
  fixes valid :: "string \<Rightarrow> nat \<Rightarrow> bool"
  assumes valid_length: "valid s n \<Longrightarrow> s \<noteq> [] \<and> length s \<le> n"
    and valid_no_nul: "valid s n \<Longrightarrow> no_nul s"
begin

text \<open>A zeroed character array one longer than the bound keeps an accepted name intact.\<close>

lemma char_array_holds:
  assumes "valid s n"
  shows "c_string (bytes_of_string s @ replicate (Suc n - length s) 0) = s"
proof -
  from assms have "Suc n - length s = Suc (n - length s)"
    using valid_length [of s n] by (simp add: Suc_diff_le)
  then show ?thesis
    using c_string_padded [OF valid_no_nul [OF assms]] by simp
qed

end

interpretation name: name_filter IsValidName
  by unfold_locales (auto dest: IsValidName_length IsValidName_no_nul)

section \<open>Escaping is JSON escaping\<close>

text \<open>
  \<open>dropped c\<close>: the control characters without a short JSON escape. \<open>json_unescape\<close> reads a
  JSON string body back, \<open>json_body\<close> says that a text may stand between two quotes.
\<close>

definition escaped :: "char \<Rightarrow> bool" where
  "escaped c \<longleftrightarrow> map_of escape_mapping c \<noteq> None"

definition dropped :: "char \<Rightarrow> bool" where
  "dropped c \<longleftrightarrow> \<not> escaped c \<and> (of_char c \<le> (0x1F::nat) \<or> of_char c = (0x7F::nat))"

definition unescape_mapping :: "(char \<times> char) list" where
  "unescape_mapping =
     [(CHR 0x5C, CHR 0x5C), (CHR 0x22, CHR 0x22), (CHR ''b'', CHR 0x08), (CHR ''f'', CHR 0x0C),
      (CHR ''n'', CHR 0x0A), (CHR ''r'', CHR 0x0D), (CHR ''t'', CHR 0x09)]"

fun json_unescape :: "string \<Rightarrow> string option" where
  "json_unescape [] = Some []"
| "json_unescape (c # cs) =
     (if c = CHR 0x5C
      then (case cs of [] \<Rightarrow> None
            | d # ds \<Rightarrow> (case map_of unescape_mapping d of None \<Rightarrow> None
                       | Some e \<Rightarrow> map_option (Cons e) (json_unescape ds)))
      else if c = CHR 0x22 \<or> of_char c \<le> (0x1F::nat) then None
      else map_option (Cons c) (json_unescape cs))"

definition escape_char :: "char \<Rightarrow> string" where
  "escape_char c = (case map_of escape_mapping c of
     Some s \<Rightarrow> s | None \<Rightarrow> if dropped c then [] else [c])"

lemma charTab_of_char_escaped:
  "1 < length (charTab (of_char c)) \<longleftrightarrow> escaped c"
proof
  show "1 < length (charTab (of_char c)) \<Longrightarrow> escaped c"
    by (auto simp: charTab_def escaped_def split: option.splits if_splits)
  show "escaped c \<Longrightarrow> 1 < length (charTab (of_char c))"
    by (auto simp: charTab_def escaped_def escape_mapping_def split: if_splits)
qed

lemma escaped_range: "escaped c \<Longrightarrow> of_char c < CHAR_RANGE"
  by (auto simp: escaped_def escape_mapping_def CHAR_RANGE_def split: if_splits)

lemma escaped_charTab: "escaped c \<Longrightarrow> charTab (of_char c) = escape_char c"
  by (auto simp: charTab_def escaped_def escape_char_def)

lemma EscapeToRaw_loop_concat:
  "EscapeToRaw_loop cs raw = raw @ concat (map escape_char cs)"
proof (induction cs arbitrary: raw)
  case Nil
  then show ?case by simp
next
  case (Cons c cs)
  show ?case
  proof (cases "escaped c")
    case True
    then show ?thesis
      using Cons escaped_range [OF True] charTab_of_char_escaped [of c]
      by (simp add: Let_def escaped_charTab)
  next
    case False
    then have "\<not> 1 < length (charTab (of_char c))"
      using charTab_of_char_escaped [of c] by blast
    moreover have "escape_char c = (if dropped c then [] else [c])"
      using False by (auto simp: escape_char_def escaped_def)
    ultimately show ?thesis
      using Cons False by (auto simp: Let_def dropped_def)
  qed
qed

lemma EscapeToRaw_concat: "EscapeToRaw s = concat (map escape_char s)"
  by (simp add: EscapeToRaw_def EscapeToRaw_loop_concat)

lemma json_unescape_escape_char:
  "json_unescape (escape_char c @ rest) =
     (if dropped c then json_unescape rest else map_option (Cons c) (json_unescape rest))"
proof (cases "escaped c")
  case True
  then show ?thesis
    by (auto simp: escaped_def escape_char_def dropped_def escape_mapping_def
        unescape_mapping_def split: if_splits)
next
  case False
  then have n: "c \<noteq> CHR 0x5C" "c \<noteq> CHR 0x22"
    by (auto simp: escaped_def escape_mapping_def)
  have e: "escape_char c = (if dropped c then [] else [c])"
    using False by (auto simp: escape_char_def escaped_def)
  show ?thesis
  proof (cases "dropped c")
    case True
    then show ?thesis by (simp add: e)
  next
    case nd: False
    then have "\<not> of_char c \<le> (0x1F::nat)"
      using False by (simp add: dropped_def)
    with n nd show ?thesis by (simp add: e)
  qed
qed

lemma length_escape_char: "length (escape_char c) \<le> 2"
  by (auto simp: escape_char_def escape_mapping_def split: option.splits if_splits)

section \<open>Properties\<close>

definition is_identifier :: "string \<Rightarrow> nat \<Rightarrow> bool" where
  "is_identifier s n \<longleftrightarrow>
     s \<noteq> [] \<and> length s \<le> n \<and> name_head (hd s) \<and> (\<forall>c \<in> set s. name_tail c)"

text \<open>
  C17. \<^verbatim>\<open>IsValidName\<close> accepts a text exactly when it is an identifier of at most
  \<^verbatim>\<open>maxSize\<close> characters: non-empty, starting with an ASCII letter, and made of ASCII
  letters, digits and underscores only.
\<close>

theorem IsValidName_iff_identifier: "IsValidName s n = is_identifier s n"
  by (cases s) (auto simp: IsValidName_Cons is_identifier_def name_tail_def)

text \<open>
  C18. Escaping is inverted by JSON unescaping: the escaped value is a well-formed JSON
  string body, and reading it back gives the original value without the control
  characters that JSON has no short escape for.
\<close>

theorem EscapeToRaw_unescapes: "json_unescape (EscapeToRaw s) = Some (filter (\<lambda>c. \<not> dropped c) s)"
proof (induction s)
  case Nil
  then show ?case by (simp add: EscapeToRaw_concat)
next
  case (Cons c s)
  then show ?case
    using json_unescape_escape_char [of c "EscapeToRaw s"]
    by (simp add: EscapeToRaw_concat)
qed

lemma length_EscapeToRaw: "length (EscapeToRaw s) \<le> 2 * length s"
proof (induction s)
  case Nil
  then show ?case by (simp add: EscapeToRaw_concat)
next
  case (Cons c s)
  then show ?case
    using length_escape_char [of c] by (simp add: EscapeToRaw_concat)
qed

end
