(* ===== verification/EventHeader.thy ===== *)
theory EventHeader
  imports EncodedParam StringFilter
begin

text \<open>
  The packed structures of \<^verbatim>\<open>raw_data_base_def.h\<close> and the time-zone table of
  \<^verbatim>\<open>raw_data_base_def.cpp\<close>. \<open>header_bytes\<close> and \<open>trace_bytes\<close> are the object
  representations (\<^verbatim>\<open>#pragma pack(1)\<close>, little-endian, bit-fields from the least significant
  bit) that the code copies with \<^verbatim>\<open>reinterpret_cast\<close>; \<open>dec_header\<close> reads them back.
\<close>

section \<open>Structures\<close>

record HiSysEventHeader =
  hd_domain :: "byte list"
  hd_name :: "byte list"
  hd_timestamp :: u64
  hd_timeZone :: byte
  hd_uid :: u32
  hd_pid :: u32
  hd_tid :: u32
  hd_id :: u64
  hd_type :: nat
  hd_isTraceOpened :: nat

record TraceInfo =
  ti_traceFlag :: byte
  ti_traceId :: u64
  ti_spanId :: u32
  ti_pSpanId :: u32

definition empty_header :: HiSysEventHeader where
  "empty_header = \<lparr>hd_domain = replicate (MAX_DOMAIN_LENGTH + 1) 0,
     hd_name = replicate (MAX_EVENT_NAME_LENGTH + 1) 0, hd_timestamp = 0, hd_timeZone = 0,
     hd_uid = 0, hd_pid = 0, hd_tid = 0, hd_id = 0, hd_type = 0, hd_isTraceOpened = 0\<rparr>"

definition empty_trace :: TraceInfo where
  "empty_trace = \<lparr>ti_traceFlag = 0, ti_traceId = 0, ti_spanId = 0, ti_pSpanId = 0\<rparr>"

definition sizeof_HiSysEventHeader :: nat where
  "sizeof_HiSysEventHeader = (MAX_DOMAIN_LENGTH + 1) + (MAX_EVENT_NAME_LENGTH + 1) + 8 + 1 + 4 + 4 + 4 + 8 + 1"

definition header_bytes :: "HiSysEventHeader \<Rightarrow> byte list" where
  "header_bytes h = hd_domain h @ hd_name h @ le_bytes 8 (unat (hd_timestamp h)) @ [hd_timeZone h] @
     le_bytes 4 (unat (hd_uid h)) @ le_bytes 4 (unat (hd_pid h)) @ le_bytes 4 (unat (hd_tid h)) @
     le_bytes 8 (unat (hd_id h)) @ [of_nat (hd_type h + 4 * hd_isTraceOpened h)]"

definition trace_bytes :: "TraceInfo \<Rightarrow> byte list" where
  "trace_bytes t = [ti_traceFlag t] @ le_bytes 8 (unat (ti_traceId t)) @
     le_bytes 4 (unat (ti_spanId t)) @ le_bytes 4 (unat (ti_pSpanId t))"

text \<open>The bit-fields and the arrays have their declared widths.\<close>

definition header_wf :: "HiSysEventHeader \<Rightarrow> bool" where
  "header_wf h \<longleftrightarrow> length (hd_domain h) = MAX_DOMAIN_LENGTH + 1 \<and>
     length (hd_name h) = MAX_EVENT_NAME_LENGTH + 1 \<and> hd_type h < 4 \<and> hd_isTraceOpened h < 2"

lemma header_wf_empty: "header_wf empty_header"
  by (simp add: header_wf_def empty_header_def)

lemma length_header_bytes: "header_wf h \<Longrightarrow> length (header_bytes h) = sizeof_HiSysEventHeader"
  by (simp add: header_bytes_def header_wf_def sizeof_HiSysEventHeader_def)

lemma sizeof_header_80: "sizeof_HiSysEventHeader = 80"
  by (simp add: sizeof_HiSysEventHeader_def limit_defs)

lemma length_trace_bytes: "length (trace_bytes t) = 17"
  by (simp add: trace_bytes_def)

section \<open>Reading the structures back\<close>

definition field :: "nat \<Rightarrow> nat \<Rightarrow> byte list \<Rightarrow> byte list" where
  "field pos n bs = take n (drop pos bs)"

definition dec_header :: "byte list \<Rightarrow> HiSysEventHeader" where
  "dec_header bs = \<lparr>hd_domain = field 0 17 bs, hd_name = field 17 33 bs,
     hd_timestamp = of_nat (of_le_bytes (field 50 8 bs)), hd_timeZone = bs ! 58,
     hd_uid = of_nat (of_le_bytes (field 59 4 bs)), hd_pid = of_nat (of_le_bytes (field 63 4 bs)),
     hd_tid = of_nat (of_le_bytes (field 67 4 bs)), hd_id = of_nat (of_le_bytes (field 71 8 bs)),
     hd_type = unat (bs ! 79) mod 4, hd_isTraceOpened = unat (bs ! 79) div 4 mod 2\<rparr>"

definition dec_trace :: "byte list \<Rightarrow> TraceInfo" where
  "dec_trace bs = \<lparr>ti_traceFlag = bs ! 0, ti_traceId = of_nat (of_le_bytes (field 1 8 bs)),
     ti_spanId = of_nat (of_le_bytes (field 9 4 bs)), ti_pSpanId = of_nat (of_le_bytes (field 13 4 bs))\<rparr>"

lemma of_le_bytes_word32: "of_nat (of_le_bytes (le_bytes 4 (unat (w :: u32)))) = w"
  using unsigned_less [where 'a = nat, of w] by simp

lemma of_le_bytes_word64: "of_nat (of_le_bytes (le_bytes 8 (unat (w :: u64)))) = w"
  using unsigned_less [where 'a = nat, of w] by simp

lemma field_here: "length xs = n \<Longrightarrow> field 0 n (xs @ ys) = xs"
  by (simp add: field_def)

lemma field_skip: "length xs \<le> pos \<Longrightarrow> field pos n (xs @ ys) = field (pos - length xs) n ys"
  by (simp add: field_def)

lemma field_Cons: "0 < pos \<Longrightarrow> field pos n (x # ys) = field (pos - 1) n ys"
  by (simp add: field_def drop_Cons')

lemma nth_skip: "length xs \<le> i \<Longrightarrow> (xs @ ys) ! i = ys ! (i - length xs)"
  by (simp add: nth_append)

lemma dec_header_header_bytes [decode_simps]:
  assumes "header_wf h"
  shows "dec_header (header_bytes h @ rest) = h"
proof -
  have t: "unat (of_nat (hd_type h + 4 * hd_isTraceOpened h) :: byte) = hd_type h + 4 * hd_isTraceOpened h"
    using assms by (simp add: unat_of_nat header_wf_def del: of_nat_add)
  have "hd_domain (dec_header (header_bytes h @ rest)) = hd_domain h"
    "hd_name (dec_header (header_bytes h @ rest)) = hd_name h"
    "hd_timestamp (dec_header (header_bytes h @ rest)) = hd_timestamp h"
    "hd_timeZone (dec_header (header_bytes h @ rest)) = hd_timeZone h"
    "hd_uid (dec_header (header_bytes h @ rest)) = hd_uid h"
    "hd_pid (dec_header (header_bytes h @ rest)) = hd_pid h"
    "hd_tid (dec_header (header_bytes h @ rest)) = hd_tid h"
    "hd_id (dec_header (header_bytes h @ rest)) = hd_id h"
    "hd_type (dec_header (header_bytes h @ rest)) = hd_type h"
    "hd_isTraceOpened (dec_header (header_bytes h @ rest)) = hd_isTraceOpened h"
    using assms t
    by (simp_all add: dec_header_def header_bytes_def header_wf_def limit_defs field_here field_skip
        field_Cons nth_skip of_le_bytes_word32 of_le_bytes_word64 del: of_nat_add le_bytes.simps)
  then show ?thesis
    by simp
qed

lemma dec_trace_trace_bytes [decode_simps]: "dec_trace (trace_bytes t @ rest) = t"
  by (simp add: dec_trace_def trace_bytes_def field_here field_skip field_Cons
      of_le_bytes_word32 of_le_bytes_word64 del: le_bytes.simps)

section \<open>Time zones\<close>

definition DEFAULT_TZ_POS :: nat where
  "DEFAULT_TZ_POS = 14"

definition ALL_TIME_ZONES :: "int list" where
  "ALL_TIME_ZONES =
    [3600, 7200, 10800, 11880, 14400, 18000, 21600,
     25200, 28800, 32400, 33480, 36000, 39600, 43200,
     0, -3600, -7200, -10800, -11880, -14400, 15480,
     -18000, -19080, -19620, -21600, -22680, -25200, -28800,
     -30420, -32400, -33480, -36000, -37080, -39600, -43200,
     -44820, -46800, -50400]"

fun ParseTimeZone_loop :: "int \<Rightarrow> int list \<Rightarrow> nat \<Rightarrow> nat" where
  "ParseTimeZone_loop tz [] i = DEFAULT_TZ_POS"
| "ParseTimeZone_loop tz (z # zs) i = (if z = tz then i else ParseTimeZone_loop tz zs (i + 1))"

definition ParseTimeZone :: "int \<Rightarrow> nat" where
  "ParseTimeZone tz = ParseTimeZone_loop tz ALL_TIME_ZONES 0"

lemma ParseTimeZone_loop_default: "tz \<notin> set zs \<Longrightarrow> ParseTimeZone_loop tz zs i = DEFAULT_TZ_POS"
  by (induction zs arbitrary: i) auto

lemma ParseTimeZone_loop_nth:
  "distinct zs \<Longrightarrow> k < length zs \<Longrightarrow> ParseTimeZone_loop (zs ! k) zs i = i + k"
proof (induction zs arbitrary: i k)
  case Nil
  then show ?case by simp
next
  case (Cons z zs)
  then show ?case
    by (cases k) (auto simp: nth_mem)
qed

lemma distinct_time_zones: "distinct ALL_TIME_ZONES"
  by (simp add: ALL_TIME_ZONES_def)

text \<open>
  The time-zone code is an index into the table: a listed offset is found at its own
  position, every other offset maps to the default position, which is the offset zero.
\<close>

lemma ParseTimeZone_inverts_table:
  "(tz \<in> set ALL_TIME_ZONES \<longrightarrow>
      ParseTimeZone tz < length ALL_TIME_ZONES \<and> ALL_TIME_ZONES ! ParseTimeZone tz = tz) \<and>
   (tz \<notin> set ALL_TIME_ZONES \<longrightarrow>
      ParseTimeZone tz = DEFAULT_TZ_POS \<and> ALL_TIME_ZONES ! ParseTimeZone tz = 0)"
proof (intro conjI impI)
  assume "tz \<in> set ALL_TIME_ZONES"
  then obtain k where "k < length ALL_TIME_ZONES" "ALL_TIME_ZONES ! k = tz"
    by (auto simp: in_set_conv_nth)
  then show "ParseTimeZone tz < length ALL_TIME_ZONES" "ALL_TIME_ZONES ! ParseTimeZone tz = tz"
    using ParseTimeZone_loop_nth [OF distinct_time_zones, of k 0] by (auto simp: ParseTimeZone_def)
next
  assume "tz \<notin> set ALL_TIME_ZONES"
  then show "ParseTimeZone tz = DEFAULT_TZ_POS" "ALL_TIME_ZONES ! ParseTimeZone tz = 0"
    by (simp_all add: ParseTimeZone_def ParseTimeZone_loop_default)
       (simp add: DEFAULT_TZ_POS_def ALL_TIME_ZONES_def)
qed

lemma ParseTimeZone_inverts_table_example:
  "ALL_TIME_ZONES ! ParseTimeZone (-28800) = -28800 \<and> ParseTimeZone 1 = 14"
  using ParseTimeZone_inverts_table [of "-28800"] ParseTimeZone_inverts_table [of 1]
  by (simp add: ALL_TIME_ZONES_def DEFAULT_TZ_POS_def)

text \<open>
  The half-hour zone between four and five hours east carries the wrong sign in the table:
  the offset of the zone itself is not listed and is reported as offset zero, and the
  position holds its western mirror image.
\<close>

lemma time_zone_table_sign:
  "ALL_TIME_ZONES ! 20 = 15480 \<and> -15480 \<notin> set ALL_TIME_ZONES \<and> ParseTimeZone (-15480) = DEFAULT_TZ_POS"
  by (simp add: ALL_TIME_ZONES_def ParseTimeZone_def DEFAULT_TZ_POS_def)

end
