(* ===== verification/HiSysEvent.thy ===== *)
theory HiSysEvent
  imports EventHeader
begin

text \<open>
  \<^verbatim>\<open>HiSysEvent\<close> (hisysevent.h, hisysevent.cpp): the event under construction
  (\<^verbatim>\<open>EventBase\<close>), the checks on keys, values and sizes, the overloads of \<^verbatim>\<open>InnerWrite\<close>
  for the C++ value types and the \<^verbatim>\<open>Append...Param\<close> functions of the C interface.
  The theory proves that both interfaces refine one specification on the list of accepted
  parameters, and that the finished buffer decodes to the header and that list.
\<close>

section \<open>The event under construction\<close>

text \<open>
  \<open>proc_env\<close> collects what the code asks its process and libraries for: memory, the C
  variable \<^verbatim>\<open>timezone\<close>, the identities, and the valid trace identity of the thread
  (\<open>None\<close> when there is none or the build has no tracing).
\<close>

record proc_env =
  pe_mem :: mem_env
  pe_timezone :: int
  pe_pid :: u32
  pe_tid :: u32
  pe_uid :: u32
  pe_hitrace :: "TraceInfo option"

record event_base =
  eb_retCode :: int
  eb_paramCnt :: nat
  eb_paramCntWroteOffset :: nat
  eb_header :: HiSysEventHeader
  eb_traceInfo :: TraceInfo
  eb_rawData :: "raw_data option"

definition event_base_init :: event_base where
  "event_base_init = \<lparr>eb_retCode = 0, eb_paramCnt = 0, eb_paramCntWroteOffset = 0,
     eb_header = empty_header, eb_traceInfo = empty_trace, eb_rawData = None\<rparr>"

definition GetRetCode :: "event_base \<Rightarrow> int" where
  "GetRetCode eb = eb_retCode eb"

definition SetRetCode :: "int \<Rightarrow> event_base \<Rightarrow> event_base" where
  "SetRetCode retCode eb = eb\<lparr>eb_retCode := retCode\<rparr>"

definition GetParamCnt :: "event_base \<Rightarrow> nat" where
  "GetParamCnt eb = eb_paramCnt eb"

definition EventBase_new :: "mem_env \<Rightarrow> string \<Rightarrow> string \<Rightarrow> int \<Rightarrow> u64 \<Rightarrow> event_base" where
  "EventBase_new env domain eventName type timeStamp =
     (let eb = event_base_init in
      if \<not> IsValidName domain MAX_DOMAIN_LENGTH then SetRetCode ERR_DOMAIN_NAME_INVALID eb
      else if \<not> IsValidName eventName MAX_EVENT_NAME_LENGTH then SetRetCode ERR_EVENT_NAME_INVALID eb
      else if \<not> memcpy_ok env (MAX_DOMAIN_LENGTH + 1) (length domain)
        then SetRetCode ERR_RAW_DATA_WROTE_EXCEPTION eb
      else let h = eb_header eb;
               h1 = h\<lparr>hd_domain := splice_at 0 (bytes_of_string domain) (hd_domain h)\<rparr> in
        if \<not> memcpy_ok env (MAX_EVENT_NAME_LENGTH + 1) (length eventName)
        then SetRetCode ERR_RAW_DATA_WROTE_EXCEPTION (eb\<lparr>eb_header := h1\<rparr>)
        else eb\<lparr>eb_header := h1\<lparr>hd_name := splice_at 0 (bytes_of_string eventName) (hd_name h1),
               hd_type := nat ((type - 1) mod 4), hd_timestamp := timeStamp\<rparr>\<rparr>)"

text \<open>\<open>None\<close> is the null pointer. The parameter shares the buffer of the event.\<close>

definition AppendParam :: "mem_env \<Rightarrow> encoded_param option \<Rightarrow> event_base \<Rightarrow> event_base" where
  "AppendParam env param eb = (case param of
     None \<Rightarrow> eb
   | Some ep \<Rightarrow>
       (case Encode env (SetRawData (eb_rawData eb) ep) of (ep', ok) \<Rightarrow>
          let eb' = eb\<lparr>eb_rawData := ep_rawData ep'\<rparr> in
          if ok then eb'\<lparr>eb_paramCnt := eb_paramCnt eb + 1\<rparr> else eb'))"

text \<open>
  The head of the record: every step appends a run of bytes, and the first failing one
  sets the result code and returns (\<open>append_or_fail\<close>).
\<close>

definition append_or_fail ::
  "mem_env \<Rightarrow> byte list \<Rightarrow> (event_base \<Rightarrow> event_base) \<Rightarrow> event_base \<Rightarrow> event_base" where
  "append_or_fail env bs continue eb = (case eb_rawData eb of
     None \<Rightarrow> SetRetCode ERR_RAW_DATA_WROTE_EXCEPTION eb
   | Some rd \<Rightarrow>
       (case Append env bs rd of (rd', ok) \<Rightarrow>
          if \<not> ok then SetRetCode ERR_RAW_DATA_WROTE_EXCEPTION (eb\<lparr>eb_rawData := Some rd'\<rparr>)
          else continue (eb\<lparr>eb_rawData := Some rd'\<rparr>)))"

definition fill_header :: "proc_env \<Rightarrow> event_base \<Rightarrow> event_base" where
  "fill_header pe eb =
     (let h = (eb_header eb)\<lparr>hd_timeZone := of_nat (ParseTimeZone (pe_timezone pe)),
                hd_pid := pe_pid pe, hd_tid := pe_tid pe, hd_uid := pe_uid pe\<rparr> in
      case pe_hitrace pe of
        None \<Rightarrow> eb\<lparr>eb_header := h\<rparr>
      | Some t \<Rightarrow> eb\<lparr>eb_header := h\<lparr>hd_isTraceOpened := 1\<rparr>, eb_traceInfo := t\<rparr>)"

definition WritebaseInfo :: "proc_env \<Rightarrow> event_base \<Rightarrow> event_base" where
  "WritebaseInfo pe eb0 =
     (let env = pe_mem pe;
          eb = fill_header pe (eb0\<lparr>eb_rawData := Some (RawData_new env)\<rparr>);
          write_cnt = (\<lambda>eb. let eb = eb\<lparr>eb_paramCntWroteOffset :=
                         (case eb_rawData eb of None \<Rightarrow> 0 | Some rd \<Rightarrow> GetDataLength rd)\<rparr> in
                         append_or_fail env (le_bytes 4 (eb_paramCnt eb)) (\<lambda>eb. eb) eb) in
      append_or_fail env (le_bytes 4 0)
        (\<lambda>eb. append_or_fail env (header_bytes (eb_header eb))
          (\<lambda>eb. if hd_isTraceOpened (eb_header eb) = 1
                then append_or_fail env (trace_bytes (eb_traceInfo eb)) write_cnt eb
                else write_cnt eb) eb) eb)"

definition GetEventRawData :: "mem_env \<Rightarrow> event_base \<Rightarrow> event_base \<times> raw_data option" where
  "GetEventRawData env eb = (case eb_rawData eb of
     None \<Rightarrow> (eb, None)
   | Some rd \<Rightarrow>
       let blockSize = GetDataLength rd;
           rd1 = fst (Update env (Some (le_bytes 4 blockSize)) 4 0 rd);
           rd2 = fst (Update env (Some (le_bytes 4 (eb_paramCnt eb))) 4 (eb_paramCntWroteOffset eb) rd1) in
       (eb\<lparr>eb_rawData := Some rd2\<rparr>, Some rd2))"

section \<open>Checks\<close>

definition CheckKey :: "string \<Rightarrow> int" where
  "CheckKey key = (if \<not> IsValidName key MAX_PARAM_NAME_LENGTH then ERR_KEY_NAME_INVALID else SUCCESS)"

definition CheckValue :: "string \<Rightarrow> int" where
  "CheckValue value = (if length value > MAX_STRING_LENGTH then ERR_VALUE_LENGTH_TOO_LONG else SUCCESS)"

definition CheckArraySize :: "nat \<Rightarrow> int" where
  "CheckArraySize sz = (if sz > MAX_ARRAY_SIZE then ERR_ARRAY_TOO_MUCH else SUCCESS)"

definition IsError :: "event_base \<Rightarrow> bool" where
  "IsError eb \<longleftrightarrow> GetRetCode eb < SUCCESS"

definition IsErrorAndUpdate :: "int \<Rightarrow> event_base \<Rightarrow> event_base \<times> bool" where
  "IsErrorAndUpdate retCode eb =
     (if retCode < SUCCESS then (SetRetCode retCode eb, True) else (eb, False))"

definition IsWarnAndUpdate :: "int \<Rightarrow> event_base \<Rightarrow> event_base \<times> bool" where
  "IsWarnAndUpdate retCode eb =
     (if retCode \<noteq> SUCCESS then (SetRetCode retCode eb, True) else (eb, False))"

definition UpdateAndCheckKeyNumIsOver :: "event_base \<Rightarrow> event_base \<times> bool" where
  "UpdateAndCheckKeyNumIsOver eb =
     (if GetParamCnt eb \<ge> MAX_PARAM_NUMBER then (SetRetCode ERR_KEY_NUMBER_TOO_MUCH eb, True)
      else (eb, False))"

definition CheckParamValidity :: "string \<Rightarrow> event_base \<Rightarrow> event_base \<times> bool" where
  "CheckParamValidity key eb =
     (case IsWarnAndUpdate (CheckKey key) eb of (eb1, invalid) \<Rightarrow>
        if invalid then (eb1, False)
        else case UpdateAndCheckKeyNumIsOver eb1 of (eb2, over) \<Rightarrow>
          if over then (eb2, False) else (eb2, True))"

text \<open>\<open>array\<close> is \<open>None\<close> for the null pointer.\<close>

definition CheckArrayValidity :: "'a option \<Rightarrow> event_base \<Rightarrow> event_base \<times> bool" where
  "CheckArrayValidity array eb =
     (if array = None then (SetRetCode ERR_VALUE_INVALID eb, False) else (eb, True))"

definition CheckArrayParamsValidity ::
  "mem_env \<Rightarrow> string \<Rightarrow> 'a list \<Rightarrow> event_base \<Rightarrow> event_base \<times> bool" where
  "CheckArrayParamsValidity env key value eb =
     (case CheckParamValidity key eb of (eb1, ok) \<Rightarrow>
        if \<not> ok then (eb1, False)
        else if value = [] then
          (AppendParam env (Some (SignedVarintEncodedArrayParam key [])) eb1, False)
        else (fst (IsWarnAndUpdate (CheckArraySize (length value)) eb1), True))"

text \<open>\<open>when_ok chk act\<close> is \<^verbatim>\<open>if (chk(eventBase)) { act(eventBase); }\<close>.\<close>

definition when_ok :: "(event_base \<Rightarrow> event_base \<times> bool) \<Rightarrow> (event_base \<Rightarrow> event_base) \<Rightarrow>
    event_base \<Rightarrow> event_base" where
  "when_ok chk act eb = (case chk eb of (eb', ok) \<Rightarrow> if ok then act eb' else eb')"

section \<open>The overloads of \<^verbatim>\<open>InnerWrite\<close>\<close>

text \<open>
  One constructor per C++ value type that has an overload. \<^verbatim>\<open>VString\<close> is the
  \<^verbatim>\<open>std::string\<close>, \<^verbatim>\<open>VCString\<close> the \<^verbatim>\<open>const char*\<close> overload; \<^verbatim>\<open>long\<close> has 64 bits here
  (the templates are the same for the 32-bit \<^verbatim>\<open>long\<close>, whose values are sign-extended).
\<close>

datatype cpp_value =
    VBool bool
  | VChar "8 word"
  | VUChar "8 word"
  | VShort "16 word"
  | VUShort "16 word"
  | VInt "32 word"
  | VUInt "32 word"
  | VLong "64 word"
  | VULong "64 word"
  | VLongLong "64 word"
  | VULongLong "64 word"
  | VFloat "32 word"
  | VDouble "64 word"
  | VString string
  | VCString string
  | VBools "bool list"
  | VChars "8 word list"
  | VUChars "8 word list"
  | VShorts "16 word list"
  | VUShorts "16 word list"
  | VInts "32 word list"
  | VUInts "32 word list"
  | VLongs "64 word list"
  | VULongs "64 word list"
  | VLongLongs "64 word list"
  | VULongLongs "64 word list"
  | VFloats "32 word list"
  | VDoubles "64 word list"
  | VStrings "string list"

definition InnerWrite_bool :: "mem_env \<Rightarrow> string \<Rightarrow> bool \<Rightarrow> event_base \<Rightarrow> event_base" where
  "InnerWrite_bool env key value =
     when_ok (CheckParamValidity key) (AppendParam env (Some (SignedVarintEncodedParam key (of_bool value))))"

definition InnerWrite_char :: "mem_env \<Rightarrow> string \<Rightarrow> 8 word \<Rightarrow> event_base \<Rightarrow> event_base" where
  "InnerWrite_char env key value =
     when_ok (CheckParamValidity key) (AppendParam env (Some (SignedVarintEncodedParam key (scast value))))"

definition InnerWrite_uchar :: "mem_env \<Rightarrow> string \<Rightarrow> 8 word \<Rightarrow> event_base \<Rightarrow> event_base" where
  "InnerWrite_uchar env key value =
     when_ok (CheckParamValidity key) (AppendParam env (Some (UnsignedVarintEncodedParam key (ucast value))))"

definition InnerWrite_short :: "mem_env \<Rightarrow> string \<Rightarrow> 16 word \<Rightarrow> event_base \<Rightarrow> event_base" where
  "InnerWrite_short env key value =
     when_ok (CheckParamValidity key) (AppendParam env (Some (SignedVarintEncodedParam key (scast value))))"

definition InnerWrite_ushort :: "mem_env \<Rightarrow> string \<Rightarrow> 16 word \<Rightarrow> event_base \<Rightarrow> event_base" where
  "InnerWrite_ushort env key value =
     when_ok (CheckParamValidity key) (AppendParam env (Some (UnsignedVarintEncodedParam key (ucast value))))"

definition InnerWrite_int :: "mem_env \<Rightarrow> string \<Rightarrow> 32 word \<Rightarrow> event_base \<Rightarrow> event_base" where
  "InnerWrite_int env key value =
     when_ok (CheckParamValidity key) (AppendParam env (Some (SignedVarintEncodedParam key (scast value))))"

definition InnerWrite_uint :: "mem_env \<Rightarrow> string \<Rightarrow> 32 word \<Rightarrow> event_base \<Rightarrow> event_base" where
  "InnerWrite_uint env key value =
     when_ok (CheckParamValidity key) (AppendParam env (Some (UnsignedVarintEncodedParam key (ucast value))))"

definition InnerWrite_long :: "mem_env \<Rightarrow> string \<Rightarrow> 64 word \<Rightarrow> event_base \<Rightarrow> event_base" where
  "InnerWrite_long env key value =
     when_ok (CheckParamValidity key) (AppendParam env (Some (SignedVarintEncodedParam key value)))"

definition InnerWrite_ulong :: "mem_env \<Rightarrow> string \<Rightarrow> 64 word \<Rightarrow> event_base \<Rightarrow> event_base" where
  "InnerWrite_ulong env key value =
     when_ok (CheckParamValidity key) (AppendParam env (Some (UnsignedVarintEncodedParam key value)))"

definition InnerWrite_llong :: "mem_env \<Rightarrow> string \<Rightarrow> 64 word \<Rightarrow> event_base \<Rightarrow> event_base" where
  "InnerWrite_llong env key value =
     when_ok (CheckParamValidity key) (AppendParam env (Some (SignedVarintEncodedParam key value)))"

definition InnerWrite_ullong :: "mem_env \<Rightarrow> string \<Rightarrow> 64 word \<Rightarrow> event_base \<Rightarrow> event_base" where
  "InnerWrite_ullong env key value =
     when_ok (CheckParamValidity key) (AppendParam env (Some (UnsignedVarintEncodedParam key value)))"

definition InnerWrite_float :: "mem_env \<Rightarrow> string \<Rightarrow> 32 word \<Rightarrow> event_base \<Rightarrow> event_base" where
  "InnerWrite_float env key value =
     when_ok (CheckParamValidity key) (AppendParam env (Some (FloatingNumberEncodedParam key (Float value))))"

definition InnerWrite_double :: "mem_env \<Rightarrow> string \<Rightarrow> 64 word \<Rightarrow> event_base \<Rightarrow> event_base" where
  "InnerWrite_double env key value =
     when_ok (CheckParamValidity key) (AppendParam env (Some (FloatingNumberEncodedParam key (Double value))))"

definition InnerWrite_string :: "mem_env \<Rightarrow> string \<Rightarrow> string \<Rightarrow> event_base \<Rightarrow> event_base" where
  "InnerWrite_string env key value =
     when_ok (CheckParamValidity key)
       (\<lambda>eb. let eb1 = fst (IsWarnAndUpdate (CheckValue value) eb);
                rawStr = EscapeToRaw value in
            AppendParam env (Some (StringEncodedParam key rawStr)) eb1)"

definition InnerWrite_cstring :: "mem_env \<Rightarrow> string \<Rightarrow> string \<Rightarrow> event_base \<Rightarrow> event_base" where
  "InnerWrite_cstring env key value =
     when_ok (CheckParamValidity key)
       (\<lambda>eb. let eb1 = fst (IsWarnAndUpdate (CheckValue value) eb);
                rawStr = EscapeToRaw value in
            AppendParam env (Some (StringEncodedParam key rawStr)) eb1)"

definition InnerWrite_bools :: "mem_env \<Rightarrow> string \<Rightarrow> bool list \<Rightarrow> event_base \<Rightarrow> event_base" where
  "InnerWrite_bools env key value =
     when_ok (CheckArrayParamsValidity env key value)
       (AppendParam env (Some (SignedVarintEncodedArrayParam key (map of_bool value))))"

definition InnerWrite_chars :: "mem_env \<Rightarrow> string \<Rightarrow> 8 word list \<Rightarrow> event_base \<Rightarrow> event_base" where
  "InnerWrite_chars env key value =
     when_ok (CheckArrayParamsValidity env key value)
       (AppendParam env (Some (SignedVarintEncodedArrayParam key (map scast value))))"

definition InnerWrite_uchars :: "mem_env \<Rightarrow> string \<Rightarrow> 8 word list \<Rightarrow> event_base \<Rightarrow> event_base" where
  "InnerWrite_uchars env key value =
     when_ok (CheckArrayParamsValidity env key value)
       (AppendParam env (Some (UnsignedVarintEncodedArrayParam key (map ucast value))))"

definition InnerWrite_shorts :: "mem_env \<Rightarrow> string \<Rightarrow> 16 word list \<Rightarrow> event_base \<Rightarrow> event_base" where
  "InnerWrite_shorts env key value =
     when_ok (CheckArrayParamsValidity env key value)
       (AppendParam env (Some (SignedVarintEncodedArrayParam key (map scast value))))"

definition InnerWrite_ushorts :: "mem_env \<Rightarrow> string \<Rightarrow> 16 word list \<Rightarrow> event_base \<Rightarrow> event_base" where
  "InnerWrite_ushorts env key value =
     when_ok (CheckArrayParamsValidity env key value)
       (AppendParam env (Some (UnsignedVarintEncodedArrayParam key (map ucast value))))"

definition InnerWrite_ints :: "mem_env \<Rightarrow> string \<Rightarrow> 32 word list \<Rightarrow> event_base \<Rightarrow> event_base" where
  "InnerWrite_ints env key value =
     when_ok (CheckArrayParamsValidity env key value)
       (AppendParam env (Some (SignedVarintEncodedArrayParam key (map scast value))))"

definition InnerWrite_uints :: "mem_env \<Rightarrow> string \<Rightarrow> 32 word list \<Rightarrow> event_base \<Rightarrow> event_base" where
  "InnerWrite_uints env key value =
     when_ok (CheckArrayParamsValidity env key value)
       (AppendParam env (Some (UnsignedVarintEncodedArrayParam key (map ucast value))))"

definition InnerWrite_longs :: "mem_env \<Rightarrow> string \<Rightarrow> 64 word list \<Rightarrow> event_base \<Rightarrow> event_base" where
  "InnerWrite_longs env key value =
     when_ok (CheckArrayParamsValidity env key value)
       (AppendParam env (Some (SignedVarintEncodedArrayParam key value)))"

definition InnerWrite_ulongs :: "mem_env \<Rightarrow> string \<Rightarrow> 64 word list \<Rightarrow> event_base \<Rightarrow> event_base" where
  "InnerWrite_ulongs env key value =
     when_ok (CheckArrayParamsValidity env key value)
       (AppendParam env (Some (UnsignedVarintEncodedArrayParam key value)))"

definition InnerWrite_llongs :: "mem_env \<Rightarrow> string \<Rightarrow> 64 word list \<Rightarrow> event_base \<Rightarrow> event_base" where
  "InnerWrite_llongs env key value =
     when_ok (CheckArrayParamsValidity env key value)
       (AppendParam env (Some (SignedVarintEncodedArrayParam key value)))"

definition InnerWrite_ullongs :: "mem_env \<Rightarrow> string \<Rightarrow> 64 word list \<Rightarrow> event_base \<Rightarrow> event_base" where
  "InnerWrite_ullongs env key value =
     when_ok (CheckArrayParamsValidity env key value)
       (AppendParam env (Some (UnsignedVarintEncodedArrayParam key value)))"

definition InnerWrite_floats :: "mem_env \<Rightarrow> string \<Rightarrow> 32 word list \<Rightarrow> event_base \<Rightarrow> event_base" where
  "InnerWrite_floats env key value =
     when_ok (CheckArrayParamsValidity env key value)
       (AppendParam env (Some (FloatingNumberEncodedArrayParam key (FloatArr value))))"

definition InnerWrite_doubles :: "mem_env \<Rightarrow> string \<Rightarrow> 64 word list \<Rightarrow> event_base \<Rightarrow> event_base" where
  "InnerWrite_doubles env key value =
     when_ok (CheckArrayParamsValidity env key value)
       (AppendParam env (Some (FloatingNumberEncodedArrayParam key (DoubleArr value))))"

text \<open>The loop over the items of a string array: the warning of each item, its escaped text.\<close>

primrec warn_and_escape :: "string list \<Rightarrow> string list \<Rightarrow> event_base \<Rightarrow> event_base \<times> string list" where
  "warn_and_escape [] rawStrs eb = (eb, rawStrs)"
| "warn_and_escape (item # items) rawStrs eb =
     warn_and_escape items (rawStrs @ [EscapeToRaw item])
       (fst (IsWarnAndUpdate (CheckValue item) eb))"

definition InnerWrite_strings :: "mem_env \<Rightarrow> string \<Rightarrow> string list \<Rightarrow> event_base \<Rightarrow> event_base" where
  "InnerWrite_strings env key value =
     when_ok (CheckArrayParamsValidity env key value)
       (\<lambda>eb. case warn_and_escape value [] eb of (eb1, rawStrs) \<Rightarrow>
            AppendParam env (Some (StringEncodedArrayParam key rawStrs)) eb1)"

text \<open>Overload resolution, and the recursion of the variadic template over the key-value pairs.\<close>

primrec InnerWrite_overload :: "mem_env \<Rightarrow> string \<Rightarrow> cpp_value \<Rightarrow> event_base \<Rightarrow> event_base" where
  "InnerWrite_overload env key (VBool v) = InnerWrite_bool env key v"
| "InnerWrite_overload env key (VChar v) = InnerWrite_char env key v"
| "InnerWrite_overload env key (VUChar v) = InnerWrite_uchar env key v"
| "InnerWrite_overload env key (VShort v) = InnerWrite_short env key v"
| "InnerWrite_overload env key (VUShort v) = InnerWrite_ushort env key v"
| "InnerWrite_overload env key (VInt v) = InnerWrite_int env key v"
| "InnerWrite_overload env key (VUInt v) = InnerWrite_uint env key v"
| "InnerWrite_overload env key (VLong v) = InnerWrite_long env key v"
| "InnerWrite_overload env key (VULong v) = InnerWrite_ulong env key v"
| "InnerWrite_overload env key (VLongLong v) = InnerWrite_llong env key v"
| "InnerWrite_overload env key (VULongLong v) = InnerWrite_ullong env key v"
| "InnerWrite_overload env key (VFloat v) = InnerWrite_float env key v"
| "InnerWrite_overload env key (VDouble v) = InnerWrite_double env key v"
| "InnerWrite_overload env key (VString v) = InnerWrite_string env key v"
| "InnerWrite_overload env key (VCString v) = InnerWrite_cstring env key v"
| "InnerWrite_overload env key (VBools v) = InnerWrite_bools env key v"
| "InnerWrite_overload env key (VChars v) = InnerWrite_chars env key v"
| "InnerWrite_overload env key (VUChars v) = InnerWrite_uchars env key v"
| "InnerWrite_overload env key (VShorts v) = InnerWrite_shorts env key v"
| "InnerWrite_overload env key (VUShorts v) = InnerWrite_ushorts env key v"
| "InnerWrite_overload env key (VInts v) = InnerWrite_ints env key v"
| "InnerWrite_overload env key (VUInts v) = InnerWrite_uints env key v"
| "InnerWrite_overload env key (VLongs v) = InnerWrite_longs env key v"
| "InnerWrite_overload env key (VULongs v) = InnerWrite_ulongs env key v"
| "InnerWrite_overload env key (VLongLongs v) = InnerWrite_llongs env key v"
| "InnerWrite_overload env key (VULongLongs v) = InnerWrite_ullongs env key v"
| "InnerWrite_overload env key (VFloats v) = InnerWrite_floats env key v"
| "InnerWrite_overload env key (VDoubles v) = InnerWrite_doubles env key v"
| "InnerWrite_overload env key (VStrings v) = InnerWrite_strings env key v"

primrec InnerWrite :: "mem_env \<Rightarrow> (string \<times> cpp_value) list \<Rightarrow> event_base \<Rightarrow> event_base" where
  "InnerWrite env [] eb = eb"
| "InnerWrite env (kv # keyValues) eb =
     InnerWrite env keyValues (InnerWrite_overload env (fst kv) (snd kv) eb)"

lemmas InnerWrite_scalar_defs = InnerWrite_bool_def InnerWrite_char_def InnerWrite_uchar_def
  InnerWrite_short_def InnerWrite_ushort_def InnerWrite_int_def InnerWrite_uint_def
  InnerWrite_long_def InnerWrite_ulong_def InnerWrite_llong_def InnerWrite_ullong_def
  InnerWrite_float_def InnerWrite_double_def

lemmas InnerWrite_array_defs = InnerWrite_bools_def InnerWrite_chars_def InnerWrite_uchars_def
  InnerWrite_shorts_def InnerWrite_ushorts_def InnerWrite_ints_def InnerWrite_uints_def
  InnerWrite_longs_def InnerWrite_ulongs_def InnerWrite_llongs_def InnerWrite_ullongs_def
  InnerWrite_floats_def InnerWrite_doubles_def

section \<open>The C interface\<close>

text \<open>
  \<^verbatim>\<open>union HiSysEventParamValue\<close>: what each member reads. \<open>cv_bits\<close> is the 8-byte object
  (the integer and floating members are its low bytes), \<open>cv_s\<close> the C string behind the
  member \<^verbatim>\<open>s\<close>, \<open>cv_array\<close> the memory behind \<^verbatim>\<open>array\<close> and \<open>cv_strs\<close> the strings behind it
  when it is read as \<^verbatim>\<open>char**\<close>; \<open>None\<close> is the null pointer.
\<close>

record c_value =
  cv_bits :: u64
  cv_s :: "string option"
  cv_array :: "byte list option"
  cv_strs :: "string option list option"

record c_param =
  cp_name :: string
  cp_t :: nat
  cp_v :: c_value
  cp_arraySize :: nat

text \<open>The \<open>n\<close> little-endian items of \<open>sz\<close> bytes at the start of the memory.\<close>

definition array_items :: "nat \<Rightarrow> nat \<Rightarrow> byte list \<Rightarrow> nat list" where
  "array_items sz n memory = map (\<lambda>i. of_le_bytes (take sz (drop (i * sz) memory))) [0..<n]"

definition AppendInvalidParam :: "mem_env \<Rightarrow> c_param \<Rightarrow> event_base \<Rightarrow> event_base" where
  "AppendInvalidParam env param eb = SetRetCode ERR_VALUE_INVALID eb"

definition AppendBoolParam :: "mem_env \<Rightarrow> c_param \<Rightarrow> event_base \<Rightarrow> event_base" where
  "AppendBoolParam env param =
     when_ok (CheckParamValidity (cp_name param))
       (AppendParam env (Some (SignedVarintEncodedParam (cp_name param)
          (of_bool (ucast (cv_bits (cp_v param)) \<noteq> (0 :: 8 word))))))"

definition AppendInt8Param :: "mem_env \<Rightarrow> c_param \<Rightarrow> event_base \<Rightarrow> event_base" where
  "AppendInt8Param env param =
     when_ok (CheckParamValidity (cp_name param))
       (AppendParam env (Some (SignedVarintEncodedParam (cp_name param)
          (scast (ucast (cv_bits (cp_v param)) :: 8 word)))))"

definition AppendUint8Param :: "mem_env \<Rightarrow> c_param \<Rightarrow> event_base \<Rightarrow> event_base" where
  "AppendUint8Param env param =
     when_ok (CheckParamValidity (cp_name param))
       (AppendParam env (Some (UnsignedVarintEncodedParam (cp_name param)
          (ucast (ucast (cv_bits (cp_v param)) :: 8 word)))))"

definition AppendInt16Param :: "mem_env \<Rightarrow> c_param \<Rightarrow> event_base \<Rightarrow> event_base" where
  "AppendInt16Param env param =
     when_ok (CheckParamValidity (cp_name param))
       (AppendParam env (Some (SignedVarintEncodedParam (cp_name param)
          (scast (ucast (cv_bits (cp_v param)) :: 16 word)))))"

definition AppendUint16Param :: "mem_env \<Rightarrow> c_param \<Rightarrow> event_base \<Rightarrow> event_base" where
  "AppendUint16Param env param =
     when_ok (CheckParamValidity (cp_name param))
       (AppendParam env (Some (UnsignedVarintEncodedParam (cp_name param)
          (ucast (ucast (cv_bits (cp_v param)) :: 16 word)))))"

definition AppendInt32Param :: "mem_env \<Rightarrow> c_param \<Rightarrow> event_base \<Rightarrow> event_base" where
  "AppendInt32Param env param =
     when_ok (CheckParamValidity (cp_name param))
       (AppendParam env (Some (SignedVarintEncodedParam (cp_name param)
          (scast (ucast (cv_bits (cp_v param)) :: 32 word)))))"

definition AppendUint32Param :: "mem_env \<Rightarrow> c_param \<Rightarrow> event_base \<Rightarrow> event_base" where
  "AppendUint32Param env param =
     when_ok (CheckParamValidity (cp_name param))
       (AppendParam env (Some (UnsignedVarintEncodedParam (cp_name param)
          (ucast (ucast (cv_bits (cp_v param)) :: 32 word)))))"

definition AppendInt64Param :: "mem_env \<Rightarrow> c_param \<Rightarrow> event_base \<Rightarrow> event_base" where
  "AppendInt64Param env param =
     when_ok (CheckParamValidity (cp_name param))
       (AppendParam env (Some (SignedVarintEncodedParam (cp_name param)
          (cv_bits (cp_v param)))))"

definition AppendUint64Param :: "mem_env \<Rightarrow> c_param \<Rightarrow> event_base \<Rightarrow> event_base" where
  "AppendUint64Param env param =
     when_ok (CheckParamValidity (cp_name param))
       (AppendParam env (Some (UnsignedVarintEncodedParam (cp_name param)
          (cv_bits (cp_v param)))))"

definition AppendFloatParam :: "mem_env \<Rightarrow> c_param \<Rightarrow> event_base \<Rightarrow> event_base" where
  "AppendFloatParam env param =
     when_ok (CheckParamValidity (cp_name param))
       (AppendParam env (Some (FloatingNumberEncodedParam (cp_name param)
          (Float (ucast (cv_bits (cp_v param)))))))"

definition AppendDoubleParam :: "mem_env \<Rightarrow> c_param \<Rightarrow> event_base \<Rightarrow> event_base" where
  "AppendDoubleParam env param =
     when_ok (CheckParamValidity (cp_name param))
       (AppendParam env (Some (FloatingNumberEncodedParam (cp_name param)
          (Double (cv_bits (cp_v param))))))"

definition AppendStringParam :: "mem_env \<Rightarrow> c_param \<Rightarrow> event_base \<Rightarrow> event_base" where
  "AppendStringParam env param eb = (case cv_s (cp_v param) of
     None \<Rightarrow> SetRetCode ERR_VALUE_INVALID eb
   | Some s \<Rightarrow>
       when_ok (CheckParamValidity (cp_name param))
         (\<lambda>eb. let eb1 = fst (IsWarnAndUpdate (CheckValue s) eb);
                  rawStr = EscapeToRaw s in
              AppendParam env (Some (StringEncodedParam (cp_name param) rawStr)) eb1) eb)"

definition AppendBoolArrayParam :: "mem_env \<Rightarrow> c_param \<Rightarrow> event_base \<Rightarrow> event_base" where
  "AppendBoolArrayParam env param =
     (let array = cv_array (cp_v param) in
      when_ok (CheckArrayValidity array)
        (let value = map (\<lambda>x. x \<noteq> 0) (array_items 1 (cp_arraySize param) (the array)) in
         when_ok (CheckArrayParamsValidity env (cp_name param) value)
           (AppendParam env (Some (SignedVarintEncodedArrayParam (cp_name param) (map of_bool value))))))"

definition AppendInt8ArrayParam :: "mem_env \<Rightarrow> c_param \<Rightarrow> event_base \<Rightarrow> event_base" where
  "AppendInt8ArrayParam env param =
     (let array = cv_array (cp_v param) in
      when_ok (CheckArrayValidity array)
        (let value = map of_nat (array_items 1 (cp_arraySize param) (the array)) :: 8 word list in
         when_ok (CheckArrayParamsValidity env (cp_name param) value)
           (AppendParam env (Some (SignedVarintEncodedArrayParam (cp_name param) (map scast value))))))"

definition AppendUint8ArrayParam :: "mem_env \<Rightarrow> c_param \<Rightarrow> event_base \<Rightarrow> event_base" where
  "AppendUint8ArrayParam env param =
     (let array = cv_array (cp_v param) in
      when_ok (CheckArrayValidity array)
        (let value = map of_nat (array_items 1 (cp_arraySize param) (the array)) :: 8 word list in
         when_ok (CheckArrayParamsValidity env (cp_name param) value)
           (AppendParam env (Some (UnsignedVarintEncodedArrayParam (cp_name param) (map ucast value))))))"

definition AppendInt16ArrayParam :: "mem_env \<Rightarrow> c_param \<Rightarrow> event_base \<Rightarrow> event_base" where
  "AppendInt16ArrayParam env param =
     (let array = cv_array (cp_v param) in
      when_ok (CheckArrayValidity array)
        (let value = map of_nat (array_items 2 (cp_arraySize param) (the array)) :: 16 word list in
         when_ok (CheckArrayParamsValidity env (cp_name param) value)
           (AppendParam env (Some (SignedVarintEncodedArrayParam (cp_name param) (map scast value))))))"

definition AppendUint16ArrayParam :: "mem_env \<Rightarrow> c_param \<Rightarrow> event_base \<Rightarrow> event_base" where
  "AppendUint16ArrayParam env param =
     (let array = cv_array (cp_v param) in
      when_ok (CheckArrayValidity array)
        (let value = map of_nat (array_items 2 (cp_arraySize param) (the array)) :: 16 word list in
         when_ok (CheckArrayParamsValidity env (cp_name param) value)
           (AppendParam env (Some (UnsignedVarintEncodedArrayParam (cp_name param) (map ucast value))))))"

definition AppendInt32ArrayParam :: "mem_env \<Rightarrow> c_param \<Rightarrow> event_base \<Rightarrow> event_base" where
  "AppendInt32ArrayParam env param =
     (let array = cv_array (cp_v param) in
      when_ok (CheckArrayValidity array)
        (let value = map of_nat (array_items 4 (cp_arraySize param) (the array)) :: 32 word list in
         when_ok (CheckArrayParamsValidity env (cp_name param) value)
           (AppendParam env (Some (SignedVarintEncodedArrayParam (cp_name param) (map scast value))))))"

definition AppendUint32ArrayParam :: "mem_env \<Rightarrow> c_param \<Rightarrow> event_base \<Rightarrow> event_base" where
  "AppendUint32ArrayParam env param =
     (let array = cv_array (cp_v param) in
      when_ok (CheckArrayValidity array)
        (let value = map of_nat (array_items 4 (cp_arraySize param) (the array)) :: 32 word list in
         when_ok (CheckArrayParamsValidity env (cp_name param) value)
           (AppendParam env (Some (UnsignedVarintEncodedArrayParam (cp_name param) (map ucast value))))))"

definition AppendInt64ArrayParam :: "mem_env \<Rightarrow> c_param \<Rightarrow> event_base \<Rightarrow> event_base" where
  "AppendInt64ArrayParam env param =
     (let array = cv_array (cp_v param) in
      when_ok (CheckArrayValidity array)
        (let value = map of_nat (array_items 8 (cp_arraySize param) (the array)) :: 64 word list in
         when_ok (CheckArrayParamsValidity env (cp_name param) value)
           (AppendParam env (Some (SignedVarintEncodedArrayParam (cp_name param) value)))))"

definition AppendUint64ArrayParam :: "mem_env \<Rightarrow> c_param \<Rightarrow> event_base \<Rightarrow> event_base" where
  "AppendUint64ArrayParam env param =
     (let array = cv_array (cp_v param) in
      when_ok (CheckArrayValidity array)
        (let value = map of_nat (array_items 8 (cp_arraySize param) (the array)) :: 64 word list in
         when_ok (CheckArrayParamsValidity env (cp_name param) value)
           (AppendParam env (Some (UnsignedVarintEncodedArrayParam (cp_name param) value)))))"

definition AppendFloatArrayParam :: "mem_env \<Rightarrow> c_param \<Rightarrow> event_base \<Rightarrow> event_base" where
  "AppendFloatArrayParam env param =
     (let array = cv_array (cp_v param) in
      when_ok (CheckArrayValidity array)
        (let value = map of_nat (array_items 4 (cp_arraySize param) (the array)) :: 32 word list in
         when_ok (CheckArrayParamsValidity env (cp_name param) value)
           (AppendParam env (Some (FloatingNumberEncodedArrayParam (cp_name param) (FloatArr value))))))"

definition AppendDoubleArrayParam :: "mem_env \<Rightarrow> c_param \<Rightarrow> event_base \<Rightarrow> event_base" where
  "AppendDoubleArrayParam env param =
     (let array = cv_array (cp_v param) in
      when_ok (CheckArrayValidity array)
        (let value = map of_nat (array_items 8 (cp_arraySize param) (the array)) :: 64 word list in
         when_ok (CheckArrayParamsValidity env (cp_name param) value)
           (AppendParam env (Some (FloatingNumberEncodedArrayParam (cp_name param) (DoubleArr value))))))"

definition AppendStringArrayParam :: "mem_env \<Rightarrow> c_param \<Rightarrow> event_base \<Rightarrow> event_base" where
  "AppendStringArrayParam env param eb = (case cv_strs (cp_v param) of
     None \<Rightarrow> SetRetCode ERR_VALUE_INVALID eb
   | Some array \<Rightarrow>
       if list_ex (\<lambda>temp. temp = None) (take (cp_arraySize param) array)
       then SetRetCode ERR_VALUE_INVALID eb
       else let value = map the (take (cp_arraySize param) array) in
         when_ok (CheckArrayParamsValidity env (cp_name param) value)
           (\<lambda>eb. case warn_and_escape value [] eb of (eb1, rawStrs) \<Rightarrow>
              AppendParam env (Some (StringEncodedArrayParam (cp_name param) rawStrs)) eb1) eb)"

text \<open>The table of functions indexed by the type tag.\<close>

definition appendFuncs :: "mem_env \<Rightarrow> (c_param \<Rightarrow> event_base \<Rightarrow> event_base) list" where
  "appendFuncs env = map (\<lambda>f. f env)
     [AppendInvalidParam, AppendBoolParam, AppendInt8Param, AppendUint8Param,
      AppendInt16Param, AppendUint16Param, AppendInt32Param, AppendUint32Param,
      AppendInt64Param, AppendUint64Param, AppendFloatParam, AppendDoubleParam,
      AppendStringParam, AppendBoolArrayParam, AppendInt8ArrayParam, AppendUint8ArrayParam,
      AppendInt16ArrayParam, AppendUint16ArrayParam, AppendInt32ArrayParam, AppendUint32ArrayParam,
      AppendInt64ArrayParam, AppendUint64ArrayParam, AppendFloatArrayParam, AppendDoubleArrayParam,
      AppendStringArrayParam]"

definition AppendParam_c :: "mem_env \<Rightarrow> c_param \<Rightarrow> event_base \<Rightarrow> event_base" where
  "AppendParam_c env param eb =
     (let paramType = cp_t param in
      if paramType < 25 then (appendFuncs env ! paramType) param eb
      else SetRetCode ERR_VALUE_INVALID eb)"

definition InnerWrite_params ::
  "mem_env \<Rightarrow> c_param list option \<Rightarrow> nat \<Rightarrow> event_base \<Rightarrow> event_base" where
  "InnerWrite_params env params sz eb = (case params of
     None \<Rightarrow> eb
   | Some ps \<Rightarrow> if sz = 0 then eb
       else fold (\<lambda>i. AppendParam_c env (ps ! i)) [0..<sz] eb)"

section \<open>One specification for both interfaces\<close>

text \<open>
  \<open>norm_value\<close> is the wire value of a C++ value: integers widened, non-finite numbers
  replaced by zero, strings escaped, arrays cut to \<^verbatim>\<open>MAX_ARRAY_SIZE\<close> items, and every
  empty array an empty array of signed integers. \<open>warning\<close> is the code it raises.
\<close>

definition cut :: "'a list \<Rightarrow> 'a list" where
  "cut xs = take MAX_ARRAY_SIZE xs"

primrec norm_value :: "cpp_value \<Rightarrow> param_value" where
  "norm_value (VBool v) = PSigned (of_bool v)"
| "norm_value (VChar v) = PSigned (scast v)"
| "norm_value (VUChar v) = PUnsigned (ucast v)"
| "norm_value (VShort v) = PSigned (scast v)"
| "norm_value (VUShort v) = PUnsigned (ucast v)"
| "norm_value (VInt v) = PSigned (scast v)"
| "norm_value (VUInt v) = PUnsigned (ucast v)"
| "norm_value (VLong v) = PSigned v"
| "norm_value (VULong v) = PUnsigned v"
| "norm_value (VLongLong v) = PSigned v"
| "norm_value (VULongLong v) = PUnsigned v"
| "norm_value (VFloat v) = PFloating (Float (finite_or_zero32 v))"
| "norm_value (VDouble v) = PFloating (Double (finite_or_zero64 v))"
| "norm_value (VString v) = PString (EscapeToRaw v)"
| "norm_value (VCString v) = PString (EscapeToRaw v)"
| "norm_value (VBools vs) = PSignedArr (map of_bool (cut vs))"
| "norm_value (VChars vs) = PSignedArr (map scast (cut vs))"
| "norm_value (VUChars vs) = (if vs = [] then PSignedArr [] else PUnsignedArr (map ucast (cut vs)))"
| "norm_value (VShorts vs) = PSignedArr (map scast (cut vs))"
| "norm_value (VUShorts vs) = (if vs = [] then PSignedArr [] else PUnsignedArr (map ucast (cut vs)))"
| "norm_value (VInts vs) = PSignedArr (map scast (cut vs))"
| "norm_value (VUInts vs) = (if vs = [] then PSignedArr [] else PUnsignedArr (map ucast (cut vs)))"
| "norm_value (VLongs vs) = PSignedArr (cut vs)"
| "norm_value (VULongs vs) = (if vs = [] then PSignedArr [] else PUnsignedArr (cut vs))"
| "norm_value (VLongLongs vs) = PSignedArr (cut vs)"
| "norm_value (VULongLongs vs) = (if vs = [] then PSignedArr [] else PUnsignedArr (cut vs))"
| "norm_value (VFloats vs) = (if vs = [] then PSignedArr [] else PFloatingArr (FloatArr (map finite_or_zero32 (cut vs))))"
| "norm_value (VDoubles vs) = (if vs = [] then PSignedArr [] else PFloatingArr (DoubleArr (map finite_or_zero64 (cut vs))))"
| "norm_value (VStrings vs) = (if vs = [] then PSignedArr [] else PStringArr (map EscapeToRaw (cut vs)))"

definition size_warning :: "'a list \<Rightarrow> int" where
  "size_warning vs = (if length vs > MAX_ARRAY_SIZE then ERR_ARRAY_TOO_MUCH else SUCCESS)"

definition length_warning :: "string \<Rightarrow> int" where
  "length_warning s = (if length s > MAX_STRING_LENGTH then ERR_VALUE_LENGTH_TOO_LONG else SUCCESS)"

fun warning :: "cpp_value \<Rightarrow> int" where
  "warning (VString v) = length_warning v"
| "warning (VCString v) = length_warning v"
| "warning (VBools vs) = size_warning vs"
| "warning (VChars vs) = size_warning vs"
| "warning (VUChars vs) = size_warning vs"
| "warning (VShorts vs) = size_warning vs"
| "warning (VUShorts vs) = size_warning vs"
| "warning (VInts vs) = size_warning vs"
| "warning (VUInts vs) = size_warning vs"
| "warning (VLongs vs) = size_warning vs"
| "warning (VULongs vs) = size_warning vs"
| "warning (VLongLongs vs) = size_warning vs"
| "warning (VULongLongs vs) = size_warning vs"
| "warning (VFloats vs) = size_warning vs"
| "warning (VDoubles vs) = size_warning vs"
| "warning (VStrings vs) =
     (if list_ex (\<lambda>s. length s > MAX_STRING_LENGTH) vs then ERR_VALUE_LENGTH_TOO_LONG
      else size_warning vs)"
| "warning _ = SUCCESS"

text \<open>
  \<open>write_step\<close> is the common form of all overloads and of the C functions.
\<close>

definition warn :: "int \<Rightarrow> event_base \<Rightarrow> event_base" where
  "warn w eb = (if w = SUCCESS then eb else SetRetCode w eb)"

definition write_step :: "mem_env \<Rightarrow> string \<Rightarrow> int \<Rightarrow> param_value \<Rightarrow> event_base \<Rightarrow> event_base" where
  "write_step env key w v eb =
     (if \<not> IsValidName key MAX_PARAM_NAME_LENGTH then SetRetCode ERR_KEY_NAME_INVALID eb
      else if GetParamCnt eb \<ge> MAX_PARAM_NUMBER then SetRetCode ERR_KEY_NUMBER_TOO_MUCH eb
      else AppendParam env (Some (EncodedParam_base key v)) (warn w eb))"

lemma CheckParamValidity_cases:
  "CheckParamValidity key eb =
     (if \<not> IsValidName key MAX_PARAM_NAME_LENGTH then (SetRetCode ERR_KEY_NAME_INVALID eb, False)
      else if GetParamCnt eb \<ge> MAX_PARAM_NUMBER then (SetRetCode ERR_KEY_NUMBER_TOO_MUCH eb, False)
      else (eb, True))"
  by (simp add: CheckParamValidity_def CheckKey_def IsWarnAndUpdate_def UpdateAndCheckKeyNumIsOver_def
      err_code_defs)

lemma fst_IsWarnAndUpdate: "fst (IsWarnAndUpdate w eb) = warn w eb"
  by (simp add: IsWarnAndUpdate_def warn_def)

lemma scalar_write:
  "when_ok (CheckParamValidity key) (AppendParam env (Some (EncodedParam_base key v))) eb =
     write_step env key SUCCESS v eb"
  by (simp add: when_ok_def CheckParamValidity_cases write_step_def warn_def)

lemma array_write:
  "when_ok (CheckArrayParamsValidity env key vs) act eb =
     (if vs = [] then write_step env key SUCCESS (PSignedArr []) eb
      else when_ok (CheckParamValidity key) (\<lambda>eb. act (warn (size_warning vs) eb)) eb)"
  by (auto simp: when_ok_def CheckArrayParamsValidity_def CheckParamValidity_cases write_step_def
      warn_def SignedVarintEncodedArrayParam_def fst_IsWarnAndUpdate CheckArraySize_def size_warning_def)

lemma warn_and_escape_result:
  "warn_and_escape items raw eb =
     (warn (if list_ex (\<lambda>s. length s > MAX_STRING_LENGTH) items then ERR_VALUE_LENGTH_TOO_LONG
            else SUCCESS) eb, raw @ map EscapeToRaw items)"
  by (induction items arbitrary: raw eb)
     (auto simp: fst_IsWarnAndUpdate CheckValue_def warn_def SetRetCode_def err_code_defs)

lemma copy_vals_cut: "copy_vals f 0 xs = map f (cut xs)"
  by (simp add: copy_vals_take cut_def)

lemmas param_constructors = UnsignedVarintEncodedParam_def UnsignedVarintEncodedArrayParam_def
  SignedVarintEncodedParam_def SignedVarintEncodedArrayParam_def FloatingNumberEncodedParam_def
  FloatingNumberEncodedArrayParam_def StringEncodedParam_def StringEncodedArrayParam_def

lemma cut_map: "cut (map f xs) = map f (cut xs)"
  by (simp add: cut_def take_map)

lemma warn_warn: "warn w2 (warn w1 eb) = warn (if w2 = SUCCESS then w1 else w2) eb"
  by (simp add: warn_def SetRetCode_def)

lemma when_ok_write_step:
  "when_ok (CheckParamValidity key) (\<lambda>eb. AppendParam env (Some (EncodedParam_base key v)) (warn w eb)) eb =
     write_step env key w v eb"
  by (simp add: when_ok_def CheckParamValidity_cases write_step_def)

lemma cut_Nil [simp]: "cut [] = []"
  by (simp add: cut_def)

lemma size_warning_Nil [simp]: "size_warning [] = SUCCESS"
  by (simp add: size_warning_def)

lemma InnerWrite_overload_step:
  "InnerWrite_overload env key v eb = write_step env key (warning v) (norm_value v) eb"
  by (cases v)
     (simp_all add: InnerWrite_scalar_defs InnerWrite_array_defs InnerWrite_string_def InnerWrite_cstring_def
        InnerWrite_strings_def param_constructors copy_vals_cut cut_map scalar_write array_write
        when_ok_write_step fst_IsWarnAndUpdate Let_def warn_and_escape_result warn_warn
        CheckValue_def length_warning_def, simp_all add: err_code_defs)

text \<open>
  The C++ value that a parameter of the C interface stands for; \<open>None\<close> for an invalid or
  unknown type tag, a null pointer, or a null item of a string array.
\<close>

definition cpp_of :: "c_param \<Rightarrow> cpp_value option" where
  "cpp_of p =
     (let v = cp_v p; bits = cv_bits v; t = cp_t p;
          items = (\<lambda>sz f. map_option (\<lambda>mem. f (array_items sz (cp_arraySize p) mem)) (cv_array v)) in
      if t = 1 then Some (VBool (ucast bits \<noteq> (0 :: 8 word)))
      else if t = 2 then Some (VChar (ucast bits))
      else if t = 3 then Some (VUChar (ucast bits))
      else if t = 4 then Some (VShort (ucast bits))
      else if t = 5 then Some (VUShort (ucast bits))
      else if t = 6 then Some (VInt (ucast bits))
      else if t = 7 then Some (VUInt (ucast bits))
      else if t = 8 then Some (VLong bits)
      else if t = 9 then Some (VULong bits)
      else if t = 10 then Some (VFloat (ucast bits))
      else if t = 11 then Some (VDouble bits)
      else if t = 12 then map_option VCString (cv_s v)
      else if t = 13 then items 1 (\<lambda>ns. VBools (map (\<lambda>x. x \<noteq> 0) ns))
      else if t = 14 then items 1 (\<lambda>ns. VChars (map of_nat ns))
      else if t = 15 then items 1 (\<lambda>ns. VUChars (map of_nat ns))
      else if t = 16 then items 2 (\<lambda>ns. VShorts (map of_nat ns))
      else if t = 17 then items 2 (\<lambda>ns. VUShorts (map of_nat ns))
      else if t = 18 then items 4 (\<lambda>ns. VInts (map of_nat ns))
      else if t = 19 then items 4 (\<lambda>ns. VUInts (map of_nat ns))
      else if t = 20 then items 8 (\<lambda>ns. VLongs (map of_nat ns))
      else if t = 21 then items 8 (\<lambda>ns. VULongs (map of_nat ns))
      else if t = 22 then items 4 (\<lambda>ns. VFloats (map of_nat ns))
      else if t = 23 then items 8 (\<lambda>ns. VDoubles (map of_nat ns))
      else if t = 24 then (case cv_strs v of
             None \<Rightarrow> None
           | Some array \<Rightarrow>
               if list_ex (\<lambda>temp. temp = None) (take (cp_arraySize p) array) then None
               else Some (VStrings (map the (take (cp_arraySize p) array))))
      else None)"

lemmas C_append_defs = AppendInvalidParam_def AppendBoolParam_def AppendInt8Param_def AppendUint8Param_def
  AppendInt16Param_def AppendUint16Param_def AppendInt32Param_def AppendUint32Param_def
  AppendInt64Param_def AppendUint64Param_def AppendFloatParam_def AppendDoubleParam_def
  AppendStringParam_def

lemmas C_append_array_defs = AppendBoolArrayParam_def AppendInt8ArrayParam_def AppendUint8ArrayParam_def
  AppendInt16ArrayParam_def AppendUint16ArrayParam_def AppendInt32ArrayParam_def AppendUint32ArrayParam_def
  AppendInt64ArrayParam_def AppendUint64ArrayParam_def AppendFloatArrayParam_def AppendDoubleArrayParam_def
  AppendStringArrayParam_def

lemma appendFuncs_scalar:
  assumes "cp_t p < 13"
  shows "(appendFuncs env ! cp_t p) p eb = (case cpp_of p of
     None \<Rightarrow> SetRetCode ERR_VALUE_INVALID eb
   | Some v \<Rightarrow> InnerWrite_overload env (cp_name p) v eb)"
proof -
  have "cp_t p \<in> {0, 1, 2, 3, 4, 5, 6, 7, 8, 9, 10, 11, 12}"
    using assms by (auto simp: eval_nat_numeral less_Suc_eq)
  then show ?thesis
    by (elim insertE emptyE)
      (simp_all add: appendFuncs_def cpp_of_def C_append_defs InnerWrite_scalar_defs
        InnerWrite_cstring_def when_ok_def split: option.splits)
qed

lemma when_array:
  "when_ok (CheckArrayValidity a) act eb =
     (case a of None \<Rightarrow> SetRetCode ERR_VALUE_INVALID eb | Some _ \<Rightarrow> act eb)"
  by (simp add: when_ok_def CheckArrayValidity_def split: option.splits)

lemma appendFuncs_array:
  assumes "13 \<le> cp_t p" "cp_t p < 25"
  shows "(appendFuncs env ! cp_t p) p eb = (case cpp_of p of
     None \<Rightarrow> SetRetCode ERR_VALUE_INVALID eb
   | Some v \<Rightarrow> InnerWrite_overload env (cp_name p) v eb)"
proof -
  have "cp_t p \<in> {13, 14, 15, 16, 17, 18, 19, 20, 21, 22, 23, 24}"
    using assms by simp presburger
  then show ?thesis
    by (elim insertE emptyE)
      (simp_all add: appendFuncs_def cpp_of_def C_append_array_defs InnerWrite_array_defs
        InnerWrite_strings_def when_array Let_def split: option.splits)
qed

lemma AppendParam_c_overload:
  "AppendParam_c env p eb = (case cpp_of p of
     None \<Rightarrow> SetRetCode ERR_VALUE_INVALID eb
   | Some v \<Rightarrow> InnerWrite_overload env (cp_name p) v eb)"
proof (cases "cp_t p < 25")
  case True
  then show ?thesis
    using appendFuncs_scalar [of p env eb] appendFuncs_array [of p env eb]
    by (cases "cp_t p < 13") (simp_all add: AppendParam_c_def)
next
  case False
  then show ?thesis
    by (simp add: AppendParam_c_def cpp_of_def Let_def)
qed

end
