(* ===== verification/EventRecord.thy ===== *)
theory EventRecord
  imports HiSysEvent
begin

text \<open>
  The record an event is encoded into. The theory specifies what a write promises on the
  list of accepted parameters (\<open>spec_step\<close>), proves that the C++ and the C interface
  refine it (\<open>event_rel\<close>), and that the finished buffer decodes to the header and to
  exactly the accepted parameters.
\<close>

section \<open>Refinement to the list of accepted parameters\<close>

text \<open>
  The state of the specification: the result code and the accepted parameters. An
  argument is a key and a value, \<open>None\<close> for an unusable parameter of the C interface.
\<close>

type_synonym accepted = "int \<times> (string \<times> param_value) list"

fun spec_step :: "string \<times> cpp_value option \<Rightarrow> accepted \<Rightarrow> accepted" where
  "spec_step (key, None) (ret, ps) = (ERR_VALUE_INVALID, ps)"
| "spec_step (key, Some v) (ret, ps) =
     (if \<not> IsValidName key MAX_PARAM_NAME_LENGTH then (ERR_KEY_NAME_INVALID, ps)
      else if length ps \<ge> MAX_PARAM_NUMBER then (ERR_KEY_NUMBER_TOO_MUCH, ps)
      else (if warning v = SUCCESS then ret else warning v, ps @ [(key, norm_value v)]))"

definition spec_write :: "(string \<times> cpp_value option) list \<Rightarrow> accepted" where
  "spec_write args = fold spec_step args (SUCCESS, [])"

text \<open>The arguments of either interface.\<close>

datatype write_args = KeyValues "(string \<times> cpp_value) list" | Params "c_param list option" nat

primrec arg_list :: "write_args \<Rightarrow> (string \<times> cpp_value option) list" where
  "arg_list (KeyValues kvs) = map (\<lambda>(k, v). (k, Some v)) kvs"
| "arg_list (Params params sz) = (case params of
     None \<Rightarrow> []
   | Some ps \<Rightarrow> map (\<lambda>i. (cp_name (ps ! i), cpp_of (ps ! i))) [0..<sz])"

primrec InnerWrite_args :: "mem_env \<Rightarrow> write_args \<Rightarrow> event_base \<Rightarrow> event_base" where
  "InnerWrite_args env (KeyValues kvs) eb = InnerWrite env kvs eb"
| "InnerWrite_args env (Params params sz) eb = InnerWrite_params env params sz eb"

fun arg_step :: "mem_env \<Rightarrow> string \<times> cpp_value option \<Rightarrow> event_base \<Rightarrow> event_base" where
  "arg_step env (key, None) eb = SetRetCode ERR_VALUE_INVALID eb"
| "arg_step env (key, Some v) eb = write_step env key (warning v) (norm_value v) eb"

lemma InnerWrite_fold:
  "InnerWrite env kvs eb = fold (arg_step env) (map (\<lambda>(k, v). (k, Some v)) kvs) eb"
  by (induction kvs arbitrary: eb) (auto simp: InnerWrite_overload_step)

lemma AppendParam_c_arg_step: "AppendParam_c env p = arg_step env (cp_name p, cpp_of p)"
  by (auto simp: AppendParam_c_overload InnerWrite_overload_step split: option.splits)

lemma InnerWrite_args_fold: "InnerWrite_args env args eb = fold (arg_step env) (arg_list args) eb"
proof (cases args)
  case (KeyValues kvs)
  then show ?thesis by (simp add: InnerWrite_fold)
next
  case (Params params sz)
  then show ?thesis
    by (auto simp: InnerWrite_params_def AppendParam_c_arg_step fold_map comp_def split: option.splits)
qed

text \<open>
  The relation: the code has the result code and the count of the specification, and the
  buffer holds \<open>base\<close> followed by the bytes of the accepted parameters.
\<close>

definition event_rel :: "mem_env \<Rightarrow> byte list \<Rightarrow> event_base \<Rightarrow> accepted \<Rightarrow> bool" where
  "event_rel env base eb acc = (case acc of (ret, ps) \<Rightarrow>
     eb_retCode eb = ret \<and> eb_paramCnt eb = length ps \<and>
     (\<exists>rd. eb_rawData eb = Some rd \<and> rd_ok env rd \<and>
        contents rd = base @ concat (map param_bytes ps)))"

lemma event_rel_ret [simp]:
  "event_rel env base eb (ret, ps) \<Longrightarrow> event_rel env base (SetRetCode r eb) (r, ps)"
  by (auto simp: event_rel_def SetRetCode_def)

lemma event_rel_warn:
  "event_rel env base eb (ret, ps) \<Longrightarrow> event_rel env base (warn w eb) (if w = SUCCESS then ret else w, ps)"
  by (auto simp: warn_def)

text \<open>Whatever fits the buffer is addressable.\<close>

lemma length_concat_pos:
  assumes "\<And>x. f x \<noteq> []" shows "length xs \<le> length (concat (map f xs))"
proof (induction xs)
  case (Cons x xs)
  have "0 < length (f x)" using assms by simp
  with Cons show ?case
    unfolding list.map concat.simps length_append list.size by linarith
qed simp

lemma length_string_bytes: "length s < length (string_bytes s)"
  by (simp add: string_bytes_def varint_def)

lemma length_in_concat: "x \<in> set xs \<Longrightarrow> length (f x) \<le> length (concat (map f xs))"
  by (induction xs) (auto intro: le_add1 trans_le_add2)

lemma length_array_bytes:
  assumes "length (array_bytes f xs) < n" "\<And>x. f x \<noteq> []" shows "length xs < n"
  using length_concat_pos [of f xs, OF assms(2)] assms(1) by (simp add: array_bytes_def)

lemma length_item_array_bytes:
  assumes "x \<in> set xs" shows "length (f x) \<le> length (array_bytes f xs)"
  using length_in_concat [OF assms, of f] by (simp add: array_bytes_def)

lemma wire_nonempty [simp]: "varint t n \<noteq> []" "float_bytes sz n \<noteq> []" "string_bytes s \<noteq> []"
  by (simp_all add: varint_def float_bytes_def string_bytes_def)

lemma addressable_of_room: "length (value_bytes v) < 2 ^ 64 \<Longrightarrow> addressable v"
proof (cases v rule: value_bytes.cases)
  case (10 ss)
  assume room: "length (value_bytes v) < 2 ^ 64"
  have "length s < 2 ^ 64" if "s \<in> set ss" for s
    using length_item_array_bytes [OF that, of string_bytes] length_string_bytes [of s] room 10 by simp
  moreover have "length ss < 2 ^ 64"
    using room 10 by (auto intro: length_array_bytes [of string_bytes])
  ultimately show ?thesis using 10 by simp
next
  case (9 s)
  then show "length (value_bytes v) < 2 ^ 64 \<Longrightarrow> addressable v"
    using length_string_bytes [of s] by simp
qed (auto dest: length_array_bytes)

lemma sink_limit_bound: "rd_ok env rd \<Longrightarrow> sink_limit env \<le> 0x7fffffff"
proof -
  assume "rd_ok env rd"
  then have "memcpy_max env \<le> 0x7fffffff" by (simp add: rd_ok_def mem_ok_def)
  moreover have "sink_limit env \<le> memcpy_max env"
    unfolding sink_limit_def by (meson diff_le_self div_le_dividend order_trans)
  ultimately show ?thesis by (rule order_trans [rotated])
qed

lemma AppendParam_refines:
  assumes rel: "event_rel env base eb (ret, ps)"
    and room: "length base + length (concat (map param_bytes (ps @ [(key, v)]))) \<le> sink_limit env"
  shows "event_rel env base (AppendParam env (Some (EncodedParam_base key v)) eb) (ret, ps @ [(key, v)])"
proof -
  from rel obtain rd where rd: "eb_rawData eb = Some rd" "rd_ok env rd"
      "contents rd = base @ concat (map param_bytes ps)"
    and cnt: "eb_retCode eb = ret" "eb_paramCnt eb = length ps"
    by (auto simp: event_rel_def)
  have lim: "length (param_bytes (key, v)) < 2 ^ 64"
    using room sink_limit_bound [OF rd(2)] by simp
  then have "length (value_bytes v) < 2 ^ 64" "length key < 2 ^ 64"
    using length_string_bytes [of key] by (simp_all add: param_bytes_def)
  moreover have "length (contents rd) + length (param_bytes (key, v)) \<le> sink_limit env"
    using room rd(3) by simp
  ultimately obtain rd' where rd': "param_writer env key v rd = (rd', True)" "rd_ok env rd'"
      "contents rd' = contents rd @ param_bytes (key, v)"
    using writesD [OF param_writer_writes [OF addressable_of_room] rd(2)] by blast
  let ?ep = "SetRawData (eb_rawData eb) (EncodedParam_base key v)"
  have ep: "ep_rawData ?ep = Some rd" "ep_key ?ep = key" "ep_val ?ep = v"
    by (simp_all add: SetRawData_def EncodedParam_base_def rd(1))
  show ?thesis
    using Encode_param_writer [OF ep(1), of env] rd' rd(3) cnt
    by (simp add: ep AppendParam_def event_rel_def)
qed

lemma write_step_refines:
  assumes rel: "event_rel env base eb (ret, ps)"
    and room: "length base + length (concat (map param_bytes (snd (spec_step (key, Some v) (ret, ps)))))
      \<le> sink_limit env"
  shows "event_rel env base (write_step env key (warning v) (norm_value v) eb)
    (spec_step (key, Some v) (ret, ps))"
proof -
  have cnt: "GetParamCnt eb = length ps"
    using rel by (simp add: event_rel_def GetParamCnt_def)
  show ?thesis
  proof (cases "IsValidName key MAX_PARAM_NAME_LENGTH \<and> length ps < MAX_PARAM_NUMBER")
    case True
    with room have "length base + length (concat (map param_bytes (ps @ [(key, norm_value v)])))
        \<le> sink_limit env" by simp
    with True cnt show ?thesis
      using AppendParam_refines [OF event_rel_warn [OF rel]] by (simp add: write_step_def)
  next
    case False
    with rel cnt show ?thesis
      by (auto simp: write_step_def)
  qed
qed

lemma arg_step_refines:
  assumes "event_rel env base eb acc"
    and "length base + length (concat (map param_bytes (snd (spec_step arg acc)))) \<le> sink_limit env"
  shows "event_rel env base (arg_step env arg eb) (spec_step arg acc)"
proof -
  obtain key vo ret ps where "arg = (key, vo)" "acc = (ret, ps)" by (metis prod.collapse)
  then show ?thesis
    using assms write_step_refines [of env base eb ret ps key] by (cases vo) auto
qed

lemma spec_step_extends: "\<exists>qs. snd (spec_step arg acc) = snd acc @ qs"
  by (cases arg; cases acc; cases "snd arg") auto

lemma spec_fold_extends: "\<exists>qs. snd (fold spec_step args acc) = snd acc @ qs"
proof (induction args arbitrary: acc)
  case (Cons a args)
  obtain q1 where "snd (spec_step a acc) = snd acc @ q1"
    using spec_step_extends by blast
  moreover obtain q2 where "snd (fold spec_step args (spec_step a acc)) = snd (spec_step a acc) @ q2"
    using Cons.IH by blast
  ultimately show ?case by simp
qed simp

lemma fold_refines:
  assumes "event_rel env base eb acc"
    and "length base + length (concat (map param_bytes (snd (fold spec_step args acc)))) \<le> sink_limit env"
  shows "event_rel env base (fold (arg_step env) args eb) (fold spec_step args acc)"
  using assms
proof (induction args arbitrary: eb acc)
  case (Cons a args)
  obtain qs where "snd (fold spec_step args (spec_step a acc)) = snd (spec_step a acc) @ qs"
    using spec_fold_extends by blast
  with Cons.prems(2) have "length base + length (concat (map param_bytes (snd (spec_step a acc))))
      \<le> sink_limit env" by simp
  then have "event_rel env base (arg_step env a eb) (spec_step a acc)"
    using arg_step_refines Cons.prems(1) by blast
  with Cons show ?case by simp
qed simp

text \<open>Writing parameters touches neither the header nor the offset of the count.\<close>

lemma AppendParam_frame [event_frames]:
  "eb_header (AppendParam env p eb) = eb_header eb"
  "eb_traceInfo (AppendParam env p eb) = eb_traceInfo eb"
  "eb_paramCntWroteOffset (AppendParam env p eb) = eb_paramCntWroteOffset eb"
  by (simp_all add: AppendParam_def Let_def split: option.splits prod.splits)

lemma arg_step_frame [event_frames]:
  "eb_header (arg_step env a eb) = eb_header eb"
  "eb_traceInfo (arg_step env a eb) = eb_traceInfo eb"
  "eb_paramCntWroteOffset (arg_step env a eb) = eb_paramCntWroteOffset eb"
  by (cases a rule: prod.exhaust, cases "snd a",
      simp_all add: write_step_def warn_def SetRetCode_def event_frames)+

lemma fold_arg_step_frame [event_frames]:
  "eb_header (fold (arg_step env) args eb) = eb_header eb"
  "eb_traceInfo (fold (arg_step env) args eb) = eb_traceInfo eb"
  "eb_paramCntWroteOffset (fold (arg_step env) args eb) = eb_paramCntWroteOffset eb"
  by (induction args arbitrary: eb) (simp_all add: event_frames)

section \<open>The head of the record\<close>

definition trace_part :: "TraceInfo option \<Rightarrow> byte list" where
  "trace_part t = (case t of None \<Rightarrow> [] | Some ti \<Rightarrow> trace_bytes ti)"

definition head_bytes :: "nat \<Rightarrow> HiSysEventHeader \<Rightarrow> TraceInfo option \<Rightarrow> nat \<Rightarrow> byte list" where
  "head_bytes blockSize h t cnt =
     le_bytes 4 blockSize @ header_bytes h @ trace_part t @ le_bytes 4 cnt"

definition written_header :: "proc_env \<Rightarrow> string \<Rightarrow> string \<Rightarrow> int \<Rightarrow> u64 \<Rightarrow> HiSysEventHeader" where
  "written_header pe domain name type timeStamp =
     \<lparr>hd_domain = bytes_of_string domain @ replicate (MAX_DOMAIN_LENGTH + 1 - length domain) 0,
      hd_name = bytes_of_string name @ replicate (MAX_EVENT_NAME_LENGTH + 1 - length name) 0,
      hd_timestamp = timeStamp, hd_timeZone = of_nat (ParseTimeZone (pe_timezone pe)),
      hd_uid = pe_uid pe, hd_pid = pe_pid pe, hd_tid = pe_tid pe, hd_id = 0,
      hd_type = nat ((type - 1) mod 4),
      hd_isTraceOpened = (if pe_hitrace pe = None then 0 else 1)\<rparr>"

lemma written_header_wf:
  assumes "IsValidName domain MAX_DOMAIN_LENGTH" "IsValidName name MAX_EVENT_NAME_LENGTH"
  shows "header_wf (written_header pe domain name type ts)"
proof -
  have "nat ((type - 1) mod 4) < 4"
    using pos_mod_bound [of 4 "type - 1"] by linarith
  then show ?thesis
    using assms [THEN name.valid_length] by (simp add: header_wf_def written_header_def)
qed

lemma length_head_bytes:
  "header_wf h \<Longrightarrow> length (head_bytes n h t c) = 88 + (if t = None then 0 else 17)"
  by (simp add: head_bytes_def length_header_bytes sizeof_header_80 trace_part_def length_trace_bytes
      split: option.splits)

lemma append_or_fail_ok:
  assumes "eb_rawData eb = Some rd" "rd_ok env rd" "length (contents rd) + length bs \<le> sink_limit env"
  shows "\<exists>rd'. append_or_fail env bs k eb = k (eb\<lparr>eb_rawData := Some rd'\<rparr>) \<and> rd_ok env rd' \<and>
    contents rd' = contents rd @ bs"
  using writesD [OF Append_writes assms(2,3)] assms(1) by (auto simp: append_or_fail_def)

lemma EventBase_new_valid:
  assumes names: "IsValidName domain MAX_DOMAIN_LENGTH" "IsValidName name MAX_EVENT_NAME_LENGTH"
    and env: "mem_ok env" "33 \<le> memcpy_max env"
  shows "EventBase_new env domain name type ts = event_base_init\<lparr>eb_header := empty_header\<lparr>
     hd_domain := bytes_of_string domain @ replicate (MAX_DOMAIN_LENGTH + 1 - length domain) 0,
     hd_name := bytes_of_string name @ replicate (MAX_EVENT_NAME_LENGTH + 1 - length name) 0,
     hd_type := nat ((type - 1) mod 4), hd_timestamp := ts\<rparr>\<rparr>"
proof -
  have len: "length domain \<le> 16" "length name \<le> 32"
    using names [THEN name.valid_length] by (simp_all add: limit_defs)
  then have "memcpy_ok env (MAX_DOMAIN_LENGTH + 1) (length domain)"
    "memcpy_ok env (MAX_EVENT_NAME_LENGTH + 1) (length name)"
    using env by (simp_all add: mem_ok_def limit_defs)
  with names show ?thesis
    by (simp add: EventBase_new_def Let_def event_base_init_def empty_header_def splice_at_def del: replicate.simps)
qed

text \<open>
  \<^verbatim>\<open>WritebaseInfo\<close> on a fresh event with valid names writes the head with a zero size and a
  zero count and records where the count stands.
\<close>

definition count_offset :: "proc_env \<Rightarrow> nat" where
  "count_offset pe = (if pe_hitrace pe = None then 84 else 101)"

lemma append_or_fail_Some:
  "eb_rawData eb = Some rd \<Longrightarrow> Append env bs rd = (rd', True) \<Longrightarrow>
   append_or_fail env bs k eb = k (eb\<lparr>eb_rawData := Some rd'\<rparr>)"
  by (simp add: append_or_fail_def)

lemma WritebaseInfo_head:
  assumes names: "IsValidName domain MAX_DOMAIN_LENGTH" "IsValidName name MAX_EVENT_NAME_LENGTH"
    and env: "mem_ok (pe_mem pe)" and room: "105 \<le> sink_limit (pe_mem pe)"
    and eb: "eb = WritebaseInfo pe (EventBase_new (pe_mem pe) domain name type ts)"
  shows "event_rel (pe_mem pe) (head_bytes 0 (written_header pe domain name type ts) (pe_hitrace pe) 0) eb
      (SUCCESS, []) \<and> eb_paramCntWroteOffset eb = count_offset pe"
proof -
  let ?env = "pe_mem pe" and ?h = "written_header pe domain name type ts"
  have wf: "header_wf ?h"
    by (rule written_header_wf [OF names])
  have max: "33 \<le> memcpy_max ?env"
    using room by (simp add: sink_limit_def)
  let ?eb0 = "fill_header pe ((EventBase_new ?env domain name type ts)\<lparr>eb_rawData := Some (RawData_new ?env)\<rparr>)"
  have eb0: "eb_header ?eb0 = ?h" "eb_rawData ?eb0 = Some (RawData_new ?env)" "eb_paramCnt ?eb0 = 0"
      "eb_retCode ?eb0 = 0"
    by (simp_all add: EventBase_new_valid [OF names env max] fill_header_def written_header_def Let_def
        event_base_init_def empty_header_def split: option.splits)
  have tr0: "eb_traceInfo ?eb0 = t" if "pe_hitrace pe = Some t" for t
    using that by (simp add: fill_header_def Let_def)
  define tr where "tr = trace_part (pe_hitrace pe)"
  have len: "length (header_bytes ?h) = 80" "length tr = (if pe_hitrace pe = None then 0 else 17)"
    using length_header_bytes [OF wf] sizeof_header_80
    by (auto simp: tr_def trace_part_def length_trace_bytes split: option.splits)
  obtain rd1 where rd1: "Append ?env (le_bytes 4 0) (RawData_new ?env) = (rd1, True)"
      "rd_ok ?env rd1" "contents rd1 = le_bytes 4 0"
    using writesD [OF Append_writes rd_ok_new [OF env], of "le_bytes 4 0"] room
    by (auto simp del: le_bytes.simps)
  obtain rd2 where rd2: "Append ?env (header_bytes ?h) rd1 = (rd2, True)"
      "rd_ok ?env rd2" "contents rd2 = le_bytes 4 0 @ header_bytes ?h"
    using writesD [OF Append_writes rd1(2), of "header_bytes ?h"] room len rd1(3)
    by (auto simp del: le_bytes.simps)
  obtain rd3 where rd3: "(if pe_hitrace pe = None then rd3 = rd2 else Append ?env tr rd2 = (rd3, True))"
      "rd_ok ?env rd3" "contents rd3 = le_bytes 4 0 @ header_bytes ?h @ tr"
    using writesD [OF Append_writes rd2(2), of tr] room len rd2
    by (cases "pe_hitrace pe") (auto simp del: le_bytes.simps simp: tr_def trace_part_def)
  obtain rd4 where rd4: "Append ?env (le_bytes 4 0) rd3 = (rd4, True)"
      "rd_ok ?env rd4" "contents rd4 = head_bytes 0 ?h (pe_hitrace pe) 0"
    using writesD [OF Append_writes rd3(2), of "le_bytes 4 0"] room len rd3(3)
    by (auto simp del: le_bytes.simps simp: head_bytes_def tr_def split: if_splits)
  have off: "GetDataLength rd3 = count_offset pe"
  proof -
    have "rd_inv rd3" using rd3(2) by (simp add: rd_ok_def)
    then have "GetDataLength rd3 = length (contents rd3)" by (simp add: GetDataLength_def)
    then show ?thesis using len by (simp add: rd3(3) count_offset_def del: le_bytes.simps)
  qed
  have "eb = ?eb0\<lparr>eb_paramCntWroteOffset := count_offset pe, eb_rawData := Some rd4\<rparr>"
  proof (cases "pe_hitrace pe")
    case None
    then have "hd_isTraceOpened ?h = 0" "rd3 = rd2" using rd3(1) by (simp_all add: written_header_def)
    then show ?thesis
      using rd1 rd2 rd3 rd4 off eb0
      by (simp add: eb WritebaseInfo_def Let_def append_or_fail_Some del: le_bytes.simps)
  next
    case (Some t)
    then have "hd_isTraceOpened ?h = 1" "Append ?env (trace_bytes t) rd2 = (rd3, True)"
      using rd3(1) by (simp_all add: written_header_def tr_def trace_part_def)
    then show ?thesis
      using rd1 rd2 rd3 rd4 off eb0 tr0 [OF Some]
      by (simp add: eb WritebaseInfo_def Let_def append_or_fail_Some del: le_bytes.simps)
  qed
  then show ?thesis
    using eb0 rd4 by (simp add: event_rel_def SUCCESS_def)
qed

section \<open>The finished record\<close>

text \<open>Updating bytes that were already written needs no growth and always succeeds.\<close>

lemma Update_inside:
  assumes rd: "rd_ok env rd" and pos: "pos + length d \<le> length (contents rd)" and d: "d \<noteq> []"
    and lim: "length (contents rd) \<le> sink_limit env"
  shows "\<exists>rd'. Update env (Some d) (length d) pos rd = (rd', True) \<and> rd_ok env rd' \<and>
    contents rd' = splice_at pos d (contents rd)"
proof -
  have inv: "rd_inv rd" "rd_tight rd" "mem_ok env" and n: "length (contents rd) = rd_len rd"
    using rd by (auto simp: rd_ok_def)
  obtain buf where buf: "rd_data rd = Some buf"
    using rd by (auto simp: rd_ok_def)
  have cap: "rd_len rd \<le> rd_capacity rd" using inv buf by (auto simp: rd_inv_def)
  have dpos: "0 < length d" using d by simp
  have "2 * rd_len rd + EXPAND_BUF_SIZE \<le> memcpy_max env"
    using sink_limitD [of "rd_len rd" env] lim pos dpos n by linarith
  then have "rd_capacity rd - pos \<le> memcpy_max env"
    using inv(2) by (simp add: rd_tight_def)
  moreover have "0 < rd_capacity rd - pos" "length d \<le> rd_capacity rd - pos"
    using pos dpos cap n by linarith+
  ultimately have "memcpy_ok env (rd_capacity rd - pos) (length d)"
    using inv(3) by (simp add: mem_ok_def)
  moreover have "\<not> rd_len rd < pos" "\<not> rd_capacity rd < pos + length d"
    using pos cap n by linarith+
  ultimately have u: "Update env (Some d) (length d) pos rd =
      (rd\<lparr>rd_data := Some (splice_at pos (map Some d) buf)\<rparr>, True)"
    using pos n buf by (simp add: Update_def Update_copy_def)
  show ?thesis
    using Update_refines [OF inv(1) u] u rd by (simp add: rd_ok_def rd_tight_def)
qed

text \<open>The reader's view of a record: the block must be as long as its first four bytes say.\<close>

definition decode_event ::
  "byte list \<Rightarrow> (HiSysEventHeader \<times> TraceInfo option \<times> (string \<times> param_value) list) option" where
  "decode_event bs =
     (if length bs < 88 \<or> of_le_bytes (take 4 bs) \<noteq> length bs then None
      else let h = dec_header (drop 4 bs);
               r = drop 84 bs;
               traced = (hd_isTraceOpened h = 1);
               t = (if traced then Some (dec_trace r) else None);
               r' = (if traced then drop 17 r else r);
               n = of_le_bytes (take 4 r') in
        (case dec_times n dec_param (drop 4 r') of
           Some (ps, []) \<Rightarrow> Some (h, t, ps)
         | _ \<Rightarrow> None))"

lemma decode_event_head_bytes:
  assumes wf: "header_wf h" and tr: "hd_isTraceOpened h = (if t = None then 0 else 1)"
    and bs: "bs = head_bytes (length bs) h t (length ps) @ concat (map param_bytes ps)"
    and lim: "length bs < 2 ^ 32" "length ps < 2 ^ 32"
  shows "decode_event bs = Some (h, t, ps)"
proof -
  let ?p = "concat (map param_bytes ps)"
  define n where "n = length bs"
  note bs' = bs [folded n_def]
  have e: "bs = le_bytes 4 n @ header_bytes h @ trace_part t @ le_bytes 4 (length ps) @ ?p"
    using bs' by (simp add: head_bytes_def del: le_bytes.simps)
  have hl: "length (header_bytes h) = 80"
    using length_header_bytes [OF wf] sizeof_header_80 by simp
  have len: "88 \<le> length bs"
    unfolding e by (simp add: hl del: le_bytes.simps)
  have size: "of_le_bytes (take 4 bs) = length bs"
  proof -
    have "take 4 bs = le_bytes 4 n"
      unfolding e by (simp del: le_bytes.simps)
    then show ?thesis
      using lim(1) by (simp add: n_def del: le_bytes.simps)
  qed
  have h: "dec_header (drop 4 bs) = h"
    unfolding e by (simp add: dec_header_header_bytes [OF wf] del: le_bytes.simps)
  have r: "drop 84 bs = trace_part t @ le_bytes 4 (length ps) @ ?p"
    unfolding e by (simp add: hl del: le_bytes.simps)
  have times: "dec_times (length ps) dec_param ?p = Some (ps, [])"
    using dec_times_concat [of ps dec_param param_bytes "\<lambda>x. x" "[]"] by (simp add: decode_simps)
  have cnt: "of_le_bytes (take 4 (le_bytes 4 (length ps) @ ?p)) = length ps"
    using lim(2) by (simp del: le_bytes.simps)
  show ?thesis
  proof (cases t)
    case None
    then show ?thesis
      using len size h r times cnt tr
      by (simp add: decode_event_def Let_def trace_part_def del: le_bytes.simps)
  next
    case (Some ti)
    then show ?thesis
      using len size h r times cnt tr
      by (simp add: decode_event_def Let_def trace_part_def length_trace_bytes dec_trace_trace_bytes
          del: le_bytes.simps)
  qed
qed

lemma GetEventRawData_finishes:
  assumes wf: "header_wf h"
    and rel: "event_rel env (head_bytes n0 h t c0) eb (ret, ps)"
    and off: "eb_paramCntWroteOffset eb = (if t = None then 84 else 101)"
    and room: "105 + length (concat (map param_bytes ps)) \<le> sink_limit env"
  shows "\<exists>rd. GetEventRawData env eb = (eb\<lparr>eb_rawData := Some rd\<rparr>, Some rd) \<and> rd_ok env rd \<and>
    contents rd = head_bytes (length (contents rd)) h t (length ps) @ concat (map param_bytes ps)"
proof -
  let ?p = "concat (map param_bytes ps)"
  from rel obtain rd where rd: "eb_rawData eb = Some rd" "rd_ok env rd" "contents rd = head_bytes n0 h t c0 @ ?p"
    and cnt: "eb_paramCnt eb = length ps"
    by (auto simp: event_rel_def)
  have hl: "length (header_bytes h) = 80"
    using length_header_bytes [OF wf] sizeof_header_80 by simp
  have tl: "length (trace_part t) = (if t = None then 0 else 17)"
    by (simp add: trace_part_def length_trace_bytes split: option.splits)
  define n where "n = length (contents rd)"
  have n: "n = 88 + length (trace_part t) + length ?p" "n \<le> sink_limit env"
    using rd(3) room by (simp_all add: n_def head_bytes_def hl tl del: le_bytes.simps)
  have "rd_inv rd" using rd(2) by (simp add: rd_ok_def)
  then have dl: "GetDataLength rd = n" by (simp add: GetDataLength_def n_def)
  obtain rd1 where rd1: "Update env (Some (le_bytes 4 n)) 4 0 rd = (rd1, True)" "rd_ok env rd1"
      "contents rd1 = head_bytes n h t c0 @ ?p"
  proof -
    have "splice_at 0 (le_bytes 4 n) (contents rd) = head_bytes n h t c0 @ ?p"
      using splice_at_middle [of 0 "[]" "le_bytes 4 n" "le_bytes 4 n0"] rd(3)
      by (simp add: head_bytes_def del: le_bytes.simps)
    moreover have "0 + length (le_bytes 4 n) \<le> length (contents rd)"
      using n(1) by (simp add: n_def [symmetric] del: le_bytes.simps)
    moreover have "le_bytes 4 n \<noteq> []"
      using length_le_bytes [of 4 n] by (metis list.size(3) zero_neq_numeral)
    ultimately show ?thesis
      using Update_inside [OF rd(2), of 0 "le_bytes 4 n"] n that
      by (auto simp: n_def [symmetric] simp del: le_bytes.simps)
  qed
  obtain rd2 where rd2: "Update env (Some (le_bytes 4 (length ps))) 4 (eb_paramCntWroteOffset eb) rd1 = (rd2, True)"
      "rd_ok env rd2" "contents rd2 = head_bytes n h t (length ps) @ ?p"
  proof -
    let ?a = "le_bytes 4 n @ header_bytes h @ trace_part t"
    have a: "eb_paramCntWroteOffset eb = length ?a"
      using off by (simp add: hl tl del: le_bytes.simps)
    have "splice_at (length ?a) (le_bytes 4 (length ps)) (?a @ le_bytes 4 c0 @ ?p) = ?a @ le_bytes 4 (length ps) @ ?p"
      by (rule splice_at_middle) (simp_all del: le_bytes.simps)
    then have "splice_at (eb_paramCntWroteOffset eb) (le_bytes 4 (length ps)) (contents rd1)
        = head_bytes n h t (length ps) @ ?p"
      unfolding a rd1(3) by (simp add: head_bytes_def del: le_bytes.simps)
    moreover have "length (contents rd1) = n" "length ?a + 4 \<le> n"
      using n(1) by (simp_all add: rd1(3) head_bytes_def hl del: le_bytes.simps)
    moreover have "le_bytes 4 (length ps) \<noteq> []"
      using length_le_bytes [of 4 "length ps"] by (metis list.size(3) zero_neq_numeral)
    ultimately show ?thesis
      using Update_inside [OF rd1(2), of "length ?a" "le_bytes 4 (length ps)"] n(2) that a
      by (auto simp del: le_bytes.simps)
  qed
  have "length (contents rd2) = n"
    using n(1) by (simp add: rd2(3) head_bytes_def hl del: le_bytes.simps)
  then show ?thesis
    using rd(1) rd1(1) rd2 dl cnt by (simp add: GetEventRawData_def del: le_bytes.simps)
qed

lemma spec_step_count: "length (snd (spec_step arg acc)) \<le> max (length (snd acc)) MAX_PARAM_NUMBER"
  by (cases arg; cases acc; cases "snd arg") auto

lemma spec_write_count: "length (snd (fold spec_step args acc)) \<le> max (length (snd acc)) MAX_PARAM_NUMBER"
proof (induction args arbitrary: acc)
  case (Cons a args)
  have "length (snd (fold spec_step args (spec_step a acc))) \<le> max (length (snd (spec_step a acc))) MAX_PARAM_NUMBER"
    by (rule Cons.IH)
  also have "\<dots> \<le> max (length (snd acc)) MAX_PARAM_NUMBER"
    using spec_step_count [of a acc] by simp
  finally show ?case by simp
qed simp

section \<open>Properties\<close>

lemma write_refines_spec:
  assumes names: "IsValidName domain MAX_DOMAIN_LENGTH" "IsValidName name MAX_EVENT_NAME_LENGTH"
    and env: "mem_ok (pe_mem pe)"
    and spec: "spec_write (arg_list args) = (ret, ps)"
    and room: "105 + length (concat (map param_bytes ps)) \<le> sink_limit (pe_mem pe)"
    and eb: "eb = InnerWrite_args (pe_mem pe) args
               (WritebaseInfo pe (EventBase_new (pe_mem pe) domain name type ts))"
  shows "event_rel (pe_mem pe) (head_bytes 0 (written_header pe domain name type ts) (pe_hitrace pe) 0) eb
      (ret, ps) \<and> eb_paramCntWroteOffset eb = count_offset pe"
proof -
  let ?base = "head_bytes 0 (written_header pe domain name type ts) (pe_hitrace pe) 0"
  have "length ?base \<le> 105"
    using length_head_bytes [OF written_header_wf [OF names]] by simp
  then have "length ?base + length (concat (map param_bytes (snd (fold spec_step (arg_list args) (SUCCESS, [])))))
      \<le> sink_limit (pe_mem pe)"
    using room spec by (simp add: spec_write_def)
  moreover have "105 \<le> sink_limit (pe_mem pe)"
    using room by simp
  ultimately show ?thesis
    using WritebaseInfo_head [OF names env _ refl, of type ts] spec
      fold_refines [of "pe_mem pe" ?base _ "(SUCCESS, [])" "arg_list args"]
    by (simp add: eb InnerWrite_args_fold spec_write_def event_frames)
qed

lemma record_decodes:
  assumes "IsValidName domain MAX_DOMAIN_LENGTH" "IsValidName name MAX_EVENT_NAME_LENGTH"
    and "mem_ok (pe_mem pe)"
    and "spec_write (arg_list args) = (ret, ps)"
    and "105 + length (concat (map param_bytes ps)) \<le> sink_limit (pe_mem pe)"
  shows "\<exists>eb rd. GetEventRawData (pe_mem pe) (InnerWrite_args (pe_mem pe) args
        (WritebaseInfo pe (EventBase_new (pe_mem pe) domain name type ts))) = (eb, Some rd) \<and>
      eb_retCode eb = ret \<and> rd_ok (pe_mem pe) rd \<and>
      contents rd = head_bytes (length (contents rd)) (written_header pe domain name type ts)
        (pe_hitrace pe) (length ps) @ concat (map param_bytes ps) \<and>
      decode_event (contents rd) = Some (written_header pe domain name type ts, pe_hitrace pe, ps)"
proof -
  let ?h = "written_header pe domain name type ts"
  let ?eb = "InnerWrite_args (pe_mem pe) args
        (WritebaseInfo pe (EventBase_new (pe_mem pe) domain name type ts))"
  note rel = write_refines_spec [OF assms refl, of type ts]
  have wf: "header_wf ?h"
    by (rule written_header_wf [OF assms(1,2)])
  obtain rd where rd: "GetEventRawData (pe_mem pe) ?eb = (?eb\<lparr>eb_rawData := Some rd\<rparr>, Some rd)"
      "rd_ok (pe_mem pe) rd"
      "contents rd = head_bytes (length (contents rd)) ?h (pe_hitrace pe) (length ps) @
         concat (map param_bytes ps)"
    using GetEventRawData_finishes [OF wf conjunct1 [OF rel] _ assms(5)] rel
    by (auto simp: count_offset_def)
  have "length (contents rd) \<le> 105 + length (concat (map param_bytes ps))"
    by (subst rd(3)) (simp add: length_head_bytes [OF wf])
  then have "length (contents rd) < 2 ^ 32"
    using assms(5) sink_limit_bound [OF rd(2)] by simp
  moreover have "length ps < 2 ^ 32"
    using spec_write_count [of "arg_list args" "(SUCCESS, [])"] assms(4)
    by (simp add: spec_write_def limit_defs)
  moreover have "hd_isTraceOpened ?h = (if pe_hitrace pe = None then 0 else 1)"
    by (simp add: written_header_def)
  ultimately have "decode_event (contents rd) = Some (?h, pe_hitrace pe, ps)"
    using decode_event_head_bytes [OF wf _ rd(3)] by simp
  moreover have "eb_retCode ?eb = ret"
    using rel by (simp add: event_rel_def)
  ultimately show ?thesis
    using rd by (intro exI [of _ "?eb\<lparr>eb_rawData := Some rd\<rparr>"] exI [of _ rd]) simp
qed

text \<open>
  C2. The record of an event says what was written: for valid names and any list of
  arguments of either interface, the finished buffer decodes to the header of the event
  (names, type, time stamp, time zone, identities), its trace if there is one, and exactly
  the accepted parameters in order; its size and its parameter count are right, and the
  result code is the one of the specification.
\<close>

theorem written_record_decodes:
  assumes "IsValidName domain MAX_DOMAIN_LENGTH" "IsValidName name MAX_EVENT_NAME_LENGTH"
    and "mem_ok (pe_mem pe)"
    and "spec_write (arg_list args) = (ret, ps)"
    and "105 + length (concat (map param_bytes ps)) \<le> sink_limit (pe_mem pe)"
  shows "\<exists>eb rd. GetEventRawData (pe_mem pe) (InnerWrite_args (pe_mem pe) args
        (WritebaseInfo pe (EventBase_new (pe_mem pe) domain name type ts))) = (eb, Some rd) \<and>
      eb_retCode eb = ret \<and>
      decode_event (contents rd) = Some (written_header pe domain name type ts, pe_hitrace pe, ps)"
  using record_decodes [OF assms, of type ts] by blast

definition std_pe :: proc_env where
  "std_pe = \<lparr>pe_mem = std_env, pe_timezone = -28800, pe_pid = 100, pe_tid = 101, pe_uid = 1000,
     pe_hitrace = None\<rparr>"

lemmas name_eval = IsValidName_Cons name_head_def name_tail_def is_upper_def is_lower_def is_digit_def
  limit_defs

theorem written_record_decodes_witness:
  "\<exists>eb rd. GetEventRawData std_env (InnerWrite_args std_env
        (KeyValues [(''KEY'', VInt 5), (''9BAD'', VBool True), (''LAST'', VBools [])])
        (WritebaseInfo std_pe (EventBase_new std_env ''HIVIEW'' ''LOAD'' 4 7))) = (eb, Some rd) \<and>
      eb_retCode eb = ERR_KEY_NAME_INVALID \<and>
      decode_event (contents rd) = Some (written_header std_pe ''HIVIEW'' ''LOAD'' 4 7, None,
        [(''KEY'', PSigned 5), (''LAST'', PSignedArr [])])"
proof -
  let ?args = "KeyValues [(''KEY'', VInt 5), (''9BAD'', VBool True), (''LAST'', VBools [])]"
  have spec: "spec_write (arg_list ?args) = (ERR_KEY_NAME_INVALID, [(''KEY'', PSigned 5), (''LAST'', PSignedArr [])])"
    by (simp add: spec_write_def name_eval)
  have room: "105 + length (concat (map param_bytes [(''KEY'', PSigned 5), (''LAST'', PSignedArr [])]))
      \<le> sink_limit (pe_mem std_pe)"
    by (simp add: param_bytes_def string_bytes_def array_bytes_def varint_def varint_tail.simps [of 0]
        zigzag_def std_pe_def std_env_def sink_limit_def EXPAND_BUF_SIZE_def)
  have names: "IsValidName ''HIVIEW'' MAX_DOMAIN_LENGTH" "IsValidName ''LOAD'' MAX_EVENT_NAME_LENGTH"
    by (simp_all add: name_eval)
  have "mem_ok (pe_mem std_pe)"
    by (simp add: std_pe_def mem_ok_std_env)
  from written_record_decodes [OF names this spec room, of 4 7] show ?thesis
    by (simp add: std_pe_def)
qed

text \<open>
  C3. The C interface and the C++ interface agree: writing an array of C parameters has
  the same effect, on every field of the event and every byte of the buffer, as writing
  the C++ values they stand for, whatever the environment does; a parameter that stands
  for no value (invalid tag, null pointer, null item) only sets the code
  \<^verbatim>\<open>ERR_VALUE_INVALID\<close> and is skipped.
\<close>

theorem C_interface_equals_Cpp:
  "InnerWrite_params env (Some ps) (length ps) eb =
     fold (\<lambda>p eb. case cpp_of p of
        None \<Rightarrow> SetRetCode ERR_VALUE_INVALID eb
      | Some v \<Rightarrow> InnerWrite env [(cp_name p, v)] eb) ps eb"
proof -
  have "InnerWrite_params env (Some ps) (length ps) eb = fold (AppendParam_c env) (map (\<lambda>i. ps ! i) [0..<length ps]) eb"
    by (simp add: InnerWrite_params_def fold_map comp_def)
  also have "map (\<lambda>i. ps ! i) [0..<length ps] = ps"
    by (rule map_nth)
  moreover have "AppendParam_c env = (\<lambda>p eb. case cpp_of p of
        None \<Rightarrow> SetRetCode ERR_VALUE_INVALID eb
      | Some v \<Rightarrow> InnerWrite env [(cp_name p, v)] eb)"
    by (simp add: fun_eq_iff AppendParam_c_overload split: option.split)
  ultimately show ?thesis by simp
qed

text \<open>What the accepted parameters satisfy.\<close>

fun value_within_limits :: "param_value \<Rightarrow> bool" where
  "value_within_limits (PUnsignedArr vs) = (length vs \<le> MAX_ARRAY_SIZE)"
| "value_within_limits (PSignedArr vs) = (length vs \<le> MAX_ARRAY_SIZE)"
| "value_within_limits (PFloating (Float w)) = isfinite32 w"
| "value_within_limits (PFloating (Double w)) = isfinite64 w"
| "value_within_limits (PFloatingArr (FloatArr ws)) = (length ws \<le> MAX_ARRAY_SIZE \<and> (\<forall>w \<in> set ws. isfinite32 w))"
| "value_within_limits (PFloatingArr (DoubleArr ws)) = (length ws \<le> MAX_ARRAY_SIZE \<and> (\<forall>w \<in> set ws. isfinite64 w))"
| "value_within_limits (PString s) = (json_unescape s \<noteq> None)"
| "value_within_limits (PStringArr ss) = (length ss \<le> MAX_ARRAY_SIZE \<and> (\<forall>s \<in> set ss. json_unescape s \<noteq> None))"
| "value_within_limits _ = True"

lemma finite_or_zero: "isfinite32 (finite_or_zero32 w)" "isfinite64 (finite_or_zero64 w')"
  by (simp_all add: finite_or_zero32_def finite_or_zero64_def isfinite32_def isfinite64_def)

lemma length_cut: "length (cut xs) \<le> MAX_ARRAY_SIZE"
  by (simp add: cut_def)

lemma json_unescape_EscapeToRaw: "\<exists>s'. json_unescape (EscapeToRaw s) = Some s'"
proof (induction s)
  case Nil
  then show ?case by (simp add: EscapeToRaw_concat)
next
  case (Cons c s)
  then show ?case
    using json_unescape_escape_char [of c "EscapeToRaw s"] by (auto simp: EscapeToRaw_concat)
qed

lemma norm_value_limits: "value_within_limits (norm_value v)"
  by (cases v) (auto simp: length_cut finite_or_zero json_unescape_EscapeToRaw)

definition param_ok :: "string \<times> param_value \<Rightarrow> bool" where
  "param_ok kv \<longleftrightarrow> is_identifier (fst kv) MAX_PARAM_NAME_LENGTH \<and> value_within_limits (snd kv)"

lemma valid_identifier: "IsValidName s n \<Longrightarrow> is_identifier s n"
  by (cases s) (auto simp: IsValidName_Cons is_identifier_def name_tail_def)

lemma spec_step_ok: "list_all param_ok (snd acc) \<Longrightarrow> list_all param_ok (snd (spec_step arg acc))"
  by (cases arg; cases acc; cases "snd arg") (auto simp: param_ok_def norm_value_limits valid_identifier)

lemma spec_fold_ok: "list_all param_ok (snd acc) \<Longrightarrow> list_all param_ok (snd (fold spec_step args acc))"
  by (induction args arbitrary: acc) (auto simp: spec_step_ok)

text \<open>
  C4. No record exceeds the limits: whatever is written, the parameters a reader finds in
  the record are at most \<^verbatim>\<open>MAX_PARAM_NUMBER\<close>, every key is an identifier of at most
  \<^verbatim>\<open>MAX_PARAM_NAME_LENGTH\<close> characters, every array has at most \<^verbatim>\<open>MAX_ARRAY_SIZE\<close> items,
  every number is finite and every string is a valid JSON string body.
\<close>

theorem record_within_limits:
  assumes "IsValidName domain MAX_DOMAIN_LENGTH" "IsValidName name MAX_EVENT_NAME_LENGTH"
    and "mem_ok (pe_mem pe)"
    and "105 + length (concat (map param_bytes (snd (spec_write (arg_list args))))) \<le> sink_limit (pe_mem pe)"
  shows "\<exists>eb rd h t ps. GetEventRawData (pe_mem pe) (InnerWrite_args (pe_mem pe) args
        (WritebaseInfo pe (EventBase_new (pe_mem pe) domain name type ts))) = (eb, Some rd) \<and>
      decode_event (contents rd) = Some (h, t, ps) \<and>
      length ps \<le> MAX_PARAM_NUMBER \<and> list_all param_ok ps"
proof -
  obtain ret ps where spec: "spec_write (arg_list args) = (ret, ps)" by force
  have "length ps \<le> MAX_PARAM_NUMBER" "list_all param_ok ps"
    using spec_write_count [of "arg_list args" "(SUCCESS, [])"] spec_fold_ok [of "(SUCCESS, [])" "arg_list args"] spec
    by (simp_all add: spec_write_def)
  then show ?thesis
    using record_decodes [OF assms(1-3) spec, of type ts] assms(4) spec by fastforce
qed

theorem record_within_limits_witness:
  "\<exists>eb rd h t ps. GetEventRawData std_env (InnerWrite_args std_env (KeyValues [(''KEY'', VFloat 0x7F800000)])
        (WritebaseInfo std_pe (EventBase_new std_env ''HIVIEW'' ''LOAD'' 4 7))) = (eb, Some rd) \<and>
      decode_event (contents rd) = Some (h, t, ps) \<and> length ps \<le> MAX_PARAM_NUMBER \<and> list_all param_ok ps"
proof -
  let ?args = "KeyValues [(''KEY'', VFloat 0x7F800000)]"
  have spec: "snd (spec_write (arg_list ?args)) = [(''KEY'', PFloating (Float (finite_or_zero32 0x7F800000)))]"
    by (simp add: spec_write_def name_eval)
  have room: "105 + length (concat (map param_bytes (snd (spec_write (arg_list ?args))))) \<le> sink_limit (pe_mem std_pe)"
    unfolding spec
    by (simp add: param_bytes_def string_bytes_def float_bytes_def varint_def varint_tail.simps [of 0]
        std_pe_def std_env_def sink_limit_def EXPAND_BUF_SIZE_def)
  have names: "IsValidName ''HIVIEW'' MAX_DOMAIN_LENGTH" "IsValidName ''LOAD'' MAX_EVENT_NAME_LENGTH"
    by (simp_all add: name_eval)
  have "mem_ok (pe_mem std_pe)"
    by (simp add: std_pe_def mem_ok_std_env)
  from record_within_limits [OF names this room, of 4 7] show ?thesis
    by (simp add: std_pe_def)
qed

text \<open>When a write is clean.\<close>

definition clean_arg :: "string \<times> cpp_value option \<Rightarrow> bool" where
  "clean_arg a \<longleftrightarrow> IsValidName (fst a) MAX_PARAM_NAME_LENGTH \<and>
     (case snd a of None \<Rightarrow> False | Some v \<Rightarrow> warning v = SUCCESS)"

lemma codes_not_success [simp]:
  "ERR_KEY_NAME_INVALID \<noteq> SUCCESS" "ERR_KEY_NUMBER_TOO_MUCH \<noteq> SUCCESS" "ERR_VALUE_INVALID \<noteq> SUCCESS"
  by (simp_all add: err_code_defs)

lemma spec_fold_success:
  "length (snd acc) \<le> MAX_PARAM_NUMBER \<Longrightarrow>
   fst (fold spec_step args acc) = SUCCESS \<longleftrightarrow>
     fst acc = SUCCESS \<and> length (snd acc) + length args \<le> MAX_PARAM_NUMBER \<and> list_all clean_arg args"
proof (induction args arbitrary: acc)
  case (Cons a args)
  obtain key vo ret ps where a: "a = (key, vo)" and acc: "acc = (ret, ps)" by (metis prod.collapse)
  have "length (snd (spec_step a acc)) \<le> MAX_PARAM_NUMBER"
    using spec_step_count [of a acc] Cons.prems by simp
  note IH = Cons.IH [OF this]
  show ?case
  proof (cases "clean_arg a \<and> length ps < MAX_PARAM_NUMBER")
    case True
    then obtain v where "vo = Some v" by (auto simp: clean_arg_def a split: option.splits)
    with True IH show ?thesis by (auto simp: a acc clean_arg_def)
  next
    case False
    then have "fst (spec_step a acc) \<noteq> SUCCESS \<or> length ps \<ge> MAX_PARAM_NUMBER"
      by (cases vo) (auto simp: a acc clean_arg_def)
    moreover have "fst (spec_step a acc) \<noteq> SUCCESS" if "length ps \<ge> MAX_PARAM_NUMBER"
      using that by (cases vo) (auto simp: a acc)
    ultimately show ?thesis
      using IH False by (auto simp: acc)
  qed
qed simp

text \<open>
  The code of the parameters is \<^verbatim>\<open>SUCCESS\<close> exactly when there are at most
  \<^verbatim>\<open>MAX_PARAM_NUMBER\<close> of them and all are clean.
\<close>

lemma spec_success_iff_clean:
  assumes "spec_write args = (ret, ps)"
  shows "ret = SUCCESS \<longleftrightarrow> length args \<le> MAX_PARAM_NUMBER \<and> list_all clean_arg args"
  using spec_fold_success [of "(SUCCESS, [])" args] assms by (simp add: spec_write_def)

text \<open>
  The message table calls a string over \<^verbatim>\<open>MAX_STRING_LENGTH\<close> discarded; the value is only
  reported, and the whole text is still a parameter of the record.
\<close>

lemma overlong_string_kept:
  assumes "IsValidName key MAX_PARAM_NAME_LENGTH" "length s > MAX_STRING_LENGTH"
  shows "spec_write [(key, Some (VString s))] = (ERR_VALUE_LENGTH_TOO_LONG, [(key, PString (EscapeToRaw s))])"
  using assms by (simp add: spec_write_def length_warning_def limit_defs err_code_defs)

end
