(* ===== verification/EventSocket.thy ===== *)
theory EventSocket
  imports EventRecord
begin

text \<open>
  \<^verbatim>\<open>EventSocketFactory\<close> (event_socket_factory.cpp): the event server listens on two
  sockets, and the client chooses one by reading the names and the type back from the
  record it is about to send.
\<close>

definition normalAddr :: string where
  "normalAddr = ''/dev/unix/socket/hisysevent''"

definition higherPriorityAddr :: string where
  "higherPriorityAddr = ''/dev/unix/socket/hisysevent_fast''"

definition IsHigherPriorityEventName :: "string list \<Rightarrow> string \<Rightarrow> bool" where
  "IsHigherPriorityEventName events name = List.member events name"

definition IsHigherPriorityAafwkEvent :: "string \<Rightarrow> bool" where
  "IsHigherPriorityAafwkEvent name = IsHigherPriorityEventName
     [''APP_INPUT_BLOCK'', ''BUSSINESS_THREAD_BLOCK_3S'', ''BUSSINESS_THREAD_BLOCK_6S'',
      ''LIFECYCLE_HALF_TIMEOUT'', ''LIFECYCLE_TIMEOUT'', ''THREAD_BLOCK_3S'', ''THREAD_BLOCK_6S''] name"

definition IsHigerPriorityAceEvent :: "string \<Rightarrow> bool" where
  "IsHigerPriorityAceEvent name = IsHigherPriorityEventName
     [''UI_BLOCK_3S'', ''UI_BLOCK_6S'', ''UI_BLOCK_RECOVERED''] name"

definition IsHigerPriorityFrameworkEvent :: "string \<Rightarrow> bool" where
  "IsHigerPriorityFrameworkEvent name = IsHigherPriorityEventName
     [''IPC_FULL'', ''IPC_FULL_WARNING'', ''SERVICE_BLOCK'', ''SERVICE_TIMEOUT'', ''SERVICE_WARNING''] name"

definition IsHigherPriorityEvent :: "string \<Rightarrow> string \<Rightarrow> int \<Rightarrow> bool" where
  "IsHigherPriorityEvent domain name type =
     (if domain = ''AAFWK'' then IsHigherPriorityAafwkEvent name
      else if domain = ''ACE'' then IsHigerPriorityAceEvent name
      else if domain = ''FRAMEWORK'' then IsHigerPriorityFrameworkEvent name
      else if domain = ''RELIABILITY'' then type = event_type_code FAULT
      else if domain = ''GRAPHIC'' then name = ''NO_DRAW''
      else if domain = ''MULTIMODALINPUT'' then name = ''TARGET_POINTER_EVENT_FAILURE''
      else if domain = ''POWER'' then name = ''SCREEN_ON_TIMEOUT''
      else if domain = ''WINDOWMANAGER'' then name = ''NO_FOCUS_WINDOW''
      else if domain = ''SCHEDULE_EXT'' then name = ''SYSTEM_LOAD_LEVEL_CHANGED''
      else False)"

text \<open>
  The strings are read from the character arrays of the copied header, up to the first
  NUL byte; the three out-parameters keep their values when the data is too short.
\<close>

definition ParseEventInfo :: "raw_data \<Rightarrow> string \<times> string \<times> int \<Rightarrow> string \<times> string \<times> int" where
  "ParseEventInfo data out =
     (if GetDataLength data < 4 + sizeof_HiSysEventHeader then out
      else let originalData = contents data;
               headerBytes = take sizeof_HiSysEventHeader (drop 4 originalData);
               header = dec_header headerBytes in
        (c_string headerBytes, c_string (drop (MAX_DOMAIN_LENGTH + 1) headerBytes), int (hd_type header) + 1))"

definition GetEventSocket :: "raw_data \<Rightarrow> string" where
  "GetEventSocket data =
     (case ParseEventInfo data ([], [], event_type_code FAULT) of (domain, name, type) \<Rightarrow>
        if IsHigherPriorityEvent domain name type then higherPriorityAddr else normalAddr)"

section \<open>The choice follows the event\<close>

lemma c_string_array:
  assumes "no_nul s" "length s < n"
  shows "c_string (bytes_of_string s @ replicate (n - length s) 0 @ rest) = s"
proof -
  have "n - length s = Suc (n - length s - 1)" using assms(2) by simp
  then have "bytes_of_string s @ replicate (n - length s) 0 @ rest =
      bytes_of_string s @ 0 # (replicate (n - length s - 1) 0 @ rest)"
    by (metis append_Cons replicate_Suc)
  then show ?thesis
    using c_string_padded [OF assms(1)] by simp
qed

lemma ParseEventInfo_record:
  assumes names: "IsValidName domain MAX_DOMAIN_LENGTH" "IsValidName name MAX_EVENT_NAME_LENGTH"
    and h: "header_wf h"
      "hd_domain h = bytes_of_string domain @ replicate (MAX_DOMAIN_LENGTH + 1 - length domain) 0"
      "hd_name h = bytes_of_string name @ replicate (MAX_EVENT_NAME_LENGTH + 1 - length name) 0"
    and rd: "rd_inv rd" "contents rd = le_bytes 4 n @ header_bytes h @ rest"
  shows "ParseEventInfo rd out = (domain, name, int (hd_type h) + 1)"
proof -
  have hl: "length (header_bytes h) = sizeof_HiSysEventHeader"
    by (rule length_header_bytes [OF h(1)])
  have len: "\<not> GetDataLength rd < 4 + sizeof_HiSysEventHeader"
    using rd hl length_contents [OF rd(1)] by (simp add: GetDataLength_def del: le_bytes.simps)
  have hb: "take sizeof_HiSysEventHeader (drop 4 (contents rd)) = header_bytes h"
    using rd(2) hl by (simp del: le_bytes.simps)
  have dl: "length domain < MAX_DOMAIN_LENGTH + 1" "length name < MAX_EVENT_NAME_LENGTH + 1"
    using names [THEN name.valid_length] by simp_all
  have "c_string (header_bytes h) = domain"
    using c_string_array [OF name.valid_no_nul [OF names(1)] dl(1)]
    by (simp add: header_bytes_def h(2) del: le_bytes.simps)
  moreover have "c_string (drop (MAX_DOMAIN_LENGTH + 1) (header_bytes h)) = name"
  proof -
    have "length (hd_domain h) = MAX_DOMAIN_LENGTH + 1"
      using h(1) by (simp add: header_wf_def)
    then have "drop (MAX_DOMAIN_LENGTH + 1) (header_bytes h) = hd_name h @ drop 50 (header_bytes h)"
      using h(1) by (simp add: header_bytes_def header_wf_def limit_defs del: le_bytes.simps)
    then show ?thesis
      using c_string_array [OF name.valid_no_nul [OF names(2)] dl(2)] by (simp add: h(3))
  qed
  moreover have "dec_header (header_bytes h) = h"
    using dec_header_header_bytes [OF h(1), of "[]"] by simp
  ultimately show ?thesis
    using len by (simp add: ParseEventInfo_def Let_def hb)
qed

section \<open>Properties\<close>

lemma GetEventSocket_written:
  assumes names: "IsValidName domain MAX_DOMAIN_LENGTH" "IsValidName name MAX_EVENT_NAME_LENGTH"
    and rd: "rd_inv rd"
      "contents rd = head_bytes n (written_header pe domain name (event_type_code ty) ts) t c @ rest"
  shows "GetEventSocket rd =
    (if IsHigherPriorityEvent domain name (event_type_code ty) then higherPriorityAddr else normalAddr)"
proof -
  let ?h = "written_header pe domain name (event_type_code ty) ts"
  have wf: "header_wf ?h"
    by (rule written_header_wf [OF names])
  have "contents rd = le_bytes 4 n @ header_bytes ?h @ (trace_part t @ le_bytes 4 c @ rest)"
    using rd(2) by (simp add: head_bytes_def del: le_bytes.simps)
  moreover have "int (hd_type ?h) + 1 = event_type_code ty"
    by (cases ty) (simp_all add: written_header_def)
  moreover have "hd_domain ?h = bytes_of_string domain @ replicate (MAX_DOMAIN_LENGTH + 1 - length domain) 0"
      "hd_name ?h = bytes_of_string name @ replicate (MAX_EVENT_NAME_LENGTH + 1 - length name) 0"
    by (simp_all add: written_header_def)
  ultimately show ?thesis
    using ParseEventInfo_record [OF names wf _ _ rd(1), of n] by (simp add: GetEventSocket_def)
qed

text \<open>
  C15. An event is sent to the socket of its priority: for every event with valid names
  and whatever its parameters, the socket chosen from the bytes of the finished record is
  the one that the event's own domain, name and type call for.
\<close>

theorem socket_follows_event:
  assumes "IsValidName domain MAX_DOMAIN_LENGTH" "IsValidName name MAX_EVENT_NAME_LENGTH"
    and "mem_ok (pe_mem pe)"
    and "105 + length (concat (map param_bytes (snd (spec_write (arg_list args))))) \<le> sink_limit (pe_mem pe)"
  shows "\<exists>eb rd. GetEventRawData (pe_mem pe) (InnerWrite_args (pe_mem pe) args
        (WritebaseInfo pe (EventBase_new (pe_mem pe) domain name (event_type_code ty) ts))) = (eb, Some rd) \<and>
      GetEventSocket rd =
        (if IsHigherPriorityEvent domain name (event_type_code ty) then higherPriorityAddr else normalAddr)"
proof -
  obtain ret ps where spec: "spec_write (arg_list args) = (ret, ps)" by force
  obtain eb rd where rd: "GetEventRawData (pe_mem pe) (InnerWrite_args (pe_mem pe) args
        (WritebaseInfo pe (EventBase_new (pe_mem pe) domain name (event_type_code ty) ts))) = (eb, Some rd)"
      "rd_ok (pe_mem pe) rd"
      "contents rd = head_bytes (length (contents rd)) (written_header pe domain name (event_type_code ty) ts)
        (pe_hitrace pe) (length ps) @ concat (map param_bytes ps)"
    using record_decodes [OF assms(1-3) spec, of "event_type_code ty" ts] assms(4) spec by auto
  then have "rd_inv rd" by (simp add: rd_ok_def)
  from GetEventSocket_written [OF assms(1,2) this rd(3)] rd(1) show ?thesis by blast
qed

theorem socket_follows_event_witness:
  "\<exists>eb rd. GetEventRawData std_env (InnerWrite_args std_env (KeyValues [(''KEY'', VInt 5)])
        (WritebaseInfo std_pe (EventBase_new std_env ''ACE'' ''UI_BLOCK_3S'' (event_type_code FAULT) 7))) = (eb, Some rd) \<and>
      GetEventSocket rd = higherPriorityAddr"
proof -
  let ?args = "KeyValues [(''KEY'', VInt 5)]"
  have spec: "snd (spec_write (arg_list ?args)) = [(''KEY'', PSigned 5)]"
    by (simp add: spec_write_def name_eval)
  have room: "105 + length (concat (map param_bytes (snd (spec_write (arg_list ?args))))) \<le> sink_limit (pe_mem std_pe)"
    unfolding spec
    by (simp add: param_bytes_def string_bytes_def varint_def varint_tail.simps [of 0] zigzag_def
        std_pe_def std_env_def sink_limit_def EXPAND_BUF_SIZE_def)
  have names: "IsValidName ''ACE'' MAX_DOMAIN_LENGTH" "IsValidName ''UI_BLOCK_3S'' MAX_EVENT_NAME_LENGTH"
    by (simp_all add: name_eval)
  have "mem_ok (pe_mem std_pe)"
    by (simp add: std_pe_def mem_ok_std_env)
  from socket_follows_event [OF names this room, of FAULT 7] show ?thesis
    by (simp add: std_pe_def IsHigherPriorityEvent_def IsHigerPriorityAceEvent_def IsHigherPriorityEventName_def)
qed

end
