(* ===== verification/Transport.thy ===== *)
theory Transport
  imports EventSocket "HOL-Library.Multiset"
begin

text \<open>
  \<^verbatim>\<open>Transport\<close> (transport.cpp): sending a record over a datagram socket with retries, and
  the bounded queue of records that could not be sent. The kernel is a strategy
  (\<open>os_env\<close>) that may answer every system call depending on all calls before it; the calls
  are logged in order, so that the theory can state which records were handed over, in
  which order, and that every socket is closed.
\<close>

section \<open>System calls\<close>

text \<open>The numbers of the error codes are those of Linux.\<close>

type_synonym errno = int

definition EINTR :: errno where "EINTR = 4"
definition EAGAIN :: errno where "EAGAIN = 11"
definition EWOULDBLOCK :: errno where "EWOULDBLOCK = 11"
definition EACCES :: errno where "EACCES = 13"

datatype syscall =
    SocketOpen int
  | GetSndBuf int
  | SetSndBuf int nat
  | SendTo int string "byte list" int
  | Close int

text \<open>
  \<open>os_socket log\<close>: the descriptor that \<^verbatim>\<open>socket\<close>, repeated while interrupted, returns in
  the situation after \<open>log\<close>. \<open>os_sendto log fd path data\<close>: the result of \<^verbatim>\<open>sendto\<close> and the
  \<^verbatim>\<open>errno\<close> it leaves. \<open>os_setsockopt log fd\<close>: the result of \<^verbatim>\<open>setsockopt\<close>.
  \<open>os_close_errno log fd err\<close>: the \<^verbatim>\<open>errno\<close> after \<^verbatim>\<open>close\<close> where it was \<open>err\<close> before.
\<close>

record os_env =
  os_socket :: "syscall list \<Rightarrow> int"
  os_setsockopt :: "syscall list \<Rightarrow> int \<Rightarrow> int"
  os_sendto :: "syscall list \<Rightarrow> int \<Rightarrow> string \<Rightarrow> byte list \<Rightarrow> int \<times> errno"
  os_close_errno :: "syscall list \<Rightarrow> int \<Rightarrow> errno \<Rightarrow> errno"

record transport =
  tp_retryDataList :: "raw_data list"
  tp_log :: "syscall list"

definition RETRY_QUEUE_SIZE :: nat where "RETRY_QUEUE_SIZE = 10"
definition RETRY_TIMES :: nat where "RETRY_TIMES = 3"

section \<open>Operations\<close>

text \<open>The three calls only log when they fail.\<close>

definition InitRecvBuffer :: "int \<Rightarrow> syscall list \<Rightarrow> syscall list" where
  "InitRecvBuffer socketId log =
     log @ [GetSndBuf socketId, SetSndBuf socketId MAX_DATA_SIZE, GetSndBuf socketId]"

text \<open>
  The \<^verbatim>\<open>do ... while\<close> loop, entered with \<open>retryTimes\<close> = \<open>Suc n\<close>.
\<close>

fun sendto_loop :: "os_env \<Rightarrow> int \<Rightarrow> raw_data \<Rightarrow> nat \<Rightarrow> syscall list \<Rightarrow> syscall list \<times> int" where
  "sendto_loop os socketId rawData retryTimes log =
     (let serverAddr = GetEventSocket rawData;
          bytes = contents rawData;
          (sendRet, err) = os_sendto os log socketId serverAddr bytes;
          log = log @ [SendTo socketId serverAddr bytes sendRet];
          retryTimes = retryTimes - 1 in
      if sendRet < 0 \<and> retryTimes > 0 \<and> (err = EAGAIN \<or> err = EWOULDBLOCK \<or> err = EINTR)
      then sendto_loop os socketId rawData retryTimes log
      else (log, sendRet))"

declare sendto_loop.simps [simp del]

definition SendToHiSysEventDataSource :: "os_env \<Rightarrow> raw_data \<Rightarrow> syscall list \<Rightarrow> syscall list \<times> int" where
  "SendToHiSysEventDataSource os rawData log =
     (let socketId = os_socket os log;
          log = log @ [SocketOpen socketId] in
      if socketId < 0 then (log, ERR_DOES_NOT_INIT)
      else
        let log = InitRecvBuffer socketId log;
            (log, sendRet) = sendto_loop os socketId rawData RETRY_TIMES log in
        if sendRet < 0 then (log @ [Close socketId], ERR_SEND_FAIL)
        else (log @ [Close socketId], SUCCESS))"

definition AddFailedData :: "mem_env \<Rightarrow> raw_data \<Rightarrow> raw_data list \<Rightarrow> raw_data list" where
  "AddFailedData env rawData q =
     (if length q \<ge> RETRY_QUEUE_SIZE then tl q else q) @ [RawData_copy env rawData]"

fun RetrySendFailedData_loop ::
  "os_env \<Rightarrow> mem_env \<Rightarrow> raw_data list \<Rightarrow> syscall list \<Rightarrow> raw_data list \<times> syscall list" where
  "RetrySendFailedData_loop os env [] log = ([], log)"
| "RetrySendFailedData_loop os env (front # q) log =
     (let rawData = RawData_copy env front in
      case SendToHiSysEventDataSource os rawData log of (log', ret) \<Rightarrow>
        if ret \<noteq> SUCCESS then (front # q, log')
        else RetrySendFailedData_loop os env q log')"

definition RetrySendFailedData :: "os_env \<Rightarrow> mem_env \<Rightarrow> transport \<Rightarrow> transport" where
  "RetrySendFailedData os env tp =
     (case RetrySendFailedData_loop os env (tp_retryDataList tp) (tp_log tp) of (q, log) \<Rightarrow>
        tp\<lparr>tp_retryDataList := q, tp_log := log\<rparr>)"

fun try_send :: "os_env \<Rightarrow> raw_data \<Rightarrow> nat \<Rightarrow> int \<Rightarrow> syscall list \<Rightarrow> syscall list \<times> int" where
  "try_send os rawData 0 retCode log = (log, retCode)"
| "try_send os rawData (Suc tryTimes) retCode log =
     (case SendToHiSysEventDataSource os rawData log of (log', ret) \<Rightarrow>
        if ret = SUCCESS then (log', ret) else try_send os rawData tryTimes ret log')"

definition SendData :: "os_env \<Rightarrow> mem_env \<Rightarrow> raw_data \<Rightarrow> transport \<Rightarrow> transport \<times> int" where
  "SendData os env rawData tp =
     (if IsEmpty rawData then (tp, ERR_EMPTY_EVENT)
      else let rawDataLength = GetDataLength rawData in
        if rawDataLength > MAX_DATA_SIZE then (tp, ERR_OVER_SIZE)
        else
          let tp = RetrySendFailedData os env tp in
          case try_send os rawData RETRY_TIMES SUCCESS (tp_log tp) of (log, retCode) \<Rightarrow>
            if retCode = SUCCESS then (tp\<lparr>tp_log := log\<rparr>, retCode)
            else (tp\<lparr>tp_log := log,
                     tp_retryDataList := AddFailedData env rawData (tp_retryDataList tp)\<rparr>, retCode))"

section \<open>Reading the log\<close>

text \<open>
  \<open>delivered log\<close>: the data of the \<^verbatim>\<open>sendto\<close> calls that succeeded, in order.
  \<open>open_fds log\<close>: the descriptors opened and not closed yet.
\<close>

fun delivery :: "syscall \<Rightarrow> byte list list" where
  "delivery (SendTo _ _ bytes ret) = (if 0 \<le> ret then [bytes] else [])"
| "delivery _ = []"

definition delivered :: "syscall list \<Rightarrow> byte list list" where
  "delivered log = concat (map delivery log)"

fun fd_step :: "syscall \<Rightarrow> int list \<Rightarrow> int list" where
  "fd_step (SocketOpen fd) fds = (if fd < 0 then fds else fd # fds)"
| "fd_step (Close fd) fds = remove1 fd fds"
| "fd_step _ fds = fds"

definition open_fds :: "syscall list \<Rightarrow> int list" where
  "open_fds log = fold fd_step log []"

definition sends :: "syscall list \<Rightarrow> nat" where
  "sends log = length (filter (\<lambda>c. case c of SendTo _ _ _ _ \<Rightarrow> True | _ \<Rightarrow> False) log)"

lemma delivered_append [simp]: "delivered (l1 @ l2) = delivered l1 @ delivered l2"
  by (simp add: delivered_def)

lemma sends_append [simp]: "sends (l1 @ l2) = sends l1 + sends l2"
  by (simp add: sends_def)

lemma log_simps [simp]:
  "delivered [] = []" "delivered [c] = delivery c" "sends [] = 0"
  by (simp_all add: delivered_def sends_def)

lemma open_fds_append: "open_fds (l1 @ l2) = fold fd_step l2 (open_fds l1)"
  by (simp add: open_fds_def)

lemma sendto_loop_facts:
  "sendto_loop os fd rd n log = (log', ret) \<Longrightarrow> n > 0 \<Longrightarrow>
   delivered log' = delivered log @ (if 0 \<le> ret then [contents rd] else []) \<and>
   open_fds log' = open_fds log \<and> sends log' \<le> sends log + n \<and> sends log < sends log'"
proof (induction n arbitrary: log rule: less_induct)
  case (less n)
  obtain r err where se: "os_sendto os log fd (GetEventSocket rd) (contents rd) = (r, err)" by force
  let ?log = "log @ [SendTo fd (GetEventSocket rd) (contents rd) r]"
  let ?again = "r < 0 \<and> n - 1 > 0 \<and> (err = EAGAIN \<or> err = EWOULDBLOCK \<or> err = EINTR)"
  have log: "delivered ?log = delivered log @ (if 0 \<le> r then [contents rd] else [])"
      "open_fds ?log = open_fds log" "sends ?log = sends log + 1"
    by (simp_all add: open_fds_append) (simp add: sends_def)
  have unf: "sendto_loop os fd rd n log = (if ?again then sendto_loop os fd rd (n - 1) ?log else (?log, r))"
    using se by (subst sendto_loop.simps) (auto simp: Let_def)
  show ?case
  proof (cases ?again)
    case True
    then have "sendto_loop os fd rd (n - 1) ?log = (log', ret)" "n - 1 < n" "0 < n - 1"
      using less.prems unf by auto
    from less.IH [OF this(2,1,3)] show ?thesis
      using log True by auto
  next
    case False
    then have "log' = ?log" "ret = r"
      using less.prems unf by auto
    then show ?thesis
      using log less.prems(2) by simp
  qed
qed

lemma SendToHiSysEventDataSource_facts:
  assumes "SendToHiSysEventDataSource os rd log = (log', ret)"
  shows "delivered log' = delivered log @ (if ret = SUCCESS then [contents rd] else []) \<and>
    open_fds log' = open_fds log \<and> sends log' \<le> sends log + RETRY_TIMES \<and>
    ret \<in> {SUCCESS, ERR_DOES_NOT_INIT, ERR_SEND_FAIL}"
proof -
  define fd where "fd = os_socket os log"
  show ?thesis
  proof (cases "fd < 0")
    case True
    then have "log' = log @ [SocketOpen fd]" "ret = ERR_DOES_NOT_INIT"
      using assms by (auto simp: SendToHiSysEventDataSource_def Let_def fd_def)
    with True show ?thesis
      by (simp add: open_fds_append err_code_defs) (simp add: sends_def)
  next
    case False
    let ?log = "InitRecvBuffer fd (log @ [SocketOpen fd])"
    obtain log1 r where loop: "sendto_loop os fd rd RETRY_TIMES ?log = (log1, r)" by force
    have 0: "delivered ?log = delivered log" "open_fds ?log = fd # open_fds log" "sends ?log = sends log"
      using False by (simp_all add: InitRecvBuffer_def open_fds_append) (simp_all add: delivered_def sends_def)
    have res: "log' = log1 @ [Close fd]" "ret = (if r < 0 then ERR_SEND_FAIL else SUCCESS)"
      using assms False loop by (auto simp: SendToHiSysEventDataSource_def Let_def fd_def split: if_splits)
    have "RETRY_TIMES > 0" by (simp add: RETRY_TIMES_def)
    from sendto_loop_facts [OF loop this] show ?thesis
      using 0 res by (auto simp: open_fds_append err_code_defs) (simp_all add: sends_def)
  qed
qed
text \<open>Retrying hands over a prefix of the queue, in order, and keeps the rest.\<close>

lemma RetrySendFailedData_loop_facts:
  "RetrySendFailedData_loop os env q log = (q', log') \<Longrightarrow>
   \<exists>k. q' = drop k q \<and>
     delivered log' = delivered log @ map (\<lambda>rd. contents (RawData_copy env rd)) (take k q) \<and>
     open_fds log' = open_fds log \<and> sends log' \<le> sends log + RETRY_TIMES * length q"
proof (induction q arbitrary: log)
  case Nil
  then show ?case by simp
next
  case (Cons front q)
  obtain log1 ret where s: "SendToHiSysEventDataSource os (RawData_copy env front) log = (log1, ret)"
    by force
  note f = SendToHiSysEventDataSource_facts [OF s]
  show ?case
  proof (cases "ret = SUCCESS")
    case True
    with Cons.prems s have "RetrySendFailedData_loop os env q log1 = (q', log')" by simp
    from Cons.IH [OF this] obtain k where k: "q' = drop k q"
        "delivered log' = delivered log1 @ map (\<lambda>rd. contents (RawData_copy env rd)) (take k q)"
        "open_fds log' = open_fds log1" "sends log' \<le> sends log1 + RETRY_TIMES * length q"
      by blast
    with f True show ?thesis
      by (intro exI [of _ "Suc k"]) simp
  next
    case False
    with Cons.prems s have "q' = front # q" "log' = log1" by auto
    with f False show ?thesis
      by (intro exI [of _ 0]) simp
  qed
qed

lemma try_send_facts:
  "try_send os rd n r log = (log', ret) \<Longrightarrow> r \<in> {SUCCESS, ERR_DOES_NOT_INIT, ERR_SEND_FAIL} \<Longrightarrow>
   (n = 0 \<Longrightarrow> r \<noteq> SUCCESS) \<Longrightarrow>
   delivered log' = delivered log @ (if ret = SUCCESS then [contents rd] else []) \<and>
   open_fds log' = open_fds log \<and> sends log' \<le> sends log + n * RETRY_TIMES \<and>
   ret \<in> {SUCCESS, ERR_DOES_NOT_INIT, ERR_SEND_FAIL}"
proof (induction n arbitrary: r log)
  case 0
  then show ?case by simp
next
  case (Suc n)
  obtain log1 r1 where s: "SendToHiSysEventDataSource os rd log = (log1, r1)" by force
  note f = SendToHiSysEventDataSource_facts [OF s]
  show ?case
  proof (cases "r1 = SUCCESS")
    case True
    with Suc.prems s have "log' = log1" "ret = SUCCESS" by auto
    with f True show ?thesis by simp
  next
    case False
    with Suc.prems s have "try_send os rd n r1 log1 = (log', ret)" by simp
    from Suc.IH [OF this] show ?thesis
      using f False by auto
  qed
qed

section \<open>The queue\<close>

text \<open>
  \<open>tp_ok\<close>: at most \<^verbatim>\<open>RETRY_QUEUE_SIZE\<close> records wait, each a well-formed buffer within the
  size limit. \<open>pending\<close>: their data, oldest first.
\<close>

definition tp_ok :: "transport \<Rightarrow> bool" where
  "tp_ok tp \<longleftrightarrow> length (tp_retryDataList tp) \<le> RETRY_QUEUE_SIZE \<and>
     (\<forall>rd \<in> set (tp_retryDataList tp). rd_inv rd \<and> rd_len rd \<le> MAX_DATA_SIZE)"

definition pending :: "transport \<Rightarrow> byte list list" where
  "pending tp = map contents (tp_retryDataList tp)"

definition enqueue :: "byte list \<Rightarrow> byte list list \<Rightarrow> byte list list" where
  "enqueue x q = (if length q \<ge> RETRY_QUEUE_SIZE then tl q else q) @ [x]"

definition empty_transport :: transport where
  "empty_transport = \<lparr>tp_retryDataList = [], tp_log = []\<rparr>"

text \<open>A record that is worth sending: not empty, within the size limit.\<close>

definition sendable :: "raw_data \<Rightarrow> bool" where
  "sendable rd \<longleftrightarrow> contents rd \<noteq> [] \<and> length (contents rd) \<le> MAX_DATA_SIZE"

lemma IsEmpty_contents: "rd_inv rd \<Longrightarrow> IsEmpty rd \<longleftrightarrow> contents rd = []"
  by (cases "rd_data rd") (auto simp: IsEmpty_def contents_def rd_inv_def)

lemma rd_len_copy: "rd_inv rd \<Longrightarrow> rd_len (RawData_copy env rd) \<le> rd_len rd"
  by (auto simp: RawData_copy_def RawData_new_def Let_def GetDataLength_def GetData_def split: option.splits)

lemma SendData_facts:
  assumes send: "SendData os env rd tp = (tp', ret)"
    and rd: "rd_inv rd" "sendable rd"
  shows "\<exists>k q1. q1 = drop k (tp_retryDataList tp) \<and>
    delivered (tp_log tp') = delivered (tp_log tp) @
      map (\<lambda>rd. contents (RawData_copy env rd)) (take k (tp_retryDataList tp)) @
      (if ret = SUCCESS then [contents rd] else []) \<and>
    tp_retryDataList tp' = (if ret = SUCCESS then q1 else AddFailedData env rd q1) \<and>
    open_fds (tp_log tp') = open_fds (tp_log tp) \<and>
    sends (tp_log tp') \<le> sends (tp_log tp) + RETRY_TIMES * (length (tp_retryDataList tp) + RETRY_TIMES) \<and>
    ret \<in> {SUCCESS, ERR_DOES_NOT_INIT, ERR_SEND_FAIL}"
proof -
  have go: "\<not> IsEmpty rd" "\<not> GetDataLength rd > MAX_DATA_SIZE"
    using rd IsEmpty_contents [OF rd(1)] by (auto simp: sendable_def GetDataLength_def)
  obtain q1 log1 where r: "RetrySendFailedData_loop os env (tp_retryDataList tp) (tp_log tp) = (q1, log1)"
    by force
  obtain log2 where t: "try_send os rd RETRY_TIMES SUCCESS log1 = (log2, ret)"
      and tp': "tp' = tp\<lparr>tp_log := log2,
         tp_retryDataList := (if ret = SUCCESS then q1 else AddFailedData env rd q1)\<rparr>"
    using send go r
    by (auto simp: SendData_def RetrySendFailedData_def Let_def split: prod.splits if_splits)
  note f1 = RetrySendFailedData_loop_facts [OF r]
  note f2 = try_send_facts [OF t]
  then show ?thesis
    using f1 tp' by (auto simp: RETRY_TIMES_def)
qed

lemma pending_AddFailedData:
  assumes "mem_ok env" "MAX_DATA_SIZE \<le> memcpy_max env" "rd_inv rd" "sendable rd"
  shows "map contents (AddFailedData env rd q) = enqueue (contents rd) (map contents q)"
proof -
  have "contents (RawData_copy env rd) = contents rd"
    using assms length_contents [OF assms(3)] by (intro contents_copy) (auto simp: sendable_def)
  then show ?thesis
    by (simp add: AddFailedData_def enqueue_def map_tl)
qed

lemma SendData_unsendable:
  assumes "rd_inv rd" "\<not> sendable rd"
  shows "fst (SendData os env rd tp) = tp \<and> snd (SendData os env rd tp) \<in> {ERR_EMPTY_EVENT, ERR_OVER_SIZE}"
  using assms IsEmpty_contents [OF assms(1)]
  by (auto simp: SendData_def sendable_def GetDataLength_def)

lemma SendData_refused:
  assumes "rd_inv rd"
  shows "contents rd = [] \<Longrightarrow> SendData os env rd tp = (tp, ERR_EMPTY_EVENT)"
    and "length (contents rd) > MAX_DATA_SIZE \<Longrightarrow> SendData os env rd tp = (tp, ERR_OVER_SIZE)"
  using IsEmpty_contents [OF assms] length_contents [OF assms]
  by (auto simp: SendData_def GetDataLength_def)

lemma SendData_pending:
  assumes send: "SendData os env rd tp = (tp', ret)"
    and env: "mem_ok env" "MAX_DATA_SIZE \<le> memcpy_max env"
    and tp: "tp_ok tp" and rd: "rd_inv rd" "sendable rd"
  shows "\<exists>k. delivered (tp_log tp') = delivered (tp_log tp) @ take k (pending tp) @
        (if ret = SUCCESS then [contents rd] else []) \<and>
      pending tp' = (if ret = SUCCESS then drop k (pending tp) else enqueue (contents rd) (drop k (pending tp)))"
proof -
  obtain k where k: "delivered (tp_log tp') = delivered (tp_log tp) @
        map (\<lambda>rd. contents (RawData_copy env rd)) (take k (tp_retryDataList tp)) @
        (if ret = SUCCESS then [contents rd] else [])"
      "tp_retryDataList tp' = (if ret = SUCCESS then drop k (tp_retryDataList tp)
         else AddFailedData env rd (drop k (tp_retryDataList tp)))"
    using SendData_facts [OF send rd] by blast
  have "contents (RawData_copy env x) = contents x" if "x \<in> set (take k (tp_retryDataList tp))" for x
    using tp in_set_takeD [OF that] env by (intro contents_copy) (auto simp: tp_ok_def)
  then have "map (\<lambda>rd. contents (RawData_copy env rd)) (take k (tp_retryDataList tp)) = take k (pending tp)"
    by (simp add: pending_def take_map)
  then show ?thesis
    using k pending_AddFailedData [OF env rd] by (auto simp: pending_def drop_map intro!: exI [of _ k])
qed

lemma SendData_keeps_ok:
  assumes send: "SendData os env rd tp = (tp', ret)" and tp: "tp_ok tp" and rd: "rd_inv rd"
  shows "tp_ok tp'"
proof (cases "sendable rd")
  case False
  then show ?thesis
    using SendData_unsendable [OF rd False, of os env tp] send tp by simp
next
  case True
  then obtain k where k: "tp_retryDataList tp' = (if ret = SUCCESS then drop k (tp_retryDataList tp)
         else AddFailedData env rd (drop k (tp_retryDataList tp)))"
    using SendData_facts [OF send rd True] by blast
  have "rd_inv (RawData_copy env rd) \<and> rd_len (RawData_copy env rd) \<le> MAX_DATA_SIZE"
    using rd_inv_copy [OF rd] rd_len_copy [OF rd, of env] True length_contents [OF rd]
    by (auto simp: sendable_def)
  moreover have "x \<in> set (tp_retryDataList tp)" if "x \<in> set (tl (drop k (tp_retryDataList tp)))" for x
    using that by (metis drop_Suc in_set_dropD tl_drop)
  ultimately show ?thesis
    using tp k by (auto simp: tp_ok_def AddFailedData_def RETRY_QUEUE_SIZE_def dest: in_set_dropD)
qed

section \<open>Properties\<close>

text \<open>
  C6. Sending is in order and loses nothing silently. An empty record and one over
  \<^verbatim>\<open>MAX_DATA_SIZE\<close> are refused with their own codes, and nothing else happens. For any
  other record, one call first hands over a prefix of the waiting records, oldest first, each
  once; then the record itself, if the call returns \<^verbatim>\<open>SUCCESS\<close>. Otherwise the record joins
  the end of the queue, from which only the oldest record is dropped, and only when
  \<^verbatim>\<open>RETRY_QUEUE_SIZE\<close> records wait already.
\<close>

theorem SendData_delivers_in_order:
  assumes "SendData os env rd tp = (tp', ret)"
    and "mem_ok env" "MAX_DATA_SIZE \<le> memcpy_max env"
    and "tp_ok tp" "rd_inv rd"
  shows "if contents rd = [] then tp' = tp \<and> ret = ERR_EMPTY_EVENT
    else if length (contents rd) > MAX_DATA_SIZE then tp' = tp \<and> ret = ERR_OVER_SIZE
    else \<exists>k. delivered (tp_log tp') = delivered (tp_log tp) @ take k (pending tp) @
        (if ret = SUCCESS then [contents rd] else []) \<and>
      pending tp' = (if ret = SUCCESS then drop k (pending tp) else enqueue (contents rd) (drop k (pending tp)))"
proof (cases "sendable rd")
  case True
  from SendData_pending [OF assms this] True show ?thesis
    unfolding sendable_def by simp
next
  case False
  from SendData_refused [OF assms(5), of os env tp] assms(1) False show ?thesis
    by (auto simp: sendable_def)
qed

definition byte_record :: "byte \<Rightarrow> raw_data" where
  "byte_record b = \<lparr>rd_data = Some [Some b], rd_len = 1, rd_capacity = 1\<rparr>"

lemma byte_record_facts:
  "rd_inv (byte_record b)" "contents (byte_record b) = [b]" "sendable (byte_record b)"
  by (simp_all add: byte_record_def rd_inv_def contents_def sendable_def limit_defs)

definition os_up :: os_env where
  "os_up = \<lparr>os_socket = (\<lambda>log. 3), os_setsockopt = (\<lambda>log fd. 0),
     os_sendto = (\<lambda>log fd path data. (int (length data), 0)),
     os_close_errno = (\<lambda>log fd err. err)\<rparr>"

definition os_down :: os_env where
  "os_down = \<lparr>os_socket = (\<lambda>log. -1), os_setsockopt = (\<lambda>log fd. -1),
     os_sendto = (\<lambda>log fd path data. (-1, EACCES)),
     os_close_errno = (\<lambda>log fd err. err)\<rparr>"

lemma SendData_down:
  "snd (SendData os_down std_env (byte_record 7) empty_transport) = ERR_DOES_NOT_INIT"
  by (simp add: SendData_def RetrySendFailedData_def empty_transport_def byte_record_def IsEmpty_def
      GetDataLength_def Let_def limit_defs RETRY_TIMES_def numeral_3_eq_3 SendToHiSysEventDataSource_def os_down_def
      err_code_defs)

theorem SendData_delivers_in_order_witness:
  "pending (fst (SendData os_down std_env (byte_record 7) empty_transport)) = [[7]]"
proof -
  obtain tp' where s: "SendData os_down std_env (byte_record 7) empty_transport = (tp', ERR_DOES_NOT_INIT)"
    using SendData_down by (metis prod.collapse)
  have "MAX_DATA_SIZE \<le> memcpy_max std_env" by (simp add: std_env_def limit_defs)
  moreover have "tp_ok empty_transport" by (simp add: tp_ok_def empty_transport_def)
  ultimately show ?thesis
    using SendData_delivers_in_order [OF s mem_ok_std_env _ _ byte_record_facts(1)] s
    by (auto simp: pending_def empty_transport_def enqueue_def RETRY_QUEUE_SIZE_def err_code_defs
        byte_record_facts(2) MAX_DATA_SIZE_def)
qed

text \<open>
  C8. The transport never leaks: from any good state and whatever the kernel answers, a
  call terminates with at most three attempts for each of three tries and for each waiting
  record, closes every socket it opened, leaves at most \<^verbatim>\<open>RETRY_QUEUE_SIZE\<close> well-formed
  records waiting, and returns one of the five documented codes.
\<close>

theorem SendData_bounded_and_closed:
  assumes "tp_ok tp" "rd_inv rd"
  shows "tp_ok (fst (SendData os env rd tp)) \<and>
    open_fds (tp_log (fst (SendData os env rd tp))) = open_fds (tp_log tp) \<and>
    sends (tp_log (fst (SendData os env rd tp))) \<le> sends (tp_log tp) + 3 * (length (pending tp) + 3) \<and>
    snd (SendData os env rd tp) \<in>
      {SUCCESS, ERR_DOES_NOT_INIT, ERR_SEND_FAIL, ERR_EMPTY_EVENT, ERR_OVER_SIZE}"
proof -
  obtain tp' ret where s: "SendData os env rd tp = (tp', ret)" by force
  note ok = SendData_keeps_ok [OF s assms]
  show ?thesis
  proof (cases "sendable rd")
    case True
    have "open_fds (tp_log tp') = open_fds (tp_log tp) \<and>
        sends (tp_log tp') \<le> sends (tp_log tp) + RETRY_TIMES * (length (tp_retryDataList tp) + RETRY_TIMES) \<and>
        ret \<in> {SUCCESS, ERR_DOES_NOT_INIT, ERR_SEND_FAIL}"
      using SendData_facts [OF s assms(2) True] by blast
    with ok s show ?thesis by (auto simp: pending_def RETRY_TIMES_def)
  next
    case False
    with SendData_unsendable [OF assms(2) False, of os env tp] ok s show ?thesis by auto
  qed
qed

theorem SendData_bounded_and_closed_witness:
  "open_fds (tp_log (fst (SendData os_up std_env (byte_record 7) empty_transport))) = []"
proof -
  have "tp_ok empty_transport" by (simp add: tp_ok_def empty_transport_def)
  from SendData_bounded_and_closed [OF this byte_record_facts(1), of os_up std_env 7] show ?thesis
    by (simp add: empty_transport_def open_fds_def)
qed

text \<open>Sending many records one after the other.\<close>

primrec send_all :: "os_env \<Rightarrow> mem_env \<Rightarrow> raw_data list \<Rightarrow> transport \<Rightarrow> transport" where
  "send_all os env [] tp = tp"
| "send_all os env (rd # rds) tp = send_all os env rds (fst (SendData os env rd tp))"

definition accounted :: "transport \<Rightarrow> byte list multiset" where
  "accounted tp = mset (delivered (tp_log tp)) + mset (pending tp)"

definition submitted :: "raw_data list \<Rightarrow> byte list multiset" where
  "submitted rds = mset (map contents (filter sendable rds))"

lemma mset_enqueue:
  "mset (enqueue x q) \<subseteq># add_mset x (mset q)"
  "length q < RETRY_QUEUE_SIZE \<Longrightarrow> mset (enqueue x q) = add_mset x (mset q)"
  "length (enqueue x q) \<le> length q + 1"
  by (cases q; auto simp: enqueue_def RETRY_QUEUE_SIZE_def)+

lemma mset_take_drop: "mset (take k xs) + mset (drop k xs) = mset xs"
  by (metis append_take_drop_id mset_append)

lemma SendData_accounted:
  assumes env: "mem_ok env" "MAX_DATA_SIZE \<le> memcpy_max env"
    and tp: "tp_ok tp" and rd: "rd_inv rd"
  shows "accounted (fst (SendData os env rd tp)) \<subseteq># accounted tp + submitted [rd] \<and>
    length (pending (fst (SendData os env rd tp))) \<le> length (pending tp) + size (submitted [rd]) \<and>
    (length (pending tp) < RETRY_QUEUE_SIZE \<longrightarrow>
       accounted (fst (SendData os env rd tp)) = accounted tp + submitted [rd])"
proof (cases "sendable rd")
  case False
  then show ?thesis
    using SendData_unsendable [OF rd False, of os env tp] by (simp add: submitted_def)
next
  case True
  obtain tp' ret where s: "SendData os env rd tp = (tp', ret)" by force
  obtain k where k: "delivered (tp_log tp') = delivered (tp_log tp) @ take k (pending tp) @
        (if ret = SUCCESS then [contents rd] else [])"
      "pending tp' = (if ret = SUCCESS then drop k (pending tp) else enqueue (contents rd) (drop k (pending tp)))"
    using SendData_pending [OF s env tp rd True] by blast
  let ?d = "mset (delivered (tp_log tp))" and ?x = "contents rd"
  have split: "accounted tp + submitted [rd] = ?d + mset (take k (pending tp)) + add_mset ?x (mset (drop k (pending tp)))"
    using True mset_take_drop [of k "pending tp"] by (simp add: accounted_def submitted_def)
  show ?thesis
  proof (cases "ret = SUCCESS")
    case r: True
    then show ?thesis
      unfolding split using s k True by (simp add: accounted_def submitted_def)
  next
    case False
    then have acc: "accounted tp' = ?d + mset (take k (pending tp)) + mset (enqueue ?x (drop k (pending tp)))"
      using k by (simp add: accounted_def)
    have "length (drop k (pending tp)) \<le> length (pending tp)" by simp
    then show ?thesis
      unfolding split using s acc False k mset_enqueue [where x = ?x and q = "drop k (pending tp)"] True
      by (auto simp: submitted_def)
  qed
qed

lemma submitted_Cons: "submitted (rd # rds) = submitted [rd] + submitted rds"
  by (simp add: submitted_def)

lemma send_all_accounted:
  assumes "mem_ok env" "MAX_DATA_SIZE \<le> memcpy_max env" "tp_ok tp" "\<forall>rd \<in> set rds. rd_inv rd"
  shows "accounted (send_all os env rds tp) \<subseteq># accounted tp + submitted rds \<and>
    (length (pending tp) + size (submitted rds) \<le> RETRY_QUEUE_SIZE \<longrightarrow>
       accounted (send_all os env rds tp) = accounted tp + submitted rds)"
  using assms
proof (induction rds arbitrary: tp)
  case Nil
  then show ?case by (simp add: submitted_def)
next
  case (Cons rd rds)
  let ?tp = "fst (SendData os env rd tp)"
  have rd: "rd_inv rd" using Cons.prems by simp
  note step = SendData_accounted [OF Cons.prems(1-3) rd, of os]
  have "tp_ok ?tp"
    using SendData_keeps_ok [OF _ Cons.prems(3) rd] by (metis prod.collapse)
  note IH = Cons.IH [OF Cons.prems(1,2) this]
  have sub: "accounted (send_all os env (rd # rds) tp) \<subseteq># accounted tp + submitted (rd # rds)"
  proof -
    have "accounted (send_all os env rds ?tp) \<subseteq># accounted ?tp + submitted rds"
      using IH Cons.prems(4) by simp
    also have "\<dots> \<subseteq># (accounted tp + submitted [rd]) + submitted rds"
      using step by (intro subset_mset.add_right_mono) blast
    finally show ?thesis
      by (simp add: submitted_Cons [of rd rds] add.assoc)
  qed
  have "accounted (send_all os env (rd # rds) tp) = accounted tp + submitted (rd # rds)"
    if fits: "length (pending tp) + size (submitted (rd # rds)) \<le> RETRY_QUEUE_SIZE"
  proof (cases "submitted [rd] = {#}")
    case True
    then have "\<not> sendable rd" by (simp add: submitted_def split: if_splits)
    then have "?tp = tp" using SendData_unsendable [OF rd] by blast
    with IH fits True Cons.prems(4) show ?thesis by (simp add: submitted_Cons [of rd rds])
  next
    case False
    then have "length (pending tp) < RETRY_QUEUE_SIZE"
      using fits by (simp add: submitted_Cons [of rd rds] nonempty_has_size)
    then show ?thesis
      using IH step fits Cons.prems(4) by (simp add: submitted_Cons [of rd rds])
  qed
  with sub show ?case by blast
qed

text \<open>
  C7. No record is duplicated or invented, and none is lost while the queue has room: over
  any sequence of calls from the start, the records delivered and waiting are among the
  ones submitted, counted with multiplicity, and they are exactly the submitted ones as
  long as at most \<^verbatim>\<open>RETRY_QUEUE_SIZE\<close> sendable records were submitted.
\<close>

theorem transport_accounts_for_records:
  assumes "mem_ok env" "MAX_DATA_SIZE \<le> memcpy_max env" "\<forall>rd \<in> set rds. rd_inv rd"
  shows "accounted (send_all os env rds empty_transport) \<subseteq># submitted rds \<and>
    (size (submitted rds) \<le> RETRY_QUEUE_SIZE \<longrightarrow>
       accounted (send_all os env rds empty_transport) = submitted rds)"
proof -
  have "tp_ok empty_transport" "accounted empty_transport = {#}" "pending empty_transport = []"
    by (simp_all add: tp_ok_def empty_transport_def accounted_def pending_def)
  then show ?thesis
    using send_all_accounted [OF assms(1,2) _ assms(3), of empty_transport os] by simp
qed

theorem transport_accounts_for_records_witness:
  "accounted (send_all os_down std_env [byte_record 1, byte_record 2] empty_transport) = {#[1], [2]#}"
proof -
  have "MAX_DATA_SIZE \<le> memcpy_max std_env" by (simp add: std_env_def limit_defs)
  moreover have "\<forall>rd \<in> set [byte_record 1, byte_record 2]. rd_inv rd"
    by (simp add: byte_record_facts)
  ultimately show ?thesis
    using transport_accounts_for_records [OF mem_ok_std_env, of "[byte_record 1, byte_record 2]" os_down]
    by (simp add: submitted_def byte_record_facts RETRY_QUEUE_SIZE_def)
qed

end
