(* ===== verification/WriteController.thy ===== *)
theory WriteController
  imports SysEventDef
begin

unbundle bit_operations_syntax

text \<open>
  \<^verbatim>\<open>WriteController\<close> (write_controller.cpp): the frequency limit of event writing. Call
  sites are identified by a hash of event name, function and line; an LRU cache of
  \<^verbatim>\<open>LRU_CACHE_DEFAULT_SIZE\<close> records counts the writes of each call site per period.
  The cache is modelled with its list nodes and the iterators the index keeps into them;
  the theory proves that no iterator dangles, that the cache refines a recency list, and
  that the limiter behaves as one with unbounded memory while it serves at most as many
  call sites as the cache has records.
\<close>

section \<open>Keys\<close>

text \<open>\<open>char_signed\<close>: whether plain \<^verbatim>\<open>char\<close> is signed on the target.\<close>

definition char_to_u64 :: "bool \<Rightarrow> char \<Rightarrow> u64" where
  "char_to_u64 char_signed c = (if char_signed then scast (byte_of_char c) else ucast (byte_of_char c))"

fun GenerateHash_loop :: "bool \<Rightarrow> string \<Rightarrow> u64 \<Rightarrow> u64" where
  "GenerateHash_loop sg [] ret = ret"
| "GenerateHash_loop sg (c # cs) ret =
     GenerateHash_loop sg cs ((ret XOR char_to_u64 sg c) * 0x100000001B3)"

definition GenerateHash :: "bool \<Rightarrow> string \<Rightarrow> u64" where
  "GenerateHash sg info =
     (let infoLen = length info; infoLenLimit = 256;
          hashLen = (if infoLen < infoLenLimit then infoLen else infoLenLimit) in
      GenerateHash_loop sg (take hashLen info) 0xCBF29CE484222325)"

text \<open>\<^verbatim>\<open>std::to_string\<close> on an \<^verbatim>\<open>int64_t\<close>.\<close>

definition to_string :: "64 word \<Rightarrow> string" where
  "to_string line = decimal_int (sint line)"

definition ConcatenateInfoAsKey :: "bool \<Rightarrow> string \<Rightarrow> string \<Rightarrow> 64 word \<Rightarrow> u64" where
  "ConcatenateInfoAsKey sg eventName func line =
     GenerateHash sg (eventName @ ''_'' @ func @ ''_'' @ to_string line)"

section \<open>The LRU cache\<close>

definition INVALID_TIME_STAMP :: u64 where "INVALID_TIME_STAMP = 0"
definition LRU_CACHE_DEFAULT_SIZE :: nat where "LRU_CACHE_DEFAULT_SIZE = 30"
definition HISYSEVENT_DEFAULT_PERIOD :: u64 where "HISYSEVENT_DEFAULT_PERIOD = 5"
definition HISYSEVENT_DEFAULT_THRESHOLD :: u64 where "HISYSEVENT_DEFAULT_THRESHOLD = 100"

record wrote_record =
  wr_count :: u64
  wr_timestamp :: u64

definition empty_record :: wrote_record where
  "empty_record = \<lparr>wr_count = 0, wr_timestamp = INVALID_TIME_STAMP\<rparr>"

text \<open>
  A node of \<^verbatim>\<open>keyCache_\<close> is an identity and a key; an iterator is the identity of a node.
  \<open>lc_fresh\<close> is the identity the next node gets.
\<close>

record lru_cache =
  lc_index :: "u64 \<rightharpoonup> nat \<times> wrote_record"
  lc_keys :: "(nat \<times> u64) list"
  lc_fresh :: nat
  lc_capacity :: nat

definition EventWroteLruCache_new :: "nat \<Rightarrow> lru_cache" where
  "EventWroteLruCache_new capacity =
     \<lparr>lc_index = Map.empty, lc_keys = [], lc_fresh = 0, lc_capacity = capacity\<rparr>"

text \<open>
  \<^verbatim>\<open>splice(begin(), list, iter)\<close> moves the node of the iterator to the front; on a dangling
  iterator the behaviour is undefined, which the model shows as doing nothing.
\<close>

definition splice_front :: "nat \<Rightarrow> (nat \<times> u64) list \<Rightarrow> (nat \<times> u64) list" where
  "splice_front iter xs = (case find (\<lambda>nd. fst nd = iter) xs of
     None \<Rightarrow> xs
   | Some nd \<Rightarrow> nd # filter (\<lambda>nd. fst nd \<noteq> iter) xs)"

definition Modify :: "u64 \<Rightarrow> lru_cache \<Rightarrow> lru_cache" where
  "Modify key c = (case lc_index c key of
     None \<Rightarrow> c
   | Some (iter, record) \<Rightarrow>
       let keys = splice_front iter (lc_keys c) in
       c\<lparr>lc_keys := keys, lc_index := (lc_index c)(key \<mapsto> (fst (hd keys), record))\<rparr>)"

definition Get :: "u64 \<Rightarrow> lru_cache \<Rightarrow> lru_cache \<times> wrote_record" where
  "Get key c =
     (if lc_index c key = None then (c, empty_record)
      else let c' = Modify key c in (c', snd (the (lc_index c' key))))"

definition Put :: "u64 \<Rightarrow> wrote_record \<Rightarrow> lru_cache \<Rightarrow> lru_cache" where
  "Put key record c =
     (if lc_capacity c = 0 then c
      else case lc_index c key of
        Some (iter, _) \<Rightarrow> Modify key (c\<lparr>lc_index := (lc_index c)(key \<mapsto> (iter, record))\<rparr>)
      | None \<Rightarrow>
          let c1 = (if length (lc_keys c) = lc_capacity c
                    then c\<lparr>lc_index := (lc_index c)(snd (last (lc_keys c)) := None),
                           lc_keys := butlast (lc_keys c)\<rparr>
                    else c);
              keys = (lc_fresh c1, key) # lc_keys c1 in
          c1\<lparr>lc_keys := keys, lc_fresh := lc_fresh c1 + 1,
             lc_index := (lc_index c1)(key \<mapsto> (fst (hd keys), record))\<rparr>)"

section \<open>The limit\<close>

record control_param =
  cp_period :: u64
  cp_threshold :: u64

text \<open>
  The decision on the record of a call site: the record to store and the value to return.
  All arithmetic is on 64-bit unsigned integers.
\<close>

definition limit_decision :: "control_param \<Rightarrow> wrote_record \<Rightarrow> u64 \<Rightarrow> wrote_record \<times> u64" where
  "limit_decision param record cur =
     (let secToMillis = 1000 in
      if wr_count record = 0 \<or>
         wr_timestamp record div secToMillis + cp_period param < cur div secToMillis \<or>
         wr_timestamp record div secToMillis > cur div secToMillis
      then (\<lparr>wr_count = 1, wr_timestamp = cur\<rparr>, cur)
      else let record = record\<lparr>wr_count := wr_count record + 1\<rparr> in
        if wr_count record \<le> cp_threshold param then (record, cur)
        else (record, INVALID_TIME_STAMP))"

text \<open>
  Every path of the function ends with \<^verbatim>\<open>Put\<close>; \<open>check_with\<close> is the function over the two
  operations of a cache.
\<close>

definition check_with ::
  "(u64 \<Rightarrow> 's \<Rightarrow> 's \<times> wrote_record) \<Rightarrow> (u64 \<Rightarrow> wrote_record \<Rightarrow> 's \<Rightarrow> 's) \<Rightarrow>
   control_param \<Rightarrow> u64 \<Rightarrow> u64 \<Rightarrow> 's \<Rightarrow> 's \<times> u64" where
  "check_with get put param key cur s =
     (case get key s of (s1, record) \<Rightarrow>
        case limit_decision param record cur of (record', ret) \<Rightarrow> (put key record' s1, ret))"

text \<open>
  Event name and function are C strings, which \<^verbatim>\<open>ConcatenateInfoAsKey\<close> takes as
  \<^verbatim>\<open>std::string\<close>: of a name with a NUL inside only the part before it counts.
\<close>

definition CheckLimitWritingEvent ::
  "bool \<Rightarrow> control_param \<Rightarrow> string \<Rightarrow> string \<Rightarrow> 64 word \<Rightarrow> u64 \<Rightarrow> lru_cache \<Rightarrow> lru_cache \<times> u64" where
  "CheckLimitWritingEvent sg param eventName func line cur =
     check_with Get Put param (ConcatenateInfoAsKey sg (cut_at_nul eventName) (cut_at_nul func) line) cur"

section \<open>Calls of several threads\<close>

text \<open>
  The lock of the cache is taken by \<^verbatim>\<open>Get\<close> and again by \<^verbatim>\<open>Put\<close>, and is free between
  the two. A call of the limiter is therefore two steps: \<open>Begin\<close> reads the record of the
  site, \<open>Finish\<close> decides on the record that was read and stores the new one. The pending
  calls hold that record in the local variable of their thread. \<open>check_with\<close> above is the
  two steps in a row, the call of a thread that nothing interrupts.
\<close>

text \<open>A call: its parameters, its site (event name, function, line) and its time.\<close>

type_synonym call = "control_param \<times> (string \<times> string \<times> 64 word) \<times> u64"

definition site_key :: "bool \<Rightarrow> call \<Rightarrow> u64" where
  "site_key sg call = (case call of (param, (ev, func, line), cur) \<Rightarrow>
     ConcatenateInfoAsKey sg (cut_at_nul ev) (cut_at_nul func) line)"

record 's limiter =
  lm_cache :: 's
  lm_pending :: "(nat \<times> call \<times> wrote_record) list"

definition limiter_new :: "'s \<Rightarrow> 's limiter" where
  "limiter_new c = \<lparr>lm_cache = c, lm_pending = []\<rparr>"

datatype limit_event = Begin nat call | Finish nat

definition limit_begin ::
  "(u64 \<Rightarrow> 's \<Rightarrow> 's \<times> wrote_record) \<Rightarrow> bool \<Rightarrow> nat \<Rightarrow> call \<Rightarrow> 's limiter \<Rightarrow> 's limiter" where
  "limit_begin get sg thread call lm = (case get (site_key sg call) (lm_cache lm) of (c, record) \<Rightarrow>
     lm\<lparr>lm_cache := c, lm_pending := (thread, call, record) # lm_pending lm\<rparr>)"

definition limit_finish ::
  "(u64 \<Rightarrow> wrote_record \<Rightarrow> 's \<Rightarrow> 's) \<Rightarrow> bool \<Rightarrow> nat \<Rightarrow> 's limiter \<Rightarrow> 's limiter \<times> (call \<times> u64) list" where
  "limit_finish put sg thread lm = (case map_of (lm_pending lm) thread of
     None \<Rightarrow> (lm, [])
   | Some (call, record) \<Rightarrow> (case limit_decision (fst call) record (snd (snd call)) of (record', ret) \<Rightarrow>
       (lm\<lparr>lm_cache := put (site_key sg call) record' (lm_cache lm),
           lm_pending := filter (\<lambda>p. fst p \<noteq> thread) (lm_pending lm)\<rparr>, [(call, ret)])))"

definition limit_step ::
  "(u64 \<Rightarrow> 's \<Rightarrow> 's \<times> wrote_record) \<Rightarrow> (u64 \<Rightarrow> wrote_record \<Rightarrow> 's \<Rightarrow> 's) \<Rightarrow> bool \<Rightarrow> limit_event \<Rightarrow>
   's limiter \<Rightarrow> 's limiter \<times> (call \<times> u64) list" where
  "limit_step get put sg e lm = (case e of
     Begin thread call \<Rightarrow> (limit_begin get sg thread call lm, [])
   | Finish thread \<Rightarrow> limit_finish put sg thread lm)"

text \<open>The final state and the calls that finished, in order, each with the value returned.\<close>

primrec limit_run ::
  "(u64 \<Rightarrow> 's \<Rightarrow> 's \<times> wrote_record) \<Rightarrow> (u64 \<Rightarrow> wrote_record \<Rightarrow> 's \<Rightarrow> 's) \<Rightarrow> bool \<Rightarrow> limit_event list \<Rightarrow>
   's limiter \<Rightarrow> 's limiter \<times> (call \<times> u64) list" where
  "limit_run get put sg [] lm = (lm, [])"
| "limit_run get put sg (e # es) lm = (case limit_step get put sg e lm of (lm1, out1) \<Rightarrow>
     case limit_run get put sg es lm1 of (lm2, out2) \<Rightarrow> (lm2, out1 @ out2))"

lemma one_call_is_two_steps:
  assumes "thread \<notin> fst ` set (lm_pending lm)"
  shows "limit_run Get Put sg [Begin thread (param, (ev, func, line), cur), Finish thread] lm =
    (case CheckLimitWritingEvent sg param ev func line cur (lm_cache lm) of (c, ret) \<Rightarrow>
       (lm\<lparr>lm_cache := c\<rparr>, [((param, (ev, func, line), cur), ret)]))"
proof -
  have "filter (\<lambda>p. fst p \<noteq> thread) (lm_pending lm) = lm_pending lm"
    using assms by (auto intro: filter_True)
  then show ?thesis
    by (simp add: limit_step_def limit_begin_def limit_finish_def CheckLimitWritingEvent_def check_with_def
        site_key_def split: prod.splits)
qed

text \<open>
  A schedule of the steps: a thread begins no call inside a call, and two calls of the site
  \<open>k\<close> are not inside the limiter at the same time. Calls of other sites may overlap as they like.
\<close>

primrec serial :: "bool \<Rightarrow> u64 \<Rightarrow> (nat \<times> call) list \<Rightarrow> limit_event list \<Rightarrow> bool" where
  "serial sg k inside [] = True"
| "serial sg k inside (e # es) = (case e of
     Begin thread call \<Rightarrow> thread \<notin> set (map fst inside) \<and>
       (site_key sg call = k \<longrightarrow> k \<notin> set (map (\<lambda>p. site_key sg (snd p)) inside)) \<and>
       serial sg k ((thread, call) # inside) es
   | Finish thread \<Rightarrow> serial sg k (filter (\<lambda>p. fst p \<noteq> thread) inside) es)"

primrec calls_in :: "limit_event list \<Rightarrow> call list" where
  "calls_in [] = []"
| "calls_in (e # es) = (case e of Begin thread call \<Rightarrow> call # calls_in es | Finish thread \<Rightarrow> calls_in es)"

text \<open>The reference: one counter per site, nothing else.\<close>

primrec site_run :: "(control_param \<times> u64) list \<Rightarrow> wrote_record \<Rightarrow> u64 list" where
  "site_run [] r = []"
| "site_run (pc # rest) r = (case limit_decision (fst pc) r (snd pc) of (r', ret) \<Rightarrow> ret # site_run rest r')"

definition calls_of :: "bool \<Rightarrow> u64 \<Rightarrow> call list \<Rightarrow> (control_param \<times> u64) list" where
  "calls_of sg k calls = map (\<lambda>(param, _, cur). (param, cur)) (filter (\<lambda>call. site_key sg call = k) calls)"

definition results_of :: "bool \<Rightarrow> u64 \<Rightarrow> (call \<times> u64) list \<Rightarrow> u64 list" where
  "results_of sg k outs = map snd (filter (\<lambda>cr. site_key sg (fst cr) = k) outs)"

lemma results_of_simps [simp]:
  "results_of sg k [] = []"
  "results_of sg k (co # outs) = (if site_key sg (fst co) = k then [snd co] else []) @ results_of sg k outs"
  by (simp_all add: results_of_def)

lemma calls_of_simps [simp]:
  "calls_of sg k [] = []"
  "calls_of sg k (call # calls) =
     (if site_key sg call = k then [(fst call, snd (snd call))] else []) @ calls_of sg k calls"
  by (simp_all add: calls_of_def case_prod_beta)

lemma calls_of_append [simp]: "calls_of sg k (xs @ ys) = calls_of sg k xs @ calls_of sg k ys"
  by (simp add: calls_of_def)

section \<open>The cache keeps its invariant and refines a recency list\<close>

definition lru_inv :: "lru_cache \<Rightarrow> bool" where
  "lru_inv c \<longleftrightarrow>
     distinct (map fst (lc_keys c)) \<and> distinct (map snd (lc_keys c)) \<and>
     (\<forall>nd \<in> set (lc_keys c). fst nd < lc_fresh c) \<and>
     dom (lc_index c) = snd ` set (lc_keys c) \<and>
     (\<forall>nd \<in> set (lc_keys c). \<exists>r. lc_index c (snd nd) = Some (fst nd, r)) \<and>
     length (lc_keys c) \<le> lc_capacity c"

definition record_of :: "lru_cache \<Rightarrow> u64 \<Rightarrow> wrote_record option" where
  "record_of c key = map_option snd (lc_index c key)"

definition recency :: "lru_cache \<Rightarrow> (u64 \<times> wrote_record) list" where
  "recency c = map (\<lambda>nd. (snd nd, the (record_of c (snd nd)))) (lc_keys c)"

definition touch :: "u64 \<Rightarrow> wrote_record \<Rightarrow> (u64 \<times> wrote_record) list \<Rightarrow> (u64 \<times> wrote_record) list" where
  "touch key r l = (key, r) # filter (\<lambda>p. fst p \<noteq> key) l"

lemma lru_inv_new: "lru_inv (EventWroteLruCache_new n)"
  by (simp add: lru_inv_def EventWroteLruCache_new_def)

lemma recency_new: "recency (EventWroteLruCache_new n) = []"
  by (simp add: recency_def EventWroteLruCache_new_def)

text \<open>The iterator of a cached key points to the node of that key.\<close>

lemma lru_node:
  assumes "lru_inv c" "lc_index c key = Some (iter, r)"
  shows "(iter, key) \<in> set (lc_keys c)"
proof -
  from assms have "key \<in> snd ` set (lc_keys c)" by (auto simp: lru_inv_def)
  then obtain nd where nd: "nd \<in> set (lc_keys c)" "snd nd = key" by auto
  with assms have "nd = (iter, key)" by (auto simp: lru_inv_def prod_eq_iff)
  with nd show ?thesis by simp
qed

lemma find_node:
  "distinct (map fst xs) \<Longrightarrow> (i, k) \<in> set xs \<Longrightarrow> find (\<lambda>nd. fst nd = i) xs = Some (i, k)"
  by (induction xs) (auto simp: rev_image_eqI)

lemma filter_node:
  assumes "distinct (map fst xs)" "distinct (map snd xs)" "(i, k) \<in> set xs"
  shows "filter (\<lambda>nd. fst nd \<noteq> i) xs = filter (\<lambda>nd. snd nd \<noteq> k) xs"
  using assms by (induction xs) (auto simp: rev_image_eqI intro: filter_cong)

lemma Modify_present:
  assumes inv: "lru_inv c" and idx: "lc_index c key = Some (iter, r)"
  shows "Modify key c = c\<lparr>lc_keys := (iter, key) # filter (\<lambda>nd. snd nd \<noteq> key) (lc_keys c),
     lc_index := (lc_index c)(key \<mapsto> (iter, r))\<rparr>"
proof -
  have d: "distinct (map fst (lc_keys c))" "distinct (map snd (lc_keys c))"
    using inv by (auto simp: lru_inv_def)
  have "splice_front iter (lc_keys c) = (iter, key) # filter (\<lambda>nd. snd nd \<noteq> key) (lc_keys c)"
    using find_node [OF d(1) lru_node [OF inv idx]] filter_node [OF d lru_node [OF inv idx]]
    by (simp add: splice_front_def)
  with idx show ?thesis
    by (simp add: Modify_def)
qed
lemma distinct_filter_map: "distinct (map f xs) \<Longrightarrow> distinct (map f (filter P xs))"
  by (induction xs) auto

lemma recency_filter_cong:
  assumes "\<And>nd. nd \<in> set xs \<Longrightarrow> P nd \<Longrightarrow> f nd = g nd"
  shows "map f (filter P xs) = map g (filter P xs)"
  using assms by simp

lemma filter_recency:
  "filter (\<lambda>p. fst p \<noteq> key) (recency c) =
     map (\<lambda>nd. (snd nd, the (record_of c (snd nd)))) (filter (\<lambda>nd. snd nd \<noteq> key) (lc_keys c))"
  by (simp add: recency_def filter_map comp_def)

lemma touched_inv:
  assumes inv: "lru_inv c" and node: "(iter, key) \<in> set (lc_keys c)"
  shows "lru_inv (c\<lparr>lc_keys := (iter, key) # filter (\<lambda>nd. snd nd \<noteq> key) (lc_keys c),
     lc_index := (lc_index c)(key \<mapsto> (iter, r))\<rparr>)"
proof -
  let ?f = "filter (\<lambda>nd. snd nd \<noteq> key) (lc_keys c)"
  have d: "distinct (map fst (lc_keys c))" "distinct (map snd (lc_keys c))"
    using inv by (auto simp: lru_inv_def)
  have "iter \<notin> fst ` set ?f"
  proof
    assume "iter \<in> fst ` set ?f"
    then obtain nd where nd: "nd \<in> set (lc_keys c)" "fst nd = iter" "snd nd \<noteq> key" by auto
    then show False
      using d(1) node by (metis eq_key_imp_eq_value prod.collapse snd_conv)
  qed
  moreover have "length ?f < length (lc_keys c)"
    using node by (intro length_filter_less [of "(iter, key)"]) auto
  moreover have "insert key (snd ` set ?f) = snd ` set (lc_keys c)"
    using node by (auto simp: rev_image_eqI)
  ultimately show ?thesis
    using inv node d by (auto simp: lru_inv_def distinct_filter_map)
qed

lemma touched_recency:
  "recency (c\<lparr>lc_keys := (iter, key) # filter (\<lambda>nd. snd nd \<noteq> key) (lc_keys c),
     lc_index := (lc_index c)(key \<mapsto> (iter, r))\<rparr>) = touch key r (recency c)"
  by (simp add: touch_def filter_recency) (simp add: recency_def record_of_def)

lemma Get_hit:
  assumes "lru_inv c" "lc_index c key = Some (iter, r)"
  shows "Get key c = (c\<lparr>lc_keys := (iter, key) # filter (\<lambda>nd. snd nd \<noteq> key) (lc_keys c),
     lc_index := (lc_index c)(key \<mapsto> (iter, r))\<rparr>, r)"
  using Modify_present [OF assms] assms(2) by (simp add: Get_def Let_def)

lemma Put_hit:
  assumes inv: "lru_inv c" and idx: "lc_index c key = Some (iter, r0)"
  shows "Put key r c = c\<lparr>lc_keys := (iter, key) # filter (\<lambda>nd. snd nd \<noteq> key) (lc_keys c),
     lc_index := (lc_index c)(key \<mapsto> (iter, r))\<rparr>"
proof -
  let ?c = "c\<lparr>lc_index := (lc_index c)(key \<mapsto> (iter, r))\<rparr>"
  have node: "(iter, key) \<in> set (lc_keys c)"
    by (rule lru_node [OF inv idx])
  then have "lc_capacity c \<noteq> 0"
    using inv by (cases "lc_keys c") (auto simp: lru_inv_def)
  moreover have "lru_inv ?c"
  proof -
    have "\<exists>r'. ((lc_index c)(key \<mapsto> (iter, r))) (snd nd) = Some (fst nd, r')"
      if "nd \<in> set (lc_keys c)" for nd
    proof (cases "snd nd = key")
      case True
      with inv that idx show ?thesis by (auto simp: lru_inv_def)
    next
      case False
      with inv that show ?thesis by (auto simp: lru_inv_def)
    qed
    moreover have "dom ((lc_index c)(key \<mapsto> (iter, r))) = dom (lc_index c)"
      using idx by auto
    ultimately show ?thesis
      using inv unfolding lru_inv_def by simp
  qed
  ultimately show ?thesis
    using Modify_present [of ?c key iter r] idx by (simp add: Put_def)
qed

text \<open>Evicting the last node, then pushing a new one.\<close>

definition evicted :: "lru_cache \<Rightarrow> lru_cache" where
  "evicted c = (if length (lc_keys c) = lc_capacity c
     then c\<lparr>lc_index := (lc_index c)(snd (last (lc_keys c)) := None), lc_keys := butlast (lc_keys c)\<rparr>
     else c)"

lemma Put_miss:
  assumes "lc_capacity c \<noteq> 0" "lc_index c key = None"
  shows "Put key r c = (evicted c)\<lparr>lc_keys := (lc_fresh c, key) # lc_keys (evicted c),
     lc_fresh := lc_fresh c + 1, lc_index := (lc_index (evicted c))(key \<mapsto> (lc_fresh c, r))\<rparr>"
  using assms by (simp add: Put_def evicted_def Let_def)

lemma evicted_inv:
  assumes inv: "lru_inv c" and cap: "lc_capacity c \<noteq> 0"
  shows "lru_inv (evicted c) \<and> length (lc_keys (evicted c)) < lc_capacity c \<and>
    lc_fresh (evicted c) = lc_fresh c \<and> lc_capacity (evicted c) = lc_capacity c \<and>
    recency (evicted c) = take (lc_capacity c - 1) (recency c) \<and>
    (lc_index c key = None \<longrightarrow> lc_index (evicted c) key = None)"
proof (cases "length (lc_keys c) = lc_capacity c")
  case False
  then have "length (lc_keys c) \<le> lc_capacity c - 1"
    using inv by (auto simp: lru_inv_def)
  with False inv cap show ?thesis
    by (auto simp: evicted_def recency_def)
next
  case True
  then obtain xs x where xs: "lc_keys c = xs @ [x]"
    using cap by (metis list.size(3) rev_exhaust)
  have e: "evicted c = c\<lparr>lc_index := (lc_index c)(snd x := None), lc_keys := xs\<rparr>"
    using True xs by (simp add: evicted_def)
  have d: "snd x \<notin> snd ` set xs" "distinct (map fst xs)" "distinct (map snd xs)"
    using inv xs by (auto simp: lru_inv_def)
  have "\<exists>r. ((lc_index c)(snd x := None)) (snd nd) = Some (fst nd, r)" if "nd \<in> set xs" for nd
  proof -
    have "snd nd \<noteq> snd x" using d(1) that by (metis imageI)
    with inv that xs show ?thesis by (auto simp: lru_inv_def)
  qed
  moreover have "dom ((lc_index c)(snd x := None)) = snd ` set xs"
  proof -
    have "dom (lc_index c) = insert (snd x) (snd ` set xs)"
      using inv xs by (simp add: lru_inv_def)
    moreover have "dom ((lc_index c)(snd x := None)) = dom (lc_index c) - {snd x}"
      by simp
    ultimately show ?thesis
      using d(1) by simp
  qed
  ultimately have "lru_inv (evicted c)"
    using inv xs d unfolding e lru_inv_def by simp
  moreover have "recency (evicted c) = take (lc_capacity c - 1) (recency c)"
  proof -
    have "lc_capacity c = Suc (length xs)" using True xs by simp
    moreover have "the (record_of (evicted c) (snd nd)) = the (record_of c (snd nd))" if "nd \<in> set xs" for nd
    proof -
      have "snd nd \<noteq> snd x" using d(1) that by (metis imageI)
      then show ?thesis by (simp add: record_of_def e)
    qed
    ultimately show ?thesis
      by (simp add: recency_def e xs)
  qed
  ultimately show ?thesis
    using True xs by (auto simp: e)
qed

lemma Put_miss_inv:
  assumes inv: "lru_inv c" and cap: "lc_capacity c \<noteq> 0" and new: "lc_index c key = None"
  shows "lru_inv (Put key r c) \<and> recency (Put key r c) = (key, r) # take (lc_capacity c - 1) (recency c)"
proof -
  let ?e = "evicted c"
  have e: "lru_inv ?e" "length (lc_keys ?e) < lc_capacity c" "lc_fresh ?e = lc_fresh c"
      "lc_capacity ?e = lc_capacity c" "recency ?e = take (lc_capacity c - 1) (recency c)"
      "lc_index ?e key = None"
    using evicted_inv [OF inv cap, of key] new by auto
  have fresh: "\<forall>nd \<in> set (lc_keys ?e). fst nd < lc_fresh c"
    using e(1,3) by (simp add: lru_inv_def)
  have nokey: "key \<notin> snd ` set (lc_keys ?e)"
    using e(1,6) by (auto simp: lru_inv_def)
  have other: "((lc_index ?e)(key \<mapsto> (lc_fresh c, r))) (snd nd) = lc_index ?e (snd nd)"
    if "nd \<in> set (lc_keys ?e)" for nd
    using nokey that by (metis fun_upd_other imageI)
  have "lc_fresh c \<notin> fst ` set (lc_keys ?e)"
    using fresh by fastforce
  then have "lru_inv (Put key r c)"
    using e fresh nokey other unfolding Put_miss [OF cap new] lru_inv_def
    by (simp add: less_Suc_eq)
  moreover have "recency (Put key r c) = (key, r) # recency ?e"
    using other unfolding Put_miss [OF cap new] recency_def record_of_def by simp
  ultimately show ?thesis
    using e(5) by simp
qed

text \<open>The two operations against the recency list.\<close>

lemma recency_lookup: "lru_inv c \<Longrightarrow> map_of (recency c) key = record_of c key"
proof -
  assume inv: "lru_inv c"
  have m: "map_of (map (\<lambda>nd. (snd nd, g (snd nd))) xs) k = (if k \<in> snd ` set xs then Some (g k) else None)"
    for g :: "u64 \<Rightarrow> wrote_record" and xs :: "(nat \<times> u64) list" and k
    by (induction xs) auto
  have "key \<in> snd ` set (lc_keys c) \<longleftrightarrow> record_of c key \<noteq> None"
    using inv by (auto simp: lru_inv_def record_of_def dom_def)
  then show ?thesis
    using m [of "\<lambda>k. the (record_of c k)"] by (auto simp: recency_def)
qed

definition spec_get :: "u64 \<Rightarrow> (u64 \<times> wrote_record) list \<Rightarrow> (u64 \<times> wrote_record) list \<times> wrote_record" where
  "spec_get key l = (case map_of l key of None \<Rightarrow> (l, empty_record) | Some r \<Rightarrow> (touch key r l, r))"

definition spec_put :: "nat \<Rightarrow> u64 \<Rightarrow> wrote_record \<Rightarrow> (u64 \<times> wrote_record) list \<Rightarrow> (u64 \<times> wrote_record) list" where
  "spec_put capacity key r l = take capacity (touch key r l)"

lemma Get_refines:
  assumes "lru_inv c"
  shows "lru_inv (fst (Get key c)) \<and> lc_capacity (fst (Get key c)) = lc_capacity c \<and>
    (recency (fst (Get key c)), snd (Get key c)) = spec_get key (recency c)"
proof (cases "lc_index c key")
  case None
  with assms show ?thesis
    by (simp add: Get_def spec_get_def recency_lookup record_of_def)
next
  case (Some p)
  obtain iter r where p: "p = (iter, r)" by force
  with Some have idx: "lc_index c key = Some (iter, r)" by simp
  show ?thesis
    using touched_inv [OF assms lru_node [OF assms idx]] idx assms
    by (simp add: Get_hit [OF assms idx] touched_recency spec_get_def recency_lookup record_of_def)
qed

lemma filter_recency_new: "lru_inv c \<Longrightarrow> lc_index c key = None \<Longrightarrow> filter (\<lambda>p. fst p \<noteq> key) (recency c) = recency c"
  by (rule filter_True) (auto simp: recency_def lru_inv_def dom_def)

lemma touch_length: "key \<in> fst ` set l \<Longrightarrow> length (touch key r l) \<le> length l"
proof -
  assume "key \<in> fst ` set l"
  then obtain x where "x \<in> set l" "fst x = key" by auto
  then have "length (filter (\<lambda>p. fst p \<noteq> key) l) < length l"
    by (intro length_filter_less [of x]) auto
  then show ?thesis by (simp add: touch_def)
qed

lemma Put_refines:
  assumes inv: "lru_inv c"
  shows "lru_inv (Put key r c) \<and> lc_capacity (Put key r c) = lc_capacity c \<and>
    recency (Put key r c) = spec_put (lc_capacity c) key r (recency c)"
proof (cases "lc_capacity c = 0")
  case True
  with inv show ?thesis
    by (simp add: Put_def spec_put_def recency_def lru_inv_def)
next
  case cap: False
  have len: "length (recency c) \<le> lc_capacity c"
    using inv by (simp add: recency_def lru_inv_def)
  show ?thesis
  proof (cases "lc_index c key")
    case None
    then have "take (lc_capacity c) (touch key r (recency c)) = (key, r) # take (lc_capacity c - 1) (recency c)"
      using cap by (cases "lc_capacity c") (simp_all add: touch_def filter_recency_new [OF inv])
    moreover have "lc_capacity (Put key r c) = lc_capacity c"
      unfolding Put_miss [OF cap None] by (simp add: evicted_def)
    ultimately show ?thesis
      using Put_miss_inv [OF inv cap None] by (simp add: spec_put_def)
  next
    case (Some p)
    obtain iter r0 where idx: "lc_index c key = Some (iter, r0)"
      using Some by (cases p) simp
    have "(iter, key) \<in> set (lc_keys c)"
      by (rule lru_node [OF inv idx])
    then have "key \<in> fst ` set (recency c)"
      by (force simp: recency_def)
    then have "length (touch key r (recency c)) \<le> lc_capacity c"
      using touch_length len order_trans by blast
    then show ?thesis
      using touched_inv [OF inv lru_node [OF inv idx]]
      by (simp add: Put_hit [OF inv idx] touched_recency spec_put_def)
  qed
qed

section \<open>The interface of a record cache and the limiter over it\<close>

text \<open>
  What the limiter relies on: reading a record changes no record, and a stored record is
  found again as long as no more keys are in use than the cache has room for.
\<close>

locale record_cache =
  fixes inv :: "'s \<Rightarrow> bool"
    and lookup :: "'s \<Rightarrow> u64 \<Rightarrow> wrote_record option"
    and room :: nat
    and get :: "u64 \<Rightarrow> 's \<Rightarrow> 's \<times> wrote_record"
    and put :: "u64 \<Rightarrow> wrote_record \<Rightarrow> 's \<Rightarrow> 's"
  assumes get_law: "inv s \<Longrightarrow> inv (fst (get k s)) \<and> lookup (fst (get k s)) = lookup s \<and>
      snd (get k s) = (case lookup s k of None \<Rightarrow> empty_record | Some r \<Rightarrow> r)"
    and put_law: "inv s \<Longrightarrow> finite K \<Longrightarrow> card K \<le> room \<Longrightarrow> insert k (dom (lookup s)) \<subseteq> K \<Longrightarrow>
      inv (put k r s) \<and> lookup (put k r s) = (lookup s)(k \<mapsto> r)"
begin

definition current :: "'s \<Rightarrow> u64 \<Rightarrow> wrote_record" where
  "current s k = (case lookup s k of None \<Rightarrow> empty_record | Some r \<Rightarrow> r)"

text \<open>
  What holds of the site \<open>k\<close> between the steps: the keys in use fit into the cache, no thread
  is inside two calls, at most one call of \<open>k\<close> is pending, and the record it read is still
  the current one.
\<close>

definition site_inv :: "bool \<Rightarrow> u64 \<Rightarrow> u64 set \<Rightarrow> 's limiter \<Rightarrow> bool" where
  "site_inv sg k K lm \<longleftrightarrow> inv (lm_cache lm) \<and> dom (lookup (lm_cache lm)) \<subseteq> K \<and>
     (\<forall>p \<in> set (lm_pending lm). site_key sg (fst (snd p)) \<in> K) \<and>
     distinct (map fst (lm_pending lm)) \<and>
     (\<forall>p \<in> set (lm_pending lm). site_key sg (fst (snd p)) = k \<longrightarrow>
        filter (\<lambda>p. site_key sg (fst (snd p)) = k) (lm_pending lm) = [p] \<and>
        snd (snd p) = current (lm_cache lm) k)"

lemma begin_law:
  assumes "site_inv sg k K lm" "site_key sg call \<in> K" "thread \<notin> fst ` set (lm_pending lm)"
    and "site_key sg call = k \<Longrightarrow> k \<notin> (\<lambda>p. site_key sg (fst (snd p))) ` set (lm_pending lm)"
  shows "site_inv sg k K (limit_begin get sg thread call lm) \<and>
    current (lm_cache (limit_begin get sg thread call lm)) k = current (lm_cache lm) k \<and>
    (\<exists>r. lm_pending (limit_begin get sg thread call lm) = (thread, call, r) # lm_pending lm)"
proof -
  obtain c r where g: "get (site_key sg call) (lm_cache lm) = (c, r)" by force
  have law: "inv c" "lookup c = lookup (lm_cache lm)" "r = current (lm_cache lm) (site_key sg call)"
    using get_law [of "lm_cache lm" "site_key sg call"] assms(1) g by (simp_all add: site_inv_def current_def)
  have same: "current c k = current (lm_cache lm) k"
    by (simp add: current_def law(2))
  have none: "filter (\<lambda>p. site_key sg (fst (snd p)) = k) (lm_pending lm) = []" if "site_key sg call = k"
    using assms(4) [OF that] by (auto simp: filter_empty_conv)
  show ?thesis
    using assms law same none by (auto simp: limit_begin_def g site_inv_def)
qed

lemma finish_law:
  assumes I: "site_inv sg k K lm" and K: "finite K" "card K \<le> room"
    and p: "map_of (lm_pending lm) thread = Some (call, r)"
    and dec: "limit_decision (fst call) r (snd (snd call)) = (r', ret)"
  shows "site_inv sg k K (fst (limit_finish put sg thread lm)) \<and>
    (site_key sg call = k \<longrightarrow> r = current (lm_cache lm) k \<and>
       filter (\<lambda>p. site_key sg (fst (snd p)) = k) (lm_pending lm) = [(thread, call, r)] \<and>
       filter (\<lambda>p. site_key sg (fst (snd p)) = k) (lm_pending (fst (limit_finish put sg thread lm))) = []) \<and>
    (site_key sg call \<noteq> k \<longrightarrow>
       filter (\<lambda>p. site_key sg (fst (snd p)) = k) (lm_pending (fst (limit_finish put sg thread lm))) =
       filter (\<lambda>p. site_key sg (fst (snd p)) = k) (lm_pending lm)) \<and>
    current (lm_cache (fst (limit_finish put sg thread lm))) k =
      (if site_key sg call = k then r' else current (lm_cache lm) k)"
proof -
  let ?j = "site_key sg call" and ?P = "lm_pending lm" and ?is = "\<lambda>p. site_key sg (fst (snd p)) = k"
  have mem: "(thread, call, r) \<in> set ?P"
    by (rule map_of_SomeD [OF p])
  have law: "inv (put ?j r' (lm_cache lm))" "lookup (put ?j r' (lm_cache lm)) = (lookup (lm_cache lm))(?j \<mapsto> r')"
    using put_law [of "lm_cache lm" K ?j r'] I K mem by (auto simp: site_inv_def)
  have only: "q = (thread, call, r)" if "q \<in> set ?P" "fst q = thread" for q
    using I mem that by (metis eq_key_imp_eq_value prod.collapse site_inv_def)
  have swap: "filter ?is (filter (\<lambda>p. fst p \<noteq> thread) ?P) = filter (\<lambda>p. fst p \<noteq> thread) (filter ?is ?P)"
    by (simp add: conj_commute)
  have one: "filter ?is ?P = [(thread, call, r)] \<and> r = current (lm_cache lm) k" if "?j = k"
    using I mem that by (force simp: site_inv_def)
  have keep: "filter ?is (filter (\<lambda>p. fst p \<noteq> thread) ?P) = filter ?is ?P" if "?j \<noteq> k"
    unfolding swap using only that by (intro filter_True) force
  have cur: "current (put ?j r' (lm_cache lm)) k = (if ?j = k then r' else current (lm_cache lm) k)"
    by (simp add: current_def law(2))
  have fin: "limit_finish put sg thread lm = (lm\<lparr>lm_cache := put ?j r' (lm_cache lm),
      lm_pending := filter (\<lambda>p. fst p \<noteq> thread) ?P\<rparr>, [(call, ret)])"
    by (simp add: limit_finish_def p dec)
  have none: "filter ?is (filter (\<lambda>p. fst p \<noteq> thread) ?P) = []" if "?j = k"
    unfolding swap using one [OF that] by simp
  have "\<forall>q \<in> set (filter (\<lambda>p. fst p \<noteq> thread) ?P). ?is q \<longrightarrow>
      filter ?is (filter (\<lambda>p. fst p \<noteq> thread) ?P) = [q] \<and> snd (snd q) = current (put ?j r' (lm_cache lm)) k"
  proof (cases "?j = k")
    case True
    with none have "set (filter ?is (filter (\<lambda>p. fst p \<noteq> thread) ?P)) = {}" by simp
    then show ?thesis by (simp del: filter_filter) blast
  next
    case False
    then show ?thesis
      using I unfolding keep [OF False] cur by (simp add: site_inv_def)
  qed
  moreover have "insert ?j (dom (lookup (lm_cache lm))) \<subseteq> K"
    using I mem by (auto simp: site_inv_def)
  ultimately have "site_inv sg k K (fst (limit_finish put sg thread lm))"
    using I unfolding fin site_inv_def by (simp add: law distinct_map_filter del: filter_filter)
  then show ?thesis
    using one none keep cur by (simp add: fin)
qed

text \<open>The run: the site sees a counter of its own.\<close>

lemma run_site:
  assumes "site_inv sg k K lm" "finite K" "card K \<le> room" "site_key sg ` set (calls_in es) \<subseteq> K"
    and "serial sg k (map (\<lambda>p. (fst p, fst (snd p))) (lm_pending lm)) es"
    and "limit_run get put sg es lm = (lm', outs)"
  shows "results_of sg k outs = site_run (calls_of sg k (map fst outs)) (current (lm_cache lm) k) \<and>
    calls_of sg k (map fst outs) @ calls_of sg k (map (\<lambda>p. fst (snd p)) (lm_pending lm')) =
      calls_of sg k (map (\<lambda>p. fst (snd p)) (lm_pending lm)) @ calls_of sg k (calls_in es)"
  using assms
proof (induction es arbitrary: lm outs)
  case Nil
  then show ?case by simp
next
  case (Cons e es)
  obtain lm1 out1 out2 where st: "limit_step get put sg e lm = (lm1, out1)"
      "limit_run get put sg es lm1 = (lm', out2)" "outs = out1 @ out2"
    using Cons.prems(6) by (auto split: prod.splits)
  have pend: "calls_of sg k (map (\<lambda>p. fst (snd p)) P) =
      map (\<lambda>p. (fst (fst (snd p)), snd (snd (fst (snd p))))) (filter (\<lambda>p. site_key sg (fst (snd p)) = k) P)"
    for P :: "(nat \<times> call \<times> wrote_record) list"
    by (induction P) auto
  show ?case
  proof (cases e)
    case (Begin thread call)
    have lm1: "lm1 = limit_begin get sg thread call lm" "out1 = []"
      using st(1) by (auto simp: limit_step_def Begin)
    have b: "site_inv sg k K lm1 \<and> current (lm_cache lm1) k = current (lm_cache lm) k \<and>
        (\<exists>r. lm_pending lm1 = (thread, call, r) # lm_pending lm)"
      unfolding lm1
    proof (rule begin_law [OF Cons.prems(1)])
      show "site_key sg call \<in> K" "thread \<notin> fst ` set (lm_pending lm)"
        using Cons.prems(4,5) by (simp_all add: Begin image_image)
      show "k \<notin> (\<lambda>p. site_key sg (fst (snd p))) ` set (lm_pending lm)" if "site_key sg call = k"
        using Cons.prems(5) that by (simp add: Begin image_image)
    qed
    then obtain r where r: "lm_pending lm1 = (thread, call, r) # lm_pending lm" by auto
    have "serial sg k (map (\<lambda>p. (fst p, fst (snd p))) (lm_pending lm1)) es" "site_key sg ` set (calls_in es) \<subseteq> K"
      using Cons.prems(4,5) by (auto simp: r Begin)
    note IH = Cons.IH [OF conjunct1 [OF b] Cons.prems(2,3) this(2,1) st(2)]
    have "calls_of sg k (map (\<lambda>p. fst (snd p)) (lm_pending lm)) = []" if "site_key sg call = k"
    proof -
      have "k \<notin> (\<lambda>p. site_key sg (fst (snd p))) ` set (lm_pending lm)"
        using Cons.prems(5) that by (simp add: Begin image_image)
      then show ?thesis by (force simp: pend filter_empty_conv)
    qed
    then show ?thesis
      using IH b st(3) lm1(2) by (auto simp: r Begin)
  next
    case (Finish thread)
    have step: "limit_finish put sg thread lm = (lm1, out1)"
      using st(1) by (simp add: limit_step_def Finish)
    have sub: "site_key sg ` set (calls_in es) \<subseteq> K"
      using Cons.prems(4) by (simp add: Finish)
    have flt: "filter (\<lambda>p. fst p \<noteq> thread) (map (\<lambda>p. (fst p, fst (snd p))) P) =
        map (\<lambda>p. (fst p, fst (snd p))) (filter (\<lambda>p. fst p \<noteq> thread) P)"
      for P :: "(nat \<times> call \<times> wrote_record) list"
      by (induction P) auto
    show ?thesis
    proof (cases "map_of (lm_pending lm) thread")
      case None
      then have same: "lm1 = lm" "out1 = []"
        using step by (simp_all add: limit_finish_def)
      have "thread \<notin> fst ` set (lm_pending lm)"
        using None by (simp add: map_of_eq_None_iff)
      then have "filter (\<lambda>p. fst p \<noteq> thread) (lm_pending lm) = lm_pending lm"
        by (auto intro: filter_True)
      then have "serial sg k (map (\<lambda>p. (fst p, fst (snd p))) (lm_pending lm)) es"
        using Cons.prems(5) by (simp add: Finish flt)
      from Cons.IH [OF Cons.prems(1,2,3) sub this] show ?thesis
        using st same by (simp add: Finish)
    next
      case (Some cr)
      obtain call r where p: "map_of (lm_pending lm) thread = Some (call, r)"
        using Some by (cases cr) simp
      obtain r' ret where dec: "limit_decision (fst call) r (snd (snd call)) = (r', ret)" by force
      have lm1: "lm_pending lm1 = filter (\<lambda>p. fst p \<noteq> thread) (lm_pending lm)" "out1 = [(call, ret)]"
        using step by (auto simp: limit_finish_def p dec)
      note law = finish_law [OF Cons.prems(1-3) p dec, unfolded step fst_conv]
      have "serial sg k (map (\<lambda>p. (fst p, fst (snd p))) (lm_pending lm1)) es"
        using Cons.prems(5) by (simp add: Finish flt lm1)
      note IH = Cons.IH [OF conjunct1 [OF law] Cons.prems(2,3) sub this st(2)]
      show ?thesis
      proof (cases "site_key sg call = k")
        case True
        then show ?thesis
          using IH law dec st(3) by (simp add: Finish lm1(2) pend)
      next
        case False
        then show ?thesis
          using IH law st(3) by (simp add: Finish lm1(2) pend)
      qed
    qed
  qed
qed

end

text \<open>One Get of the cache keeps all records; one Put adds the record while there is room.\<close>

lemma record_of_recency: "lru_inv c \<Longrightarrow> record_of c = map_of (recency c)"
  by (rule ext) (simp add: recency_lookup)

lemma map_of_touch: "map_of (touch k r l) = (map_of l)(k \<mapsto> r)"
proof
  fix j
  show "map_of (touch k r l) j = ((map_of l)(k \<mapsto> r)) j"
    by (cases "j = k") (simp_all add: touch_def, induction l, auto)
qed

lemma distinct_recency: "lru_inv c \<Longrightarrow> distinct (map fst (recency c))"
  by (simp add: recency_def lru_inv_def comp_def)

lemma distinct_touch: "distinct (map fst l) \<Longrightarrow> distinct (map fst (touch k r l))"
  by (auto simp: touch_def distinct_filter_map)

interpretation cache: record_cache "\<lambda>c. lru_inv c \<and> lc_capacity c = n" record_of n Get Put for n
proof
  fix c k assume c: "lru_inv c \<and> lc_capacity c = n"
  then have g: "lru_inv (fst (Get k c))" "lc_capacity (fst (Get k c)) = n"
      "(recency (fst (Get k c)), snd (Get k c)) = spec_get k (recency c)"
    using Get_refines [of c k] by auto
  have "record_of (fst (Get k c)) = record_of c \<and>
      snd (Get k c) = (case record_of c k of None \<Rightarrow> empty_record | Some r \<Rightarrow> r)"
    using g c by (auto simp: record_of_recency spec_get_def map_of_touch split: option.splits)
  with g show "(lru_inv (fst (Get k c)) \<and> lc_capacity (fst (Get k c)) = n) \<and>
      record_of (fst (Get k c)) = record_of c \<and>
      snd (Get k c) = (case record_of c k of None \<Rightarrow> empty_record | Some r \<Rightarrow> r)"
    by simp
next
  fix c k r and K :: "u64 set"
  assume c: "lru_inv c \<and> lc_capacity c = n"
    and K: "finite K" "card K \<le> n" "insert k (dom (record_of c)) \<subseteq> K"
  have p: "lru_inv (Put k r c)" "lc_capacity (Put k r c) = n"
      "recency (Put k r c) = take n (touch k r (recency c))"
    using Put_refines [of c k r] c by (auto simp: spec_put_def)
  have "dom (record_of c) = fst ` set (recency c)"
    using c by (simp add: record_of_recency dom_map_of_conv_image_fst)
  then have sub: "fst ` set (touch k r (recency c)) \<subseteq> K"
    using K(3) by (auto simp: touch_def)
  have "length (touch k r (recency c)) = card (fst ` set (touch k r (recency c)))"
    using distinct_card [OF distinct_touch [OF distinct_recency, of c k r]] c by simp
  also have "\<dots> \<le> n"
    using card_mono [OF K(1) sub] K(2) by simp
  finally have "recency (Put k r c) = touch k r (recency c)"
    using p(3) by simp
  then have "record_of (Put k r c) = (record_of c)(k \<mapsto> r)"
    using p(1) c by (simp add: record_of_recency map_of_touch)
  with p show "(lru_inv (Put k r c) \<and> lc_capacity (Put k r c) = n) \<and>
      record_of (Put k r c) = (record_of c)(k \<mapsto> r)"
    by simp
qed

section \<open>Runs of the limiter\<close>

lemma limiter_site:
  assumes "serial sg k [] es" "card (site_key sg ` set (calls_in es)) \<le> n"
    and "limit_run Get Put sg es (limiter_new (EventWroteLruCache_new n)) = (lm, outs)"
  shows "results_of sg k outs = site_run (calls_of sg k (map fst outs)) empty_record \<and>
    calls_of sg k (map fst outs) @ calls_of sg k (map (\<lambda>p. fst (snd p)) (lm_pending lm)) =
      calls_of sg k (calls_in es)"
proof -
  let ?lm = "limiter_new (EventWroteLruCache_new n)"
  have none: "record_of (EventWroteLruCache_new n) = Map.empty"
    by (simp add: record_of_def EventWroteLruCache_new_def fun_eq_iff)
  have "cache.site_inv n sg k (site_key sg ` set (calls_in es)) ?lm"
    by (simp add: cache.site_inv_def limiter_new_def lru_inv_new none)
      (simp add: EventWroteLruCache_new_def)
  moreover have "cache.current (lm_cache ?lm) k = empty_record"
    by (simp add: cache.current_def limiter_new_def none)
  moreover have "lm_pending ?lm = []"
    by (simp add: limiter_new_def)
  ultimately show ?thesis
    using cache.run_site [of n sg k "site_key sg ` set (calls_in es)" ?lm es lm outs] assms by simp
qed

definition in_window :: "control_param \<Rightarrow> u64 \<Rightarrow> u64 \<Rightarrow> bool" where
  "in_window param start cur \<longleftrightarrow>
     cur div 1000 \<le> start div 1000 + cp_period param \<and> start div 1000 \<le> cur div 1000"

lemma site_run_window:
  assumes "wr_count r \<noteq> 0" "\<forall>t \<in> set ts. in_window param (wr_timestamp r) t"
    and "unat (wr_count r) + length ts < 2 ^ 64"
  shows "site_run (map (Pair param) ts) r =
    map (\<lambda>i. if unat (wr_count r) + i + 1 \<le> unat (cp_threshold param) then ts ! i else INVALID_TIME_STAMP)
      [0..<length ts]"
  using assms
proof (induction ts arbitrary: r)
  case (Cons t ts)
  let ?r = "r\<lparr>wr_count := wr_count r + 1\<rparr>"
  have no_wrap: "unat (wr_count r + 1) = unat (wr_count r) + 1"
    using Cons.prems(3) by (subst unat_add_lem [THEN iffD1]) simp_all
  then have nz: "wr_count ?r \<noteq> 0"
    using unat_0 by fastforce
  have le: "wr_count r + 1 \<le> cp_threshold param \<longleftrightarrow> unat (wr_count r) + 1 \<le> unat (cp_threshold param)"
    using no_wrap by (simp add: word_le_nat_alt)
  have dec: "limit_decision param r t =
      (?r, if unat (wr_count r) + 1 \<le> unat (cp_threshold param) then t else INVALID_TIME_STAMP)"
    using Cons.prems(1,2) unfolding le [symmetric]
    by (auto simp: limit_decision_def in_window_def Let_def)
  have "site_run (map (Pair param) ts) ?r =
      map (\<lambda>i. if unat (wr_count ?r) + i + 1 \<le> unat (cp_threshold param) then ts ! i else INVALID_TIME_STAMP)
        [0..<length ts]"
    using Cons.prems no_wrap nz by (intro Cons.IH) simp_all
  then show ?case
    using no_wrap by (simp add: dec upt_conv_Cons map_Suc_upt [symmetric] comp_def del: upt_Suc)
qed simp

section \<open>Properties\<close>

datatype cache_op = OpGet u64 | OpPut u64 wrote_record

primrec run_ops :: "cache_op list \<Rightarrow> lru_cache \<Rightarrow> lru_cache \<times> wrote_record list" where
  "run_ops [] c = (c, [])"
| "run_ops (x # xs) c = (case x of
     OpGet k \<Rightarrow> (case Get k c of (c1, r) \<Rightarrow> case run_ops xs c1 of (c2, rs) \<Rightarrow> (c2, r # rs))
   | OpPut k r \<Rightarrow> run_ops xs (Put k r c))"

primrec spec_ops :: "nat \<Rightarrow> cache_op list \<Rightarrow> (u64 \<times> wrote_record) list \<Rightarrow>
    (u64 \<times> wrote_record) list \<times> wrote_record list" where
  "spec_ops n [] l = (l, [])"
| "spec_ops n (x # xs) l = (case x of
     OpGet k \<Rightarrow> (case spec_get k l of (l1, r) \<Rightarrow> case spec_ops n xs l1 of (l2, rs) \<Rightarrow> (l2, r # rs))
   | OpPut k r \<Rightarrow> spec_ops n xs (spec_put n k r l))"

lemma run_ops_refines:
  "lru_inv c \<Longrightarrow> lc_capacity c = n \<Longrightarrow>
   lru_inv (fst (run_ops xs c)) \<and>
   (recency (fst (run_ops xs c)), snd (run_ops xs c)) = spec_ops n xs (recency c)"
proof (induction xs arbitrary: c)
  case (Cons x xs)
  show ?case
  proof (cases x)
    case (OpGet k)
    obtain c1 r where g: "Get k c = (c1, r)" by force
    then have "lru_inv c1" "lc_capacity c1 = n" "spec_get k (recency c) = (recency c1, r)"
      using Get_refines [OF Cons.prems(1), of k] Cons.prems by auto
    then show ?thesis
      using Cons.IH [of c1] OpGet g by (cases "run_ops xs c1"; cases "spec_ops n xs (recency c1)") auto
  next
    case (OpPut k r)
    then show ?thesis
      using Put_refines [OF Cons.prems(1), of k r] Cons.prems Cons.IH [of "Put k r c"] by simp
  qed
qed simp

text \<open>
  C13. The LRU cache is a recency list: after any sequence of \<^verbatim>\<open>Get\<close> and \<^verbatim>\<open>Put\<close> on a
  fresh cache of any capacity, every iterator in the index points to the node of its key,
  no more than \<^verbatim>\<open>capacity\<close> records are kept, and the records returned and kept are those
  of the specification that moves a used key to the front and drops the last one.
\<close>

theorem lru_refines_recency_list:
  "lru_inv (fst (run_ops xs (EventWroteLruCache_new n))) \<and>
   (recency (fst (run_ops xs (EventWroteLruCache_new n))), snd (run_ops xs (EventWroteLruCache_new n))) =
     spec_ops n xs []"
  using run_ops_refines [OF lru_inv_new, of n n xs]
  by (simp add: recency_new) (simp add: EventWroteLruCache_new_def)

text \<open>
  Why the calls of a site must not overlap: two threads that both read the record of their
  site before either stores it count as one call, so that a threshold of one admits both.
\<close>

lemma overlapping_calls_count_once:
  assumes "0 < n" "call = (\<lparr>cp_period = 5, cp_threshold = 1\<rparr>, (''E'', ''f'', 1), 7000)"
  shows "snd (limit_run Get Put sg [Begin 1 call, Finish 1, Begin 2 call, Finish 2]
      (limiter_new (EventWroteLruCache_new n))) = [(call, 7000), (call, INVALID_TIME_STAMP)]"
    and "snd (limit_run Get Put sg [Begin 1 call, Begin 2 call, Finish 1, Finish 2]
      (limiter_new (EventWroteLruCache_new n))) = [(call, 7000), (call, 7000)]"
  using assms
  by (simp_all add: limit_step_def limit_begin_def limit_finish_def limiter_new_def EventWroteLruCache_new_def
      Get_def Put_def Modify_def splice_front_def limit_decision_def empty_record_def INVALID_TIME_STAMP_def Let_def word_le_nat_alt)

text \<open>
  C11. Call sites do not disturb each other. Threads run the two locked sections of their
  calls in any interleaving, calls of different sites overlapping at will. Then for every
  site \<open>k\<close>, that is, for every key the limiter knows sites by (event names, functions and
  lines whose hashes collide are one site), whose own calls are not inside the limiter at the
  same time, and as long as at most as many keys are used as the cache has records: the
  calls of \<open>k\<close> are answered in the order they begin, all but one that is still inside, and
  the answers are those of a counter of its own, as if the cache had unbounded room.
\<close>

theorem limiter_is_per_call_site:
  assumes "serial sg k [] es" "card (site_key sg ` set (calls_in es)) \<le> n"
    and "limit_run Get Put sg es (limiter_new (EventWroteLruCache_new n)) = (lm, outs)"
  shows "results_of sg k outs = site_run (calls_of sg k (map fst outs)) empty_record \<and>
    calls_of sg k (map fst outs) @ calls_of sg k (map (\<lambda>p. fst (snd p)) (lm_pending lm)) =
      calls_of sg k (calls_in es)"
  using limiter_site [OF assms] .

text \<open>
  The witness: a call of another site begins first and ends last, around the two calls of
  the site.
\<close>

theorem limiter_is_per_call_site_witness:
  "let call = (\<lparr>cp_period = 5, cp_threshold = 1\<rparr>, (''E'', ''f'', 1), 7000);
       other = (\<lparr>cp_period = 5, cp_threshold = 1\<rparr>, (''A'', ''f'', 1), 7000);
       es = [Begin 2 other, Begin 1 call, Finish 1, Begin 1 call, Finish 2, Finish 1] in
   results_of True (site_key True call)
     (snd (limit_run Get Put True es (limiter_new (EventWroteLruCache_new LRU_CACHE_DEFAULT_SIZE)))) =
     [7000, INVALID_TIME_STAMP]"
proof -
  let ?call = "(\<lparr>cp_period = 5, cp_threshold = 1\<rparr>, (''E'', ''f'', 1 :: 64 word), 7000 :: u64)"
  let ?other = "(\<lparr>cp_period = 5, cp_threshold = 1\<rparr>, (''A'', ''f'', 1 :: 64 word), 7000 :: u64)"
  let ?es = "[Begin 2 ?other, Begin 1 ?call, Finish 1, Begin 1 ?call, Finish 2, Finish 1]"
  let ?k = "site_key True ?call"
  obtain lm outs where run: "limit_run Get Put True ?es
      (limiter_new (EventWroteLruCache_new LRU_CACHE_DEFAULT_SIZE)) = (lm, outs)"
    by force
  have keys: "site_key True ?other \<noteq> ?k"
    by (simp add: site_key_def cut_at_nul_def ConcatenateInfoAsKey_def to_string_def GenerateHash_def char_to_u64_def
        byte_of_char_def decimal_int_def decimal.simps [of "Suc 0"])
  have "serial True ?k [] ?es"
    using keys by simp
  moreover have "card (site_key True ` set (calls_in ?es)) \<le> LRU_CACHE_DEFAULT_SIZE"
    using card_image_le [of "set (calls_in ?es)" "site_key True"]
    by (simp add: LRU_CACHE_DEFAULT_SIZE_def card_insert_if)
  ultimately have c: "results_of True ?k outs = site_run (calls_of True ?k (map fst outs)) empty_record \<and>
      calls_of True ?k (map fst outs) @ calls_of True ?k (map (\<lambda>p. fst (snd p)) (lm_pending lm)) =
      calls_of True ?k (calls_in ?es)"
    by (rule limiter_is_per_call_site [OF _ _ run])
  have "lm_pending lm = []"
    using run by (auto simp: limit_step_def limit_begin_def limit_finish_def limiter_new_def split: prod.splits)
  with c keys have "results_of True ?k outs = [7000, INVALID_TIME_STAMP]"
    by (simp add: Let_def limit_decision_def empty_record_def word_le_nat_alt)
  then show ?thesis
    unfolding Let_def run by simp
qed

text \<open>
  C12. The limiter throttles. Under the conditions of the previous property (the calls of
  the site \<open>k\<close> do not overlap, at most as many keys are in use as the cache has records): when
  all calls of the site that end carry the same parameters and the times of the later ones
  fall into the period that the first call starts, then the first call is admitted whatever
  the threshold is, the later ones as long as the count does not exceed the threshold, so that
  a threshold of one or more admits exactly that many, and every other one is refused,
  whatever the other sites do in between.
\<close>

theorem limiter_throttles_period:
  assumes "serial sg k [] es" "card (site_key sg ` set (calls_in es)) \<le> n"
    and "limit_run Get Put sg es (limiter_new (EventWroteLruCache_new n)) = (lm, outs)"
    and "calls_of sg k (map fst outs) = map (Pair param) (start # ts)"
    and "\<forall>t \<in> set ts. in_window param start t" "length ts + 1 < 2 ^ 64"
  shows "results_of sg k outs =
    start # map (\<lambda>i. if i + 2 \<le> unat (cp_threshold param) then ts ! i else INVALID_TIME_STAMP) [0..<length ts]"
proof -
  have "results_of sg k outs = site_run (map (Pair param) (start # ts)) empty_record"
    using limiter_site [OF assms(1-3)] assms(4) by simp
  also have "\<dots> = start # site_run (map (Pair param) ts) \<lparr>wr_count = 1, wr_timestamp = start\<rparr>"
    by (simp add: limit_decision_def empty_record_def)
  also have "site_run (map (Pair param) ts) \<lparr>wr_count = 1, wr_timestamp = start\<rparr> =
      map (\<lambda>i. if i + 2 \<le> unat (cp_threshold param) then ts ! i else INVALID_TIME_STAMP) [0..<length ts]"
    using site_run_window [of "\<lparr>wr_count = 1, wr_timestamp = start\<rparr>" ts param] assms(5,6)
    by (simp add: add.commute)
  finally show ?thesis .
qed

theorem limiter_throttles_period_witness:
  "let p = \<lparr>cp_period = 5, cp_threshold = 2\<rparr>; site = (''E'', ''f'', 1);
       es = [Begin 1 (p, site, 7000), Finish 1, Begin 2 (p, site, 8000), Finish 2, Begin 1 (p, site, 12000), Finish 1] in
   results_of True (site_key True (p, site, 7000))
     (snd (limit_run Get Put True es (limiter_new (EventWroteLruCache_new LRU_CACHE_DEFAULT_SIZE)))) =
     [7000, 8000, INVALID_TIME_STAMP]"
proof -
  let ?p = "\<lparr>cp_period = 5, cp_threshold = 2\<rparr>" and ?site = "(''E'', ''f'', 1 :: 64 word)"
  let ?es = "[Begin 1 (?p, ?site, 7000), Finish 1, Begin 2 (?p, ?site, 8000), Finish 2, Begin 1 (?p, ?site, 12000), Finish 1]"
  let ?k = "site_key True (?p, ?site, 7000)"
  obtain lm outs where run: "limit_run Get Put True ?es
      (limiter_new (EventWroteLruCache_new LRU_CACHE_DEFAULT_SIZE)) = (lm, outs)"
    by force
  have k: "site_key True (?p, ?site, 8000) = ?k" "site_key True (?p, ?site, 12000) = ?k"
    by (simp_all add: site_key_def)
  have "serial True ?k [] ?es"
    by (simp add: k)
  moreover have "card (site_key True ` set (calls_in ?es)) \<le> LRU_CACHE_DEFAULT_SIZE"
    by (simp add: k LRU_CACHE_DEFAULT_SIZE_def)
  moreover have "calls_of True ?k (map fst outs) = map (Pair ?p) (7000 # [8000, 12000])"
    using run by (auto simp: limit_step_def limit_begin_def limit_finish_def limiter_new_def k split: prod.splits)
  moreover have "\<forall>t \<in> set [8000, 12000]. in_window ?p 7000 t"
    by (simp add: in_window_def)
  ultimately have "results_of True ?k outs = 7000 # map (\<lambda>i. if i + 2 \<le> unat (cp_threshold ?p)
      then [8000, 12000] ! i else INVALID_TIME_STAMP) [0..<length [8000, 12000 :: u64]]"
    by (rule limiter_throttles_period [OF _ _ run]) simp
  then show ?thesis
    unfolding Let_def run by simp
qed

end
