(* ===== verification/DomainMask.thy ===== *)
theory DomainMask
  imports StringFilter
begin

text \<open>
  The compile-time domain mask of hisysevent.h: the predefined domains, and the template
  recursion \<^verbatim>\<open>IsMaskedImpl\<close> that decides whether the macro \<^verbatim>\<open>DOMAIN_MASKS\<close>, a list of
  domains separated by bars, disables a domain. The theory states exactly which domains
  the recursion finds, which is not always the list one reads in the macro.
\<close>

section \<open>Predefined domains\<close>

definition Domain :: "string list" where
  "Domain =
    [''AAFWK'', ''ACCESS_TOKEN'', ''ACCESSIBILITY'', ''ACCESSIBILITY_UE'', ''ACCOUNT'', ''ACE'',
     ''ACE_UE'', ''AI'', ''APPEXECFWK'', ''APPSPAWN'', ''ARKTS_RUNTIME'', ''ARKTS_TASKPOOL'',
     ''ARKWEB_UE'', ''AUDIO'', ''AV_SESSION'', ''AV_CODEC'', ''BACKGROUND_TASK'',
     ''BARRIERFREE'', ''BATTERY'', ''BIOMETRICS'', ''BLUETOOTH'', ''BT_SERVICE'',
     ''BUNDLE_MANAGER'', ''BUNDLEMANAGER_UE'', ''CAM_DRV'', ''CAMERA'', ''CAMERA_ARCH'',
     ''CAMERA_HAL'', ''CAMERA_IPS'', ''CASTENGINE'', ''CCRUNTIME'', ''CDS'', ''CERT_MANAGER'',
     ''CJ_RUNTIME'', ''CLICKPAD'', ''CLICKPAD_UE'', ''CODE_SIGN'', ''COMMONEVENT'',
     ''COMMUNICATION'', ''COMPANION_AUTH'', ''CONTAINER'', ''CONTAINER_COMM'', ''CUST_CONFIG'',
     ''CUST_EDM'', ''DEVELOPTOOLS'', ''DEVICE_AUTH'', ''DEVICE_AUTH_UE'', ''DEVICE_PROFILE'',
     ''DISK_DECRYPT_UE'', ''DISPLAY'', ''DISTAUDIO'', ''DISTCAMERA'', ''DISTDATAMGR'',
     ''DISTDM'', ''DISTHWFWK'', ''DISTINPUT'', ''DISTSCHEDULE'', ''DISTSCREEN'',
     ''DLP_CRE_SERVICE'', ''DLP'', ''DRAG_UE'', ''DSLM'', ''DSOFTBUS'', ''EAA'',
     ''EL5_FILEKEY_MGR'', ''EXTERNAL_DEVICE'', ''FACEID_ALGO'', ''FACE_SETTINGS'', ''FIDO'',
     ''FILEMANAGEMENT'', ''FFRT'', ''FOLDSTATE_UE'', ''FORM_FWK_UE'', ''FORM_MANAGER'',
     ''FP_SETTINGS'', ''FRAMEWORK'', ''GLOBAL_I18N'', ''GLOBAL_RESMGR'', ''GLOBAL'',
     ''GRAPHIC'', ''GRAPHICS_GAME'', ''HDF_USB'', ''HIDUMPER'', ''HIVIEWDFX'', ''HM_KERNEL'',
     ''HUKS'', ''IAWARE'', ''IFAA'', ''IMS_UT'', ''INIT'', ''INPUTMETHOD'', ''INPUTMETHOD_UE'',
     ''INPUT_UE'', ''INTELLIACC'', ''INTELLITV'', ''ISHARE'', ''IVIHARDWARE'', ''JSVM_RUNTIME'',
     ''LIVEVIEW_MANAGER'', ''LOCATION'', ''MEDICAL_SENSOR'', ''MEMMGR'', ''MISCDEVICE'',
     ''MSDP'', ''MSDP_USS_UE'', ''MULTIMEDIA'', ''MULTIMODALINPUT'', ''MULTIWINDOW_UE'',
     ''NETMANAGER'', ''NETMANAGER_UE'', ''NFC'', ''NFC_EXT'', ''NOTIFICATION'', ''PASTEBOARD'',
     ''PIN_AUTH_SA'', ''POWER'', ''POWER_UE'', ''PRINT_PLUGIN_UE'', ''PROFILER'',
     ''PUSH_MANAGER'', ''RELIABILITY'', ''REMOTE_COMM'', ''REQUEST'', ''ROUTER'', ''RSS'',
     ''SAMGR'', ''SANDBOX_MANAGER'', ''SCREEN_CHANGE_UE'', ''SE_BASE_SERVICES'',
     ''SECURE_ELEMENT'', ''SECURITY_AUDIT'', ''SECURITY_GUARD'', ''SECURITY_UE'',
     ''SEC_COMPONENT'', ''SELECTIONFWK'', ''SENSOR'', ''SETTINGS_APP_UE'', ''SRCTRANSFORMER'',
     ''STARTUP'', ''STATS'', ''SWING_UE'', ''TASK_MANAGER'', ''TASK_MANAGER_UE'', ''TELEMETRY'',
     ''TELEPHONY'', ''THEME'', ''THEME_MGR'', ''THERMAL'', ''TIME'', ''TV_ACCESSORY'',
     ''TV_ACCESSORY_UE'', ''UPDATE'', ''UPDATE_DUE'', ''UPDATE_OUC'', ''USB'',
     ''USERIAM_FACE_HDF'', ''USERIAM_FP_HDF'', ''USERIAM_FWK'', ''USERIAM_FWK_HDF'',
     ''USERIAM_PIN'', ''USERIAM_PIN_HDF'', ''UWB'', ''VIR_SERVICE'', ''VM_SERVICE_UE'',
     ''VM_SERVICE'', ''WATCH_SENSORHUB'', ''WAUDIO_STEREO'', ''WEARABLEHW'', ''WEARABLE'',
     ''WEBVIEW'', ''WINDOWMANAGER'', ''WORKSCHEDULER'', ''OTHERS'']"

section \<open>The template recursion\<close>

text \<open>
  \<^verbatim>\<open>std::string_view::find\<close> (with \<^verbatim>\<open>npos\<close> as \<open>None\<close>), \<^verbatim>\<open>substr\<close>, and the difference of two
  \<^verbatim>\<open>size_t\<close> values, which wraps around below zero.
\<close>

definition find_bar :: "string \<Rightarrow> nat \<Rightarrow> nat option" where
  "find_bar masks pos =
     (let newpos = pos + length (takeWhile (\<lambda>c. c \<noteq> CHR ''|'') (drop pos masks)) in
      if newpos < length masks then Some newpos else None)"

definition substr :: "string \<Rightarrow> nat \<Rightarrow> nat \<Rightarrow> string" where
  "substr s pos cnt = take cnt (drop pos s)"

definition size_diff :: "nat \<Rightarrow> nat \<Rightarrow> nat" where
  "size_diff a b = (if b \<le> a then a - b else 2 ^ 64 + a - b)"

function IsMaskedImpl :: "string \<Rightarrow> string \<Rightarrow> nat \<Rightarrow> bool" where
  "IsMaskedImpl str masks pos =
     (let newpos = find_bar masks pos in
      (case newpos of None \<Rightarrow> False | Some _ \<Rightarrow> IsMaskedImpl str masks (pos + 1)) \<or>
      Some pos \<noteq> newpos \<and> pos \<noteq> length masks \<and>
      substr masks pos (case newpos of Some p \<Rightarrow> p - pos | None \<Rightarrow> size_diff (length str) pos) = str)"
  by pat_completeness auto
termination
  by (relation "measure (\<lambda>(str, masks, pos). length masks - pos)")
     (auto simp: find_bar_def Let_def split: if_splits)

declare IsMaskedImpl.simps [simp del]

definition isMasked :: "string \<Rightarrow> string \<Rightarrow> bool" where
  "isMasked domain masks = IsMaskedImpl domain masks 0"

section \<open>What the recursion finds\<close>

text \<open>The test at one position.\<close>

definition match_at :: "string \<Rightarrow> string \<Rightarrow> nat \<Rightarrow> bool" where
  "match_at str masks pos \<longleftrightarrow>
     Some pos \<noteq> find_bar masks pos \<and> pos \<noteq> length masks \<and>
     substr masks pos (case find_bar masks pos of Some p \<Rightarrow> p - pos | None \<Rightarrow> size_diff (length str) pos) = str"

lemma find_bar_absent: "CHR ''|'' \<notin> set (drop pos masks) \<Longrightarrow> find_bar masks pos = None"
proof -
  assume "CHR ''|'' \<notin> set (drop pos masks)"
  then have t: "takeWhile (\<lambda>c. c \<noteq> CHR ''|'') (drop pos masks) = drop pos masks"
    by (subst takeWhile_eq_all_conv) auto
  show ?thesis
    unfolding find_bar_def Let_def t by simp
qed

lemma find_bar_present:
  assumes "drop pos masks = w @ CHR ''|'' # r" "CHR ''|'' \<notin> set w"
  shows "find_bar masks pos = Some (pos + length w)"
proof -
  have "takeWhile (\<lambda>c. c \<noteq> CHR ''|'') w = w"
    using assms(2) by (subst takeWhile_eq_all_conv) auto
  then have "takeWhile (\<lambda>c. c \<noteq> CHR ''|'') (drop pos masks) = w"
    by (simp add: assms(1) takeWhile_tail)
  moreover have "length masks - pos = length w + 1 + length r"
    using arg_cong [OF assms(1), of length] by simp
  ultimately show ?thesis
    by (simp add: find_bar_def Let_def)
qed

lemma find_bar_None: "find_bar masks pos = None \<longleftrightarrow> CHR ''|'' \<notin> set (drop pos masks)"
  using find_bar_absent [of pos masks] find_bar_present [of pos masks]
  by (metis option.distinct(1) split_list_first)

lemma IsMaskedImpl_positions:
  "IsMaskedImpl str masks pos \<longleftrightarrow>
     (\<exists>q \<ge> pos. (q = pos \<or> CHR ''|'' \<in> set (drop (q - 1) masks)) \<and> match_at str masks q)"
proof (induction str masks pos rule: IsMaskedImpl.induct)
  case (1 str masks pos)
  show ?case
  proof (cases "find_bar masks pos")
    case None
    then have "CHR ''|'' \<notin> set (drop (q - 1) masks)" if "q > pos" for q
    proof -
      have "set (drop (q - 1) masks) \<subseteq> set (drop pos masks)"
        using that by (intro set_drop_subset_set_drop) simp
      with None show ?thesis by (auto simp: find_bar_None)
    qed
    then have "(\<exists>q \<ge> pos. (q = pos \<or> CHR ''|'' \<in> set (drop (q - 1) masks)) \<and> match_at str masks q) \<longleftrightarrow>
        match_at str masks pos"
      by (metis le_eq_less_or_eq)
    then show ?thesis
      using None by (subst IsMaskedImpl.simps) (simp add: match_at_def Let_def)
  next
    case (Some p)
    then have bar: "CHR ''|'' \<in> set (drop pos masks)"
      using find_bar_None [of masks pos] by auto
    have "IsMaskedImpl str masks pos \<longleftrightarrow> IsMaskedImpl str masks (pos + 1) \<or> match_at str masks pos"
      using Some by (subst IsMaskedImpl.simps) (simp add: match_at_def Let_def)
    also have "\<dots> \<longleftrightarrow> (\<exists>q \<ge> pos + 1. (q = pos + 1 \<or> CHR ''|'' \<in> set (drop (q - 1) masks)) \<and> match_at str masks q)
        \<or> match_at str masks pos"
      using "1.IH" [OF refl Some] by simp
    also have "\<dots> \<longleftrightarrow> (\<exists>q \<ge> pos. (q = pos \<or> CHR ''|'' \<in> set (drop (q - 1) masks)) \<and> match_at str masks q)"
      (is "?L \<longleftrightarrow> ?R")
    proof
      show "?L \<Longrightarrow> ?R"
      proof (elim disjE exE conjE)
        fix q assume "pos + 1 \<le> q" "match_at str masks q" "q = pos + 1"
        with bar show ?R by (intro exI [of _ q]) simp
      next
        fix q assume "pos + 1 \<le> q" "match_at str masks q" "CHR ''|'' \<in> set (drop (q - 1) masks)"
        then show ?R by (intro exI [of _ q]) simp
      next
        assume "match_at str masks pos"
        then show ?R by blast
      qed
      show "?R \<Longrightarrow> ?L"
        by (metis Suc_eq_plus1 Suc_leI le_eq_less_or_eq)
    qed
    finally show ?thesis .
  qed
qed

text \<open>The three kinds of match, for a domain that is not empty.\<close>

lemma match_before_bar:
  assumes d: "drop q masks = w @ CHR ''|'' # r" "CHR ''|'' \<notin> set w"
  shows "match_at str masks q \<longleftrightarrow> w \<noteq> [] \<and> str = w"
proof -
  have "q \<noteq> length masks" using d(1) by auto
  then show ?thesis
    using d find_bar_present [OF d] by (auto simp: match_at_def substr_def)
qed

lemma match_single:
  assumes "CHR ''|'' \<notin> set masks"
  shows "match_at str masks 0 \<longleftrightarrow> masks \<noteq> [] \<and> take (length str) masks = str"
  using assms find_bar_absent [of 0 masks] by (auto simp: match_at_def substr_def size_diff_def)

lemma match_last:
  assumes "CHR ''|'' \<notin> set (drop q masks)" "0 < q" "q \<le> length masks" "str \<noteq> []" "length masks < 2 ^ 64"
  shows "match_at str masks q \<longleftrightarrow> length str < q \<and> drop q masks = str"
proof (cases "length str < q")
  case True
  then have "size_diff (length str) q \<ge> length (drop q masks)"
    using assms(3,5) by (simp add: size_diff_def)
  then show ?thesis
    using True assms find_bar_absent [OF assms(1)] by (auto simp: match_at_def substr_def)
next
  case False
  then have "length (take (size_diff (length str) q) (drop q masks)) < length str"
    using assms(2,4) by (simp add: size_diff_def)
  then have "take (size_diff (length str) q) (drop q masks) \<noteq> str"
    by (metis less_irrefl)
  then show ?thesis
    using False find_bar_absent [OF assms(1)] by (simp add: match_at_def substr_def)
qed

section \<open>Properties\<close>

text \<open>The entries found in a mask with bars.\<close>

definition entry_of :: "string \<Rightarrow> string \<Rightarrow> bool" where
  "entry_of str masks \<longleftrightarrow> CHR ''|'' \<notin> set str \<and>
     ((\<exists>a c. masks = a @ str @ CHR ''|'' # c) \<or>
      (\<exists>a. masks = a @ CHR ''|'' # str \<and> length str \<le> length a))"

lemma masked_entry:
  assumes "str \<noteq> []" "length masks < 2 ^ 64" "CHR ''|'' \<in> set masks" "isMasked str masks"
  shows "entry_of str masks"
proof -
  from assms(4) obtain q where q: "q = 0 \<or> CHR ''|'' \<in> set (drop (q - 1) masks)" "match_at str masks q"
    by (auto simp: isMasked_def IsMaskedImpl_positions)
  show ?thesis
  proof (cases "CHR ''|'' \<in> set (drop q masks)")
    case bar: True
    then obtain w r where d: "drop q masks = w @ CHR ''|'' # r" "CHR ''|'' \<notin> set w"
      by (meson split_list_first)
    then have "str = w" using match_before_bar q(2) by blast
    moreover have "masks = take q masks @ w @ CHR ''|'' # r"
      using d(1) by (metis append_take_drop_id)
    ultimately show ?thesis using d(2) unfolding entry_of_def by blast
  next
    case nobar: False
    then have q0: "0 < q" "CHR ''|'' \<in> set (drop (q - 1) masks)"
      using q(1) assms(3) by (cases q; simp)+
    then have len: "q - 1 < length masks"
      by (metis drop_all empty_iff empty_set not_less)
    then have c: "drop (q - 1) masks = masks ! (q - 1) # drop q masks"
      using q0(1) Cons_nth_drop_Suc [of "q - 1" masks] by simp
    then have "masks ! (q - 1) = CHR ''|''"
      using q0(2) nobar by auto
    then have e: "masks = take (q - 1) masks @ CHR ''|'' # drop q masks"
      using c by (metis append_take_drop_id)
    have "q \<le> length masks" using len by simp
    then have m: "length str < q" "drop q masks = str"
      using match_last [OF nobar q0(1) _ assms(1,2)] q(2) by auto
    then have "masks = take (q - 1) masks @ CHR ''|'' # str \<and> length str \<le> length (take (q - 1) masks)"
      using e len by auto
    then show ?thesis using m nobar unfolding entry_of_def by blast
  qed
qed

lemma entry_masked:
  assumes "str \<noteq> []" "length masks < 2 ^ 64" "entry_of str masks"
  shows "isMasked str masks"
proof -
  from assms(3) consider (bar) a c where "masks = a @ str @ CHR ''|'' # c" "CHR ''|'' \<notin> set str"
    | (last) a where "masks = a @ CHR ''|'' # str" "length str \<le> length a" "CHR ''|'' \<notin> set str"
    unfolding entry_of_def by blast
  then show ?thesis
  proof cases
    case bar
    then have "match_at str masks (length a)"
      using match_before_bar [of "length a" masks str c] assms(1) by simp
    moreover have "length a = 0 \<or> CHR ''|'' \<in> set (drop (length a - 1) masks)"
      using bar by simp
    ultimately show ?thesis
      by (auto simp: isMasked_def IsMaskedImpl_positions)
  next
    case last
    then have "match_at str masks (length a + 1)"
      using match_last [of "length a + 1" masks str] assms by simp
    then show ?thesis
      using last by (auto simp: isMasked_def IsMaskedImpl_positions intro!: exI [of _ "length a + 1"])
  qed
qed

text \<open>
  What the mask disables, exactly. With several entries: a domain that a bar follows
  wherever it ends an entry, and the last entry provided that it is no longer than all the
  text before it. With a single entry: every domain that the entry starts with.
\<close>

lemma isMasked_exactly:
  assumes "str \<noteq> []" "length masks < 2 ^ 64"
  shows "isMasked str masks \<longleftrightarrow>
    (if CHR ''|'' \<notin> set masks then masks \<noteq> [] \<and> take (length str) masks = str
     else CHR ''|'' \<notin> set str \<and>
       ((\<exists>a c. masks = a @ str @ CHR ''|'' # c) \<or>
        (\<exists>a. masks = a @ CHR ''|'' # str \<and> length str \<le> length a)))"
proof (cases "CHR ''|'' \<in> set masks")
  case False
  then have "\<not> CHR ''|'' \<in> set (drop (q - 1) masks)" for q
    by (auto dest: in_set_dropD)
  then have "isMasked str masks \<longleftrightarrow> match_at str masks 0"
    by (simp add: isMasked_def IsMaskedImpl_positions)
  then show ?thesis
    using match_single [OF False] False by simp
next
  case True
  then have "isMasked str masks \<longleftrightarrow> entry_of str masks"
    using masked_entry [OF assms] entry_masked [OF assms] by blast
  with True show ?thesis
    by (simp add: entry_of_def)
qed

lemma isMasked_exactly_example:
  "isMasked ''ACCOUNT'' ''AAFWK|APPEXECFWK|ACCOUNT''"
proof -
  have "\<exists>a. ''AAFWK|APPEXECFWK|ACCOUNT'' = a @ CHR ''|'' # ''ACCOUNT'' \<and> length ''ACCOUNT'' \<le> length a"
    by (intro exI [of _ "''AAFWK|APPEXECFWK''"]) simp
  then show ?thesis
    using isMasked_exactly [of "''ACCOUNT''" "''AAFWK|APPEXECFWK|ACCOUNT''"] by simp
qed

text \<open>
  Every predefined domain can be written: each name passes the name check of the
  writer.
\<close>

theorem predefined_domains_valid: "list_all (\<lambda>d. IsValidName d MAX_DOMAIN_LENGTH) Domain"
  unfolding Domain_def
  by (simp add: IsValidName_Cons name_head_def name_tail_def is_upper_def is_lower_def is_digit_def limit_defs)

text \<open>
  Three masks that do not mean what the macro's comment says: the last entry is ignored
  when it is longer than the text before it, a single entry also disables every domain it
  starts with, and an entry also disables every domain it ends with.
\<close>

lemma mask_surprises:
  "\<not> isMasked ''AAFWK'' ''ACE|AAFWK''" "isMasked ''ACE'' ''ACE_UE''" "isMasked ''USB'' ''HDF_USB|AI''"
  by (simp_all add: isMasked_def IsMaskedImpl.simps find_bar_def substr_def size_diff_def)

end
