(* ===== verification/Writer.thy ===== *)
theory Writer
  imports Transport WriteController DomainMask
begin

text \<open>
  The writing of an event from the macro down to the socket: the domain mask, the
  frequency limit, the record and the transport, composed as \<^verbatim>\<open>HiSysEvent::Write\<close>,
  \<^verbatim>\<open>HiSysEvent::InnerWrite\<close>, the macro \<^verbatim>\<open>HiSysEventWrite\<close> and the C entry point
  \<^verbatim>\<open>HiSysEvent_Write\<close> compose them.
\<close>

section \<open>Environment and state\<close>

text \<open>
  \<open>we_now\<close>: the wall clock in milliseconds. \<open>we_param\<close>: the period and threshold the
  macros \<^verbatim>\<open>HISYSEVENT_PERIOD\<close> and \<^verbatim>\<open>HISYSEVENT_THRESHOLD\<close> (or their defaults) set.
  The state are the two static objects of the library.
\<close>

record writer_env =
  we_proc :: proc_env
  we_os :: os_env
  we_char_signed :: bool
  we_param :: control_param
  we_now :: u64

record writer =
  wr_lru :: lru_cache
  wr_transport :: transport

definition default_param :: control_param where
  "default_param = \<lparr>cp_period = HISYSEVENT_DEFAULT_PERIOD, cp_threshold = HISYSEVENT_DEFAULT_THRESHOLD\<rparr>"

section \<open>Operations\<close>

definition SendSysEvent :: "os_env \<Rightarrow> mem_env \<Rightarrow> event_base \<Rightarrow> transport \<Rightarrow> event_base \<times> transport" where
  "SendSysEvent os env eb tp =
     (case GetEventRawData env eb of (eb1, rawData) \<Rightarrow>
        if rawData = None then (SetRetCode ERR_RAW_DATA_WROTE_EXCEPTION eb1, tp)
        else case GetEventRawData env eb1 of
          (eb2, None) \<Rightarrow> (eb2, tp)
        | (eb2, Some data) \<Rightarrow>
            case SendData os env data tp of (tp', r) \<Rightarrow>
              if r \<noteq> SUCCESS then (SetRetCode r eb2, tp') else (eb2, tp'))"

definition InnerWrite_event ::
  "os_env \<Rightarrow> proc_env \<Rightarrow> string \<Rightarrow> string \<Rightarrow> int \<Rightarrow> u64 \<Rightarrow> write_args \<Rightarrow> transport \<Rightarrow> transport \<times> int" where
  "InnerWrite_event os pe domain eventName type timeStamp keyValues tp =
     (let env = pe_mem pe;
          eb0 = EventBase_new env domain eventName type timeStamp in
      if IsError eb0 then (tp, snd (ExplainThenReturnRetCode (GetRetCode eb0)))
      else let eb1 = WritebaseInfo pe eb0 in
      if IsError eb1 then (tp, snd (ExplainThenReturnRetCode (GetRetCode eb1)))
      else let eb2 = InnerWrite_args env keyValues eb1 in
      if IsError eb2 then (tp, snd (ExplainThenReturnRetCode (GetRetCode eb2)))
      else case SendSysEvent os env eb2 tp of (eb3, tp') \<Rightarrow> (tp', GetRetCode eb3))"

definition HiSysEvent_Write_cpp ::
  "writer_env \<Rightarrow> string \<Rightarrow> 64 word \<Rightarrow> string \<Rightarrow> string \<Rightarrow> int \<Rightarrow> write_args \<Rightarrow> writer \<Rightarrow> writer \<times> int" where
  "HiSysEvent_Write_cpp we func line domain eventName type keyValues w =
     (case CheckLimitWritingEvent (we_char_signed we) (we_param we) eventName func line (we_now we) (wr_lru w) of
        (lru, timeStamp) \<Rightarrow>
          let w1 = w\<lparr>wr_lru := lru\<rparr> in
          if timeStamp = INVALID_TIME_STAMP then (w1, ERR_WRITE_IN_HIGH_FREQ)
          else case InnerWrite_event (we_os we) (we_proc we) domain eventName type timeStamp keyValues (wr_transport w1) of
            (tp, ret) \<Rightarrow> (w1\<lparr>wr_transport := tp\<rparr>, ret))"

text \<open>
  The two templates on the domain, one for masked and one for other domains, and the macro,
  which tests the mask once more.
\<close>

definition HiSysEvent_Write_domain ::
  "string \<Rightarrow> writer_env \<Rightarrow> string \<Rightarrow> 64 word \<Rightarrow> string \<Rightarrow> string \<Rightarrow> int \<Rightarrow> write_args \<Rightarrow> writer \<Rightarrow> writer \<times> int" where
  "HiSysEvent_Write_domain masks we func line domain eventName type keyValues w =
     (if isMasked domain masks then (w, ERR_DOMAIN_MASKED)
      else HiSysEvent_Write_cpp we func line domain eventName type keyValues w)"

definition HiSysEventWrite ::
  "string \<Rightarrow> writer_env \<Rightarrow> string \<Rightarrow> 64 word \<Rightarrow> string \<Rightarrow> string \<Rightarrow> int \<Rightarrow> write_args \<Rightarrow> writer \<Rightarrow> writer \<times> int" where
  "HiSysEventWrite masks we func line domain eventName type keyValues w =
     (if \<not> isMasked domain masks
      then HiSysEvent_Write_domain masks we func line domain eventName type keyValues w
      else (w, ERR_DOMAIN_MASKED))"

definition HiSysEventInnerWrite ::
  "writer_env \<Rightarrow> string \<Rightarrow> 64 word \<Rightarrow> string \<Rightarrow> string \<Rightarrow> int \<Rightarrow> c_param list option \<Rightarrow> nat \<Rightarrow> writer \<Rightarrow> writer \<times> int" where
  "HiSysEventInnerWrite we func line domain name type params sz w =
     HiSysEvent_Write_cpp we func line domain name type (Params params sz) w"

definition HiSysEvent_Write ::
  "writer_env \<Rightarrow> string \<Rightarrow> 64 word \<Rightarrow> string option \<Rightarrow> string option \<Rightarrow> int \<Rightarrow> c_param list option \<Rightarrow> nat \<Rightarrow>
   writer \<Rightarrow> writer \<times> int" where
  "HiSysEvent_Write we func line domain name type params sz w =
     (case domain of None \<Rightarrow> (w, ERR_DOMAIN_NAME_INVALID)
      | Some d \<Rightarrow> (case name of None \<Rightarrow> (w, ERR_EVENT_NAME_INVALID)
          | Some n \<Rightarrow> HiSysEventInnerWrite we func line d n type params sz w))"

section \<open>The record that is sent\<close>

text \<open>
  Finishing the buffer twice, as \<^verbatim>\<open>SendSysEvent\<close> does, gives the same bytes as once.
\<close>

lemma finished_twice:
  assumes wf: "header_wf h" and rel: "event_rel env (head_bytes n0 h t c0) eb (ret, ps)"
    and off: "eb_paramCntWroteOffset eb = (if t = None then 84 else 101)"
    and room: "105 + length (concat (map param_bytes ps)) \<le> sink_limit env"
  shows "\<exists>eb1 eb2 rd1 rd. GetEventRawData env eb = (eb1, Some rd1) \<and> GetEventRawData env eb1 = (eb2, Some rd) \<and>
    eb_retCode eb2 = ret \<and> rd_ok env rd \<and>
    contents rd = head_bytes (length (contents rd)) h t (length ps) @ concat (map param_bytes ps)"
proof -
  obtain rd1 where rd1: "GetEventRawData env eb = (eb\<lparr>eb_rawData := Some rd1\<rparr>, Some rd1)" "rd_ok env rd1"
      "contents rd1 = head_bytes (length (contents rd1)) h t (length ps) @ concat (map param_bytes ps)"
    using GetEventRawData_finishes [OF wf rel off room] by blast
  let ?eb1 = "eb\<lparr>eb_rawData := Some rd1\<rparr>"
  have rel1: "event_rel env (head_bytes (length (contents rd1)) h t (length ps)) ?eb1 (ret, ps)"
    using rel rd1(2,3) by (auto simp: event_rel_def)
  have "eb_paramCntWroteOffset ?eb1 = (if t = None then 84 else 101)"
    using off by simp
  from GetEventRawData_finishes [OF wf rel1 this room] obtain rd where
      rd: "GetEventRawData env ?eb1 = (?eb1\<lparr>eb_rawData := Some rd\<rparr>, Some rd)" "rd_ok env rd"
      "contents rd = head_bytes (length (contents rd)) h t (length ps) @ concat (map param_bytes ps)"
    by blast
  have "eb_retCode (?eb1\<lparr>eb_rawData := Some rd\<rparr>) = ret"
    using rel by (simp add: event_rel_def)
  with rd1(1) rd show ?thesis by blast
qed

lemma ret_code_nonneg: "0 \<le> fst acc \<Longrightarrow> 0 \<le> fst (fold spec_step args acc)"
proof (induction args arbitrary: acc)
  case (Cons a args)
  have "0 \<le> warning v" for v
    by (cases v rule: warning.cases) (simp_all add: length_warning_def size_warning_def err_code_defs)
  then have "0 \<le> fst (spec_step a acc)"
    using Cons.prems by (cases a; cases acc; cases "snd a") (auto simp: err_code_defs)
  with Cons.IH show ?case by simp
qed simp

lemma names_no_error:
  assumes "IsValidName domain MAX_DOMAIN_LENGTH" "IsValidName name MAX_EVENT_NAME_LENGTH"
    and "mem_ok env" "33 \<le> memcpy_max env"
  shows "eb_retCode (EventBase_new env domain name type ts) = 0"
  by (simp add: EventBase_new_valid [OF assms] event_base_init_def)

lemma InnerWrite_event_sends:
  assumes names: "IsValidName domain MAX_DOMAIN_LENGTH" "IsValidName name MAX_EVENT_NAME_LENGTH"
    and env: "mem_ok (pe_mem pe)"
    and spec: "spec_write (arg_list args) = (ret, ps)"
    and room: "105 + length (concat (map param_bytes ps)) \<le> sink_limit (pe_mem pe)"
  shows "\<exists>rd. rd_ok (pe_mem pe) rd \<and>
    decode_event (contents rd) = Some (written_header pe domain name type ts, pe_hitrace pe, ps) \<and>
    contents rd = head_bytes (length (contents rd)) (written_header pe domain name type ts) (pe_hitrace pe)
      (length ps) @ concat (map param_bytes ps) \<and>
    InnerWrite_event os pe domain name type ts args tp =
      (case SendData os (pe_mem pe) rd tp of (tp', r) \<Rightarrow> (tp', if r \<noteq> SUCCESS then r else ret))"
proof -
  let ?env = "pe_mem pe" and ?h = "written_header pe domain name type ts"
  let ?eb1 = "WritebaseInfo pe (EventBase_new ?env domain name type ts)"
  let ?eb2 = "InnerWrite_args ?env args ?eb1"
  have wf: "header_wf ?h" by (rule written_header_wf [OF names])
  have max: "33 \<le> memcpy_max ?env" using room by (simp add: sink_limit_def)
  have room': "105 \<le> sink_limit ?env" using room by simp
  note rel = write_refines_spec [OF names env spec room refl, of type ts]
  have off: "eb_paramCntWroteOffset ?eb2 = (if pe_hitrace pe = None then 84 else 101)"
    using rel by (simp add: count_offset_def)
  obtain eb3 eb4 rd1 rd where rd: "GetEventRawData ?env ?eb2 = (eb3, Some rd1)"
      "GetEventRawData ?env eb3 = (eb4, Some rd)" "eb_retCode eb4 = ret" "rd_ok ?env rd"
      "contents rd = head_bytes (length (contents rd)) ?h (pe_hitrace pe) (length ps) @ concat (map param_bytes ps)"
    using finished_twice [OF wf conjunct1 [OF rel] off room] by blast
  have "length (contents rd) \<le> 105 + length (concat (map param_bytes ps))"
    by (subst rd(5)) (simp add: length_head_bytes [OF wf])
  then have "length (contents rd) < 2 ^ 32"
    using room sink_limit_bound [OF rd(4)] by simp
  moreover have "length ps < 2 ^ 32"
    using spec_write_count [of "arg_list args" "(SUCCESS, [])"] spec by (simp add: spec_write_def limit_defs)
  moreover have "hd_isTraceOpened ?h = (if pe_hitrace pe = None then 0 else 1)"
    by (simp add: written_header_def)
  ultimately have dec: "decode_event (contents rd) = Some (?h, pe_hitrace pe, ps)"
    using decode_event_head_bytes [OF wf _ rd(5)] by simp
  have e0: "\<not> IsError (EventBase_new ?env domain name type ts)"
    using names_no_error [OF names env max] by (simp add: IsError_def GetRetCode_def SUCCESS_def)
  have e1: "\<not> IsError ?eb1"
    using WritebaseInfo_head [OF names env room' refl, of type ts]
    by (auto simp: IsError_def GetRetCode_def event_rel_def SUCCESS_def)
  have "0 \<le> ret"
    using ret_code_nonneg [of "(SUCCESS, [])" "arg_list args"] spec by (simp add: spec_write_def SUCCESS_def)
  then have e2: "\<not> IsError ?eb2"
    using rel by (auto simp: IsError_def GetRetCode_def event_rel_def SUCCESS_def)
  have "InnerWrite_event os pe domain name type ts args tp =
      (case SendData os ?env rd tp of (tp', r) \<Rightarrow> (tp', if r \<noteq> SUCCESS then r else ret))"
    using e0 e1 e2 rd
    by (simp add: InnerWrite_event_def Let_def SendSysEvent_def GetRetCode_def SetRetCode_def split: prod.splits)
  with rd(4,5) dec show ?thesis by blast
qed
lemma limit_returns: "snd (limit_decision param r cur) \<in> {cur, INVALID_TIME_STAMP}"
  by (simp add: limit_decision_def Let_def)

lemma CheckLimit_returns:
  "snd (CheckLimitWritingEvent sg param ev func line cur c) \<in> {cur, INVALID_TIME_STAMP}"
  using limit_returns
  by (auto simp: CheckLimitWritingEvent_def check_with_def split: prod.splits) (metis insert_iff singletonD snd_conv)

section \<open>Properties\<close>

text \<open>
  \<open>admitted\<close>: the frequency limit lets the call pass.
\<close>

definition admitted :: "writer_env \<Rightarrow> string \<Rightarrow> 64 word \<Rightarrow> string \<Rightarrow> writer \<Rightarrow> bool" where
  "admitted we func line eventName w \<longleftrightarrow>
     snd (CheckLimitWritingEvent (we_char_signed we) (we_param we) eventName func line (we_now we) (wr_lru w))
       \<noteq> INVALID_TIME_STAMP"

lemma Write_admitted:
  assumes "admitted we func line eventName w"
  shows "HiSysEvent_Write_cpp we func line domain eventName type args w =
    (case InnerWrite_event (we_os we) (we_proc we) domain eventName type (we_now we) args (wr_transport w) of
       (tp, ret) \<Rightarrow> (w\<lparr>wr_lru := fst (CheckLimitWritingEvent (we_char_signed we) (we_param we) eventName func line
           (we_now we) (wr_lru w)), wr_transport := tp\<rparr>, ret))"
proof -
  obtain lru t where c: "CheckLimitWritingEvent (we_char_signed we) (we_param we) eventName func line
      (we_now we) (wr_lru w) = (lru, t)" by force
  have "t = we_now we"
    using CheckLimit_returns [of "we_char_signed we" "we_param we" eventName func line "we_now we" "wr_lru w"]
      assms c by (auto simp: admitted_def)
  with assms c show ?thesis
    by (simp add: HiSysEvent_Write_cpp_def admitted_def Let_def split: prod.splits)
qed

lemma write_outcome:
  assumes "admitted we func line name w"
    and "IsValidName domain MAX_DOMAIN_LENGTH" "IsValidName name MAX_EVENT_NAME_LENGTH"
    and "mem_ok (pe_mem (we_proc we))" "MAX_DATA_SIZE \<le> memcpy_max (pe_mem (we_proc we))"
    and "spec_write (arg_list args) = (ret, ps)"
    and "105 + length (concat (map param_bytes ps)) \<le> min MAX_DATA_SIZE (sink_limit (pe_mem (we_proc we)))"
    and "tp_ok (wr_transport w)"
    and "HiSysEvent_Write_cpp we func line domain name type args w = (w', code)"
  shows "\<exists>bytes k sent.
    decode_event bytes = Some (written_header (we_proc we) domain name type (we_now we),
      pe_hitrace (we_proc we), ps) \<and>
    delivered (tp_log (wr_transport w')) = delivered (tp_log (wr_transport w)) @
      take k (pending (wr_transport w)) @ (if sent then [bytes] else []) \<and>
    (if sent then code = ret \<and> pending (wr_transport w') = drop k (pending (wr_transport w))
     else code < 0 \<and> pending (wr_transport w') = enqueue bytes (drop k (pending (wr_transport w))))"
proof -
  let ?pe = "we_proc we" and ?os = "we_os we" and ?tp = "wr_transport w"
  have room: "105 + length (concat (map param_bytes ps)) \<le> sink_limit (pe_mem ?pe)"
    and size: "105 + length (concat (map param_bytes ps)) \<le> MAX_DATA_SIZE"
    using assms(7) by simp_all
  obtain rd where rd: "rd_ok (pe_mem ?pe) rd"
      "decode_event (contents rd) = Some (written_header ?pe domain name type (we_now we), pe_hitrace ?pe, ps)"
      "contents rd = head_bytes (length (contents rd)) (written_header ?pe domain name type (we_now we))
        (pe_hitrace ?pe) (length ps) @ concat (map param_bytes ps)"
      "InnerWrite_event ?os ?pe domain name type (we_now we) args ?tp =
        (case SendData ?os (pe_mem ?pe) rd ?tp of (tp', r) \<Rightarrow> (tp', if r \<noteq> SUCCESS then r else ret))"
    using InnerWrite_event_sends [OF assms(2,3,4,6) room] by blast
  obtain tp' r where s: "SendData ?os (pe_mem ?pe) rd ?tp = (tp', r)" by force
  have inv: "rd_inv rd" using rd(1) by (simp add: rd_ok_def)
  have "length (contents rd) \<le> 105 + length (concat (map param_bytes ps))"
    by (subst rd(3)) (simp add: length_head_bytes [OF written_header_wf [OF assms(2,3)]])
  with size have len: "length (contents rd) \<le> MAX_DATA_SIZE" by simp
  moreover have "contents rd \<noteq> []"
    using rd(2) by (auto simp: decode_event_def)
  ultimately have send: "sendable rd" by (simp add: sendable_def)
  have code: "wr_transport w' = tp'" "code = (if r \<noteq> SUCCESS then r else ret)"
    using assms(9) rd(4) s by (auto simp: Write_admitted [OF assms(1)])
  have "r \<in> {SUCCESS, ERR_DOES_NOT_INIT, ERR_SEND_FAIL}"
    using SendData_facts [OF s inv send] by blast
  then have "r \<noteq> SUCCESS \<Longrightarrow> r < 0" by (auto simp: err_code_defs)
  moreover obtain k where "delivered (tp_log tp') = delivered (tp_log ?tp) @ take k (pending ?tp) @
        (if r = SUCCESS then [contents rd] else [])"
      "pending tp' = (if r = SUCCESS then drop k (pending ?tp) else enqueue (contents rd) (drop k (pending ?tp)))"
    using SendData_pending [OF s assms(4,5,8) inv send] by blast
  ultimately show ?thesis
    using rd(2) code by (intro exI [of _ "contents rd"] exI [of _ k] exI [of _ "r = SUCCESS"]) auto
qed

text \<open>
  C1. Writing, end to end: an admitted call with valid names, whose record is within
  \<^verbatim>\<open>MAX_DATA_SIZE\<close>, produces one record that decodes to the header of the event (with the
  time of the call) and the accepted parameters; after a prefix of the waiting records,
  the record is handed to the event server exactly once and the caller gets the result
  code of the parameters, or the record waits for the next call and the caller gets a
  negative code.
\<close>

theorem write_end_to_end:
  assumes "admitted we func line name w"
    and "IsValidName domain MAX_DOMAIN_LENGTH" "IsValidName name MAX_EVENT_NAME_LENGTH"
    and "mem_ok (pe_mem (we_proc we))" "MAX_DATA_SIZE \<le> memcpy_max (pe_mem (we_proc we))"
    and "spec_write (arg_list args) = (ret, ps)"
    and "105 + length (concat (map param_bytes ps)) \<le> min MAX_DATA_SIZE (sink_limit (pe_mem (we_proc we)))"
    and "tp_ok (wr_transport w)"
    and "HiSysEvent_Write_cpp we func line domain name type args w = (w', code)"
  shows "\<exists>bytes k sent.
    decode_event bytes = Some (written_header (we_proc we) domain name type (we_now we),
      pe_hitrace (we_proc we), ps) \<and>
    delivered (tp_log (wr_transport w')) = delivered (tp_log (wr_transport w)) @
      take k (pending (wr_transport w)) @ (if sent then [bytes] else []) \<and>
    (if sent then code = ret \<and> pending (wr_transport w') = drop k (pending (wr_transport w))
     else code < 0 \<and> pending (wr_transport w') = enqueue bytes (drop k (pending (wr_transport w))))"
  using write_outcome [OF assms] .

definition std_we :: writer_env where
  "std_we = \<lparr>we_proc = std_pe, we_os = os_up, we_char_signed = True, we_param = default_param, we_now = 7000\<rparr>"

definition std_w :: writer where
  "std_w = \<lparr>wr_lru = EventWroteLruCache_new LRU_CACHE_DEFAULT_SIZE, wr_transport = empty_transport\<rparr>"

lemma first_call_admitted: "admitted std_we func line name std_w"
  by (simp add: admitted_def CheckLimitWritingEvent_def check_with_def Get_def std_w_def
      EventWroteLruCache_new_def std_we_def limit_decision_def empty_record_def INVALID_TIME_STAMP_def)

theorem write_end_to_end_witness:
  "\<exists>w' code bytes sent. HiSysEvent_Write_cpp std_we ''main'' 10 ''HIVIEW'' ''LOAD'' 4 (KeyValues [(''KEY'', VInt 5)]) std_w
      = (w', code) \<and>
    decode_event bytes = Some (written_header std_pe ''HIVIEW'' ''LOAD'' 4 7000, None, [(''KEY'', PSigned 5)]) \<and>
    delivered (tp_log (wr_transport w')) = (if sent then [bytes] else [])"
proof -
  let ?args = "KeyValues [(''KEY'', VInt 5)]"
  obtain w' code where w: "HiSysEvent_Write_cpp std_we ''main'' 10 ''HIVIEW'' ''LOAD'' 4 ?args std_w = (w', code)"
    by force
  have spec: "spec_write (arg_list ?args) = (SUCCESS, [(''KEY'', PSigned 5)])"
    by (simp add: spec_write_def name_eval)
  have pe: "we_proc std_we = std_pe" "pe_mem std_pe = std_env" "pe_hitrace std_pe = None" "we_now std_we = 7000"
    by (simp_all add: std_we_def std_pe_def)
  have len: "105 + length (concat (map param_bytes [(''KEY'', PSigned 5)])) \<le>
      min MAX_DATA_SIZE (sink_limit (pe_mem (we_proc std_we)))"
    unfolding pe
    by (simp add: param_bytes_def string_bytes_def varint_def varint_tail.simps [of 0] zigzag_def
        std_env_def sink_limit_def EXPAND_BUF_SIZE_def MAX_DATA_SIZE_def)
  have names: "IsValidName ''HIVIEW'' MAX_DOMAIN_LENGTH" "IsValidName ''LOAD'' MAX_EVENT_NAME_LENGTH"
    by (simp_all add: name_eval)
  have mem: "mem_ok (pe_mem (we_proc std_we))" "MAX_DATA_SIZE \<le> memcpy_max (pe_mem (we_proc std_we))"
    unfolding pe by (simp_all add: mem_ok_std_env) (simp add: std_env_def limit_defs)
  have tp: "tp_ok (wr_transport std_w)" "pending (wr_transport std_w) = []" "delivered (tp_log (wr_transport std_w)) = []"
    by (simp_all add: std_w_def tp_ok_def empty_transport_def pending_def)
  obtain bytes k sent where
      "decode_event bytes = Some (written_header (we_proc std_we) ''HIVIEW'' ''LOAD'' 4 (we_now std_we),
         pe_hitrace (we_proc std_we), [(''KEY'', PSigned 5)])"
      "delivered (tp_log (wr_transport w')) = delivered (tp_log (wr_transport std_w)) @
         take k (pending (wr_transport std_w)) @ (if sent then [bytes] else [])"
    using write_end_to_end [OF first_call_admitted names mem spec len tp(1) w] by blast
  with w tp pe show ?thesis
    by (intro exI [of _ w'] exI [of _ code] exI [of _ bytes] exI [of _ sent]) simp
qed

text \<open>
  C5. The result code tells the caller the truth: an admitted write with valid names and
  room for its record returns \<^verbatim>\<open>SUCCESS\<close> exactly when its record is handed over in the call
  and the call has at most \<^verbatim>\<open>MAX_PARAM_NUMBER\<close> parameters, every key is valid and every value
  is usable and within its size limit. A clean write whose record has to wait in the queue
  gets a negative code; one that is handed over with a parameter left out, shortened or too
  long gets a positive one.
\<close>

theorem write_success_iff_clean:
  assumes "admitted we func line name w"
    and "IsValidName domain MAX_DOMAIN_LENGTH" "IsValidName name MAX_EVENT_NAME_LENGTH"
    and "mem_ok (pe_mem (we_proc we))" "MAX_DATA_SIZE \<le> memcpy_max (pe_mem (we_proc we))"
    and "105 + length (concat (map param_bytes (snd (spec_write (arg_list args))))) \<le>
      min MAX_DATA_SIZE (sink_limit (pe_mem (we_proc we)))"
    and "tp_ok (wr_transport w)"
    and "HiSysEvent_Write_cpp we func line domain name type args w = (w', code)"
  shows "\<exists>bytes k sent.
    delivered (tp_log (wr_transport w')) = delivered (tp_log (wr_transport w)) @
      take k (pending (wr_transport w)) @ (if sent then [bytes] else []) \<and>
    pending (wr_transport w') = (if sent then drop k (pending (wr_transport w))
      else enqueue bytes (drop k (pending (wr_transport w)))) \<and>
    (code = SUCCESS \<longleftrightarrow>
      sent \<and> length (arg_list args) \<le> MAX_PARAM_NUMBER \<and> list_all clean_arg (arg_list args)) \<and>
    (code < 0 \<longleftrightarrow> \<not> sent)"
proof -
  obtain ret ps where spec: "spec_write (arg_list args) = (ret, ps)" by force
  have room: "105 + length (concat (map param_bytes ps)) \<le> min MAX_DATA_SIZE (sink_limit (pe_mem (we_proc we)))"
    using assms(6) by (simp add: spec)
  have ret: "0 \<le> ret" "ret = SUCCESS \<longleftrightarrow> length (arg_list args) \<le> MAX_PARAM_NUMBER \<and> list_all clean_arg (arg_list args)"
    using ret_code_nonneg [of "(SUCCESS, [])" "arg_list args"] spec_success_iff_clean [OF spec] spec
    by (simp_all add: spec_write_def SUCCESS_def)
  obtain bytes k sent where
      "delivered (tp_log (wr_transport w')) = delivered (tp_log (wr_transport w)) @
        take k (pending (wr_transport w)) @ (if sent then [bytes] else [])"
      "if sent then code = ret \<and> pending (wr_transport w') = drop k (pending (wr_transport w))
       else code < 0 \<and> pending (wr_transport w') = enqueue bytes (drop k (pending (wr_transport w)))"
    using write_outcome [OF assms(1-5) spec room assms(7,8)] by blast
  then show ?thesis
    using ret by (intro exI [of _ bytes] exI [of _ k] exI [of _ sent]) (auto simp: SUCCESS_def)
qed

theorem write_success_iff_clean_witness:
  "\<exists>w' code bytes sent. HiSysEvent_Write_cpp std_we ''main'' 10 ''HIVIEW'' ''LOAD'' 4 (KeyValues [(''KEY'', VInt 5)]) std_w
      = (w', code) \<and>
    delivered (tp_log (wr_transport w')) = (if sent then [bytes] else []) \<and> (code = SUCCESS \<longleftrightarrow> sent)"
proof -
  let ?args = "KeyValues [(''KEY'', VInt 5)]"
  obtain w' code where w: "HiSysEvent_Write_cpp std_we ''main'' 10 ''HIVIEW'' ''LOAD'' 4 ?args std_w = (w', code)"
    by force
  have pe: "pe_mem (we_proc std_we) = std_env"
    by (simp add: std_we_def std_pe_def)
  have spec: "snd (spec_write (arg_list ?args)) = [(''KEY'', PSigned 5)]"
    by (simp add: spec_write_def name_eval)
  have room: "105 + length (concat (map param_bytes (snd (spec_write (arg_list ?args))))) \<le>
      min MAX_DATA_SIZE (sink_limit (pe_mem (we_proc std_we)))"
    unfolding pe spec
    by (simp add: param_bytes_def string_bytes_def varint_def varint_tail.simps [of 0] zigzag_def
        std_env_def sink_limit_def EXPAND_BUF_SIZE_def MAX_DATA_SIZE_def)
  have names: "IsValidName ''HIVIEW'' MAX_DOMAIN_LENGTH" "IsValidName ''LOAD'' MAX_EVENT_NAME_LENGTH"
    by (simp_all add: name_eval)
  have mem: "mem_ok (pe_mem (we_proc std_we))" "MAX_DATA_SIZE \<le> memcpy_max (pe_mem (we_proc std_we))"
    unfolding pe by (simp_all add: mem_ok_std_env) (simp add: std_env_def limit_defs)
  have tp: "tp_ok (wr_transport std_w)" "pending (wr_transport std_w) = []" "delivered (tp_log (wr_transport std_w)) = []"
    by (simp_all add: std_w_def tp_ok_def empty_transport_def pending_def)
  have clean: "length (arg_list ?args) \<le> MAX_PARAM_NUMBER" "list_all clean_arg (arg_list ?args)"
    by (simp_all add: limit_defs clean_arg_def name_eval)
  obtain bytes k sent where
      "delivered (tp_log (wr_transport w')) = delivered (tp_log (wr_transport std_w)) @
         take k (pending (wr_transport std_w)) @ (if sent then [bytes] else [])"
      "code = SUCCESS \<longleftrightarrow>
        sent \<and> length (arg_list ?args) \<le> MAX_PARAM_NUMBER \<and> list_all clean_arg (arg_list ?args)"
    using write_success_iff_clean [OF first_call_admitted names mem room tp(1) w] by blast
  with w tp clean show ?thesis
    by (intro exI [of _ w'] exI [of _ code] exI [of _ bytes] exI [of _ sent]) simp
qed

text \<open>
  C9. A refused event reaches nobody: a masked domain, an exceeded frequency, an invalid
  domain or an invalid event name each give their own code, and neither the socket log nor
  the queue of waiting records changes; a masked call does not even count for the
  frequency limit.
\<close>

theorem write_refusals:
  "(isMasked domain masks \<longrightarrow>
      HiSysEventWrite masks we func line domain name type args w = (w, ERR_DOMAIN_MASKED)) \<and>
   (\<not> isMasked domain masks \<and> \<not> admitted we func line name w \<longrightarrow>
      snd (HiSysEventWrite masks we func line domain name type args w) = ERR_WRITE_IN_HIGH_FREQ \<and>
      wr_transport (fst (HiSysEventWrite masks we func line domain name type args w)) = wr_transport w) \<and>
   (\<not> isMasked domain masks \<and> admitted we func line name w \<and> \<not> IsValidName domain MAX_DOMAIN_LENGTH \<longrightarrow>
      snd (HiSysEventWrite masks we func line domain name type args w) = ERR_DOMAIN_NAME_INVALID \<and>
      wr_transport (fst (HiSysEventWrite masks we func line domain name type args w)) = wr_transport w) \<and>
   (\<not> isMasked domain masks \<and> admitted we func line name w \<and> IsValidName domain MAX_DOMAIN_LENGTH \<and>
      \<not> IsValidName name MAX_EVENT_NAME_LENGTH \<longrightarrow>
      snd (HiSysEventWrite masks we func line domain name type args w) = ERR_EVENT_NAME_INVALID \<and>
      wr_transport (fst (HiSysEventWrite masks we func line domain name type args w)) = wr_transport w)"
proof -
  let ?tp = "wr_transport w"
  have macro: "HiSysEventWrite masks we func line domain name type args w =
      HiSysEvent_Write_cpp we func line domain name type args w" if "\<not> isMasked domain masks"
    using that by (simp add: HiSysEventWrite_def HiSysEvent_Write_domain_def)
  have freq: "snd (HiSysEvent_Write_cpp we func line domain name type args w) = ERR_WRITE_IN_HIGH_FREQ \<and>
      wr_transport (fst (HiSysEvent_Write_cpp we func line domain name type args w)) = ?tp"
    if "\<not> admitted we func line name w"
    using that by (auto simp: HiSysEvent_Write_cpp_def admitted_def Let_def split: prod.splits)
  have bad: "InnerWrite_event (we_os we) (we_proc we) domain name type (we_now we) args ?tp =
      (?tp, if IsValidName domain MAX_DOMAIN_LENGTH then ERR_EVENT_NAME_INVALID else ERR_DOMAIN_NAME_INVALID)"
    if "\<not> IsValidName domain MAX_DOMAIN_LENGTH \<or> \<not> IsValidName name MAX_EVENT_NAME_LENGTH"
    using that
    by (auto simp: InnerWrite_event_def EventBase_new_def Let_def IsError_def GetRetCode_def SetRetCode_def
        err_code_defs ExplainThenReturnRetCode_def explain_index_def)
  show ?thesis
    using macro freq bad by (auto simp: Write_admitted HiSysEventWrite_def split: prod.splits)
qed

theorem write_refusals_witness:
  "HiSysEventWrite ''ACE'' std_we ''main'' 10 ''ACE'' ''LOAD'' 4 (KeyValues []) std_w = (std_w, ERR_DOMAIN_MASKED)"
proof -
  have "isMasked ''ACE'' ''ACE''"
    by (simp add: isMasked_def IsMaskedImpl.simps find_bar_def substr_def size_diff_def)
  with write_refusals show ?thesis by blast
qed

text \<open>
  C10. The C entry point is the C++ one: with non-null names it is the C++ write of the
  values that its parameters stand for, so everything proved of one holds of the other;
  a null domain or name gives the code of an invalid one and changes nothing.
\<close>

theorem C_write_is_Cpp_write:
  assumes "\<forall>p \<in> set ps. cpp_of p \<noteq> None"
  shows "HiSysEvent_Write we func line (Some d) (Some n) type (Some ps) (length ps) w =
      HiSysEvent_Write_cpp we func line d n type (KeyValues (map (\<lambda>p. (cp_name p, the (cpp_of p))) ps)) w \<and>
    HiSysEvent_Write we func line None name type params sz w = (w, ERR_DOMAIN_NAME_INVALID) \<and>
    HiSysEvent_Write we func line (Some d) None type params sz w = (w, ERR_EVENT_NAME_INVALID)"
proof -
  have "arg_list (Params (Some ps) (length ps)) = map (\<lambda>p. (cp_name p, cpp_of p)) (map (\<lambda>i. ps ! i) [0..<length ps])"
    by simp
  also have "map (\<lambda>i. ps ! i) [0..<length ps] = ps"
    by (rule map_nth)
  also have "map (\<lambda>p. (cp_name p, cpp_of p)) ps = arg_list (KeyValues (map (\<lambda>p. (cp_name p, the (cpp_of p))) ps))"
    using assms by simp
  finally have "InnerWrite_args env (Params (Some ps) (length ps)) =
      InnerWrite_args env (KeyValues (map (\<lambda>p. (cp_name p, the (cpp_of p))) ps))" for env
    by (simp add: fun_eq_iff InnerWrite_args_fold)
  then show ?thesis
    by (simp only: HiSysEvent_Write_def HiSysEventInnerWrite_def HiSysEvent_Write_cpp_def InnerWrite_event_def
        option.case)
qed

definition std_param :: c_param where
  "std_param = \<lparr>cp_name = ''KEY'', cp_t = 6,
     cp_v = \<lparr>cv_bits = 5, cv_s = None, cv_array = None, cv_strs = None\<rparr>, cp_arraySize = 0\<rparr>"

theorem C_write_is_Cpp_write_witness:
  "HiSysEvent_Write std_we ''main'' 10 (Some ''HIVIEW'') (Some ''LOAD'') 4 (Some [std_param]) 1 std_w =
     HiSysEvent_Write_cpp std_we ''main'' 10 ''HIVIEW'' ''LOAD'' 4 (KeyValues [(''KEY'', VInt 5)]) std_w"
proof -
  have v: "cpp_of std_param = Some (VInt 5)" "cp_name std_param = ''KEY''"
    by (simp_all add: std_param_def cpp_of_def)
  then have "\<forall>p \<in> set [std_param]. cpp_of p \<noteq> None" by simp
  from C_write_is_Cpp_write [OF this, of std_we "''main''" 10 "''HIVIEW''" "''LOAD''" 4 std_w] v
  show ?thesis by simp
qed

end
