(* ===== verification/EasyWriter.thy ===== *)
theory EasyWriter
  imports Transport
begin

unbundle bit_operations_syntax

text \<open>
  The C writer of \<^verbatim>\<open>hisysevent_easy\<close>: it encodes one event with one string parameter into
  a fixed buffer of \<^verbatim>\<open>EVENT_BUFF_LEN\<close> bytes and sends it to the event socket. The theory
  models all of its files, proves that the buffer decodes to the event, that its encoder
  writes the same bytes as the C++ one, and describes every refusal.
\<close>

section \<open>Constants (easy_def.h, hisysevent_easy.h)\<close>

definition EVENT_BUFF_LEN :: nat where "EVENT_BUFF_LEN = 1120"
definition EASY_ERR_DOMAIN_INVALID :: int where "EASY_ERR_DOMAIN_INVALID = -1"
definition EASY_ERR_NAME_INVALID :: int where "EASY_ERR_NAME_INVALID = -2"
definition EASY_ERR_TYPE_INVALID :: int where "EASY_ERR_TYPE_INVALID = -3"
definition EASY_ERR_PARAM_VALUE_INVALID :: int where "EASY_ERR_PARAM_VALUE_INVALID = -4"
definition EASY_ERR_EVENT_BUF_INVALID :: int where "EASY_ERR_EVENT_BUF_INVALID = -5"
definition EASY_ERR_ENCODE_STR_FAILED :: int where "EASY_ERR_ENCODE_STR_FAILED = -6"
definition EASY_ERR_ENCODE_VALUE_TYPE_FAILED :: int where "EASY_ERR_ENCODE_VALUE_TYPE_FAILED = -7"
definition EASY_ERR_MEM_OPT_FAILED :: int where "EASY_ERR_MEM_OPT_FAILED = -8"
definition EASY_ERR_INIT_SOCKET_FAILED :: int where "EASY_ERR_INIT_SOCKET_FAILED = -9"
definition EASY_ERR_SET_SOCKET_OPT_FAILED :: int where "EASY_ERR_SET_SOCKET_OPT_FAILED = -10"
definition EASY_ERR_SOCKET_SEND_ERROR_BASE :: int where "EASY_ERR_SOCKET_SEND_ERROR_BASE = -1000"
definition DATA_MAX_LEN :: nat where "DATA_MAX_LEN = 1024"
definition STR_PARAM_VALUE_TYPE :: nat where "STR_PARAM_VALUE_TYPE = 12"
definition CUSTOMIZED_PARAM_KEY :: string where "CUSTOMIZED_PARAM_KEY = ''DATA''"

lemmas easy_err_defs = EASY_ERR_DOMAIN_INVALID_def EASY_ERR_NAME_INVALID_def EASY_ERR_TYPE_INVALID_def
  EASY_ERR_PARAM_VALUE_INVALID_def EASY_ERR_EVENT_BUF_INVALID_def EASY_ERR_ENCODE_STR_FAILED_def
  EASY_ERR_ENCODE_VALUE_TYPE_FAILED_def EASY_ERR_MEM_OPT_FAILED_def EASY_ERR_INIT_SOCKET_FAILED_def
  EASY_ERR_SET_SOCKET_OPT_FAILED_def EASY_ERR_SOCKET_SEND_ERROR_BASE_def SUCCESS_def

section \<open>Memory (easy_util.c)\<close>

text \<open>
  \<open>MemoryCopy mem pos destLen src\<close> copies \<open>src\<close> to index \<open>pos\<close> of \<open>mem\<close>, where
  \<open>destLen\<close> bytes are available.
\<close>

definition MemoryInit :: "nat \<Rightarrow> byte list" where
  "MemoryInit dataLen = replicate dataLen 0"

definition MemoryCopy :: "byte list \<Rightarrow> nat \<Rightarrow> nat \<Rightarrow> byte list \<Rightarrow> byte list \<times> int" where
  "MemoryCopy mem pos destLen src =
     (if destLen < length src then (mem, EASY_ERR_MEM_OPT_FAILED) else (splice_at pos src mem, SUCCESS))"

section \<open>The encoder (easy_event_encoder.c)\<close>

text \<open>The event buffer and the offset, which the functions receive as two pointers.\<close>

record easy_buf =
  yb_data :: "byte list"
  yb_offset :: nat

definition EASY_TAG_BYTE_OFFSET :: nat where "EASY_TAG_BYTE_OFFSET = 5"
definition EASY_TAG_BYTE_BOUND :: u32 where "EASY_TAG_BYTE_BOUND = push_bit EASY_TAG_BYTE_OFFSET 1"
definition EASY_TAG_BYTE_MASK :: u32 where "EASY_TAG_BYTE_MASK = EASY_TAG_BYTE_BOUND - 1"
definition EASY_NON_TAG_BYTE_OFFSET :: nat where "EASY_NON_TAG_BYTE_OFFSET = 7"
definition EASY_NON_TAG_BYTE_BOUND :: u32 where "EASY_NON_TAG_BYTE_BOUND = push_bit EASY_NON_TAG_BYTE_OFFSET 1"
definition EASY_NON_TAG_BYTE_MASK :: u32 where "EASY_NON_TAG_BYTE_MASK = EASY_NON_TAG_BYTE_BOUND - 1"
definition LENGTH_DELIMITED_ENCODE_TYPE :: byte where "LENGTH_DELIMITED_ENCODE_TYPE = 1"
definition VAR_INT_ENCODE_SUCCESS :: int where "VAR_INT_ENCODE_SUCCESS = 0"
definition VAR_INT_ENCODE_FAIL :: int where "VAR_INT_ENCODE_FAIL = 1"

lemmas easy_varint_consts = EASY_TAG_BYTE_OFFSET_def EASY_TAG_BYTE_BOUND_def EASY_TAG_BYTE_MASK_def
  EASY_NON_TAG_BYTE_OFFSET_def EASY_NON_TAG_BYTE_BOUND_def EASY_NON_TAG_BYTE_MASK_def

definition Easy_EncodeTag :: "byte \<Rightarrow> byte" where
  "Easy_EncodeTag encodeType = push_bit (EASY_TAG_BYTE_OFFSET + 1) encodeType"

definition put_byte :: "nat \<Rightarrow> byte \<Rightarrow> easy_buf \<Rightarrow> easy_buf \<times> int" where
  "put_byte dataLen cpyVal s =
     (if dataLen < yb_offset s \<or> dataLen - yb_offset s < 1 then (s, VAR_INT_ENCODE_FAIL)
      else (s\<lparr>yb_data := (yb_data s)[yb_offset s := cpyVal], yb_offset := yb_offset s + 1\<rparr>,
            VAR_INT_ENCODE_SUCCESS))"

text \<open>The operands of the alternatives are truncated to a byte by the assignment.\<close>

definition easy_tag_byte :: "byte \<Rightarrow> u64 \<Rightarrow> byte" where
  "easy_tag_byte encodeType u64Val =
     Easy_EncodeTag encodeType OR
     (if u64Val < ucast EASY_TAG_BYTE_BOUND then 0 else ucast EASY_TAG_BYTE_BOUND) OR
     ucast (u64Val AND ucast EASY_TAG_BYTE_MASK)"

definition easy_non_tag_byte :: "u64 \<Rightarrow> byte" where
  "easy_non_tag_byte u64Val =
     (if u64Val < ucast EASY_NON_TAG_BYTE_BOUND then 0 else ucast EASY_NON_TAG_BYTE_BOUND) OR
     ucast (u64Val AND ucast EASY_NON_TAG_BYTE_MASK)"

lemma unat_easy_drop_7: "unat (drop_bit EASY_NON_TAG_BYTE_OFFSET val) = unat (val :: u64) div 128"
  by (simp add: easy_varint_consts drop_bit_eq_div unat_div)

function easy_varint_loop :: "nat \<Rightarrow> u64 \<Rightarrow> easy_buf \<Rightarrow> easy_buf \<times> int" where
  "easy_varint_loop dataLen u64Val s =
     (if u64Val > 0 then
        (case put_byte dataLen (easy_non_tag_byte u64Val) s of (s', ret) \<Rightarrow>
           if ret \<noteq> VAR_INT_ENCODE_SUCCESS then (s', ret)
           else easy_varint_loop dataLen (drop_bit EASY_NON_TAG_BYTE_OFFSET u64Val) s')
      else (s, VAR_INT_ENCODE_SUCCESS))"
  by pat_completeness auto
termination
  by (relation "measure (\<lambda>(dataLen, val, s). unat val)")
     (auto simp: unat_easy_drop_7 unat_gt_0 div_less_dividend)

declare easy_varint_loop.simps [simp del]

definition EncodeUnsignedVarint :: "nat \<Rightarrow> byte \<Rightarrow> u64 \<Rightarrow> easy_buf \<Rightarrow> easy_buf \<times> int" where
  "EncodeUnsignedVarint dataLen encodeType u64Val s =
     (case put_byte dataLen (easy_tag_byte encodeType u64Val) s of (s', ret) \<Rightarrow>
        if ret \<noteq> VAR_INT_ENCODE_SUCCESS then (s', ret)
        else easy_varint_loop dataLen (drop_bit EASY_TAG_BYTE_OFFSET u64Val) s')"

text \<open>\<^verbatim>\<open>struct HiSysEventEasyParamValueType\<close> has the layout of \<^verbatim>\<open>ParamValueType\<close>.\<close>

definition Easy_EncodeValueType :: "nat \<Rightarrow> byte \<Rightarrow> easy_buf \<Rightarrow> easy_buf \<times> int" where
  "Easy_EncodeValueType dataLen valueType s =
     (if dataLen < yb_offset s \<or> dataLen - yb_offset s < 1 then (s, EASY_ERR_ENCODE_VALUE_TYPE_FAILED)
      else (s\<lparr>yb_data := (yb_data s)[yb_offset s := valueType], yb_offset := yb_offset s + 1\<rparr>, SUCCESS))"

definition append_content :: "nat \<Rightarrow> byte list \<Rightarrow> easy_buf \<Rightarrow> easy_buf \<times> int" where
  "append_content dataLen content s =
     (if dataLen < yb_offset s \<or> dataLen - yb_offset s < length content then (s, EASY_ERR_ENCODE_STR_FAILED)
      else case MemoryCopy (yb_data s) (yb_offset s) (dataLen - yb_offset s) content of (mem, cpyRet) \<Rightarrow>
        if cpyRet \<noteq> SUCCESS then (s\<lparr>yb_data := mem\<rparr>, cpyRet)
        else (s\<lparr>yb_data := mem, yb_offset := yb_offset s + length content\<rparr>, SUCCESS))"

definition EncodeStringValue :: "nat \<Rightarrow> string option \<Rightarrow> easy_buf \<Rightarrow> easy_buf \<times> int" where
  "EncodeStringValue dataLen content s = (case content of
     None \<Rightarrow> (s, EASY_ERR_EVENT_BUF_INVALID)
   | Some c \<Rightarrow>
       let contentLen = length c in
       case EncodeUnsignedVarint dataLen LENGTH_DELIMITED_ENCODE_TYPE (of_nat contentLen) s of (s1, ret) \<Rightarrow>
         if ret \<noteq> VAR_INT_ENCODE_SUCCESS then (s1, EASY_ERR_ENCODE_STR_FAILED)
         else append_content dataLen (bytes_of_string c) s1)"

section \<open>The builder (easy_event_builder.c)\<close>

text \<open>\<^verbatim>\<open>HiSysEventEasyHeader\<close> has the members of \<^verbatim>\<open>HiSysEventHeader\<close> in the same layout.\<close>

definition AppendHeader :: "nat \<Rightarrow> HiSysEventHeader \<Rightarrow> easy_buf \<Rightarrow> easy_buf \<times> int" where
  "AppendHeader bufferLen header s =
     (if bufferLen < yb_offset s \<or> bufferLen - yb_offset s < sizeof_HiSysEventHeader
      then (s, EASY_ERR_MEM_OPT_FAILED)
      else (s\<lparr>yb_data := splice_at (yb_offset s) (header_bytes header) (yb_data s),
              yb_offset := yb_offset s + sizeof_HiSysEventHeader\<rparr>, SUCCESS))"

text \<open>\<open>seq_ok op1 op2\<close>: \<^verbatim>\<open>ret = op1(); if (ret != SUCCESS) { return ret; } return op2();\<close>\<close>

definition seq_ok :: "('s \<Rightarrow> 's \<times> int) \<Rightarrow> ('s \<Rightarrow> 's \<times> int) \<Rightarrow> 's \<Rightarrow> 's \<times> int" where
  "seq_ok op1 op2 s = (case op1 s of (s1, ret) \<Rightarrow> if ret \<noteq> SUCCESS then (s1, ret) else op2 s1)"

definition Easy_AppendStringParam ::
  "nat \<Rightarrow> string option \<Rightarrow> string option \<Rightarrow> easy_buf \<Rightarrow> easy_buf \<times> int" where
  "Easy_AppendStringParam bufferLen key val s =
     (if key = None then (s, EASY_ERR_EVENT_BUF_INVALID)
      else case val of
        None \<Rightarrow> (s, EASY_ERR_PARAM_VALUE_INVALID)
      | Some v \<Rightarrow>
          if length v > DATA_MAX_LEN then (s, EASY_ERR_PARAM_VALUE_INVALID)
          else seq_ok (EncodeStringValue bufferLen key)
                (seq_ok (Easy_EncodeValueType bufferLen (ParamValueType 0 STR_PARAM_VALUE_TYPE 0))
                  (EncodeStringValue bufferLen val)) s)"

section \<open>The socket (easy_socket_writer.c)\<close>

definition SOCKET_PATH :: string where
  "SOCKET_PATH = ''/dev/unix/socket/hisysevent''"

text \<open>
  The address is two bytes of family and a path of 108 bytes; \<open>sun_path\<close> reads the path.
\<close>

definition Easy_InitSocket :: "byte list \<times> int" where
  "Easy_InitSocket =
     (case MemoryCopy (MemoryInit 110) 2 108 (bytes_of_string SOCKET_PATH) of (socketAddr, ret) \<Rightarrow>
        if ret \<noteq> SUCCESS then (socketAddr, ret)
        else (splice_at 0 (le_bytes 2 1) socketAddr, SUCCESS))"

definition sun_path :: "byte list \<Rightarrow> string" where
  "sun_path socketAddr = c_string (drop 2 socketAddr)"

fun Easy_send_loop :: "os_env \<Rightarrow> int \<Rightarrow> string \<Rightarrow> byte list \<Rightarrow> nat \<Rightarrow> syscall list \<Rightarrow> syscall list \<times> int \<times> errno" where
  "Easy_send_loop os socketId path data retryTimes log =
     (let (sendRet, err) = os_sendto os log socketId path data;
          log = log @ [SendTo socketId path data sendRet];
          retryTimes = retryTimes - 1 in
      if sendRet < 0 \<and> retryTimes > 0 \<and> (err = EAGAIN \<or> err = EWOULDBLOCK \<or> err = EINTR)
      then Easy_send_loop os socketId path data retryTimes log
      else (log, sendRet, err))"

declare Easy_send_loop.simps [simp del]

text \<open>
  When no socket could be made, the code still closes the negative descriptor. After a failed
  \<^verbatim>\<open>sendto\<close> it reads \<^verbatim>\<open>errno\<close> only behind \<^verbatim>\<open>close\<close>, which may have changed it.
\<close>

definition Easy_Write :: "os_env \<Rightarrow> byte list \<Rightarrow> syscall list \<Rightarrow> syscall list \<times> int" where
  "Easy_Write os data log =
     (let socketId = os_socket os log;
          log = log @ [SocketOpen socketId] in
      if socketId < 0 then (log @ [Close socketId], EASY_ERR_INIT_SOCKET_FAILED)
      else
        let optRet = os_setsockopt os log socketId;
            log = log @ [SetSndBuf socketId (384 * 1024)] in
        if optRet < 0 then (log @ [Close socketId], EASY_ERR_SET_SOCKET_OPT_FAILED)
        else
          let (socketAddr, ret) = Easy_InitSocket in
          if ret \<noteq> SUCCESS then (log @ [Close socketId], ret)
          else
            let (log, sendRet, err) = Easy_send_loop os socketId (sun_path socketAddr) data 3 log in
            if sendRet < 0
            then (log @ [Close socketId], EASY_ERR_SOCKET_SEND_ERROR_BASE + os_close_errno os log socketId err)
            else (log @ [Close socketId], SUCCESS))"

section \<open>The entry point (hisysevent_easy.c)\<close>

text \<open>
  What the process and the clock answer; \<open>ee_status\<close> are the characters that can be read
  from \<^verbatim>\<open>/proc/self/status\<close>, \<open>None\<close> when it cannot be opened. The static \<^verbatim>\<open>gPid\<close> and the
  log of system calls are the state.
\<close>

record easy_env =
  ee_tv_sec :: int
  ee_tv_nsec :: int
  ee_timezone :: int
  ee_status :: "string option"
  ee_getpid :: int
  ee_gettid :: u32
  ee_getuid :: u32

record easy_state =
  es_gPid :: int
  es_log :: "syscall list"

definition INVALID_PID :: int where "INVALID_PID = 0"
definition LINE_BUF_SIZE :: nat where "LINE_BUF_SIZE = 1024"

definition GetTimestamp :: "easy_env \<Rightarrow> 64 word" where
  "GetTimestamp ee = of_int (ee_tv_sec ee * 1000) + of_int (ee_tv_nsec ee div 1000000)"

definition easy_allTimeZones :: "int list" where
  "easy_allTimeZones =
    [3600, 7200, 10800, 11880, 14400, 18000, 21600,
     25200, 28800, 32400, 33480, 36000, 39600, 43200,
     0, -3600, -7200, -10800, -11880, -14400, 15480,
     -18000, -19080, -19620, -21600, -22680, -25200, -28800,
     -30420, -32400, -33480, -36000, -37080, -39600, -43200,
     -44820, -46800, -50400]"

fun Easy_ParseTimeZone_loop :: "int \<Rightarrow> int list \<Rightarrow> byte \<Rightarrow> byte" where
  "Easy_ParseTimeZone_loop tz [] index = 14"
| "Easy_ParseTimeZone_loop tz (z # zs) index =
     (if z = tz then index else Easy_ParseTimeZone_loop tz zs (index + 1))"

definition Easy_ParseTimeZone :: "int \<Rightarrow> byte" where
  "Easy_ParseTimeZone tz = Easy_ParseTimeZone_loop tz easy_allTimeZones 0"

definition CheckEventType :: "nat \<Rightarrow> int" where
  "CheckEventType eventType = (if eventType < 1 \<or> eventType > 4 then EASY_ERR_TYPE_INVALID else SUCCESS)"

text \<open>
  The format \<^verbatim>\<open>%*[^0-9]%d\<close>: a non-empty run of characters that are not digits, then a
  decimal number.
\<close>

definition digit_char :: "char \<Rightarrow> bool" where
  "digit_char c \<longleftrightarrow> 48 \<le> (of_char c :: nat) \<and> of_char c \<le> (57 :: nat)"

definition digits_value :: "string \<Rightarrow> int" where
  "digits_value ds = foldl (\<lambda>n c. 10 * n + (of_char c - 48)) 0 ds"

definition scan_pid :: "string \<Rightarrow> int option" where
  "scan_pid buf =
     (let skipped = takeWhile (\<lambda>c. \<not> digit_char c) buf;
          number = takeWhile digit_char (dropWhile (\<lambda>c. \<not> digit_char c) buf) in
      if skipped = [] \<or> number = [] then None else Some (digits_value number))"

definition ReadPidFromFormatStr :: "string \<Rightarrow> int" where
  "ReadPidFromFormatStr buf = (case scan_pid buf of None \<Rightarrow> INVALID_PID | Some pid \<Rightarrow> pid)"

text \<open>
  The reading loop: the first argument are the characters still to be read, the second the
  characters in \<^verbatim>\<open>buf\<close>, whose number is \<^verbatim>\<open>pos\<close>.
\<close>

fun GetRealPid_loop :: "string \<Rightarrow> string \<Rightarrow> int" where
  "GetRealPid_loop [] buf = INVALID_PID"
| "GetRealPid_loop (curChar # rest) buf =
     (if curChar = CHR 0x00 then INVALID_PID
      else if curChar = CHR 0x0A \<or> length buf = LINE_BUF_SIZE then
        (if take 4 buf = ''Pid:'' then ReadPidFromFormatStr buf
         else GetRealPid_loop rest [])
      else GetRealPid_loop rest (buf @ [curChar]))"

definition GetRealPid :: "easy_env \<Rightarrow> int" where
  "GetRealPid ee = (case ee_status ee of None \<Rightarrow> INVALID_PID | Some cs \<Rightarrow> GetRealPid_loop cs [])"

definition InitEventHeader ::
  "easy_env \<Rightarrow> HiSysEventHeader \<Rightarrow> string \<Rightarrow> string \<Rightarrow> nat \<Rightarrow> easy_state \<Rightarrow> easy_state \<times> HiSysEventHeader \<times> int" where
  "InitEventHeader ee header domain name eventType st =
     (case MemoryCopy (hd_domain header) 0 (MAX_DOMAIN_LENGTH + 1) (bytes_of_string domain) of (d, dret) \<Rightarrow>
        if dret \<noteq> SUCCESS then (st, header, EASY_ERR_MEM_OPT_FAILED)
        else case MemoryCopy (hd_name header) 0 (MAX_EVENT_NAME_LENGTH + 1) (bytes_of_string name) of (n, nret) \<Rightarrow>
          if nret \<noteq> SUCCESS then (st, header\<lparr>hd_domain := d\<rparr>, EASY_ERR_MEM_OPT_FAILED)
          else
            let gPid = (if es_gPid st = INVALID_PID then GetRealPid ee else es_gPid st);
                pid = (if gPid \<noteq> INVALID_PID then gPid else ee_getpid ee) in
            (st\<lparr>es_gPid := gPid\<rparr>,
             header\<lparr>hd_domain := d, hd_name := n, hd_type := (eventType - 1) mod 4,
               hd_timestamp := GetTimestamp ee, hd_timeZone := Easy_ParseTimeZone (ee_timezone ee),
               hd_pid := of_int pid, hd_tid := ee_gettid ee, hd_uid := ee_getuid ee,
               hd_isTraceOpened := 0\<rparr>, SUCCESS))"

text \<open>The event is built in a local buffer; the steps after the header share one offset.\<close>

definition AppendParamCount :: "easy_buf \<Rightarrow> easy_buf \<times> int" where
  "AppendParamCount s =
     (if yb_offset s + 4 > EVENT_BUFF_LEN then (s, EASY_ERR_EVENT_BUF_INVALID)
      else (s\<lparr>yb_data := splice_at (yb_offset s) (le_bytes 4 1) (yb_data s), yb_offset := yb_offset s + 4\<rparr>,
            SUCCESS))"

definition HiSysEventEasyWrite ::
  "os_env \<Rightarrow> easy_env \<Rightarrow> string option \<Rightarrow> string option \<Rightarrow> int \<Rightarrow> string option \<Rightarrow> easy_state \<Rightarrow>
   easy_state \<times> int" where
  "HiSysEventEasyWrite os ee domain name eventType data st =
     (case domain of None \<Rightarrow> (st, EASY_ERR_DOMAIN_INVALID) | Some d \<Rightarrow>
      if length d > MAX_DOMAIN_LENGTH then (st, EASY_ERR_DOMAIN_INVALID) else
      case name of None \<Rightarrow> (st, EASY_ERR_NAME_INVALID) | Some n \<Rightarrow>
      if length n > MAX_EVENT_NAME_LENGTH then (st, EASY_ERR_NAME_INVALID) else
      let type = nat (eventType mod 256); ret = CheckEventType type in
      if ret \<noteq> SUCCESS then (st, ret) else
      let eventBuffer = splice_at 0 (le_bytes 4 EVENT_BUFF_LEN) (replicate EVENT_BUFF_LEN 0);
          buf = \<lparr>yb_data = eventBuffer, yb_offset = 4\<rparr> in
      case InitEventHeader ee empty_header d n type st of (st1, header, ret1) \<Rightarrow>
      if ret1 \<noteq> SUCCESS then (st1, ret1) else
      case seq_ok (AppendHeader EVENT_BUFF_LEN header)
             (seq_ok AppendParamCount
               (Easy_AppendStringParam EVENT_BUFF_LEN (Some CUSTOMIZED_PARAM_KEY) data)) buf of (buf1, ret2) \<Rightarrow>
      if ret2 \<noteq> SUCCESS then (st1, ret2) else
      case Easy_Write os (yb_data buf1) (es_log st1) of (log, ret3) \<Rightarrow> (st1\<lparr>es_log := log\<rparr>, ret3))"

section \<open>The event buffer is a byte sink\<close>

text \<open>
  \<open>flag op\<close> reads a result code as success or failure. In a good buffer everything behind
  the offset is still zero.
\<close>

definition flag :: "('s \<Rightarrow> 's \<times> int) \<Rightarrow> 's \<Rightarrow> 's \<times> bool" where
  "flag op s = (case op s of (s', ret) \<Rightarrow> (s', ret = SUCCESS))"

definition easy_contents :: "easy_buf \<Rightarrow> byte list" where
  "easy_contents s = take (yb_offset s) (yb_data s)"

definition easy_ok :: "nat \<Rightarrow> easy_buf \<Rightarrow> bool" where
  "easy_ok n s \<longleftrightarrow> length (yb_data s) = n \<and> yb_offset s \<le> n \<and>
     drop (yb_offset s) (yb_data s) = replicate (n - yb_offset s) 0"

lemma length_easy_contents: "easy_ok n s \<Longrightarrow> length (easy_contents s) = yb_offset s"
  by (simp add: easy_ok_def easy_contents_def)

lemma easy_data: "easy_ok n s \<Longrightarrow> yb_data s = easy_contents s @ replicate (n - yb_offset s) 0"
  by (metis append_take_drop_id easy_contents_def easy_ok_def)

lemma easy_extend:
  assumes "easy_ok n s" "yb_offset s + length bs \<le> n"
  shows "easy_ok n (s\<lparr>yb_data := splice_at (yb_offset s) bs (yb_data s), yb_offset := yb_offset s + length bs\<rparr>) \<and>
    easy_contents (s\<lparr>yb_data := splice_at (yb_offset s) bs (yb_data s), yb_offset := yb_offset s + length bs\<rparr>) =
      easy_contents s @ bs"
proof -
  have d: "drop (yb_offset s + length bs) (yb_data s) = replicate (n - (yb_offset s + length bs)) 0"
    using assms(1) by (metis (no_types, lifting) add.commute diff_diff_left drop_drop drop_replicate easy_ok_def)
  show ?thesis
    using assms d by (simp add: easy_ok_def easy_contents_def splice_at_def)
qed

lemma append_content_writes: "writes (easy_ok n) easy_contents n (flag (append_content n bs)) bs"
  unfolding writes_def
proof (intro allI impI)
  fix s assume "easy_ok n s \<and> length (easy_contents s) + length bs \<le> n"
  then have s: "easy_ok n s" "yb_offset s + length bs \<le> n"
    using length_easy_contents [of n s] by auto
  then have "append_content n bs s =
      (s\<lparr>yb_data := splice_at (yb_offset s) bs (yb_data s), yb_offset := yb_offset s + length bs\<rparr>, SUCCESS)"
    by (auto simp: append_content_def MemoryCopy_def easy_ok_def)
  then show "\<exists>s'. flag (append_content n bs) s = (s', True) \<and> easy_ok n s' \<and>
      easy_contents s' = easy_contents s @ bs"
    using easy_extend [OF s] by (simp add: flag_def)
qed

interpretation easy_buffer: byte_sink "easy_ok n" easy_contents n "\<lambda>bs. flag (append_content n bs)" for n
  by unfold_locales (rule append_content_writes)

lemma one_byte_writes:
  assumes "\<And>s. \<not> n < yb_offset s \<Longrightarrow> 1 \<le> n - yb_offset s \<Longrightarrow>
      op s = (s\<lparr>yb_data := (yb_data s)[yb_offset s := b], yb_offset := yb_offset s + 1\<rparr>, SUCCESS)"
  shows "writes (easy_ok n) easy_contents n (flag op) [b]"
  unfolding writes_def
proof (intro allI impI)
  fix s assume "easy_ok n s \<and> length (easy_contents s) + length [b] \<le> n"
  then have s: "easy_ok n s" and off: "yb_offset s + 1 \<le> n" "length (yb_data s) = n"
    using length_easy_contents [of n s] by (auto simp: easy_ok_def)
  then have "(yb_data s)[yb_offset s := b] = splice_at (yb_offset s) [b] (yb_data s)"
    by (simp add: splice_at_def upd_conv_take_nth_drop)
  then show "\<exists>s'. flag op s = (s', True) \<and> easy_ok n s' \<and> easy_contents s' = easy_contents s @ [b]"
    using easy_extend [of n s "[b]"] s off assms [of s] by (simp add: flag_def)
qed

lemma put_byte_writes: "writes (easy_ok n) easy_contents n (flag (put_byte n b)) [b]"
  by (rule one_byte_writes) (auto simp: put_byte_def VAR_INT_ENCODE_SUCCESS_def SUCCESS_def)

lemma Easy_EncodeValueType_writes: "writes (easy_ok n) easy_contents n (flag (Easy_EncodeValueType n vt)) [vt]"
  by (rule one_byte_writes) (auto simp: Easy_EncodeValueType_def)

lemma flag_seq_ok: "flag (seq_ok op1 op2) = and_then (flag op1) (flag op2)"
  by (auto simp: fun_eq_iff flag_def seq_ok_def and_then_def split: prod.splits)

text \<open>The bytes are those of the C++ encoder.\<close>

lemma easy_non_tag_byte: "easy_non_tag_byte v = non_tag_byte v"
  by (simp add: easy_non_tag_byte_def non_tag_byte_def varint_consts easy_varint_consts)

lemma easy_tag_byte: "easy_tag_byte LENGTH_DELIMITED_ENCODE_TYPE v = tag_byte LENGTH_DELIMITED v"
  by (simp add: easy_tag_byte_def tag_byte_def varint_consts easy_varint_consts Easy_EncodeTag_def
      EncodedTag_def LENGTH_DELIMITED_ENCODE_TYPE_def)

lemma easy_varint_loop_writes:
  "writes (easy_ok n) easy_contents n (flag (easy_varint_loop n v)) (varint_tail (unat v))"
proof (induction "unat v" arbitrary: v rule: less_induct)
  case less
  show ?case
  proof (cases "v = 0")
    case True
    then show ?thesis
      by (simp add: easy_varint_loop.simps varint_tail.simps [of 0] writes_def flag_def
          VAR_INT_ENCODE_SUCCESS_def SUCCESS_def)
  next
    case False
    let ?w = "drop_bit EASY_NON_TAG_BYTE_OFFSET v"
    have "unat ?w < unat v"
      using False by (simp add: unat_easy_drop_7 unat_gt_0 div_less_dividend)
    then have rest: "writes (easy_ok n) easy_contents n (flag (easy_varint_loop n ?w)) (varint_tail (unat v div 128))"
      using less by (metis unat_easy_drop_7)
    have "flag (easy_varint_loop n v) = and_then (flag (put_byte n (easy_non_tag_byte v))) (flag (easy_varint_loop n ?w))"
      using False
      by (auto simp: fun_eq_iff and_then_def flag_def easy_varint_loop.simps [of n v] word_neq_0_conv
          VAR_INT_ENCODE_SUCCESS_def SUCCESS_def split: prod.splits)
    moreover have "varint_tail (unat v) = [easy_non_tag_byte v] @ varint_tail (unat v div 128)"
      using False
      by (simp add: varint_tail.simps [of "unat v"] easy_non_tag_byte non_tag_byte_eq unat_eq_0)
    ultimately show ?thesis
      using easy_buffer.seq_writes [OF put_byte_writes rest] by metis
  qed
qed

lemma EncodeUnsignedVarint_writes:
  "writes (easy_ok n) easy_contents n (flag (EncodeUnsignedVarint n LENGTH_DELIMITED_ENCODE_TYPE v))
     (varint LENGTH_DELIMITED (unat v))"
proof -
  have "flag (EncodeUnsignedVarint n LENGTH_DELIMITED_ENCODE_TYPE v) =
      and_then (flag (put_byte n (tag_byte LENGTH_DELIMITED v)))
        (flag (easy_varint_loop n (drop_bit EASY_TAG_BYTE_OFFSET v)))"
    by (auto simp: fun_eq_iff and_then_def flag_def EncodeUnsignedVarint_def easy_tag_byte
        VAR_INT_ENCODE_SUCCESS_def SUCCESS_def split: prod.splits)
  moreover have "varint LENGTH_DELIMITED (unat v) =
      [tag_byte LENGTH_DELIMITED v] @ varint_tail (unat (drop_bit EASY_TAG_BYTE_OFFSET v))"
  proof -
    have "unat (drop_bit EASY_TAG_BYTE_OFFSET v) = unat v div 32"
      by (simp add: easy_varint_consts drop_bit_eq_div unat_div)
    then show ?thesis by (simp add: varint_def tag_byte_eq)
  qed
  ultimately show ?thesis
    using easy_buffer.seq_writes [OF put_byte_writes easy_varint_loop_writes] by metis
qed

lemma EncodeStringValue_writes:
  assumes "length c < 2 ^ 64"
  shows "writes (easy_ok n) easy_contents n (flag (EncodeStringValue n (Some c))) (string_bytes c)"
proof -
  have "flag (EncodeStringValue n (Some c)) =
      and_then (flag (EncodeUnsignedVarint n LENGTH_DELIMITED_ENCODE_TYPE (of_nat (length c))))
        (flag (append_content n (bytes_of_string c)))"
    by (auto simp: fun_eq_iff and_then_def flag_def EncodeStringValue_def Let_def
        VAR_INT_ENCODE_SUCCESS_def easy_err_defs split: prod.splits)
  moreover have "unat (of_nat (length c) :: u64) = length c"
    using assms by (simp add: unat_of_nat)
  ultimately show ?thesis
    using easy_buffer.seq_writes [OF EncodeUnsignedVarint_writes [of n "of_nat (length c)"]
        append_content_writes [of n "bytes_of_string c"]]
    by (simp add: string_bytes_def)
qed

lemma Easy_AppendStringParam_writes:
  assumes "length k < 2 ^ 64" "length v \<le> DATA_MAX_LEN"
  shows "writes (easy_ok n) easy_contents n (flag (Easy_AppendStringParam n (Some k) (Some v)))
    (param_bytes (k, PString v))"
proof -
  have v: "length v < 2 ^ 64" using assms(2) by (simp add: DATA_MAX_LEN_def)
  have "flag (Easy_AppendStringParam n (Some k) (Some v)) =
      flag (seq_ok (EncodeStringValue n (Some k))
        (seq_ok (Easy_EncodeValueType n (ParamValueType 0 STR_PARAM_VALUE_TYPE 0)) (EncodeStringValue n (Some v))))"
    using assms(2) by (simp add: fun_eq_iff flag_def Easy_AppendStringParam_def)
  moreover have "kind_byte (PString v) = ParamValueType 0 STR_PARAM_VALUE_TYPE 0"
    by (simp add: kind_byte_def STR_PARAM_VALUE_TYPE_def)
  ultimately show ?thesis
    using easy_buffer.seq_writes [OF EncodeStringValue_writes [OF assms(1)]
        easy_buffer.seq_writes [OF Easy_EncodeValueType_writes EncodeStringValue_writes [OF v]], of n]
    by (simp add: flag_seq_ok param_bytes_def)
qed

section \<open>Building the event\<close>

definition next_gPid :: "easy_env \<Rightarrow> easy_state \<Rightarrow> int" where
  "next_gPid ee st = (if es_gPid st = INVALID_PID then GetRealPid ee else es_gPid st)"

definition easy_header :: "easy_env \<Rightarrow> easy_state \<Rightarrow> string \<Rightarrow> string \<Rightarrow> nat \<Rightarrow> HiSysEventHeader" where
  "easy_header ee st domain name type =
     \<lparr>hd_domain = bytes_of_string domain @ replicate (MAX_DOMAIN_LENGTH + 1 - length domain) 0,
      hd_name = bytes_of_string name @ replicate (MAX_EVENT_NAME_LENGTH + 1 - length name) 0,
      hd_timestamp = GetTimestamp ee, hd_timeZone = Easy_ParseTimeZone (ee_timezone ee),
      hd_uid = ee_getuid ee,
      hd_pid = of_int (if next_gPid ee st \<noteq> INVALID_PID then next_gPid ee st else ee_getpid ee),
      hd_tid = ee_gettid ee, hd_id = 0, hd_type = (type - 1) mod 4, hd_isTraceOpened = 0\<rparr>"

lemma easy_header_wf:
  "length d \<le> MAX_DOMAIN_LENGTH \<Longrightarrow> length n \<le> MAX_EVENT_NAME_LENGTH \<Longrightarrow> header_wf (easy_header ee st d n ty)"
  by (simp add: easy_header_def header_wf_def)

lemma InitEventHeader_ok:
  assumes "length d \<le> MAX_DOMAIN_LENGTH" "length n \<le> MAX_EVENT_NAME_LENGTH"
  shows "InitEventHeader ee empty_header d n ty st =
    (st\<lparr>es_gPid := next_gPid ee st\<rparr>, easy_header ee st d n ty, SUCCESS)"
  using assms
  by (simp add: InitEventHeader_def MemoryCopy_def empty_header_def splice_at_def easy_header_def
      next_gPid_def Let_def del: replicate.simps)

lemma AppendHeader_writes:
  assumes "header_wf h"
  shows "writes (easy_ok n) easy_contents n (flag (AppendHeader n h)) (header_bytes h)"
  unfolding writes_def
proof (intro allI impI)
  fix s assume "easy_ok n s \<and> length (easy_contents s) + length (header_bytes h) \<le> n"
  then have s: "easy_ok n s" "yb_offset s + length (header_bytes h) \<le> n"
    using length_easy_contents [of n s] by auto
  then have "AppendHeader n h s = (s\<lparr>yb_data := splice_at (yb_offset s) (header_bytes h) (yb_data s),
      yb_offset := yb_offset s + length (header_bytes h)\<rparr>, SUCCESS)"
    using length_header_bytes [OF assms] by (auto simp: AppendHeader_def easy_ok_def)
  then show "\<exists>s'. flag (AppendHeader n h) s = (s', True) \<and> easy_ok n s' \<and>
      easy_contents s' = easy_contents s @ header_bytes h"
    using easy_extend [OF s] by (simp add: flag_def)
qed

lemma AppendParamCount_writes:
  "writes (easy_ok EVENT_BUFF_LEN) easy_contents EVENT_BUFF_LEN (flag AppendParamCount) (le_bytes 4 1)"
  unfolding writes_def
proof (intro allI impI)
  fix s assume "easy_ok EVENT_BUFF_LEN s \<and> length (easy_contents s) + length (le_bytes 4 1) \<le> EVENT_BUFF_LEN"
  then have s: "easy_ok EVENT_BUFF_LEN s" "yb_offset s + length (le_bytes 4 1) \<le> EVENT_BUFF_LEN"
    using length_easy_contents [of EVENT_BUFF_LEN s] by (auto simp del: le_bytes.simps)
  then have "AppendParamCount s = (s\<lparr>yb_data := splice_at (yb_offset s) (le_bytes 4 1) (yb_data s),
      yb_offset := yb_offset s + length (le_bytes 4 1)\<rparr>, SUCCESS)"
    by (simp add: AppendParamCount_def del: le_bytes.simps)
  then show "\<exists>s'. flag AppendParamCount s = (s', True) \<and> easy_ok EVENT_BUFF_LEN s' \<and>
      easy_contents s' = easy_contents s @ le_bytes 4 1"
    using easy_extend [OF s] by (simp add: flag_def del: le_bytes.simps)
qed

text \<open>The longest parameter fills the buffer exactly.\<close>

lemma length_easy_param:
  assumes "length v \<le> DATA_MAX_LEN"
  shows "length (param_bytes (CUSTOMIZED_PARAM_KEY, PString v)) \<le> 8 + length v"
proof -
  have "length v div 32 < 128 ^ 1" using assms by (simp add: DATA_MAX_LEN_def)
  then have "length (varint_tail (length v div 32)) \<le> 1"
    by (rule length_varint_tail)
  then show ?thesis
    by (simp add: param_bytes_def string_bytes_def varint_def CUSTOMIZED_PARAM_KEY_def varint_tail.simps [of 0])
qed

definition start_buf :: easy_buf where
  "start_buf = \<lparr>yb_data = splice_at 0 (le_bytes 4 EVENT_BUFF_LEN) (replicate EVENT_BUFF_LEN 0), yb_offset = 4\<rparr>"

lemma start_buf_facts: "easy_ok EVENT_BUFF_LEN start_buf" "easy_contents start_buf = le_bytes 4 EVENT_BUFF_LEN"
  by (simp_all add: start_buf_def easy_ok_def easy_contents_def splice_at_def EVENT_BUFF_LEN_def
      del: le_bytes.simps replicate.simps)

lemma easy_event_bytes:
  assumes wf: "header_wf h" and v: "length v \<le> DATA_MAX_LEN"
  shows "\<exists>buf pad. seq_ok (AppendHeader EVENT_BUFF_LEN h) (seq_ok AppendParamCount
      (Easy_AppendStringParam EVENT_BUFF_LEN (Some CUSTOMIZED_PARAM_KEY) (Some v))) start_buf = (buf, SUCCESS) \<and>
    length (yb_data buf) = EVENT_BUFF_LEN \<and>
    yb_data buf = le_bytes 4 EVENT_BUFF_LEN @ header_bytes h @ le_bytes 4 1 @
      param_bytes (CUSTOMIZED_PARAM_KEY, PString v) @ replicate pad 0"
proof -
  let ?p = "param_bytes (CUSTOMIZED_PARAM_KEY, PString v)"
  let ?op = "seq_ok (AppendHeader EVENT_BUFF_LEN h) (seq_ok AppendParamCount
      (Easy_AppendStringParam EVENT_BUFF_LEN (Some CUSTOMIZED_PARAM_KEY) (Some v)))"
  have W: "writes (easy_ok EVENT_BUFF_LEN) easy_contents EVENT_BUFF_LEN (flag ?op)
      (header_bytes h @ le_bytes 4 1 @ ?p)"
    unfolding flag_seq_ok
    by (intro easy_buffer.seq_writes AppendHeader_writes [OF wf] AppendParamCount_writes
        Easy_AppendStringParam_writes) (simp_all add: CUSTOMIZED_PARAM_KEY_def v)
  have "length (easy_contents start_buf) + length (header_bytes h @ le_bytes 4 1 @ ?p) \<le> EVENT_BUFF_LEN"
    using length_easy_param [OF v] v length_header_bytes [OF wf] sizeof_header_80
    by (simp add: start_buf_facts EVENT_BUFF_LEN_def DATA_MAX_LEN_def del: le_bytes.simps)
  from writesD [OF W start_buf_facts(1) this] obtain buf where buf: "flag ?op start_buf = (buf, True)"
      "easy_ok EVENT_BUFF_LEN buf"
      "easy_contents buf = le_bytes 4 EVENT_BUFF_LEN @ header_bytes h @ le_bytes 4 1 @ ?p"
    by (auto simp: start_buf_facts simp del: le_bytes.simps)
  have "?op start_buf = (buf, SUCCESS)"
    using buf(1) by (auto simp: flag_def split: prod.splits)
  moreover have "length (yb_data buf) = EVENT_BUFF_LEN"
    using buf(2) by (simp add: easy_ok_def)
  ultimately show ?thesis
    using easy_data [OF buf(2)] by (auto simp: buf(3) simp del: le_bytes.simps)
qed

text \<open>The reader's view of the buffer; the padding must be zero.\<close>

definition decode_easy :: "byte list \<Rightarrow> (HiSysEventHeader \<times> string \<times> string) option" where
  "decode_easy bs =
     (if length bs < 88 \<or> of_le_bytes (take 4 bs) \<noteq> length bs \<or> of_le_bytes (take 4 (drop 84 bs)) \<noteq> 1 then None
      else case dec_param (drop 88 bs) of
        Some ((k, PString v), pad) \<Rightarrow>
          if list_all (\<lambda>b. b = 0) pad then Some (dec_header (drop 4 bs), k, v) else None
      | _ \<Rightarrow> None)"

lemma decode_easy_event:
  assumes wf: "header_wf h" and len: "length bs = EVENT_BUFF_LEN"
    and bs: "bs = le_bytes 4 EVENT_BUFF_LEN @ header_bytes h @ le_bytes 4 1 @
      param_bytes (CUSTOMIZED_PARAM_KEY, PString v) @ replicate pad 0"
  shows "decode_easy bs = Some (h, CUSTOMIZED_PARAM_KEY, v)"
proof -
  have hl: "length (header_bytes h) = 80"
    using length_header_bytes [OF wf] sizeof_header_80 by simp
  have "take 4 bs = le_bytes 4 EVENT_BUFF_LEN"
    unfolding bs by (simp del: le_bytes.simps)
  then have "of_le_bytes (take 4 bs) = length bs"
    using len by (simp add: EVENT_BUFF_LEN_def del: le_bytes.simps)
  moreover have "take 4 (drop 84 bs) = le_bytes 4 1"
    unfolding bs by (simp add: hl del: le_bytes.simps)
  moreover have "of_le_bytes (le_bytes 4 1) = 1"
    by (rule of_le_bytes_le_bytes_id) simp
  moreover have "drop 88 bs = param_bytes (CUSTOMIZED_PARAM_KEY, PString v) @ replicate pad 0"
    unfolding bs by (simp add: hl del: le_bytes.simps)
  moreover have "dec_header (drop 4 bs) = h"
    unfolding bs by (simp add: dec_header_header_bytes [OF wf] del: le_bytes.simps)
  moreover have "\<not> length bs < 88"
    using len by (simp add: EVENT_BUFF_LEN_def)
  ultimately show ?thesis
    by (simp add: decode_easy_def dec_param_param_bytes list_all_iff)
qed

section \<open>Sending\<close>

lemma Easy_InitSocket_path: "\<exists>socketAddr. Easy_InitSocket = (socketAddr, SUCCESS) \<and> sun_path socketAddr = normalAddr"
proof -
  have "no_nul SOCKET_PATH" by (simp add: SOCKET_PATH_def no_nul_def)
  from c_string_padded [OF this, of "replicate 80 0"]
  have "c_string (bytes_of_string SOCKET_PATH @ replicate 81 0) = SOCKET_PATH"
    by (simp add: numeral_eq_Suc)
  then show ?thesis
    by (simp add: Easy_InitSocket_def MemoryCopy_def MemoryInit_def splice_at_def sun_path_def
        SOCKET_PATH_def normalAddr_def del: le_bytes.simps replicate_Suc)
qed

text \<open>Error numbers are positive and below the base of the returned codes.\<close>

definition errno_ok :: "os_env \<Rightarrow> bool" where
  "errno_ok os \<longleftrightarrow> (\<forall>log fd path data. 0 \<le> snd (os_sendto os log fd path data) \<and>
     snd (os_sendto os log fd path data) < 1000) \<and>
     (\<forall>log fd err. 0 \<le> err \<and> err < 1000 \<longrightarrow>
       0 \<le> os_close_errno os log fd err \<and> os_close_errno os log fd err < 1000)"

lemma Easy_send_loop_facts:
  "Easy_send_loop os fd path data n log = (log', ret, err) \<Longrightarrow> n > 0 \<Longrightarrow>
   delivered log' = delivered log @ (if 0 \<le> ret then [data] else []) \<and>
   open_fds log' = open_fds log \<and> sends log' \<le> sends log + n \<and> (errno_ok os \<longrightarrow> 0 \<le> err \<and> err < 1000)"
proof (induction n arbitrary: log rule: less_induct)
  case (less n)
  obtain r e where se: "os_sendto os log fd path data = (r, e)" by force
  let ?log = "log @ [SendTo fd path data r]"
  let ?again = "r < 0 \<and> n - 1 > 0 \<and> (e = EAGAIN \<or> e = EWOULDBLOCK \<or> e = EINTR)"
  have log: "delivered ?log = delivered log @ (if 0 \<le> r then [data] else [])"
      "open_fds ?log = open_fds log" "sends ?log = sends log + 1"
    by (simp_all add: open_fds_append) (simp add: sends_def)
  have e: "errno_ok os \<longrightarrow> 0 \<le> e \<and> e < 1000"
    using se unfolding errno_ok_def by (metis snd_conv)
  have unf: "Easy_send_loop os fd path data n log =
      (if ?again then Easy_send_loop os fd path data (n - 1) ?log else (?log, r, e))"
    using se by (subst Easy_send_loop.simps) (auto simp: Let_def)
  show ?case
  proof (cases ?again)
    case True
    then have "Easy_send_loop os fd path data (n - 1) ?log = (log', ret, err)" "n - 1 < n" "0 < n - 1"
      using less.prems unf by auto
    from less.IH [OF this(2,1,3)] show ?thesis
      using log True by auto
  next
    case False
    then have "log' = ?log" "ret = r" "err = e"
      using less.prems unf by auto
    then show ?thesis
      using log less.prems(2) e by simp
  qed
qed

lemma open_fds_nonneg: "\<forall>fd \<in> set (open_fds log). 0 \<le> fd"
proof (induction log rule: rev_induct)
  case Nil
  then show ?case by (simp add: open_fds_def)
next
  case (snoc c log)
  then show ?case
    by (cases c) (auto simp: open_fds_append dest: set_remove1_subset [THEN subsetD])
qed

lemma remove1_absent: "fd < 0 \<Longrightarrow> remove1 fd (open_fds log) = open_fds log"
  using open_fds_nonneg [of log] by (intro remove1_idem) auto

lemma Easy_Write_facts:
  assumes w: "Easy_Write os data log = (log', ret)" and err: "errno_ok os"
  shows "delivered log' = delivered log @ (if ret = SUCCESS then [data] else []) \<and>
    open_fds log' = open_fds log \<and> sends log' \<le> sends log + 3"
proof -
  define fd where "fd = os_socket os log"
  obtain addr where addr: "Easy_InitSocket = (addr, SUCCESS)" "sun_path addr = normalAddr"
    using Easy_InitSocket_path by blast
  consider (nosock) "fd < 0" | (noopt) "0 \<le> fd" "os_setsockopt os (log @ [SocketOpen fd]) fd < 0"
    | (send) "0 \<le> fd" "\<not> os_setsockopt os (log @ [SocketOpen fd]) fd < 0"
    by linarith
  then show ?thesis
  proof cases
    case nosock
    then have "log' = log @ [SocketOpen fd] @ [Close fd]" "ret = EASY_ERR_INIT_SOCKET_FAILED"
      using w by (auto simp: Easy_Write_def Let_def fd_def)
    with nosock show ?thesis
      by (simp add: open_fds_append easy_err_defs remove1_absent delivered_def sends_def)
  next
    case noopt
    then have "log' = log @ [SocketOpen fd, SetSndBuf fd (384 * 1024), Close fd]"
        "ret = EASY_ERR_SET_SOCKET_OPT_FAILED"
      using w by (auto simp: Easy_Write_def Let_def fd_def)
    with noopt show ?thesis
      by (simp add: open_fds_append easy_err_defs delivered_def sends_def)
  next
    case send
    let ?log = "log @ [SocketOpen fd, SetSndBuf fd (384 * 1024)]"
    obtain log1 r e where loop: "Easy_send_loop os fd normalAddr data 3 ?log = (log1, r, e)"
      by (metis prod.collapse)
    have res: "log' = log1 @ [Close fd]" "ret = (if r < 0 then EASY_ERR_SOCKET_SEND_ERROR_BASE + os_close_errno os log1 fd e else SUCCESS)"
      using w send loop by (auto simp: Easy_Write_def Let_def fd_def addr split: if_splits)
    have 0: "delivered ?log = delivered log" "open_fds ?log = fd # open_fds log" "sends ?log = sends log"
      using send by (simp_all add: open_fds_append delivered_def sends_def)
    have "0 \<le> e \<and> e < 1000"
      using Easy_send_loop_facts [OF loop] err by simp
    then have "os_close_errno os log1 fd e < 1000"
      using err by (simp add: errno_ok_def)
    then show ?thesis
      using Easy_send_loop_facts [OF loop] 0 res
      by (auto simp: open_fds_append easy_err_defs) (simp_all add: sends_def)
  qed
qed

text \<open>Accepted arguments, as the checks of the entry point leave them.\<close>

lemma HiSysEventEasyWrite_accepted:
  assumes "length d \<le> MAX_DOMAIN_LENGTH" "length n \<le> MAX_EVENT_NAME_LENGTH" "length v \<le> DATA_MAX_LEN"
    and ty: "ty = nat (eventType mod 256)" "1 \<le> ty" "ty \<le> 4"
  shows "\<exists>bytes. decode_easy bytes = Some (easy_header ee st d n ty, CUSTOMIZED_PARAM_KEY, v) \<and>
    length bytes = EVENT_BUFF_LEN \<and>
    HiSysEventEasyWrite os ee (Some d) (Some n) eventType (Some v) st =
      (case Easy_Write os bytes (es_log st) of (log, ret) \<Rightarrow>
         (st\<lparr>es_gPid := next_gPid ee st, es_log := log\<rparr>, ret))"
proof -
  let ?h = "easy_header ee st d n ty"
  have wf: "header_wf ?h" by (rule easy_header_wf [OF assms(1,2)])
  obtain buf pad where buf: "seq_ok (AppendHeader EVENT_BUFF_LEN ?h) (seq_ok AppendParamCount
      (Easy_AppendStringParam EVENT_BUFF_LEN (Some CUSTOMIZED_PARAM_KEY) (Some v))) start_buf = (buf, SUCCESS)"
      "length (yb_data buf) = EVENT_BUFF_LEN"
      "yb_data buf = le_bytes 4 EVENT_BUFF_LEN @ header_bytes ?h @ le_bytes 4 1 @
        param_bytes (CUSTOMIZED_PARAM_KEY, PString v) @ replicate pad 0"
    using easy_event_bytes [OF wf assms(3)] by blast
  have "CheckEventType (nat (eventType mod 256)) = SUCCESS"
    using ty(2,3) by (simp add: CheckEventType_def ty(1) [symmetric])
  then have "HiSysEventEasyWrite os ee (Some d) (Some n) eventType (Some v) st =
      (case Easy_Write os (yb_data buf) (es_log st) of (log, ret) \<Rightarrow>
         (st\<lparr>es_gPid := next_gPid ee st, es_log := log\<rparr>, ret))"
    using assms(1,2) buf(1) InitEventHeader_ok [OF assms(1,2), of ee ty st]
    by (simp add: HiSysEventEasyWrite_def Let_def start_buf_def [symmetric] ty(1) [symmetric])
  then show ?thesis
    using decode_easy_event [OF wf buf(2,3)] buf(2) by blast
qed

lemma HiSysEventEasyWrite_bad_data:
  assumes "length d \<le> MAX_DOMAIN_LENGTH" "length n \<le> MAX_EVENT_NAME_LENGTH"
    and ty: "CheckEventType (nat (eventType mod 256)) = SUCCESS"
    and data: "data = None \<or> length (the data) > DATA_MAX_LEN"
  shows "HiSysEventEasyWrite os ee (Some d) (Some n) eventType data st =
    (st\<lparr>es_gPid := next_gPid ee st\<rparr>, EASY_ERR_PARAM_VALUE_INVALID)"
proof -
  let ?ty = "nat (eventType mod 256)"
  let ?h = "easy_header ee st d n ?ty"
  have wf: "header_wf ?h" by (rule easy_header_wf [OF assms(1,2)])
  have W: "writes (easy_ok EVENT_BUFF_LEN) easy_contents EVENT_BUFF_LEN
      (flag (seq_ok (AppendHeader EVENT_BUFF_LEN ?h) AppendParamCount)) (header_bytes ?h @ le_bytes 4 1)"
    unfolding flag_seq_ok by (intro easy_buffer.seq_writes AppendHeader_writes [OF wf] AppendParamCount_writes)
  have room: "length (easy_contents start_buf) + length (header_bytes ?h @ le_bytes 4 1) \<le> EVENT_BUFF_LEN"
    using length_header_bytes [OF wf] sizeof_header_80
    by (simp add: start_buf_facts EVENT_BUFF_LEN_def del: le_bytes.simps)
  obtain buf where "flag (seq_ok (AppendHeader EVENT_BUFF_LEN ?h) AppendParamCount) start_buf = (buf, True)"
    using writesD [OF W start_buf_facts(1) room] by blast
  then have "seq_ok (AppendHeader EVENT_BUFF_LEN ?h) AppendParamCount start_buf = (buf, SUCCESS)"
    by (auto simp: flag_def split: prod.splits)
  moreover have "Easy_AppendStringParam EVENT_BUFF_LEN (Some CUSTOMIZED_PARAM_KEY) data buf =
      (buf, EASY_ERR_PARAM_VALUE_INVALID)"
    using data by (auto simp: Easy_AppendStringParam_def split: option.splits)
  ultimately have "seq_ok (AppendHeader EVENT_BUFF_LEN ?h) (seq_ok AppendParamCount
      (Easy_AppendStringParam EVENT_BUFF_LEN (Some CUSTOMIZED_PARAM_KEY) data)) start_buf =
      (buf, EASY_ERR_PARAM_VALUE_INVALID)"
    by (auto simp: seq_ok_def easy_err_defs split: prod.splits if_splits)
  then show ?thesis
    using assms(1,2) ty InitEventHeader_ok [OF assms(1,2), of ee ?ty st]
    by (simp add: HiSysEventEasyWrite_def Let_def start_buf_def [symmetric]) (simp add: easy_err_defs)
qed

section \<open>Properties\<close>

text \<open>
  C14. The C writer sends what it was given: for names and data within the limits and any
  behaviour of the kernel, it builds one buffer of \<^verbatim>\<open>EVENT_BUFF_LEN\<close> bytes from which the
  domain, the name, the type and the data, of any length up to \<^verbatim>\<open>DATA_MAX_LEN\<close>, are read
  back; it returns \<^verbatim>\<open>SUCCESS\<close> exactly when that buffer was handed over (once), after at
  most three attempts, and leaves no socket open.
\<close>

theorem easy_write_sends_event:
  assumes "no_nul d" "no_nul n" "length d \<le> MAX_DOMAIN_LENGTH" "length n \<le> MAX_EVENT_NAME_LENGTH"
    and "length v \<le> DATA_MAX_LEN" "errno_ok os"
    and "HiSysEventEasyWrite os ee (Some d) (Some n) (event_type_code ty) (Some v) st = (st', ret)"
  shows "\<exists>bytes h. length bytes = EVENT_BUFF_LEN \<and> decode_easy bytes = Some (h, CUSTOMIZED_PARAM_KEY, v) \<and>
    c_string (hd_domain h) = d \<and> c_string (hd_name h) = n \<and> int (hd_type h) + 1 = event_type_code ty \<and>
    delivered (es_log st') = delivered (es_log st) @ (if ret = SUCCESS then [bytes] else []) \<and>
    open_fds (es_log st') = open_fds (es_log st) \<and> sends (es_log st') \<le> sends (es_log st) + 3"
proof -
  define t where "t = nat (event_type_code ty mod 256)"
  have t: "1 \<le> t" "t \<le> 4" "int ((t - 1) mod 4) + 1 = event_type_code ty"
    by (cases ty; simp add: t_def)+
  obtain bytes where b: "decode_easy bytes = Some (easy_header ee st d n t, CUSTOMIZED_PARAM_KEY, v)"
      "length bytes = EVENT_BUFF_LEN"
      "HiSysEventEasyWrite os ee (Some d) (Some n) (event_type_code ty) (Some v) st =
        (case Easy_Write os bytes (es_log st) of (log, ret) \<Rightarrow>
           (st\<lparr>es_gPid := next_gPid ee st, es_log := log\<rparr>, ret))"
    using HiSysEventEasyWrite_accepted [OF assms(3-5) t_def t(1,2)] by blast
  obtain log where w: "Easy_Write os bytes (es_log st) = (log, ret)" "es_log st' = log"
    using b(3) assms(7) by (auto split: prod.splits)
  have "c_string (bytes_of_string s @ replicate (m + 1 - length s) 0) = s" if "no_nul s" "length s \<le> m" for s m
    using c_string_array [OF that(1), of "m + 1" "[]"] that(2) by simp
  then have "c_string (hd_domain (easy_header ee st d n t)) = d" "c_string (hd_name (easy_header ee st d n t)) = n"
    using assms(1-4) by (simp_all add: easy_header_def)
  then show ?thesis
    using Easy_Write_facts [OF w(1) assms(6)] b w(2) t(3) by (auto simp: easy_header_def)
qed

definition std_ee :: easy_env where
  "std_ee = \<lparr>ee_tv_sec = 1700000000, ee_tv_nsec = 5000000, ee_timezone = -28800, ee_status = None,
     ee_getpid = 42, ee_gettid = 43, ee_getuid = 0\<rparr>"

definition std_es :: easy_state where
  "std_es = \<lparr>es_gPid = INVALID_PID, es_log = []\<rparr>"

theorem easy_write_sends_event_witness:
  "open_fds (es_log (fst (HiSysEventEasyWrite os_up std_ee (Some ''KERNEL'') (Some ''BOOT'') 1 (Some ''x'') std_es))) = []"
proof -
  obtain st' ret where w: "HiSysEventEasyWrite os_up std_ee (Some ''KERNEL'') (Some ''BOOT'')
      (event_type_code FAULT) (Some ''x'') std_es = (st', ret)" by force
  have "errno_ok os_up" by (simp add: errno_ok_def os_up_def)
  from easy_write_sends_event [OF _ _ _ _ _ this w] have "open_fds (es_log st') = open_fds (es_log std_es)"
    by (auto simp: no_nul_def limit_defs DATA_MAX_LEN_def)
  with w show ?thesis by (simp add: std_es_def open_fds_def)
qed

text \<open>What the entry point refuses.\<close>

definition bad_domain :: "string option \<Rightarrow> bool" where
  "bad_domain domain \<longleftrightarrow> domain = None \<or> length (the domain) > MAX_DOMAIN_LENGTH"

definition bad_name :: "string option \<Rightarrow> bool" where
  "bad_name name \<longleftrightarrow> name = None \<or> length (the name) > MAX_EVENT_NAME_LENGTH"

definition bad_type :: "int \<Rightarrow> bool" where
  "bad_type eventType \<longleftrightarrow> \<not> (1 \<le> eventType mod 256 \<and> eventType mod 256 \<le> 4)"

definition bad_data :: "string option \<Rightarrow> bool" where
  "bad_data data \<longleftrightarrow> data = None \<or> length (the data) > DATA_MAX_LEN"

text \<open>
  The C writer refuses bad arguments before it touches a socket: each refusal has its
  own code, in the order of the checks, and the log of system calls is unchanged.
\<close>

lemma easy_write_refusals:
  assumes "HiSysEventEasyWrite os ee domain name eventType data st = (st', ret)"
  shows "(bad_domain domain \<longrightarrow> ret = EASY_ERR_DOMAIN_INVALID \<and> st' = st) \<and>
    (\<not> bad_domain domain \<and> bad_name name \<longrightarrow> ret = EASY_ERR_NAME_INVALID \<and> st' = st) \<and>
    (\<not> bad_domain domain \<and> \<not> bad_name name \<and> bad_type eventType \<longrightarrow> ret = EASY_ERR_TYPE_INVALID \<and> st' = st) \<and>
    (\<not> bad_domain domain \<and> \<not> bad_name name \<and> \<not> bad_type eventType \<and> bad_data data \<longrightarrow>
       ret = EASY_ERR_PARAM_VALUE_INVALID \<and> es_log st' = es_log st)"
proof (intro conjI impI; (elim conjE)?)
  assume "bad_domain domain"
  then show "ret = EASY_ERR_DOMAIN_INVALID" "st' = st"
    using assms(1) by (auto simp: HiSysEventEasyWrite_def bad_domain_def split: option.splits if_splits)
next
  assume "\<not> bad_domain domain" "bad_name name"
  then show "ret = EASY_ERR_NAME_INVALID" "st' = st"
    using assms(1)
    by (auto simp: HiSysEventEasyWrite_def bad_domain_def bad_name_def split: option.splits if_splits)
next
  assume ok: "\<not> bad_domain domain" "\<not> bad_name name" and "bad_type eventType"
  then have "CheckEventType (nat (eventType mod 256)) = EASY_ERR_TYPE_INVALID"
    by (auto simp: CheckEventType_def bad_type_def)
  moreover obtain d n where "domain = Some d" "name = Some n" "length d \<le> MAX_DOMAIN_LENGTH"
      "length n \<le> MAX_EVENT_NAME_LENGTH"
    using ok by (auto simp: bad_domain_def bad_name_def)
  ultimately show "ret = EASY_ERR_TYPE_INVALID" "st' = st"
    using assms(1) by (auto simp: HiSysEventEasyWrite_def Let_def easy_err_defs)
next
  assume ok: "\<not> bad_domain domain" "\<not> bad_name name" "\<not> bad_type eventType" and data: "bad_data data"
  obtain d n where dn: "domain = Some d" "name = Some n" "length d \<le> MAX_DOMAIN_LENGTH"
      "length n \<le> MAX_EVENT_NAME_LENGTH"
    using ok by (auto simp: bad_domain_def bad_name_def)
  moreover have "CheckEventType (nat (eventType mod 256)) = SUCCESS"
    using ok(3) by (auto simp: CheckEventType_def bad_type_def nat_less_iff)
  ultimately show "ret = EASY_ERR_PARAM_VALUE_INVALID" "es_log st' = es_log st"
    using HiSysEventEasyWrite_bad_data [of d n eventType data os ee st] data assms(1)
    by (auto simp: bad_data_def)
qed

lemma easy_write_refusals_example:
  "snd (HiSysEventEasyWrite os_up std_ee (Some ''KERNEL'') (Some ''BOOT'') 9 (Some ''x'') std_es) = EASY_ERR_TYPE_INVALID"
proof -
  obtain st' ret where w: "HiSysEventEasyWrite os_up std_ee (Some ''KERNEL'') (Some ''BOOT'') 9 (Some ''x'') std_es
      = (st', ret)" by force
  from easy_write_refusals [OF w] w show ?thesis
    by (simp add: limit_defs bad_domain_def bad_name_def bad_type_def bad_data_def)
qed

text \<open>A status file made of lines that fit the line buffer with a NUL byte behind them.\<close>

definition status_line :: "string \<Rightarrow> bool" where
  "status_line l \<longleftrightarrow> CHR 0x00 \<notin> set l \<and> CHR 0x0A \<notin> set l \<and> length l < LINE_BUF_SIZE"

definition status_text :: "string list \<Rightarrow> string" where
  "status_text lines = concat (map (\<lambda>l. l @ [CHR 0x0A]) lines)"

lemma GetRealPid_loop_line:
  "CHR 0x00 \<notin> set l \<Longrightarrow> CHR 0x0A \<notin> set l \<Longrightarrow> length buf + length l \<le> LINE_BUF_SIZE \<Longrightarrow>
   GetRealPid_loop (l @ CHR 0x0A # rest) buf =
     (if take 4 (buf @ l) = ''Pid:'' then ReadPidFromFormatStr (buf @ l) else GetRealPid_loop rest [])"
proof (induction l arbitrary: buf)
  case (Cons a l)
  then have "a \<noteq> CHR 0x00" "a \<noteq> CHR 0x0A" "length buf \<noteq> LINE_BUF_SIZE"
    by auto
  then have "GetRealPid_loop ((a # l) @ CHR 0x0A # rest) buf = GetRealPid_loop (l @ CHR 0x0A # rest) (buf @ [a])"
    by simp
  also have "\<dots> = (if take 4 ((buf @ [a]) @ l) = ''Pid:'' then ReadPidFromFormatStr ((buf @ [a]) @ l)
      else GetRealPid_loop rest [])"
    using Cons.prems by (intro Cons.IH) auto
  finally show ?case
    by (simp only: append.assoc append_Cons append_Nil)
qed simp

text \<open>
  The process id is read from the right line: in a status file made of lines (without
  NUL bytes, shorter than the line buffer), the id is scanned from the first line that
  starts with \<^verbatim>\<open>Pid:\<close>, and it is \<^verbatim>\<open>INVALID_PID\<close> when there is none.
\<close>

theorem GetRealPid_reads_pid_line:
  assumes "ee_status ee = Some (status_text lines)" "\<forall>l \<in> set lines. status_line l"
  shows "GetRealPid ee = (case find (\<lambda>l. take 4 l = ''Pid:'') lines of
    None \<Rightarrow> INVALID_PID | Some l \<Rightarrow> ReadPidFromFormatStr l)"
proof -
  have "GetRealPid_loop (status_text lines) [] = (case find (\<lambda>l. take 4 l = ''Pid:'') lines of
    None \<Rightarrow> INVALID_PID | Some l \<Rightarrow> ReadPidFromFormatStr l)"
    using assms(2)
  proof (induction lines)
    case Nil
    then show ?case by (simp add: status_text_def)
  next
    case (Cons l lines)
    then show ?case
      using GetRealPid_loop_line [of l "[]" "status_text lines"]
      by (simp add: status_text_def status_line_def)
  qed
  then show ?thesis
    by (simp add: GetRealPid_def assms(1))
qed

theorem GetRealPid_reads_pid_line_witness:
  "GetRealPid (std_ee\<lparr>ee_status := Some (status_text [''Name: x'', ''Pid: 17'', ''PPid: 1''])\<rparr>) = 17"
proof -
  have "\<forall>l \<in> set [''Name: x'', ''Pid: 17'', ''PPid: 1'']. status_line l"
    by (simp add: status_line_def LINE_BUF_SIZE_def)
  from GetRealPid_reads_pid_line [OF _ this, of "std_ee\<lparr>ee_status := Some (status_text [''Name: x'', ''Pid: 17'', ''PPid: 1''])\<rparr>"]
  show ?thesis
    by (simp add: ReadPidFromFormatStr_def scan_pid_def digit_char_def digits_value_def)
qed

text \<open>
  The two writers speak the same format: for the same key and string, the C encoder
  and the C++ encoder append the same bytes.
\<close>

lemma easy_param_wire_compatible:
  assumes "rd_ok env rd" "easy_ok n s" "length k < 2 ^ 64" "length v \<le> DATA_MAX_LEN"
    and "ep_rawData ep = Some rd" "ep_key ep = k" "ep_val ep = PString v"
    and "length (contents rd) + length (param_bytes (k, PString v)) \<le> sink_limit env"
    and "length (easy_contents s) + length (param_bytes (k, PString v)) \<le> n"
  shows "\<exists>bs ep' rd' s'. Encode env ep = (ep', True) \<and> ep_rawData ep' = Some rd' \<and>
    contents rd' = contents rd @ bs \<and>
    Easy_AppendStringParam n (Some k) (Some v) s = (s', SUCCESS) \<and> easy_contents s' = easy_contents s @ bs"
proof -
  have "addressable (PString v)" using assms(4) by (simp add: DATA_MAX_LEN_def)
  from writesD [OF param_writer_writes [OF this assms(3)] assms(1,8)]
  obtain rd' where rd': "param_writer env k (PString v) rd = (rd', True)"
      "contents rd' = contents rd @ param_bytes (k, PString v)" by blast
  obtain s' where s': "flag (Easy_AppendStringParam n (Some k) (Some v)) s = (s', True)"
      "easy_contents s' = easy_contents s @ param_bytes (k, PString v)"
    using writesD [OF Easy_AppendStringParam_writes [OF assms(3,4)] assms(2,9)] by blast
  then have "Easy_AppendStringParam n (Some k) (Some v) s = (s', SUCCESS)"
    by (auto simp: flag_def split: prod.splits)
  then show ?thesis
    using Encode_param_writer [OF assms(5), of env] rd' s' assms(6,7) by auto
qed

lemma easy_param_wire_compatible_example:
  "\<exists>bs ep' rd' s'. Encode std_env (SetRawData (Some (RawData_new std_env)) (StringEncodedParam ''DATA'' ''x'')) = (ep', True) \<and>
    ep_rawData ep' = Some rd' \<and> contents rd' = bs \<and>
    Easy_AppendStringParam EVENT_BUFF_LEN (Some ''DATA'') (Some ''x'') start_buf = (s', SUCCESS) \<and>
    easy_contents s' = le_bytes 4 EVENT_BUFF_LEN @ bs"
proof -
  let ?ep = "SetRawData (Some (RawData_new std_env)) (StringEncodedParam ''DATA'' ''x'')"
  have ep: "ep_rawData ?ep = Some (RawData_new std_env)" "ep_key ?ep = ''DATA''" "ep_val ?ep = PString ''x''"
    by (simp_all add: SetRawData_def StringEncodedParam_def EncodedParam_base_def)
  have len: "length (param_bytes (''DATA'', PString ''x'')) = 8"
    by (simp add: param_bytes_def string_bytes_def varint_def varint_tail.simps [of 0])
  have room: "length (contents (RawData_new std_env)) + length (param_bytes (''DATA'', PString ''x'')) \<le> sink_limit std_env"
      "length (easy_contents start_buf) + length (param_bytes (''DATA'', PString ''x'')) \<le> EVENT_BUFF_LEN"
    unfolding len
    by (simp_all add: sink_limit_def std_env_def EXPAND_BUF_SIZE_def start_buf_facts EVENT_BUFF_LEN_def del: le_bytes.simps)
  show ?thesis
    using easy_param_wire_compatible [OF rd_ok_new [OF mem_ok_std_env] start_buf_facts(1) _ _ ep room]
    by (simp add: start_buf_facts DATA_MAX_LEN_def del: le_bytes.simps)
qed

text \<open>
  The time-zone table of the C writer is a copy of the other one, with the same value.
\<close>

lemma Easy_ParseTimeZone_loop_eq:
  "Easy_ParseTimeZone_loop tz zs (of_nat i) = of_nat (ParseTimeZone_loop tz zs i)"
proof (induction zs arbitrary: i)
  case (Cons z zs)
  from Cons [of "i + 1"] show ?case by (simp add: add.commute)
qed (simp add: DEFAULT_TZ_POS_def)

lemma Easy_ParseTimeZone_eq: "Easy_ParseTimeZone tz = of_nat (ParseTimeZone tz)"
  using Easy_ParseTimeZone_loop_eq [of tz ALL_TIME_ZONES 0]
  by (simp add: Easy_ParseTimeZone_def ParseTimeZone_def easy_allTimeZones_def ALL_TIME_ZONES_def)

end
