(* ===== verification/EventValue.thy ===== *)
theory EventValue
  imports Prelude
begin

text \<open>
  The JSON value that an event record wraps, \<^verbatim>\<open>HiSysEventValue\<close> of the event manager
  (hisysevent_record.cpp, hisysevent_value.h). The JSON library is not part of the
  repository: the operations the code calls are the fields of the record \<open>jsoncpp\<close>, over a
  type of values that stays abstract, and its documented behaviour is the hypothesis
  \<open>json_laws\<close> of the properties that need it. A result \<open>None\<close> of a conversion is the
  exception that the library throws; nothing in the component catches it.
\<close>

section \<open>The JSON library\<close>

text \<open>The kinds of a value that the code distinguishes.\<close>

datatype json_type = nullValue | intValue | uintValue | realValue | arrayValue | objectValue | otherValue

record 'j jsoncpp =
  jc_parse :: "string \<Rightarrow> bool \<times> 'j"
  jc_null :: 'j
  jc_type :: "'j \<Rightarrow> json_type"
  jc_isNull :: "'j \<Rightarrow> bool"
  jc_isBool :: "'j \<Rightarrow> bool"
  jc_isInt :: "'j \<Rightarrow> bool"
  jc_isUInt :: "'j \<Rightarrow> bool"
  jc_isInt64 :: "'j \<Rightarrow> bool"
  jc_isUInt64 :: "'j \<Rightarrow> bool"
  jc_isDouble :: "'j \<Rightarrow> bool"
  jc_isNumeric :: "'j \<Rightarrow> bool"
  jc_isString :: "'j \<Rightarrow> bool"
  jc_isArray :: "'j \<Rightarrow> bool"
  jc_isObject :: "'j \<Rightarrow> bool"
  jc_isMember :: "'j \<Rightarrow> string \<Rightarrow> bool"
  jc_member :: "'j \<Rightarrow> string \<Rightarrow> 'j"
  jc_names :: "'j \<Rightarrow> string list"
  jc_size :: "'j \<Rightarrow> nat"
  jc_index :: "'j \<Rightarrow> nat \<Rightarrow> 'j"
  jc_asInt :: "'j \<Rightarrow> 32 word option"
  jc_asUInt :: "'j \<Rightarrow> 32 word option"
  jc_asInt64 :: "'j \<Rightarrow> 64 word option"
  jc_asUInt64 :: "'j \<Rightarrow> u64 option"
  jc_asDouble :: "'j \<Rightarrow> 64 word option"
  jc_asString :: "'j \<Rightarrow> string option"

text \<open>
  The documented conversions: null and boolean values convert to every scalar type, a value
  that tests as a type converts to it, numbers convert to strings and to doubles, and the
  kinds are those of the tests.
\<close>

definition json_laws :: "'j jsoncpp \<Rightarrow> bool" where
  "json_laws jc \<longleftrightarrow>
     (\<forall>v. (jc_isNull jc v \<or> jc_isBool jc v \<longrightarrow>
             jc_asInt64 jc v \<noteq> None \<and> jc_asUInt64 jc v \<noteq> None \<and> jc_asDouble jc v \<noteq> None \<and> jc_asString jc v \<noteq> None) \<and>
          (jc_isInt64 jc v \<longrightarrow> jc_asInt64 jc v \<noteq> None) \<and>
          (jc_isUInt64 jc v \<longrightarrow> jc_asUInt64 jc v \<noteq> None) \<and>
          (jc_isDouble jc v \<longrightarrow> jc_asDouble jc v \<noteq> None) \<and>
          (jc_isNumeric jc v \<or> jc_isString jc v \<longrightarrow> jc_asString jc v \<noteq> None) \<and>
          (jc_type jc v = realValue \<longrightarrow> jc_asDouble jc v \<noteq> None))"

section \<open>Comparing doubles\<close>

text \<open>
  IEEE 754 order on the bit patterns: a NaN compares false, both zeros are equal, and the
  patterns without the sign bit are ordered like the numbers.
\<close>

definition double_is_nan :: "64 word \<Rightarrow> bool" where
  "double_is_nan w \<longleftrightarrow> unat w mod 2 ^ 63 > 0x7FF0000000000000"

definition double_key :: "64 word \<Rightarrow> int" where
  "double_key w = (if unat w < 2 ^ 63 then int (unat w) else - int (unat w mod 2 ^ 63))"

definition double_le :: "64 word \<Rightarrow> 64 word \<Rightarrow> bool" where
  "double_le a b \<longleftrightarrow> \<not> double_is_nan a \<and> \<not> double_is_nan b \<and> double_key a \<le> double_key b"

text \<open>
  \<^verbatim>\<open>InValidRange\<close>; the bounds are the doubles of \<^verbatim>\<open>minInt64\<close>, \<^verbatim>\<open>maxInt64\<close> (which rounds to
  the power \<open>2 ^ 63\<close>), zero and \<^verbatim>\<open>maxUInt64\<close> (which rounds to \<open>2 ^ 64\<close>).
\<close>

definition InValidRange :: "64 word \<Rightarrow> 64 word \<Rightarrow> 64 word \<Rightarrow> bool" where
  "InValidRange d mn mx \<longleftrightarrow> double_le mn d \<and> double_le d mx"

definition double_minInt64 :: "64 word" where "double_minInt64 = 0xC3E0000000000000"
definition double_maxInt64 :: "64 word" where "double_maxInt64 = 0x43E0000000000000"
definition double_zero :: "64 word" where "double_zero = 0"
definition double_maxUInt64 :: "64 word" where "double_maxUInt64 = 0x43F0000000000000"

section \<open>The wrapper\<close>

record 'j event_value =
  ev_jsonVal :: 'j
  ev_hasInitialized :: bool

text \<open>The two constructors: from a text, with the default member values, and from a value.\<close>

definition HiSysEventValue_parse :: "'j jsoncpp \<Rightarrow> string \<Rightarrow> 'j event_value" where
  "HiSysEventValue_parse jc jsonStr =
     (case jc_parse jc jsonStr of (ok, root) \<Rightarrow> \<lparr>ev_jsonVal = root, ev_hasInitialized = ok\<rparr>)"

definition HiSysEventValue_of :: "'j \<Rightarrow> 'j event_value" where
  "HiSysEventValue_of v = \<lparr>ev_jsonVal = v, ev_hasInitialized = True\<rparr>"

definition HasInitialized :: "'j event_value \<Rightarrow> bool" where
  "HasInitialized ev = ev_hasInitialized ev"

text \<open>The output vector is left alone when there are no names to return.\<close>

definition Value_GetParamNames :: "'j jsoncpp \<Rightarrow> 'j event_value \<Rightarrow> string list \<Rightarrow> string list" where
  "Value_GetParamNames jc ev params =
     (if \<not> ev_hasInitialized ev \<or>
         jc_type jc (ev_jsonVal ev) \<noteq> nullValue \<and> jc_type jc (ev_jsonVal ev) \<noteq> objectValue
      then params else jc_names jc (ev_jsonVal ev))"

definition IsArray :: "'j jsoncpp \<Rightarrow> 'j event_value \<Rightarrow> bool" where
  "IsArray jc ev = (if \<not> ev_hasInitialized ev then False else jc_isArray jc (ev_jsonVal ev))"

definition IsMember :: "'j jsoncpp \<Rightarrow> 'j event_value \<Rightarrow> string \<Rightarrow> bool" where
  "IsMember jc ev key =
     (if \<not> ev_hasInitialized ev \<or> \<not> jc_isObject jc (ev_jsonVal ev) then False
      else jc_isMember jc (ev_jsonVal ev) key)"

definition IsInt64 :: "'j jsoncpp \<Rightarrow> 'j event_value \<Rightarrow> bool" where
  "IsInt64 jc ev = (if \<not> ev_hasInitialized ev then False else jc_isInt64 jc (ev_jsonVal ev))"

definition IsUInt64 :: "'j jsoncpp \<Rightarrow> 'j event_value \<Rightarrow> bool" where
  "IsUInt64 jc ev = (if \<not> ev_hasInitialized ev then False else jc_isUInt64 jc (ev_jsonVal ev))"

definition IsDouble :: "'j jsoncpp \<Rightarrow> 'j event_value \<Rightarrow> bool" where
  "IsDouble jc ev = (if \<not> ev_hasInitialized ev then False else jc_isDouble jc (ev_jsonVal ev))"

definition IsString :: "'j jsoncpp \<Rightarrow> 'j event_value \<Rightarrow> bool" where
  "IsString jc ev = (if \<not> ev_hasInitialized ev then False else jc_isString jc (ev_jsonVal ev))"

definition IsBool :: "'j jsoncpp \<Rightarrow> 'j event_value \<Rightarrow> bool" where
  "IsBool jc ev = (if \<not> ev_hasInitialized ev then False else jc_isBool jc (ev_jsonVal ev))"

definition IsNull :: "'j jsoncpp \<Rightarrow> 'j event_value \<Rightarrow> bool" where
  "IsNull jc ev = (if \<not> ev_hasInitialized ev then False else jc_isNull jc (ev_jsonVal ev))"

definition IsNumeric :: "'j jsoncpp \<Rightarrow> 'j event_value \<Rightarrow> bool" where
  "IsNumeric jc ev = (if \<not> ev_hasInitialized ev then False else jc_isNumeric jc (ev_jsonVal ev))"

definition Index :: "'j jsoncpp \<Rightarrow> 'j event_value \<Rightarrow> int \<Rightarrow> 'j" where
  "Index jc ev index =
     (if \<not> ev_hasInitialized ev \<or> index < 0 \<or>
         jc_type jc (ev_jsonVal ev) \<noteq> nullValue \<and> jc_type jc (ev_jsonVal ev) \<noteq> arrayValue
      then jc_null jc else jc_index jc (ev_jsonVal ev) (nat index))"

definition Value_GetParamValue :: "'j jsoncpp \<Rightarrow> 'j event_value \<Rightarrow> string \<Rightarrow> 'j" where
  "Value_GetParamValue jc ev key =
     (if \<not> ev_hasInitialized ev \<or>
         jc_type jc (ev_jsonVal ev) \<noteq> nullValue \<and> jc_type jc (ev_jsonVal ev) \<noteq> objectValue
      then jc_null jc else jc_member jc (ev_jsonVal ev) key)"

text \<open>The 32-bit unsigned size is returned as an \<^verbatim>\<open>int\<close>.\<close>

definition Size :: "'j jsoncpp \<Rightarrow> 'j event_value \<Rightarrow> int" where
  "Size jc ev = (if \<not> ev_hasInitialized ev then 0 else sint (of_nat (jc_size jc (ev_jsonVal ev)) :: 32 word))"

text \<open>The alternative \<^verbatim>\<open>JSON_HAS_INT64\<close>, which the library defines by default.\<close>

definition AsInt64 :: "'j jsoncpp \<Rightarrow> 'j event_value \<Rightarrow> 64 word option" where
  "AsInt64 jc ev =
     (let v = ev_jsonVal ev in
      if \<not> ev_hasInitialized ev \<or> jc_type jc v = uintValue \<and> \<not> jc_isInt64 jc v then Some 0
      else if jc_type jc v = realValue then
        (case jc_asDouble jc v of
           None \<Rightarrow> None
         | Some d \<Rightarrow> if \<not> InValidRange d double_minInt64 double_maxInt64 then Some 0 else jc_asInt64 jc v)
      else jc_asInt64 jc v)"

definition AsUInt64 :: "'j jsoncpp \<Rightarrow> 'j event_value \<Rightarrow> u64 option" where
  "AsUInt64 jc ev =
     (let v = ev_jsonVal ev in
      if \<not> ev_hasInitialized ev \<or> jc_type jc v = intValue \<and> \<not> jc_isUInt64 jc v then Some 0
      else if jc_type jc v = realValue then
        (case jc_asDouble jc v of
           None \<Rightarrow> None
         | Some d \<Rightarrow> if \<not> InValidRange d double_zero double_maxUInt64 then Some 0 else jc_asUInt64 jc v)
      else jc_asUInt64 jc v)"

definition AsDouble :: "'j jsoncpp \<Rightarrow> 'j event_value \<Rightarrow> 64 word option" where
  "AsDouble jc ev = (if \<not> ev_hasInitialized ev then Some 0 else jc_asDouble jc (ev_jsonVal ev))"

definition AsString :: "'j jsoncpp \<Rightarrow> 'j event_value \<Rightarrow> string option" where
  "AsString jc ev = (if \<not> ev_hasInitialized ev then Some [] else jc_asString jc (ev_jsonVal ev))"

definition Type :: "'j jsoncpp \<Rightarrow> 'j event_value \<Rightarrow> json_type" where
  "Type jc ev = (if \<not> ev_hasInitialized ev then nullValue else jc_type jc (ev_jsonVal ev))"

lemmas value_tests = IsArray_def IsMember_def IsInt64_def IsUInt64_def IsDouble_def IsString_def
  IsBool_def IsNull_def IsNumeric_def

text \<open>The conversions cannot throw on a value that passed the test of its type.\<close>

lemma AsInt64_defined:
  "json_laws jc \<Longrightarrow> IsInt64 jc ev \<or> IsNull jc ev \<or> IsBool jc ev \<Longrightarrow> \<exists>x. AsInt64 jc ev = Some x"
  by (fastforce simp: json_laws_def AsInt64_def Let_def value_tests split: option.split if_splits)

lemma AsUInt64_defined:
  "json_laws jc \<Longrightarrow> IsUInt64 jc ev \<or> IsNull jc ev \<or> IsBool jc ev \<Longrightarrow> \<exists>x. AsUInt64 jc ev = Some x"
  by (fastforce simp: json_laws_def AsUInt64_def Let_def value_tests split: option.split if_splits)

lemma AsDouble_defined:
  "json_laws jc \<Longrightarrow> IsDouble jc ev \<or> IsNull jc ev \<or> IsBool jc ev \<Longrightarrow> \<exists>x. AsDouble jc ev = Some x"
  by (auto simp: json_laws_def AsDouble_def value_tests split: if_splits)

lemma AsString_defined:
  "json_laws jc \<Longrightarrow> IsNull jc ev \<or> IsBool jc ev \<or> IsNumeric jc ev \<or> IsString jc ev \<Longrightarrow>
   \<exists>x. AsString jc ev = Some x"
  by (auto simp: json_laws_def AsString_def value_tests split: if_splits)

section \<open>A concrete library\<close>

text \<open>
  A small JSON value type with the conversions of the library, which shows that
  \<open>json_laws\<close> can hold; \<open>plain_json doc\<close> parses every text to the document \<open>doc\<close>, or
  refuses it when there is none.
\<close>

datatype json = JNull | JBool bool | JInt int | JReal "64 word" | JStr string | JArr "json list" | JObj "(string \<times> json) list"

primrec json_kind :: "json \<Rightarrow> json_type" where
  "json_kind JNull = nullValue"
| "json_kind (JBool b) = otherValue"
| "json_kind (JInt i) = (if i < 0 then intValue else uintValue)"
| "json_kind (JReal d) = realValue"
| "json_kind (JStr s) = otherValue"
| "json_kind (JArr xs) = arrayValue"
| "json_kind (JObj kvs) = objectValue"

fun int_between :: "int \<Rightarrow> int \<Rightarrow> json \<Rightarrow> bool" where
  "int_between mn mx (JInt i) = (mn \<le> i \<and> i \<le> mx)"
| "int_between mn mx v = False"

fun json_int :: "json \<Rightarrow> int option" where
  "json_int JNull = Some 0"
| "json_int (JBool b) = Some (if b then 1 else 0)"
| "json_int (JInt i) = Some i"
| "json_int v = None"

definition json_word :: "int \<Rightarrow> int \<Rightarrow> json \<Rightarrow> 'w::len word option" where
  "json_word mn mx v =
     (case json_int v of None \<Rightarrow> None | Some i \<Rightarrow> if mn \<le> i \<and> i \<le> mx then Some (of_int i) else None)"

fun json_text :: "json \<Rightarrow> string option" where
  "json_text JNull = Some ''''"
| "json_text (JBool b) = Some (if b then ''true'' else ''false'')"
| "json_text (JInt i) = Some (decimal_int i)"
| "json_text (JReal d) = Some ''0.0''"
| "json_text (JStr s) = Some s"
| "json_text v = None"

fun json_double :: "json \<Rightarrow> 64 word option" where
  "json_double (JReal d) = Some d"
| "json_double JNull = Some 0"
| "json_double (JBool b) = Some (if b then 0x3FF0000000000000 else 0)"
| "json_double (JInt i) = Some 0"
| "json_double v = None"

fun json_members :: "json \<Rightarrow> (string \<times> json) list" where
  "json_members (JObj kvs) = kvs"
| "json_members v = []"

fun json_items :: "json \<Rightarrow> json list" where
  "json_items (JArr xs) = xs"
| "json_items v = []"

definition json_entry :: "json \<Rightarrow> string \<Rightarrow> json" where
  "json_entry v k = (case map_of (json_members v) k of None \<Rightarrow> JNull | Some x \<Rightarrow> x)"

definition plain_json :: "json option \<Rightarrow> json jsoncpp" where
  "plain_json doc =
     \<lparr>jc_parse = (\<lambda>s. case doc of None \<Rightarrow> (False, JNull) | Some v \<Rightarrow> (True, v)), jc_null = JNull,
      jc_type = json_kind, jc_isNull = (\<lambda>v. v = JNull), jc_isBool = (\<lambda>v. v = JBool True \<or> v = JBool False),
      jc_isInt = int_between (- (2 ^ 31)) (2 ^ 31 - 1), jc_isUInt = int_between 0 (2 ^ 32 - 1),
      jc_isInt64 = int_between (- (2 ^ 63)) (2 ^ 63 - 1), jc_isUInt64 = int_between 0 (2 ^ 64 - 1),
      jc_isDouble = (\<lambda>v. json_kind v \<in> {intValue, uintValue, realValue}),
      jc_isNumeric = (\<lambda>v. json_kind v \<in> {intValue, uintValue, realValue}),
      jc_isString = (\<lambda>v. case v of JStr s \<Rightarrow> True | _ \<Rightarrow> False),
      jc_isArray = (\<lambda>v. json_kind v = arrayValue), jc_isObject = (\<lambda>v. json_kind v = objectValue),
      jc_isMember = (\<lambda>v k. map_of (json_members v) k \<noteq> None), jc_member = json_entry,
      jc_names = (\<lambda>v. map fst (json_members v)), jc_size = (\<lambda>v. length (json_items v) + length (json_members v)),
      jc_index = (\<lambda>v i. if i < length (json_items v) then json_items v ! i else JNull),
      jc_asInt = json_word (- (2 ^ 31)) (2 ^ 31 - 1), jc_asUInt = json_word 0 (2 ^ 32 - 1),
      jc_asInt64 = json_word (- (2 ^ 63)) (2 ^ 63 - 1), jc_asUInt64 = json_word 0 (2 ^ 64 - 1),
      jc_asDouble = json_double, jc_asString = json_text\<rparr>"

lemma plain_json_laws: "json_laws (plain_json doc)"
proof -
  have "v = JNull \<or> v = JBool True \<or> v = JBool False \<Longrightarrow>
      (json_word (- (2 ^ 63)) (2 ^ 63 - 1) v :: 64 word option) \<noteq> None \<and> (json_word 0 (2 ^ 64 - 1) v :: 64 word option) \<noteq> None \<and>
      json_double v \<noteq> None \<and> json_text v \<noteq> None" for v
    by (auto simp: json_word_def)
  moreover have "int_between mn mx v \<Longrightarrow> (json_word mn mx v :: 64 word option) \<noteq> None" for mn mx v
    by (cases v) (auto simp: json_word_def)
  moreover have "json_kind v \<in> {intValue, uintValue, realValue} \<Longrightarrow> json_double v \<noteq> None \<and> json_text v \<noteq> None" for v
    by (cases v) auto
  moreover have "(case v of JStr s \<Rightarrow> True | _ \<Rightarrow> False) \<Longrightarrow> json_text v \<noteq> None" for v
    by (cases v) auto
  ultimately show ?thesis
    unfolding json_laws_def plain_json_def by simp
qed

end
