(* ===== verification/RecordReader.thy ===== *)
theory RecordReader
  imports EventValue
begin

text \<open>
  Reading an event record, \<^verbatim>\<open>HiSysEventRecord\<close> of the event manager
  (hisysevent_record.cpp): the four scalar and the four array readers, the member functions
  for the built-in keys, and what they return on a record that is no JSON, on a missing key,
  on a value of another type, and when a conversion of the library throws.
\<close>

section \<open>The record and its generic reader\<close>

definition VALUE_PARSED_SUCCEED :: int where "VALUE_PARSED_SUCCEED = 0"
definition ERR_INIT_FAILED :: int where "ERR_INIT_FAILED = -1"
definition ERR_KEY_NOT_EXIST :: int where "ERR_KEY_NOT_EXIST = -2"
definition ERR_TYPE_NOT_MATCH :: int where "ERR_TYPE_NOT_MATCH = -3"

lemmas read_codes = VALUE_PARSED_SUCCEED_def ERR_INIT_FAILED_def ERR_KEY_NOT_EXIST_def ERR_TYPE_NOT_MATCH_def

record 'j event_record =
  er_jsonStr :: string
  er_jsonVal :: "'j event_value"

definition Record_ParseJsonStr :: "'j jsoncpp \<Rightarrow> string \<Rightarrow> 'j event_record" where
  "Record_ParseJsonStr jc jsonStr =
     \<lparr>er_jsonStr = jsonStr, er_jsonVal = HiSysEventValue_parse jc jsonStr\<rparr>"

definition AsJson :: "'j event_record \<Rightarrow> string" where
  "AsJson rec = er_jsonStr rec"

definition GetParamNames :: "'j jsoncpp \<Rightarrow> 'j event_record \<Rightarrow> string list \<Rightarrow> string list" where
  "GetParamNames jc rec params = Value_GetParamNames jc (er_jsonVal rec) params"

text \<open>
  The private overload with a filter (true: refuse) and an assignment. The output \<open>value\<close>
  is passed in and returned with the result code; \<open>None\<close> is an exception on its way out.
\<close>

definition GetParamValue_with ::
  "'j jsoncpp \<Rightarrow> 'j event_record \<Rightarrow> string \<Rightarrow> ('j event_value \<Rightarrow> bool) \<Rightarrow>
   ('j event_value \<Rightarrow> 'v \<Rightarrow> 'v option) \<Rightarrow> 'v \<Rightarrow> ('v \<times> int) option" where
  "GetParamValue_with jc rec param filterFunc assignFunc value =
     (if \<not> HasInitialized (er_jsonVal rec) then Some (value, ERR_INIT_FAILED)
      else if \<not> IsMember jc (er_jsonVal rec) param then Some (value, ERR_KEY_NOT_EXIST)
      else
        let parsedVal = HiSysEventValue_of (Value_GetParamValue jc (er_jsonVal rec) param) in
        if filterFunc parsedVal then Some (value, ERR_TYPE_NOT_MATCH)
        else map_option (\<lambda>v. (v, VALUE_PARSED_SUCCEED)) (assignFunc parsedVal value))"

definition IsInt64ValueType :: "'j jsoncpp \<Rightarrow> 'j event_value \<Rightarrow> bool" where
  "IsInt64ValueType jc val \<longleftrightarrow> IsInt64 jc val \<or> IsNull jc val \<or> IsBool jc val"

definition IsUInt64ValueType :: "'j jsoncpp \<Rightarrow> 'j event_value \<Rightarrow> bool" where
  "IsUInt64ValueType jc val \<longleftrightarrow> IsUInt64 jc val \<or> IsNull jc val \<or> IsBool jc val"

definition IsDoubleValueType :: "'j jsoncpp \<Rightarrow> 'j event_value \<Rightarrow> bool" where
  "IsDoubleValueType jc val \<longleftrightarrow> IsDouble jc val \<or> IsNull jc val \<or> IsBool jc val"

definition IsStringValueType :: "'j jsoncpp \<Rightarrow> 'j event_value \<Rightarrow> bool" where
  "IsStringValueType jc val \<longleftrightarrow> IsNull jc val \<or> IsBool jc val \<or> IsNumeric jc val \<or> IsString jc val"

text \<open>\<^verbatim>\<open>IsArray\<close> with a filter tests the first item only.\<close>

definition IsArrayOf :: "'j jsoncpp \<Rightarrow> ('j event_value \<Rightarrow> bool) \<Rightarrow> 'j event_value \<Rightarrow> bool" where
  "IsArrayOf jc filterFunc val =
     (if \<not> IsArray jc val then False
      else if Size jc val > 0 then filterFunc (HiSysEventValue_of (Index jc val 0))
      else Size jc val = 0)"

lemmas value_types = IsInt64ValueType_def IsUInt64ValueType_def IsDoubleValueType_def IsStringValueType_def

section \<open>The public readers\<close>

definition GetParamValue_int64 ::
  "'j jsoncpp \<Rightarrow> 'j event_record \<Rightarrow> string \<Rightarrow> 64 word \<Rightarrow> (64 word \<times> int) option" where
  "GetParamValue_int64 jc rec param =
     GetParamValue_with jc rec param (\<lambda>val. \<not> IsInt64ValueType jc val) (\<lambda>src value. AsInt64 jc src)"

definition GetParamValue_uint64 ::
  "'j jsoncpp \<Rightarrow> 'j event_record \<Rightarrow> string \<Rightarrow> u64 \<Rightarrow> (u64 \<times> int) option" where
  "GetParamValue_uint64 jc rec param =
     GetParamValue_with jc rec param (\<lambda>val. \<not> IsUInt64ValueType jc val) (\<lambda>src value. AsUInt64 jc src)"

definition GetParamValue_double ::
  "'j jsoncpp \<Rightarrow> 'j event_record \<Rightarrow> string \<Rightarrow> 64 word \<Rightarrow> (64 word \<times> int) option" where
  "GetParamValue_double jc rec param =
     GetParamValue_with jc rec param (\<lambda>val. \<not> IsDoubleValueType jc val) (\<lambda>src value. AsDouble jc src)"

definition GetParamValue_string ::
  "'j jsoncpp \<Rightarrow> 'j event_record \<Rightarrow> string \<Rightarrow> string \<Rightarrow> (string \<times> int) option" where
  "GetParamValue_string jc rec param =
     GetParamValue_with jc rec param (\<lambda>val. \<not> IsStringValueType jc val) (\<lambda>src value. AsString jc src)"

text \<open>
  The loop of the array readers: \<open>as\<close> converts an item, which is appended to the vector the
  caller passed in; \<open>n\<close> items are left, the next one has index \<open>i\<close>.
\<close>

primrec append_items ::
  "'j jsoncpp \<Rightarrow> ('j \<Rightarrow> 'v option) \<Rightarrow> 'j event_value \<Rightarrow> nat \<Rightarrow> int \<Rightarrow> 'v list \<Rightarrow> 'v list option" where
  "append_items jc as src 0 i value = Some value"
| "append_items jc as src (Suc n) i value =
     (case as (Index jc src i) of
        None \<Rightarrow> None
      | Some x \<Rightarrow> append_items jc as src n (i + 1) (value @ [x]))"

definition assign_items :: "'j jsoncpp \<Rightarrow> ('j \<Rightarrow> 'v option) \<Rightarrow> 'j event_value \<Rightarrow> 'v list \<Rightarrow> 'v list option" where
  "assign_items jc as src value = append_items jc as src (nat (Size jc src)) 0 value"

definition GetParamValue_int64s ::
  "'j jsoncpp \<Rightarrow> 'j event_record \<Rightarrow> string \<Rightarrow> 64 word list \<Rightarrow> (64 word list \<times> int) option" where
  "GetParamValue_int64s jc rec param =
     GetParamValue_with jc rec param (\<lambda>val. \<not> IsArrayOf jc (IsInt64ValueType jc) val)
       (assign_items jc (jc_asInt64 jc))"

definition GetParamValue_uint64s ::
  "'j jsoncpp \<Rightarrow> 'j event_record \<Rightarrow> string \<Rightarrow> u64 list \<Rightarrow> (u64 list \<times> int) option" where
  "GetParamValue_uint64s jc rec param =
     GetParamValue_with jc rec param (\<lambda>val. \<not> IsArrayOf jc (IsUInt64ValueType jc) val)
       (assign_items jc (jc_asUInt64 jc))"

definition GetParamValue_doubles ::
  "'j jsoncpp \<Rightarrow> 'j event_record \<Rightarrow> string \<Rightarrow> 64 word list \<Rightarrow> (64 word list \<times> int) option" where
  "GetParamValue_doubles jc rec param =
     GetParamValue_with jc rec param (\<lambda>val. \<not> IsArrayOf jc (IsDoubleValueType jc) val)
       (assign_items jc (jc_asDouble jc))"

definition GetParamValue_strings ::
  "'j jsoncpp \<Rightarrow> 'j event_record \<Rightarrow> string \<Rightarrow> string list \<Rightarrow> (string list \<times> int) option" where
  "GetParamValue_strings jc rec param =
     GetParamValue_with jc rec param (\<lambda>val. \<not> IsArrayOf jc (IsStringValueType jc) val)
       (assign_items jc (jc_asString jc))"

lemmas scalar_reads = GetParamValue_int64_def GetParamValue_uint64_def GetParamValue_double_def GetParamValue_string_def
lemmas array_reads = GetParamValue_int64s_def GetParamValue_uint64s_def GetParamValue_doubles_def GetParamValue_strings_def

section \<open>The built-in keys\<close>

definition GetInt64ValueByKey :: "'j jsoncpp \<Rightarrow> 'j event_record \<Rightarrow> string \<Rightarrow> 64 word option" where
  "GetInt64ValueByKey jc rec key = map_option fst (GetParamValue_int64 jc rec key 0)"

definition GetUInt64ValueByKey :: "'j jsoncpp \<Rightarrow> 'j event_record \<Rightarrow> string \<Rightarrow> u64 option" where
  "GetUInt64ValueByKey jc rec key = map_option fst (GetParamValue_uint64 jc rec key 0)"

definition GetStringValueByKey :: "'j jsoncpp \<Rightarrow> 'j event_record \<Rightarrow> string \<Rightarrow> string option" where
  "GetStringValueByKey jc rec key = map_option fst (GetParamValue_string jc rec key [])"

definition GetIntValueByKey :: "'j jsoncpp \<Rightarrow> 'j event_record \<Rightarrow> string \<Rightarrow> 32 word option" where
  "GetIntValueByKey jc rec key = map_option ucast (GetInt64ValueByKey jc rec key)"

definition GetDomain :: "'j jsoncpp \<Rightarrow> 'j event_record \<Rightarrow> string option" where
  "GetDomain jc rec = GetStringValueByKey jc rec ''domain_''"

definition GetEventName :: "'j jsoncpp \<Rightarrow> 'j event_record \<Rightarrow> string option" where
  "GetEventName jc rec = GetStringValueByKey jc rec ''name_''"

definition GetEventType :: "'j jsoncpp \<Rightarrow> 'j event_record \<Rightarrow> 32 word option" where
  "GetEventType jc rec = GetIntValueByKey jc rec ''type_''"

definition GetTime :: "'j jsoncpp \<Rightarrow> 'j event_record \<Rightarrow> u64 option" where
  "GetTime jc rec = GetUInt64ValueByKey jc rec ''time_''"

definition GetTimeZone :: "'j jsoncpp \<Rightarrow> 'j event_record \<Rightarrow> string option" where
  "GetTimeZone jc rec = GetStringValueByKey jc rec ''tz_''"

definition GetPid :: "'j jsoncpp \<Rightarrow> 'j event_record \<Rightarrow> 64 word option" where
  "GetPid jc rec = GetInt64ValueByKey jc rec ''pid_''"

definition GetTid :: "'j jsoncpp \<Rightarrow> 'j event_record \<Rightarrow> 64 word option" where
  "GetTid jc rec = GetInt64ValueByKey jc rec ''tid_''"

definition GetUid :: "'j jsoncpp \<Rightarrow> 'j event_record \<Rightarrow> 64 word option" where
  "GetUid jc rec = GetInt64ValueByKey jc rec ''uid_''"

definition GetSpanId :: "'j jsoncpp \<Rightarrow> 'j event_record \<Rightarrow> u64 option" where
  "GetSpanId jc rec = GetUInt64ValueByKey jc rec ''spanid_''"

definition GetPspanId :: "'j jsoncpp \<Rightarrow> 'j event_record \<Rightarrow> u64 option" where
  "GetPspanId jc rec = GetUInt64ValueByKey jc rec ''pspanid_''"

definition GetTraceFlag :: "'j jsoncpp \<Rightarrow> 'j event_record \<Rightarrow> 32 word option" where
  "GetTraceFlag jc rec = map_option ucast (GetInt64ValueByKey jc rec ''trace_flag_'')"

definition GetLevel :: "'j jsoncpp \<Rightarrow> 'j event_record \<Rightarrow> string option" where
  "GetLevel jc rec = GetStringValueByKey jc rec ''level_''"

definition GetTag :: "'j jsoncpp \<Rightarrow> 'j event_record \<Rightarrow> string option" where
  "GetTag jc rec = GetStringValueByKey jc rec ''tag_''"

text \<open>
  \<^verbatim>\<open>ss >> std::hex >> traceId\<close> of the standard library: white space is skipped, then an
  optional sign and an optional prefix \<^verbatim>\<open>0x\<close> are read, then as many hexadecimal digits as
  follow. Without digits the result is zero, a value that does not fit gives the largest
  one, and a minus sign negates modulo \<open>2 ^ 64\<close>.
\<close>

definition hex_digit :: "char \<Rightarrow> nat option" where
  "hex_digit c =
     (let n = of_char c :: nat in
      if 48 \<le> n \<and> n \<le> 57 then Some (n - 48)
      else if 97 \<le> n \<and> n \<le> 102 then Some (n - 87)
      else if 65 \<le> n \<and> n \<le> 70 then Some (n - 55) else None)"

fun hex_value :: "string \<Rightarrow> nat \<Rightarrow> nat" where
  "hex_value [] acc = acc"
| "hex_value (c # cs) acc =
     (case hex_digit c of None \<Rightarrow> acc | Some d \<Rightarrow> hex_value cs (16 * acc + d))"

fun hex_prefix :: "string \<Rightarrow> string" where
  "hex_prefix (a # x # cs) = (if a = CHR ''0'' \<and> (x = CHR ''x'' \<or> x = CHR ''X'') then cs else a # x # cs)"
| "hex_prefix cs = cs"

definition blank :: "char \<Rightarrow> bool" where
  "blank c \<longleftrightarrow> c = CHR '' '' \<or> (9 \<le> (of_char c :: nat) \<and> (of_char c :: nat) \<le> 13)"

definition read_hex :: "string \<Rightarrow> u64" where
  "read_hex s =
     (let t = dropWhile blank s in
      let neg = (t \<noteq> [] \<and> hd t = CHR ''-'') in
      let body = (if t \<noteq> [] \<and> (hd t = CHR ''-'' \<or> hd t = CHR ''+'') then tl t else t) in
      let v = hex_value (hex_prefix body) 0 in
      if v \<ge> 2 ^ 64 then - 1 else if neg then - of_nat v else of_nat v)"

definition GetTraceId :: "'j jsoncpp \<Rightarrow> 'j event_record \<Rightarrow> u64 option" where
  "GetTraceId jc rec = map_option read_hex (GetStringValueByKey jc rec ''traceid_'')"

section \<open>What the readers return\<close>

text \<open>A reader whose assignment cannot throw behind its filter never throws.\<close>

lemma GetParamValue_with_total:
  assumes "\<And>val. \<not> filt val \<Longrightarrow> \<exists>x. assign val value = Some x"
  shows "\<exists>v r. GetParamValue_with jc rec param filt assign value = Some (v, r) \<and>
    r \<in> {VALUE_PARSED_SUCCEED, ERR_INIT_FAILED, ERR_KEY_NOT_EXIST, ERR_TYPE_NOT_MATCH} \<and>
    (r \<noteq> VALUE_PARSED_SUCCEED \<longrightarrow> v = value)"
  using assms [of "HiSysEventValue_of (Value_GetParamValue jc (er_jsonVal rec) param)"]
  by (auto simp: GetParamValue_with_def Let_def)

definition read_ok :: "('v \<times> int) option \<Rightarrow> 'v \<Rightarrow> bool" where
  "read_ok res value \<longleftrightarrow> (case res of None \<Rightarrow> False
   | Some (v, r) \<Rightarrow>
       r \<in> {VALUE_PARSED_SUCCEED, ERR_INIT_FAILED, ERR_KEY_NOT_EXIST, ERR_TYPE_NOT_MATCH} \<and>
       (r \<noteq> VALUE_PARSED_SUCCEED \<longrightarrow> v = value))"

lemma read_okI:
  assumes "\<And>val. \<not> filt val \<Longrightarrow> \<exists>x. assign val value = Some x"
  shows "read_ok (GetParamValue_with jc rec param filt assign value) value"
  using GetParamValue_with_total [of filt assign "value" jc rec param] assms by (fastforce simp: read_ok_def)

text \<open>
  C21. Reading a scalar is safe: whatever the record holds, none of the four scalar readers
  lets an exception of the JSON library escape; each returns one of the four documented
  codes, and every code but success leaves the output variable as it was.
\<close>

theorem scalar_reads_safe:
  assumes "json_laws jc"
  shows "read_ok (GetParamValue_int64 jc rec key i) i \<and>
    read_ok (GetParamValue_uint64 jc rec key u) u \<and>
    read_ok (GetParamValue_double jc rec key d) d \<and>
    read_ok (GetParamValue_string jc rec key s) s"
  using AsInt64_defined [OF assms] AsUInt64_defined [OF assms] AsDouble_defined [OF assms] AsString_defined [OF assms]
  by (intro conjI; unfold scalar_reads; intro read_okI) (auto simp: value_types)

definition sample_doc :: json where
  "sample_doc = JObj [(''domain_'', JStr ''HIVIEWDFX''), (''name_'', JStr ''E''), (''type_'', JInt 4),
     (''time_'', JInt 1700000000000), (''tz_'', JStr ''+0800''), (''pid_'', JInt 12), (''uid_'', JStr ''x''),
     (''traceid_'', JStr ''a1b2''), (''A'', JArr [JInt 1, JInt 2]), (''M'', JArr [JInt 1, JStr ''x''])]"

theorem scalar_reads_safe_witness:
  "read_ok (GetParamValue_int64 (plain_json (Some sample_doc)) (Record_ParseJsonStr (plain_json (Some sample_doc)) '''') ''uid_'' 7) 7"
  using scalar_reads_safe [OF plain_json_laws] by blast

text \<open>What an array reader returns on an array, by the items of the value.\<close>

definition array_result ::
  "'j jsoncpp \<Rightarrow> ('j event_value \<Rightarrow> bool) \<Rightarrow> ('j \<Rightarrow> 'v option) \<Rightarrow> 'j \<Rightarrow> 'v list \<Rightarrow> ('v list \<times> int) option" where
  "array_result jc test conv v value =
     (if 0 < jc_size jc v \<and> \<not> test (HiSysEventValue_of (jc_index jc v 0)) then Some (value, ERR_TYPE_NOT_MATCH)
      else if \<exists>i < jc_size jc v. conv (jc_index jc v i) = None then None
      else Some (value @ map (\<lambda>i. the (conv (jc_index jc v i))) [0..<jc_size jc v], VALUE_PARSED_SUCCEED))"

lemma append_items_array:
  assumes "ev_hasInitialized src" "jc_type jc (ev_jsonVal src) = arrayValue"
  shows "append_items jc conv src n (int i) value =
    (if \<exists>k < n. conv (jc_index jc (ev_jsonVal src) (i + k)) = None then None
     else Some (value @ map (\<lambda>k. the (conv (jc_index jc (ev_jsonVal src) k))) [i..<i + n]))"
proof (induction n arbitrary: i "value")
  case (Suc n)
  let ?c = "\<lambda>k. conv (jc_index jc (ev_jsonVal src) k)"
  have idx: "Index jc src (int i) = jc_index jc (ev_jsonVal src) i"
    using assms by (simp add: Index_def)
  show ?case
  proof (cases "?c i")
    case None
    then show ?thesis
      using idx by auto
  next
    case (Some x)
    have "(\<exists>k<Suc n. ?c (i + k) = None) \<longleftrightarrow> (\<exists>k<n. ?c (Suc i + k) = None)"
      using Some by (auto simp: less_Suc_eq_0_disj)
    moreover have "[i..<i + Suc n] = i # [Suc i..<Suc i + n]"
      by (simp add: upt_conv_Cons)
    ultimately show ?thesis
      using Some idx Suc.IH [of "Suc i" "value @ [x]"] by (simp add: add.commute)
  qed
qed simp

lemma sint_size: "n < 2 ^ 31 \<Longrightarrow> sint (word_of_nat n :: 32 word) = int n"
  by (simp add: sint_uint unat_of_nat uint_nat signed_take_bit_int_eq_self_iff)

lemma array_read:
  assumes "HasInitialized (er_jsonVal rec)" "IsMember jc (er_jsonVal rec) key"
    and "v = Value_GetParamValue jc (er_jsonVal rec) key"
    and "jc_type jc v = arrayValue" "jc_isArray jc v" "jc_size jc v < 2 ^ 31"
  shows "GetParamValue_with jc rec key (\<lambda>val. \<not> IsArrayOf jc test val) (assign_items jc conv) value =
    array_result jc test conv v value"
proof -
  let ?ev = "HiSysEventValue_of v"
  have ev: "ev_hasInitialized ?ev" "jc_type jc (ev_jsonVal ?ev) = arrayValue" "ev_jsonVal ?ev = v"
    using assms by (simp_all add: HiSysEventValue_of_def)
  have size: "Size jc ?ev = int (jc_size jc v)"
    using ev sint_size [OF assms(6)] by (simp add: Size_def)
  have items: "assign_items jc conv ?ev value =
      (if \<exists>i < jc_size jc v. conv (jc_index jc v i) = None then None
       else Some (value @ map (\<lambda>i. the (conv (jc_index jc v i))) [0..<jc_size jc v]))"
    using append_items_array [OF ev(1,2), of conv "jc_size jc v" 0 "value"] size ev(3)
    by (simp add: assign_items_def)
  have arr: "IsArrayOf jc test ?ev \<longleftrightarrow> jc_size jc v = 0 \<or> test (HiSysEventValue_of (jc_index jc v 0))"
    using ev assms(4,5) size by (auto simp: IsArrayOf_def IsArray_def Index_def)
  show ?thesis
    unfolding GetParamValue_with_def Let_def assms(3) [symmetric] array_result_def
    using assms(1,2) items arr by auto
qed

text \<open>
  Reading an array, exactly: the type is judged by the first item alone. An array whose
  first item has another type is refused with the output untouched; otherwise the converted
  items are appended to the output in order, unless a later item does not convert: then the
  exception of the JSON library escapes from the reader.
\<close>

lemma array_reads_exact:
  assumes "HasInitialized (er_jsonVal rec)" "IsMember jc (er_jsonVal rec) key"
    and "v = Value_GetParamValue jc (er_jsonVal rec) key"
    and "jc_type jc v = arrayValue" "jc_isArray jc v" "jc_size jc v < 2 ^ 31"
  shows "GetParamValue_int64s jc rec key is = array_result jc (IsInt64ValueType jc) (jc_asInt64 jc) v is \<and>
    GetParamValue_uint64s jc rec key us = array_result jc (IsUInt64ValueType jc) (jc_asUInt64 jc) v us \<and>
    GetParamValue_doubles jc rec key ds = array_result jc (IsDoubleValueType jc) (jc_asDouble jc) v ds \<and>
    GetParamValue_strings jc rec key ss = array_result jc (IsStringValueType jc) (jc_asString jc) v ss"
  unfolding array_reads by (intro conjI array_read [OF assms])

lemma array_reads_exact_example:
  "GetParamValue_int64s (plain_json (Some sample_doc)) (Record_ParseJsonStr (plain_json (Some sample_doc)) '''') ''A'' [] =
     Some ([1, 2], VALUE_PARSED_SUCCEED) \<and>
   GetParamValue_int64s (plain_json (Some sample_doc)) (Record_ParseJsonStr (plain_json (Some sample_doc)) '''') ''M'' [] = None"
proof -
  let ?jc = "plain_json (Some sample_doc)" and ?rec = "Record_ParseJsonStr (plain_json (Some sample_doc)) ''''"
  note eval = plain_json_def sample_doc_def Record_ParseJsonStr_def HiSysEventValue_parse_def HasInitialized_def
    IsMember_def Value_GetParamValue_def json_entry_def
  have "GetParamValue_int64s ?jc ?rec ''A'' [] = array_result ?jc (IsInt64ValueType ?jc) (jc_asInt64 ?jc) (JArr [JInt 1, JInt 2]) []"
    by (rule array_reads_exact [THEN conjunct1]) (simp_all add: eval)
  moreover have "GetParamValue_int64s ?jc ?rec ''M'' [] = array_result ?jc (IsInt64ValueType ?jc) (jc_asInt64 ?jc) (JArr [JInt 1, JStr ''x'']) []"
    by (rule array_reads_exact [THEN conjunct1]) (simp_all add: eval)
  moreover have "array_result ?jc (IsInt64ValueType ?jc) (jc_asInt64 ?jc) (JArr [JInt 1, JInt 2]) [] = Some ([1, 2], VALUE_PARSED_SUCCEED)"
    "array_result ?jc (IsInt64ValueType ?jc) (jc_asInt64 ?jc) (JArr [JInt 1, JStr ''x'']) [] = None"
    by (auto simp: array_result_def plain_json_def IsInt64ValueType_def IsInt64_def HiSysEventValue_of_def
        json_word_def less_Suc_eq)
  ultimately show ?thesis
    by (simp only:)
qed

definition key_ok :: "bool \<Rightarrow> 'v \<Rightarrow> 'v option \<Rightarrow> bool" where
  "key_ok init dflt res \<longleftrightarrow> (case res of None \<Rightarrow> False | Some v \<Rightarrow> init \<or> v = dflt)"

lemma key_ok_map: "key_ok init dflt res \<Longrightarrow> f dflt = dflt' \<Longrightarrow> key_ok init dflt' (map_option f res)"
  by (auto simp: key_ok_def split: option.splits)

lemma key_ok_read:
  assumes "\<And>val. \<not> filt val \<Longrightarrow> \<exists>x. assign val dflt = Some x"
  shows "key_ok (HasInitialized (er_jsonVal rec)) dflt (map_option fst (GetParamValue_with jc rec k filt assign dflt))"
  using assms [of "HiSysEventValue_of (Value_GetParamValue jc (er_jsonVal rec) k)"]
  by (auto simp: key_ok_def GetParamValue_with_def Let_def)

lemma builtin_keys:
  assumes "json_laws jc"
  shows "key_ok (HasInitialized (er_jsonVal rec)) [] (GetDomain jc rec) \<and> key_ok (HasInitialized (er_jsonVal rec)) [] (GetEventName jc rec) \<and>
    key_ok (HasInitialized (er_jsonVal rec)) 0 (GetEventType jc rec) \<and> key_ok (HasInitialized (er_jsonVal rec)) 0 (GetTime jc rec) \<and> key_ok (HasInitialized (er_jsonVal rec)) [] (GetTimeZone jc rec) \<and>
    key_ok (HasInitialized (er_jsonVal rec)) 0 (GetPid jc rec) \<and> key_ok (HasInitialized (er_jsonVal rec)) 0 (GetTid jc rec) \<and> key_ok (HasInitialized (er_jsonVal rec)) 0 (GetUid jc rec) \<and>
    key_ok (HasInitialized (er_jsonVal rec)) 0 (GetTraceId jc rec) \<and> key_ok (HasInitialized (er_jsonVal rec)) 0 (GetSpanId jc rec) \<and> key_ok (HasInitialized (er_jsonVal rec)) 0 (GetPspanId jc rec) \<and>
    key_ok (HasInitialized (er_jsonVal rec)) 0 (GetTraceFlag jc rec) \<and> key_ok (HasInitialized (er_jsonVal rec)) [] (GetLevel jc rec) \<and> key_ok (HasInitialized (er_jsonVal rec)) [] (GetTag jc rec)"
proof -
  have str: "key_ok (HasInitialized (er_jsonVal rec)) [] (GetStringValueByKey jc rec k)" for k
    using AsString_defined [OF assms] unfolding GetStringValueByKey_def scalar_reads
    by (intro key_ok_read) (auto simp: value_types)
  have int: "key_ok (HasInitialized (er_jsonVal rec)) 0 (GetInt64ValueByKey jc rec k)" for k
    using AsInt64_defined [OF assms] unfolding GetInt64ValueByKey_def scalar_reads
    by (intro key_ok_read) (auto simp: value_types)
  have uint: "key_ok (HasInitialized (er_jsonVal rec)) 0 (GetUInt64ValueByKey jc rec k)" for k
    using AsUInt64_defined [OF assms] unfolding GetUInt64ValueByKey_def scalar_reads
    by (intro key_ok_read) (auto simp: value_types)
  show ?thesis
    unfolding GetDomain_def GetEventName_def GetTimeZone_def GetLevel_def GetTag_def GetEventType_def GetIntValueByKey_def
      GetPid_def GetTid_def GetUid_def GetTraceFlag_def GetTime_def GetTraceId_def GetSpanId_def GetPspanId_def
    by (intro conjI str int uint key_ok_map [OF str] key_ok_map [OF int]) (simp_all add: read_hex_def)
qed

text \<open>
  The member functions for the built-in keys are total: on every record each of them
  returns a value, and on a text that is no JSON this is zero or the empty text.
\<close>

theorem builtin_keys_total:
  assumes "json_laws jc" and "init = HasInitialized (er_jsonVal rec)"
  shows "key_ok init [] (GetDomain jc rec) \<and> key_ok init [] (GetEventName jc rec) \<and>
    key_ok init 0 (GetEventType jc rec) \<and> key_ok init 0 (GetTime jc rec) \<and> key_ok init [] (GetTimeZone jc rec) \<and>
    key_ok init 0 (GetPid jc rec) \<and> key_ok init 0 (GetTid jc rec) \<and> key_ok init 0 (GetUid jc rec) \<and>
    key_ok init 0 (GetTraceId jc rec) \<and> key_ok init 0 (GetSpanId jc rec) \<and> key_ok init 0 (GetPspanId jc rec) \<and>
    key_ok init 0 (GetTraceFlag jc rec) \<and> key_ok init [] (GetLevel jc rec) \<and> key_ok init [] (GetTag jc rec)"
  unfolding assms(2) by (rule builtin_keys [OF assms(1)])

theorem builtin_keys_total_witness:
  "key_ok False [] (GetDomain (plain_json None) (Record_ParseJsonStr (plain_json None) ''{''))"
proof -
  have "False = HasInitialized (er_jsonVal (Record_ParseJsonStr (plain_json None) ''{''))"
    by (simp add: HasInitialized_def Record_ParseJsonStr_def HiSysEventValue_parse_def plain_json_def)
  from builtin_keys_total [OF plain_json_laws this] show ?thesis
    by blast
qed

section \<open>Trace ids\<close>

text \<open>The hexadecimal text of a number, without prefix and leading zeros.\<close>

definition hex_char :: "nat \<Rightarrow> char" where
  "hex_char d = char_of (if d < 10 then d + 48 else d + 87)"

fun hex_text :: "nat \<Rightarrow> string" where
  "hex_text n = (if n < 16 then [hex_char n] else hex_text (n div 16) @ [hex_char (n mod 16)])"

declare hex_text.simps [simp del]

lemma of_char_hex_char: "d < 16 \<Longrightarrow> (of_char (hex_char d) :: nat) = (if d < 10 then d + 48 else d + 87)"
  by (auto simp: hex_char_def)

lemma hex_digit_hex_char [simp]: "d < 16 \<Longrightarrow> hex_digit (hex_char d) = Some d"
  by (auto simp: hex_digit_def Let_def of_char_hex_char)

lemma hex_char_plain:
  "d < 16 \<Longrightarrow> hex_char d \<noteq> CHR ''x'' \<and> hex_char d \<noteq> CHR ''X'' \<and> hex_char d \<noteq> CHR ''-'' \<and> hex_char d \<noteq> CHR ''+'' \<and>
     \<not> blank (hex_char d)"
proof -
  assume d: "d < 16"
  have neq: "hex_char d \<noteq> c" if "(of_char c :: nat) < 48 \<or> 87 < (of_char c :: nat) \<and> (of_char c :: nat) < 97 \<or> 102 < (of_char c :: nat)" for c
    using of_char_hex_char [OF d] that d by (auto split: if_splits)
  have "hex_char d \<noteq> CHR ''x''" "hex_char d \<noteq> CHR ''X''" "hex_char d \<noteq> CHR ''-''" "hex_char d \<noteq> CHR ''+''" "hex_char d \<noteq> CHR '' ''"
    by (intro neq; simp)+
  then show ?thesis
    using of_char_hex_char [OF d] by (simp add: blank_def)
qed

lemma hex_value_append: "list_all (\<lambda>c. hex_digit c \<noteq> None) xs \<Longrightarrow> hex_value (xs @ ys) acc = hex_value ys (hex_value xs acc)"
  by (induction xs arbitrary: acc) auto

lemma hex_text_digits: "list_all (\<lambda>c. \<exists>d < 16. c = hex_char d) (hex_text n)"
proof (induction n rule: hex_text.induct)
  case (1 n)
  then show ?case
    by (subst hex_text.simps) (auto intro: exI [of _ n] exI [of _ "n mod 16"])
qed

lemma hex_value_hex_text: "hex_value (hex_text n) 0 = n"
proof (induction n rule: hex_text.induct)
  case (1 n)
  have "list_all (\<lambda>c. hex_digit c \<noteq> None) (hex_text (n div 16))"
    using hex_text_digits [of "n div 16"] by (auto simp: list_all_iff)
  with 1 show ?case
    by (subst hex_text.simps) (simp add: hex_value_append)
qed

lemma hex_text_nonempty: "hex_text n \<noteq> []"
  by (subst hex_text.simps) simp

lemma hex_prefix_id: "list_all (\<lambda>c. c \<noteq> CHR ''x'' \<and> c \<noteq> CHR ''X'') s \<Longrightarrow> hex_prefix s = s"
  by (cases s rule: hex_prefix.cases) auto

lemma read_hex_hex_text: "n < 2 ^ 64 \<Longrightarrow> read_hex (hex_text n) = of_nat n"
proof -
  assume n: "n < 2 ^ 64"
  have plain: "list_all (\<lambda>c. c \<noteq> CHR ''x'' \<and> c \<noteq> CHR ''X'' \<and> c \<noteq> CHR ''-'' \<and> c \<noteq> CHR ''+'' \<and> \<not> blank c) (hex_text n)"
    using hex_text_digits [of n] hex_char_plain by (fastforce simp: list_all_iff)
  then obtain c cs where c: "hex_text n = c # cs" "c \<noteq> CHR ''-''" "c \<noteq> CHR ''+''" "\<not> blank c"
    using hex_text_nonempty [of n] by (cases "hex_text n") auto
  have "hex_prefix (hex_text n) = hex_text n"
    using plain by (intro hex_prefix_id) (auto simp: list_all_iff)
  then show ?thesis
    using c n hex_value_hex_text [of n] by (simp add: read_hex_def Let_def)
qed

text \<open>
  Trace ids survive the text: a record that holds the hexadecimal text of a trace id
  gives the id back, for all 64-bit ids.
\<close>

lemma trace_id_roundtrip:
  assumes "GetStringValueByKey jc rec ''traceid_'' = Some (hex_text (unat tid))"
  shows "GetTraceId jc rec = Some tid"
  using read_hex_hex_text [of "unat tid"] assms unsigned_less [of tid] by (simp add: GetTraceId_def)

lemma trace_id_roundtrip_example:
  "GetTraceId (plain_json (Some sample_doc)) (Record_ParseJsonStr (plain_json (Some sample_doc)) '''') = Some 0xa1b2"
proof -
  have "hex_text 0xa1b2 = ''a1b2''"
    by (simp add: hex_text.simps hex_char_def char_of_def bit_Suc_0_iff)
  then have "GetStringValueByKey (plain_json (Some sample_doc)) (Record_ParseJsonStr (plain_json (Some sample_doc)) '''') ''traceid_'' =
      Some (hex_text (unat (0xa1b2 :: u64)))"
    by (simp add: GetStringValueByKey_def GetParamValue_string_def GetParamValue_with_def plain_json_def sample_doc_def
        Record_ParseJsonStr_def HiSysEventValue_parse_def HasInitialized_def IsMember_def Value_GetParamValue_def
        json_entry_def HiSysEventValue_of_def value_types value_tests AsString_def)
  then show ?thesis
    by (rule trace_id_roundtrip)
qed

end
