(* ===== verification/StringUtil.thy ===== *)
theory StringUtil
  imports Prelude
begin

text \<open>
  The C strings that the C interface of the event manager hands out
  (frameworks/native/util/string_util.cpp): an explicit heap of allocated blocks, the copying
  functions, and what each of them leaves allocated on success and on every error. The
  allocator and \<^verbatim>\<open>strcpy_s\<close> are parameters.
\<close>

section \<open>The heap\<close>

text \<open>
  \<open>cl_new i n\<close>: whether the \<open>i\<close>-th request, for \<open>n\<close> elements, gets memory.
  \<open>cl_strcpy n s\<close>: the code that \<^verbatim>\<open>strcpy_s\<close> returns for a destination of \<open>n\<close> characters and
  the C string \<open>s\<close>, and the text it leaves in the destination.
\<close>

record c_lib =
  cl_new :: "nat \<Rightarrow> nat \<Rightarrow> bool"
  cl_strcpy :: "nat \<Rightarrow> string \<Rightarrow> int \<times> string"

text \<open>A copy succeeds when the destination is within the library's limit and holds the text.\<close>

definition strcpy_laws :: "c_lib \<Rightarrow> bool" where
  "strcpy_laws cl \<longleftrightarrow>
     (\<forall>n s. length s < n \<and> n \<le> 0x7fffffff \<longrightarrow> cl_strcpy cl n s = (0, s))"

text \<open>
  An allocated array: of characters, of pointers, of 64-bit numbers, or of records, whose
  fields the callers keep beside the heap.
\<close>

datatype block = Chars string | Ptrs "nat option list" | Nums "64 word list" | Records nat

record heap =
  hp_blocks :: "nat \<Rightarrow> block option"
  hp_next :: nat

definition alloc :: "c_lib \<Rightarrow> nat \<Rightarrow> block \<Rightarrow> heap \<Rightarrow> heap \<times> nat option" where
  "alloc cl n b h =
     (if cl_new cl (hp_next h) n
      then (h\<lparr>hp_blocks := (hp_blocks h)(hp_next h \<mapsto> b), hp_next := hp_next h + 1\<rparr>, Some (hp_next h))
      else (h\<lparr>hp_next := hp_next h + 1\<rparr>, None))"

definition write_block :: "nat \<Rightarrow> block \<Rightarrow> heap \<Rightarrow> heap" where
  "write_block p b h = h\<lparr>hp_blocks := (hp_blocks h)(p \<mapsto> b)\<rparr>"

definition delete_block :: "nat \<Rightarrow> heap \<Rightarrow> heap" where
  "delete_block p h = h\<lparr>hp_blocks := (hp_blocks h)(p := None)\<rparr>"

text \<open>\<^verbatim>\<open>c_str()\<close> as the copying functions see it: up to the first NUL character.\<close>

definition c_text :: "string \<Rightarrow> string" where
  "c_text s = takeWhile (\<lambda>c. c \<noteq> CHR 0x00) s"

section \<open>The functions\<close>

definition CopyCString :: "c_lib \<Rightarrow> string \<Rightarrow> string \<Rightarrow> nat \<Rightarrow> string \<times> int" where
  "CopyCString cl dst src len =
     (if length src > len then (dst, -1)
      else case cl_strcpy cl (length src + 1) (c_text src) of (res, dst') \<Rightarrow> (dst', res))"

definition CreateCString :: "c_lib \<Rightarrow> nat option \<Rightarrow> string \<Rightarrow> nat \<Rightarrow> heap \<Rightarrow> heap \<times> nat option \<times> int" where
  "CreateCString cl dst src len h =
     (if length src > len then (h, dst, -1)
      else case alloc cl (length src + 1) (Chars []) h of
        (h1, None) \<Rightarrow> (h1, dst, -1)
      | (h1, Some data) \<Rightarrow>
          (case cl_strcpy cl (length src + 1) (c_text src) of (res, t) \<Rightarrow>
             if res \<noteq> 0 then (delete_block data (write_block data (Chars t) h1), dst, res)
             else (write_block data (Chars t) h1, Some data, 0)))"

text \<open>\<^verbatim>\<open>DeletePointer\<close> and \<^verbatim>\<open>DeletePointers\<close>, on the pointer or the pointers of a block.\<close>

definition DeletePointer :: "nat option \<Rightarrow> heap \<Rightarrow> heap \<times> nat option" where
  "DeletePointer p h = (case p of None \<Rightarrow> (h, None) | Some a \<Rightarrow> (delete_block a h, None))"

primrec delete_all :: "nat option list \<Rightarrow> heap \<Rightarrow> heap" where
  "delete_all [] h = h"
| "delete_all (p # ps) h = delete_all ps (fst (DeletePointer p h))"

definition DeletePointers :: "nat option \<Rightarrow> nat \<Rightarrow> heap \<Rightarrow> heap" where
  "DeletePointers ps len h =
     (case ps of
        None \<Rightarrow> h
      | Some a \<Rightarrow>
          (case hp_blocks h a of
             Some (Ptrs realPs) \<Rightarrow> delete_block a (delete_all (take len realPs) h)
           | _ \<Rightarrow> h))"

definition ConvertCString :: "c_lib \<Rightarrow> string \<Rightarrow> nat option \<Rightarrow> nat \<Rightarrow> heap \<Rightarrow> heap \<times> nat option \<times> int" where
  "ConvertCString cl str sp len h =
     (if length str > len then (h, sp, -1)
      else case alloc cl (length str + 1) (Chars []) h of
        (h1, None) \<Rightarrow> (h1, sp, -1)
      | (h1, Some data) \<Rightarrow>
          (case cl_strcpy cl (length str + 1) (c_text str) of (res, t) \<Rightarrow>
             if res \<noteq> 0 then (fst (DeletePointer (Some data) (write_block data (Chars t) h1)), sp, res)
             else (write_block data (Chars t) h1, Some data, 0)))"

text \<open>The default length limits of the header.\<close>

definition CREATE_MAX_LEN :: nat where "CREATE_MAX_LEN = 1024"
definition CONVERT_MAX_LEN :: nat where "CONVERT_MAX_LEN = 8 * 1024"

text \<open>
  The loop of \<^verbatim>\<open>ConvertCStringVec\<close>: \<open>data\<close> is the array of pointers, \<open>i\<close> the next index. On
  an error the strings below \<open>i\<close> and the array are freed.
\<close>

fun ConvertCStringVec_loop :: "c_lib \<Rightarrow> nat \<Rightarrow> string list \<Rightarrow> nat \<Rightarrow> heap \<Rightarrow> heap \<times> int" where
  "ConvertCStringVec_loop cl data [] i h = (h, 0)"
| "ConvertCStringVec_loop cl data (s # vec) i h =
     (case hp_blocks h data of
        Some (Ptrs ps) \<Rightarrow>
          (case ConvertCString cl s (ps ! i) CONVERT_MAX_LEN h of (h1, p, res) \<Rightarrow>
             if res \<noteq> 0 then (DeletePointers (Some data) i h1, res)
             else ConvertCStringVec_loop cl data vec (i + 1) (write_block data (Ptrs (ps[i := p])) h1))
      | _ \<Rightarrow> (h, 0))"

definition ConvertCStringVec ::
  "c_lib \<Rightarrow> string list \<Rightarrow> nat option \<Rightarrow> nat \<Rightarrow> heap \<Rightarrow> heap \<times> nat option \<times> nat \<times> int" where
  "ConvertCStringVec cl vec strs len h =
     (if vec = [] then (h, strs, len, 0)
      else
        let len = length vec in
        case alloc cl len (Ptrs (replicate len None)) h of
          (h1, None) \<Rightarrow> (h1, strs, len, 0)
        | (h1, Some data) \<Rightarrow>
            (case ConvertCStringVec_loop cl data vec 0 h1 of (h2, res) \<Rightarrow>
               if res \<noteq> 0 then (h2, strs, len, res) else (h2, Some data, len, 0)))"

section \<open>What is allocated\<close>

definition heap_ok :: "heap \<Rightarrow> bool" where
  "heap_ok h \<longleftrightarrow> (\<forall>p. hp_blocks h p \<noteq> None \<longrightarrow> p < hp_next h)"

lemma heap_fresh: "heap_ok h \<Longrightarrow> hp_next h \<le> p \<Longrightarrow> hp_blocks h p = None"
  by (metis heap_ok_def not_le)

text \<open>
  One string: on an error the heap holds the same blocks as before, on success one more, and
  this block holds the text.
\<close>

definition string_made :: "heap \<Rightarrow> string \<Rightarrow> heap \<Rightarrow> nat option \<Rightarrow> bool" where
  "string_made h s h' p \<longleftrightarrow>
     (\<exists>a. p = Some a \<and> hp_next h \<le> a \<and> a < hp_next h' \<and> hp_blocks h' = (hp_blocks h)(a \<mapsto> Chars s))"

lemma CreateCString_made:
  assumes "strcpy_laws cl" "heap_ok h" "len \<le> 0x7ffffffe" "CreateCString cl dst s len h = (h', dst', res)"
  shows "heap_ok h' \<and> hp_next h \<le> hp_next h' \<and>
    (if res = 0 then length s \<le> len \<and> string_made h (c_text s) h' dst'
     else hp_blocks h' = hp_blocks h \<and> dst' = dst)"
proof -
  have "length (c_text s) \<le> length s"
    by (simp add: c_text_def length_takeWhile_le)
  then have cpy: "length s \<le> len \<Longrightarrow> cl_strcpy cl (Suc (length s)) (c_text s) = (0, c_text s)"
    using assms(1,3) by (simp add: strcpy_laws_def)
  show ?thesis
    using assms(2,4) heap_fresh [OF assms(2)]
    by (auto simp: CreateCString_def cpy alloc_def write_block_def string_made_def heap_ok_def less_Suc_eq
        split: if_splits)
qed

text \<open>\<^verbatim>\<open>ConvertCString\<close> differs from \<^verbatim>\<open>CreateCString\<close> only in how it frees.\<close>

lemma ConvertCString_is_CreateCString: "ConvertCString cl s dst len h = CreateCString cl dst s len h"
  by (auto simp: ConvertCString_def CreateCString_def DeletePointer_def split: prod.splits option.splits)

lemmas ConvertCString_made = CreateCString_made [folded ConvertCString_is_CreateCString]

text \<open>
  A vector of strings in the heap: the array at \<open>data\<close> points to one new block for each
  string made so far and holds null pointers behind them; every other block is one of \<open>B\<close>.
\<close>

definition vec_made :: "(nat \<Rightarrow> block option) \<Rightarrow> nat \<Rightarrow> string list \<Rightarrow> nat list \<Rightarrow> nat \<Rightarrow> heap \<Rightarrow> bool" where
  "vec_made B data vec as m h \<longleftrightarrow>
     length as = length vec \<and> distinct as \<and> data \<notin> set as \<and> B data = None \<and> (\<forall>a \<in> set as. B a = None) \<and>
     hp_blocks h data = Some (Ptrs (map Some as @ replicate m None)) \<and>
     (\<forall>j < length vec. hp_blocks h (as ! j) = Some (Chars (c_text (vec ! j)))) \<and>
     (\<forall>p. p \<noteq> data \<and> p \<notin> set as \<longrightarrow> hp_blocks h p = B p)"

lemma delete_all_blocks:
  "hp_blocks (delete_all (map Some as) h) p = (if p \<in> set as then None else hp_blocks h p)"
  "hp_next (delete_all (map Some as) h) = hp_next h"
  by (induction as arbitrary: h) (auto simp: DeletePointer_def delete_block_def)

lemma DeletePointers_made:
  assumes "vec_made B data vec as m h"
  shows "hp_blocks (DeletePointers (Some data) (length vec) h) = B"
    "hp_next (DeletePointers (Some data) (length vec) h) = hp_next h"
proof -
  from assms have "DeletePointers (Some data) (length vec) h = delete_block data (delete_all (map Some as) h)"
    by (simp add: vec_made_def DeletePointers_def)
  then show "hp_blocks (DeletePointers (Some data) (length vec) h) = B"
    "hp_next (DeletePointers (Some data) (length vec) h) = hp_next h"
    using assms by (auto simp: delete_block_def delete_all_blocks vec_made_def)
qed

lemma vec_made_step:
  assumes made: "vec_made B data done as (Suc m) h" and ok: "heap_ok h" and "string_made h (c_text s) h1 p"
  shows "\<exists>a. p = Some a \<and>
    vec_made B data (done @ [s]) (as @ [a]) m (write_block data (Ptrs ((map Some as @ replicate (Suc m) None)[length as := p])) h1)"
proof -
  obtain a where a: "p = Some a" "hp_next h \<le> a" "hp_blocks h1 = (hp_blocks h)(a \<mapsto> Chars (c_text s))"
    using assms(3) by (auto simp: string_made_def)
  have none: "hp_blocks h a = None"
    using heap_fresh [OF ok a(2)] .
  have "a \<notin> set as"
  proof
    assume "a \<in> set as"
    then obtain j where "j < length done" "as ! j = a"
      using made by (auto simp: vec_made_def in_set_conv_nth)
    then show False
      using made none by (auto simp: vec_made_def)
  qed
  moreover have "a \<noteq> data"
    using made none by (auto simp: vec_made_def)
  moreover have "B a = None"
    using made none calculation by (auto simp: vec_made_def)
  moreover have "as ! j \<noteq> data \<and> as ! j \<noteq> a" if "j < length done" for j
    using made calculation that by (auto simp: vec_made_def)
  ultimately show ?thesis
    using made a by (auto simp: vec_made_def write_block_def nth_append list_update_append less_Suc_eq)
qed

lemma ConvertCStringVec_loop_made:
  assumes "strcpy_laws cl" "vec_made B data done as (length vec) h" "heap_ok h"
    and "ConvertCStringVec_loop cl data vec (length done) h = (h', res)"
  shows "hp_next h \<le> hp_next h' \<and> (if res = 0 then heap_ok h' \<and> (\<exists>as. vec_made B data (done @ vec) as 0 h') else hp_blocks h' = B)"
  using assms(2-)
proof (induction vec arbitrary: "done" as h)
  case (Cons s vec)
  then have len: "length as = length done" and blk: "hp_blocks h data = Some (Ptrs (map Some as @ replicate (Suc (length vec)) None))"
    by (simp_all add: vec_made_def)
  obtain h1 p r where c: "ConvertCString cl s ((map Some as @ replicate (Suc (length vec)) None) ! length done) CONVERT_MAX_LEN h = (h1, p, r)"
    by (metis prod_cases3)
  from ConvertCString_made [OF assms(1) Cons.prems(2) _ c]
  have h1: "heap_ok h1" "hp_next h \<le> hp_next h1" "r = 0 \<Longrightarrow> string_made h (c_text s) h1 p" "r \<noteq> 0 \<Longrightarrow> hp_blocks h1 = hp_blocks h"
    by (auto simp: CONVERT_MAX_LEN_def split: if_splits)
  show ?case
  proof (cases "r = 0")
    case True
    from vec_made_step [OF Cons.prems(1)[simplified] Cons.prems(2) h1(3) [OF True]] obtain a where
      a: "p = Some a" "vec_made B data (done @ [s]) (as @ [a]) (length vec)
        (write_block data (Ptrs ((map Some as @ replicate (Suc (length vec)) None)[length as := p])) h1)" (is "vec_made _ _ _ _ _ ?h2")
      by auto
    have "data < hp_next h"
      using Cons.prems(2) blk by (auto simp: heap_ok_def)
    then have ok2: "heap_ok ?h2" "hp_next ?h2 = hp_next h1"
      using h1(1,2) by (auto simp: heap_ok_def write_block_def)
    have "ConvertCStringVec_loop cl data vec (length (done @ [s])) ?h2 = (h', res)"
      using Cons.prems(3) c True blk len by simp
    from Cons.IH [OF a(2) ok2(1) this] ok2(2) h1(2) show ?thesis
      by auto
  next
    case False
    then have res: "res = r" "h' = DeletePointers (Some data) (length done) h1"
      using Cons.prems(3) c blk by auto
    have "vec_made B data done as (length (s # vec)) h1"
      using Cons.prems(1) h1(4) [OF False] by (simp add: vec_made_def)
    from DeletePointers_made [OF this] False res h1(2) show ?thesis
      by simp
  qed
qed auto

text \<open>
  Converting a vector of strings leaks nothing: whichever allocation fails and whatever
  the lengths, an error leaves exactly the blocks that were there before and the outputs
  untouched; a success leaves one array with one block for each string, in order, each with
  the text of its string, unless there was nothing to convert or no memory for the array,
  when no block is made and the output pointer stays as it was.
\<close>

lemma ConvertCStringVec_no_leak:
  assumes "strcpy_laws cl" "heap_ok h"
    and "ConvertCStringVec cl vec strs len h = (h', strs', len', res)"
  shows "heap_ok h' \<and>
    (if res \<noteq> 0 \<or> vec = [] \<or> \<not> cl_new cl (hp_next h) (length vec) then hp_blocks h' = hp_blocks h \<and> strs' = strs
     else \<exists>data as. strs' = Some data \<and> len' = length vec \<and> vec_made (hp_blocks h) data vec as 0 h')"
proof (cases "vec = [] \<or> \<not> cl_new cl (hp_next h) (length vec)")
  case True
  then show ?thesis
    using assms(2,3) by (auto simp: ConvertCStringVec_def alloc_def heap_ok_def less_Suc_eq split: if_splits)
next
  case False
  let ?B = "hp_blocks h" and ?d = "hp_next h" and ?n = "length vec"
  let ?h1 = "h\<lparr>hp_blocks := ?B(?d \<mapsto> Ptrs (replicate ?n None)), hp_next := ?d + 1\<rparr>"
  obtain h2 r where loop: "ConvertCStringVec_loop cl ?d vec 0 ?h1 = (h2, r)"
    by fastforce
  have new: "?B ?d = None"
    using heap_fresh [OF assms(2)] by simp
  have "vec_made ?B ?d [] [] ?n ?h1" "heap_ok ?h1"
    using assms(2) new by (auto simp: vec_made_def heap_ok_def less_Suc_eq)
  from ConvertCStringVec_loop_made [OF assms(1) this] loop
  have made: "?d + 1 \<le> hp_next h2" "if r = 0 then heap_ok h2 \<and> (\<exists>as. vec_made ?B ?d vec as 0 h2) else hp_blocks h2 = ?B"
    by auto
  have res: "h' = h2" "res = r" "len' = ?n" "strs' = (if r \<noteq> 0 then strs else Some ?d)"
    using assms(3) False loop by (auto simp: ConvertCStringVec_def alloc_def Let_def split: if_splits)
  have "heap_ok h2"
    using made assms(2) by (cases "r = 0") (fastforce simp: heap_ok_def)+
  with False made res show ?thesis
    by (auto split: if_splits)
qed

text \<open>Without memory for the array the conversion reports success, and a length, but no array.\<close>

lemma ConvertCStringVec_no_array:
  "vec \<noteq> [] \<Longrightarrow> \<not> cl_new cl (hp_next h) (length vec) \<Longrightarrow>
   ConvertCStringVec cl vec strs len h = (h\<lparr>hp_next := hp_next h + 1\<rparr>, strs, length vec, 0)"
  by (simp add: ConvertCStringVec_def alloc_def)

definition std_lib :: c_lib where
  "std_lib = \<lparr>cl_new = (\<lambda>i n. True), cl_strcpy = (\<lambda>n s. (0, s))\<rparr>"

definition empty_heap :: heap where
  "empty_heap = \<lparr>hp_blocks = (\<lambda>p. None), hp_next = 0\<rparr>"

lemma std_lib_laws: "strcpy_laws std_lib" "heap_ok empty_heap"
  by (simp_all add: strcpy_laws_def std_lib_def heap_ok_def empty_heap_def)

lemma ConvertCStringVec_no_leak_example:
  "\<exists>h' data as. ConvertCStringVec std_lib [''a'', ''bc''] None 0 empty_heap = (h', Some data, 2, 0) \<and>
     vec_made (hp_blocks empty_heap) data [''a'', ''bc''] as 0 h'"
proof -
  obtain h' strs' len' res where c: "ConvertCStringVec std_lib [''a'', ''bc''] None 0 empty_heap = (h', strs', len', res)"
    by (metis prod_cases4)
  have "res = 0" "cl_new std_lib (hp_next empty_heap) (length [''a'', ''bc''])"
    using c by (auto simp: ConvertCStringVec_def std_lib_def empty_heap_def alloc_def write_block_def ConvertCString_def
        CONVERT_MAX_LEN_def c_text_def)
  with ConvertCStringVec_no_leak [OF std_lib_laws c] c show ?thesis
    by auto
qed

end
