(* ===== verification/RecordConvertor.thy ===== *)
theory RecordConvertor
  imports RecordReader StringUtil
begin

text \<open>
  Event records for the C interface of the event manager: the conversion of a record to the
  C structure and its release (hisysevent_record_convertor.cpp), the C readers of parameters
  (hisysevent_record_c.cpp), and the two adapters that hand records to C callbacks
  (hisysevent_query_callback_c.cpp, hisysevent_listener_c.cpp). The theory shows that a
  converted record reads like the original, and that nothing stays allocated on any path.
\<close>

section \<open>The C record\<close>

definition MAX_LENGTH_OF_EVENT_DOMAIN :: nat where "MAX_LENGTH_OF_EVENT_DOMAIN = 17"
definition MAX_LENGTH_OF_EVENT_NAME :: nat where "MAX_LENGTH_OF_EVENT_NAME = 33"
definition MAX_LENGTH_OF_TIME_ZONE :: nat where "MAX_LENGTH_OF_TIME_ZONE = 6"

record record_c =
  rc_domain :: string
  rc_eventName :: string
  rc_type :: "32 word"
  rc_time :: u64
  rc_tz :: string
  rc_pid :: "64 word"
  rc_tid :: "64 word"
  rc_uid :: "64 word"
  rc_traceId :: u64
  rc_spandId :: u64
  rc_pspanId :: u64
  rc_traceFlag :: "32 word"
  rc_level :: "nat option"
  rc_tag :: "nat option"
  rc_jsonStr :: "nat option"

definition InitRecord :: record_c where
  "InitRecord =
     \<lparr>rc_domain = [], rc_eventName = [], rc_type = 0, rc_time = 0, rc_tz = [], rc_pid = 0, rc_tid = 0, rc_uid = 0,
      rc_traceId = 0, rc_spandId = 0, rc_pspanId = 0, rc_traceFlag = 0, rc_level = None, rc_tag = None,
      rc_jsonStr = None\<rparr>"

section \<open>Conversion\<close>

text \<open>
  A step works on the heap and the structure and returns a code; \<open>None\<close> is an exception of
  the record reader. \<open>then_conv\<close> is the early return on a code other than zero, and
  \<open>assign_field\<close> the assignment of a field from a member function of the record.
\<close>

type_synonym conv = "heap \<times> record_c \<Rightarrow> ((heap \<times> record_c) \<times> int) option"

definition then_conv :: "conv \<Rightarrow> conv \<Rightarrow> conv" where
  "then_conv f g s =
     (case f s of
        None \<Rightarrow> None
      | Some (s', res) \<Rightarrow> if res \<noteq> 0 then Some (s', res) else g s')"

definition assign_field :: "'v option \<Rightarrow> (('v \<Rightarrow> 'v) \<Rightarrow> record_c \<Rightarrow> record_c) \<Rightarrow> conv" where
  "assign_field got upd s = (case got of None \<Rightarrow> None | Some v \<Rightarrow> Some ((fst s, upd (\<lambda>_. v) (snd s)), 0))"

definition copy_field ::
  "c_lib \<Rightarrow> string option \<Rightarrow> (record_c \<Rightarrow> string) \<Rightarrow> ((string \<Rightarrow> string) \<Rightarrow> record_c \<Rightarrow> record_c) \<Rightarrow> nat \<Rightarrow> conv" where
  "copy_field cl got get upd len s =
     (case got of
        None \<Rightarrow> None
      | Some v \<Rightarrow>
          (case CopyCString cl (get (snd s)) v len of (d, res) \<Rightarrow> Some ((fst s, upd (\<lambda>_. d) (snd s)), res)))"

definition create_field ::
  "c_lib \<Rightarrow> string option \<Rightarrow> (record_c \<Rightarrow> nat option) \<Rightarrow> ((nat option \<Rightarrow> nat option) \<Rightarrow> record_c \<Rightarrow> record_c) \<Rightarrow>
   nat \<Rightarrow> conv" where
  "create_field cl got get upd len s =
     (case got of
        None \<Rightarrow> None
      | Some v \<Rightarrow>
          (case CreateCString cl (get (snd s)) v len (fst s) of (h, p, res) \<Rightarrow> Some ((h, upd (\<lambda>_. p) (snd s)), res)))"

definition ConvertDomain :: "c_lib \<Rightarrow> 'j jsoncpp \<Rightarrow> 'j event_record \<Rightarrow> conv" where
  "ConvertDomain cl jc rec = copy_field cl (GetDomain jc rec) rc_domain rc_domain_update (MAX_LENGTH_OF_EVENT_DOMAIN - 1)"

definition ConvertEventName :: "c_lib \<Rightarrow> 'j jsoncpp \<Rightarrow> 'j event_record \<Rightarrow> conv" where
  "ConvertEventName cl jc rec =
     copy_field cl (GetEventName jc rec) rc_eventName rc_eventName_update (MAX_LENGTH_OF_EVENT_NAME - 1)"

definition ConvertTimeZone :: "c_lib \<Rightarrow> 'j jsoncpp \<Rightarrow> 'j event_record \<Rightarrow> conv" where
  "ConvertTimeZone cl jc rec = copy_field cl (GetTimeZone jc rec) rc_tz rc_tz_update (MAX_LENGTH_OF_TIME_ZONE - 1)"

definition ConvertLevel :: "c_lib \<Rightarrow> 'j jsoncpp \<Rightarrow> 'j event_record \<Rightarrow> conv" where
  "ConvertLevel cl jc rec = create_field cl (GetLevel jc rec) rc_level rc_level_update CREATE_MAX_LEN"

definition ConvertTag :: "c_lib \<Rightarrow> 'j jsoncpp \<Rightarrow> 'j event_record \<Rightarrow> conv" where
  "ConvertTag cl jc rec = create_field cl (GetTag jc rec) rc_tag rc_tag_update CREATE_MAX_LEN"

definition MAX_JSON_LEN :: nat where "MAX_JSON_LEN = 384 * 1024"

definition ConvertJsonStr :: "c_lib \<Rightarrow> 'j jsoncpp \<Rightarrow> 'j event_record \<Rightarrow> conv" where
  "ConvertJsonStr cl jc rec = create_field cl (Some (AsJson rec)) rc_jsonStr rc_jsonStr_update MAX_JSON_LEN"

definition ConvertRecord :: "c_lib \<Rightarrow> 'j jsoncpp \<Rightarrow> 'j event_record \<Rightarrow> conv" where
  "ConvertRecord cl jc rec =
     then_conv (ConvertDomain cl jc rec)
    (then_conv (ConvertEventName cl jc rec)
    (then_conv (assign_field (GetEventType jc rec) rc_type_update)
    (then_conv (assign_field (GetTime jc rec) rc_time_update)
    (then_conv (ConvertTimeZone cl jc rec)
    (then_conv (assign_field (GetPid jc rec) rc_pid_update)
    (then_conv (assign_field (GetTid jc rec) rc_tid_update)
    (then_conv (assign_field (GetUid jc rec) rc_uid_update)
    (then_conv (assign_field (GetTraceId jc rec) rc_traceId_update)
    (then_conv (assign_field (GetSpanId jc rec) rc_spandId_update)
    (then_conv (assign_field (GetPspanId jc rec) rc_pspanId_update)
    (then_conv (assign_field (GetTraceFlag jc rec) rc_traceFlag_update)
    (then_conv (ConvertLevel cl jc rec)
    (then_conv (ConvertTag cl jc rec)
    (then_conv (ConvertJsonStr cl jc rec) (\<lambda>s. Some (s, 0))))))))))))))))"

definition DeleteRecord :: "heap \<times> record_c \<Rightarrow> heap \<times> record_c" where
  "DeleteRecord s =
     (case DeletePointer (rc_level (snd s)) (fst s) of (h1, p1) \<Rightarrow>
      case DeletePointer (rc_tag (snd s)) h1 of (h2, p2) \<Rightarrow>
      case DeletePointer (rc_jsonStr (snd s)) h2 of (h3, p3) \<Rightarrow>
        (h3, (snd s)\<lparr>rc_level := p1, rc_tag := p2, rc_jsonStr := p3\<rparr>))"

text \<open>\<open>records\<close> are the elements of the array at \<open>p\<close>.\<close>

primrec delete_each :: "record_c list \<Rightarrow> heap \<Rightarrow> heap" where
  "delete_each [] h = h"
| "delete_each (r # rs) h = delete_each rs (fst (DeleteRecord (h, r)))"

definition DeleteRecords :: "nat option \<Rightarrow> record_c list \<Rightarrow> nat \<Rightarrow> heap \<Rightarrow> heap" where
  "DeleteRecords p records len h =
     (case p of None \<Rightarrow> h | Some a \<Rightarrow> delete_block a (delete_each (take len records) h))"

section \<open>The C readers\<close>

definition ERR_NULL :: int where "ERR_NULL = -1"

text \<open>
  The text a pointer leads to; reading through an invalid pointer is undefined behaviour,
  which the readers return as \<open>None\<close>, like an exception.
\<close>

definition text_at :: "heap \<Rightarrow> nat \<Rightarrow> string option" where
  "text_at h p = (case hp_blocks h p of Some (Chars t) \<Rightarrow> Some t | _ \<Rightarrow> None)"

text \<open>The template for a number and the overload for a string.\<close>

definition GetParamValue_c ::
  "('j jsoncpp \<Rightarrow> 'j event_record \<Rightarrow> string \<Rightarrow> 'v \<Rightarrow> ('v \<times> int) option) \<Rightarrow>
   'j jsoncpp \<Rightarrow> heap \<Rightarrow> record_c \<Rightarrow> string option \<Rightarrow> 'v \<Rightarrow> ('v \<times> int) option" where
  "GetParamValue_c reader jc h rec name value =
     (case (rc_jsonStr rec, name) of
        (Some p, Some n) \<Rightarrow>
          (case text_at h p of
             None \<Rightarrow> None
           | Some t \<Rightarrow> reader jc (Record_ParseJsonStr jc t) n value)
      | _ \<Rightarrow> Some (value, ERR_NULL))"

definition GetParamString_c ::
  "c_lib \<Rightarrow> 'j jsoncpp \<Rightarrow> record_c \<Rightarrow> string option \<Rightarrow> nat option \<Rightarrow> heap \<Rightarrow> (heap \<times> nat option \<times> int) option" where
  "GetParamString_c cl jc rec name value h =
     (case (rc_jsonStr rec, name) of
        (Some p, Some n) \<Rightarrow>
          (case text_at h p of
             None \<Rightarrow> None
           | Some t \<Rightarrow>
               (case GetParamValue_string jc (Record_ParseJsonStr jc t) n [] of
                  None \<Rightarrow> None
                | Some (str, res) \<Rightarrow>
                    if res \<noteq> 0 then Some (h, value, res)
                    else Some (ConvertCString cl str value CONVERT_MAX_LEN h)))
      | _ \<Rightarrow> Some (h, value, ERR_NULL))"

definition GetParamValues_c ::
  "('j jsoncpp \<Rightarrow> 'j event_record \<Rightarrow> string \<Rightarrow> 64 word list \<Rightarrow> (64 word list \<times> int) option) \<Rightarrow>
   c_lib \<Rightarrow> 'j jsoncpp \<Rightarrow> record_c \<Rightarrow> string option \<Rightarrow> nat option \<Rightarrow> nat \<Rightarrow> heap \<Rightarrow>
   (heap \<times> nat option \<times> nat \<times> int) option" where
  "GetParamValues_c reader cl jc rec name value len h =
     (case (rc_jsonStr rec, name) of
        (Some p, Some n) \<Rightarrow>
          (case text_at h p of
             None \<Rightarrow> None
           | Some t \<Rightarrow>
               (case reader jc (Record_ParseJsonStr jc t) n [] of
                  None \<Rightarrow> None
                | Some (dataVec, res) \<Rightarrow>
                    if res \<noteq> 0 then Some (h, value, len, res)
                    else if dataVec = [] then Some (h, value, len, 0)
                    else
                      (case alloc cl (length dataVec) (Nums dataVec) h of
                         (h1, None) \<Rightarrow> Some (h1, value, length dataVec, ERR_NULL)
                       | (h1, Some data) \<Rightarrow> Some (h1, Some data, length dataVec, 0))))
      | _ \<Rightarrow> Some (h, value, len, ERR_NULL))"

definition GetParamStrings_c ::
  "c_lib \<Rightarrow> 'j jsoncpp \<Rightarrow> record_c \<Rightarrow> string option \<Rightarrow> nat option \<Rightarrow> nat \<Rightarrow> heap \<Rightarrow>
   (heap \<times> nat option \<times> nat \<times> int) option" where
  "GetParamStrings_c cl jc rec name value len h =
     (case (rc_jsonStr rec, name) of
        (Some p, Some n) \<Rightarrow>
          (case text_at h p of
             None \<Rightarrow> None
           | Some t \<Rightarrow>
               (case GetParamValue_strings jc (Record_ParseJsonStr jc t) n [] of
                  None \<Rightarrow> None
                | Some (dataVec, res) \<Rightarrow>
                    if res \<noteq> 0 then Some (h, value, len, res)
                    else if dataVec = [] then Some (h, value, len, 0)
                    else Some (ConvertCStringVec cl dataVec value len h)))
      | _ \<Rightarrow> Some (h, value, len, ERR_NULL))"

definition GetParamNames_c ::
  "c_lib \<Rightarrow> 'j jsoncpp \<Rightarrow> record_c \<Rightarrow> nat option \<Rightarrow> nat \<Rightarrow> heap \<Rightarrow> (heap \<times> nat option \<times> nat \<times> int) option" where
  "GetParamNames_c cl jc rec names len h =
     (case rc_jsonStr rec of
        None \<Rightarrow> Some (h, names, len, ERR_NULL)
      | Some p \<Rightarrow>
          (case text_at h p of
             None \<Rightarrow> None
           | Some t \<Rightarrow>
               (let dataVec = GetParamNames jc (Record_ParseJsonStr jc t) [] in
                if dataVec = [] then Some (h, names, len, 0)
                else Some (ConvertCStringVec cl dataVec names len h))))"

text \<open>The exported functions.\<close>

definition OH_HiSysEvent_GetParamNames ::
  "c_lib \<Rightarrow> 'j jsoncpp \<Rightarrow> record_c \<Rightarrow> nat option \<Rightarrow> nat \<Rightarrow> heap \<Rightarrow> (heap \<times> nat option \<times> nat) option" where
  "OH_HiSysEvent_GetParamNames cl jc rec names len h =
     map_option (\<lambda>(h', names', len', res). (h', names', len')) (GetParamNames_c cl jc rec names len h)"

definition OH_HiSysEvent_GetParamInt64Value ::
  "'j jsoncpp \<Rightarrow> heap \<Rightarrow> record_c \<Rightarrow> string option \<Rightarrow> 64 word \<Rightarrow> (64 word \<times> int) option" where
  "OH_HiSysEvent_GetParamInt64Value = GetParamValue_c GetParamValue_int64"

definition OH_HiSysEvent_GetParamUint64Value ::
  "'j jsoncpp \<Rightarrow> heap \<Rightarrow> record_c \<Rightarrow> string option \<Rightarrow> u64 \<Rightarrow> (u64 \<times> int) option" where
  "OH_HiSysEvent_GetParamUint64Value = GetParamValue_c GetParamValue_uint64"

definition OH_HiSysEvent_GetParamDoubleValue ::
  "'j jsoncpp \<Rightarrow> heap \<Rightarrow> record_c \<Rightarrow> string option \<Rightarrow> 64 word \<Rightarrow> (64 word \<times> int) option" where
  "OH_HiSysEvent_GetParamDoubleValue = GetParamValue_c GetParamValue_double"

definition OH_HiSysEvent_GetParamStringValue ::
  "c_lib \<Rightarrow> 'j jsoncpp \<Rightarrow> record_c \<Rightarrow> string option \<Rightarrow> nat option \<Rightarrow> heap \<Rightarrow> (heap \<times> nat option \<times> int) option" where
  "OH_HiSysEvent_GetParamStringValue = GetParamString_c"

definition OH_HiSysEvent_GetParamInt64Values ::
  "c_lib \<Rightarrow> 'j jsoncpp \<Rightarrow> record_c \<Rightarrow> string option \<Rightarrow> nat option \<Rightarrow> nat \<Rightarrow> heap \<Rightarrow> (heap \<times> nat option \<times> nat \<times> int) option" where
  "OH_HiSysEvent_GetParamInt64Values = GetParamValues_c GetParamValue_int64s"

definition OH_HiSysEvent_GetParamUint64Values ::
  "c_lib \<Rightarrow> 'j jsoncpp \<Rightarrow> record_c \<Rightarrow> string option \<Rightarrow> nat option \<Rightarrow> nat \<Rightarrow> heap \<Rightarrow> (heap \<times> nat option \<times> nat \<times> int) option" where
  "OH_HiSysEvent_GetParamUint64Values = GetParamValues_c GetParamValue_uint64s"

definition OH_HiSysEvent_GetParamDoubleValues ::
  "c_lib \<Rightarrow> 'j jsoncpp \<Rightarrow> record_c \<Rightarrow> string option \<Rightarrow> nat option \<Rightarrow> nat \<Rightarrow> heap \<Rightarrow> (heap \<times> nat option \<times> nat \<times> int) option" where
  "OH_HiSysEvent_GetParamDoubleValues = GetParamValues_c GetParamValue_doubles"

definition OH_HiSysEvent_GetParamStringValues ::
  "c_lib \<Rightarrow> 'j jsoncpp \<Rightarrow> record_c \<Rightarrow> string option \<Rightarrow> nat option \<Rightarrow> nat \<Rightarrow> heap \<Rightarrow> (heap \<times> nat option \<times> nat \<times> int) option" where
  "OH_HiSysEvent_GetParamStringValues = GetParamStrings_c"

section \<open>The callbacks\<close>

text \<open>
  A call of the client's function: the heap at the time of the call, through which the client
  reads the texts, the records and their number. They are lent to the client for the call only.
\<close>

datatype c_call = QueryCall heap "record_c list option" nat | EventCall heap record_c | CompleteCall int int | DiedCall

fun OnQuery_loop ::
  "c_lib \<Rightarrow> 'j jsoncpp \<Rightarrow> 'j event_record list \<Rightarrow> record_c list \<Rightarrow> heap \<Rightarrow> (heap \<times> record_c list \<times> bool) option" where
  "OnQuery_loop cl jc [] recs h = Some (h, recs, True)"
| "OnQuery_loop cl jc (e # es) recs h =
     (case ConvertRecord cl jc e (h, InitRecord) of
        None \<Rightarrow> None
      | Some ((h1, r), res) \<Rightarrow>
          if res \<noteq> 0 then Some (h1, recs @ [r], False) else OnQuery_loop cl jc es (recs @ [r]) h1)"

definition OnQuery ::
  "c_lib \<Rightarrow> 'j jsoncpp \<Rightarrow> bool \<Rightarrow> 'j event_record list option \<Rightarrow> heap \<Rightarrow> (heap \<times> c_call list) option" where
  "OnQuery cl jc has_callback sysEvents h =
     (if \<not> has_callback then Some (h, [])
      else case sysEvents of
        None \<Rightarrow> Some (h, [QueryCall h None 0])
      | Some [] \<Rightarrow> Some (h, [QueryCall h None 0])
      | Some es \<Rightarrow>
          (case alloc cl (length es) (Records (length es)) h of
             (h1, None) \<Rightarrow> Some (h1, [])
           | (h1, Some p) \<Rightarrow>
               (case OnQuery_loop cl jc es [] h1 of
                  None \<Rightarrow> None
                | Some (h2, recs, ok) \<Rightarrow>
                    Some (DeleteRecords (Some p) recs (length recs) h2,
                      if ok then [QueryCall h2 (Some recs) (length es)] else []))))"

definition OnComplete :: "bool \<Rightarrow> int \<Rightarrow> int \<Rightarrow> c_call list" where
  "OnComplete has_callback reason cnt = (if \<not> has_callback then [] else [CompleteCall reason cnt])"

definition OnEvent ::
  "c_lib \<Rightarrow> 'j jsoncpp \<Rightarrow> bool \<Rightarrow> 'j event_record option \<Rightarrow> heap \<Rightarrow> (heap \<times> c_call list) option" where
  "OnEvent cl jc has_callback sysEvent h =
     (case sysEvent of
        None \<Rightarrow> Some (h, [])
      | Some e \<Rightarrow>
          if \<not> has_callback then Some (h, [])
          else
            (case ConvertRecord cl jc e (h, InitRecord) of
               None \<Rightarrow> None
             | Some ((h1, r), res) \<Rightarrow> Some (fst (DeleteRecord (h1, r)), [EventCall h1 r])))"

definition OnServiceDied :: "bool \<Rightarrow> c_call list" where
  "OnServiceDied has_callback = (if \<not> has_callback then [] else [DiedCall])"

section \<open>What a conversion leaves allocated\<close>

definition ptrs :: "record_c \<Rightarrow> nat list" where
  "ptrs r = concat (map (\<lambda>p. case p of None \<Rightarrow> [] | Some a \<Rightarrow> [a]) [rc_level r, rc_tag r, rc_jsonStr r])"

text \<open>The heap holds the blocks \<open>B\<close> and, apart from them, exactly the blocks of the record.\<close>

definition owns :: "(nat \<Rightarrow> block option) \<Rightarrow> heap \<times> record_c \<Rightarrow> bool" where
  "owns B s \<longleftrightarrow>
     heap_ok (fst s) \<and> distinct (ptrs (snd s)) \<and> (\<forall>a \<in> set (ptrs (snd s)). B a = None) \<and>
     (\<forall>a. a \<notin> set (ptrs (snd s)) \<longrightarrow> hp_blocks (fst s) a = B a)"

lemma DeleteRecord_owned:
  "owns B s \<Longrightarrow> hp_blocks (fst (DeleteRecord s)) = B \<and> heap_ok (fst (DeleteRecord s))"
  by (cases s; cases "rc_level (snd s)"; cases "rc_tag (snd s)"; cases "rc_jsonStr (snd s)")
     (auto simp: owns_def DeleteRecord_def DeletePointer_def delete_block_def ptrs_def heap_ok_def)

lemma then_conv_assign [simp]:
  "then_conv (assign_field (Some v) upd) g s = g (fst s, upd (\<lambda>_. v) (snd s))"
  by (simp add: then_conv_def assign_field_def)

lemma CopyCString_eq:
  assumes "strcpy_laws cl" "len \<le> 0x7ffffffe"
  shows "CopyCString cl dst src len = (if length src > len then (dst, -1) else (c_text src, 0))"
proof -
  have "length (c_text src) \<le> length src"
    by (simp add: c_text_def length_takeWhile_le)
  then show ?thesis
    using assms by (simp add: CopyCString_def strcpy_laws_def)
qed

lemma then_conv_copy:
  assumes "strcpy_laws cl" "len \<le> 0x7ffffffe"
  shows "then_conv (copy_field cl (Some v) get upd len) g s =
    (if length v > len then Some ((fst s, upd (\<lambda>_. get (snd s)) (snd s)), -1)
     else g (fst s, upd (\<lambda>_. c_text v) (snd s)))"
  by (simp add: then_conv_def copy_field_def CopyCString_eq [OF assms])

lemma then_conv_create:
  "then_conv (create_field cl (Some v) get upd len) g s =
    (case CreateCString cl (get (snd s)) v len (fst s) of (h, p, res) \<Rightarrow>
       if res \<noteq> 0 then Some ((h, upd (\<lambda>_. p) (snd s)), res) else g (h, upd (\<lambda>_. p) (snd s)))"
  by (simp add: then_conv_def create_field_def split: prod.splits)

text \<open>The structure with everything but the three pointers.\<close>

definition plain_fields ::
  "string \<Rightarrow> string \<Rightarrow> 32 word \<Rightarrow> u64 \<Rightarrow> string \<Rightarrow> 64 word \<Rightarrow> 64 word \<Rightarrow> 64 word \<Rightarrow> u64 \<Rightarrow> u64 \<Rightarrow> u64 \<Rightarrow> 32 word \<Rightarrow> record_c" where
  "plain_fields d n ty ti tz p t u tr sp ps f =
     \<lparr>rc_domain = c_text d, rc_eventName = c_text n, rc_type = ty, rc_time = ti, rc_tz = c_text tz, rc_pid = p, rc_tid = t,
      rc_uid = u, rc_traceId = tr, rc_spandId = sp, rc_pspanId = ps, rc_traceFlag = f, rc_level = None, rc_tag = None,
      rc_jsonStr = None\<rparr>"

lemma ConvertRecord_plain:
  assumes "strcpy_laws cl" "heap_ok h"
    and "GetDomain jc rec = Some d" "GetEventName jc rec = Some n" "GetEventType jc rec = Some ty" "GetTime jc rec = Some ti"
    and "GetTimeZone jc rec = Some tz" "GetPid jc rec = Some p" "GetTid jc rec = Some t" "GetUid jc rec = Some u"
    and "GetTraceId jc rec = Some tr" "GetSpanId jc rec = Some sp" "GetPspanId jc rec = Some ps" "GetTraceFlag jc rec = Some f"
    and "GetLevel jc rec = Some l" "GetTag jc rec = Some tg"
  shows "(\<exists>r. ptrs r = [] \<and> ConvertRecord cl jc rec (h, InitRecord) = Some ((h, r), -1)) \<or>
    length d < MAX_LENGTH_OF_EVENT_DOMAIN \<and> length n < MAX_LENGTH_OF_EVENT_NAME \<and> length tz < MAX_LENGTH_OF_TIME_ZONE \<and>
    ConvertRecord cl jc rec (h, InitRecord) =
      then_conv (ConvertLevel cl jc rec) (then_conv (ConvertTag cl jc rec) (then_conv (ConvertJsonStr cl jc rec) (\<lambda>s. Some (s, 0))))
        (h, plain_fields d n ty ti tz p t u tr sp ps f)"
  using assms(3-)
  by (simp add: ConvertRecord_def ConvertDomain_def ConvertEventName_def ConvertTimeZone_def then_conv_copy [OF assms(1)]
      MAX_LENGTH_OF_EVENT_DOMAIN_def MAX_LENGTH_OF_EVENT_NAME_def MAX_LENGTH_OF_TIME_ZONE_def)
     (auto simp: InitRecord_def plain_fields_def ptrs_def)

definition own_list :: "(nat \<Rightarrow> block option) \<Rightarrow> heap \<Rightarrow> nat list \<Rightarrow> bool" where
  "own_list B h as \<longleftrightarrow>
     heap_ok h \<and> distinct as \<and> (\<forall>a \<in> set as. B a = None \<and> hp_blocks h a \<noteq> None) \<and> (\<forall>a. a \<notin> set as \<longrightarrow> hp_blocks h a = B a)"

definition opt_list :: "nat option \<Rightarrow> nat list" where
  "opt_list p = (case p of None \<Rightarrow> [] | Some a \<Rightarrow> [a])"

lemma opt_list_simps [simp]: "opt_list None = []" "opt_list (Some a) = [a]"
  by (simp_all add: opt_list_def)

lemma ptrs_opt: "ptrs r = opt_list (rc_level r) @ opt_list (rc_tag r) @ opt_list (rc_jsonStr r)"
  by (simp add: ptrs_def opt_list_def)

lemma own_list_owns: "own_list B h (ptrs r) \<Longrightarrow> owns B (h, r)"
  by (simp add: own_list_def owns_def)

lemma create_owned:
  assumes "strcpy_laws cl" "own_list B h as" "len \<le> 0x7ffffffe" "CreateCString cl None s len h = (h', p, res)"
  shows "own_list B h' (as @ opt_list p)"
    and "res = 0 \<Longrightarrow> length s \<le> len \<and> (\<exists>a. p = Some a \<and> hp_blocks h' = (hp_blocks h)(a \<mapsto> Chars (c_text s)) \<and> hp_blocks h a = None)"
proof -
  have ok: "heap_ok h"
    using assms(2) by (simp add: own_list_def)
  note made = CreateCString_made [OF assms(1) ok assms(3,4)]
  show "own_list B h' (as @ opt_list p)"
  proof (cases "res = 0")
    case True
    then obtain a where a: "p = Some a" "hp_next h \<le> a" "a < hp_next h'" "hp_blocks h' = (hp_blocks h)(a \<mapsto> Chars (c_text s))"
      using made by (auto simp: string_made_def)
    have "a \<notin> set as" "hp_blocks h a = None"
      using assms(2) a(2) heap_fresh [OF ok a(2)] by (auto simp: own_list_def)
    moreover then have "B a = None"
      using assms(2) by (auto simp: own_list_def)
    ultimately show ?thesis
      using assms(2) a made by (auto simp: own_list_def)
  next
    case False
    then show ?thesis
      using assms(2) made by (auto simp: own_list_def)
  qed
  show "res = 0 \<Longrightarrow> length s \<le> len \<and> (\<exists>a. p = Some a \<and> hp_blocks h' = (hp_blocks h)(a \<mapsto> Chars (c_text s)) \<and> hp_blocks h a = None)"
    using made heap_fresh [OF ok] by (auto simp: string_made_def)
qed

text \<open>The structure mirrors the record: every field and every string it points to.\<close>

definition mirrors :: "'j jsoncpp \<Rightarrow> 'j event_record \<Rightarrow> heap \<times> record_c \<Rightarrow> bool" where
  "mirrors jc rec s \<longleftrightarrow>
     map_option c_text (GetDomain jc rec) = Some (rc_domain (snd s)) \<and>
     map_option c_text (GetEventName jc rec) = Some (rc_eventName (snd s)) \<and>
     GetEventType jc rec = Some (rc_type (snd s)) \<and> GetTime jc rec = Some (rc_time (snd s)) \<and>
     map_option c_text (GetTimeZone jc rec) = Some (rc_tz (snd s)) \<and>
     GetPid jc rec = Some (rc_pid (snd s)) \<and> GetTid jc rec = Some (rc_tid (snd s)) \<and> GetUid jc rec = Some (rc_uid (snd s)) \<and>
     GetTraceId jc rec = Some (rc_traceId (snd s)) \<and> GetSpanId jc rec = Some (rc_spandId (snd s)) \<and>
     GetPspanId jc rec = Some (rc_pspanId (snd s)) \<and> GetTraceFlag jc rec = Some (rc_traceFlag (snd s)) \<and>
     (\<exists>a t. rc_level (snd s) = Some a \<and> GetLevel jc rec = Some t \<and> text_at (fst s) a = Some (c_text t)) \<and>
     (\<exists>a t. rc_tag (snd s) = Some a \<and> GetTag jc rec = Some t \<and> text_at (fst s) a = Some (c_text t)) \<and>
     (\<exists>a. rc_jsonStr (snd s) = Some a \<and> text_at (fst s) a = Some (c_text (AsJson rec)))"

lemma pointer_steps:
  assumes "strcpy_laws cl" "heap_ok h" "ptrs r = []" "GetLevel jc rec = Some l" "GetTag jc rec = Some t"
  shows "\<exists>h' p1 p2 p3 res.
    then_conv (ConvertLevel cl jc rec) (then_conv (ConvertTag cl jc rec) (then_conv (ConvertJsonStr cl jc rec) (\<lambda>s. Some (s, 0)))) (h, r) =
      Some ((h', r\<lparr>rc_level := p1, rc_tag := p2, rc_jsonStr := p3\<rparr>), res) \<and>
    own_list (hp_blocks h) h' (opt_list p1 @ opt_list p2 @ opt_list p3) \<and>
    (res = 0 \<longrightarrow> length (AsJson rec) \<le> MAX_JSON_LEN \<and>
      (\<exists>a. p1 = Some a \<and> hp_blocks h' a = Some (Chars (c_text l))) \<and>
      (\<exists>a. p2 = Some a \<and> hp_blocks h' a = Some (Chars (c_text t))) \<and>
      (\<exists>a. p3 = Some a \<and> hp_blocks h' a = Some (Chars (c_text (AsJson rec)))))"
proof -
  have none: "rc_level r = None" "rc_tag r = None" "rc_jsonStr r = None"
    using assms(3) by (auto simp: ptrs_opt opt_list_def split: option.splits)
  obtain h1 p1 e1 where c1: "CreateCString cl None l CREATE_MAX_LEN h = (h1, p1, e1)"
    by (metis prod_cases3)
  obtain h2 p2 e2 where c2: "CreateCString cl None t CREATE_MAX_LEN h1 = (h2, p2, e2)"
    by (metis prod_cases3)
  obtain h3 p3 e3 where c3: "CreateCString cl None (AsJson rec) MAX_JSON_LEN h2 = (h3, p3, e3)"
    by (metis prod_cases3)
  have lens: "CREATE_MAX_LEN \<le> 0x7ffffffe" "MAX_JSON_LEN \<le> 0x7ffffffe"
    by (simp_all add: CREATE_MAX_LEN_def MAX_JSON_LEN_def)
  have o0: "own_list (hp_blocks h) h []"
    using assms(2) by (simp add: own_list_def)
  note o1 = create_owned [OF assms(1) o0 lens(1) c1, simplified]
  note o2 = create_owned [OF assms(1) o1(1) lens(1) c2]
  note o3 = create_owned [OF assms(1) o2(1) lens(2) c3]
  have run: "then_conv (ConvertLevel cl jc rec) (then_conv (ConvertTag cl jc rec) (then_conv (ConvertJsonStr cl jc rec) (\<lambda>s. Some (s, 0)))) (h, r) =
      (if e1 \<noteq> 0 then Some ((h1, r\<lparr>rc_level := p1\<rparr>), e1)
       else if e2 \<noteq> 0 then Some ((h2, r\<lparr>rc_level := p1, rc_tag := p2\<rparr>), e2)
       else Some ((h3, r\<lparr>rc_level := p1, rc_tag := p2, rc_jsonStr := p3\<rparr>), e3))"
    by (simp add: ConvertLevel_def ConvertTag_def ConvertJsonStr_def assms then_conv_create none c1 c2 c3)
  let ?run = "then_conv (ConvertLevel cl jc rec) (then_conv (ConvertTag cl jc rec) (then_conv (ConvertJsonStr cl jc rec) (\<lambda>s. Some (s, 0)))) (h, r)"
  have keep: "r\<lparr>rc_level := p, rc_tag := None, rc_jsonStr := None\<rparr> = r\<lparr>rc_level := p\<rparr>"
    "r\<lparr>rc_level := p, rc_tag := q, rc_jsonStr := None\<rparr> = r\<lparr>rc_level := p, rc_tag := q\<rparr>" for p q
    using none by (cases r, simp)+
  consider (one) "e1 \<noteq> 0" | (two) "e1 = 0" "e2 \<noteq> 0" | (three) "e1 = 0" "e2 = 0"
    by blast
  then show ?thesis
  proof cases
    case one
    then have "?run = Some ((h1, r\<lparr>rc_level := p1, rc_tag := None, rc_jsonStr := None\<rparr>), e1)"
      unfolding run keep by simp
    then show ?thesis
      using o1(1) one by (intro exI conjI) (assumption, simp_all)
  next
    case two
    then have "?run = Some ((h2, r\<lparr>rc_level := p1, rc_tag := p2, rc_jsonStr := None\<rparr>), e2)"
      unfolding run keep by simp
    then show ?thesis
      using o2(1) two by (intro exI conjI) (assumption, simp_all)
  next
    case three
    then have out: "?run = Some ((h3, r\<lparr>rc_level := p1, rc_tag := p2, rc_jsonStr := p3\<rparr>), e3)"
      unfolding run by simp
    have "own_list (hp_blocks h) h3 (opt_list p1 @ opt_list p2 @ opt_list p3)"
      using o3(1) by simp
    moreover have "e3 = 0 \<longrightarrow> length (AsJson rec) \<le> MAX_JSON_LEN \<and>
      (\<exists>a. p1 = Some a \<and> hp_blocks h3 a = Some (Chars (c_text l))) \<and>
      (\<exists>a. p2 = Some a \<and> hp_blocks h3 a = Some (Chars (c_text t))) \<and>
      (\<exists>a. p3 = Some a \<and> hp_blocks h3 a = Some (Chars (c_text (AsJson rec))))"
      using o1(2) o2(2) o3(2) three by auto
    ultimately show ?thesis
      using out by (intro exI conjI) assumption+
  qed
qed

lemma key_ok_Some: "key_ok init dflt res \<Longrightarrow> \<exists>v. res = Some v"
  by (cases res) (simp_all add: key_ok_def)

lemma ConvertRecord_outcome:
  assumes "json_laws jc" "strcpy_laws cl" "heap_ok h"
  shows "\<exists>h' r res. ConvertRecord cl jc rec (h, InitRecord) = Some ((h', r), res) \<and> own_list (hp_blocks h) h' (ptrs r) \<and>
    (res = 0 \<longrightarrow> mirrors jc rec (h', r))"
proof -
  obtain d n ty ti tz p t u tr sp ps f l tg where got:
    "GetDomain jc rec = Some d" "GetEventName jc rec = Some n" "GetEventType jc rec = Some ty" "GetTime jc rec = Some ti"
    "GetTimeZone jc rec = Some tz" "GetPid jc rec = Some p" "GetTid jc rec = Some t" "GetUid jc rec = Some u"
    "GetTraceId jc rec = Some tr" "GetSpanId jc rec = Some sp" "GetPspanId jc rec = Some ps" "GetTraceFlag jc rec = Some f"
    "GetLevel jc rec = Some l" "GetTag jc rec = Some tg"
    using builtin_keys [OF assms(1), of rec] by (elim conjE key_ok_Some [elim_format] exE) blast
  let ?r = "plain_fields d n ty ti tz p t u tr sp ps f"
  consider (short) r where "ptrs r = []" "ConvertRecord cl jc rec (h, InitRecord) = Some ((h, r), -1)"
    | (full) "ConvertRecord cl jc rec (h, InitRecord) =
        then_conv (ConvertLevel cl jc rec) (then_conv (ConvertTag cl jc rec) (then_conv (ConvertJsonStr cl jc rec) (\<lambda>s. Some (s, 0)))) (h, ?r)"
    using ConvertRecord_plain [OF assms(2,3) got] by blast
  then show ?thesis
  proof cases
    case short
    then show ?thesis
      using assms(3) by (auto simp: own_list_def)
  next
    case full
    have "ptrs ?r = []"
      by (simp add: ptrs_opt plain_fields_def)
    from pointer_steps [OF assms(2,3) this got(13,14), folded full] obtain h' p1 p2 p3 res where
      out: "ConvertRecord cl jc rec (h, InitRecord) = Some ((h', ?r\<lparr>rc_level := p1, rc_tag := p2, rc_jsonStr := p3\<rparr>), res)"
      "own_list (hp_blocks h) h' (opt_list p1 @ opt_list p2 @ opt_list p3)"
      "res = 0 \<Longrightarrow> (\<exists>a. p1 = Some a \<and> hp_blocks h' a = Some (Chars (c_text l)))"
      "res = 0 \<Longrightarrow> (\<exists>a. p2 = Some a \<and> hp_blocks h' a = Some (Chars (c_text tg)))"
      "res = 0 \<Longrightarrow> (\<exists>a. p3 = Some a \<and> hp_blocks h' a = Some (Chars (c_text (AsJson rec))))"
      by (elim exE conjE) blast
    have "own_list (hp_blocks h) h' (ptrs (?r\<lparr>rc_level := p1, rc_tag := p2, rc_jsonStr := p3\<rparr>))"
      using out(2) by (simp add: ptrs_opt)
    moreover have "res = 0 \<longrightarrow> mirrors jc rec (h', ?r\<lparr>rc_level := p1, rc_tag := p2, rc_jsonStr := p3\<rparr>)"
      using out(3-5) by (auto simp: mirrors_def plain_fields_def text_at_def got)
    ultimately show ?thesis
      using out(1) by blast
  qed
qed

lemma own_list_trans:
  "own_list B h as \<Longrightarrow> own_list (hp_blocks h) h' bs \<Longrightarrow> own_list B h' (as @ bs)"
  by (auto simp: own_list_def) metis+

lemma mirrors_stable:
  assumes "mirrors jc rec (h, r)" "own_list (hp_blocks h) h' bs"
  shows "mirrors jc rec (h', r)"
proof -
  have "text_at h' a = Some t" if "text_at h a = Some t" for a t
  proof -
    have "hp_blocks h a \<noteq> None"
      using that by (auto simp: text_at_def split: option.splits)
    then have "hp_blocks h' a = hp_blocks h a"
      using assms(2) by (cases "a \<in> set bs") (auto simp: own_list_def)
    then show ?thesis
      using that by (simp add: text_at_def)
  qed
  then show ?thesis
    using assms(1) by (auto simp: mirrors_def)
qed

text \<open>
  Converting a record is safe: whatever the record holds and whichever allocation
  fails, the conversion returns without an exception, and releasing the structure it leaves,
  complete or not, frees exactly the blocks that the conversion allocated.
\<close>

lemma ConvertRecord_no_leak:
  assumes "json_laws jc" "strcpy_laws cl" "heap_ok h"
  shows "\<exists>s res. ConvertRecord cl jc rec (h, InitRecord) = Some (s, res) \<and>
    hp_blocks (fst (DeleteRecord s)) = hp_blocks h \<and> ptrs (snd (DeleteRecord s)) = []"
proof -
  from ConvertRecord_outcome [OF assms, of rec] obtain h' r res where
    out: "ConvertRecord cl jc rec (h, InitRecord) = Some ((h', r), res)" "own_list (hp_blocks h) h' (ptrs r)"
    by blast
  from out(2) have "hp_blocks (fst (DeleteRecord (h', r))) = hp_blocks h"
    by (intro conjunct1 [OF DeleteRecord_owned] own_list_owns)
  moreover have "ptrs (snd (DeleteRecord (h', r))) = []"
    by (simp add: DeleteRecord_def DeletePointer_def ptrs_opt split: option.splits)
  ultimately show ?thesis
    using out(1) by blast
qed

text \<open>
  A conversion that returns 0 is faithful: each field of the C structure is the value of
  the record's own member function, and its three pointers lead to the level, the tag and the
  whole JSON text, each up to its first NUL character.
\<close>

lemma ConvertRecord_faithful:
  assumes "json_laws jc" "strcpy_laws cl" "heap_ok h"
    and "ConvertRecord cl jc rec (h, InitRecord) = Some (s, 0)"
  shows "mirrors jc rec s"
  using ConvertRecord_outcome [OF assms(1-3), of rec] assms(4) by auto

section \<open>The C readers on a converted record\<close>

lemma c_text_plain: "CHR 0x00 \<notin> set t \<Longrightarrow> c_text t = t"
  by (auto simp: c_text_def takeWhile_eq_all_conv)

lemma mirrors_json:
  assumes "mirrors jc (Record_ParseJsonStr jc t) (h, r)" "CHR 0x00 \<notin> set t"
  obtains p where "rc_jsonStr r = Some p" "text_at h p = Some t"
  using assms by (auto simp: mirrors_def c_text_plain AsJson_def Record_ParseJsonStr_def)

text \<open>
  The C interface reads what the C++ interface reads: on a structure converted from the
  record of a text, every C reader of a number gives the value and the code of the C++
  reader on that record, and without structure text or key name it gives \<open>ERR_NULL\<close> and leaves
  the output alone.
\<close>

lemma C_readers_equal_Cpp:
  assumes "json_laws jc" "strcpy_laws cl" "heap_ok h" "CHR 0x00 \<notin> set t"
    and "ConvertRecord cl jc (Record_ParseJsonStr jc t) (h, InitRecord) = Some ((h', r), 0)"
  shows "OH_HiSysEvent_GetParamInt64Value jc h' r (Some n) v = GetParamValue_int64 jc (Record_ParseJsonStr jc t) n v \<and>
    OH_HiSysEvent_GetParamUint64Value jc h' r (Some n) u = GetParamValue_uint64 jc (Record_ParseJsonStr jc t) n u \<and>
    OH_HiSysEvent_GetParamDoubleValue jc h' r (Some n) d = GetParamValue_double jc (Record_ParseJsonStr jc t) n d \<and>
    OH_HiSysEvent_GetParamInt64Value jc h' r None v = Some (v, ERR_NULL)"
proof -
  have "mirrors jc (Record_ParseJsonStr jc t) (h', r)"
    using ConvertRecord_outcome [OF assms(1-3), of "Record_ParseJsonStr jc t"] assms(5) by auto
  from mirrors_json [OF this assms(4)] obtain p where "rc_jsonStr r = Some p" "text_at h' p = Some t" .
  then show ?thesis
    by (simp add: OH_HiSysEvent_GetParamInt64Value_def OH_HiSysEvent_GetParamUint64Value_def
        OH_HiSysEvent_GetParamDoubleValue_def GetParamValue_c_def)
qed

section \<open>The query callback\<close>

lemma DeleteRecord_own_list:
  assumes "own_list B h (ptrs r @ as)"
  shows "own_list B (fst (DeleteRecord (h, r))) as"
proof -
  let ?B = "\<lambda>a. if a \<in> set (ptrs r) then None else hp_blocks h a"
  have "owns ?B (h, r)"
    using assms by (auto simp: owns_def own_list_def)
  from DeleteRecord_owned [OF this] assms show ?thesis
    by (auto simp: own_list_def)
qed

lemma delete_each_own_list:
  "own_list B h (concat (map ptrs rs)) \<Longrightarrow> own_list B (delete_each rs h) []"
  by (induction rs arbitrary: h) (simp_all add: DeleteRecord_own_list)

lemma own_list_Nil: "own_list B h [] \<longleftrightarrow> heap_ok h \<and> hp_blocks h = B"
  by (auto simp: own_list_def)

lemma OnQuery_loop_outcome:
  assumes "json_laws jc" "strcpy_laws cl" "own_list B h (concat (map ptrs recs))"
    and "list_all2 (\<lambda>e r. mirrors jc e (h, r)) es0 recs"
  shows "\<exists>h' recs' ok. OnQuery_loop cl jc es recs h = Some (h', recs', ok) \<and> own_list B h' (concat (map ptrs recs')) \<and>
    (ok \<longrightarrow> list_all2 (\<lambda>e r. mirrors jc e (h', r)) (es0 @ es) recs')"
  using assms(3,4)
proof (induction es arbitrary: recs h es0)
  case Nil
  then show ?case
    by (intro exI [of _ h] exI [of _ recs] exI [of _ True]) simp
next
  case (Cons e es)
  have "heap_ok h"
    using Cons.prems(1) by (simp add: own_list_def)
  from ConvertRecord_outcome [OF assms(1,2) this, of e] obtain h1 r res where
    one: "ConvertRecord cl jc e (h, InitRecord) = Some ((h1, r), res)" "own_list (hp_blocks h) h1 (ptrs r)"
      "res = 0 \<Longrightarrow> mirrors jc e (h1, r)"
    by blast
  have own: "own_list B h1 (concat (map ptrs (recs @ [r])))"
    using own_list_trans [OF Cons.prems(1) one(2)] by simp
  show ?case
  proof (cases "res = 0")
    case True
    have "list_all2 (\<lambda>e r. mirrors jc e (h1, r)) (es0 @ [e]) (recs @ [r])"
      using Cons.prems(2) one(3) True by (auto intro!: list_all2_appendI elim!: list_all2_mono mirrors_stable [OF _ one(2)])
    from Cons.IH [OF own this] True show ?thesis
      by (simp add: one(1))
  next
    case False
    then show ?thesis
      using own by (intro exI [of _ h1] exI [of _ "recs @ [r]"] exI [of _ False]) (simp add: one(1))
  qed
qed

lemma OnQuery_nonempty:
  "es \<noteq> [] \<Longrightarrow> OnQuery cl jc True (Some es) h =
     (case alloc cl (length es) (Records (length es)) h of
        (h1, None) \<Rightarrow> Some (h1, [])
      | (h1, Some p) \<Rightarrow>
          (case OnQuery_loop cl jc es [] h1 of
             None \<Rightarrow> None
           | Some (h2, recs, ok) \<Rightarrow>
               Some (DeleteRecords (Some p) recs (length recs) h2,
                 if ok then [QueryCall h2 (Some recs) (length es)] else [])))"
  by (cases es) (auto simp: OnQuery_def simp del: OnQuery_loop.simps split: prod.splits option.splits)

text \<open>
  C22. A page of query results reaches the C callback whole or not at all, and leaks nothing:
  with records to deliver, either the callback runs once, with an array of one structure per
  record in order, each mirroring its record, or (a conversion or an allocation failed) it
  does not run; in both cases exactly the blocks from before are allocated afterwards.
\<close>

theorem OnQuery_delivers_or_cleans:
  assumes "json_laws jc" "strcpy_laws cl" "heap_ok h" "es \<noteq> []"
  shows "\<exists>h' calls. OnQuery cl jc True (Some es) h = Some (h', calls) \<and> hp_blocks h' = hp_blocks h \<and>
    (calls = [] \<or> (\<exists>hc rs. calls = [QueryCall hc (Some rs) (length es)] \<and> list_all2 (\<lambda>e r. mirrors jc e (hc, r)) es rs))"
proof (cases "alloc cl (length es) (Records (length es)) h")
  case (Pair h1 p)
  show ?thesis
  proof (cases p)
    case None
    then show ?thesis
      using assms(4) Pair by (auto simp: OnQuery_def alloc_def neq_Nil_conv split: if_splits)
  next
    case (Some a)
    have h1: "heap_ok h1" "hp_blocks h1 = (hp_blocks h)(a \<mapsto> Records (length es))" "hp_blocks h a = None"
      using Pair Some assms(3) heap_fresh [OF assms(3)]
      by (auto simp: alloc_def heap_ok_def less_Suc_eq split: if_splits)
    from OnQuery_loop_outcome [of jc cl "hp_blocks h1" h1 "[]" "[]" es] assms(1,2) h1(1) obtain h2 recs ok where
      loop: "OnQuery_loop cl jc es [] h1 = Some (h2, recs, ok)" "own_list (hp_blocks h1) h2 (concat (map ptrs recs))"
        "ok \<Longrightarrow> list_all2 (\<lambda>e r. mirrors jc e (h2, r)) es recs"
      by (auto simp: own_list_Nil)
    have "OnQuery cl jc True (Some es) h =
      Some (delete_block a (delete_each recs h2), if ok then [QueryCall h2 (Some recs) (length es)] else [])"
      using assms(4) Pair Some loop(1) by (simp add: OnQuery_nonempty DeleteRecords_def)
    moreover have "hp_blocks (delete_block a (delete_each recs h2)) = hp_blocks h"
      using delete_each_own_list [OF loop(2)] h1(2,3) by (auto simp: own_list_Nil delete_block_def)
    ultimately show ?thesis
      using loop(3) by (cases ok) simp_all
  qed
qed

section \<open>A sample record\<close>

lemmas sample_eval = plain_json_def sample_doc_def Record_ParseJsonStr_def HiSysEventValue_parse_def HasInitialized_def
  IsMember_def Value_GetParamValue_def json_entry_def HiSysEventValue_of_def value_types IsArray_def IsInt64_def IsUInt64_def IsDouble_def IsString_def
  AsString_def AsInt64_def
  AsUInt64_def json_word_def

lemmas sample_keys = GetStringValueByKey_def GetInt64ValueByKey_def GetUInt64ValueByKey_def GetIntValueByKey_def
  GetParamValue_string_def GetParamValue_int64_def GetParamValue_uint64_def GetParamValue_with_def

text \<open>The texts of a record fit the structure and the limits of the copies.\<close>

definition fits :: "'j jsoncpp \<Rightarrow> 'j event_record \<Rightarrow> bool" where
  "fits jc rec \<longleftrightarrow>
     (\<forall>d. GetDomain jc rec = Some d \<longrightarrow> length d < MAX_LENGTH_OF_EVENT_DOMAIN) \<and>
     (\<forall>n. GetEventName jc rec = Some n \<longrightarrow> length n < MAX_LENGTH_OF_EVENT_NAME) \<and>
     (\<forall>z. GetTimeZone jc rec = Some z \<longrightarrow> length z < MAX_LENGTH_OF_TIME_ZONE) \<and>
     (\<forall>l. GetLevel jc rec = Some l \<longrightarrow> length l \<le> CREATE_MAX_LEN) \<and>
     (\<forall>t. GetTag jc rec = Some t \<longrightarrow> length t \<le> CREATE_MAX_LEN) \<and> length (AsJson rec) \<le> MAX_JSON_LEN"

lemma CreateCString_works:
  assumes "strcpy_laws cl" "\<And>i n. cl_new cl i n" "length s \<le> len" "len \<le> 0x7ffffffe"
  shows "\<exists>h' p. CreateCString cl dst s len h = (h', p, 0)"
proof -
  have "length (c_text s) < Suc (length s)"
    by (simp add: c_text_def length_takeWhile_le less_Suc_eq_le)
  then have "cl_strcpy cl (Suc (length s)) (c_text s) = (0, c_text s)"
    using assms by (simp add: strcpy_laws_def)
  then show ?thesis
    using assms(2,3) by (simp add: CreateCString_def alloc_def)
qed

lemma create_field_works:
  assumes "strcpy_laws cl" "\<And>i n. cl_new cl i n" "length v \<le> len" "len \<le> 0x7ffffffe" "\<And>s. \<exists>s'. g s = Some (s', 0)"
  shows "\<exists>s'. then_conv (create_field cl (Some v) get upd len) g s = Some (s', 0)"
proof -
  from CreateCString_works [OF assms(1-4), of "get (snd s)" "fst s"] obtain h' p where
    "CreateCString cl (get (snd s)) v len (fst s) = (h', p, 0)"
    by blast
  then show ?thesis
    using assms(5) by (simp add: then_conv_create)
qed

lemma ConvertRecord_works:
  assumes "json_laws jc" "strcpy_laws cl" "\<And>i n. cl_new cl i n" "fits jc rec"
  shows "\<exists>s. ConvertRecord cl jc rec (h, InitRecord) = Some (s, 0)"
proof -
  obtain d n ty ti tz p t u tr sp ps f l tg where got:
    "GetDomain jc rec = Some d" "GetEventName jc rec = Some n" "GetEventType jc rec = Some ty" "GetTime jc rec = Some ti"
    "GetTimeZone jc rec = Some tz" "GetPid jc rec = Some p" "GetTid jc rec = Some t" "GetUid jc rec = Some u"
    "GetTraceId jc rec = Some tr" "GetSpanId jc rec = Some sp" "GetPspanId jc rec = Some ps" "GetTraceFlag jc rec = Some f"
    "GetLevel jc rec = Some l" "GetTag jc rec = Some tg"
    using builtin_keys [OF assms(1), of rec] by (elim conjE key_ok_Some [elim_format] exE) blast
  have len: "length d < MAX_LENGTH_OF_EVENT_DOMAIN" "length n < MAX_LENGTH_OF_EVENT_NAME" "length tz < MAX_LENGTH_OF_TIME_ZONE"
    "length l \<le> CREATE_MAX_LEN" "length tg \<le> CREATE_MAX_LEN" "length (AsJson rec) \<le> MAX_JSON_LEN"
    using assms(4) by (simp_all add: fits_def got)
  have lim: "CREATE_MAX_LEN \<le> 0x7ffffffe" "MAX_JSON_LEN \<le> 0x7ffffffe"
    by (simp_all add: CREATE_MAX_LEN_def MAX_JSON_LEN_def)
  have "\<exists>s0. ConvertRecord cl jc rec (h, InitRecord) =
      then_conv (ConvertLevel cl jc rec) (then_conv (ConvertTag cl jc rec) (then_conv (ConvertJsonStr cl jc rec) (\<lambda>s. Some (s, 0)))) s0"
    using len(1-3) unfolding ConvertRecord_def got then_conv_assign ConvertDomain_def ConvertEventName_def ConvertTimeZone_def
    by (simp add: then_conv_copy [OF assms(2)] MAX_LENGTH_OF_EVENT_DOMAIN_def MAX_LENGTH_OF_EVENT_NAME_def
        MAX_LENGTH_OF_TIME_ZONE_def) blast
  moreover have "\<exists>s. then_conv (ConvertLevel cl jc rec)
      (then_conv (ConvertTag cl jc rec) (then_conv (ConvertJsonStr cl jc rec) (\<lambda>s. Some (s, 0)))) s0 = Some (s, 0)" for s0
    unfolding ConvertLevel_def ConvertTag_def ConvertJsonStr_def got
    by (intro create_field_works assms(2,3) len lim) blast
  ultimately show ?thesis
    by metis
qed

lemma std_lib_new: "cl_new std_lib i n"
  by (simp add: std_lib_def)

lemma sample_fits: "fits (plain_json (Some sample_doc)) (Record_ParseJsonStr (plain_json (Some sample_doc)) ''{}'')"
  by (simp add: fits_def GetDomain_def GetEventName_def GetTimeZone_def GetLevel_def GetTag_def sample_keys sample_eval
      MAX_LENGTH_OF_EVENT_DOMAIN_def MAX_LENGTH_OF_EVENT_NAME_def MAX_LENGTH_OF_TIME_ZONE_def CREATE_MAX_LEN_def
      MAX_JSON_LEN_def AsJson_def)

lemma sample_converts:
  obtains h' r where "ConvertRecord std_lib (plain_json (Some sample_doc)) (Record_ParseJsonStr (plain_json (Some sample_doc)) ''{}'')
      (empty_heap, InitRecord) = Some ((h', r), 0)"
  using ConvertRecord_works [OF plain_json_laws std_lib_laws(1) std_lib_new sample_fits, of empty_heap] by auto

lemma ConvertRecord_faithful_example:
  "\<exists>s. ConvertRecord std_lib (plain_json (Some sample_doc)) (Record_ParseJsonStr (plain_json (Some sample_doc)) ''{}'')
      (empty_heap, InitRecord) = Some (s, 0) \<and>
    mirrors (plain_json (Some sample_doc)) (Record_ParseJsonStr (plain_json (Some sample_doc)) ''{}'') s"
  using ConvertRecord_faithful [OF plain_json_laws std_lib_laws] by (auto intro: sample_converts)

lemma C_readers_equal_Cpp_example:
  "\<exists>h r. OH_HiSysEvent_GetParamInt64Value (plain_json (Some sample_doc)) h r (Some ''pid_'') 0 = Some (12, 0)"
proof -
  have "GetParamValue_int64 (plain_json (Some sample_doc)) (Record_ParseJsonStr (plain_json (Some sample_doc)) ''{}'') ''pid_'' 0 =
      Some (12, 0)"
    by (simp add: sample_keys sample_eval VALUE_PARSED_SUCCEED_def)
  moreover obtain h' r where "ConvertRecord std_lib (plain_json (Some sample_doc))
      (Record_ParseJsonStr (plain_json (Some sample_doc)) ''{}'') (empty_heap, InitRecord) = Some ((h', r), 0)"
    by (rule sample_converts)
  from C_readers_equal_Cpp [OF plain_json_laws std_lib_laws _ this]
  have "OH_HiSysEvent_GetParamInt64Value (plain_json (Some sample_doc)) h' r (Some ''pid_'') 0 =
      GetParamValue_int64 (plain_json (Some sample_doc)) (Record_ParseJsonStr (plain_json (Some sample_doc)) ''{}'') ''pid_'' 0"
    by simp
  ultimately show ?thesis
    by metis
qed

theorem OnQuery_delivers_or_cleans_witness:
  "\<exists>h' calls. OnQuery std_lib (plain_json (Some sample_doc)) True
      (Some [Record_ParseJsonStr (plain_json (Some sample_doc)) ''{}'']) empty_heap = Some (h', calls) \<and>
    hp_blocks h' = hp_blocks empty_heap"
  using OnQuery_delivers_or_cleans [OF plain_json_laws std_lib_laws] by blast

text \<open>
  An event of a subscription reaches the C callback exactly once and leaves nothing
  allocated. The structure mirrors the event when the conversion succeeded; when it failed,
  the callback still gets the structure, with what had been converted by then.
\<close>

lemma OnEvent_delivers_and_cleans:
  assumes "json_laws jc" "strcpy_laws cl" "heap_ok h"
  shows "\<exists>h' hc r res. ConvertRecord cl jc e (h, InitRecord) = Some ((hc, r), res) \<and>
    OnEvent cl jc True (Some e) h = Some (h', [EventCall hc r]) \<and> hp_blocks h' = hp_blocks h \<and>
    (res = 0 \<longrightarrow> mirrors jc e (hc, r))"
proof -
  from ConvertRecord_outcome [OF assms, of e] obtain hc r res where
    out: "ConvertRecord cl jc e (h, InitRecord) = Some ((hc, r), res)" "own_list (hp_blocks h) hc (ptrs r)"
      "res = 0 \<longrightarrow> mirrors jc e (hc, r)"
    by blast
  from out(2) have "hp_blocks (fst (DeleteRecord (hc, r))) = hp_blocks h"
    by (intro conjunct1 [OF DeleteRecord_owned] own_list_owns)
  then show ?thesis
    using out(1,3) by (simp add: OnEvent_def)
qed

lemma OnEvent_delivers_and_cleans_example:
  "\<exists>h' hc r. OnEvent std_lib (plain_json (Some sample_doc)) True
      (Some (Record_ParseJsonStr (plain_json (Some sample_doc)) ''{}'')) empty_heap = Some (h', [EventCall hc r]) \<and>
    hp_blocks h' = hp_blocks empty_heap"
  using OnEvent_delivers_and_cleans [OF plain_json_laws std_lib_laws] by blast

end
