(* ===== verification/QueryDelivery.thy ===== *)
theory QueryDelivery
  imports RecordConvertor
begin

text \<open>
  The way of a page of query results from the event server to the callback: the texts travel
  in shared memory (adapter/native/idl/src/ash_mem_utils.cpp), the callback stub takes them
  out (query_sys_event_callback_stub.cpp), and the query proxy and the base callback pass
  them on as records (hisysevent_query_proxy.cpp, hisysevent_base_query_callback.h); events
  of a subscription take the listener's way (hisysevent_listener_proxy.cpp,
  hisysevent_base_listener.h). The theory shows that the texts arrive unchanged and in order.
\<close>

section \<open>Parcel and shared memory\<close>

text \<open>
  The operations of the IPC library that the code calls: conversions between the two kinds
  of strings (\<open>'w\<close> stands for \<^verbatim>\<open>std::u16string\<close>), parcels \<open>'p\<close> and shared memory areas \<open>'m\<close>. A
  reading operation returns \<open>None\<close> where the library reports an error. \<open>ic_store data len off\<close>
  is \<^verbatim>\<open>WriteToAshmem\<close>; \<open>ic_load len off\<close> is \<^verbatim>\<open>ReadFromAshmem\<close>, whose result is the memory from
  the returned pointer to the end of the area; \<open>ic_close\<close> unmaps and closes.
\<close>

record ('p, 'm, 'w) ipc =
  ic_toStr8 :: "'w \<Rightarrow> string"
  ic_toStr16 :: "string \<Rightarrow> 'w"
  ic_writeSizes :: "u32 list \<Rightarrow> 'p \<Rightarrow> 'p \<times> bool"
  ic_readSizes :: "'p \<Rightarrow> 'p \<times> u32 list option"
  ic_writeArea :: "'m \<Rightarrow> 'p \<Rightarrow> 'p \<times> bool"
  ic_readArea :: "'p \<Rightarrow> 'p \<times> 'm option"
  ic_readSeqs :: "'p \<Rightarrow> 'p \<times> 64 word list option"
  ic_readInt32 :: "'p \<Rightarrow> 'p \<times> 32 word option"
  ic_readInt64 :: "'p \<Rightarrow> 'p \<times> 64 word option"
  ic_readToken :: "'p \<Rightarrow> 'p \<times> 'w"
  ic_descriptor :: 'w
  ic_create :: "nat \<Rightarrow> 'm option"
  ic_map :: "'m \<Rightarrow> 'm \<times> bool"
  ic_store :: "byte list \<Rightarrow> u32 \<Rightarrow> u32 \<Rightarrow> 'm \<Rightarrow> 'm \<times> bool"
  ic_load :: "u32 \<Rightarrow> u32 \<Rightarrow> 'm \<Rightarrow> byte list option"
  ic_close :: "'m \<Rightarrow> 'm"
  ic_defaultReply :: "nat \<Rightarrow> int"

section \<open>Bulk data (ash_mem_utils.cpp)\<close>

definition ASH_MEM_SIZE :: nat where "ASH_MEM_SIZE = 1024 * 769"

definition ParseAllStringItemSize :: "('p, 'm, 'w) ipc \<Rightarrow> 'w list \<Rightarrow> string list \<times> u32 list" where
  "ParseAllStringItemSize ic data =
     (map (ic_toStr8 ic) data, map (\<lambda>item. of_nat (length (c_text (ic_toStr8 ic item)) + 1)) data)"

definition GetAshmem :: "('p, 'm, 'w) ipc \<Rightarrow> 'm option" where
  "GetAshmem ic =
     (case ic_create ic ASH_MEM_SIZE of
        None \<Rightarrow> None
      | Some ashmem \<Rightarrow>
          (case ic_map ic ashmem of (ashmem', mapped) \<Rightarrow> if \<not> mapped then Some ashmem' else Some ashmem'))"

definition CloseAshmem :: "('p, 'm, 'w) ipc \<Rightarrow> 'm \<Rightarrow> 'm" where
  "CloseAshmem ic ashmem = ic_close ic ashmem"

fun WriteBulkData_loop :: "('p, 'm, 'w) ipc \<Rightarrow> (string \<times> u32) list \<Rightarrow> u32 \<Rightarrow> 'm \<Rightarrow> 'm \<times> bool" where
  "WriteBulkData_loop ic [] offset ashmem = (ashmem, True)"
| "WriteBulkData_loop ic ((translated, sz) # items) offset ashmem =
     (case ic_store ic (bytes_of_string (c_text translated) @ [0]) sz offset ashmem of
        (ashmem', False) \<Rightarrow> (ashmem', False)
      | (ashmem', True) \<Rightarrow> WriteBulkData_loop ic items (offset + sz) ashmem')"

text \<open>The last component is the area that was created, in the state the function leaves it in.\<close>

definition WriteBulkData :: "('p, 'm, 'w) ipc \<Rightarrow> 'w list \<Rightarrow> 'p \<Rightarrow> 'p \<times> 'm option \<times> 'm option" where
  "WriteBulkData ic src parcel =
     (case ParseAllStringItemSize ic src of (allData, allSize) \<Rightarrow>
      case ic_writeSizes ic allSize parcel of
        (p1, False) \<Rightarrow> (p1, None, None)
      | (p1, True) \<Rightarrow>
          (case GetAshmem ic of
             None \<Rightarrow> (p1, None, None)
           | Some ashmem \<Rightarrow>
               (case WriteBulkData_loop ic (zip allData allSize) 0 ashmem of
                  (m, False) \<Rightarrow> (p1, None, Some (CloseAshmem ic m))
                | (m, True) \<Rightarrow>
                    (case ic_writeArea ic m p1 of
                       (p2, False) \<Rightarrow> (p2, None, Some (CloseAshmem ic m))
                     | (p2, True) \<Rightarrow> (p2, Some m, Some m)))))"

text \<open>
  The string is built from the pointer alone, up to the next NUL; \<open>None\<close> is a read behind
  the end of the area.
\<close>

fun ReadBulkData_loop :: "('p, 'm, 'w) ipc \<Rightarrow> u32 list \<Rightarrow> u32 \<Rightarrow> 'm \<Rightarrow> 'w list \<Rightarrow> ('w list \<times> bool) option" where
  "ReadBulkData_loop ic [] offset ashmem dest = Some (dest, True)"
| "ReadBulkData_loop ic (sz # sizes) offset ashmem dest =
     (case ic_load ic sz offset ashmem of
        None \<Rightarrow> Some (dest, False)
      | Some origin \<Rightarrow>
          if 0 \<notin> set origin then None
          else ReadBulkData_loop ic sizes (offset + sz) ashmem (dest @ [ic_toStr16 ic (c_string origin)]))"

definition ReadBulkData :: "('p, 'm, 'w) ipc \<Rightarrow> 'w list \<Rightarrow> 'p \<Rightarrow> ('p \<times> 'w list \<times> bool \<times> 'm option) option" where
  "ReadBulkData ic dest parcel =
     (case ic_readSizes ic parcel of
        (p1, None) \<Rightarrow> Some (p1, dest, False, None)
      | (p1, Some allSize) \<Rightarrow>
          (case ic_readArea ic p1 of
             (p2, None) \<Rightarrow> Some (p2, dest, False, None)
           | (p2, Some ashmem) \<Rightarrow>
               (case ic_map ic ashmem of
                  (m, False) \<Rightarrow> Some (p2, dest, False, Some (CloseAshmem ic m))
                | (m, True) \<Rightarrow>
                    (case ReadBulkData_loop ic allSize 0 m dest of
                       None \<Rightarrow> None
                     | Some (dest', ok) \<Rightarrow> Some (p2, dest', ok, Some (CloseAshmem ic m))))))"

section \<open>From the stub to the callback\<close>

text \<open>What the user's callback and listener objects are called with.\<close>

datatype 'j client_call =
    Client_OnQuery "'j event_record list"
  | Client_OnComplete "32 word" "32 word"
  | Client_OnEvent "'j event_record"
  | Client_OnServiceDied

text \<open>\<^verbatim>\<open>HiSysEventBaseQueryCallback\<close>; \<open>has_callback\<close>: it holds a callback.\<close>

definition Base_OnQuery :: "'j jsoncpp \<Rightarrow> bool \<Rightarrow> string list \<Rightarrow> 64 word list \<Rightarrow> 'j client_call list" where
  "Base_OnQuery jc has_callback sysEvents seqs =
     (if has_callback then [Client_OnQuery (map (Record_ParseJsonStr jc) sysEvents)] else [])"

definition Base_OnComplete :: "bool \<Rightarrow> 32 word \<Rightarrow> 32 word \<Rightarrow> 'j client_call list" where
  "Base_OnComplete has_callback reason cnt = (if has_callback then [Client_OnComplete reason cnt] else [])"

definition Base_OnComplete_seq :: "bool \<Rightarrow> 32 word \<Rightarrow> 32 word \<Rightarrow> 64 word \<Rightarrow> 'j client_call list" where
  "Base_OnComplete_seq has_callback reason cnt seq = Base_OnComplete has_callback reason cnt"

text \<open>\<^verbatim>\<open>HiSysEventQueryProxy\<close>; the callback is \<open>None\<close> (null) or a base callback.\<close>

definition QueryProxy_OnQuery ::
  "('p, 'm, 'w) ipc \<Rightarrow> 'j jsoncpp \<Rightarrow> bool option \<Rightarrow> 'w list \<Rightarrow> 64 word list \<Rightarrow> 'j client_call list" where
  "QueryProxy_OnQuery ic jc queryCallback sysEvents seq =
     (case queryCallback of
        None \<Rightarrow> []
      | Some has_callback \<Rightarrow> Base_OnQuery jc has_callback (map (ic_toStr8 ic) sysEvents) seq)"

definition QueryProxy_OnComplete :: "bool option \<Rightarrow> 32 word \<Rightarrow> 32 word \<Rightarrow> 64 word \<Rightarrow> 'j client_call list" where
  "QueryProxy_OnComplete queryCallback reason cnt seq =
     (case queryCallback of None \<Rightarrow> [] | Some has_callback \<Rightarrow> Base_OnComplete_seq has_callback reason cnt seq)"

text \<open>The stub; the results other than success are constants of the IPC library.\<close>

datatype remote_result = ERR_OK | ERR_INVALID_VALUE | ERR_FLATTEN_OBJECT | DefaultReply int

definition ON_QUERY :: nat where "ON_QUERY = 0"
definition ON_COMPLETE :: nat where "ON_COMPLETE = 1"

definition OnRemoteRequest ::
  "('p, 'm, 'w) ipc \<Rightarrow> 'j jsoncpp \<Rightarrow> bool option \<Rightarrow> nat \<Rightarrow> 'p \<Rightarrow> (remote_result \<times> 'j client_call list) option" where
  "OnRemoteRequest ic jc queryCallback code data =
     (case ic_readToken ic data of (d0, remoteDescripter) \<Rightarrow>
      if ic_descriptor ic \<noteq> remoteDescripter then Some (ERR_INVALID_VALUE, [])
      else if code = ON_QUERY then
        (case ReadBulkData ic [] d0 of
           None \<Rightarrow> None
         | Some (d1, sysEvent, ret, ashmem) \<Rightarrow>
             if \<not> ret then Some (ERR_FLATTEN_OBJECT, [])
             else case ic_readSeqs ic d1 of
               (d2, None) \<Rightarrow> Some (ERR_FLATTEN_OBJECT, [])
             | (d2, Some seq) \<Rightarrow> Some (ERR_OK, QueryProxy_OnQuery ic jc queryCallback sysEvent seq))
      else if code = ON_COMPLETE then
        (case ic_readInt32 ic d0 of
           (d1, None) \<Rightarrow> Some (ERR_FLATTEN_OBJECT, [])
         | (d1, Some reason) \<Rightarrow>
             (case ic_readInt32 ic d1 of
                (d2, None) \<Rightarrow> Some (ERR_FLATTEN_OBJECT, [])
              | (d2, Some cnt) \<Rightarrow>
                  (case ic_readInt64 ic d2 of
                     (d3, None) \<Rightarrow> Some (ERR_FLATTEN_OBJECT, [])
                   | (d3, Some seq) \<Rightarrow> Some (ERR_OK, QueryProxy_OnComplete queryCallback reason cnt seq))))
      else Some (DefaultReply (ic_defaultReply ic code), []))"

text \<open>
  The listener's way. A listener object is \<open>None\<close> (null) or a base listener, which holds the
  user's listener or none.
\<close>

definition BaseListener_OnEvent :: "'j jsoncpp \<Rightarrow> bool \<Rightarrow> string \<Rightarrow> string \<Rightarrow> u32 \<Rightarrow> string \<Rightarrow> 'j client_call list" where
  "BaseListener_OnEvent jc has_listener domain eventName eventType eventDetail =
     (if has_listener then [Client_OnEvent (Record_ParseJsonStr jc eventDetail)] else [])"

definition BaseListener_OnServiceDied :: "bool \<Rightarrow> 'j client_call list" where
  "BaseListener_OnServiceDied has_listener = (if has_listener then [Client_OnServiceDied] else [])"

definition ListenerProxy_Handle ::
  "'j jsoncpp \<Rightarrow> bool option \<Rightarrow> string \<Rightarrow> string \<Rightarrow> u32 \<Rightarrow> string \<Rightarrow> remote_result \<times> 'j client_call list" where
  "ListenerProxy_Handle jc eventListener domain eventName eventType eventDetail =
     (ERR_OK, case eventListener of
        None \<Rightarrow> []
      | Some has_listener \<Rightarrow> BaseListener_OnEvent jc has_listener domain eventName eventType eventDetail)"

definition OnRemoteDied :: "bool option \<Rightarrow> 'j client_call list" where
  "OnRemoteDied eventListener =
     (case eventListener of None \<Rightarrow> [] | Some has_listener \<Rightarrow> BaseListener_OnServiceDied has_listener)"

section \<open>The texts arrive\<close>

text \<open>
  What is assumed of the IPC library: a parcel is a queue of items; an area has the size it
  was created with, mapping does not change it, a successful \<^verbatim>\<open>WriteToAshmem\<close> stays within
  it and writes the bytes, and \<^verbatim>\<open>ReadFromAshmem\<close> on a mapped area gives a pointer into it.
\<close>

datatype 'm packet = Sizes "u32 list" | Area 'm | Seqs "64 word list"

definition ipc_laws :: "('p, 'm, 'w) ipc \<Rightarrow> ('p \<Rightarrow> 'm packet list) \<Rightarrow> ('m \<Rightarrow> byte list) \<Rightarrow> bool" where
  "ipc_laws ic content area \<longleftrightarrow>
     (\<forall>v p. snd (ic_writeSizes ic v p) \<longrightarrow> content (fst (ic_writeSizes ic v p)) = content p @ [Sizes v]) \<and>
     (\<forall>m p. snd (ic_writeArea ic m p) \<longrightarrow> content (fst (ic_writeArea ic m p)) = content p @ [Area m]) \<and>
     takes content (ic_readSizes ic) Sizes \<and> takes content (ic_readArea ic) Area \<and> takes content (ic_readSeqs ic) Seqs \<and>
     (\<forall>p. content (fst (ic_readToken ic p)) = content p) \<and>
     (\<forall>n m. ic_create ic n = Some m \<longrightarrow> length (area m) = n) \<and>
     (\<forall>m. area (fst (ic_map ic m)) = area m) \<and>
     (\<forall>d len off m. snd (ic_store ic d len off m) \<and> unat len \<le> length d \<longrightarrow>
        unat off + unat len \<le> length (area m) \<and>
        area (fst (ic_store ic d len off m)) = splice_at (unat off) (take (unat len) d) (area m)) \<and>
     (\<forall>len off m. snd (ic_map ic m) \<and> unat off + unat len \<le> length (area m) \<longrightarrow>
        ic_load ic len off (fst (ic_map ic m)) = Some (drop (unat off) (area m)))"

lemma ipc_storeD:
  assumes "ipc_laws ic content area" "ic_store ic d len off m = (m', True)" "unat len = length d"
  shows "unat off + length d \<le> length (area m)" "area m' = splice_at (unat off) d (area m)"
proof -
  have "snd (ic_store ic d len off m) \<and> unat len \<le> length d"
    using assms(2,3) by simp
  then have "unat off + unat len \<le> length (area m) \<and>
      area (fst (ic_store ic d len off m)) = splice_at (unat off) (take (unat len) d) (area m)"
    using assms(1) unfolding ipc_laws_def by blast
  then show "unat off + length d \<le> length (area m)" "area m' = splice_at (unat off) d (area m)"
    using assms(2,3) by simp_all
qed

lemma ipc_loadD:
  "ipc_laws ic content area \<Longrightarrow> ic_map ic m = (mm, True) \<Longrightarrow> unat off + unat len \<le> length (area m) \<Longrightarrow>
   ic_load ic len off mm = Some (drop (unat off) (area m))"
  unfolding ipc_laws_def by (metis fst_conv snd_conv)

text \<open>The bytes of one text in the area.\<close>

definition entry :: "string \<Rightarrow> byte list" where
  "entry t = bytes_of_string (c_text t) @ [0]"

lemma length_entry [simp]: "length (entry t) = length (c_text t) + 1"
  by (simp add: entry_def)

lemma no_nul_c_text [simp]: "no_nul (c_text t)"
  by (auto simp: no_nul_def c_text_def dest: set_takeWhileD)

lemma length_c_text: "length (c_text t) \<le> length t"
  by (simp add: c_text_def length_takeWhile_le)

lemma c_string_entry: "c_string (entry t @ rest) = c_text t"
  using c_string_padded [of "c_text t" rest] by (simp add: entry_def)

lemma unat_u32: "n < 2 ^ 32 \<Longrightarrow> unat (of_nat n :: u32) = n"
  by (simp add: unat_of_nat)

lemma unat_advance:
  assumes "unat off + n < 2 ^ 32"
  shows "unat (off + of_nat n :: u32) = unat off + n"
proof -
  have "unat (of_nat n :: u32) = n"
    using assms by (simp add: unat_u32)
  then show ?thesis
    using assms by (subst unat_plus_if') auto
qed

lemma WriteBulkData_loop_stores:
  assumes "ipc_laws ic content area" "\<forall>t \<in> set ts. length (entry t) < 2 ^ 32"
    and "WriteBulkData_loop ic (zip ts (map (\<lambda>t. of_nat (length (entry t))) ts)) off m = (m', True)"
    and "length (area m) < 2 ^ 32" "unat off = length pre" "take (length pre) (area m) = pre" "length pre \<le> length (area m)"
  shows "\<exists>rest. area m' = pre @ concat (map entry ts) @ rest \<and> length (area m') = length (area m)"
  using assms(2-)
proof (induction ts arbitrary: off m pre)
  case Nil
  then show ?case
    by (auto intro!: exI [of _ "drop (length pre) (area m)"]) (metis append_take_drop_id)
next
  case (Cons t ts)
  let ?n = "length (entry t)"
  have n: "unat (of_nat ?n :: u32) = ?n"
    using Cons.prems(1) by (intro unat_u32) simp
  obtain m1 where m1: "ic_store ic (entry t) (of_nat ?n) off m = (m1, True)"
    "WriteBulkData_loop ic (zip ts (map (\<lambda>t. of_nat (length (entry t))) ts)) (off + of_nat ?n) m1 = (m', True)"
    using Cons.prems(2) by (auto simp: entry_def split: prod.splits bool.splits)
  have st: "length pre + ?n \<le> length (area m)" "area m1 = splice_at (length pre) (entry t) (area m)"
    using ipc_storeD [OF assms(1) m1(1) n] Cons.prems(4) by simp_all
  have "area m1 = (pre @ entry t) @ drop (length pre + ?n) (area m)"
    using Cons.prems(5) st(2) by (simp add: splice_at_def)
  moreover have "length (area m1) = length (area m)"
    using st by (simp add: length_splice_at)
  moreover have "unat (off + of_nat ?n) = length (pre @ entry t)"
    using unat_advance [of off ?n] Cons.prems(3,4) st(1) by simp
  ultimately show ?case
    using Cons.IH [OF _ m1(2), of "pre @ entry t"] Cons.prems(1,3) st(1) by auto
qed

lemma ReadBulkData_loop_loads:
  assumes "ipc_laws ic content area" "ic_map ic m = (mm, True)" "length (area m) < 2 ^ 32"
    and "area m = pre @ concat (map entry ts) @ rest" "unat off = length pre"
  shows "ReadBulkData_loop ic (map (\<lambda>t. of_nat (length (entry t))) ts) off mm dest =
    Some (dest @ map (\<lambda>t. ic_toStr16 ic (c_text t)) ts, True)"
  using assms(4,5)
proof (induction ts arbitrary: off pre dest)
  case (Cons t ts)
  let ?n = "length (entry t)"
  have len: "length pre + ?n \<le> length (area m)"
    using Cons.prems(1) by simp
  have n: "unat (of_nat ?n :: u32) = ?n"
    using assms(3) len by (intro unat_u32) simp
  have next_off: "unat (off + of_nat ?n) = length (pre @ entry t)"
    using assms(3) Cons.prems(2) len unat_advance [of off ?n] by simp
  have "ic_load ic (of_nat ?n) off mm = Some (drop (length pre) (area m))"
    using ipc_loadD [OF assms(1,2), of off "of_nat ?n"] len n Cons.prems(2) by simp
  also have "drop (length pre) (area m) = entry t @ concat (map entry ts) @ rest"
    using Cons.prems(1) by simp
  finally have load: "ic_load ic (of_nat ?n) off mm = Some (entry t @ concat (map entry ts) @ rest)" .
  have "0 \<in> set (entry t)"
    by (simp add: entry_def)
  then show ?case
    using load Cons.IH [of "pre @ entry t" "off + of_nat ?n"] Cons.prems(1) next_off by (simp add: c_string_entry)
qed simp

lemma WriteBulkData_contents:
  assumes "ipc_laws ic content area" "\<forall>s \<in> set src. length (ic_toStr8 ic s) + 1 < 2 ^ 32"
    and "WriteBulkData ic src p = (p', Some m, made)"
  shows "\<exists>rest. content p' = content p @ [Sizes (map (\<lambda>s. of_nat (length (entry (ic_toStr8 ic s)))) src), Area m] \<and>
    area m = concat (map (\<lambda>s. entry (ic_toStr8 ic s)) src) @ rest \<and> length (area m) = ASH_MEM_SIZE"
proof -
  let ?ts = "map (ic_toStr8 ic) src"
  let ?sizes = "map (\<lambda>t. of_nat (length (entry t))) ?ts :: u32 list"
  have parse: "ParseAllStringItemSize ic src = (?ts, ?sizes)"
    by (simp add: ParseAllStringItemSize_def)
  obtain p1 a where p1: "ic_writeSizes ic ?sizes p = (p1, True)" "GetAshmem ic = Some a"
    "WriteBulkData_loop ic (zip ?ts ?sizes) 0 a = (m, True)" "ic_writeArea ic m p1 = (p', True)"
    using assms(3) by (auto simp: WriteBulkData_def parse split: prod.splits bool.splits option.splits)
  have "content p1 = content p @ [Sizes ?sizes]" "content p' = content p1 @ [Area m]"
    using assms(1) p1(1,4) unfolding ipc_laws_def by (metis fst_conv snd_conv)+
  moreover have "length (area a) = ASH_MEM_SIZE"
    using assms(1) p1(2) unfolding ipc_laws_def GetAshmem_def
    by (auto split: option.splits prod.splits) (metis fst_conv)
  moreover have "\<forall>t \<in> set ?ts. length (entry t) < 2 ^ 32"
    using assms(2) length_c_text by (fastforce intro: le_less_trans)
  ultimately show ?thesis
    using WriteBulkData_loop_stores [OF assms(1) _ p1(3), of "[]"] by (auto simp: ASH_MEM_SIZE_def comp_def)
qed

text \<open>
  C25. A page of results arrives whole: when the sender wrote the texts and their sequence
  numbers, the stub takes out exactly these texts, in order, reports success and calls the
  callback object once, with one record per text, each parsed from the text up to its first
  NUL. Without a callback object nothing is called.
\<close>

theorem query_page_delivered:
  assumes "ipc_laws ic content area" "\<forall>s \<in> set src. length (ic_toStr8 ic s) + 1 < 2 ^ 32"
    and "\<forall>s \<in> set src. ic_toStr8 ic (ic_toStr16 ic (c_text (ic_toStr8 ic s))) = c_text (ic_toStr8 ic s)"
    and "WriteBulkData ic src p = (p', Some m, made)" "content p' = content p @ msg"
    and "content q = msg @ Seqs seqs # rest" "snd (ic_readToken ic q) = ic_descriptor ic" "snd (ic_map ic m)"
  shows "OnRemoteRequest ic jc cb ON_QUERY q = Some (ERR_OK,
    if cb = Some True then [Client_OnQuery (map (\<lambda>s. Record_ParseJsonStr jc (c_text (ic_toStr8 ic s))) src)] else [])"
proof -
  let ?ts = "map (ic_toStr8 ic) src"
  let ?sizes = "map (\<lambda>t. of_nat (length (entry t))) ?ts :: u32 list"
  from WriteBulkData_contents [OF assms(1,2,4)] assms(5) obtain r where
    w: "msg = [Sizes ?sizes, Area m]" "area m = [] @ concat (map entry ?ts) @ r" "length (area m) < 2 ^ 32"
    by (auto simp: comp_def ASH_MEM_SIZE_def)
  obtain d0 where d0: "ic_readToken ic q = (d0, ic_descriptor ic)" "content d0 = [Sizes ?sizes, Area m] @ Seqs seqs # rest"
    using assms(1,6,7) w(1) unfolding ipc_laws_def by (metis prod.collapse)
  have laws: "takes content (ic_readSizes ic) Sizes" "takes content (ic_readArea ic) Area" "takes content (ic_readSeqs ic) Seqs"
    using assms(1) by (simp_all add: ipc_laws_def)
  obtain p1 p2 p3 where r: "ic_readSizes ic d0 = (p1, Some ?sizes)" "ic_readArea ic p1 = (p2, Some m)"
    "ic_readSeqs ic p2 = (p3, Some seqs)"
    using d0(2) laws [THEN takesD] by (metis append_Cons append_Nil)
  obtain mm where mm: "ic_map ic m = (mm, True)"
    using assms(8) by (metis prod.collapse)
  have load: "ReadBulkData_loop ic ?sizes 0 mm [] = Some (map (\<lambda>t. ic_toStr16 ic (c_text t)) ?ts, True)"
    using ReadBulkData_loop_loads [OF assms(1) mm w(3,2), of 0 "[]"] by simp
  have "ReadBulkData ic [] d0 = Some (p2, map (\<lambda>t. ic_toStr16 ic (c_text t)) ?ts, True, Some (CloseAshmem ic mm))"
    using r(1,2) mm load by (simp add: ReadBulkData_def)
  then show ?thesis
    using assms(3) r(3) d0(1) by (cases cb) (simp_all add: OnRemoteRequest_def QueryProxy_OnQuery_def Base_OnQuery_def comp_def)
qed

text \<open>An IPC library whose parcels are lists and whose areas are their bytes.\<close>

definition list_ipc :: "(byte list packet list, byte list, string) ipc" where
  "list_ipc =
     \<lparr>ic_toStr8 = (\<lambda>s. s), ic_toStr16 = (\<lambda>s. s),
      ic_writeSizes = (\<lambda>v p. (p @ [Sizes v], True)),
      ic_readSizes = (\<lambda>p. case p of Sizes v # r \<Rightarrow> (r, Some v) | _ \<Rightarrow> (p, None)),
      ic_writeArea = (\<lambda>m p. (p @ [Area m], True)),
      ic_readArea = (\<lambda>p. case p of Area m # r \<Rightarrow> (r, Some m) | _ \<Rightarrow> (p, None)),
      ic_readSeqs = (\<lambda>p. case p of Seqs v # r \<Rightarrow> (r, Some v) | _ \<Rightarrow> (p, None)),
      ic_readInt32 = (\<lambda>p. (p, None)), ic_readInt64 = (\<lambda>p. (p, None)),
      ic_readToken = (\<lambda>p. (p, [])), ic_descriptor = [],
      ic_create = (\<lambda>n. Some (replicate n 0)), ic_map = (\<lambda>m. (m, True)),
      ic_store = (\<lambda>d len off m.
         if unat len \<le> length d \<and> unat off + unat len \<le> length m
         then (splice_at (unat off) (take (unat len) d) m, True) else (m, False)),
      ic_load = (\<lambda>len off m. if unat off + unat len \<le> length m then Some (drop (unat off) m) else None),
      ic_close = (\<lambda>m. m), ic_defaultReply = (\<lambda>code. -1)\<rparr>"

lemma list_ipc_laws: "ipc_laws list_ipc (\<lambda>p. p) (\<lambda>m. m)"
  by (simp add: ipc_laws_def list_ipc_def takes_def)

theorem query_page_delivered_witness:
  "\<exists>q. OnRemoteRequest list_ipc (plain_json (Some sample_doc)) (Some True) ON_QUERY q =
    Some (ERR_OK, [Client_OnQuery [Record_ParseJsonStr (plain_json (Some sample_doc)) ''{}'']])"
proof -
  have "4 \<le> ASH_MEM_SIZE"
    by (simp add: ASH_MEM_SIZE_def)
  then obtain p m made where w: "WriteBulkData list_ipc [''{}''] [] = (p, Some m, made)"
    by (simp add: WriteBulkData_def ParseAllStringItemSize_def GetAshmem_def list_ipc_def c_text_def bytes_of_string_def)
  have "OnRemoteRequest list_ipc (plain_json (Some sample_doc)) (Some True) ON_QUERY (p @ [Seqs [7]]) =
    Some (ERR_OK, if Some True = Some True
      then [Client_OnQuery (map (\<lambda>s. Record_ParseJsonStr (plain_json (Some sample_doc)) (c_text (ic_toStr8 list_ipc s))) [''{}''])]
      else [])"
    by (rule query_page_delivered [OF list_ipc_laws _ _ w]) (simp_all add: list_ipc_def)
  then show ?thesis
    by (auto simp: list_ipc_def c_text_def)
qed

end
