(* ===== verification/Parcelables.thy ===== *)
theory Parcelables
  imports Prelude
begin

text \<open>
  The objects that cross the process boundary (adapter/native/idl): the query argument, the
  two kinds of rules, and vectors of them, each with its writing to and reading from a
  parcel. The parcel belongs to the IPC library and is a parameter; what is assumed of it is
  that it is a queue of typed items. The theory shows that whatever was written is read back.
\<close>

section \<open>The parcel\<close>

datatype item = Int32Item "32 word" | Int64Item "64 word" | Uint32Item u32 | StringItem string | StringsItem "string list"

text \<open>
  \<open>pc_write (Int64Item v)\<close> is \<^verbatim>\<open>WriteInt64(v)\<close>, and so on for the other kinds of items; a
  reading function returns \<open>None\<close> where the library returns false.
\<close>

record 'p parcel =
  pc_write :: "item \<Rightarrow> 'p \<Rightarrow> 'p \<times> bool"
  pc_readInt32 :: "'p \<Rightarrow> 'p \<times> 32 word option"
  pc_readInt64 :: "'p \<Rightarrow> 'p \<times> 64 word option"
  pc_readUint32 :: "'p \<Rightarrow> 'p \<times> u32 option"
  pc_readString :: "'p \<Rightarrow> 'p \<times> string option"
  pc_readStringVector :: "'p \<Rightarrow> 'p \<times> string list option"

text \<open>
  \<open>content p\<close> are the unread items. A write that reports success adds its item at the end,
  and reading the kind of the first item takes it.
\<close>

definition parcel_laws :: "'p parcel \<Rightarrow> ('p \<Rightarrow> item list) \<Rightarrow> bool" where
  "parcel_laws pc content \<longleftrightarrow>
     (\<forall>i p. snd (pc_write pc i p) \<longrightarrow> content (fst (pc_write pc i p)) = content p @ [i]) \<and>
     takes content (pc_readInt32 pc) Int32Item \<and> takes content (pc_readInt64 pc) Int64Item \<and>
     takes content (pc_readUint32 pc) Uint32Item \<and> takes content (pc_readString pc) StringItem \<and>
     takes content (pc_readStringVector pc) StringsItem"

text \<open>
  A sequence of \<^verbatim>\<open>if (!parcel.Write...) return false;\<close> is \<open>and_then\<close>; a sequence of
  \<^verbatim>\<open>if (!parcel.Read...(field)) goto error;\<close> is \<open>read_then\<close>, where the label deletes the
  object and returns null.
\<close>

definition read_then :: "('p \<Rightarrow> 'p \<times> 'v option) \<Rightarrow> ('v \<Rightarrow> 'p \<Rightarrow> 'p \<times> 'a option) \<Rightarrow> 'p \<Rightarrow> 'p \<times> 'a option" where
  "read_then read continue p = (case read p of (p', None) \<Rightarrow> (p', None) | (p', Some v) \<Rightarrow> continue v p')"

section \<open>The query argument\<close>

record query_argument =
  qa_beginTime :: "64 word"
  qa_endTime :: "64 word"
  qa_maxEvents :: "32 word"
  qa_fromSeq :: "64 word"
  qa_toSeq :: "64 word"

definition QueryArgument_Marshalling :: "'p parcel \<Rightarrow> query_argument \<Rightarrow> 'p \<Rightarrow> 'p \<times> bool" where
  "QueryArgument_Marshalling pc q =
     and_then (pc_write pc (Int64Item (qa_beginTime q)))
    (and_then (pc_write pc (Int64Item (qa_endTime q)))
    (and_then (pc_write pc (Int32Item (qa_maxEvents q)))
    (and_then (pc_write pc (Int64Item (qa_fromSeq q)))
    (and_then (pc_write pc (Int64Item (qa_toSeq q))) (\<lambda>p. (p, True))))))"

text \<open>\<open>new_ok\<close>: whether \<^verbatim>\<open>new(std::nothrow)\<close> returns an object.\<close>

definition QueryArgument_Unmarshalling :: "'p parcel \<Rightarrow> bool \<Rightarrow> 'p \<Rightarrow> 'p \<times> query_argument option" where
  "QueryArgument_Unmarshalling pc new_ok =
     (if \<not> new_ok then (\<lambda>p. (p, None))
      else read_then (pc_readInt64 pc) (\<lambda>beginTime. read_then (pc_readInt64 pc) (\<lambda>endTime.
        read_then (pc_readInt32 pc) (\<lambda>maxEvents. read_then (pc_readInt64 pc) (\<lambda>fromSeq.
        read_then (pc_readInt64 pc) (\<lambda>toSeq p.
          (p, Some \<lparr>qa_beginTime = beginTime, qa_endTime = endTime, qa_maxEvents = maxEvents,
               qa_fromSeq = fromSeq, qa_toSeq = toSeq\<rparr>)))))))"

section \<open>The listener rule\<close>

definition WHOLE_WORD :: u32 where "WHOLE_WORD = 1"

record sys_event_rule =
  sr_domain :: string
  sr_eventName :: string
  sr_tag :: string
  sr_ruleType :: u32
  sr_eventType :: u32

text \<open>The two delegating constructors.\<close>

definition SysEventRule_event :: "string \<Rightarrow> string \<Rightarrow> u32 \<Rightarrow> u32 \<Rightarrow> sys_event_rule" where
  "SysEventRule_event domain eventName ruleType eventType =
     \<lparr>sr_domain = domain, sr_eventName = eventName, sr_tag = '''', sr_ruleType = ruleType, sr_eventType = eventType\<rparr>"

definition SysEventRule_tag :: "string \<Rightarrow> u32 \<Rightarrow> u32 \<Rightarrow> sys_event_rule" where
  "SysEventRule_tag tag ruleType eventType =
     \<lparr>sr_domain = '''', sr_eventName = '''', sr_tag = tag, sr_ruleType = ruleType, sr_eventType = eventType\<rparr>"

definition SysEventRule_Marshalling :: "'p parcel \<Rightarrow> sys_event_rule \<Rightarrow> 'p \<Rightarrow> 'p \<times> bool" where
  "SysEventRule_Marshalling pc r =
     and_then (pc_write pc (StringItem (sr_domain r)))
    (and_then (pc_write pc (StringItem (sr_eventName r)))
    (and_then (pc_write pc (StringItem (sr_tag r)))
    (and_then (pc_write pc (Uint32Item (sr_ruleType r)))
    (and_then (pc_write pc (Uint32Item (sr_eventType r))) (\<lambda>p. (p, True))))))"

definition SysEventRule_Unmarshalling :: "'p parcel \<Rightarrow> bool \<Rightarrow> 'p \<Rightarrow> 'p \<times> sys_event_rule option" where
  "SysEventRule_Unmarshalling pc new_ok =
     (if \<not> new_ok then (\<lambda>p. (p, None))
      else read_then (pc_readString pc) (\<lambda>domain. read_then (pc_readString pc) (\<lambda>eventName.
        read_then (pc_readString pc) (\<lambda>tag. read_then (pc_readUint32 pc) (\<lambda>ruleType.
        read_then (pc_readUint32 pc) (\<lambda>eventType p.
          (p, Some \<lparr>sr_domain = domain, sr_eventName = eventName, sr_tag = tag, sr_ruleType = ruleType,
               sr_eventType = eventType\<rparr>)))))))"

section \<open>The query rule\<close>

record sys_event_query_rule =
  qr_domain :: string
  qr_eventList :: "string list"
  qr_ruleType :: u32
  qr_eventType :: u32
  qr_condition :: string

definition SysEventQueryRule_Marshalling :: "'p parcel \<Rightarrow> sys_event_query_rule \<Rightarrow> 'p \<Rightarrow> 'p \<times> bool" where
  "SysEventQueryRule_Marshalling pc r =
     and_then (pc_write pc (Uint32Item (qr_eventType r)))
    (and_then (pc_write pc (Uint32Item (qr_ruleType r)))
    (and_then (pc_write pc (StringItem (qr_domain r)))
    (and_then (pc_write pc (StringItem (qr_condition r)))
    (and_then (pc_write pc (StringsItem (qr_eventList r))) (\<lambda>p. (p, True))))))"

definition SysEventQueryRule_Unmarshalling :: "'p parcel \<Rightarrow> 'p \<Rightarrow> 'p \<times> sys_event_query_rule option" where
  "SysEventQueryRule_Unmarshalling pc =
     read_then (pc_readUint32 pc) (\<lambda>eventType. read_then (pc_readUint32 pc) (\<lambda>ruleType.
     read_then (pc_readString pc) (\<lambda>domain. read_then (pc_readString pc) (\<lambda>condition.
     read_then (pc_readStringVector pc) (\<lambda>eventList p.
       (p, Some \<lparr>qr_domain = domain, qr_eventList = eventList, qr_ruleType = ruleType, qr_eventType = eventType,
            qr_condition = condition\<rparr>))))))"

section \<open>Vectors of objects\<close>

text \<open>
  \<open>write_obj\<close> and \<open>read_obj\<close> are \<^verbatim>\<open>WriteParcelable\<close> and \<^verbatim>\<open>ReadParcelable\<close> of the parcel. The
  size is written as a 32-bit integer, and a negative size reads no object; on an error the
  objects read so far stay in the vector.
\<close>

definition VALUE_NULL :: "32 word" where "VALUE_NULL = -1"
definition VALUE_OBJECT :: "32 word" where "VALUE_OBJECT = 1"
definition RULE_COUNT_LIMIT :: int where "RULE_COUNT_LIMIT = 512 * 1024"

primrec ReadVector_loop :: "('p \<Rightarrow> 'p \<times> 'a option) \<Rightarrow> nat \<Rightarrow> 'a list \<Rightarrow> 'p \<Rightarrow> 'p \<times> 'a list \<times> bool" where
  "ReadVector_loop read_obj 0 rules p = (p, rules, True)"
| "ReadVector_loop read_obj (Suc n) rules p =
     (case read_obj p of
        (p', None) \<Rightarrow> (p', rules, False)
      | (p', Some x) \<Rightarrow> ReadVector_loop read_obj n (rules @ [x]) p')"

definition ReadVectorFromParcel ::
  "'p parcel \<Rightarrow> ('p \<Rightarrow> 'p \<times> 'a option) \<Rightarrow> 'a list \<Rightarrow> 'p \<Rightarrow> 'p \<times> 'a list \<times> bool" where
  "ReadVectorFromParcel pc read_obj rules p =
     (case pc_readInt32 pc p of
        (p1, None) \<Rightarrow> (p1, rules, False)
      | (p1, Some flag) \<Rightarrow>
          if flag = VALUE_OBJECT then
            (case pc_readInt32 pc p1 of
               (p2, None) \<Rightarrow> (p2, rules, False)
             | (p2, Some sz) \<Rightarrow>
                 if sint sz > RULE_COUNT_LIMIT then (p2, rules, False)
                 else ReadVector_loop read_obj (nat (sint sz)) [] p2)
          else (p1, rules, True))"

definition WriteVectorToParcel :: "'p parcel \<Rightarrow> ('a \<Rightarrow> 'p \<Rightarrow> 'p \<times> bool) \<Rightarrow> 'a list \<Rightarrow> 'p \<Rightarrow> 'p \<times> bool" where
  "WriteVectorToParcel pc write_obj rules =
     (if length rules = 0 then pc_write pc (Int32Item VALUE_NULL)
      else and_then (pc_write pc (Int32Item VALUE_OBJECT))
        (and_then (pc_write pc (Int32Item (of_nat (length rules)))) (and_all write_obj rules)))"

section \<open>What was written is read back\<close>

lemma put_item: "parcel_laws pc content \<Longrightarrow> pc_write pc i p = (p', True) \<Longrightarrow> content p' = content p @ [i]"
  by (simp add: parcel_laws_def) (metis fst_conv snd_conv)

lemma write_then:
  assumes "parcel_laws pc content" "and_then (pc_write pc i) w p = (p', True)"
  obtains p1 where "content p1 = content p @ [i]" "w p1 = (p', True)"
  using assms by (auto simp: and_then_def dest: put_item split: prod.splits if_splits)

lemma read_step:
  assumes "takes content read mk" "content p = mk v # rest"
    and "\<And>p1. content p1 = rest \<Longrightarrow> \<exists>p'. f v p1 = (p', res) \<and> content p' = rest'"
  shows "\<exists>p'. read_then read f p = (p', res) \<and> content p' = rest'"
  using takesD [OF assms(1,2)] assms(3) by (auto simp: read_then_def)

lemma parcel_takes:
  assumes "parcel_laws pc content"
  shows "takes content (pc_readInt32 pc) Int32Item" "takes content (pc_readInt64 pc) Int64Item"
    "takes content (pc_readUint32 pc) Uint32Item" "takes content (pc_readString pc) StringItem"
    "takes content (pc_readStringVector pc) StringsItem"
  using assms by (simp_all add: parcel_laws_def)

text \<open>
  The contract of a class of objects in a parcel: writing an object adds its items at the
  end, and reading from these items gives the object and leaves the rest. It is required in
  a \<open>lawful\<close> environment only.
\<close>

locale parcelable =
  fixes lawful :: bool
    and content :: "'p \<Rightarrow> item list"
    and write_obj :: "'a \<Rightarrow> 'p \<Rightarrow> 'p \<times> bool"
    and read_obj :: "'p \<Rightarrow> 'p \<times> 'a option"
    and wire :: "'a \<Rightarrow> item list"
  assumes write_wire: "lawful \<Longrightarrow> write_obj x p = (p', True) \<Longrightarrow> content p' = content p @ wire x"
    and read_wire: "lawful \<Longrightarrow> content p = wire x @ rest \<Longrightarrow> \<exists>p'. read_obj p = (p', Some x) \<and> content p' = rest"
begin

lemma write_all:
  "lawful \<Longrightarrow> and_all write_obj xs p = (p', True) \<Longrightarrow> content p' = content p @ concat (map wire xs)"
  by (induction xs arbitrary: p) (auto simp: and_then_def dest: write_wire split: prod.splits if_splits)

lemma read_all:
  assumes "lawful" "content p = concat (map wire xs) @ rest"
  shows "\<exists>p'. ReadVector_loop read_obj (length xs) acc p = (p', acc @ xs, True) \<and> content p' = rest"
  using assms(2)
proof (induction xs arbitrary: p acc)
  case (Cons x xs)
  then obtain p1 where "read_obj p = (p1, Some x)" "content p1 = concat (map wire xs) @ rest"
    using read_wire [OF assms(1), of p x "concat (map wire xs) @ rest"] by auto
  with Cons.IH [of p1 "acc @ [x]"] show ?case
    by simp
qed simp

lemma vector_written:
  assumes "lawful" "parcel_laws pc content" "WriteVectorToParcel pc write_obj xs p = (p', True)"
  shows "content p' = content p @
    (if xs = [] then [Int32Item VALUE_NULL]
     else Int32Item VALUE_OBJECT # Int32Item (of_nat (length xs)) # concat (map wire xs))"
  using assms(3) by (auto simp: WriteVectorToParcel_def and_then_def dest!: put_item [OF assms(2)] write_all [OF assms(1)]
      split: prod.splits if_splits)

lemma vector_read:
  assumes "lawful" "parcel_laws pc content" "int (length xs) \<le> RULE_COUNT_LIMIT"
    and "content p = (if xs = [] then [Int32Item VALUE_NULL]
     else Int32Item VALUE_OBJECT # Int32Item (of_nat (length xs)) # concat (map wire xs)) @ rest"
  shows "\<exists>p'. ReadVectorFromParcel pc read_obj [] p = (p', xs, True) \<and> content p' = rest"
proof -
  note get = takesD [OF parcel_takes(1) [OF assms(2)]]
  show ?thesis
  proof (cases "xs = []")
    case True
    then show ?thesis
      using assms(4) get [of p VALUE_NULL rest]
      by (auto simp: ReadVectorFromParcel_def VALUE_NULL_def VALUE_OBJECT_def)
  next
    case False
    have len: "sint (of_nat (length xs) :: 32 word) = int (length xs)"
      using assms(3) by (simp add: RULE_COUNT_LIMIT_def signed_of_nat signed_take_bit_int_eq_self)
    obtain p1 where p1: "pc_readInt32 pc p = (p1, Some VALUE_OBJECT)"
      "content p1 = Int32Item (of_nat (length xs)) # concat (map wire xs) @ rest"
      using get [of p VALUE_OBJECT "Int32Item (of_nat (length xs)) # concat (map wire xs) @ rest"] assms(4) False by auto
    obtain p2 where p2: "pc_readInt32 pc p1 = (p2, Some (of_nat (length xs)))" "content p2 = concat (map wire xs) @ rest"
      using get [OF p1(2)] by blast
    show ?thesis
      using read_all [OF assms(1) p2(2), of "[]"] p1(1) p2(1) assms(3) len by (simp add: ReadVectorFromParcel_def)
  qed
qed

end

definition wire_argument :: "query_argument \<Rightarrow> item list" where
  "wire_argument q = [Int64Item (qa_beginTime q), Int64Item (qa_endTime q), Int32Item (qa_maxEvents q),
     Int64Item (qa_fromSeq q), Int64Item (qa_toSeq q)]"

definition wire_rule :: "sys_event_rule \<Rightarrow> item list" where
  "wire_rule r = [StringItem (sr_domain r), StringItem (sr_eventName r), StringItem (sr_tag r),
     Uint32Item (sr_ruleType r), Uint32Item (sr_eventType r)]"

definition wire_query_rule :: "sys_event_query_rule \<Rightarrow> item list" where
  "wire_query_rule r = [Uint32Item (qr_eventType r), Uint32Item (qr_ruleType r), StringItem (qr_domain r),
     StringItem (qr_condition r), StringsItem (qr_eventList r)]"

interpretation argument: parcelable "parcel_laws pc content" content "QueryArgument_Marshalling pc" "QueryArgument_Unmarshalling pc True" wire_argument
  for pc content
proof
  fix x and p p' :: 'a and rest
  assume laws: "parcel_laws pc content"
  show "QueryArgument_Marshalling pc x p = (p', True) \<Longrightarrow> content p' = content p @ wire_argument x"
    unfolding QueryArgument_Marshalling_def by (elim write_then [OF laws]) (simp add: wire_argument_def)
  note steps = parcel_takes [OF laws, THEN read_step]
  show "content p = wire_argument x @ rest \<Longrightarrow> \<exists>p'. QueryArgument_Unmarshalling pc True p = (p', Some x) \<and> content p' = rest"
    unfolding wire_argument_def QueryArgument_Unmarshalling_def append_Cons append_Nil not_True_eq_False if_False
    by (erule steps)+ simp
qed

interpretation rule: parcelable "parcel_laws pc content" content "SysEventRule_Marshalling pc" "SysEventRule_Unmarshalling pc True" wire_rule
  for pc content
proof
  fix x and p p' :: 'a and rest
  assume laws: "parcel_laws pc content"
  show "SysEventRule_Marshalling pc x p = (p', True) \<Longrightarrow> content p' = content p @ wire_rule x"
    unfolding SysEventRule_Marshalling_def by (elim write_then [OF laws]) (simp add: wire_rule_def)
  note steps = parcel_takes [OF laws, THEN read_step]
  show "content p = wire_rule x @ rest \<Longrightarrow> \<exists>p'. SysEventRule_Unmarshalling pc True p = (p', Some x) \<and> content p' = rest"
    unfolding wire_rule_def SysEventRule_Unmarshalling_def append_Cons append_Nil not_True_eq_False if_False
    by (erule steps)+ simp
qed

interpretation query_rule: parcelable "parcel_laws pc content" content "SysEventQueryRule_Marshalling pc" "SysEventQueryRule_Unmarshalling pc" wire_query_rule
  for pc content
proof
  fix x and p p' :: 'a and rest
  assume laws: "parcel_laws pc content"
  show "SysEventQueryRule_Marshalling pc x p = (p', True) \<Longrightarrow> content p' = content p @ wire_query_rule x"
    unfolding SysEventQueryRule_Marshalling_def by (elim write_then [OF laws]) (simp add: wire_query_rule_def)
  note steps = parcel_takes [OF laws, THEN read_step]
  show "content p = wire_query_rule x @ rest \<Longrightarrow> \<exists>p'. SysEventQueryRule_Unmarshalling pc p = (p', Some x) \<and> content p' = rest"
    unfolding wire_query_rule_def SysEventQueryRule_Unmarshalling_def append_Cons append_Nil not_True_eq_False if_False
    by (erule steps)+ simp
qed

text \<open>
  C26. What is sent is received: when the query argument and the query rules, or the listener
  rules, are written to a parcel without error, reading from what was written gives back the
  same argument and the same rules in order, up to the limit on the number of rules, and
  takes nothing of what follows.
\<close>

theorem parcel_roundtrip:
  assumes "parcel_laws pc content" "int (length rules) \<le> RULE_COUNT_LIMIT" "int (length rules') \<le> RULE_COUNT_LIMIT"
    and "and_then (QueryArgument_Marshalling pc arg) (WriteVectorToParcel pc (SysEventQueryRule_Marshalling pc) rules) p = (p1, True)"
    and "WriteVectorToParcel pc (SysEventRule_Marshalling pc) rules' p' = (p1', True)"
    and "content p1 = content p @ msg" "content p1' = content p' @ msg'"
    and "content q = msg @ rest" "content q' = msg' @ rest"
  shows "(\<exists>r1 r2. QueryArgument_Unmarshalling pc True q = (r1, Some arg) \<and>
      ReadVectorFromParcel pc (SysEventQueryRule_Unmarshalling pc) [] r1 = (r2, rules, True) \<and> content r2 = rest) \<and>
    (\<exists>r. ReadVectorFromParcel pc (SysEventRule_Unmarshalling pc True) [] q' = (r, rules', True) \<and> content r = rest)"
proof
  obtain p0 where p0: "content p0 = content p @ wire_argument arg"
    "WriteVectorToParcel pc (SysEventQueryRule_Marshalling pc) rules p0 = (p1, True)"
    using assms(4) by (auto simp: and_then_def dest: argument.write_wire [OF assms(1)] split: prod.splits if_splits)
  let ?v = "if rules = [] then [Int32Item VALUE_NULL]
     else Int32Item VALUE_OBJECT # Int32Item (of_nat (length rules)) # concat (map wire_query_rule rules)"
  have "msg = wire_argument arg @ ?v"
    using query_rule.vector_written [OF assms(1,1) p0(2)] p0(1) assms(6) by simp
  then obtain r1 where "QueryArgument_Unmarshalling pc True q = (r1, Some arg)" "content r1 = ?v @ rest"
    using argument.read_wire [OF assms(1), of q arg "?v @ rest"] assms(8) by auto
  with query_rule.vector_read [OF assms(1,1,2)]
  show "\<exists>r1 r2. QueryArgument_Unmarshalling pc True q = (r1, Some arg) \<and>
      ReadVectorFromParcel pc (SysEventQueryRule_Unmarshalling pc) [] r1 = (r2, rules, True) \<and> content r2 = rest"
    by blast
  have "msg' = (if rules' = [] then [Int32Item VALUE_NULL]
     else Int32Item VALUE_OBJECT # Int32Item (of_nat (length rules')) # concat (map wire_rule rules'))"
    using rule.vector_written [OF assms(1,1,5)] assms(7) by simp
  with rule.vector_read [OF assms(1,1,3), of q' rest]
  show "\<exists>r. ReadVectorFromParcel pc (SysEventRule_Unmarshalling pc True) [] q' = (r, rules', True) \<and> content r = rest"
    using assms(9) by simp
qed

text \<open>A parcel that is its list of items.\<close>

definition list_parcel :: "item list parcel" where
  "list_parcel =
     \<lparr>pc_write = (\<lambda>i p. (p @ [i], True)),
      pc_readInt32 = (\<lambda>p. case p of Int32Item v # r \<Rightarrow> (r, Some v) | _ \<Rightarrow> (p, None)),
      pc_readInt64 = (\<lambda>p. case p of Int64Item v # r \<Rightarrow> (r, Some v) | _ \<Rightarrow> (p, None)),
      pc_readUint32 = (\<lambda>p. case p of Uint32Item v # r \<Rightarrow> (r, Some v) | _ \<Rightarrow> (p, None)),
      pc_readString = (\<lambda>p. case p of StringItem v # r \<Rightarrow> (r, Some v) | _ \<Rightarrow> (p, None)),
      pc_readStringVector = (\<lambda>p. case p of StringsItem v # r \<Rightarrow> (r, Some v) | _ \<Rightarrow> (p, None))\<rparr>"

lemma list_parcel_laws: "parcel_laws list_parcel (\<lambda>p. p)"
  by (simp add: parcel_laws_def list_parcel_def takes_def)

theorem parcel_roundtrip_witness:
  "ReadVectorFromParcel list_parcel (SysEventRule_Unmarshalling list_parcel True) []
     (fst (WriteVectorToParcel list_parcel (SysEventRule_Marshalling list_parcel) [SysEventRule_tag ''T'' WHOLE_WORD 0] [])) =
   ([], [SysEventRule_tag ''T'' WHOLE_WORD 0], True)"
proof -
  let ?w = "WriteVectorToParcel list_parcel (SysEventRule_Marshalling list_parcel) [SysEventRule_tag ''T'' WHOLE_WORD 0] []"
  let ?q = "and_then (QueryArgument_Marshalling list_parcel \<lparr>qa_beginTime = 0, qa_endTime = 1, qa_maxEvents = 2, qa_fromSeq = 3, qa_toSeq = 4\<rparr>)
    (WriteVectorToParcel list_parcel (SysEventQueryRule_Marshalling list_parcel) []) []"
  have "snd ?w" "snd ?q"
    by (simp_all add: WriteVectorToParcel_def and_then_def list_parcel_def SysEventRule_Marshalling_def
        QueryArgument_Marshalling_def)
  then have "?w = (fst ?w, True)" "?q = (fst ?q, True)"
    by (metis prod.collapse)+
  from parcel_roundtrip [OF list_parcel_laws _ _ this(2,1), of "fst ?q" "fst ?w" "fst ?q" "[]" "fst ?w"]
  show ?thesis
    by (simp add: RULE_COUNT_LIMIT_def)
qed

end
