(* ===== verification/FileUtil.thy ===== *)
theory FileUtil
  imports Prelude "HOL-Library.Sublist"
begin

text \<open>
  Paths and directories (adapter/native/idl/src/file_util.cpp). The file system is a state
  \<open>'f\<close> with the operations of the C library as parameters. The theory shows what a created
  directory chain consists of and which paths pass the check for legal ones.
\<close>

section \<open>The functions\<close>

text \<open>
  \<open>fs_access\<close> is \<^verbatim>\<open>access(path, F_OK) == 0\<close>, \<open>fs_mkdir\<close> is \<^verbatim>\<open>mkdir(path, S_IRWXU) == 0\<close>; the
  kind of a path is what \<^verbatim>\<open>lstat\<close> says, \<open>None\<close> when it fails.
\<close>

datatype file_kind = Regular | Directory | OtherFile

record 'f file_system =
  fs_access :: "string \<Rightarrow> 'f \<Rightarrow> bool"
  fs_lstat :: "string \<Rightarrow> 'f \<Rightarrow> file_kind option"
  fs_mkdir :: "string \<Rightarrow> 'f \<Rightarrow> 'f \<times> bool"
  fs_remove :: "string \<Rightarrow> 'f \<Rightarrow> 'f \<times> bool"
  fs_rmdir :: "string \<Rightarrow> 'f \<Rightarrow> 'f \<times> bool"

definition IsFileExists :: "'f file_system \<Rightarrow> string \<Rightarrow> 'f \<Rightarrow> bool" where
  "IsFileExists fs file st = fs_access fs file st"

definition IsFile :: "'f file_system \<Rightarrow> string \<Rightarrow> 'f \<Rightarrow> bool" where
  "IsFile fs file st = (case fs_lstat fs file st of Some k \<Rightarrow> k = Regular | None \<Rightarrow> False)"

definition IsDirectory :: "'f file_system \<Rightarrow> string \<Rightarrow> 'f \<Rightarrow> bool" where
  "IsDirectory fs dir st = (case fs_lstat fs dir st of Some k \<Rightarrow> k = Directory | None \<Rightarrow> False)"

definition RemoveFile :: "'f file_system \<Rightarrow> string \<Rightarrow> 'f \<Rightarrow> 'f \<times> bool" where
  "RemoveFile fs file st = (if \<not> IsFileExists fs file st then (st, True) else fs_remove fs file st)"

definition RemoveDirectory :: "'f file_system \<Rightarrow> string \<Rightarrow> 'f \<Rightarrow> 'f \<times> bool" where
  "RemoveDirectory fs dir st = (if \<not> IsFileExists fs dir st then (st, True) else fs_rmdir fs dir st)"

definition PATH_DELIMITER :: char where "PATH_DELIMITER = CHR ''/''"

text \<open>\<^verbatim>\<open>std::string::find\<close> of a character, with \<^verbatim>\<open>npos\<close> as \<open>None\<close>.\<close>

definition find_char :: "char \<Rightarrow> string \<Rightarrow> nat \<Rightarrow> nat option" where
  "find_char c s pos =
     (if c \<in> set (drop pos s) then Some (pos + length (takeWhile (\<lambda>x. x \<noteq> c) (drop pos s))) else None)"

lemma length_takeWhile_mem: "c \<in> set xs \<Longrightarrow> length (takeWhile (\<lambda>x. x \<noteq> c) xs) < length xs"
  by (induction xs) auto

lemma find_char_bound: "find_char c s pos = Some i \<Longrightarrow> pos \<le> i \<and> i < length s"
  using length_takeWhile_mem [of c "drop pos s"] by (auto simp: find_char_def split: if_splits)

text \<open>One round of the \<^verbatim>\<open>do\<close> loop for each delimiter behind the first character, and one for the whole path.\<close>

function ForceCreateDirectory_loop :: "'f file_system \<Rightarrow> string \<Rightarrow> nat \<Rightarrow> 'f \<Rightarrow> 'f \<times> bool" where
  "ForceCreateDirectory_loop fs dir index st =
     (let index' = find_char (CHR ''/'') dir (index + 1);
          subPath = (case index' of None \<Rightarrow> dir | Some i \<Rightarrow> take i dir) in
      case (if \<not> IsFileExists fs subPath st then fs_mkdir fs subPath st else (st, True)) of
        (st', False) \<Rightarrow> (st', False)
      | (st', True) \<Rightarrow>
          (case index' of
             None \<Rightarrow> (st', IsFileExists fs dir st')
           | Some i \<Rightarrow> ForceCreateDirectory_loop fs dir i st'))"
  by pat_completeness auto
termination
  by (relation "measure (\<lambda>(fs, dir, index, st). length dir - index)") (auto dest!: find_char_bound [OF sym])

declare ForceCreateDirectory_loop.simps [simp del]

definition ForceCreateDirectory :: "'f file_system \<Rightarrow> string \<Rightarrow> 'f \<Rightarrow> 'f \<times> bool" where
  "ForceCreateDirectory fs dir st = ForceCreateDirectory_loop fs dir 0 st"

definition GetFilePathByDir :: "string \<Rightarrow> string \<Rightarrow> string" where
  "GetFilePathByDir dir fileName =
     (if dir = [] then fileName
      else (if last dir \<noteq> CHR ''/'' then dir @ [PATH_DELIMITER] else dir) @ fileName)"

text \<open>\<^verbatim>\<open>find(text) != npos\<close>.\<close>

definition contains_text :: "string \<Rightarrow> string \<Rightarrow> bool" where
  "contains_text path text \<longleftrightarrow> (\<exists>i \<in> set [0..<Suc (length path)]. take (length text) (drop i path) = text)"

definition IsLegalPath :: "string \<Rightarrow> bool" where
  "IsLegalPath path = (if contains_text path ''./'' \<or> contains_text path ''../'' then False else True)"

section \<open>Creating a chain of directories\<close>

text \<open>The paths that have to exist: the prefixes before a delimiter, except an empty one, and the path.\<close>

definition ancestors :: "string \<Rightarrow> string set" where
  "ancestors dir = {take i dir | i. 0 < i \<and> i < length dir \<and> dir ! i = CHR ''/''} \<union> {dir}"

definition fs_laws :: "'f file_system \<Rightarrow> bool" where
  "fs_laws fs \<longleftrightarrow>
     (\<forall>p q st st'. fs_mkdir fs p st = (st', True) \<longrightarrow> fs_access fs p st' \<and> (fs_access fs q st \<longrightarrow> fs_access fs q st'))"

lemma find_char_None: "find_char c s pos = None \<Longrightarrow> pos \<le> i \<Longrightarrow> i < length s \<Longrightarrow> s ! i \<noteq> c"
  by (auto simp: find_char_def in_set_conv_nth split: if_splits)
     (metis add_diff_inverse_nat diff_less_mono linorder_not_less nth_drop)

lemma find_char_before:
  assumes "find_char c s pos = Some i" "pos \<le> j" "j < i"
  shows "s ! j \<noteq> c"
proof -
  have i: "i = pos + length (takeWhile (\<lambda>x. x \<noteq> c) (drop pos s))"
    using assms(1) by (auto simp: find_char_def split: if_splits)
  then have len: "j - pos < length (takeWhile (\<lambda>x. x \<noteq> c) (drop pos s))"
    using assms(2,3) by linarith
  then have "drop pos s ! (j - pos) \<noteq> c"
    using nth_mem [OF len] by (simp add: takeWhile_nth [OF len]) (metis set_takeWhileD)
  moreover have "pos \<le> length s"
    using find_char_bound [OF assms(1)] by simp
  ultimately show ?thesis
    using assms(2) by simp
qed

lemma ForceCreateDirectory_loop_creates:
  assumes "fs_laws fs" "ForceCreateDirectory_loop fs dir index st = (st', True)"
  shows "(\<forall>j. index < j \<and> j < length dir \<and> dir ! j = CHR ''/'' \<longrightarrow> fs_access fs (take j dir) st') \<and> fs_access fs dir st' \<and>
    (\<forall>q. fs_access fs q st \<longrightarrow> fs_access fs q st')"
  using assms
proof (induction fs dir index st rule: ForceCreateDirectory_loop.induct)
  case (1 fs dir index st)
  let ?next = "find_char (CHR ''/'') dir (index + 1)"
  let ?sub = "case ?next of None \<Rightarrow> dir | Some i \<Rightarrow> take i dir"
  let ?step = "if \<not> IsFileExists fs ?sub st then fs_mkdir fs ?sub st else (st, True)"
  have eq: "ForceCreateDirectory_loop fs dir index st =
      (case ?step of (st', False) \<Rightarrow> (st', False)
       | (st', True) \<Rightarrow> (case ?next of None \<Rightarrow> (st', IsFileExists fs dir st') | Some i \<Rightarrow> ForceCreateDirectory_loop fs dir i st'))"
    by (subst ForceCreateDirectory_loop.simps) (simp only: Let_def)
  obtain st1 ok where p: "?step = (st1, ok)"
    by (metis prod.collapse)
  then have step: "?step = (st1, True)"
    using 1(3) unfolding eq by (cases ok) simp_all
  then have sub: "fs_access fs ?sub st1" "\<forall>q. fs_access fs q st \<longrightarrow> fs_access fs q st1"
    using 1(2) unfolding fs_laws_def IsFileExists_def by (metis prod.inject)+
  show ?case
  proof (cases ?next)
    case None
    then have "st' = st1" "fs_access fs dir st'"
      using 1(3) unfolding eq step by (auto simp: IsFileExists_def)
    then show ?thesis
      using sub(2) find_char_None [OF None] by auto
  next
    case (Some i)
    then have rec: "ForceCreateDirectory_loop fs dir i st1 = (st', True)"
      using 1(3) unfolding eq step by simp
    note ih = 1(1) [OF refl refl step [symmetric] refl Some 1(2) rec]
    show ?thesis
    proof (intro conjI allI impI)
      fix j
      assume j: "index < j \<and> j < length dir \<and> dir ! j = CHR ''/''"
      then have "i \<le> j"
        using find_char_before [OF Some, of j] by force
      then show "fs_access fs (take j dir) st'"
        using ih sub(1) j Some by (cases "i = j") auto
    qed (use ih sub(2) in auto)
  qed
qed

text \<open>
  A chain of directories is created completely: when the function reports success, every
  ancestor of the path and the path itself exist, and nothing that existed before is gone.
\<close>

theorem ForceCreateDirectory_creates_chain:
  assumes "fs_laws fs" "ForceCreateDirectory fs dir st = (st', True)"
  shows "(\<forall>p \<in> ancestors dir. fs_access fs p st') \<and> (\<forall>q. fs_access fs q st \<longrightarrow> fs_access fs q st')"
  using ForceCreateDirectory_loop_creates [OF assms(1)] assms(2) by (auto simp: ForceCreateDirectory_def ancestors_def)

text \<open>A file system that is the list of its paths.\<close>

definition list_fs :: "string list file_system" where
  "list_fs =
     \<lparr>fs_access = (\<lambda>p st. p \<in> set st), fs_lstat = (\<lambda>p st. if p \<in> set st then Some Directory else None),
      fs_mkdir = (\<lambda>p st. (p # st, True)), fs_remove = (\<lambda>p st. (removeAll p st, True)),
      fs_rmdir = (\<lambda>p st. (removeAll p st, True))\<rparr>"

theorem ForceCreateDirectory_creates_chain_witness:
  "\<exists>st. ForceCreateDirectory list_fs ''/a/b'' [] = (st, True) \<and> (\<forall>p \<in> ancestors ''/a/b''. p \<in> set st)"
proof -
  have "fs_laws list_fs"
    by (simp add: fs_laws_def list_fs_def)
  moreover have "ForceCreateDirectory list_fs ''/a/b'' [] = ([''/a/b'', ''/a''], True)"
    by (simp add: ForceCreateDirectory_def ForceCreateDirectory_loop.simps find_char_def IsFileExists_def list_fs_def)
  ultimately have "\<forall>p \<in> ancestors ''/a/b''. fs_access list_fs p [''/a/b'', ''/a'']"
    by (intro conjunct1 [OF ForceCreateDirectory_creates_chain])
  then show ?thesis
    using \<open>ForceCreateDirectory list_fs ''/a/b'' [] = _\<close> by (simp add: list_fs_def)
qed

section \<open>Legal paths\<close>

lemma contains_text_iff: "contains_text path text \<longleftrightarrow> sublist text path"
proof
  assume "contains_text path text"
  then obtain i where "take (length text) (drop i path) = text"
    by (auto simp: contains_text_def)
  then have "path = take i path @ text @ drop (length text) (drop i path)"
    by (metis append_take_drop_id)
  then show "sublist text path"
    by (metis sublist_appendI)
next
  assume "sublist text path"
  then obtain a b where "path = a @ text @ b"
    by (auto simp: sublist_def)
  then show "contains_text path text"
    by (auto simp: contains_text_def intro!: bexI [of _ "length a"])
qed

text \<open>
  The second test is redundant, and a parent directory at the end of a path passes.
\<close>

lemma IsLegalPath_iff: "IsLegalPath path \<longleftrightarrow> \<not> sublist ''./'' path"
proof -
  have "sublist ''../'' path \<Longrightarrow> sublist ''./'' path"
    by (rule sublist_order.order.trans [of _ "''../''"]) (auto simp: sublist_Cons_right)
  then show ?thesis
    by (auto simp: IsLegalPath_def contains_text_iff)
qed

lemma parent_at_end_is_legal: "IsLegalPath ''/data/..''"
  by (simp add: IsLegalPath_iff sublist_Cons_right)

end
