(* ===== verification/EventRegistry.thy ===== *)
theory EventRegistry
  imports Parcelables FileUtil
begin

text \<open>
  Registration of listeners, queries and subscriptions with the event server: the rules of
  the interface (hisysevent_rules.h), the delegate that talks to the server
  (adapter/native/idl/src/hisysevent_delegate.cpp), the base manager, the manager of the C++
  interface and the one of the C interface (hisysevent_base_manager.cpp,
  hisysevent_manager.cpp, hisysevent_manager_c.cpp). The server is a parameter that answers
  requests, and every request is logged; the theory shows which registrations the server
  holds, and that the process can still reach them.
\<close>

section \<open>Codes and rules\<close>

definition IPC_CALL_SUCCEED :: int where "IPC_CALL_SUCCEED = 0"
definition ERR_LISTENER_NOT_EXIST :: int where "ERR_LISTENER_NOT_EXIST = -10"
definition ERR_SYS_EVENT_SERVICE_NOT_FOUND :: int where "ERR_SYS_EVENT_SERVICE_NOT_FOUND = -11"
definition ERR_QUERY_RULE_INVALID :: int where "ERR_QUERY_RULE_INVALID = -23"
definition ERR_TOO_MANY_WATCH_RULES :: int where "ERR_TOO_MANY_WATCH_RULES = -25"
definition ERR_TOO_MANY_QUERY_RULES :: int where "ERR_TOO_MANY_QUERY_RULES = -27"
definition ERR_QUERY_ARG_NULL :: int where "ERR_QUERY_ARG_NULL = -35"
definition ERR_QUERY_CALLBACK_NULL :: int where "ERR_QUERY_CALLBACK_NULL = -36"
definition ERR_INVALID_RULES :: int where "ERR_INVALID_RULES = -37"

lemmas code_defs = IPC_CALL_SUCCEED_def ERR_LISTENER_NOT_EXIST_def ERR_SYS_EVENT_SERVICE_NOT_FOUND_def
  ERR_QUERY_RULE_INVALID_def ERR_TOO_MANY_WATCH_RULES_def ERR_TOO_MANY_QUERY_RULES_def ERR_QUERY_ARG_NULL_def
  ERR_QUERY_CALLBACK_NULL_def ERR_INVALID_RULES_def

record query_arg =
  ar_beginTime :: "64 word"
  ar_endTime :: "64 word"
  ar_maxEvents :: "32 word"
  ar_fromSeq :: "64 word"
  ar_toSeq :: "64 word"

definition QueryArg_new :: "64 word \<Rightarrow> 64 word \<Rightarrow> 32 word \<Rightarrow> 64 word \<Rightarrow> 64 word \<Rightarrow> query_arg" where
  "QueryArg_new beginTime endTime maxEvents fromSeq toSeq =
     \<lparr>ar_beginTime = (if beginTime <s 0 then 0 else beginTime),
      ar_endTime = (if endTime <s 0 then 0x7FFFFFFFFFFFFFFF else endTime),
      ar_maxEvents = (if maxEvents <s 0 then 0x7FFFFFFF else maxEvents),
      ar_fromSeq = fromSeq, ar_toSeq = toSeq\<rparr>"

record listener_rule =
  lr_domain :: string
  lr_eventName :: string
  lr_tag :: string
  lr_ruleType :: u32
  lr_eventType :: u32

definition ListenerRule_new :: "string \<Rightarrow> string \<Rightarrow> string \<Rightarrow> u32 \<Rightarrow> u32 \<Rightarrow> listener_rule" where
  "ListenerRule_new domain eventName tag ruleType eventType =
     \<lparr>lr_domain = domain, lr_eventName = eventName, lr_tag = tag, lr_ruleType = ruleType, lr_eventType = eventType\<rparr>"

definition ListenerRule_event :: "string \<Rightarrow> string \<Rightarrow> u32 \<Rightarrow> listener_rule" where
  "ListenerRule_event domain eventName ruleType = ListenerRule_new domain eventName '''' ruleType 0"

definition ListenerRule_tag :: "string \<Rightarrow> u32 \<Rightarrow> listener_rule" where
  "ListenerRule_tag tag ruleType = ListenerRule_new '''' '''' tag ruleType 0"

record query_rule =
  ql_domain :: string
  ql_eventList :: "string list"
  ql_ruleType :: u32
  ql_eventType :: u32
  ql_condition :: string

definition QueryRule_new :: "string \<Rightarrow> string list \<Rightarrow> u32 \<Rightarrow> u32 \<Rightarrow> string \<Rightarrow> query_rule" where
  "QueryRule_new domain eventList ruleType eventType cond =
     \<lparr>ql_domain = domain, ql_eventList = eventList, ql_ruleType = ruleType, ql_eventType = eventType, ql_condition = cond\<rparr>"

section \<open>The server\<close>

text \<open>
  The identity of a callback object is a number. A request carries what the code hands to
  the generated proxy; \<open>SetAcl\<close> is the call of the storage service, and \<open>RemoveDeath\<close> that of
  the remote object.
\<close>

datatype request =
    RemoveDeath nat
  | AddRequest "sys_event_rule list" nat
  | RemoveRequest nat
  | QueryRequest query_argument "sys_event_query_rule list"
  | ExportRequest query_argument "sys_event_query_rule list"
  | SubscribeRequest "sys_event_query_rule list"
  | UnsubscribeRequest
  | SetAcl string string

text \<open>
  The log holds each request with the code it was answered with. The server's answers may
  depend on everything that happened before: \<open>sv_present\<close> says whether the service is found,
  \<open>sv_reply\<close> is the code and \<open>sv_result\<close> the out-parameter of a request. \<open>sv_storage\<close> says
  whether the code is built with \<^verbatim>\<open>STORAGE_SERVICE_ENABLE\<close>.
\<close>

type_synonym request_log = "(request \<times> int) list"

record 'f server =
  sv_present :: "request_log \<Rightarrow> bool"
  sv_reply :: "request_log \<Rightarrow> request \<Rightarrow> int"
  sv_result :: "request_log \<Rightarrow> request \<Rightarrow> int"
  sv_storage :: bool
  sv_files :: "'f file_system"

section \<open>The state of the process\<close>

text \<open>
  A delegate holds a callback object or none. Base listeners are numbers, too: \<open>rg_proxy\<close>
  is the delegate a base listener owns, \<open>rg_callback\<close> the base listener a callback object
  delivers to, and \<open>rg_next\<close> the next unused number. The map of the C++ interface may hold
  null pointers; that of the C interface is keyed by two function pointers.
\<close>

record delegate =
  dg_spListenerCallBack :: "nat option"

record 'f registry =
  rg_proxy :: "nat \<Rightarrow> delegate option"
  rg_callback :: "nat \<Rightarrow> nat option"
  rg_next :: nat
  rg_listenerToBaseMap :: "nat \<Rightarrow> nat option option"
  rg_watchers :: "nat \<times> nat \<Rightarrow> nat option"
  rg_log :: request_log
  rg_files :: 'f

definition registry_new :: "'f \<Rightarrow> 'f registry" where
  "registry_new files =
     \<lparr>rg_proxy = (\<lambda>_. None), rg_callback = (\<lambda>_. None), rg_next = 0, rg_listenerToBaseMap = (\<lambda>_. None),
      rg_watchers = (\<lambda>_. None), rg_log = [], rg_files = files\<rparr>"

definition request_server :: "'f server \<Rightarrow> request \<Rightarrow> 'f registry \<Rightarrow> 'f registry \<times> int" where
  "request_server sv rq st =
     (let reply = sv_reply sv (rg_log st) rq in (st\<lparr>rg_log := rg_log st @ [(rq, reply)]\<rparr>, reply))"

section \<open>The delegate\<close>

definition ConvertListenerRule :: "listener_rule list \<Rightarrow> sys_event_rule list" where
  "ConvertListenerRule rules =
     map (\<lambda>rule. if lr_tag rule = []
       then SysEventRule_event (lr_domain rule) (lr_eventName rule) (lr_ruleType rule) (lr_eventType rule)
       else SysEventRule_tag (lr_tag rule) (lr_ruleType rule) (lr_eventType rule)) rules"

definition ConvertQueryRule :: "query_rule list \<Rightarrow> sys_event_query_rule list" where
  "ConvertQueryRule rules =
     map (\<lambda>rule. \<lparr>qr_domain = ql_domain rule, qr_eventList = ql_eventList rule, qr_ruleType = ql_ruleType rule,
       qr_eventType = ql_eventType rule, qr_condition = ql_condition rule\<rparr>) rules"

definition Delegate_AddListener ::
  "'f server \<Rightarrow> nat \<Rightarrow> listener_rule list \<Rightarrow> delegate \<Rightarrow> 'f registry \<Rightarrow> delegate \<times> 'f registry \<times> int" where
  "Delegate_AddListener sv listener rules dg st =
     (if \<not> sv_present sv (rg_log st) then (dg, st, ERR_SYS_EVENT_SERVICE_NOT_FOUND)
      else
        let eventRules = ConvertListenerRule rules in
        case (case dg_spListenerCallBack dg of
                None \<Rightarrow> (rg_next st, st\<lparr>rg_next := rg_next st + 1, rg_callback := (rg_callback st)(rg_next st \<mapsto> listener)\<rparr>)
              | Some cb \<Rightarrow> (cb, st)) of
          (cb, st1) \<Rightarrow>
            (case request_server sv (RemoveDeath cb) st1 of (st2, _) \<Rightarrow>
             case request_server sv (AddRequest eventRules cb) st2 of (st3, ret) \<Rightarrow>
               (dg\<lparr>dg_spListenerCallBack := Some cb\<rparr>, st3, ret)))"

definition Delegate_RemoveListener :: "'f server \<Rightarrow> delegate \<Rightarrow> 'f registry \<Rightarrow> 'f registry \<times> int" where
  "Delegate_RemoveListener sv dg st =
     (case dg_spListenerCallBack dg of
        None \<Rightarrow> (st, ERR_LISTENER_NOT_EXIST)
      | Some cb \<Rightarrow>
          if \<not> sv_present sv (rg_log st) then (st, ERR_SYS_EVENT_SERVICE_NOT_FOUND)
          else request_server sv (RemoveRequest cb) st)"

definition Delegate_Query :: "'f server \<Rightarrow> query_arg \<Rightarrow> query_rule list \<Rightarrow> 'f registry \<Rightarrow> 'f registry \<times> int" where
  "Delegate_Query sv arg rules st =
     (if \<not> sv_present sv (rg_log st) then (st, ERR_SYS_EVENT_SERVICE_NOT_FOUND)
      else request_server sv
        (QueryRequest \<lparr>qa_beginTime = ar_beginTime arg, qa_endTime = ar_endTime arg, qa_maxEvents = ar_maxEvents arg,
           qa_fromSeq = ar_fromSeq arg, qa_toSeq = ar_toSeq arg\<rparr> (ConvertQueryRule rules)) st)"

definition EVENT_DIR :: string where "EVENT_DIR = ''/data/storage/el2/base/cache/hiview/event''"
definition BASE_DIR :: string where "BASE_DIR = ''/data/storage/el2/base''"
definition CACHE_DIR :: string where "CACHE_DIR = ''/data/storage/el2/base/cache''"
definition HIVIEW_DIR :: string where "HIVIEW_DIR = ''/data/storage/el2/base/cache/hiview''"
definition PARENT_DIR_PERMISSION :: string where "PARENT_DIR_PERMISSION = ''g:1201:x''"
definition SUB_DIR_PERMISSION :: string where "SUB_DIR_PERMISSION = ''g:1201:rwx''"
definition ACL_SUCC :: int where "ACL_SUCC = 0"

definition CreateHiviewDir :: "'f server \<Rightarrow> 'f registry \<Rightarrow> 'f registry \<times> bool" where
  "CreateHiviewDir sv st =
     (if IsFileExists (sv_files sv) EVENT_DIR (rg_files st) then (st, True)
      else case ForceCreateDirectory (sv_files sv) EVENT_DIR (rg_files st) of
        (files, ok) \<Rightarrow> (st\<lparr>rg_files := files\<rparr>, if \<not> ok then False else True))"

definition set_acl :: "'f server \<Rightarrow> string \<Rightarrow> string \<Rightarrow> 'f registry \<Rightarrow> 'f registry \<times> bool" where
  "set_acl sv dir permission st =
     (case request_server sv (SetAcl dir permission) st of (st', ret) \<Rightarrow> (st', ret = ACL_SUCC))"

definition SetDirPermission :: "'f server \<Rightarrow> 'f registry \<Rightarrow> 'f registry \<times> bool" where
  "SetDirPermission sv st =
     (if sv_storage sv
      then and_then (set_acl sv BASE_DIR PARENT_DIR_PERMISSION)
          (and_then (set_acl sv CACHE_DIR PARENT_DIR_PERMISSION)
          (and_then (set_acl sv HIVIEW_DIR PARENT_DIR_PERMISSION)
            (set_acl sv EVENT_DIR SUB_DIR_PERMISSION))) st
      else (st, False))"

definition prepare_dir :: "'f server \<Rightarrow> 'f registry \<Rightarrow> 'f registry \<times> bool" where
  "prepare_dir sv = and_then (CreateHiviewDir sv) (SetDirPermission sv)"

definition request_result :: "'f server \<Rightarrow> request \<Rightarrow> 'f registry \<Rightarrow> 'f registry \<times> int" where
  "request_result sv rq st =
     (case request_server sv rq st of (st', retCode) \<Rightarrow>
        if retCode \<noteq> IPC_CALL_SUCCEED then (st', retCode) else (st', sv_result sv (rg_log st) rq))"

definition Delegate_Export :: "'f server \<Rightarrow> query_arg \<Rightarrow> query_rule list \<Rightarrow> 'f registry \<Rightarrow> 'f registry \<times> int" where
  "Delegate_Export sv arg rules st =
     (if \<not> sv_present sv (rg_log st) then (st, ERR_SYS_EVENT_SERVICE_NOT_FOUND)
      else case prepare_dir sv st of
        (st1, False) \<Rightarrow> (st1, ERR_SYS_EVENT_SERVICE_NOT_FOUND)
      | (st1, True) \<Rightarrow> request_result sv
        (ExportRequest \<lparr>qa_beginTime = ar_beginTime arg, qa_endTime = ar_endTime arg, qa_maxEvents = ar_maxEvents arg,
           qa_fromSeq = ar_fromSeq arg, qa_toSeq = ar_toSeq arg\<rparr> (ConvertQueryRule rules)) st1)"

definition Delegate_Subscribe :: "'f server \<Rightarrow> query_rule list \<Rightarrow> 'f registry \<Rightarrow> 'f registry \<times> int" where
  "Delegate_Subscribe sv rules st =
     (if \<not> sv_present sv (rg_log st) then (st, ERR_SYS_EVENT_SERVICE_NOT_FOUND)
      else case prepare_dir sv st of
        (st1, False) \<Rightarrow> (st1, ERR_SYS_EVENT_SERVICE_NOT_FOUND)
      | (st1, True) \<Rightarrow> request_result sv (SubscribeRequest (ConvertQueryRule rules)) st1)"

definition Delegate_Unsubscribe :: "'f server \<Rightarrow> 'f registry \<Rightarrow> 'f registry \<times> int" where
  "Delegate_Unsubscribe sv st =
     (if \<not> sv_present sv (rg_log st) then (st, ERR_SYS_EVENT_SERVICE_NOT_FOUND)
      else request_server sv UnsubscribeRequest st)"

section \<open>The base manager\<close>

definition Base_AddListener ::
  "'f server \<Rightarrow> nat option \<Rightarrow> listener_rule list \<Rightarrow> 'f registry \<Rightarrow> 'f registry \<times> int" where
  "Base_AddListener sv listener rules st =
     (case listener of
        None \<Rightarrow> (st, ERR_LISTENER_NOT_EXIST)
      | Some l \<Rightarrow>
          let dg = (case rg_proxy st l of None \<Rightarrow> \<lparr>dg_spListenerCallBack = None\<rparr> | Some d \<Rightarrow> d) in
          case Delegate_AddListener sv l rules dg st of
            (dg', st', ret) \<Rightarrow> (st'\<lparr>rg_proxy := (rg_proxy st')(l \<mapsto> dg')\<rparr>, ret))"

definition Base_RemoveListener :: "'f server \<Rightarrow> nat option \<Rightarrow> 'f registry \<Rightarrow> 'f registry \<times> int" where
  "Base_RemoveListener sv listener st =
     (case listener of
        None \<Rightarrow> (st, ERR_LISTENER_NOT_EXIST)
      | Some l \<Rightarrow>
          (case rg_proxy st l of
             None \<Rightarrow> (st, ERR_LISTENER_NOT_EXIST)
           | Some dg \<Rightarrow>
               (case Delegate_RemoveListener sv dg st of
                  (st', ret) \<Rightarrow> (st'\<lparr>rg_proxy := (rg_proxy st')(l := None)\<rparr>, ret))))"

text \<open>The other functions make a delegate for one call; \<^verbatim>\<open>make_unique\<close> never returns null.\<close>

definition Base_Query :: "'f server \<Rightarrow> query_arg \<Rightarrow> query_rule list \<Rightarrow> 'f registry \<Rightarrow> 'f registry \<times> int" where
  "Base_Query sv arg rules st = Delegate_Query sv arg rules st"

definition Base_Export :: "'f server \<Rightarrow> query_arg \<Rightarrow> query_rule list \<Rightarrow> 'f registry \<Rightarrow> 'f registry \<times> int" where
  "Base_Export sv arg rules st = Delegate_Export sv arg rules st"

definition Base_Subscribe :: "'f server \<Rightarrow> query_rule list \<Rightarrow> 'f registry \<Rightarrow> 'f registry \<times> int" where
  "Base_Subscribe sv rules st = Delegate_Subscribe sv rules st"

definition Base_Unsubscribe :: "'f server \<Rightarrow> 'f registry \<Rightarrow> 'f registry \<times> int" where
  "Base_Unsubscribe sv st = Delegate_Unsubscribe sv st"

section \<open>The manager of the C++ interface\<close>

text \<open>
  \<^verbatim>\<open>listenerToBaseMap_[listener]\<close> inserts a null pointer when the listener is not in the map
  (\<open>map_index\<close>); \<open>new_base\<close> makes a base listener.
\<close>

definition map_index :: "nat \<Rightarrow> 'f registry \<Rightarrow> 'f registry \<times> nat option" where
  "map_index listener st =
     (case rg_listenerToBaseMap st listener of
        None \<Rightarrow> (st\<lparr>rg_listenerToBaseMap := (rg_listenerToBaseMap st)(listener \<mapsto> None)\<rparr>, None)
      | Some base \<Rightarrow> (st, base))"

definition new_base :: "'f registry \<Rightarrow> 'f registry \<times> nat" where
  "new_base st = (st\<lparr>rg_next := rg_next st + 1, rg_proxy := (rg_proxy st)(rg_next st := None)\<rparr>, rg_next st)"

definition Manager_AddListener ::
  "'f server \<Rightarrow> nat option \<Rightarrow> listener_rule list \<Rightarrow> 'f registry \<Rightarrow> 'f registry \<times> int" where
  "Manager_AddListener sv listener rules st =
     (case listener of
        None \<Rightarrow> (st, ERR_LISTENER_NOT_EXIST)
      | Some l \<Rightarrow>
          (case map_index l st of
             (st1, Some b) \<Rightarrow> Base_AddListener sv (Some b) rules st1
           | (st1, None) \<Rightarrow>
               (case new_base st1 of
                  (st2, b) \<Rightarrow>
                    Base_AddListener sv (Some b) rules
                      (st2\<lparr>rg_listenerToBaseMap := (rg_listenerToBaseMap st2)(l \<mapsto> Some b)\<rparr>))))"

definition Manager_RemoveListener :: "'f server \<Rightarrow> nat option \<Rightarrow> 'f registry \<Rightarrow> 'f registry \<times> int" where
  "Manager_RemoveListener sv listener st =
     (case listener of
        None \<Rightarrow> (st, ERR_LISTENER_NOT_EXIST)
      | Some l \<Rightarrow>
          (case map_index l st of
             (st1, None) \<Rightarrow> (st1, ERR_LISTENER_NOT_EXIST)
           | (st1, Some b) \<Rightarrow>
               (case Base_RemoveListener sv (Some b) st1 of
                  (st2, ret) \<Rightarrow>
                    if ret = IPC_CALL_SUCCEED
                    then (st2\<lparr>rg_listenerToBaseMap := (rg_listenerToBaseMap st2)(l := None)\<rparr>, ret)
                    else (st2, ret))))"

definition Manager_Query :: "'f server \<Rightarrow> query_arg \<Rightarrow> query_rule list \<Rightarrow> 'f registry \<Rightarrow> 'f registry \<times> int" where
  "Manager_Query sv arg rules st = Base_Query sv arg rules st"

section \<open>The manager of the C interface\<close>

text \<open>
  The C structures. A character array is its text, the list of events its ten arrays, the
  pointer to the rules the array behind it; \<open>None\<close> as the result of a function is an access
  behind the end of an array.
\<close>

record query_rule_c =
  qc_domain :: string
  qc_eventList :: "string list"
  qc_eventListSize :: nat
  qc_condition :: "string option"

record watch_rule_c =
  wc_domain :: string
  wc_name :: string
  wc_tag :: string
  wc_ruleType :: "32 word"
  wc_eventType :: "32 word"

definition MAX_NUMBER_OF_EVENT_LIST :: nat where "MAX_NUMBER_OF_EVENT_LIST = 10"
definition MAX_QUERY_RULE_CNT :: nat where "MAX_QUERY_RULE_CNT = 100"
definition MAX_WATCH_RULE_CNT :: nat where "MAX_WATCH_RULE_CNT = 20"

fun query_rules_loop :: "query_rule_c list \<Rightarrow> nat \<Rightarrow> query_rule list \<Rightarrow> (int + query_rule list) option" where
  "query_rules_loop rules 0 acc = Some (Inr acc)"
| "query_rules_loop [] (Suc n) acc = None"
| "query_rules_loop (r # rules) (Suc n) acc =
     (if qc_domain r = [] \<or> qc_eventListSize r = 0 then Some (Inl ERR_QUERY_RULE_INVALID)
      else if qc_eventListSize r > length (qc_eventList r) then None
      else query_rules_loop rules n
        (acc @ [QueryRule_new (qc_domain r) (take (qc_eventListSize r) (qc_eventList r)) WHOLE_WORD 0
           (case qc_condition r of None \<Rightarrow> '''' | Some c \<Rightarrow> c)]))"

definition HiSysEventQuery ::
  "'f server \<Rightarrow> 64 word \<times> 64 word \<times> 32 word \<Rightarrow> query_rule_c list option \<Rightarrow> nat \<Rightarrow> 'f registry \<Rightarrow>
   ('f registry \<times> int) option" where
  "HiSysEventQuery sv arg rules ruleSize st =
     (case arg of (beginTime, endTime, maxEvents) \<Rightarrow>
      if ruleSize > MAX_QUERY_RULE_CNT then Some (st, ERR_TOO_MANY_QUERY_RULES)
      else if ruleSize > 0 \<and> rules = None then Some (st, ERR_INVALID_RULES)
      else case query_rules_loop (case rules of None \<Rightarrow> [] | Some rs \<Rightarrow> rs) ruleSize [] of
        None \<Rightarrow> None
      | Some (Inl err) \<Rightarrow> Some (st, err)
      | Some (Inr queryRules) \<Rightarrow>
          Some (Base_Query sv (QueryArg_new beginTime endTime maxEvents (-1) (-1)) queryRules st))"

fun watch_rules_loop :: "watch_rule_c list \<Rightarrow> nat \<Rightarrow> listener_rule list \<Rightarrow> listener_rule list option" where
  "watch_rules_loop rules 0 acc = Some acc"
| "watch_rules_loop [] (Suc n) acc = None"
| "watch_rules_loop (r # rules) (Suc n) acc =
     watch_rules_loop rules n
       (acc @ [ListenerRule_new (wc_domain r) (wc_name r) (wc_tag r) (wc_ruleType r) (wc_eventType r)])"

text \<open>A watcher is its two function pointers.\<close>

definition HiSysEventAddWatcher ::
  "'f server \<Rightarrow> nat \<times> nat \<Rightarrow> watch_rule_c list option \<Rightarrow> nat \<Rightarrow> 'f registry \<Rightarrow> ('f registry \<times> int) option" where
  "HiSysEventAddWatcher sv watcher rules ruleSize st =
     (if ruleSize > MAX_WATCH_RULE_CNT then Some (st, ERR_TOO_MANY_WATCH_RULES)
      else if ruleSize > 0 \<and> rules = None then Some (st, ERR_INVALID_RULES)
      else case watch_rules_loop (case rules of None \<Rightarrow> [] | Some rs \<Rightarrow> rs) ruleSize [] of
        None \<Rightarrow> None
      | Some listenerRules \<Rightarrow>
          (case new_base st of (st1, listenerC) \<Rightarrow>
           case Base_AddListener sv (Some listenerC) listenerRules st1 of (st2, ret) \<Rightarrow>
             if ret \<noteq> IPC_CALL_SUCCEED then Some (st2, ret)
             else Some (st2\<lparr>rg_watchers := (rg_watchers st2)(watcher \<mapsto> listenerC)\<rparr>, ret)))"

definition HiSysEventRemoveWatcher :: "'f server \<Rightarrow> nat \<times> nat \<Rightarrow> 'f registry \<Rightarrow> 'f registry \<times> int" where
  "HiSysEventRemoveWatcher sv watcher st =
     (case rg_watchers st watcher of
        None \<Rightarrow> (st, ERR_LISTENER_NOT_EXIST)
      | Some l \<Rightarrow>
          (case Base_RemoveListener sv (Some l) st of
             (st', ret) \<Rightarrow>
               if ret = IPC_CALL_SUCCEED then (st'\<lparr>rg_watchers := (rg_watchers st')(watcher := None)\<rparr>, ret)
               else (st', ret)))"

text \<open>
  The exported functions. A pointer argument is \<open>None\<close> when null, and so is a function
  pointer of a callback or watcher.
\<close>

definition OH_HiSysEvent_Query ::
  "'f server \<Rightarrow> (64 word \<times> 64 word \<times> 32 word) option \<Rightarrow> query_rule_c list option \<Rightarrow> nat \<Rightarrow>
   (nat option \<times> nat option) option \<Rightarrow> 'f registry \<Rightarrow> ('f registry \<times> int) option" where
  "OH_HiSysEvent_Query sv arg rules ruleSize callback st =
     (case arg of
        None \<Rightarrow> Some (st, ERR_QUERY_ARG_NULL)
      | Some a \<Rightarrow>
          (case callback of
             Some (Some onQuery, Some onComplete) \<Rightarrow> HiSysEventQuery sv a rules ruleSize st
           | _ \<Rightarrow> Some (st, ERR_QUERY_CALLBACK_NULL)))"

definition OH_HiSysEvent_Add_Watcher ::
  "'f server \<Rightarrow> (nat option \<times> nat option) option \<Rightarrow> watch_rule_c list option \<Rightarrow> nat \<Rightarrow> 'f registry \<Rightarrow>
   ('f registry \<times> int) option" where
  "OH_HiSysEvent_Add_Watcher sv watcher rules ruleSize st =
     (case watcher of
        Some (Some onEvent, Some onServiceDied) \<Rightarrow> HiSysEventAddWatcher sv (onEvent, onServiceDied) rules ruleSize st
      | _ \<Rightarrow> Some (st, ERR_LISTENER_NOT_EXIST))"

definition OH_HiSysEvent_Remove_Watcher ::
  "'f server \<Rightarrow> (nat option \<times> nat option) option \<Rightarrow> 'f registry \<Rightarrow> 'f registry \<times> int" where
  "OH_HiSysEvent_Remove_Watcher sv watcher st =
     (case watcher of
        Some (Some onEvent, Some onServiceDied) \<Rightarrow> HiSysEventRemoveWatcher sv (onEvent, onServiceDied) st
      | _ \<Rightarrow> (st, ERR_LISTENER_NOT_EXIST))"

section \<open>What the server holds\<close>

text \<open>The callbacks the server has accepted and not released, from the log of requests.\<close>

fun served_step :: "request \<times> int \<Rightarrow> nat set \<Rightarrow> nat set" where
  "served_step (AddRequest rules cb, reply) S = (if reply = IPC_CALL_SUCCEED then insert cb S else S)"
| "served_step (RemoveRequest cb, reply) S = (if reply = IPC_CALL_SUCCEED then S - {cb} else S)"
| "served_step _ S = S"

definition served :: "request_log \<Rightarrow> nat set" where
  "served log = fold served_step log {}"

lemma served_Nil [simp]: "served [] = {}"
  by (simp add: served_def)

lemma served_snoc [simp]:
  "served (log @ [x]) = served_step x (served log)"
  "served (log @ [x, y]) = served_step y (served_step x (served log))"
  by (simp_all add: served_def)

text \<open>
  \<open>backed R st\<close>: each callback the server holds belongs to the delegate of a base listener in
  \<open>R\<close>, and base listeners with a delegate have numbers in use.
\<close>

definition callback_of :: "'f registry \<Rightarrow> nat \<Rightarrow> nat option" where
  "callback_of st l = (case rg_proxy st l of None \<Rightarrow> None | Some dg \<Rightarrow> dg_spListenerCallBack dg)"

definition backed :: "nat set \<Rightarrow> 'f registry \<Rightarrow> bool" where
  "backed R st \<longleftrightarrow>
     (\<forall>cb \<in> served (rg_log st). \<exists>l \<in> R. callback_of st l = Some cb) \<and> (\<forall>l. rg_proxy st l \<noteq> None \<longrightarrow> l < rg_next st)"

text \<open>A server that is always there and grants every removal.\<close>

definition reliable :: "'f server \<Rightarrow> bool" where
  "reliable sv \<longleftrightarrow> (\<forall>log. sv_present sv log) \<and> (\<forall>log cb. sv_reply sv log (RemoveRequest cb) = IPC_CALL_SUCCEED)"

text \<open>
  What the two managers need of the base manager: a set \<open>R\<close> of base listeners that accounts
  for everything the server holds. A new base listener changes nothing, adding a listener
  puts its base listener into the set, unless it was unused and the addition failed, and a
  successful removal takes it out.
\<close>

locale registrar =
  fixes good :: bool
    and inv :: "nat set \<Rightarrow> 's \<Rightarrow> bool"
    and known :: "'s \<Rightarrow> nat \<Rightarrow> bool"
    and unused :: "'s \<Rightarrow> nat \<Rightarrow> bool"
    and fresh :: "'s \<Rightarrow> 's \<times> nat"
    and add_op :: "nat \<Rightarrow> 'r \<Rightarrow> 's \<Rightarrow> 's \<times> int"
    and remove_op :: "nat \<Rightarrow> 's \<Rightarrow> 's \<times> int"
  assumes inv_mono: "inv R st \<Longrightarrow> R \<subseteq> R' \<Longrightarrow> inv R' st"
    and fresh_law: "inv R st \<Longrightarrow> fresh st = (st', b) \<Longrightarrow> inv R st' \<and> known st' b \<and> unused st' b"
    and fresh_keeps: "fresh st = (st', b) \<Longrightarrow> known st c \<Longrightarrow> known st' c"
    and add_law: "inv R st \<Longrightarrow> known st b \<Longrightarrow> add_op b rules st = (st', ret) \<Longrightarrow> inv (insert b R) st'"
    and add_refused: "inv R st \<Longrightarrow> known st b \<Longrightarrow> unused st b \<Longrightarrow> add_op b rules st = (st', ret) \<Longrightarrow> ret \<noteq> 0 \<Longrightarrow> inv R st'"
    and add_keeps: "add_op b rules st = (st', ret) \<Longrightarrow> known st c \<Longrightarrow> known st' c"
    and remove_law: "good \<Longrightarrow> inv R st \<Longrightarrow> remove_op b st = (st', ret) \<Longrightarrow> inv (if ret = 0 then R - {b} else R) st'"
    and remove_keeps: "remove_op b st = (st', ret) \<Longrightarrow> known st c \<Longrightarrow> known st' c"
begin

text \<open>A new base listener that is added at once.\<close>

lemma fresh_add:
  assumes "inv R st" "fresh st = (st1, b)" "add_op b rules st1 = (st2, ret)"
  shows "inv (if ret = 0 then insert b R else R) st2" "known st2 b"
proof -
  have f: "inv R st1" "known st1 b" "unused st1 b"
    using fresh_law [OF assms(1,2)] by auto
  then show "inv (if ret = 0 then insert b R else R) st2"
    using add_law [OF f(1,2) assms(3)] add_refused [OF f assms(3)] by simp
  show "known st2 b"
    using add_keeps [OF assms(3) f(2)] .
qed

lemma fresh_add_keeps: "fresh st = (st1, b) \<Longrightarrow> add_op b rules st1 = (st2, ret) \<Longrightarrow> known st c \<Longrightarrow> known st2 c"
  using fresh_keeps add_keeps by blast

end

lemma request_server_simps:
  "request_server sv rq st = (st', ret) \<Longrightarrow>
     st' = st\<lparr>rg_log := rg_log st @ [(rq, ret)]\<rparr> \<and> ret = sv_reply sv (rg_log st) rq"
  by (auto simp: request_server_def Let_def)

text \<open>The base manager on a base listener, with the delegate written out.\<close>

lemma delegate_update [simp]: "dg\<lparr>dg_spListenerCallBack := p\<rparr> = \<lparr>dg_spListenerCallBack = p\<rparr>"
  by (cases dg) simp

lemma Base_AddListener_cases:
  assumes "Base_AddListener sv (Some l) rules st = (st', ret)"
  obtains (absent) dg where "ret = ERR_SYS_EVENT_SERVICE_NOT_FOUND" "dg_spListenerCallBack dg = callback_of st l"
      "st' = st\<lparr>rg_proxy := (rg_proxy st)(l \<mapsto> dg)\<rparr>"
    | (asked) cb n cbs where "callback_of st l = Some cb \<or> callback_of st l = None" "rg_next st \<le> n"
      "st' = st\<lparr>rg_next := n, rg_callback := cbs, rg_proxy := (rg_proxy st)(l \<mapsto> \<lparr>dg_spListenerCallBack = Some cb\<rparr>),
        rg_log := rg_log st @ [(RemoveDeath cb, sv_reply sv (rg_log st) (RemoveDeath cb)),
          (AddRequest (ConvertListenerRule rules) cb, ret)]\<rparr>"
proof -
  let ?dg = "case rg_proxy st l of None \<Rightarrow> \<lparr>dg_spListenerCallBack = None\<rparr> | Some d \<Rightarrow> d"
  have cb: "dg_spListenerCallBack ?dg = callback_of st l"
    by (simp add: callback_of_def split: option.split)
  show thesis
  proof (cases "sv_present sv (rg_log st)")
    case False
    with assms absent [of ?dg] cb show thesis
      by (simp add: Base_AddListener_def Delegate_AddListener_def)
  next
    case True
    show thesis
    proof (cases "callback_of st l")
      case None
      with assms True cb show thesis
        by (intro asked [of "rg_next st" "rg_next st + 1" "(rg_callback st)(rg_next st \<mapsto> l)"])
           (auto simp: Base_AddListener_def Delegate_AddListener_def request_server_def Let_def)
    next
      case (Some c)
      with assms True cb show thesis
        by (intro asked [of c "rg_next st" "rg_callback st"])
           (auto simp: Base_AddListener_def Delegate_AddListener_def request_server_def Let_def)
    qed
  qed
qed

lemma Base_RemoveListener_cases:
  assumes "Base_RemoveListener sv (Some l) st = (st', ret)"
  obtains (no_callback) "ret = ERR_LISTENER_NOT_EXIST" "callback_of st l = None" "st' = st\<lparr>rg_proxy := (rg_proxy st)(l := None)\<rparr>"
    | (absent) cb where "ret = ERR_SYS_EVENT_SERVICE_NOT_FOUND" "callback_of st l = Some cb" "\<not> sv_present sv (rg_log st)"
      "st' = st\<lparr>rg_proxy := (rg_proxy st)(l := None)\<rparr>"
    | (asked) cb where "callback_of st l = Some cb" "ret = sv_reply sv (rg_log st) (RemoveRequest cb)"
      "st' = st\<lparr>rg_proxy := (rg_proxy st)(l := None), rg_log := rg_log st @ [(RemoveRequest cb, ret)]\<rparr>"
proof (cases "rg_proxy st l")
  case None
  then have "st\<lparr>rg_proxy := (rg_proxy st)(l := None)\<rparr> = st"
    by (cases st) (simp add: fun_upd_idem)
  with assms None show thesis
    by - (rule no_callback, simp_all add: Base_RemoveListener_def callback_of_def)
next
  case (Some dg)
  note defs = Base_RemoveListener_def Delegate_RemoveListener_def request_server_def Let_def
  have cb: "callback_of st l = dg_spListenerCallBack dg"
    using Some by (simp add: callback_of_def)
  show thesis
  proof (cases "dg_spListenerCallBack dg")
    case None
    with assms Some cb show thesis
      by - (rule no_callback, simp_all add: defs)
  next
    case c: (Some c)
    show thesis
    proof (cases "sv_present sv (rg_log st)")
      case True
      with assms Some c cb show thesis
        by - (rule asked [of c], auto simp: defs)
    next
      case False
      with assms Some c cb show thesis
        by - (rule absent [of c], auto simp: defs)
    qed
  qed
qed

lemma callback_of_update:
  "rg_proxy st' = (rg_proxy st)(b := p) \<Longrightarrow>
   callback_of st' l = (if l = b then (case p of None \<Rightarrow> None | Some dg \<Rightarrow> dg_spListenerCallBack dg) else callback_of st l)"
  by (simp add: callback_of_def)

lemma Base_AddListener_backed:
  assumes "backed R st" "b < rg_next st" "Base_AddListener sv (Some b) rules st = (st', ret)"
  shows "backed (insert b R) st'" "rg_proxy st b = None \<Longrightarrow> ret \<noteq> 0 \<Longrightarrow> backed R st'" "rg_next st \<le> rg_next st'"
proof -
  have 1: "backed (insert b R) st' \<and> (rg_proxy st b = None \<longrightarrow> ret \<noteq> 0 \<longrightarrow> backed R st') \<and> rg_next st \<le> rg_next st'"
    using assms(3)
  proof (cases rule: Base_AddListener_cases)
    case (absent dg)
    then have "callback_of st' l = callback_of st l" for l
      by (subst callback_of_update [of st' st b "Some dg"]) auto
    then show ?thesis
      using assms(1,2) absent(3) by (auto simp: backed_def)
  next
    case (asked cb n cbs)
    then have *: "callback_of st' l = (if l = b then Some cb else callback_of st l)" for l
      by (subst callback_of_update [of st' st b "Some \<lparr>dg_spListenerCallBack = Some cb\<rparr>"]) auto
    have served': "served (rg_log st') = (if ret = 0 then insert cb (served (rg_log st)) else served (rg_log st))"
      unfolding asked(3) by (simp add: IPC_CALL_SUCCEED_def)
    have proxies: "l < rg_next st'" if "rg_proxy st' l \<noteq> None" for l
    proof -
      have "l = b \<or> rg_proxy st l \<noteq> None"
        using that unfolding asked(3) by (simp split: if_splits)
      then have "l < rg_next st"
        using assms(1,2) by (auto simp: backed_def)
      then show ?thesis
        using asked(2,3) by simp
    qed
    have old: "\<exists>l \<in> R. callback_of st l = Some c" if "c \<in> served (rg_log st)" for c
      using assms(1) that by (simp add: backed_def)
    have "\<exists>l \<in> insert b R. callback_of st' l = Some c" if "c \<in> served (rg_log st')" for c
    proof (cases "c = cb")
      case False
      then have "c \<in> served (rg_log st)"
        using that by (simp add: served' split: if_splits)
      then obtain l where "l \<in> R" "callback_of st l = Some c"
        using old by blast
      moreover from this have "l \<noteq> b"
        using asked(1) False by auto
      ultimately show ?thesis
        by (auto simp: *)
    qed (simp add: *)
    then have "backed (insert b R) st'"
      using proxies by (simp add: backed_def)
    moreover have "backed R st'" if "rg_proxy st b = None" "ret \<noteq> 0"
    proof -
      have "callback_of st b = None"
        using that(1) by (simp add: callback_of_def)
      then have "\<exists>l \<in> R. callback_of st' l = Some c" if "c \<in> served (rg_log st')" for c
        using old [of c] that \<open>ret \<noteq> 0\<close> by (metis * option.distinct(1) served')
      then show ?thesis
        using proxies by (simp add: backed_def)
    qed
    ultimately show ?thesis
      using asked(2,3) by simp
  qed
  then show "backed (insert b R) st'" "rg_proxy st b = None \<Longrightarrow> ret \<noteq> 0 \<Longrightarrow> backed R st'" "rg_next st \<le> rg_next st'"
    by auto
qed

lemma Base_RemoveListener_backed:
  assumes "reliable sv" "backed R st" "Base_RemoveListener sv (Some b) st = (st', ret)"
  shows "backed (if ret = 0 then R - {b} else R) st'"
  using assms(3)
proof (cases rule: Base_RemoveListener_cases)
  case no_callback
  then have "callback_of st' l = callback_of st l" for l
    by (subst callback_of_update [of st' st b None]) auto
  moreover have "rg_log st' = rg_log st" "rg_next st' = rg_next st" "rg_proxy st' l \<noteq> None \<Longrightarrow> rg_proxy st l \<noteq> None" "ret \<noteq> 0" for l
    using no_callback by (auto simp: code_defs split: if_splits)
  ultimately show ?thesis
    using assms(2) unfolding backed_def by simp
next
  case (absent cb)
  then show ?thesis
    using assms(1) by (simp add: reliable_def)
next
  case (asked cb)
  then have "ret = 0"
    using assms(1) by (simp add: reliable_def IPC_CALL_SUCCEED_def)
  moreover have "callback_of st' l = (if l = b then None else callback_of st l)" for l
    using asked(3) by (subst callback_of_update [of st' st b None]) auto
  ultimately show ?thesis
    using assms(2) asked by (auto simp: backed_def IPC_CALL_SUCCEED_def) force
qed

interpretation base_manager: registrar "reliable sv" backed "\<lambda>st b. b < rg_next st" "\<lambda>st b. rg_proxy st b = None"
  new_base "\<lambda>b. Base_AddListener sv (Some b)" "\<lambda>b. Base_RemoveListener sv (Some b)" for sv
proof
  fix R R' :: "nat set" and st st' :: "'a registry" and b c ret rules
  show "backed R st \<Longrightarrow> R \<subseteq> R' \<Longrightarrow> backed R' st"
    unfolding backed_def by (meson subsetD)
  show "backed R st' \<and> b < rg_next st' \<and> rg_proxy st' b = None" if "backed R st" "new_base st = (st', b)"
  proof -
    have "rg_proxy st (rg_next st) = None"
      using that(1) unfolding backed_def by (metis less_irrefl)
    then have "rg_proxy st' = rg_proxy st" "rg_log st' = rg_log st" "rg_next st' = rg_next st + 1" "b = rg_next st"
      using that(2) by (auto simp: new_base_def)
    then show ?thesis
      using that(1) \<open>rg_proxy st (rg_next st) = None\<close> by (auto simp: backed_def callback_of_def less_Suc_eq)
  qed
  show "new_base st = (st', b) \<Longrightarrow> c < rg_next st \<Longrightarrow> c < rg_next st'"
    by (auto simp: new_base_def)
  show "backed R st \<Longrightarrow> b < rg_next st \<Longrightarrow> Base_AddListener sv (Some b) rules st = (st', ret) \<Longrightarrow> backed (insert b R) st'"
    by (rule Base_AddListener_backed(1))
  show "backed R st \<Longrightarrow> b < rg_next st \<Longrightarrow> rg_proxy st b = None \<Longrightarrow>
      Base_AddListener sv (Some b) rules st = (st', ret) \<Longrightarrow> ret \<noteq> 0 \<Longrightarrow> backed R st'"
    by (rule Base_AddListener_backed(2))
  show "Base_AddListener sv (Some b) rules st = (st', ret) \<Longrightarrow> c < rg_next st \<Longrightarrow> c < rg_next st'"
    by (erule Base_AddListener_cases) auto
  show "reliable sv \<Longrightarrow> backed R st \<Longrightarrow> Base_RemoveListener sv (Some b) st = (st', ret) \<Longrightarrow>
      backed (if ret = 0 then R - {b} else R) st'"
    by (rule Base_RemoveListener_backed)
  show "Base_RemoveListener sv (Some b) st = (st', ret) \<Longrightarrow> c < rg_next st \<Longrightarrow> c < rg_next st'"
    by (erule Base_RemoveListener_cases) auto
qed

section \<open>Every registration can be reached\<close>

text \<open>The base listeners the process can still name: those in the two maps.\<close>

definition named :: "('k \<Rightarrow> nat option option) \<Rightarrow> nat set" where
  "named m = {b. \<exists>k. m k = Some (Some b)}"

lemma named_insert: "m l = None \<or> m l = Some None \<Longrightarrow> named (m(l \<mapsto> Some b)) = insert b (named m)"
  unfolding named_def by (force split: if_splits)

lemma named_null: "m l = None \<Longrightarrow> named (m(l \<mapsto> None)) = named m"
  unfolding named_def by (force split: if_splits)

lemma named_erase: "named (m(l := None)) \<subseteq> named m" "m l = Some (Some b) \<Longrightarrow> named m - {b} \<subseteq> named (m(l := None))"
  unfolding named_def by (force split: if_splits)+

lemma ran_erase: "ran (w(x := None)) \<subseteq> ran w" "w x = Some b \<Longrightarrow> ran w - {b} \<subseteq> ran (w(x := None))"
  unfolding ran_def by (force split: if_splits)+

definition roots :: "'f registry \<Rightarrow> nat set" where
  "roots st = named (rg_listenerToBaseMap st) \<union> ran (rg_watchers st)"

definition registry_ok :: "'f registry \<Rightarrow> bool" where
  "registry_ok st \<longleftrightarrow> backed (roots st) st \<and> (\<forall>b \<in> roots st. b < rg_next st)"

lemma callback_of_maps [simp]:
  "callback_of (st\<lparr>rg_listenerToBaseMap := m\<rparr>) = callback_of st" "callback_of (st\<lparr>rg_watchers := w\<rparr>) = callback_of st"
  by (simp_all add: callback_of_def fun_eq_iff)

lemma backed_maps [simp]:
  "backed R (st\<lparr>rg_listenerToBaseMap := m\<rparr>) = backed R st" "backed R (st\<lparr>rg_watchers := w\<rparr>) = backed R st"
  by (simp_all add: backed_def)

lemma base_maps:
  "new_base st = (st', b) \<Longrightarrow> rg_listenerToBaseMap st' = rg_listenerToBaseMap st \<and> rg_watchers st' = rg_watchers st"
  "Base_AddListener sv (Some b) rules st = (st', ret) \<Longrightarrow>
     rg_listenerToBaseMap st' = rg_listenerToBaseMap st \<and> rg_watchers st' = rg_watchers st"
  "Base_RemoveListener sv (Some b) st = (st', ret) \<Longrightarrow>
     rg_listenerToBaseMap st' = rg_listenerToBaseMap st \<and> rg_watchers st' = rg_watchers st"
  by (auto simp: new_base_def elim!: Base_AddListener_cases Base_RemoveListener_cases)

lemma map_index_cases:
  assumes "map_index l st = (st', r)"
  shows "roots st' = roots st" "backed R st' = backed R st" "rg_next st' = rg_next st" "rg_listenerToBaseMap st' l = Some r"
    "rg_watchers st' = rg_watchers st"
  using assms by (auto simp: map_index_def roots_def named_null split: option.splits)

lemma registry_okI: "backed R st \<Longrightarrow> R \<subseteq> roots st \<Longrightarrow> (\<forall>b \<in> roots st. b < rg_next st) \<Longrightarrow> registry_ok st"
  using base_manager.inv_mono by (auto simp: registry_ok_def)

lemma Manager_AddListener_ok:
  assumes "registry_ok st" "Manager_AddListener sv (Some l) rules st = (st', ret)"
  shows "registry_ok st'"
proof -
  obtain st1 r where idx: "map_index l st = (st1, r)"
    by fastforce
  note m = map_index_cases [OF idx]
  have ok1: "backed (roots st1) st1" "\<forall>b \<in> roots st1. b < rg_next st1"
    using assms(1) m by (simp_all add: registry_ok_def)
  show ?thesis
  proof (cases r)
    case (Some b)
    then have add: "Base_AddListener sv (Some b) rules st1 = (st', ret)"
      using assms(2) idx by (simp add: Manager_AddListener_def)
    have b: "b \<in> roots st1" "roots st' = roots st1"
      using m(4) Some base_maps(2) [OF add] by (auto simp: roots_def named_def)
    then show ?thesis
      using base_manager.add_law [OF ok1(1) _ add] base_manager.add_keeps [OF add] ok1(2)
      by (simp add: registry_ok_def insert_absorb)
  next
    case None
    obtain st2 b where new: "new_base st1 = (st2, b)"
      by fastforce
    let ?st3 = "st2\<lparr>rg_listenerToBaseMap := (rg_listenerToBaseMap st2)(l \<mapsto> Some b)\<rparr>"
    have add: "Base_AddListener sv (Some b) rules ?st3 = (st', ret)"
      using assms(2) idx new None by (simp add: Manager_AddListener_def)
    note f = base_manager.fresh_law [OF ok1(1) new]
    have "roots st' = insert b (roots st1)"
      using m(4) None base_maps(1) [OF new] base_maps(2) [OF add] by (simp add: roots_def named_insert)
    moreover have "backed (insert b (roots st1)) st'"
      using base_manager.add_law [of "roots st1" ?st3 b sv rules st' ret] f add by simp
    moreover have "c < rg_next st'" if "c \<in> insert b (roots st1)" for c
      using base_manager.add_keeps [OF add, of c] f base_manager.fresh_keeps [OF new, of c] ok1(2) that by auto
    ultimately show ?thesis
      by (simp add: registry_ok_def)
  qed
qed

lemma Manager_RemoveListener_ok:
  assumes "reliable sv" "registry_ok st" "Manager_RemoveListener sv (Some l) st = (st', ret)"
  shows "registry_ok st'"
proof -
  obtain st1 r where idx: "map_index l st = (st1, r)"
    by fastforce
  note m = map_index_cases [OF idx]
  have ok1: "backed (roots st1) st1" "\<forall>b \<in> roots st1. b < rg_next st1"
    using assms(2) m by (simp_all add: registry_ok_def)
  show ?thesis
  proof (cases r)
    case None
    then show ?thesis
      using assms(3) idx ok1 by (simp add: Manager_RemoveListener_def registry_ok_def)
  next
    case (Some b)
    obtain st2 ret2 where rem: "Base_RemoveListener sv (Some b) st1 = (st2, ret2)"
      by fastforce
    have st': "st' = (if ret2 = 0 then st2\<lparr>rg_listenerToBaseMap := (rg_listenerToBaseMap st2)(l := None)\<rparr> else st2)"
      using assms(3) idx Some rem by (auto simp: Manager_RemoveListener_def IPC_CALL_SUCCEED_def)
    have "roots st1 - {b} \<subseteq> roots st'" "ret2 \<noteq> 0 \<Longrightarrow> roots st' = roots st1" "roots st' \<subseteq> roots st1"
      using named_erase [of "rg_listenerToBaseMap st1" l] m(4) Some base_maps(3) [OF rem] by (auto simp: st' roots_def)
    then show ?thesis
      using base_manager.remove_law [OF assms(1) ok1(1) rem] base_manager.remove_keeps [OF rem] ok1(2)
      by (intro registry_okI [of "if ret2 = 0 then roots st1 - {b} else roots st1"]) (auto simp: st' split: if_splits)
  qed
qed

lemma HiSysEventAddWatcher_ok:
  assumes "registry_ok st" "rg_watchers st w = None" "HiSysEventAddWatcher sv w rules n st = Some (st', ret)"
  shows "registry_ok st'"
proof -
  consider (refused) "st' = st"
    | (added) st1 b st2 lr where "new_base st = (st1, b)" "Base_AddListener sv (Some b) lr st1 = (st2, ret)"
      "st' = (if ret = 0 then st2\<lparr>rg_watchers := (rg_watchers st2)(w \<mapsto> b)\<rparr> else st2)"
    using assms(3) by (auto simp: HiSysEventAddWatcher_def IPC_CALL_SUCCEED_def split: if_splits option.splits prod.splits)
  then show ?thesis
  proof cases
    case refused
    then show ?thesis
      using assms(1) by simp
  next
    case added
    have ok: "backed (roots st) st" "\<forall>b \<in> roots st. b < rg_next st"
      using assms(1) by (simp_all add: registry_ok_def)
    have "roots st' = (if ret = 0 then insert b (roots st) else roots st)"
      using base_maps(1) [OF added(1)] base_maps(2) [OF added(2)] assms(2) by (simp add: added(3) roots_def ran_map_upd)
    then show ?thesis
      using base_manager.fresh_add [OF ok(1) added(1,2)] base_manager.fresh_add_keeps [OF added(1,2)] ok(2)
      by (auto simp: registry_ok_def added(3))
  qed
qed

lemma HiSysEventRemoveWatcher_ok:
  assumes "reliable sv" "registry_ok st" "HiSysEventRemoveWatcher sv w st = (st', ret)"
  shows "registry_ok st'"
proof (cases "rg_watchers st w")
  case None
  then show ?thesis
    using assms(2,3) by (simp add: HiSysEventRemoveWatcher_def)
next
  case (Some b)
  obtain st2 ret2 where rem: "Base_RemoveListener sv (Some b) st = (st2, ret2)"
    by fastforce
  have st': "st' = (if ret2 = 0 then st2\<lparr>rg_watchers := (rg_watchers st2)(w := None)\<rparr> else st2)"
    using assms(3) Some rem by (auto simp: HiSysEventRemoveWatcher_def IPC_CALL_SUCCEED_def)
  have "roots st - {b} \<subseteq> roots st'" "ret2 \<noteq> 0 \<Longrightarrow> roots st' = roots st" "roots st' \<subseteq> roots st"
    using ran_erase [of "rg_watchers st" w] Some base_maps(3) [OF rem] by (auto simp: st' roots_def)
  then show ?thesis
    using base_manager.remove_law [OF assms(1) _ rem] base_manager.remove_keeps [OF rem] assms(2)
    by (intro registry_okI [of "if ret2 = 0 then roots st - {b} else roots st"]) (auto simp: st' registry_ok_def split: if_splits)
qed

text \<open>Calls that neither register nor unregister a listener leave the registry as it is.\<close>

definition quiet :: "'f registry \<Rightarrow> 'f registry \<Rightarrow> bool" where
  "quiet st st' \<longleftrightarrow> rg_proxy st' = rg_proxy st \<and> rg_next st' = rg_next st \<and> served (rg_log st') = served (rg_log st) \<and>
     rg_listenerToBaseMap st' = rg_listenerToBaseMap st \<and> rg_watchers st' = rg_watchers st"

lemma quiet_refl: "quiet st st"
  by (simp add: quiet_def)

lemma quiet_trans: "quiet st st1 \<Longrightarrow> quiet st1 st2 \<Longrightarrow> quiet st st2"
  by (simp add: quiet_def)

lemma quiet_ok: "registry_ok st \<Longrightarrow> quiet st st' \<Longrightarrow> registry_ok st'"
  by (simp add: registry_ok_def quiet_def backed_def roots_def callback_of_def)

fun registers :: "request \<Rightarrow> bool" where
  "registers (AddRequest rules cb) = True"
| "registers (RemoveRequest cb) = True"
| "registers _ = False"

lemma quiet_request: "\<not> registers rq \<Longrightarrow> quiet st (fst (request_server sv rq st))"
  by (cases rq) (simp_all add: quiet_def request_server_def Let_def)

lemma quiet_result: "\<not> registers rq \<Longrightarrow> quiet st (fst (request_result sv rq st))"
  using quiet_request [of rq st sv] by (cases "request_server sv rq st") (simp add: request_result_def)

lemma quiet_and_then:
  "(\<And>st. quiet st (fst (f st))) \<Longrightarrow> (\<And>st. quiet st (fst (g st))) \<Longrightarrow> quiet st (fst (and_then f g st))"
  by (simp add: and_then_def split: prod.split) (metis fst_conv quiet_trans)

lemma quiet_acl: "quiet st (fst (set_acl sv dir permission st))"
  using quiet_request [of "SetAcl dir permission" st sv]
  by (cases "request_server sv (SetAcl dir permission) st") (simp add: set_acl_def)

lemma quiet_prepare: "quiet st (fst (prepare_dir sv st))"
proof -
  have "quiet st (fst (CreateHiviewDir sv st))" for st
    by (simp add: CreateHiviewDir_def quiet_def split: prod.split)
  moreover have "quiet st (fst (SetDirPermission sv st))" for st
    unfolding SetDirPermission_def by (simp add: quiet_refl) (intro impI quiet_and_then quiet_acl)
  ultimately show ?thesis
    unfolding prepare_dir_def by (intro quiet_and_then) auto
qed

lemma quiet_calls:
  "quiet st (fst (Manager_Query sv arg rules st))" "quiet st (fst (Base_Export sv arg rules st))"
  "quiet st (fst (Base_Subscribe sv rules st))" "quiet st (fst (Base_Unsubscribe sv st))"
  "OH_HiSysEvent_Query sv carg crules n cb st = Some (st', ret) \<Longrightarrow> quiet st st'"
proof -
  have query: "quiet st (fst (Base_Query sv arg rules st))" for arg rules
    by (simp add: Base_Query_def Delegate_Query_def quiet_refl quiet_request)
  then show "quiet st (fst (Manager_Query sv arg rules st))"
    by (simp add: Manager_Query_def)
  show "quiet st (fst (Base_Export sv arg rules st))" "quiet st (fst (Base_Subscribe sv rules st))"
    using quiet_prepare [of st sv]
    by (auto simp: Base_Export_def Delegate_Export_def Base_Subscribe_def Delegate_Subscribe_def quiet_refl
        split: prod.splits bool.splits intro: quiet_trans [OF _ quiet_result])
  show "quiet st (fst (Base_Unsubscribe sv st))"
    by (simp add: Base_Unsubscribe_def Delegate_Unsubscribe_def quiet_refl quiet_request)
  show "quiet st st'" if "OH_HiSysEvent_Query sv carg crules n cb st = Some (st', ret)"
  proof -
    have "st' = st \<or> (\<exists>arg rules. Base_Query sv arg rules st = (st', ret))"
      using that by (auto simp: OH_HiSysEvent_Query_def HiSysEventQuery_def split: option.splits sum.splits if_splits prod.splits)
    then show ?thesis
      using query quiet_refl by (metis fst_conv)
  qed
qed

text \<open>
  The states that any sequence of calls of the two interfaces can lead to. With \<open>twice\<close>
  false, no watcher of the C interface is added while it is registered.
\<close>

inductive reaches :: "'f server \<Rightarrow> bool \<Rightarrow> 'f registry \<Rightarrow> bool" for sv twice where
  start: "reaches sv twice (registry_new files)"
| add: "reaches sv twice st \<Longrightarrow> Manager_AddListener sv l rules st = (st', ret) \<Longrightarrow> reaches sv twice st'"
| remove: "reaches sv twice st \<Longrightarrow> Manager_RemoveListener sv l st = (st', ret) \<Longrightarrow> reaches sv twice st'"
| watch: "reaches sv twice st \<Longrightarrow> twice \<or> (\<forall>e d. w = Some (Some e, Some d) \<longrightarrow> rg_watchers st (e, d) = None) \<Longrightarrow>
    OH_HiSysEvent_Add_Watcher sv w crules n st = Some (st', ret) \<Longrightarrow> reaches sv twice st'"
| unwatch: "reaches sv twice st \<Longrightarrow> OH_HiSysEvent_Remove_Watcher sv w st = (st', ret) \<Longrightarrow> reaches sv twice st'"
| query: "reaches sv twice st \<Longrightarrow> Manager_Query sv arg qrules st = (st', ret) \<Longrightarrow> reaches sv twice st'"
| cquery: "reaches sv twice st \<Longrightarrow> OH_HiSysEvent_Query sv carg cqrules n cb st = Some (st', ret) \<Longrightarrow> reaches sv twice st'"
| export: "reaches sv twice st \<Longrightarrow> Base_Export sv arg qrules st = (st', ret) \<Longrightarrow> reaches sv twice st'"
| subscribe: "reaches sv twice st \<Longrightarrow> Base_Subscribe sv qrules st = (st', ret) \<Longrightarrow> reaches sv twice st'"
| unsubscribe: "reaches sv twice st \<Longrightarrow> Base_Unsubscribe sv st = (st', ret) \<Longrightarrow> reaches sv twice st'"

lemma reaches_ok:
  assumes "reliable sv" "reaches sv False st"
  shows "registry_ok st"
  using assms(2)
proof induction
  case (start files)
  then show ?case
    by (simp add: registry_new_def registry_ok_def backed_def roots_def named_def)
next
  case (add st l rules st' ret)
  then show ?case
    by (cases l) (auto simp: Manager_AddListener_def [of sv None] intro: Manager_AddListener_ok)
next
  case (remove st l st' ret)
  then show ?case
    by (cases l) (auto simp: Manager_RemoveListener_def [of sv None] intro: Manager_RemoveListener_ok [OF assms(1)])
next
  case (watch st w crules n st' ret)
  then show ?case
    by (auto simp: OH_HiSysEvent_Add_Watcher_def split: option.splits prod.splits intro: HiSysEventAddWatcher_ok)
next
  case (unwatch st w st' ret)
  then show ?case
    by (auto simp: OH_HiSysEvent_Remove_Watcher_def split: option.splits prod.splits
        intro: HiSysEventRemoveWatcher_ok [OF assms(1)])
qed (use quiet_ok quiet_calls in \<open>metis fst_conv\<close>)+

text \<open>
  C23. Every registration can be taken back: after any sequence of calls of the C++ and the C
  interface, as long as the service answers removals and no watcher is added again while it
  is registered, each callback the server holds belongs to a base listener that one of the
  two maps leads to.
\<close>

theorem registrations_reachable:
  assumes "reliable sv" "reaches sv False st" "cb \<in> served (rg_log st)"
  shows "\<exists>l dg. rg_proxy st l = Some dg \<and> dg_spListenerCallBack dg = Some cb \<and>
    ((\<exists>k. rg_listenerToBaseMap st k = Some (Some l)) \<or> (\<exists>w. rg_watchers st w = Some l))"
  using reaches_ok [OF assms(1,2)] assms(3)
  by (fastforce simp: registry_ok_def backed_def roots_def named_def ran_def callback_of_def split: option.splits)

text \<open>A server that accepts everything, and one that refuses to remove listeners.\<close>

definition kind_server :: "string list server" where
  "kind_server = \<lparr>sv_present = (\<lambda>log. True), sv_reply = (\<lambda>log rq. 0), sv_result = (\<lambda>log rq. 7), sv_storage = True,
     sv_files = list_fs\<rparr>"

definition stubborn_server :: "string list server" where
  "stubborn_server = kind_server\<lparr>sv_reply := (\<lambda>log rq. case rq of RemoveRequest cb \<Rightarrow> -1 | _ \<Rightarrow> 0)\<rparr>"

lemma kind_server_reliable: "reliable kind_server"
  by (simp add: reliable_def kind_server_def IPC_CALL_SUCCEED_def)

lemmas registry_eval = Manager_AddListener_def map_index_def new_base_def Base_AddListener_def Delegate_AddListener_def
  request_server_def registry_new_def Let_def

lemma added_state:
  assumes "sv_present sv = (\<lambda>log. True)" "\<And>log rules cb. sv_reply sv log (AddRequest rules cb) = 0"
  obtains st where "Manager_AddListener sv (Some 5) [] (registry_new files) = (st, 0)"
    "rg_listenerToBaseMap st 5 = Some (Some 0)" "callback_of st 0 = Some 1" "served (rg_log st) = {1}"
  using assms that by (simp add: registry_eval callback_of_def IPC_CALL_SUCCEED_def served_def)

theorem registrations_reachable_witness:
  "\<exists>st. reaches kind_server False st \<and> (\<exists>l dg. rg_proxy st l = Some dg \<and> dg_spListenerCallBack dg = Some 1)"
proof -
  obtain st where st: "Manager_AddListener kind_server (Some 5) [] (registry_new []) = (st, 0)" "served (rg_log st) = {1}"
    by (rule added_state [of kind_server "[]"]) (simp_all add: kind_server_def)
  have "reaches kind_server False st"
    by (rule reaches.add [OF reaches.start st(1)])
  with registrations_reachable [OF kind_server_reliable this] st(2) show ?thesis
    by blast
qed

text \<open>
  A registered listener can be removed: when the addition of a listener succeeded and the
  service answers removals, the removal succeeds, the listener leaves the map, and the server
  holds what it held before without the listener's callback.
\<close>

lemma added_listener_removed:
  assumes "reliable sv" "Manager_AddListener sv (Some k) rules st = (st1, IPC_CALL_SUCCEED)"
    and "Manager_RemoveListener sv (Some k) st1 = (st2, ret)"
  shows "ret = IPC_CALL_SUCCEED \<and> rg_listenerToBaseMap st2 k = None \<and>
    (\<exists>cb \<in> served (rg_log st1). served (rg_log st2) = served (rg_log st) - {cb})"
proof -
  have "\<exists>b st0. Base_AddListener sv (Some b) rules st0 = (st1, IPC_CALL_SUCCEED) \<and> rg_log st0 = rg_log st \<and>
      rg_listenerToBaseMap st0 k = Some (Some b)"
    using assms(2) by (auto simp: Manager_AddListener_def map_index_def new_base_def split: option.splits prod.splits)
      (intro exI conjI, assumption, simp, simp)+
  then obtain b st0 where add: "Base_AddListener sv (Some b) rules st0 = (st1, IPC_CALL_SUCCEED)" "rg_log st0 = rg_log st"
    "rg_listenerToBaseMap st0 k = Some (Some b)"
    by blast
  have map: "rg_listenerToBaseMap st1 k = Some (Some b)"
    using base_maps(2) [OF add(1)] add(3) by simp
  from add(1) obtain cb where cb: "callback_of st1 b = Some cb" "served (rg_log st1) = insert cb (served (rg_log st))"
  proof (cases rule: Base_AddListener_cases)
    case (absent dg)
    then show ?thesis
      by (simp add: code_defs)
  next
    case (asked c n cbs)
    then show ?thesis
      using that [of c] add(2) by (simp add: callback_of_def)
  qed
  obtain st3 ret3 where rem: "Base_RemoveListener sv (Some b) st1 = (st3, ret3)"
    by fastforce
  then have "ret3 = IPC_CALL_SUCCEED \<and> served (rg_log st3) = served (rg_log st) - {cb}"
  proof (cases rule: Base_RemoveListener_cases)
    case (asked c)
    then show ?thesis
      using assms(1) cb by (auto simp: reliable_def)
  qed (use assms(1) cb(1) in \<open>auto simp: reliable_def\<close>)
  then show ?thesis
    using assms(3) map rem cb(2) by (auto simp: Manager_RemoveListener_def map_index_def)
qed

lemma added_listener_removed_example:
  "\<exists>st1 st2. Manager_AddListener kind_server (Some 5) [] (registry_new []) = (st1, 0) \<and>
    Manager_RemoveListener kind_server (Some 5) st1 = (st2, 0) \<and> served (rg_log st1) = {1} \<and> served (rg_log st2) = {}"
proof -
  obtain st1 where st1: "Manager_AddListener kind_server (Some 5) [] (registry_new []) = (st1, 0)" "served (rg_log st1) = {1}"
    by (rule added_state [of kind_server "[]"]) (simp_all add: kind_server_def)
  obtain st2 ret where st2: "Manager_RemoveListener kind_server (Some 5) st1 = (st2, ret)"
    by fastforce
  have "Manager_AddListener kind_server (Some 5) [] (registry_new []) = (st1, IPC_CALL_SUCCEED)"
    using st1(1) by (simp add: IPC_CALL_SUCCEED_def)
  from added_listener_removed [OF kind_server_reliable this st2] st1 st2 show ?thesis
    by (auto simp: IPC_CALL_SUCCEED_def registry_new_def)
qed

text \<open>
  A failed removal is final: the server goes on holding the callback, but the delegate
  that knew it is gone, so that every further attempt, whatever the server would answer,
  reports that the listener does not exist and sends no request.
\<close>

lemma failed_removal_is_final:
  assumes "rg_listenerToBaseMap st k = Some (Some b)" "callback_of st b = Some cb" "cb \<in> served (rg_log st)"
    and "Manager_RemoveListener sv (Some k) st = (st', ret)" "ret \<noteq> IPC_CALL_SUCCEED"
  shows "cb \<in> served (rg_log st') \<and> callback_of st' b = None \<and>
    Manager_RemoveListener sv' (Some k) st' = (st', ERR_LISTENER_NOT_EXIST)"
proof -
  have rem: "Base_RemoveListener sv (Some b) st = (st', ret)"
    using assms(1,4,5) by (auto simp: Manager_RemoveListener_def map_index_def split: prod.splits if_splits)
  then have "cb \<in> served (rg_log st') \<and> rg_proxy st' b = None"
    by (cases rule: Base_RemoveListener_cases) (use assms(2,3,5) in auto)
  moreover have "rg_listenerToBaseMap st' k = Some (Some b)"
    using base_maps(3) [OF rem] assms(1) by simp
  ultimately show ?thesis
    by (simp add: callback_of_def Manager_RemoveListener_def map_index_def Base_RemoveListener_def code_defs)
qed

lemma failed_removal_is_final_example:
  "\<exists>st st'. fst (Manager_RemoveListener stubborn_server (Some 5) st) = st' \<and> 1 \<in> served (rg_log st') \<and>
    Manager_RemoveListener kind_server (Some 5) st' = (st', ERR_LISTENER_NOT_EXIST)"
proof -
  obtain st :: "string list registry" where st: "rg_listenerToBaseMap st 5 = Some (Some 0)" "callback_of st 0 = Some 1" "served (rg_log st) = {1}"
    by (rule added_state [of stubborn_server "[]"]) (simp_all add: stubborn_server_def kind_server_def)
  obtain st' ret where rem: "Manager_RemoveListener stubborn_server (Some 5) st = (st', ret)"
    by fastforce
  have "ret \<noteq> IPC_CALL_SUCCEED"
    using st(1,2) rem
    by (auto simp: Manager_RemoveListener_def map_index_def Base_RemoveListener_def Delegate_RemoveListener_def callback_of_def
        request_server_def Let_def stubborn_server_def kind_server_def code_defs split: option.splits)
  moreover have "1 \<in> served (rg_log st)"
    by (simp add: st(3))
  ultimately have "1 \<in> served (rg_log st') \<and> callback_of st' 0 = None \<and>
      Manager_RemoveListener kind_server (Some 5) st' = (st', ERR_LISTENER_NOT_EXIST)"
    using failed_removal_is_final [OF st(1,2) _ rem] by blast
  moreover have "fst (Manager_RemoveListener stubborn_server (Some 5) st) = st'"
    by (simp add: rem)
  ultimately show ?thesis
    by blast
qed

text \<open>
  Adding the same watcher of the C interface twice replaces its entry: the first callback
  stays with the server, and no entry leads to it any more.
\<close>

lemma watcher_added_twice:
  "case HiSysEventAddWatcher kind_server (1, 2) None 0 (registry_new []) of
     Some (st, _) \<Rightarrow> (case HiSysEventAddWatcher kind_server (1, 2) None 0 st of
       Some (st', _) \<Rightarrow> served (rg_log st') = {3, 1} \<and> \<not> (\<exists>l \<in> roots st'. callback_of st' l = Some 1) | None \<Rightarrow> False)
   | None \<Rightarrow> False"
  by (simp add: HiSysEventAddWatcher_def MAX_WATCH_RULE_CNT_def registry_eval kind_server_def IPC_CALL_SUCCEED_def
      callback_of_def roots_def named_def ran_def served_def numeral_3_eq_3)

section \<open>Queries of the C interface\<close>

text \<open>The rule the server gets for a rule of the C interface.\<close>

definition sent_rule :: "query_rule_c \<Rightarrow> sys_event_query_rule" where
  "sent_rule r = \<lparr>qr_domain = qc_domain r, qr_eventList = take (qc_eventListSize r) (qc_eventList r), qr_ruleType = WHOLE_WORD,
     qr_eventType = 0, qr_condition = (case qc_condition r of None \<Rightarrow> '''' | Some c \<Rightarrow> c)\<rparr>"

definition rule_usable :: "query_rule_c \<Rightarrow> bool" where
  "rule_usable r \<longleftrightarrow> qc_domain r \<noteq> [] \<and> 0 < qc_eventListSize r \<and> qc_eventListSize r \<le> length (qc_eventList r)"

lemma query_rules_loop_usable:
  "n \<le> length rs \<Longrightarrow> list_all rule_usable (take n rs) \<Longrightarrow>
   \<exists>qs. query_rules_loop rs n acc = Some (Inr (acc @ qs)) \<and> ConvertQueryRule qs = map sent_rule (take n rs)"
proof (induction rs n acc rule: query_rules_loop.induct)
  case (3 r rules n acc)
  let ?q = "QueryRule_new (qc_domain r) (take (qc_eventListSize r) (qc_eventList r)) WHOLE_WORD 0
           (case qc_condition r of None \<Rightarrow> '''' | Some c \<Rightarrow> c)"
  from 3 obtain qs where "query_rules_loop rules n (acc @ [?q]) = Some (Inr ((acc @ [?q]) @ qs))"
    "ConvertQueryRule qs = map sent_rule (take n rules)"
    by (auto simp: rule_usable_def)
  then show ?case
    using 3(3) by (intro exI [of _ "?q # qs"])
      (simp add: rule_usable_def ConvertQueryRule_def QueryRule_new_def sent_rule_def)
qed (simp_all add: ConvertQueryRule_def)

text \<open>
  C24. A query of the C interface with usable rules reaches the server as one request: the
  rules in order, each for whole words and any event type, and the bounds with a negative
  begin read as zero and a negative end or count as the largest number. The caller gets the
  server's answer.
\<close>

theorem c_query_sent:
  assumes "sv_present sv (rg_log st)" "n \<le> MAX_QUERY_RULE_CNT" "n \<le> length rs" "list_all rule_usable (take n rs)"
  shows "OH_HiSysEvent_Query sv (Some (b, e, m)) (Some rs) n (Some (Some onQuery, Some onComplete)) st =
    (let rq = QueryRequest \<lparr>qa_beginTime = (if b <s 0 then 0 else b), qa_endTime = (if e <s 0 then 0x7FFFFFFFFFFFFFFF else e),
           qa_maxEvents = (if m <s 0 then 0x7FFFFFFF else m), qa_fromSeq = -1, qa_toSeq = -1\<rparr> (map sent_rule (take n rs));
         ret = sv_reply sv (rg_log st) rq in
     Some (st\<lparr>rg_log := rg_log st @ [(rq, ret)]\<rparr>, ret))"
proof -
  from query_rules_loop_usable [OF assms(3,4), of "[]"] obtain qs where
    "query_rules_loop rs n [] = Some (Inr qs)" "ConvertQueryRule qs = map sent_rule (take n rs)"
    by auto
  then show ?thesis
    using assms(1,2) by (simp add: OH_HiSysEvent_Query_def HiSysEventQuery_def Base_Query_def Delegate_Query_def QueryArg_new_def
        request_server_def Let_def)
qed

theorem c_query_sent_witness:
  "\<exists>st'. OH_HiSysEvent_Query kind_server (Some (-1, 5, 10)) (Some [\<lparr>qc_domain = ''D'', qc_eventList = [''E''],
      qc_eventListSize = 1, qc_condition = None\<rparr>]) 1 (Some (Some 1, Some 2)) (registry_new []) = Some (st', 0)"
proof -
  let ?r = "\<lparr>qc_domain = ''D'', qc_eventList = [''E''], qc_eventListSize = 1, qc_condition = None\<rparr>"
  have "sv_present kind_server (rg_log (registry_new []))" "1 \<le> MAX_QUERY_RULE_CNT" "1 \<le> length [?r]"
    "list_all rule_usable (take 1 [?r])"
    by (simp_all add: kind_server_def MAX_QUERY_RULE_CNT_def rule_usable_def)
  from c_query_sent [OF this, of "-1" 5 10 1 2] show ?thesis
    by (simp add: Let_def kind_server_def)
qed

text \<open>
  The number of events of a rule is not compared with the ten arrays the structure has: with
  eleven the loop reads behind them.
\<close>

lemma event_list_overread:
  assumes "sv_present sv (rg_log st)" "length es = MAX_NUMBER_OF_EVENT_LIST"
  shows "OH_HiSysEvent_Query sv (Some arg) (Some [\<lparr>qc_domain = ''D'', qc_eventList = es, qc_eventListSize = 11,
    qc_condition = None\<rparr>]) 1 (Some (Some q, Some c)) st = None"
  using assms by (cases arg) (simp add: OH_HiSysEvent_Query_def HiSysEventQuery_def MAX_NUMBER_OF_EVENT_LIST_def
      MAX_QUERY_RULE_CNT_def numeral_eq_Suc)

end
