(* ===== verification/JsonFlatten.thy ===== *)
theory JsonFlatten
  imports Prelude
begin

text \<open>
  The flat JSON scanner of frameworks/native/json_flatten_parser.cpp, with which the
  command line tool splits the text of an event into keys and values to print them in
  colour. The scanner keeps a position in the text; an access to the text is an operation
  that can fail, so that \<open>None\<close> as the result of a function is an access behind the
  terminating NUL character. The theory shows that this never happens, and that scanning
  inverts printing for every flat object of numbers, strings and bracketed values.
\<close>

section \<open>Character classes\<close>

definition NUMBER_FLAG :: nat where "NUMBER_FLAG = 1"
definition STRING_FLAG :: nat where "STRING_FLAG = 2"
definition BRACKET_FLAG :: nat where "BRACKET_FLAG = 3"

text \<open>The table \<^verbatim>\<open>charFilter\<close> after \<^verbatim>\<open>Initialize\<close>; every other entry is zero.\<close>

definition charFilter :: "char \<Rightarrow> nat" where
  "charFilter c =
     (if c \<in> set ''0123456789-+.'' then NUMBER_FLAG
      else if c = CHR ''\"'' then STRING_FLAG
      else if c = CHR ''{'' \<or> c = CHR ''['' then BRACKET_FLAG
      else 0)"

lemmas flag_defs = NUMBER_FLAG_def STRING_FLAG_def BRACKET_FLAG_def

lemma charFilter_cases:
  "charFilter c = STRING_FLAG \<longleftrightarrow> c = CHR ''\"''"
  "charFilter c = NUMBER_FLAG \<longleftrightarrow> c \<in> set ''0123456789-+.''"
  "charFilter c = BRACKET_FLAG \<longleftrightarrow> c = CHR ''{'' \<or> c = CHR ''[''"
  by (auto simp: charFilter_def flag_defs)

section \<open>The scanner\<close>

text \<open>
  \<^verbatim>\<open>json[pos]\<close>: the NUL character at the end of the text, and undefined behaviour behind
  it.
\<close>

definition json_at :: "string \<Rightarrow> nat \<Rightarrow> char option" where
  "json_at json pos =
     (if pos < length json then Some (json ! pos) else if pos = length json then Some (CHR 0x00) else None)"

text \<open>
  \<open>push_next\<close> is \<^verbatim>\<open>txt.push_back(json[curPos++])\<close>. Every function below takes the position
  and returns the new position and the text it collected.
\<close>

definition push_next :: "string \<Rightarrow> nat \<times> string \<Rightarrow> (nat \<times> string) option" where
  "push_next json s = (case s of (curPos, txt) \<Rightarrow>
     case json_at json curPos of None \<Rightarrow> None | Some c \<Rightarrow> Some (curPos + 1, txt @ [c]))"

function ParseKey_loop :: "string \<Rightarrow> nat \<Rightarrow> string \<Rightarrow> nat \<times> string" where
  "ParseKey_loop json curPos key =
     (if curPos < length json then
        (if charFilter (json ! curPos) = STRING_FLAG then (curPos, key)
         else ParseKey_loop json (curPos + 1) (key @ [json ! curPos]))
      else (curPos, key))"
  by pat_completeness auto
termination
  by (relation "measure (\<lambda>(json, curPos, key). length json - curPos)") auto

definition ParseKey :: "string \<Rightarrow> nat \<Rightarrow> nat \<times> string" where
  "ParseKey json curPos =
     (case ParseKey_loop json (curPos + 1) [] of (curPos, key) \<Rightarrow> (curPos + 1, key))"

function ParseNumer_loop :: "string \<Rightarrow> nat \<Rightarrow> string \<Rightarrow> nat \<times> string" where
  "ParseNumer_loop json curPos number =
     (if curPos < length json then
        (if charFilter (json ! curPos) \<noteq> NUMBER_FLAG then (curPos, number)
         else ParseNumer_loop json (curPos + 1) (number @ [json ! curPos]))
      else (curPos, number))"
  by pat_completeness auto
termination
  by (relation "measure (\<lambda>(json, curPos, number). length json - curPos)") auto

definition ParseNumer :: "string \<Rightarrow> nat \<Rightarrow> nat \<times> string" where
  "ParseNumer json curPos = ParseNumer_loop json curPos []"

function ParseString_loop :: "string \<Rightarrow> nat \<Rightarrow> string \<Rightarrow> nat \<times> string" where
  "ParseString_loop json curPos txt =
     (if curPos < length json then
        (if charFilter (json ! curPos) = STRING_FLAG \<and> json ! (curPos - 1) \<noteq> CHR 0x5C then (curPos, txt)
         else ParseString_loop json (curPos + 1) (txt @ [json ! curPos]))
      else (curPos, txt))"
  by pat_completeness auto
termination
  by (relation "measure (\<lambda>(json, curPos, txt). length json - curPos)") auto

definition ParseString :: "string \<Rightarrow> nat \<Rightarrow> (nat \<times> string) option" where
  "ParseString json curPos =
     (case push_next json (curPos, []) of
        None \<Rightarrow> None
      | Some (curPos, txt) \<Rightarrow> push_next json (ParseString_loop json curPos txt))"

function ParseBrackets_loop :: "string \<Rightarrow> char \<Rightarrow> char \<Rightarrow> nat \<Rightarrow> nat \<Rightarrow> string \<Rightarrow> nat \<times> string" where
  "ParseBrackets_loop json leftBracket rightBracket counter curPos val =
     (if curPos < length json then
        (if json ! curPos = leftBracket then
           ParseBrackets_loop json leftBracket rightBracket (counter + 1) (curPos + 1) (val @ [json ! curPos])
         else if json ! curPos = rightBracket then
           (if counter - 1 = 0 then (curPos, val)
            else ParseBrackets_loop json leftBracket rightBracket (counter - 1) (curPos + 1) (val @ [json ! curPos]))
         else ParseBrackets_loop json leftBracket rightBracket counter (curPos + 1) (val @ [json ! curPos]))
      else (curPos, val))"
  by pat_completeness auto
termination
  by (relation "measure (\<lambda>(json, l, r, counter, curPos, val). length json - curPos)") auto

text \<open>\<^verbatim>\<open>leftBracket + 2\<close> in the character set.\<close>

definition right_of :: "char \<Rightarrow> char" where
  "right_of leftBracket = char_of ((of_char leftBracket :: nat) + 2)"

lemma right_of_brackets [simp]: "right_of (CHR ''{'') = CHR ''}''" "right_of (CHR ''['') = CHR '']''"
  by code_simp+

definition ParseBrackets :: "string \<Rightarrow> char \<Rightarrow> nat \<Rightarrow> (nat \<times> string) option" where
  "ParseBrackets json leftBracket curPos =
     (case push_next json (curPos, []) of
        None \<Rightarrow> None
      | Some (curPos, val) \<Rightarrow>
          push_next json (ParseBrackets_loop json leftBracket (right_of leftBracket) 1 curPos val))"

function ParseValue :: "string \<Rightarrow> nat \<Rightarrow> (nat \<times> string) option" where
  "ParseValue json curPos =
     (if curPos < length json then
        (if charFilter (json ! curPos) = BRACKET_FLAG then ParseBrackets json (json ! curPos) curPos
         else if charFilter (json ! curPos) = NUMBER_FLAG then Some (ParseNumer json curPos)
         else if charFilter (json ! curPos) = STRING_FLAG then ParseString json curPos
         else ParseValue json (curPos + 1))
      else Some (curPos, []))"
  by pat_completeness auto
termination
  by (relation "measure (\<lambda>(json, curPos). length json - curPos)") auto

declare ParseKey_loop.simps [simp del] ParseNumer_loop.simps [simp del] ParseString_loop.simps [simp del]
  ParseBrackets_loop.simps [simp del] ParseValue.simps [simp del]

text \<open>Every loop moves forward and stops at the end of the text at the latest.\<close>

lemma loop_bounds:
  "pos \<le> fst (ParseKey_loop json pos acc)"
  "pos \<le> length json \<Longrightarrow> fst (ParseKey_loop json pos acc) \<le> length json"
  "pos \<le> fst (ParseNumer_loop json pos acc)"
  "pos \<le> length json \<Longrightarrow> fst (ParseNumer_loop json pos acc) \<le> length json"
  "pos \<le> fst (ParseString_loop json pos acc)"
  "pos \<le> length json \<Longrightarrow> fst (ParseString_loop json pos acc) \<le> length json"
  "pos \<le> fst (ParseBrackets_loop json l r n pos acc)"
  "pos \<le> length json \<Longrightarrow> fst (ParseBrackets_loop json l r n pos acc) \<le> length json"
proof -
  show "pos \<le> fst (ParseKey_loop json pos acc)"
    by (induction json pos acc rule: ParseKey_loop.induct) (subst ParseKey_loop.simps, force)
  show "pos \<le> length json \<Longrightarrow> fst (ParseKey_loop json pos acc) \<le> length json"
    by (induction json pos acc rule: ParseKey_loop.induct) (subst ParseKey_loop.simps, force)
  show "pos \<le> fst (ParseNumer_loop json pos acc)"
    by (induction json pos acc rule: ParseNumer_loop.induct) (subst ParseNumer_loop.simps, force)
  show "pos \<le> length json \<Longrightarrow> fst (ParseNumer_loop json pos acc) \<le> length json"
    by (induction json pos acc rule: ParseNumer_loop.induct) (subst ParseNumer_loop.simps, force)
  show "pos \<le> fst (ParseString_loop json pos acc)"
    by (induction json pos acc rule: ParseString_loop.induct) (subst ParseString_loop.simps, force)
  show "pos \<le> length json \<Longrightarrow> fst (ParseString_loop json pos acc) \<le> length json"
    by (induction json pos acc rule: ParseString_loop.induct) (subst ParseString_loop.simps, force)
  show "pos \<le> fst (ParseBrackets_loop json l r n pos acc)"
    by (induction json l r n pos acc rule: ParseBrackets_loop.induct) (subst ParseBrackets_loop.simps, force)
  show "pos \<le> length json \<Longrightarrow> fst (ParseBrackets_loop json l r n pos acc) \<le> length json"
    by (induction json l r n pos acc rule: ParseBrackets_loop.induct) (subst ParseBrackets_loop.simps, force)
qed

lemma push_next_at: "pos \<le> length json \<Longrightarrow> \<exists>c. push_next json (pos, txt) = Some (pos + 1, txt @ [c])"
  by (auto simp: push_next_def json_at_def)

text \<open>Pushing, looping and pushing again stays within the text.\<close>

lemma push_loop_push:
  assumes "pos < length json"
    and "\<And>p acc. p \<le> length json \<Longrightarrow> fst (loop p acc) \<le> length json" "\<And>p acc. p \<le> fst (loop p acc)"
  shows "\<exists>pos' v. (case push_next json (pos, []) of None \<Rightarrow> None
      | Some (p, txt) \<Rightarrow> push_next json (loop p txt)) = Some (pos', v) \<and> pos < pos' \<and> pos' \<le> length json + 1"
proof -
  obtain c where c: "push_next json (pos, []) = Some (pos + 1, [c])"
    using push_next_at [of pos json "[]"] assms(1) by auto
  obtain p t where l: "loop (pos + 1) [c] = (p, t)"
    by fastforce
  have p: "p \<le> length json" "pos + 1 \<le> p"
    using assms(2) [of "pos + 1" "[c]"] assms(3) [of "pos + 1" "[c]"] assms(1) l by auto
  then obtain d where "push_next json (p, t) = Some (p + 1, t @ [d])"
    using push_next_at by blast
  with c l p show ?thesis
    by auto
qed

lemma ParseString_bounds:
  "pos < length json \<Longrightarrow> \<exists>pos' v. ParseString json pos = Some (pos', v) \<and> pos < pos' \<and> pos' \<le> length json + 1"
  unfolding ParseString_def by (rule push_loop_push) (auto intro: loop_bounds)

lemma ParseBrackets_bounds:
  "pos < length json \<Longrightarrow> \<exists>pos' v. ParseBrackets json b pos = Some (pos', v) \<and> pos < pos' \<and> pos' \<le> length json + 1"
  unfolding ParseBrackets_def by (rule push_loop_push) (auto intro: loop_bounds)

lemma ParseKey_bounds: "pos < fst (ParseKey json pos)" "pos < length json \<Longrightarrow> fst (ParseKey json pos) \<le> length json + 1"
  using loop_bounds(1) [of "pos + 1" json "[]"] loop_bounds(2) [of "pos + 1" json "[]"]
  by (auto simp: ParseKey_def split: prod.splits)

lemma ParseValue_bounds:
  "pos \<le> length json + 1 \<Longrightarrow>
   \<exists>pos' v. ParseValue json pos = Some (pos', v) \<and> pos \<le> pos' \<and> pos' \<le> length json + 1"
proof (induction json pos rule: ParseValue.induct)
  case (1 json pos)
  show ?case
  proof (cases "pos < length json")
    case False
    with 1 show ?thesis
      by (subst ParseValue.simps) simp
  next
    case lt: True
    obtain p v where n: "ParseNumer json pos = (p, v)"
      by fastforce
    then have "pos \<le> p" "p \<le> length json"
      using loop_bounds(3,4) [of pos json "[]"] lt by (auto simp: ParseNumer_def)
    with n lt 1 ParseString_bounds [OF lt] ParseBrackets_bounds [OF lt, of "json ! pos"] show ?thesis
      by (subst ParseValue.simps) (auto simp: flag_defs)
  qed
qed

function Parse_loop :: "string \<Rightarrow> nat \<Rightarrow> (string \<times> string) list \<Rightarrow> (string \<times> string) list option" where
  "Parse_loop json curPos kvList =
     (if curPos < length json then
        (if charFilter (json ! curPos) \<noteq> STRING_FLAG then Parse_loop json (curPos + 1) kvList
         else case ParseKey json curPos of (keyPos, key) \<Rightarrow>
           (case ParseValue json keyPos of
              None \<Rightarrow> None
            | Some (valPos, val) \<Rightarrow> Parse_loop json valPos (kvList @ [(key, val)])))
      else Some kvList)"
  by pat_completeness auto
termination
proof (relation "measure (\<lambda>(json, curPos, kvList). length json - curPos)", goal_cases)
  case (3 json curPos kvList keyPos key r valPos val)
  then have "ParseKey json curPos = (keyPos, key)"
    by simp
  with 3 have "curPos < keyPos" "keyPos \<le> length json + 1"
    using ParseKey_bounds [of curPos json] by auto
  with 3 show ?case
    using ParseValue_bounds [of keyPos json] by auto
qed auto

declare Parse_loop.simps [simp del]

definition Parse :: "string \<Rightarrow> (string \<times> string) list option" where
  "Parse json = Parse_loop json 0 []"

text \<open>\<^verbatim>\<open>Print\<close> with the handler that formats one pair.\<close>

definition Print :: "(string \<times> string \<Rightarrow> string) \<Rightarrow> (string \<times> string) list \<Rightarrow> string" where
  "Print handler kvList =
     ''{'' @ (if kvList \<noteq> []
              then concat (map (\<lambda>kv. handler kv @ '','') (butlast kvList)) @ handler (last kvList)
              else []) @ ''}''"

lemma Parse_loop_defined: "Parse_loop json pos kvs \<noteq> None"
proof (induction json pos kvs rule: Parse_loop.induct)
  case (1 json pos kvs)
  show ?case
  proof (cases "pos < length json \<and> charFilter (json ! pos) = STRING_FLAG")
    case True
    obtain kp k where k: "ParseKey json pos = (kp, k)"
      by fastforce
    with True have "kp \<le> length json + 1"
      using ParseKey_bounds(2) [of pos json] by auto
    then obtain vp v where "ParseValue json kp = Some (vp, v)"
      using ParseValue_bounds by blast
    with 1 True k show ?thesis
      by (subst Parse_loop.simps) simp
  next
    case False
    with 1 show ?thesis
      by (subst Parse_loop.simps) auto
  qed
qed

text \<open>
  C20. The scanner is memory safe and total: on every text, well formed or not, parsing
  ends and never reads behind the terminating NUL character.
\<close>

theorem Parse_total: "\<exists>kvs. Parse json = Some kvs"
  using Parse_loop_defined [of json 0 "[]"] by (auto simp: Parse_def)

section \<open>Scanning what was printed\<close>

text \<open>
  The bodies that the scanner reads as one value: in a string every inner quotation mark
  follows a backslash and the last character is none; in a bracketed value the brackets of
  its own kind balance.
\<close>

fun str_ok :: "char \<Rightarrow> string \<Rightarrow> bool" where
  "str_ok p [] = (p \<noteq> CHR 0x5C)"
| "str_ok p (c # cs) = ((c = CHR ''\"'' \<longrightarrow> p = CHR 0x5C) \<and> str_ok c cs)"

fun brk_ok :: "char \<Rightarrow> char \<Rightarrow> nat \<Rightarrow> string \<Rightarrow> bool" where
  "brk_ok l r n [] = (n = 1)"
| "brk_ok l r n (c # cs) =
     (if c = l then brk_ok l r (n + 1) cs
      else if c = r then n \<noteq> 1 \<and> brk_ok l r (n - 1) cs
      else brk_ok l r n cs)"

definition is_number_char :: "char \<Rightarrow> bool" where
  "is_number_char c \<longleftrightarrow> charFilter c = NUMBER_FLAG"

fun value_ok :: "string \<Rightarrow> bool" where
  "value_ok [] = False"
| "value_ok (c # cs) =
     (if charFilter c = NUMBER_FLAG then list_all is_number_char cs
      else if charFilter c = STRING_FLAG then
        cs \<noteq> [] \<and> last cs = CHR ''\"'' \<and> str_ok (CHR ''\"'') (butlast cs)
      else if charFilter c = BRACKET_FLAG then
        cs \<noteq> [] \<and> last cs = right_of c \<and> brk_ok c (right_of c) 1 (butlast cs)
      else False)"

definition kv_ok :: "string \<times> string \<Rightarrow> bool" where
  "kv_ok kv \<longleftrightarrow> CHR ''\"'' \<notin> set (fst kv) \<and> value_ok (snd kv)"

definition print_kv :: "string \<times> string \<Rightarrow> string" where
  "print_kv kv = CHR ''\"'' # fst kv @ CHR ''\"'' # CHR '':'' # snd kv"

lemma nth_pre [simp]: "(pre @ c # rest) ! length pre = c"
  by (simp add: nth_append)

lemma ParseKey_loop_scan:
  "CHR ''\"'' \<notin> set w \<Longrightarrow>
   ParseKey_loop (pre @ w @ CHR ''\"'' # rest) (length pre) acc = (length pre + length w, acc @ w)"
proof (induction w arbitrary: pre acc)
  case Nil
  then show ?case
    by (subst ParseKey_loop.simps) (simp add: charFilter_cases)
next
  case (Cons c w)
  then show ?case
    using Cons.IH [of "pre @ [c]" "acc @ [c]"]
    by (subst ParseKey_loop.simps) (auto simp: charFilter_cases)
qed

lemma ParseNumer_loop_scan:
  "list_all is_number_char w \<Longrightarrow> \<not> is_number_char d \<Longrightarrow>
   ParseNumer_loop (pre @ w @ d # rest) (length pre) acc = (length pre + length w, acc @ w)"
proof (induction w arbitrary: pre acc)
  case Nil
  then show ?case
    by (subst ParseNumer_loop.simps) (simp add: is_number_char_def)
next
  case (Cons c w)
  then show ?case
    using Cons.IH [of "pre @ [c]" "acc @ [c]"]
    by (subst ParseNumer_loop.simps) (simp add: is_number_char_def)
qed

lemma ParseString_loop_scan:
  "str_ok p w \<Longrightarrow>
   ParseString_loop (pre @ p # w @ CHR ''\"'' # rest) (length pre + 1) acc = (length pre + 1 + length w, acc @ w)"
proof (induction w arbitrary: pre p acc)
  case Nil
  then show ?case
    using nth_pre [of "pre @ [p]" "CHR ''\"''" rest]
    by (subst ParseString_loop.simps) (simp add: charFilter_cases)
next
  case (Cons c w)
  then show ?case
    using Cons.IH [of c "pre @ [p]" "acc @ [c]"] nth_pre [of "pre @ [p]" c "w @ CHR ''\"'' # rest"]
    by (subst ParseString_loop.simps) (auto simp: charFilter_cases)
qed

lemma ParseBrackets_loop_scan:
  "brk_ok l r n w \<Longrightarrow> l \<noteq> r \<Longrightarrow> 0 < n \<Longrightarrow>
   ParseBrackets_loop (pre @ w @ r # rest) l r n (length pre) acc = (length pre + length w, acc @ w)"
proof (induction w arbitrary: pre acc n)
  case Nil
  then show ?case
    by (subst ParseBrackets_loop.simps) simp
next
  case (Cons c w)
  have step: "\<And>m. brk_ok l r m w \<Longrightarrow> 0 < m \<Longrightarrow>
      ParseBrackets_loop (pre @ c # w @ r # rest) l r m (Suc (length pre)) (acc @ [c]) =
        (Suc (length pre + length w), acc @ c # w)"
    using Cons.IH [of _ "pre @ [c]" "acc @ [c]"] Cons.prems by simp
  consider (left) "c = l" | (right) "c = r" "c \<noteq> l" | (other) "c \<noteq> l" "c \<noteq> r"
    by blast
  then show ?case
  proof cases
    case left
    with Cons.prems step [of "n + 1"] show ?thesis
      by (subst ParseBrackets_loop.simps) simp
  next
    case right
    with Cons.prems step [of "n - 1"] show ?thesis
      by (subst ParseBrackets_loop.simps) simp
  next
    case other
    with Cons.prems step [of n] show ?thesis
      by (subst ParseBrackets_loop.simps) simp
  qed
qed

lemma push_next_pre [simp]: "push_next (pre @ c # rest) (length pre, acc) = Some (length pre + 1, acc @ [c])"
  by (simp add: push_next_def json_at_def)

lemma push_next_mid:
  "pos = length pre + length w \<Longrightarrow> push_next (pre @ w @ c # rest) (pos, acc) = Some (pos + 1, acc @ [c])"
  using push_next_pre [of "pre @ w" c rest acc] by simp

lemma ParseValue_scan:
  assumes "value_ok v" "\<not> is_number_char d"
  shows "ParseValue (pre @ v @ d # rest) (length pre) = Some (length pre + length v, v)"
proof (cases v)
  case (Cons c cs)
  consider (num) "charFilter c = NUMBER_FLAG" | (str) "charFilter c = STRING_FLAG" | (brk) "charFilter c = BRACKET_FLAG"
    using assms Cons by (auto split: if_splits)
  then show ?thesis
  proof cases
    case num
    then have "list_all is_number_char v"
      using assms Cons by (simp add: is_number_char_def)
    then show ?thesis
      using num Cons ParseNumer_loop_scan [of v d pre rest "[]"] assms(2)
      by (subst ParseValue.simps) (simp add: flag_defs ParseNumer_def)
  next
    case str
    then obtain b where b: "cs = b @ [CHR ''\"'']" "str_ok (CHR ''\"'') b"
      using assms(1) Cons str append_butlast_last_id [of cs] that [of "butlast cs"] by (auto simp: flag_defs)
    have c: "c = CHR ''\"''"
      using str by (simp add: charFilter_cases)
    have "push_next (pre @ (c # b) @ CHR ''\"'' # d # rest) (length pre + length (c # b), c # b) =
        Some (length pre + length v, v)"
      by (subst push_next_mid) (simp_all add: b Cons c)
    then show ?thesis
      using str b c Cons ParseString_loop_scan [of c b pre "d # rest" "[c]"]
      by (subst ParseValue.simps) (simp add: flag_defs ParseString_def)
  next
    case brk
    then obtain b where b: "cs = b @ [right_of c]" "brk_ok c (right_of c) 1 b"
      using assms(1) Cons brk append_butlast_last_id [of cs] that [of "butlast cs"] by (auto simp: flag_defs)
    have "c \<noteq> right_of c"
      using brk by (auto simp: charFilter_cases)
    moreover have "push_next (pre @ (c # b) @ right_of c # d # rest) (length pre + length (c # b), c # b) =
        Some (length pre + length v, v)"
      by (subst push_next_mid) (simp_all add: b Cons)
    ultimately show ?thesis
      using brk b Cons ParseBrackets_loop_scan [of c "right_of c" 1 b "pre @ [c]" "d # rest" "[c]"]
      by (subst ParseValue.simps) (simp add: flag_defs ParseBrackets_def)
  qed
qed (use assms in simp)

text \<open>The text behind the first brace, as a recursion on the pairs.\<close>

fun items :: "(string \<times> string) list \<Rightarrow> string" where
  "items [] = ''}''"
| "items [kv] = print_kv kv @ ''}''"
| "items (kv # kvs) = print_kv kv @ CHR '','' # items kvs"

lemma Print_items: "Print print_kv kvs = CHR ''{'' # items kvs"
  by (induction kvs rule: items.induct) (auto simp: Print_def)

lemma Parse_loop_skip:
  "c \<noteq> CHR ''\"'' \<Longrightarrow> Parse_loop (pre @ c # rest) (length pre) acc = Parse_loop (pre @ c # rest) (length pre + 1) acc"
  by (subst Parse_loop.simps) (simp add: charFilter_cases)

lemma Parse_loop_end: "Parse_loop json (length json) acc = Some acc"
  by (subst Parse_loop.simps) simp

lemma ParseValue_colon: "ParseValue (pre @ CHR '':'' # rest) (length pre) = ParseValue (pre @ CHR '':'' # rest) (length pre + 1)"
  by (subst ParseValue.simps) (simp add: charFilter_def flag_defs)

lemma Parse_loop_kv:
  assumes "kv_ok kv" "\<not> is_number_char d"
  shows "Parse_loop (pre @ print_kv kv @ d # rest) (length pre) acc =
    Parse_loop (pre @ print_kv kv @ d # rest) (length pre + length (print_kv kv)) (acc @ [kv])"
proof -
  obtain k v where kv: "kv = (k, v)" "CHR ''\"'' \<notin> set k" "value_ok v"
    using assms(1) by (cases kv) (auto simp: kv_ok_def)
  let ?json = "pre @ print_kv kv @ d # rest"
  have "?json = (pre @ [CHR ''\"'']) @ k @ CHR ''\"'' # CHR '':'' # v @ d # rest"
    by (simp add: kv print_kv_def)
  then have key: "ParseKey ?json (length pre) = (length pre + length k + 2, k)"
    using ParseKey_loop_scan [OF kv(2), of "pre @ [CHR ''\"'']" "CHR '':'' # v @ d # rest" "[]"]
    by (simp add: ParseKey_def)
  have json: "?json = (pre @ CHR ''\"'' # k @ [CHR ''\"'', CHR '':'']) @ v @ d # rest"
    by (simp add: kv print_kv_def)
  have "?json = (pre @ CHR ''\"'' # k @ [CHR ''\"'']) @ CHR '':'' # v @ d # rest"
    by (simp add: kv print_kv_def)
  then have "ParseValue ?json (length pre + length k + 2) = ParseValue ?json (length pre + length k + 3)"
    using ParseValue_colon [of "pre @ CHR ''\"'' # k @ [CHR ''\"'']" "v @ d # rest"]
    by (simp add: eval_nat_numeral)
  also have "\<dots> = Some (length pre + length k + 3 + length v, v)"
    using ParseValue_scan [OF kv(3) assms(2), of "pre @ CHR ''\"'' # k @ [CHR ''\"'', CHR '':'']" rest]
    by (simp only: json [symmetric]) (simp add: eval_nat_numeral)
  finally have val: "ParseValue ?json (length pre + length k + 2) = Some (length pre + length (print_kv kv), v)"
    by (simp add: kv print_kv_def)
  have "?json ! length pre = CHR ''\"''" "length pre < length ?json"
    by (simp_all add: kv print_kv_def)
  with key val show ?thesis
    unfolding kv(1) by (subst Parse_loop.simps) (simp add: charFilter_cases)
qed

lemma Parse_loop_items:
  "list_all kv_ok kvs \<Longrightarrow> Parse_loop (pre @ items kvs) (length pre) acc = Some (acc @ kvs)"
proof (induction kvs arbitrary: pre acc rule: items.induct)
  case 1
  then show ?case
    using Parse_loop_skip [of "CHR ''}''" pre "[]"] Parse_loop_end [of "pre @ ''}''"] by simp
next
  case (2 kv)
  then show ?case
    using Parse_loop_kv [of kv "CHR ''}''" pre "[]" acc]
      Parse_loop_skip [of "CHR ''}''" "pre @ print_kv kv" "[]" "acc @ [kv]"]
      Parse_loop_end [of "pre @ print_kv kv @ ''}''" "acc @ [kv]"]
    by (simp add: is_number_char_def charFilter_def flag_defs)
next
  case (3 kv kv2 kvs)
  then show ?case
    using Parse_loop_kv [of kv "CHR '',''" pre "items (kv2 # kvs)" acc]
      Parse_loop_skip [of "CHR '',''" "pre @ print_kv kv" "items (kv2 # kvs)" "acc @ [kv]"]
      "3.IH" [of "pre @ print_kv kv @ [CHR '','']" "acc @ [kv]"]
    by (simp add: is_number_char_def charFilter_def flag_defs)
qed

lemma Parse_of_Print: "list_all kv_ok kvs \<Longrightarrow> Parse (Print print_kv kvs) = Some kvs"
  using Parse_loop_items [of kvs "''{''" "[]"] Parse_loop_skip [of "CHR ''{''" "[]" "items kvs" "[]"]
  by (simp add: Parse_def Print_items)

text \<open>
  C19. Scanning inverts printing: a flat object whose keys hold no quotation mark and whose
  values are numbers, strings with escaped quotation marks or bracketed texts in which the
  brackets balance is split into exactly its pairs, in order; so printing the pairs that
  were scanned gives the object back.
\<close>

theorem Parse_inverts_Print:
  assumes "list_all kv_ok kvs"
  shows "Parse (Print print_kv kvs) = Some kvs"
  using assms by (rule Parse_of_Print)

theorem Parse_inverts_Print_witness:
  "Parse (Print print_kv [(''a'', ''-1.5''), (''b'', ''[1,[2]]''), (''c'', [CHR ''\"'', CHR 0x5C, CHR ''\"'', CHR ''\"''])]) =
     Some [(''a'', ''-1.5''), (''b'', ''[1,[2]]''), (''c'', [CHR ''\"'', CHR 0x5C, CHR ''\"'', CHR ''\"''])]"
  by (rule Parse_inverts_Print) code_simp

text \<open>
  Texts outside this class are misread without any sign of it: a literal (\<^verbatim>\<open>true\<close>, \<^verbatim>\<open>null\<close>)
  is skipped and the next key is taken for the value, the exponent of a number is lost, a
  bracket inside a string counts, and a string that ends with an escaped backslash does not
  end there.
\<close>

lemma Parse_misreads:
  "Parse ''{\"a\":true,\"b\":1}'' = Some [(''a'', ''\"b\"'')]"
  "Parse ''{\"a\":1e5}'' = Some [(''a'', ''1'')]"
  "Parse ''{\"a\":[\"]\"],\"b\":1}'' \<noteq> Some [(''a'', ''[\"]\"]''), (''b'', ''1'')]"
  "Parse (''{\"a\":\"'' @ [CHR 0x5C, CHR 0x5C] @ ''\",\"b\":1}'') \<noteq>
     Some [(''a'', [CHR ''\"'', CHR 0x5C, CHR 0x5C, CHR ''\"'']), (''b'', ''1'')]"
  by code_simp+

end
