(* ===== verification/JsonDecorator.thy ===== *)
theory JsonDecorator
  imports RecordReader JsonFlatten "HOL-Library.AList"
begin

text \<open>
  The decorator of the command line tool (frameworks/native/hisysevent_json_decorator.cpp):
  with the option \<^verbatim>\<open>-v\<close> each event is compared with its definition, and undefined keys and
  values of a wrong type are printed in red. The JSON library is the parameter \<open>jsoncpp\<close> of
  EventValue, with the strict reader as its \<^verbatim>\<open>parse\<close>; \<open>None\<close> is an exception of the library.
  The theory states what it means for an event to be typed by its definition, and shows that
  the decorator colours exactly what is not, and changes nothing that can be seen but the
  colour.
\<close>

section \<open>Constants and state\<close>

definition ARRY_SIZE :: string where "ARRY_SIZE = ''arrsize''"
definition DECORATE_PREFIX :: string where "DECORATE_PREFIX = CHR 0x1B # ''[31m''"
definition DECORATE_SUFFIX :: string where "DECORATE_SUFFIX = CHR 0x1B # ''[0m''"
definition LEVEL :: string where "LEVEL = ''level''"
definition LEVEL_ATTR :: string where "LEVEL_ATTR = ''level_''"
definition TYPE_ATTR :: string where "TYPE_ATTR = ''type''"
definition BASE_KEY :: string where "BASE_KEY = ''__BASE''"
definition DOMAIN_KEY :: string where "DOMAIN_KEY = ''domain_''"
definition NAME_KEY :: string where "NAME_KEY = ''name_''"

definition INNER_BUILD_KEYS :: "string list" where
  "INNER_BUILD_KEYS = [BASE_KEY, DOMAIN_KEY, NAME_KEY, ''type_'', ''level_'', ''tag_'', ''time_'', ''tz_'',
     ''pid_'', ''tid_'', ''uid_'', ''traceid_'', ''log_'', ''id_'', ''spanid_'', ''pspanid_'', ''trace_flag_'',
     ''info_'', ''seq_'', ''period_seq_'', ''reportInterval_'']"

definition VALID_LEVELS :: "string list" where
  "VALID_LEVELS = [''CRITICAL'', ''MINOR'']"

datatype Validity = KEY_INVALID | VALUE_INVALID | KV_BOTH_VALID

record 'j decorator =
  de_jsonRoot :: 'j
  de_decoratedMarks :: "(string \<times> Validity) list"
  de_isJsonRootValid :: bool

text \<open>\<open>content\<close> is what the stream on the definition file yields: nothing if there is no such file.\<close>

definition Decorator_new :: "'j jsoncpp \<Rightarrow> string \<Rightarrow> 'j decorator" where
  "Decorator_new jc content =
     (case jc_parse jc content of (ok, root) \<Rightarrow>
        \<lparr>de_jsonRoot = root, de_decoratedMarks = [], de_isJsonRootValid = ok\<rparr>)"

section \<open>The checks\<close>

definition JudgeDataType :: "'j jsoncpp \<Rightarrow> string \<Rightarrow> 'j \<Rightarrow> bool option" where
  "JudgeDataType jc dataType v =
     (if dataType = ''BOOL'' then
        (if jc_isBool jc v then Some True
         else if \<not> jc_isInt jc v then Some False
         else map_option (\<lambda>i. i = 0 \<or> i = 1) (jc_asInt jc v))
      else if dataType = ''INT8'' \<or> dataType = ''INT16'' \<or> dataType = ''INT32'' then Some (jc_isInt jc v)
      else if dataType = ''INT64'' then Some (jc_isInt64 jc v)
      else if dataType = ''UINT8'' \<or> dataType = ''UINT16'' \<or> dataType = ''UINT32'' then Some (jc_isUInt jc v)
      else if dataType = ''UINT64'' then Some (jc_isUInt64 jc v)
      else if dataType = ''FLOAT'' \<or> dataType = ''DOUBLE'' then Some (jc_isDouble jc v)
      else if dataType = ''STRING'' then Some (jc_isString jc v)
      else Some False)"

definition validity_of :: "bool \<Rightarrow> Validity" where
  "validity_of ret = (if ret then KV_BOTH_VALID else VALUE_INVALID)"

text \<open>The type string is read when the array test has not returned.\<close>

definition CheckAttrValidity :: "'j jsoncpp \<Rightarrow> 'j \<Rightarrow> string \<Rightarrow> 'j \<Rightarrow> Validity option" where
  "CheckAttrValidity jc eventJson key standard =
     (let attr = jc_member jc standard key; v = jc_member jc eventJson key;
          judge = (\<lambda>v. case jc_asString jc (jc_member jc attr TYPE_ATTR) of
             None \<Rightarrow> None
           | Some ty \<Rightarrow> map_option validity_of (JudgeDataType jc ty v)) in
      if \<not> jc_isObject jc standard \<or> \<not> jc_isMember jc standard key \<or> \<not> jc_isObject jc attr \<or>
         \<not> jc_isMember jc attr TYPE_ATTR \<or> \<not> jc_isString jc (jc_member jc attr TYPE_ATTR)
      then Some KEY_INVALID
      else if jc_isMember jc attr ARRY_SIZE then
        (if \<not> jc_isArray jc v \<or> \<not> jc_isUInt jc (jc_member jc attr ARRY_SIZE) then Some VALUE_INVALID
         else case jc_asUInt jc (jc_member jc attr ARRY_SIZE) of
           None \<Rightarrow> None
         | Some bound \<Rightarrow> if jc_size jc v > unat bound then Some VALUE_INVALID else judge (jc_index jc v 0))
      else judge v)"

definition set_mark :: "string \<Rightarrow> Validity \<Rightarrow> 'j decorator \<Rightarrow> 'j decorator" where
  "set_mark key ret de = de\<lparr>de_decoratedMarks := AList.update key ret (de_decoratedMarks de)\<rparr>"

definition CheckAttrDecorationNeed ::
  "'j jsoncpp \<Rightarrow> 'j \<Rightarrow> string \<Rightarrow> 'j \<Rightarrow> 'j decorator \<Rightarrow> ('j decorator \<times> bool) option" where
  "CheckAttrDecorationNeed jc eventJson key standard de =
     map_option (\<lambda>ret. (set_mark key ret de, ret \<noteq> KV_BOTH_VALID)) (CheckAttrValidity jc eventJson key standard)"

definition CheckLevelValidity :: "'j jsoncpp \<Rightarrow> 'j \<Rightarrow> Validity option" where
  "CheckLevelValidity jc baseInfo =
     (if \<not> jc_isObject jc baseInfo \<or> \<not> jc_isMember jc baseInfo LEVEL \<or> \<not> jc_isString jc (jc_member jc baseInfo LEVEL)
      then Some KEY_INVALID
      else map_option (\<lambda>levelDes. if levelDes \<in> set VALID_LEVELS then KV_BOTH_VALID else VALUE_INVALID)
        (jc_asString jc (jc_member jc baseInfo LEVEL)))"

text \<open>A text member of the event: empty when it is no string.\<close>

definition event_text :: "'j jsoncpp \<Rightarrow> 'j \<Rightarrow> string \<Rightarrow> string option" where
  "event_text jc eventJson key =
     (let v = jc_member jc eventJson key in if jc_isString jc v then jc_asString jc v else Some '''')"

definition CheckEventDecorationNeed ::
  "'j jsoncpp \<Rightarrow> 'j \<Rightarrow> ('j \<Rightarrow> 'j decorator \<Rightarrow> ('j decorator \<times> bool) option) \<Rightarrow>
   ('j \<Rightarrow> 'j \<Rightarrow> 'j decorator \<Rightarrow> ('j decorator \<times> bool) option) \<Rightarrow> 'j decorator \<Rightarrow> ('j decorator \<times> bool) option" where
  "CheckEventDecorationNeed jc eventJson baseJsonInfoHandler extensiveJsonInfoHandler de =
     (if \<not> de_isJsonRootValid de \<or> \<not> jc_isObject jc (de_jsonRoot de) \<or> \<not> jc_isObject jc eventJson then Some (de, True)
      else case event_text jc eventJson DOMAIN_KEY of None \<Rightarrow> None | Some domain \<Rightarrow>
      case event_text jc eventJson NAME_KEY of None \<Rightarrow> None | Some name \<Rightarrow>
        let definedDomain = jc_member jc (de_jsonRoot de) domain; definedName = jc_member jc definedDomain name in
        if \<not> jc_isMember jc (de_jsonRoot de) domain then Some (de, True)
        else if \<not> jc_isObject jc definedDomain \<or> \<not> jc_isMember jc definedDomain name then Some (de, True)
        else if \<not> jc_isObject jc definedName then Some (de, True)
        else case (if jc_isMember jc definedName BASE_KEY
                   then baseJsonInfoHandler (jc_member jc definedName BASE_KEY) de else Some (de, False)) of
            None \<Rightarrow> None
          | Some (de1, baseInfoNeed) \<Rightarrow>
              map_option (\<lambda>(de2, extensiveInfoNeed). (de2, baseInfoNeed \<or> extensiveInfoNeed))
                (extensiveJsonInfoHandler eventJson definedName de1))"

section \<open>Decorating\<close>

definition quoted :: "string \<Rightarrow> string" where
  "quoted s = CHR ''\"'' # s @ ''\"''"

definition Decorate :: "Validity \<Rightarrow> string \<times> string \<Rightarrow> string" where
  "Decorate validity kv =
     (case validity of
        KEY_INVALID \<Rightarrow> quoted (DECORATE_PREFIX @ fst kv @ DECORATE_SUFFIX) @ '':'' @ snd kv
      | VALUE_INVALID \<Rightarrow> quoted (fst kv) @ '':'' @ DECORATE_PREFIX @ snd kv @ DECORATE_SUFFIX
      | KV_BOTH_VALID \<Rightarrow> quoted (fst kv) @ '':'' @ snd kv)"

definition mark_of :: "(string \<times> Validity) list \<Rightarrow> string \<Rightarrow> Validity" where
  "mark_of marks key = (case map_of marks key of None \<Rightarrow> KV_BOTH_VALID | Some v \<Rightarrow> v)"

definition DecorateJsonStr :: "string \<Rightarrow> (string \<times> Validity) list \<Rightarrow> string option" where
  "DecorateJsonStr origin marks =
     (if marks = [] then Some origin
      else map_option (Print (\<lambda>kv. Decorate (mark_of marks (fst kv)) kv)) (Parse origin))"

text \<open>The two lambdas that \<^verbatim>\<open>DecorateEventJsonStr\<close> passes to the check, and the loop of the second one.\<close>

definition level_handler :: "'j jsoncpp \<Rightarrow> 'j \<Rightarrow> 'j decorator \<Rightarrow> ('j decorator \<times> bool) option" where
  "level_handler jc definedBase de =
     map_option (\<lambda>levelValidity. (set_mark LEVEL_ATTR levelValidity de, levelValidity \<noteq> KV_BOTH_VALID))
       (CheckLevelValidity jc definedBase)"

primrec attr_loop ::
  "'j jsoncpp \<Rightarrow> 'j \<Rightarrow> 'j \<Rightarrow> string list \<Rightarrow> bool \<Rightarrow> 'j decorator \<Rightarrow> ('j decorator \<times> bool) option" where
  "attr_loop jc eventJson definedName [] ret de = Some (de, ret)"
| "attr_loop jc eventJson definedName (key # attrList) ret de =
     (if key \<in> set INNER_BUILD_KEYS then attr_loop jc eventJson definedName attrList ret de
      else case CheckAttrDecorationNeed jc eventJson key definedName de of
        None \<Rightarrow> None
      | Some (de', need) \<Rightarrow> attr_loop jc eventJson definedName attrList (need \<or> ret) de')"

definition attr_handler :: "'j jsoncpp \<Rightarrow> 'j \<Rightarrow> 'j \<Rightarrow> 'j decorator \<Rightarrow> ('j decorator \<times> bool) option" where
  "attr_handler jc eventJson definedName de =
     attr_loop jc eventJson definedName (jc_names jc eventJson) False de"

definition DecorateEventJsonStr ::
  "'j jsoncpp \<Rightarrow> 'j event_record \<Rightarrow> 'j decorator \<Rightarrow> ('j decorator \<times> string) option" where
  "DecorateEventJsonStr jc record de =
     (let origin = AsJson record; de0 = de\<lparr>de_decoratedMarks := []\<rparr> in
      if \<not> de_isJsonRootValid de0 then Some (de0, origin)
      else case jc_parse jc origin of (ok, eventJson) \<Rightarrow>
        if \<not> ok then Some (de0, origin)
        else case CheckEventDecorationNeed jc eventJson (level_handler jc) (attr_handler jc) de0 of
          None \<Rightarrow> None
        | Some (de1, needDecorate) \<Rightarrow>
            if \<not> needDecorate then Some (de1, origin)
            else map_option (\<lambda>txt. (de1, txt)) (DecorateJsonStr origin (de_decoratedMarks de1)))"

section \<open>Events typed by their definition\<close>

text \<open>
  \<open>has_type\<close> says which values a type name of a definition admits. A definition declares an
  attribute as a scalar, or as an array with a bound on its length (no array conforms when
  the bound is no unsigned integer); an array conforms by its first item.
\<close>

inductive has_type :: "'j jsoncpp \<Rightarrow> string \<Rightarrow> 'j \<Rightarrow> bool" for jc where
  truth: "jc_isBool jc v \<Longrightarrow> has_type jc ''BOOL'' v"
| bit: "jc_isInt jc v \<Longrightarrow> jc_asInt jc v = Some i \<Longrightarrow> i = 0 \<or> i = 1 \<Longrightarrow> has_type jc ''BOOL'' v"
| int: "ty \<in> {''INT8'', ''INT16'', ''INT32''} \<Longrightarrow> jc_isInt jc v \<Longrightarrow> has_type jc ty v"
| int64: "jc_isInt64 jc v \<Longrightarrow> has_type jc ''INT64'' v"
| uint: "ty \<in> {''UINT8'', ''UINT16'', ''UINT32''} \<Longrightarrow> jc_isUInt jc v \<Longrightarrow> has_type jc ty v"
| uint64: "jc_isUInt64 jc v \<Longrightarrow> has_type jc ''UINT64'' v"
| float: "ty \<in> {''FLOAT'', ''DOUBLE''} \<Longrightarrow> jc_isDouble jc v \<Longrightarrow> has_type jc ty v"
| str: "jc_isString jc v \<Longrightarrow> has_type jc ''STRING'' v"

datatype attr_decl = Scalar string | ArrayOf string "nat option"

fun conforms :: "'j jsoncpp \<Rightarrow> attr_decl \<Rightarrow> 'j \<Rightarrow> bool" where
  "conforms jc (Scalar ty) v \<longleftrightarrow> has_type jc ty v"
| "conforms jc (ArrayOf ty None) v \<longleftrightarrow> False"
| "conforms jc (ArrayOf ty (Some n)) v \<longleftrightarrow> jc_isArray jc v \<and> jc_size jc v \<le> n \<and> has_type jc ty (jc_index jc v 0)"

definition declared :: "'j jsoncpp \<Rightarrow> 'j \<Rightarrow> string \<Rightarrow> attr_decl option" where
  "declared jc def key =
     (let attr = jc_member jc def key; ty = jc_asString jc (jc_member jc attr TYPE_ATTR);
          size = jc_member jc attr ARRY_SIZE in
      if jc_isObject jc def \<and> jc_isMember jc def key \<and> jc_isObject jc attr \<and> jc_isMember jc attr TYPE_ATTR \<and>
         jc_isString jc (jc_member jc attr TYPE_ATTR)
      then map_option (\<lambda>ty. if jc_isMember jc attr ARRY_SIZE
          then ArrayOf ty (if jc_isUInt jc size then map_option unat (jc_asUInt jc size) else None)
          else Scalar ty) ty
      else None)"

definition attr_verdict :: "'j jsoncpp \<Rightarrow> 'j \<Rightarrow> 'j \<Rightarrow> string \<Rightarrow> Validity" where
  "attr_verdict jc def ev key =
     (case declared jc def key of
        None \<Rightarrow> KEY_INVALID
      | Some decl \<Rightarrow> if conforms jc decl (jc_member jc ev key) then KV_BOTH_VALID else VALUE_INVALID)"

definition level_verdict :: "'j jsoncpp \<Rightarrow> 'j \<Rightarrow> Validity" where
  "level_verdict jc base =
     (if jc_isObject jc base \<and> jc_isMember jc base LEVEL \<and> jc_isString jc (jc_member jc base LEVEL)
      then if jc_asString jc (jc_member jc base LEVEL) \<in> {Some ''CRITICAL'', Some ''MINOR''}
        then KV_BOTH_VALID else VALUE_INVALID
      else KEY_INVALID)"

text \<open>
  The verdict on a key of an event with the definition \<open>def\<close>. The level is judged by the
  definition alone; the other built-in keys and the keys the JSON reader does not list are
  not judged.
\<close>

definition verdict :: "'j jsoncpp \<Rightarrow> 'j \<Rightarrow> 'j \<Rightarrow> string \<Rightarrow> Validity" where
  "verdict jc def ev key =
     (if key \<in> set INNER_BUILD_KEYS
      then if key = LEVEL_ATTR \<and> jc_isMember jc def BASE_KEY
        then level_verdict jc (jc_member jc def BASE_KEY) else KV_BOTH_VALID
      else if key \<in> set (jc_names jc ev) then attr_verdict jc def ev key else KV_BOTH_VALID)"

definition event_typed :: "'j jsoncpp \<Rightarrow> 'j \<Rightarrow> 'j \<Rightarrow> bool" where
  "event_typed jc def ev \<longleftrightarrow> (\<forall>key \<in> insert LEVEL_ATTR (set (jc_names jc ev)). verdict jc def ev key = KV_BOTH_VALID)"

text \<open>The definition of an event, found by its domain and its name.\<close>

definition definition_of :: "'j jsoncpp \<Rightarrow> 'j \<Rightarrow> 'j \<Rightarrow> 'j option" where
  "definition_of jc root ev =
     (let domain = the (event_text jc ev DOMAIN_KEY); name = the (event_text jc ev NAME_KEY);
          dd = jc_member jc root domain in
      if jc_isObject jc root \<and> jc_isObject jc ev \<and> jc_isMember jc root domain \<and> jc_isObject jc dd \<and>
         jc_isMember jc dd name \<and> jc_isObject jc (jc_member jc dd name)
      then Some (jc_member jc dd name) else None)"

text \<open>The documented behaviour the decorator relies on: a value converts to a type that it tests as.\<close>

definition decorator_laws :: "'j jsoncpp \<Rightarrow> bool" where
  "decorator_laws jc \<longleftrightarrow>
     (\<forall>v. (jc_isInt jc v \<longrightarrow> jc_asInt jc v \<noteq> None) \<and> (jc_isUInt jc v \<longrightarrow> jc_asUInt jc v \<noteq> None) \<and>
          (jc_isString jc v \<longrightarrow> jc_asString jc v \<noteq> None))"

lemma decorator_law:
  assumes "decorator_laws jc"
  shows "jc_isInt jc v \<Longrightarrow> \<exists>i. jc_asInt jc v = Some i"
    and "jc_isUInt jc v \<Longrightarrow> \<exists>n. jc_asUInt jc v = Some n"
    and "jc_isString jc v \<Longrightarrow> \<exists>s. jc_asString jc v = Some s"
  using assms by (auto simp: decorator_laws_def)

lemma JudgeDataType_has_type:
  assumes "decorator_laws jc"
  shows "JudgeDataType jc ty v = Some (has_type jc ty v)"
proof -
  have bool: "JudgeDataType jc ''BOOL'' v = Some (has_type jc ''BOOL'' v)"
    using decorator_law(1) [OF assms, of v] by (auto simp: JudgeDataType_def has_type.simps)
  show ?thesis
  proof (cases "ty \<in> {''BOOL'', ''INT8'', ''INT16'', ''INT32'', ''INT64'', ''UINT8'', ''UINT16'', ''UINT32'', ''UINT64'',
      ''FLOAT'', ''DOUBLE'', ''STRING''}")
    case True
    then show ?thesis
      by (elim insertE emptyE) (simp_all only: bool, simp_all add: JudgeDataType_def has_type.simps)
  next
    case False
    then show ?thesis
      by (simp add: JudgeDataType_def has_type.simps)
  qed
qed

lemma CheckAttrValidity_verdict:
  assumes "decorator_laws jc"
  shows "CheckAttrValidity jc ev key def = Some (attr_verdict jc def ev key)"
proof -
  let ?attr = "jc_member jc def key"
  show ?thesis
    using decorator_law(2) [OF assms, of "jc_member jc ?attr ARRY_SIZE"]
      decorator_law(3) [OF assms, of "jc_member jc ?attr TYPE_ATTR"]
    by (auto simp: CheckAttrValidity_def attr_verdict_def declared_def Let_def JudgeDataType_has_type [OF assms]
        validity_of_def not_le)
qed

lemma CheckLevelValidity_verdict:
  assumes "decorator_laws jc"
  shows "CheckLevelValidity jc base = Some (level_verdict jc base)"
proof (cases "jc_isString jc (jc_member jc base LEVEL)")
  case True
  then obtain s where "jc_asString jc (jc_member jc base LEVEL) = Some s"
    using decorator_law(3) [OF assms] by blast
  then show ?thesis
    by (simp add: CheckLevelValidity_def level_verdict_def VALID_LEVELS_def)
qed (simp add: CheckLevelValidity_def level_verdict_def)

lemma event_text_defined: "decorator_laws jc \<Longrightarrow> \<exists>s. event_text jc ev key = Some s"
  using decorator_law(3) [of jc "jc_member jc ev key"] by (auto simp: event_text_def Let_def)

lemma set_mark_marks:
  "map_of (de_decoratedMarks (set_mark key v de)) = (map_of (de_decoratedMarks de))(key \<mapsto> v)"
  "set_mark key v de\<lparr>de_decoratedMarks := marks\<rparr> = de\<lparr>de_decoratedMarks := marks\<rparr>"
  by (simp_all add: set_mark_def update_conv')

text \<open>The loop marks every key of the event that is not built in with its verdict.\<close>

lemma attr_loop_marks:
  assumes laws: "decorator_laws jc"
  shows "\<exists>marks. attr_loop jc ev def keys ret de =
      Some (de\<lparr>de_decoratedMarks := marks\<rparr>,
        ret \<or> (\<exists>k \<in> set keys - set INNER_BUILD_KEYS. attr_verdict jc def ev k \<noteq> KV_BOTH_VALID)) \<and>
    map_of marks = (\<lambda>k. if k \<in> set keys - set INNER_BUILD_KEYS then Some (attr_verdict jc def ev k)
                        else map_of (de_decoratedMarks de) k)"
proof (induction keys arbitrary: ret de)
  case Nil
  show ?case
    by (rule exI [of _ "de_decoratedMarks de"]) (simp add: fun_eq_iff)
next
  case (Cons key keys)
  show ?case
  proof (cases "key \<in> set INNER_BUILD_KEYS")
    case True
    with Cons.IH [of ret de] show ?thesis
      by (simp add: insert_Diff_if)
  next
    case False
    obtain marks where m: "attr_loop jc ev def keys (attr_verdict jc def ev key \<noteq> KV_BOTH_VALID \<or> ret)
          (set_mark key (attr_verdict jc def ev key) de) =
        Some (de\<lparr>de_decoratedMarks := marks\<rparr>, (attr_verdict jc def ev key \<noteq> KV_BOTH_VALID \<or> ret) \<or>
          (\<exists>k \<in> set keys - set INNER_BUILD_KEYS. attr_verdict jc def ev k \<noteq> KV_BOTH_VALID))"
      "map_of marks = (\<lambda>k. if k \<in> set keys - set INNER_BUILD_KEYS then Some (attr_verdict jc def ev k)
         else ((map_of (de_decoratedMarks de))(key \<mapsto> attr_verdict jc def ev key)) k)"
      using Cons.IH [of "attr_verdict jc def ev key \<noteq> KV_BOTH_VALID \<or> ret" "set_mark key (attr_verdict jc def ev key) de"]
      unfolding set_mark_marks by blast
    with False show ?thesis
      by (intro exI [of _ marks])
        (auto simp: CheckAttrDecorationNeed_def CheckAttrValidity_verdict [OF laws] insert_Diff_if fun_eq_iff)
  qed
qed

text \<open>The whole check: which marks it leaves and what it answers.\<close>

lemma CheckEventDecorationNeed_marks:
  assumes laws: "decorator_laws jc" and root: "de_isJsonRootValid de" "de_decoratedMarks de = []"
  shows "\<exists>marks. CheckEventDecorationNeed jc ev (level_handler jc) (attr_handler jc) de =
      Some (de\<lparr>de_decoratedMarks := marks\<rparr>,
        case definition_of jc (de_jsonRoot de) ev of None \<Rightarrow> True | Some def \<Rightarrow> \<not> event_typed jc def ev) \<and>
    (case definition_of jc (de_jsonRoot de) ev of
       None \<Rightarrow> marks = []
     | Some def \<Rightarrow> mark_of marks = verdict jc def ev \<and> (\<not> event_typed jc def ev \<longrightarrow> marks \<noteq> []))"
proof -
  obtain domain name where t: "event_text jc ev DOMAIN_KEY = Some domain" "event_text jc ev NAME_KEY = Some name"
    using event_text_defined [OF laws] by meson
  show ?thesis
  proof (cases "definition_of jc (de_jsonRoot de) ev")
    case None
    then show ?thesis
      using t root
      by (intro exI [of _ "[]"]) (auto simp: CheckEventDecorationNeed_def definition_of_def Let_def split: if_splits)
  next
    case (Some def)
    let ?base = "jc_isMember jc def BASE_KEY"
    let ?lv = "level_verdict jc (jc_member jc def BASE_KEY)"
    let ?de1 = "if ?base then set_mark LEVEL_ATTR ?lv de else de"
    let ?need = "if ?base then ?lv \<noteq> KV_BOTH_VALID else False"
    have check: "CheckEventDecorationNeed jc ev (level_handler jc) (attr_handler jc) de =
        map_option (\<lambda>(de2, ext). (de2, ?need \<or> ext)) (attr_handler jc ev def ?de1)"
      using Some t root
      by (auto simp: CheckEventDecorationNeed_def definition_of_def Let_def level_handler_def
          CheckLevelValidity_verdict [OF laws] split: if_splits)
    obtain marks where m: "attr_handler jc ev def ?de1 =
        Some (?de1\<lparr>de_decoratedMarks := marks\<rparr>,
          \<exists>k \<in> set (jc_names jc ev) - set INNER_BUILD_KEYS. attr_verdict jc def ev k \<noteq> KV_BOTH_VALID)"
      "map_of marks = (\<lambda>k. if k \<in> set (jc_names jc ev) - set INNER_BUILD_KEYS then Some (attr_verdict jc def ev k)
         else map_of (de_decoratedMarks ?de1) k)"
      using attr_loop_marks [OF laws, of ev def "jc_names jc ev" False ?de1] by (auto simp: attr_handler_def)
    have level: "LEVEL_ATTR \<in> set INNER_BUILD_KEYS"
      by (simp add: LEVEL_ATTR_def INNER_BUILD_KEYS_def)
    have marks1: "map_of (de_decoratedMarks ?de1) = (if ?base then [LEVEL_ATTR \<mapsto> ?lv] else Map.empty)"
      using root by (auto simp: set_mark_def)
    have v: "mark_of marks = verdict jc def ev"
      using m(2) marks1 level by (auto simp: mark_of_def verdict_def fun_eq_iff)
    have typed: "event_typed jc def ev \<longleftrightarrow>
        \<not> (?need \<or> (\<exists>k \<in> set (jc_names jc ev) - set INNER_BUILD_KEYS. attr_verdict jc def ev k \<noteq> KV_BOTH_VALID))"
      using level by (auto simp: event_typed_def verdict_def)
    have "marks \<noteq> []" if "\<not> event_typed jc def ev"
    proof
      assume "marks = []"
      then have "verdict jc def ev = (\<lambda>_. KV_BOTH_VALID)"
        using v by (auto simp: mark_of_def fun_eq_iff)
      with that show False
        by (simp add: event_typed_def)
    qed
    moreover have "?de1\<lparr>de_decoratedMarks := marks\<rparr> = de\<lparr>de_decoratedMarks := marks\<rparr>"
      by (simp add: set_mark_def)
    ultimately show ?thesis
      using Some check m(1) v typed by (intro exI [of _ marks]) simp
  qed
qed

text \<open>
  C27. The decorator marks what is not typed, and nothing else. For an event whose definition
  is known: when every key it has is defined, every value has its declared type and the
  level of the definition is a legal one, the text is printed as it is. Otherwise the pairs
  the scanner reads from the text are printed in order, each by its own verdict: an
  undefined key in red, an ill-typed value in red, every other pair plain. (When all that is
  wrong is the level of the definition, the only pair in red is that of \<^verbatim>\<open>level_\<close>; an event
  without this key then has no red pair at all.)
\<close>

theorem decorate_marks_untyped:
  assumes "decorator_laws jc" "de_isJsonRootValid de" "jc_parse jc (er_jsonStr record) = (True, ev)"
    "definition_of jc (de_jsonRoot de) ev = Some def"
  shows "\<exists>de' kvs. Parse (er_jsonStr record) = Some kvs \<and>
    DecorateEventJsonStr jc record de =
      Some (de', if event_typed jc def ev then er_jsonStr record
                 else Print (\<lambda>kv. Decorate (verdict jc def ev (fst kv)) kv) kvs)"
proof -
  obtain kvs where kvs: "Parse (er_jsonStr record) = Some kvs"
    using Parse_loop_defined [of "er_jsonStr record" 0 "[]"] by (auto simp: Parse_def)
  show ?thesis
    using CheckEventDecorationNeed_marks [OF assms(1), of "de\<lparr>de_decoratedMarks := []\<rparr>" ev] assms(2-4) kvs
    by (auto simp: DecorateEventJsonStr_def AsJson_def DecorateJsonStr_def Let_def)
qed

text \<open>An event with one attribute of each verdict, its definition and what is printed.\<close>

definition sample_def :: json where
  "sample_def = JObj [(''__BASE'', JObj [(''level'', JStr ''MINOR'')]),
     (''COUNT'', JObj [(''type'', JStr ''UINT8'')]), (''NAMES'', JObj [(''type'', JStr ''STRING''), (''arrsize'', JInt 2)]),
     (''TEXT'', JObj [(''type'', JStr ''STRING'')])]"

definition sample_event :: json where
  "sample_event = JObj [(''domain_'', JStr ''D''), (''name_'', JStr ''E''), (''COUNT'', JInt 1),
     (''NAMES'', JArr [JStr ''x'']), (''TEXT'', JInt 7), (''NEW'', JInt 8)]"

definition sample_text :: string where
  "sample_text = ''{\"domain_\":\"D\",\"name_\":\"E\",\"COUNT\":1,\"NAMES\":[\"x\"],\"TEXT\":7,\"NEW\":8}''"

definition sample_record :: "json event_record" where
  "sample_record = Record_ParseJsonStr (plain_json (Some sample_event)) sample_text"

definition sample_decorator :: "json decorator" where
  "sample_decorator = Decorator_new (plain_json (Some (JObj [(''D'', JObj [(''E'', sample_def)])]))) ''''"

lemma plain_json_decorator_laws: "decorator_laws (plain_json doc)"
proof -
  have "int_between mn mx v \<Longrightarrow> (json_word mn mx v :: 32 word option) \<noteq> None" for mn mx v
    by (cases v) (auto simp: json_word_def)
  moreover have "(case v of JStr s \<Rightarrow> True | _ \<Rightarrow> False) \<Longrightarrow> json_text v \<noteq> None" for v
    by (cases v) auto
  ultimately show ?thesis
    unfolding decorator_laws_def plain_json_def by simp
qed

lemmas sample_simps = sample_def_def sample_event_def sample_decorator_def Decorator_new_def plain_json_def event_text_def
  json_entry_def verdict_def attr_verdict_def declared_def DOMAIN_KEY_def NAME_KEY_def BASE_KEY_def LEVEL_ATTR_def
  TYPE_ATTR_def ARRY_SIZE_def INNER_BUILD_KEYS_def json_word_def

lemma sample_typed:
  "definition_of (plain_json (Some sample_event)) (de_jsonRoot sample_decorator) sample_event = Some sample_def"
  "verdict (plain_json (Some sample_event)) sample_def sample_event ''TEXT'' = VALUE_INVALID"
  "verdict (plain_json (Some sample_event)) sample_def sample_event ''NEW'' = KEY_INVALID"
  "verdict (plain_json (Some sample_event)) sample_def sample_event ''NAMES'' = KV_BOTH_VALID"
  by (simp_all add: definition_of_def sample_simps has_type.simps Let_def)

theorem decorate_marks_untyped_witness: "\<exists>de' kvs. Parse (er_jsonStr sample_record) = Some kvs \<and>
    DecorateEventJsonStr (plain_json (Some sample_event)) sample_record sample_decorator =
      Some (de', if event_typed (plain_json (Some sample_event)) sample_def sample_event then er_jsonStr sample_record
                 else Print (\<lambda>kv. Decorate (verdict (plain_json (Some sample_event)) sample_def sample_event (fst kv)) kv) kvs)"
  by (rule decorate_marks_untyped [OF plain_json_decorator_laws])
    (simp_all add: sample_typed(1), simp_all add: sample_decorator_def Decorator_new_def plain_json_def)

text \<open>What the tool prints for the sample: \<^verbatim>\<open>TEXT\<close> has a red value, \<^verbatim>\<open>NEW\<close> is red itself.\<close>

lemma sample_printed:
  "map_option snd (DecorateEventJsonStr (plain_json (Some sample_event)) sample_record sample_decorator) =
   Some (''{\"domain_\":\"D\",\"name_\":\"E\",\"COUNT\":1,\"NAMES\":[\"x\"],\"TEXT\":'' @ DECORATE_PREFIX @ ''7'' @ DECORATE_SUFFIX @
     '',\"'' @ DECORATE_PREFIX @ ''NEW'' @ DECORATE_SUFFIX @ ''\":8}'')"
  by code_simp

section \<open>What can be seen\<close>

text \<open>
  What a terminal shows of a text: an escape sequence runs from the escape character to the
  letter \<^verbatim>\<open>m\<close> and is not shown.
\<close>

primrec visible :: "bool \<Rightarrow> string \<Rightarrow> string" where
  "visible escaped [] = []"
| "visible escaped (c # cs) =
     (if escaped then visible (c \<noteq> CHR ''m'') cs
      else if c = CHR 0x1B then visible True cs
      else c # visible False cs)"

lemma visible_plain: "CHR 0x1B \<notin> set a \<Longrightarrow> visible False (a @ b) = a @ visible False b"
  by (induction a) auto

lemma visible_colours [simp]:
  "visible False (DECORATE_PREFIX @ b) = visible False b"
  "visible False (DECORATE_SUFFIX @ b) = visible False b"
  by (simp_all add: DECORATE_PREFIX_def DECORATE_SUFFIX_def)

lemma visible_Decorate:
  assumes "CHR 0x1B \<notin> set (print_kv kv)"
  shows "visible False (Decorate v kv @ rest) = print_kv kv @ visible False rest"
proof -
  have "CHR 0x1B \<notin> set (fst kv)" "CHR 0x1B \<notin> set (snd kv)"
    using assms by (auto simp: print_kv_def)
  then show ?thesis
    by (cases v) (simp_all add: Decorate_def quoted_def print_kv_def visible_plain)
qed

lemma visible_items:
  assumes "\<forall>kv \<in> set kvs. CHR 0x1B \<notin> set (print_kv kv)"
  shows "visible False (concat (map (\<lambda>kv. Decorate (f kv) kv @ '','') kvs) @ rest) =
    concat (map (\<lambda>kv. print_kv kv @ '','') kvs) @ visible False rest"
  using assms by (induction kvs) (simp_all add: visible_Decorate)

lemma visible_Print:
  assumes "CHR 0x1B \<notin> set (Print print_kv kvs)"
  shows "visible False (Print (\<lambda>kv. Decorate (f kv) kv) kvs @ rest) = Print print_kv kvs @ visible False rest"
proof (cases kvs rule: rev_cases)
  case (snoc kvs' kv)
  then have "\<forall>kv \<in> set kvs'. CHR 0x1B \<notin> set (print_kv kv)" "CHR 0x1B \<notin> set (print_kv kv)"
    using assms by (auto simp: Print_def split: if_splits)
  with snoc show ?thesis
    by (simp add: Print_def visible_items visible_Decorate)
qed (simp add: Print_def)

text \<open>
  An event whose text the scanner can split and that holds no escape character is decorated
  without an exception, whatever the definitions say, and nothing that can be seen changes.
\<close>

definition plain_event :: "'j event_record \<Rightarrow> bool" where
  "plain_event record \<longleftrightarrow>
     (\<exists>kvs. list_all kv_ok kvs \<and> er_jsonStr record = Print print_kv kvs) \<and> CHR 0x1B \<notin> set (er_jsonStr record)"

lemma decorated_visible:
  assumes "decorator_laws jc" "plain_event record"
  shows "\<exists>de' out. DecorateEventJsonStr jc record de = Some (de', out) \<and>
    (\<forall>rest. visible False (out @ rest) = er_jsonStr record @ visible False rest)"
proof -
  obtain kvs where kvs: "list_all kv_ok kvs" "er_jsonStr record = Print print_kv kvs"
    using assms(2) by (auto simp: plain_event_def)
  have esc: "CHR 0x1B \<notin> set (er_jsonStr record)"
    using assms(2) by (simp add: plain_event_def)
  have coloured: "visible False (Print (\<lambda>kv. Decorate (mark_of marks (fst kv)) kv) kvs @ rest) =
      er_jsonStr record @ visible False rest" for marks rest
    using visible_Print [of kvs "\<lambda>kv. mark_of marks (fst kv)" rest] kvs(2) esc by simp
  obtain ok ev where p: "jc_parse jc (er_jsonStr record) = (ok, ev)"
    by fastforce
  show ?thesis
  proof (cases "de_isJsonRootValid de \<and> ok")
    case True
    with p show ?thesis
      using CheckEventDecorationNeed_marks [OF assms(1), of "de\<lparr>de_decoratedMarks := []\<rparr>" ev] visible_plain [OF esc]
        coloured Parse_of_Print [OF kvs(1)] kvs(2)
      by (auto simp: DecorateEventJsonStr_def AsJson_def DecorateJsonStr_def Let_def)
  qed (use p visible_plain [OF esc] in \<open>auto simp: DecorateEventJsonStr_def AsJson_def Let_def\<close>)
qed

definition sample_plain :: "json event_record" where
  "sample_plain = Record_ParseJsonStr (plain_json (Some sample_event)) (Print print_kv [(''TEXT'', ''7''), (''NEW'', ''8'')])"

lemma sample_plain_event: "plain_event sample_plain"
proof -
  have "list_all kv_ok [(''TEXT'', ''7''), (''NEW'', ''8'')]" "CHR 0x1B \<notin> set (er_jsonStr sample_plain)"
    by code_simp+
  then show ?thesis
    unfolding plain_event_def sample_plain_def Record_ParseJsonStr_def
    by (intro conjI exI [of _ "[(''TEXT'', ''7''), (''NEW'', ''8'')]"]) simp_all
qed

text \<open>
  Where the scanner misreads the text the decorator loses data: of this event, whose first
  attribute is a literal and whose second is undefined, one pair is printed instead of two.
  An array that is empty is red whatever its type, since its first item is null, and an
  integer type admits every number of 32 bits.
\<close>

lemma decorate_surprises:
  "map_option snd (DecorateEventJsonStr
      (plain_json (Some (JObj [(''domain_'', JStr ''D''), (''name_'', JStr ''E''), (''OK'', JBool True), (''NEW'', JInt 1)])))
      \<lparr>er_jsonStr = ''{\"OK\":true,\"NEW\":1}'', er_jsonVal = HiSysEventValue_of JNull\<rparr> sample_decorator) =
    Some (''{\"'' @ DECORATE_PREFIX @ ''OK'' @ DECORATE_SUFFIX @ ''\":\"NEW\"}'')"
  "attr_verdict (plain_json None) sample_def (JObj [(''NAMES'', JArr [])]) ''NAMES'' = VALUE_INVALID"
  "attr_verdict (plain_json None) sample_def (JObj [(''COUNT'', JInt 1000)]) ''COUNT'' = KV_BOTH_VALID"
proof -
  show "attr_verdict (plain_json None) sample_def (JObj [(''NAMES'', JArr [])]) ''NAMES'' = VALUE_INVALID"
    by (simp add: sample_simps has_type.simps)
  show "attr_verdict (plain_json None) sample_def (JObj [(''COUNT'', JInt 1000)]) ''COUNT'' = KV_BOTH_VALID"
    by (simp add: sample_simps has_type.simps)
qed code_simp

end
