(* ===== verification/ToolArguments.thy ===== *)
theory ToolArguments
  imports Parcelables
begin

text \<open>
  What the command line tool (frameworks/native/hisysevent_tool.cpp) makes of the texts on its
  command line: the options as the C library's \<^verbatim>\<open>getopt\<close> hands them out, numbers, names of
  rule and event types, and formatted times. The theory proves that written options and
  decimal numbers are read back, and which texts are times and what they mean.
\<close>

section \<open>Options of the C library\<close>

text \<open>
  \<^verbatim>\<open>getopt\<close> as POSIX describes it: the scan stops at the first argument that is no option,
  at a lone dash and at a double dash; options can share an argument; the value of an option
  is the rest of its argument or the next one; an unknown option, and one whose value is
  missing, gives a question mark. \<open>opt_spec\<close> looks a letter up in the option string: does
  it take a value?
\<close>

fun opt_spec :: "string \<Rightarrow> char \<Rightarrow> bool option" where
  "opt_spec [] c = None"
| "opt_spec (x # xs) c =
     (if x = c \<and> c \<noteq> CHR '':'' then Some (xs \<noteq> [] \<and> hd xs = CHR '':'') else opt_spec xs c)"

type_synonym opt = "char \<times> string option"

fun getopt_letters :: "string \<Rightarrow> string \<Rightarrow> string list \<Rightarrow> opt list \<times> string list" where
  "getopt_letters selection [] argv = ([], argv)"
| "getopt_letters selection (c # cs) argv =
     (case opt_spec selection c of
        None \<Rightarrow> (case getopt_letters selection cs argv of (os, argv') \<Rightarrow> ((CHR ''?'', None) # os, argv'))
      | Some False \<Rightarrow> (case getopt_letters selection cs argv of (os, argv') \<Rightarrow> ((c, None) # os, argv'))
      | Some True \<Rightarrow>
          if cs \<noteq> [] then ([(c, Some cs)], argv)
          else case argv of [] \<Rightarrow> ([(CHR ''?'', None)], []) | a # argv' \<Rightarrow> ([(c, Some a)], argv'))"

lemma getopt_letters_length: "length (snd (getopt_letters selection cs argv)) \<le> length argv"
  by (induction selection cs argv rule: getopt_letters.induct)
    (auto split: option.splits bool.splits list.splits prod.splits)

function getopt_all :: "string \<Rightarrow> string list \<Rightarrow> opt list" where
  "getopt_all selection [] = []"
| "getopt_all selection (a # argv) =
     (if a = [] \<or> hd a \<noteq> CHR ''-'' \<or> a = ''-'' \<or> a = ''--'' then []
      else fst (getopt_letters selection (tl a) argv) @
        getopt_all selection (snd (getopt_letters selection (tl a) argv)))"
  by pat_completeness auto
termination
  by (relation "measure (\<lambda>(selection, argv). length argv)")
    (auto simp: less_Suc_eq_le getopt_letters_length)

text \<open>
  \<^verbatim>\<open>std::from_chars\<close> on a signed integer: an optional minus sign and the longest run of
  digits, which must not be empty; what follows is left alone. \<open>None\<close> is an error code.
\<close>

definition is_digit_char :: "char \<Rightarrow> bool" where
  "is_digit_char c \<longleftrightarrow> c \<in> set ''0123456789''"

definition digits_nat :: "string \<Rightarrow> nat" where
  "digits_nat ds = foldl (\<lambda>n c. 10 * n + (of_char c - 48)) 0 ds"

definition from_chars :: "nat \<Rightarrow> string \<Rightarrow> int option" where
  "from_chars width s =
     (let negative = (s \<noteq> [] \<and> hd s = CHR ''-'');
          digits = takeWhile is_digit_char (if negative then tl s else s);
          v = (if negative then - int (digits_nat digits) else int (digits_nat digits)) in
      if digits = [] \<or> v < - (2 ^ (width - 1)) \<or> v \<ge> 2 ^ (width - 1) then None else Some v)"

text \<open>The template \<^verbatim>\<open>ParseNumFromStr\<close>, for an integer type of the width of the result.\<close>

definition ParseNumFromStr :: "string \<Rightarrow> 'w::len word" where
  "ParseNumFromStr numStr = (case from_chars LENGTH('w) numStr of None \<Rightarrow> 0 | Some num \<Rightarrow> of_int num)"

section \<open>Values of options\<close>

definition INVALID_EVENT_TYPE :: u32 where "INVALID_EVENT_TYPE = 0"
definition SECONDS_2_MILLS :: int where "SECONDS_2_MILLS = 1000"
definition DEFAULT_TIME_STAMP :: "64 word" where "DEFAULT_TIME_STAMP = -1"
definition PREFIX_WORD :: u32 where "PREFIX_WORD = 2"
definition REGULAR_WORD :: u32 where "REGULAR_WORD = 3"

definition GetRuleTypeFromArg :: "string \<Rightarrow> u32" where
  "GetRuleTypeFromArg fromArgs =
     (case map_of [(''WHOLE_WORD'', WHOLE_WORD), (''PREFIX'', PREFIX_WORD), (''REGULAR'', REGULAR_WORD)] fromArgs of
        None \<Rightarrow> WHOLE_WORD
      | Some ruleType \<Rightarrow> ruleType)"

definition GetEventTypeFromArg :: "string \<Rightarrow> u32" where
  "GetEventTypeFromArg fromArgs =
     (case map_of [(''FAULT'', 1), (''STATISTIC'', 2), (''SECURITY'', 3), (''BEHAVIOR'', 4)] fromArgs of
        None \<Rightarrow> INVALID_EVENT_TYPE
      | Some eventType \<Rightarrow> eventType)"

text \<open>
  The regular expression of a time stamp as the choices it gives at each position, and the
  fields of \<^verbatim>\<open>struct tm\<close> that \<^verbatim>\<open>std::get_time\<close> sets; the others are zero.
\<close>

record tm =
  tm_year :: int
  tm_mon :: int
  tm_mday :: int
  tm_hour :: int
  tm_min :: int
  tm_sec :: int

definition two_digits :: "string \<Rightarrow> nat \<Rightarrow> string \<Rightarrow> string \<Rightarrow> bool" where
  "two_digits s pos tens ones \<longleftrightarrow> s ! pos \<in> set tens \<and> s ! (pos + 1) \<in> set ones"

definition formatRegex :: "string \<Rightarrow> bool" where
  "formatRegex s \<longleftrightarrow>
     length s = 19 \<and> list_all is_digit_char (take 4 s) \<and> s ! 4 = CHR ''-'' \<and> s ! 7 = CHR ''-'' \<and>
     (((two_digits s 5 ''0'' ''13578'' \<or> two_digits s 5 ''1'' ''02'') \<and>
       (two_digits s 8 ''0'' ''123456789'' \<or> two_digits s 8 ''12'' ''0123456789'' \<or> two_digits s 8 ''3'' ''01'')) \<or>
      ((two_digits s 5 ''0'' ''2469'' \<or> two_digits s 5 ''1'' ''1'') \<and>
       (two_digits s 8 ''0'' ''123456789'' \<or> two_digits s 8 ''12'' ''0123456789'' \<or> two_digits s 8 ''3'' ''0''))) \<and>
     s ! 10 = CHR '' '' \<and>
     (two_digits s 11 ''01'' ''0123456789'' \<or> two_digits s 11 ''2'' ''0123'') \<and>
     s ! 13 = CHR '':'' \<and> two_digits s 14 ''012345'' ''0123456789'' \<and>
     s ! 16 = CHR '':'' \<and> two_digits s 17 ''012345'' ''0123456789''"

definition time_field :: "string \<Rightarrow> nat \<Rightarrow> nat \<Rightarrow> int" where
  "time_field s pos n = int (digits_nat (take n (drop pos s)))"

definition get_time :: "string \<Rightarrow> tm" where
  "get_time s = \<lparr>tm_year = time_field s 0 4 - 1900, tm_mon = time_field s 5 2 - 1, tm_mday = time_field s 8 2,
     tm_hour = time_field s 11 2, tm_min = time_field s 14 2, tm_sec = time_field s 17 2\<rparr>"

text \<open>
  What the tool asks of its environment: whether the event definitions are there, the local
  time zone in \<^verbatim>\<open>mktime\<close>, and whether \<^verbatim>\<open>regcomp\<close> accepts a pattern.
\<close>

record tool_env =
  te_isSupportEventCheck :: bool
  te_mktime :: "tm \<Rightarrow> int"
  te_regcomp :: "string \<Rightarrow> bool"

definition ParseTimeStampFromArgs :: "tool_env \<Rightarrow> string \<Rightarrow> 64 word" where
  "ParseTimeStampFromArgs te fromArgs =
     (if \<not> formatRegex fromArgs then DEFAULT_TIME_STAMP
      else of_int (te_mktime te (get_time fromArgs)) * of_int SECONDS_2_MILLS)"

definition IsValidRegex :: "tool_env \<Rightarrow> string \<Rightarrow> bool" where
  "IsValidRegex te regStr = (if length regStr > 32 then False else te_regcomp te regStr)"

section \<open>Reading numbers\<close>

lemma digits_nat_snoc: "digits_nat (xs @ [c]) = 10 * digits_nat xs + (of_char c - 48)"
  by (simp add: digits_nat_def)

lemma is_digit_char_of: "d < 10 \<Longrightarrow> is_digit_char (char_of (48 + d)) \<and> (of_char (char_of (48 + d) :: char) :: nat) = 48 + d"
proof -
  assume "d < 10"
  then have "d \<in> {0, 1, 2, 3, 4, 5, 6, 7, 8, 9}"
    by auto
  then show ?thesis
    by (elim insertE emptyE) (simp_all, code_simp+)
qed

lemma decimal_digits: "list_all is_digit_char (decimal n) \<and> digits_nat (decimal n) = n \<and> decimal n \<noteq> []"
proof (induction n rule: decimal.induct)
  case (1 n)
  have "n mod 10 < 10"
    by simp
  then show ?case
    using 1 is_digit_char_of [of n] is_digit_char_of [of "n mod 10"]
    by (subst (1 2 3) decimal.simps) (auto simp: digits_nat_snoc, auto simp: digits_nat_def)
qed

lemma takeWhile_digits: "list_all is_digit_char ds \<Longrightarrow> takeWhile is_digit_char ds = ds"
  by (simp add: list_all_iff)

lemma minus_no_digit: "\<not> is_digit_char (CHR ''-'')"
  by (simp add: is_digit_char_def)

text \<open>A number that fits is read back from its decimal text, also with a sign.\<close>

lemma from_chars_decimal_int:
  assumes "- (2 ^ (w - 1)) \<le> i" "i < 2 ^ (w - 1)"
  shows "from_chars w (decimal_int i) = Some i"
proof (cases "i < 0")
  case True
  then show ?thesis
    using assms decimal_digits [of "nat (- i)"]
    by (simp add: from_chars_def decimal_int_def takeWhile_digits Let_def)
next
  case False
  have "hd (decimal (nat i)) \<noteq> CHR ''-''"
    using decimal_digits [of "nat i"] minus_no_digit by (cases "decimal (nat i)") auto
  with False show ?thesis
    using assms decimal_digits [of "nat i"]
    by (simp add: from_chars_def decimal_int_def takeWhile_digits Let_def)
qed

lemma ParseNumFromStr_decimal:
  assumes "n < 2 ^ (LENGTH('w::len) - 1)"
  shows "(ParseNumFromStr (decimal n) :: 'w word) = of_nat n"
proof -
  have "int n < int (2 ^ (LENGTH('w) - 1))"
    using assms by (simp only: of_nat_less_iff)
  then have "from_chars LENGTH('w) (decimal_int (int n)) = Some (int n)"
    by (intro from_chars_decimal_int) (auto intro: order_trans [of _ 0])
  then show ?thesis
    by (simp add: ParseNumFromStr_def decimal_int_def)
qed

section \<open>Reading options\<close>

text \<open>How an option is written on the command line.\<close>

fun render_opt :: "opt \<Rightarrow> string list" where
  "render_opt (c, None) = [[CHR ''-'', c]]"
| "render_opt (c, Some arg) = [[CHR ''-'', c], arg]"

definition opt_written :: "string \<Rightarrow> opt \<Rightarrow> bool" where
  "opt_written selection opt \<longleftrightarrow> fst opt \<noteq> CHR ''-'' \<and> opt_spec selection (fst opt) = Some (snd opt \<noteq> None)"

lemma getopt_all_render:
  "list_all (opt_written selection) opts \<Longrightarrow> getopt_all selection (concat (map render_opt opts)) = opts"
proof (induction opts)
  case (Cons opt opts)
  then show ?case
    by (cases opt rule: render_opt.cases) (simp_all add: opt_written_def)
qed simp

definition sample_tool_env :: tool_env where
  "sample_tool_env = \<lparr>te_isSupportEventCheck = True, te_mktime = (\<lambda>_. 0), te_regcomp = (\<lambda>_. True)\<rparr>"

section \<open>Time stamps\<close>

definition dg :: "nat \<Rightarrow> char" where
  "dg k = char_of (48 + k)"

definition two :: "nat \<Rightarrow> string" where
  "two n = [dg (n div 10), dg (n mod 10)]"

text \<open>The text of a time stamp, and the fields that the format admits.\<close>

definition stamp :: "nat \<Rightarrow> nat \<Rightarrow> nat \<Rightarrow> nat \<Rightarrow> nat \<Rightarrow> nat \<Rightarrow> string" where
  "stamp y mo d h mi se = two (y div 100) @ two (y mod 100) @ ''-'' @ two mo @ ''-'' @ two d @ '' '' @ two h @ '':'' @ two mi
     @ '':'' @ two se"

definition stamp_ok :: "nat \<Rightarrow> nat \<Rightarrow> nat \<Rightarrow> nat \<Rightarrow> nat \<Rightarrow> nat \<Rightarrow> bool" where
  "stamp_ok y mo d h mi se \<longleftrightarrow>
     y < 10000 \<and> 1 \<le> mo \<and> mo \<le> 12 \<and> 1 \<le> d \<and> d \<le> (if mo \<in> {1, 3, 5, 7, 8, 10, 12} then 31 else 30) \<and>
     h < 24 \<and> mi < 60 \<and> se < 60"

lemma of_char_dg: "k < 10 \<Longrightarrow> of_char (dg k) = 48 + k"
  using is_digit_char_of [of k] by (simp add: dg_def)

lemma dg_inj: "j < 10 \<Longrightarrow> k < 10 \<Longrightarrow> dg j = dg k \<longleftrightarrow> j = k"
  using of_char_dg by (metis add_left_cancel)

lemma dg_mem_image: "k < 10 \<Longrightarrow> A \<subseteq> {..<10} \<Longrightarrow> dg k \<in> dg ` A \<longleftrightarrow> k \<in> A"
  using dg_inj by blast

lemma dg_sets:
  "set ''0123456789'' = dg ` {0..9}" "set ''123456789'' = dg ` {1..9}" "set ''012345'' = dg ` {0..5}"
  "set ''0123'' = dg ` {0..3}" "set ''13578'' = dg ` {1, 3, 5, 7, 8}" "set ''2469'' = dg ` {2, 4, 6, 9}"
  "set ''12'' = dg ` {1, 2}" "set ''01'' = dg ` {0, 1}" "set ''02'' = dg ` {0, 2}" "set ''0'' = dg ` {0}"
  "set ''1'' = dg ` {1}" "set ''2'' = dg ` {2}" "set ''3'' = dg ` {3}"
  by code_simp+

lemma dg_mem:
  assumes "k < 10"
  shows "dg k \<in> set ''0123456789''" "dg k \<in> set ''123456789'' \<longleftrightarrow> 1 \<le> k" "dg k \<in> set ''012345'' \<longleftrightarrow> k \<le> 5"
    "dg k \<in> set ''0123'' \<longleftrightarrow> k \<le> 3" "dg k \<in> set ''13578'' \<longleftrightarrow> k \<in> {1, 3, 5, 7, 8}"
    "dg k \<in> set ''2469'' \<longleftrightarrow> k \<in> {2, 4, 6, 9}" "dg k \<in> set ''12'' \<longleftrightarrow> k = 1 \<or> k = 2" "dg k \<in> set ''01'' \<longleftrightarrow> k \<le> 1"
    "dg k \<in> set ''02'' \<longleftrightarrow> k = 0 \<or> k = 2" "dg k \<in> set ''0'' \<longleftrightarrow> k = 0" "dg k \<in> set ''1'' \<longleftrightarrow> k = 1"
    "dg k \<in> set ''2'' \<longleftrightarrow> k = 2" "dg k \<in> set ''3'' \<longleftrightarrow> k = 3"
  unfolding dg_sets using assms by (subst dg_mem_image; auto)+

lemma digit_dg: "is_digit_char c \<Longrightarrow> \<exists>k < 10. c = dg k"
proof -
  assume "is_digit_char c"
  then obtain k where "k \<le> 9" "c = dg k"
    unfolding is_digit_char_def dg_sets by auto
  then show ?thesis
    by (intro exI [of _ k]) simp
qed

lemma is_digit_dg [simp]: "k < 10 \<Longrightarrow> is_digit_char (dg k)"
  using dg_mem(1) by (simp add: is_digit_char_def)

lemma digits_nat_dg: "a < 10 \<Longrightarrow> b < 10 \<Longrightarrow> digits_nat [dg a, dg b] = 10 * a + b"
  by (simp add: digits_nat_def of_char_dg)

text \<open>A text of the shape of a time stamp, by its digits.\<close>

definition shape :: "nat list \<Rightarrow> string" where
  "shape k = [dg (k ! 0), dg (k ! 1), dg (k ! 2), dg (k ! 3), CHR ''-'', dg (k ! 4), dg (k ! 5), CHR ''-'',
     dg (k ! 6), dg (k ! 7), CHR '' '', dg (k ! 8), dg (k ! 9), CHR '':'', dg (k ! 10), dg (k ! 11), CHR '':'',
     dg (k ! 12), dg (k ! 13)]"

text \<open>The choices of the regular expression in terms of the digits.\<close>

definition shape_ok :: "nat list \<Rightarrow> bool" where
  "shape_ok k \<longleftrightarrow>
     ((k ! 4 = 0 \<and> k ! 5 \<in> {1, 3, 5, 7, 8} \<or> k ! 4 = 1 \<and> (k ! 5 = 0 \<or> k ! 5 = 2)) \<and>
      (k ! 6 = 0 \<and> 1 \<le> k ! 7 \<or> (k ! 6 = 1 \<or> k ! 6 = 2) \<or> k ! 6 = 3 \<and> k ! 7 \<le> 1) \<or>
      (k ! 4 = 0 \<and> k ! 5 \<in> {2, 4, 6, 9} \<or> k ! 4 = 1 \<and> k ! 5 = 1) \<and>
      (k ! 6 = 0 \<and> 1 \<le> k ! 7 \<or> (k ! 6 = 1 \<or> k ! 6 = 2) \<or> k ! 6 = 3 \<and> k ! 7 = 0)) \<and>
     (k ! 8 \<le> 1 \<or> k ! 8 = 2 \<and> k ! 9 \<le> 3) \<and> k ! 10 \<le> 5 \<and> k ! 12 \<le> 5"

lemma formatRegex_shape:
  assumes "\<forall>i < 14. k ! i < 10"
  shows "formatRegex (shape k) \<longleftrightarrow> shape_ok k"
proof -
  have at: "shape k ! 4 = CHR ''-''" "shape k ! 5 = dg (k ! 4)" "shape k ! (5 + 1) = dg (k ! 5)" "shape k ! 7 = CHR ''-''"
    "shape k ! 8 = dg (k ! 6)" "shape k ! (8 + 1) = dg (k ! 7)" "shape k ! 10 = CHR '' ''" "shape k ! 11 = dg (k ! 8)"
    "shape k ! (11 + 1) = dg (k ! 9)" "shape k ! 13 = CHR '':''" "shape k ! 14 = dg (k ! 10)" "shape k ! (14 + 1) = dg (k ! 11)"
    "shape k ! 16 = CHR '':''" "shape k ! 17 = dg (k ! 12)" "shape k ! (17 + 1) = dg (k ! 13)" "length (shape k) = 19"
    "list_all is_digit_char (take 4 (shape k))"
    using assms by (simp_all add: shape_def)
  have "k ! 4 < 10" "k ! 5 < 10" "k ! 6 < 10" "k ! 7 < 10" "k ! 8 < 10" "k ! 9 < 10" "k ! 10 < 10" "k ! 11 < 10"
    "k ! 12 < 10" "k ! 13 < 10"
    using assms by simp_all
  note mem = this [THEN dg_mem(1), THEN eqTrueI] this [THEN dg_mem(2)] this [THEN dg_mem(3)] this [THEN dg_mem(4)] this [THEN dg_mem(5)]
    this [THEN dg_mem(6)] this [THEN dg_mem(7)] this [THEN dg_mem(8)] this [THEN dg_mem(9)] this [THEN dg_mem(10)]
    this [THEN dg_mem(11)] this [THEN dg_mem(12)] this [THEN dg_mem(13)]
  show ?thesis
    unfolding formatRegex_def two_digits_def at mem shape_ok_def using at(17) by blast
qed

definition two_dg :: "string \<Rightarrow> nat \<Rightarrow> bool" where
  "two_dg s p \<longleftrightarrow> (\<exists>j < 10. s ! p = dg j) \<and> (\<exists>j < 10. s ! (p + 1) = dg j)"

lemma two_digits_dg: "two_digits s p tens ones \<Longrightarrow> set tens \<union> set ones \<subseteq> set ''0123456789'' \<Longrightarrow> two_dg s p"
  unfolding two_digits_def two_dg_def by (meson digit_dg is_digit_char_def Un_subset_iff subsetD)

lemma formatRegex_has_shape:
  assumes "formatRegex s"
  shows "\<exists>k. length k = 14 \<and> (\<forall>i < 14. k ! i < 10) \<and> s = shape k"
proof -
  have len: "length s = 19" and fixed: "s ! 4 = CHR ''-''" "s ! 7 = CHR ''-''" "s ! 10 = CHR '' ''" "s ! 13 = CHR '':''"
      "s ! 16 = CHR '':''"
    using assms by (simp_all add: formatRegex_def)
  have "\<forall>i < 4. is_digit_char (s ! i)"
    using assms len by (auto simp: formatRegex_def list_all_length)
  then have year: "\<exists>j < 10. s ! 0 = dg j" "\<exists>j < 10. s ! 1 = dg j" "\<exists>j < 10. s ! 2 = dg j" "\<exists>j < 10. s ! 3 = dg j"
    by (simp_all add: digit_dg)
  have pairs: "two_digits s 5 ''0'' ''13578'' \<or> two_digits s 5 ''1'' ''02'' \<or> two_digits s 5 ''0'' ''2469'' \<or> two_digits s 5 ''1'' ''1''"
    "two_digits s 8 ''0'' ''123456789'' \<or> two_digits s 8 ''12'' ''0123456789'' \<or> two_digits s 8 ''3'' ''01'' \<or>
     two_digits s 8 ''3'' ''0''"
    "two_digits s 11 ''01'' ''0123456789'' \<or> two_digits s 11 ''2'' ''0123''" "two_digits s 14 ''012345'' ''0123456789''"
    "two_digits s 17 ''012345'' ''0123456789''"
    using assms unfolding formatRegex_def by blast+
  have "two_dg s 5"
    using pairs(1) by (elim disjE) (erule two_digits_dg, simp)+
  moreover have "two_dg s 8"
    using pairs(2) by (elim disjE) (erule two_digits_dg, simp)+
  moreover have "two_dg s 11"
    using pairs(3) by (elim disjE) (erule two_digits_dg, simp)+
  moreover have "two_dg s 14" "two_dg s 17"
    using pairs(4,5) by (auto intro: two_digits_dg)
  ultimately have rest: "\<exists>j < 10. s ! 5 = dg j" "\<exists>j < 10. s ! 6 = dg j" "\<exists>j < 10. s ! 8 = dg j" "\<exists>j < 10. s ! 9 = dg j"
    "\<exists>j < 10. s ! 11 = dg j" "\<exists>j < 10. s ! 12 = dg j" "\<exists>j < 10. s ! 14 = dg j" "\<exists>j < 10. s ! 15 = dg j"
    "\<exists>j < 10. s ! 17 = dg j" "\<exists>j < 10. s ! 18 = dg j"
    unfolding two_dg_def by simp_all
  have list: "s = map (\<lambda>i. s ! i) [0..<19]"
    using len by (metis map_nth)
  let ?I = "[0, 1, 2, 3, 5, 6, 8, 9, 11, 12, 14, 15, 17, 18] :: nat list"
  have "\<forall>i \<in> set ?I. \<exists>j. j < 10 \<and> s ! i = dg j"
    using year rest by simp
  then obtain f where f: "\<forall>i \<in> set ?I. f i < 10 \<and> s ! i = dg (f i)"
    using bchoice [of "set ?I" "\<lambda>i j. j < 10 \<and> s ! i = dg j"] by blast
  have "[0..<19] = [0, 1, 2, 3, 4, 5, 6, 7, 8, 9, 10, 11, 12, 13, 14, 15, 16, 17, 18]"
    by code_simp
  then have "s = shape (map f ?I)"
    using f fixed by (subst list) (simp add: shape_def)
  moreover have "\<forall>i < length ?I. map f ?I ! i < 10"
    using f by (metis nth_map nth_mem)
  ultimately show ?thesis
    by (intro exI [of _ "map f ?I"]) simp
qed

definition pairs :: "nat list \<Rightarrow> nat list" where
  "pairs ns = concat (map (\<lambda>n. [n div 10, n mod 10]) ns)"

lemma stamp_shape: "stamp y mo d h mi se = shape (pairs [y div 100, y mod 100, mo, d, h, mi, se])"
  by (simp add: stamp_def two_def shape_def pairs_def)

lemma pairs_digits: "\<forall>n \<in> set ns. n < 100 \<Longrightarrow> \<forall>k \<in> set (pairs ns). k < 10"
  by (auto simp: pairs_def)

text \<open>Every list of fourteen digits is the pairs of seven numbers.\<close>

lemma pairs_of_digits:
  assumes "length k = 14" "\<forall>i < 14. k ! i < 10"
  shows "\<exists>ns. length ns = 7 \<and> (\<forall>n \<in> set ns. n < 100) \<and> k = pairs ns"
proof -
  let ?I = "[0, 2, 4, 6, 8, 10, 12] :: nat list"
  have k: "k = map (\<lambda>i. k ! i) [0..<14]"
    using assms(1) by (metis map_nth)
  have "[0..<14] = [0, 1, 2, 3, 4, 5, 6, 7, 8, 9, 10, 11, 12, 13]"
    by code_simp
  then have list: "k = [k ! 0, k ! 1, k ! 2, k ! 3, k ! 4, k ! 5, k ! 6, k ! 7, k ! 8, k ! 9, k ! 10, k ! 11, k ! 12, k ! 13]"
    using k by simp
  have small: "k ! 0 < 10" "k ! 1 < 10" "k ! 2 < 10" "k ! 3 < 10" "k ! 4 < 10" "k ! 5 < 10" "k ! 6 < 10" "k ! 7 < 10"
    "k ! 8 < 10" "k ! 9 < 10" "k ! 10 < 10" "k ! 11 < 10" "k ! 12 < 10" "k ! 13 < 10"
    using assms(2) by simp_all
  have two: "(10 * a + b) div 10 = a" "(10 * a + b) mod 10 = b" if "b < 10" for a b :: nat
    using that by simp_all
  have "pairs (map (\<lambda>i. 10 * k ! i + k ! (i + 1)) ?I) =
      [k ! 0, k ! 1, k ! 2, k ! 3, k ! 4, k ! 5, k ! 6, k ! 7, k ! 8, k ! 9, k ! 10, k ! 11, k ! 12, k ! 13]"
    by (simp add: pairs_def two small small(2) [simplified])
  moreover have "\<forall>n \<in> set (map (\<lambda>i. 10 * k ! i + k ! (i + 1)) ?I). n < 100"
    using small by simp
  ultimately show ?thesis
    using list by (intro exI [of _ "map (\<lambda>i. 10 * k ! i + k ! (i + 1)) ?I"]) simp
qed

lemma month_digits:
  fixes a b :: nat
  assumes "b < 10"
  shows "(a = 0 \<and> b \<in> {1, 3, 5, 7, 8} \<or> a = 1 \<and> (b = 0 \<or> b = 2)) \<longleftrightarrow> 10 * a + b \<in> {1, 3, 5, 7, 8, 10, 12}"
    and "(a = 0 \<and> b \<in> {2, 4, 6, 9} \<or> a = 1 \<and> b = 1) \<longleftrightarrow> 10 * a + b \<in> {2, 4, 6, 9, 11}"
proof -
  have cases: "a = 0 \<or> a = 1 \<or> 2 \<le> a"
    by linarith
  then show "(a = 0 \<and> b \<in> {1, 3, 5, 7, 8} \<or> a = 1 \<and> (b = 0 \<or> b = 2)) \<longleftrightarrow> 10 * a + b \<in> {1, 3, 5, 7, 8, 10, 12}"
    using assms by auto
  show "(a = 0 \<and> b \<in> {2, 4, 6, 9} \<or> a = 1 \<and> b = 1) \<longleftrightarrow> 10 * a + b \<in> {2, 4, 6, 9, 11}"
    using cases assms by auto
qed

lemma day_digits:
  fixes a b :: nat
  assumes "b < 10"
  shows "(a = 0 \<and> 1 \<le> b \<or> (a = 1 \<or> a = 2) \<or> a = 3 \<and> b \<le> 1) \<longleftrightarrow> 1 \<le> 10 * a + b \<and> 10 * a + b \<le> 31"
    and "(a = 0 \<and> 1 \<le> b \<or> (a = 1 \<or> a = 2) \<or> a = 3 \<and> b = 0) \<longleftrightarrow> 1 \<le> 10 * a + b \<and> 10 * a + b \<le> 30"
    and "(a \<le> 1 \<or> a = 2 \<and> b \<le> 3) \<longleftrightarrow> 10 * a + b < 24" "a \<le> 5 \<longleftrightarrow> 10 * a + b < 60"
  using assms by linarith+

lemma shape_ok_pairs:
  assumes "\<forall>n \<in> set [yh, yl, mo, d, h, mi, se]. n < 100"
  shows "shape_ok (pairs [yh, yl, mo, d, h, mi, se]) \<longleftrightarrow> stamp_ok (100 * yh + yl) mo d h mi se"
proof -
  let ?k = "pairs [yh, yl, mo, d, h, mi, se]"
  have at: "?k ! 4 = mo div 10" "?k ! 5 = mo mod 10" "?k ! 6 = d div 10" "?k ! 7 = d mod 10" "?k ! 8 = h div 10"
    "?k ! 9 = h mod 10" "?k ! 10 = mi div 10" "?k ! 12 = se div 10"
    by (simp_all add: pairs_def)
  have digits: "10 * (n div 10) + n mod 10 = n" "n mod 10 < 10" for n :: nat
    by simp_all
  have "{1..12} = ({1, 3, 5, 7, 8, 10, 12} \<union> {2, 4, 6, 9, 11} :: nat set)"
    by code_simp
  then have "1 \<le> mo \<and> mo \<le> 12 \<longleftrightarrow> mo \<in> {1, 3, 5, 7, 8, 10, 12} \<or> mo \<in> {2, 4, 6, 9, 11}"
    by (metis Un_iff atLeastAtMost_iff)
  moreover have "100 * yh + yl < 10000"
    using assms by auto
  ultimately show ?thesis
    unfolding shape_ok_def at month_digits [OF digits(2)] day_digits [OF digits(2)] digits(1) stamp_ok_def by auto
qed

lemma get_time_shape:
  assumes "\<forall>n \<in> set [yh, yl, mo, d, h, mi, se]. n < 100"
  shows "get_time (shape (pairs [yh, yl, mo, d, h, mi, se])) =
    \<lparr>tm_year = int (100 * yh + yl) - 1900, tm_mon = int mo - 1, tm_mday = int d, tm_hour = int h, tm_min = int mi,
     tm_sec = int se\<rparr>"
proof -
  have two: "digits_nat [dg (n div 10), dg (n mod 10)] = n" if "n < 100" for n
    using that by (subst digits_nat_dg) auto
  have "digits_nat [dg (yh div 10), dg (yh mod 10), dg (yl div 10), dg (yl mod 10)] =
      100 * digits_nat [dg (yh div 10), dg (yh mod 10)] + digits_nat [dg (yl div 10), dg (yl mod 10)]"
    using assms by (simp add: digits_nat_def of_char_dg)
  then show ?thesis
    using assms by (simp add: get_time_def time_field_def shape_def pairs_def two)
qed

text \<open>
  A formatted time is read as what it says: the text of any date and time with a month
  that exists, a day up to the thirty-first or thirtieth of it, and a time of day gives the
  seconds of those fields in the local zone, in milliseconds; every other text, also with
  one character too many, gives the default time stamp.
\<close>

lemma time_stamp_read:
  "(stamp_ok y mo d h mi se \<longrightarrow>
      ParseTimeStampFromArgs te (stamp y mo d h mi se) =
        of_int (te_mktime te \<lparr>tm_year = int y - 1900, tm_mon = int mo - 1, tm_mday = int d, tm_hour = int h,
          tm_min = int mi, tm_sec = int se\<rparr> * 1000)) \<and>
   ((\<nexists>y mo d h mi se. stamp_ok y mo d h mi se \<and> txt = stamp y mo d h mi se) \<longrightarrow> ParseTimeStampFromArgs te txt = -1)"
proof (intro conjI impI)
  assume ok: "stamp_ok y mo d h mi se"
  let ?ns = "[y div 100, y mod 100, mo, d, h, mi, se]"
  have y: "100 * (y div 100) + y mod 100 = y" "int (100 * (y div 100) + y mod 100) = int y"
    by simp_all
  have small: "\<forall>n \<in> set ?ns. n < 100"
    using ok by (auto simp: stamp_ok_def split: if_splits)
  have len: "length (pairs ?ns) = 14"
    by (simp add: pairs_def)
  have "\<forall>i < 14. pairs ?ns ! i < 10"
    using pairs_digits [OF small] len by (metis nth_mem)
  then have "formatRegex (stamp y mo d h mi se)"
    using ok by (simp add: stamp_shape formatRegex_shape shape_ok_pairs [OF small, unfolded y])
  then show "ParseTimeStampFromArgs te (stamp y mo d h mi se) =
      of_int (te_mktime te \<lparr>tm_year = int y - 1900, tm_mon = int mo - 1, tm_mday = int d, tm_hour = int h,
        tm_min = int mi, tm_sec = int se\<rparr> * 1000)"
    by (simp add: ParseTimeStampFromArgs_def SECONDS_2_MILLS_def stamp_shape get_time_shape [OF small, unfolded y])
next
  assume none: "\<nexists>y mo d h mi se. stamp_ok y mo d h mi se \<and> txt = stamp y mo d h mi se"
  have "\<not> formatRegex txt"
  proof
    assume m: "formatRegex txt"
    then obtain k where k: "length k = 14" "\<forall>i < 14. k ! i < 10" "txt = shape k"
      using formatRegex_has_shape by blast
    obtain ns where ns: "length ns = 7" "\<forall>n \<in> set ns. n < 100" "k = pairs ns"
      using pairs_of_digits [OF k(1,2)] by blast
    obtain yh yl mo d h mi se where seven: "ns = [yh, yl, mo, d, h, mi, se]"
      using ns(1) by (auto simp: length_Suc_conv eval_nat_numeral)
    have small: "\<forall>n \<in> set [yh, yl, mo, d, h, mi, se]. n < 100"
      using ns(2) seven by simp
    have "stamp_ok (100 * yh + yl) mo d h mi se"
      using m formatRegex_shape [OF k(2)] k(3) ns(3) seven shape_ok_pairs [OF small] by simp
    moreover have "txt = stamp (100 * yh + yl) mo d h mi se"
      using k(3) ns(3) seven small by (simp add: stamp_shape)
    ultimately show False
      using none by blast
  qed
  then show "ParseTimeStampFromArgs te txt = -1"
    by (simp add: ParseTimeStampFromArgs_def DEFAULT_TIME_STAMP_def)
qed

lemma time_stamp_read_example:
  "ParseTimeStampFromArgs sample_tool_env (stamp 2024 2 29 12 30 59) =
     of_int (te_mktime sample_tool_env \<lparr>tm_year = int 2024 - 1900, tm_mon = int 2 - 1, tm_mday = int 29, tm_hour = int 12,
       tm_min = int 30, tm_sec = int 59\<rparr> * 1000) \<and> stamp 2024 2 29 12 30 59 = ''2024-02-29 12:30:59''"
proof
  have "stamp_ok 2024 2 29 12 30 59"
    by (simp add: stamp_ok_def)
  then show "ParseTimeStampFromArgs sample_tool_env (stamp 2024 2 29 12 30 59) =
     of_int (te_mktime sample_tool_env \<lparr>tm_year = int 2024 - 1900, tm_mon = int 2 - 1, tm_mday = int 29, tm_hour = int 12,
       tm_min = int 30, tm_sec = int 59\<rparr> * 1000)"
    using time_stamp_read by blast
qed code_simp

text \<open>The thirtieth of February is a date of the format.\<close>

lemma february_30_accepted: "formatRegex ''2024-02-30 00:00:00''"
  by code_simp

end
