(* ===== verification/HiSysEventTool.thy ===== *)
theory HiSysEventTool
  imports EventRegistry JsonDecorator ToolArguments "HOL-Library.Multiset"
begin

text \<open>
  The command line tool (frameworks/native/main.cpp, hisysevent_tool.cpp,
  hisysevent_tool_listener.cpp, hisysevent_tool_query.cpp): its options, the checks on them,
  the subscription or query it makes of them, its callbacks, and how its main thread waits.
  Standard output is a text in the state, and an exit code is set by a call that ends the
  process; both are what the theorems speak about, with the log of requests of EventRegistry.
\<close>

section \<open>The tool and its options\<close>

record arg_struct =
  ca_real :: bool
  ca_checkValidEvent :: bool
  ca_history :: bool
  ca_ruleType :: u32
  ca_maxEvents :: "32 word"
  ca_eventType :: u32
  ca_beginTime :: "64 word"
  ca_endTime :: "64 word"
  ca_domain :: string
  ca_eventName :: string
  ca_tag :: string

definition arg_struct_default :: arg_struct where
  "arg_struct_default = \<lparr>ca_real = False, ca_checkValidEvent = False, ca_history = False, ca_ruleType = WHOLE_WORD,
     ca_maxEvents = 10000, ca_eventType = 0, ca_beginTime = -1, ca_endTime = -1,
     ca_domain = '''', ca_eventName = '''', ca_tag = ''''\<rparr>"

text \<open>
  The members of \<^verbatim>\<open>HiSysEventTool\<close> but for the condition variable, with the text printed so
  far and the exit code once the process has ended.
\<close>

record tool =
  tl_clientCmdArg :: arg_struct
  tl_autoExit :: bool
  tl_isSupportEventCheck :: bool
  tl_out :: string
  tl_exit :: "int option"

definition HiSysEventTool_new :: "tool_env \<Rightarrow> bool \<Rightarrow> tool" where
  "HiSysEventTool_new te autoExit =
     \<lparr>tl_clientCmdArg = arg_struct_default, tl_autoExit = autoExit, tl_isSupportEventCheck = te_isSupportEventCheck te,
      tl_out = '''', tl_exit = None\<rparr>"

definition put_text :: "string \<Rightarrow> tool \<Rightarrow> tool" where
  "put_text s t = t\<lparr>tl_out := tl_out t @ s\<rparr>"

definition put_line :: "string \<Rightarrow> tool \<Rightarrow> tool" where
  "put_line s t = put_text (s @ [CHR 0x0A]) t"

definition exit_process :: "int \<Rightarrow> tool \<Rightarrow> tool" where
  "exit_process code t = t\<lparr>tl_exit := Some code\<rparr>"

text \<open>The map \<^verbatim>\<open>optHandlers_\<close> that \<^verbatim>\<open>InitOptHandlers\<close> fills: a handler by letter.\<close>

definition optHandlers :: "tool_env \<Rightarrow> bool \<Rightarrow> char \<Rightarrow> (string \<Rightarrow> arg_struct \<Rightarrow> arg_struct) option" where
  "optHandlers te isSupportEventCheck opt =
     (if opt = CHR ''r'' then Some (\<lambda>optarg a. a\<lparr>ca_real := True\<rparr>)
      else if opt = CHR ''c'' then Some (\<lambda>optarg a. a\<lparr>ca_ruleType := GetRuleTypeFromArg optarg\<rparr>)
      else if opt = CHR ''o'' then Some (\<lambda>optarg a. a\<lparr>ca_domain := optarg\<rparr>)
      else if opt = CHR ''n'' then Some (\<lambda>optarg a. a\<lparr>ca_eventName := optarg\<rparr>)
      else if opt = CHR ''t'' then Some (\<lambda>optarg a. a\<lparr>ca_tag := optarg\<rparr>)
      else if opt = CHR ''l'' then Some (\<lambda>optarg a. a\<lparr>ca_history := True\<rparr>)
      else if opt = CHR ''s'' then Some (\<lambda>optarg a. a\<lparr>ca_beginTime := ParseNumFromStr optarg\<rparr>)
      else if opt = CHR ''S'' then Some (\<lambda>optarg a. a\<lparr>ca_beginTime := ParseTimeStampFromArgs te optarg\<rparr>)
      else if opt = CHR ''e'' then Some (\<lambda>optarg a. a\<lparr>ca_endTime := ParseNumFromStr optarg\<rparr>)
      else if opt = CHR ''E'' then Some (\<lambda>optarg a. a\<lparr>ca_endTime := ParseTimeStampFromArgs te optarg\<rparr>)
      else if opt = CHR ''m'' then Some (\<lambda>optarg a. a\<lparr>ca_maxEvents := ParseNumFromStr optarg\<rparr>)
      else if opt = CHR ''g'' then Some (\<lambda>optarg a. a\<lparr>ca_eventType := GetEventTypeFromArg optarg\<rparr>)
      else if opt = CHR ''v'' \<and> isSupportEventCheck then Some (\<lambda>optarg a. a\<lparr>ca_checkValidEvent := True\<rparr>)
      else None)"

definition DoCmdHelp :: "tool \<Rightarrow> tool" where
  "DoCmdHelp t =
     (let v = tl_isSupportEventCheck t in
      foldl (\<lambda>t s. put_line s t) t
       ([''hisysevent ['' @ (if v then ''[-v] '' else '''') @ ''-r [-c [WHOLE_WORD|PREFIX|REGULAR] -t <tag> ''
          @ ''| -c [WHOLE_WORD|PREFIX|REGULAR] -o <domain> -n <eventName> ''
          @ ''| -g [FAULT|STATISTIC|SECURITY|BEHAVIOR]] ''
          @ ''| -l [[-s <begin time> -e <end time> | -S <formatted begin time> -E <formatted end time>] ''
          @ ''-m <count> -c [WHOLE_WORD] -o <domain> -n <eventName> -g [FAULT|STATISTIC|SECURITY|BEHAVIOR]]]'',
         ''-r,    subscribe on all domains, event names and tags.'',
         ''-r -c [WHOLE_WORD|PREFIX|REGULAR] -t <tag>, subscribe on tag.'',
         ''-r -c [WHOLE_WORD|PREFIX|REGULAR] -o <domain> -n <eventName>, subscribe on domain and event name.'',
         ''-r -g [FAULT|STATISTIC|SECURITY|BEHAVIOR], subscribe on event type.'',
         ''-l -s <begin time> -e <end time> -m <max hisysevent count>''
          @ '', get history hisysevent log with time stamps, end time should not be earlier than begin time.'',
         ''-l -S <formatted begin time> -E <formatted end time> -m <max hisysevent count>''
          @ '', get history hisysevent log with formatted time string, end time should not be earlier than begin time.'',
         ''-l -c [WHOLE_WORD] -o <domain> -n <eventName> -m <max hisysevent count>''
          @ '', get history hisysevent log with domain and event name.'',
         ''-l -g [FAULT|STATISTIC|SECURITY|BEHAVIOR] -m <max hisysevent count>''
          @ '', get history hisysevent log with event type.'']
        @ (if v then [''-v,    open valid event checking mode.''] else []) @ [''-h,    help manual.'']))"

text \<open>The loop over the options; after \<^verbatim>\<open>_exit\<close> nothing more happens.\<close>

primrec HandleInput_loop :: "tool_env \<Rightarrow> opt list \<Rightarrow> tool \<Rightarrow> tool" where
  "HandleInput_loop te [] t = t"
| "HandleInput_loop te (opt # opts) t =
     (let t1 = (if fst opt = CHR ''h'' then DoCmdHelp t else t) in
      if fst opt = CHR ''h'' \<and> tl_autoExit t then exit_process 0 t1
      else HandleInput_loop te opts
        (case optHandlers te (tl_isSupportEventCheck t1) (fst opt) of
           None \<Rightarrow> t1
         | Some handler \<Rightarrow>
             t1\<lparr>tl_clientCmdArg := handler (case snd opt of None \<Rightarrow> '''' | Some optarg \<Rightarrow> optarg) (tl_clientCmdArg t1)\<rparr>))"

definition HandleInput :: "tool_env \<Rightarrow> string list \<Rightarrow> string \<Rightarrow> tool \<Rightarrow> tool" where
  "HandleInput te argv selection t = HandleInput_loop te (getopt_all selection (tl argv)) t"

definition CheckCmdLine :: "tool \<Rightarrow> tool \<times> bool" where
  "CheckCmdLine t =
     (let a = tl_clientCmdArg t in
      if \<not> ca_real a \<and> \<not> ca_history a then (t, False)
      else if ca_real a \<and> ca_history a then (put_line ''canot read both read && history hisysevent'' t, False)
      else if ca_history a \<and> 0 <s ca_endTime a \<and> ca_endTime a <s ca_beginTime a
      then (put_line (''invalid time startTime must less than endTime('' @ decimal_int (sint (ca_beginTime a)) @ '' > '' @
          decimal_int (sint (ca_endTime a)) @ '').'') t, False)
      else (t, True))"

text \<open>\<open>argv\<close> holds the name of the program first; \<open>None\<close> is a null pointer.\<close>

definition ParseCmdLine :: "tool_env \<Rightarrow> string list option \<Rightarrow> tool \<Rightarrow> tool \<times> bool" where
  "ParseCmdLine te argv t =
     (case argv of
        None \<Rightarrow> (t, False)
      | Some av \<Rightarrow>
          if length av \<le> 1 then CheckCmdLine t
          else
            let t' = HandleInput te av
              (if tl_isSupportEventCheck t then ''vrc:o:n:t:lS:s:E:e:m:hg:'' else ''rc:o:n:t:lS:s:E:e:m:hg:'') t in
            if tl_exit t' \<noteq> None then (t', False) else CheckCmdLine t')"

section \<open>What the tool does\<close>

definition GetErrorDescription :: "int \<Rightarrow> string" where
  "GetErrorDescription errCode =
     (case map_of [(ERR_SYS_EVENT_SERVICE_NOT_FOUND, ''service not found.''), (-12, ''parcel data is null.''),
         (-13, ''remote service is null.''), (-14, ''descriptor wrote failed.''), (-15, ''parcel wrote failed.''),
         (-16, ''remote object wrote failed.''), (-17, ''request sent failed.''), (-18, ''parcel read failed.''),
         (-22, ''add death recipient failed.''), (ERR_QUERY_RULE_INVALID, ''invalid query rule.''),
         (-26, ''too many wathers subscribed.''), (-31, ''query too frequently.'')] errCode of
        None \<Rightarrow> ''unknown error.''
      | Some s \<Rightarrow> s)"

text \<open>\<open>listener\<close> is the number of the new listener object.\<close>

definition DoAction :: "tool_env \<Rightarrow> 'f server \<Rightarrow> nat \<Rightarrow> tool \<Rightarrow> 'f registry \<Rightarrow> tool \<times> 'f registry \<times> bool" where
  "DoAction te sv listener t st =
     (let a = tl_clientCmdArg t in
      if ca_ruleType a = REGULAR_WORD \<and>
         (\<not> IsValidRegex te (ca_domain a) \<or> \<not> IsValidRegex te (ca_eventName a) \<or> \<not> IsValidRegex te (ca_tag a))
      then (put_line ''invalid regex'' t, st, False)
      else if ca_real a then
        (case Manager_AddListener sv (Some listener)
            [ListenerRule_new (ca_domain a) (ca_eventName a) (ca_tag a) (ca_ruleType a) (ca_eventType a)] st of
          (st', retCode) \<Rightarrow>
            (if retCode \<noteq> IPC_CALL_SUCCEED
             then put_line (''failed to subscribe system event: '' @ GetErrorDescription retCode) t else t, st', True))
      else if ca_history a then
        (if ca_ruleType a \<noteq> WHOLE_WORD
         then (put_line ''only \"-c WHOLE_WORD\" supported with \"hisysevent -l\" cmd.'' t, st, False)
         else
           case Manager_Query sv (QueryArg_new (ca_beginTime a) (ca_endTime a) (ca_maxEvents a) (-1) (-1))
             (if ca_domain a \<noteq> [] \<or> ca_eventName a \<noteq> [] \<or> ca_eventType a \<noteq> INVALID_EVENT_TYPE
              then [QueryRule_new (ca_domain a) [ca_eventName a] (ca_ruleType a) (ca_eventType a) ''''] else []) st of
             (st', retCode) \<Rightarrow>
               (if retCode \<noteq> IPC_CALL_SUCCEED
                then put_line (''failed to query system event: '' @ GetErrorDescription retCode) t else t, st', True))
      else (t, st, False))"

text \<open>
  \<^verbatim>\<open>main\<close> up to the call of \<^verbatim>\<open>WaitClient\<close>: when the exit code is still \<open>None\<close>, the main
  thread waits.
\<close>

definition tool_main :: "tool_env \<Rightarrow> 'f server \<Rightarrow> nat \<Rightarrow> string list \<Rightarrow> 'f registry \<Rightarrow> tool \<times> 'f registry" where
  "tool_main te sv listener argv st =
     (case ParseCmdLine te (Some argv) (HiSysEventTool_new te True) of (t1, parsed) \<Rightarrow>
        if tl_exit t1 \<noteq> None then (t1, st)
        else if \<not> parsed then (exit_process (-1) (DoCmdHelp t1), st)
        else case DoAction te sv listener t1 st of (t2, st', acted) \<Rightarrow>
          if \<not> acted then (exit_process (-1) (DoCmdHelp t2), st') else (t2, st'))"

section \<open>The callbacks\<close>

text \<open>
  Both callback objects own a decorator from the start; the output goes to the tool's.
  \<open>None\<close> is an exception of the JSON library.
\<close>

record 'j tool_callback =
  tc_checkValidEvent :: bool
  tc_autoExit :: bool
  tc_eventJsonDecorator :: "'j decorator"

definition ToolListener_new :: "'j jsoncpp \<Rightarrow> string \<Rightarrow> bool \<Rightarrow> 'j tool_callback" where
  "ToolListener_new jc content checkValidEvent =
     \<lparr>tc_checkValidEvent = checkValidEvent, tc_autoExit = False, tc_eventJsonDecorator = Decorator_new jc content\<rparr>"

definition ToolQuery_new :: "'j jsoncpp \<Rightarrow> string \<Rightarrow> bool \<Rightarrow> bool \<Rightarrow> 'j tool_callback" where
  "ToolQuery_new jc content checkValidEvent autoExit =
     \<lparr>tc_checkValidEvent = checkValidEvent, tc_autoExit = autoExit, tc_eventJsonDecorator = Decorator_new jc content\<rparr>"

definition print_event :: "'j jsoncpp \<Rightarrow> 'j event_record \<Rightarrow> 'j tool_callback \<times> tool \<Rightarrow> ('j tool_callback \<times> tool) option" where
  "print_event jc sysEvent s = (case s of (cb, t) \<Rightarrow>
     if tc_checkValidEvent cb
     then map_option (\<lambda>(de, txt). (cb\<lparr>tc_eventJsonDecorator := de\<rparr>, put_line txt t))
       (DecorateEventJsonStr jc sysEvent (tc_eventJsonDecorator cb))
     else Some (cb, put_line (AsJson sysEvent) t))"

definition ToolListener_OnEvent ::
  "'j jsoncpp \<Rightarrow> 'j event_record option \<Rightarrow> 'j tool_callback \<times> tool \<Rightarrow> ('j tool_callback \<times> tool) option" where
  "ToolListener_OnEvent jc sysEvent s =
     (case sysEvent of None \<Rightarrow> Some s | Some r \<Rightarrow> print_event jc r s)"

definition ToolListener_OnServiceDied :: "tool \<Rightarrow> tool" where
  "ToolListener_OnServiceDied t = exit_process 0 (put_line ''service disconnect, exit'' t)"

primrec ToolQuery_OnQuery_loop ::
  "'j jsoncpp \<Rightarrow> 'j event_record list \<Rightarrow> 'j tool_callback \<times> tool \<Rightarrow> ('j tool_callback \<times> tool) option" where
  "ToolQuery_OnQuery_loop jc [] s = Some s"
| "ToolQuery_OnQuery_loop jc (r # rs) s =
     (case print_event jc r s of None \<Rightarrow> None | Some s' \<Rightarrow> ToolQuery_OnQuery_loop jc rs s')"

definition ToolQuery_OnQuery ::
  "'j jsoncpp \<Rightarrow> 'j event_record list option \<Rightarrow> 'j tool_callback \<times> tool \<Rightarrow> ('j tool_callback \<times> tool) option" where
  "ToolQuery_OnQuery jc sysEvents s =
     (case sysEvents of None \<Rightarrow> Some s | Some rs \<Rightarrow> ToolQuery_OnQuery_loop jc rs s)"

definition ToolQuery_OnComplete :: "'j tool_callback \<Rightarrow> tool \<Rightarrow> tool" where
  "ToolQuery_OnComplete cb t = (if \<not> tc_autoExit cb then t else exit_process 0 t)"

section \<open>Waiting\<close>

text \<open>
  \<^verbatim>\<open>WaitClient\<close> and \<^verbatim>\<open>NotifyClient\<close> run in two threads. The waiting thread tests the flag,
  then blocks, and tests again when it wakes up; it holds the mutex from the test until it
  blocks, but the notifying thread never takes the mutex, so its two actions fall anywhere.
  A blocked thread may also wake up without a notification, as the standard allows for
  \<^verbatim>\<open>condition_variable::wait\<close>; this is what the loop of \<^verbatim>\<open>WaitClient\<close> is for. Two fields are no
  part of the code: \<open>wc_woken\<close> counts these spurious wake-ups, and \<open>wc_missed\<close> records that
  the notification fell between the test and the blocking and no wake-up has made up for it.
\<close>

datatype wait_pc = Testing | AboutToBlock | Blocked | Returned
datatype notify_pc = Idle | FlagCleared | Notified

record wait_client =
  wc_wait :: wait_pc
  wc_notify :: notify_pc
  wc_isCondNeedWait :: bool
  wc_missed :: bool
  wc_woken :: nat

definition wait_client_init :: wait_client where
  "wait_client_init = \<lparr>wc_wait = Testing, wc_notify = Idle, wc_isCondNeedWait = True, wc_missed = False,
     wc_woken = 0\<rparr>"

inductive wait_step :: "wait_client \<Rightarrow> wait_client \<Rightarrow> bool" where
  test_wait: "wc_wait s = Testing \<Longrightarrow> wc_isCondNeedWait s \<Longrightarrow> wait_step s (s\<lparr>wc_wait := AboutToBlock\<rparr>)"
| test_return: "wc_wait s = Testing \<Longrightarrow> \<not> wc_isCondNeedWait s \<Longrightarrow> wait_step s (s\<lparr>wc_wait := Returned\<rparr>)"
| block: "wc_wait s = AboutToBlock \<Longrightarrow> wait_step s (s\<lparr>wc_wait := Blocked\<rparr>)"
| clear_flag: "wc_notify s = Idle \<Longrightarrow> wait_step s (s\<lparr>wc_notify := FlagCleared, wc_isCondNeedWait := False\<rparr>)"
| notify_wakes: "wc_notify s = FlagCleared \<Longrightarrow> wc_wait s = Blocked \<Longrightarrow>
    wait_step s (s\<lparr>wc_notify := Notified, wc_wait := Testing\<rparr>)"
| notify_nobody: "wc_notify s = FlagCleared \<Longrightarrow> wc_wait s \<noteq> Blocked \<Longrightarrow>
    wait_step s (s\<lparr>wc_notify := Notified, wc_missed := (wc_wait s = AboutToBlock)\<rparr>)"
| wake_up: "wc_wait s = Blocked \<Longrightarrow>
    wait_step s (s\<lparr>wc_wait := Testing, wc_missed := False, wc_woken := wc_woken s + 1\<rparr>)"

inductive_cases wait_stepE: "wait_step s s'"

text \<open>The invariant of the protocol, and a measure of the steps that are left.\<close>

definition wait_inv :: "wait_client \<Rightarrow> bool" where
  "wait_inv s \<longleftrightarrow>
     (wc_isCondNeedWait s \<longleftrightarrow> wc_notify s = Idle) \<and>
     (wc_wait s = Returned \<longrightarrow> wc_notify s \<noteq> Idle) \<and>
     (wc_missed s \<longrightarrow> wc_notify s = Notified \<and> wc_wait s \<in> {AboutToBlock, Blocked}) \<and>
     (wc_notify s = Notified \<and> wc_wait s \<in> {AboutToBlock, Blocked} \<longrightarrow> wc_missed s)"

fun wait_measure :: "wait_client \<Rightarrow> nat" where
  "wait_measure s =
     (case wc_notify s of Idle \<Rightarrow> 3 | FlagCleared \<Rightarrow> 2 | Notified \<Rightarrow> 0) +
     (case wc_wait s of Testing \<Rightarrow> if wc_isCondNeedWait s then 2 else 1 | AboutToBlock \<Rightarrow> 1 | Blocked \<Rightarrow> 0 | Returned \<Rightarrow> 0)"

lemma wait_inv_init: "wait_inv wait_client_init"
  by (simp add: wait_inv_def wait_client_init_def)

lemma wait_step_inv: "wait_step s s' \<Longrightarrow> wait_inv s \<Longrightarrow> wait_inv s'"
  by (erule wait_stepE) (auto simp: wait_inv_def)

lemma wait_step_measure:
  "wait_step s s' \<Longrightarrow> wait_inv s \<Longrightarrow>
   1 + wait_measure s' + 3 * wc_woken s \<le> wait_measure s + 3 * wc_woken s'"
  by (erule wait_stepE) (auto simp: wait_inv_def split: wait_pc.splits)

lemma wait_reachable_inv: "wait_step\<^sup>*\<^sup>* s s' \<Longrightarrow> wait_inv s \<Longrightarrow> wait_inv s'"
  by (induction rule: rtranclp_induct) (auto intro: wait_step_inv)

lemma wait_runs_bounded:
  assumes "(wait_step ^^ n) s s'" "wait_inv s"
  shows "n + wait_measure s' + 3 * wc_woken s \<le> wait_measure s + 3 * wc_woken s'"
  using assms
proof (induction n arbitrary: s')
  case (Suc n)
  then obtain b where b: "(wait_step ^^ n) s b" "wait_step b s'"
    by auto
  then have "wait_inv b"
    using wait_reachable_inv Suc.prems(2) by (meson relpowp_imp_rtranclp)
  with Suc b wait_step_measure [of b s'] show ?case
    by (fastforce simp del: wait_measure.simps)
qed simp

text \<open>
  Where nothing but a spurious wake-up can happen, the flag has been cleared and the
  notification sent.
\<close>

definition wait_settled :: "wait_client \<Rightarrow> bool" where
  "wait_settled s \<longleftrightarrow> (\<forall>s'. wait_step s s' \<longrightarrow> wc_woken s' \<noteq> wc_woken s)"

lemma wait_final:
  assumes "wait_inv s" "wait_settled s"
  shows "wc_notify s = Notified \<and> (wc_wait s = Returned \<or> wc_wait s = Blocked)"
proof -
  have no: "wait_step s s' \<Longrightarrow> wc_woken s' = wc_woken s \<Longrightarrow> False" for s'
    using assms(2) by (simp add: wait_settled_def)
  have "wc_notify s \<noteq> Idle" "wc_wait s \<noteq> AboutToBlock"
    using no [OF clear_flag] no [OF block] by auto
  moreover have "wc_wait s \<noteq> Testing"
    using no [OF test_wait] no [OF test_return] by auto
  moreover have "wc_notify s \<noteq> FlagCleared"
    using no [OF notify_wakes] no [OF notify_nobody] by (cases "wc_wait s = Blocked") auto
  ultimately show ?thesis
    by (cases "wc_notify s"; cases "wc_wait s") simp_all
qed

text \<open>
  C31. However the two threads and any number of spurious wake-ups interleave: the waiting
  thread never returns before the notifying thread has cleared the flag; apart from at most
  three steps for each spurious wake-up the threads make at most five steps; and when nothing
  but a spurious wake-up can happen any more, the notification has been sent and the waiting
  thread has returned, unless the notification fell between its test of the flag and its
  blocking; in that case, and only then, it stays blocked until it wakes up by chance.
\<close>

theorem WaitClient_returns_or_missed:
  assumes "(wait_step ^^ n) wait_client_init s"
  shows "(wc_wait s = Returned \<longrightarrow> wc_notify s \<noteq> Idle) \<and> n \<le> 5 + 3 * wc_woken s \<and>
    (wait_settled s \<longrightarrow>
      wc_notify s = Notified \<and> wc_wait s = (if wc_missed s then Blocked else Returned))"
proof -
  have inv: "wait_inv s"
    using assms wait_reachable_inv [OF _ wait_inv_init] by (meson relpowp_imp_rtranclp)
  have "n \<le> 5 + 3 * wc_woken s"
    using wait_runs_bounded [OF assms wait_inv_init] by (simp add: wait_client_init_def)
  moreover have "wc_notify s = Notified \<and> wc_wait s = (if wc_missed s then Blocked else Returned)"
    if "wait_settled s"
    using wait_final [OF inv that] inv by (auto simp: wait_inv_def)
  moreover have "wc_wait s = Returned \<longrightarrow> wc_notify s \<noteq> Idle"
    using inv by (simp add: wait_inv_def)
  ultimately show ?thesis
    by blast
qed

text \<open>The witness: the thread blocks, wakes up by chance and has to test the flag again.\<close>

theorem WaitClient_returns_or_missed_witness:
  "\<exists>s. (wait_step ^^ Suc (Suc (Suc 0))) wait_client_init s \<and> wc_wait s = Testing \<and> wc_woken s = 1 \<and>
     (3::nat) \<le> 5 + 3 * wc_woken s \<and> (wc_wait s = Returned \<longrightarrow> wc_notify s \<noteq> Idle)"
proof -
  let ?s1 = "wait_client_init\<lparr>wc_wait := AboutToBlock\<rparr>"
  let ?s2 = "?s1\<lparr>wc_wait := Blocked\<rparr>"
  let ?s3 = "?s2\<lparr>wc_wait := Testing, wc_missed := False, wc_woken := wc_woken ?s2 + 1\<rparr>"
  have 1: "wait_step wait_client_init ?s1" and 2: "wait_step ?s1 ?s2" and 3: "wait_step ?s2 ?s3"
    by (rule wait_step.intros; simp add: wait_client_init_def)+
  have "(wait_step ^^ 0) wait_client_init wait_client_init"
    by simp
  from this 1 have "(wait_step ^^ Suc 0) wait_client_init ?s1"
    by (rule relpowp_Suc_I)
  from this 2 have "(wait_step ^^ Suc (Suc 0)) wait_client_init ?s2"
    by (rule relpowp_Suc_I)
  from this 3 have run: "(wait_step ^^ Suc (Suc (Suc 0))) wait_client_init ?s3"
    by (rule relpowp_Suc_I)
  from WaitClient_returns_or_missed [OF run] run show ?thesis
    by (intro exI [of _ ?s3]) (simp add: wait_client_init_def del: relpowp.simps)
qed

text \<open>
  The schedule that loses the notification exists: nothing but a spurious wake-up can help
  the thread, and after one it returns.
\<close>

lemma missed_notification_reachable:
  "\<exists>s. wait_step\<^sup>*\<^sup>* wait_client_init s \<and> wc_woken s = 0 \<and> wc_wait s = Blocked \<and> wc_notify s = Notified \<and>
     wait_settled s \<and> (\<exists>s' s''. wait_step s s' \<and> wait_step s' s'' \<and> wc_wait s'' = Returned)"
proof -
  let ?s1 = "wait_client_init\<lparr>wc_wait := AboutToBlock\<rparr>"
  let ?s2 = "?s1\<lparr>wc_notify := FlagCleared, wc_isCondNeedWait := False\<rparr>"
  let ?s3 = "?s2\<lparr>wc_notify := Notified, wc_missed := (wc_wait ?s2 = AboutToBlock)\<rparr>"
  let ?s4 = "?s3\<lparr>wc_wait := Blocked\<rparr>"
  let ?s5 = "?s4\<lparr>wc_wait := Testing, wc_missed := False, wc_woken := wc_woken ?s4 + 1\<rparr>"
  have "wait_step wait_client_init ?s1" "wait_step ?s1 ?s2" "wait_step ?s2 ?s3" "wait_step ?s3 ?s4"
    by (rule wait_step.intros; simp add: wait_client_init_def)+
  then have "wait_step\<^sup>*\<^sup>* wait_client_init ?s4"
    by (meson rtranclp.rtrancl_into_rtrancl rtranclp.rtrancl_refl)
  moreover have "wait_settled ?s4"
    by (auto elim!: wait_stepE simp: wait_settled_def wait_client_init_def)
  moreover have "wait_step ?s4 ?s5" "wait_step ?s5 (?s5\<lparr>wc_wait := Returned\<rparr>)"
    by (rule wait_step.intros; simp add: wait_client_init_def)+
  ultimately show ?thesis
    by (intro exI [of _ ?s4] conjI exI [of _ ?s5] exI [of _ "?s5\<lparr>wc_wait := Returned\<rparr>"])
      (simp_all add: wait_client_init_def)
qed

section \<open>What the callbacks print\<close>

lemma print_event_visible:
  assumes "decorator_laws jc" "plain_event r"
  shows "\<exists>cb' out. print_event jc r (cb, t) = Some (cb', put_text out t) \<and> tc_autoExit cb' = tc_autoExit cb \<and>
    (\<forall>rest. visible False (out @ rest) = er_jsonStr r @ CHR 0x0A # visible False rest)"
proof (cases "tc_checkValidEvent cb")
  case True
  obtain de' out where d: "DecorateEventJsonStr jc r (tc_eventJsonDecorator cb) = Some (de', out)"
    "\<And>rest. visible False (out @ rest) = er_jsonStr r @ visible False rest"
    using decorated_visible [OF assms] by blast
  with True show ?thesis
    by (auto simp: print_event_def put_line_def intro!: exI [of _ "out @ [CHR 0x0A]"])
next
  case False
  have "visible False ((er_jsonStr r @ [CHR 0x0A]) @ rest) = er_jsonStr r @ CHR 0x0A # visible False rest" for rest
    using assms(2) by (simp add: plain_event_def visible_plain)
  with False show ?thesis
    by (auto simp: print_event_def put_line_def AsJson_def)
qed

text \<open>
  C28. A page of query results is printed whole: for records whose texts the scanner can
  split and that hold no escape character, the tool prints every record once, in order, one
  on each line, without an exception; with the option \<^verbatim>\<open>-v\<close> only colours are added, which
  a terminal does not show as text.
\<close>

theorem ToolQuery_prints_page:
  assumes "decorator_laws jc" "\<forall>r \<in> set rs. plain_event r"
  shows "\<exists>cb' out. ToolQuery_OnQuery jc (Some rs) (cb, t) = Some (cb', put_text out t) \<and>
    tc_autoExit cb' = tc_autoExit cb \<and> visible False out = concat (map (\<lambda>r. er_jsonStr r @ [CHR 0x0A]) rs)"
proof -
  have "\<exists>cb' out. ToolQuery_OnQuery_loop jc rs (cb, t) = Some (cb', put_text out t) \<and> tc_autoExit cb' = tc_autoExit cb \<and>
      (\<forall>rest. visible False (out @ rest) = concat (map (\<lambda>r. er_jsonStr r @ [CHR 0x0A]) rs) @ visible False rest)"
    using assms(2)
  proof (induction rs arbitrary: cb t)
    case Nil
    show ?case
      by (intro exI [of _ cb] exI [of _ "[]"]) (simp add: put_text_def)
  next
    case (Cons r rs)
    obtain cb1 out1 where 1: "print_event jc r (cb, t) = Some (cb1, put_text out1 t)" "tc_autoExit cb1 = tc_autoExit cb"
      "\<And>rest. visible False (out1 @ rest) = er_jsonStr r @ CHR 0x0A # visible False rest"
      using print_event_visible [OF assms(1), of r cb t] Cons.prems by auto
    obtain cb2 out2 where 2: "ToolQuery_OnQuery_loop jc rs (cb1, put_text out1 t) = Some (cb2, put_text out2 (put_text out1 t))"
      "tc_autoExit cb2 = tc_autoExit cb1"
      "\<And>rest. visible False (out2 @ rest) = concat (map (\<lambda>r. er_jsonStr r @ [CHR 0x0A]) rs) @ visible False rest"
      using Cons.IH [of cb1 "put_text out1 t"] Cons.prems by auto
    show ?case
      by (intro exI [of _ cb2] exI [of _ "out1 @ out2"]) (simp add: 1 2, simp add: put_text_def)
  qed
  then obtain cb' out where "ToolQuery_OnQuery_loop jc rs (cb, t) = Some (cb', put_text out t)"
    "tc_autoExit cb' = tc_autoExit cb"
    "\<forall>rest. visible False (out @ rest) = concat (map (\<lambda>r. er_jsonStr r @ [CHR 0x0A]) rs) @ visible False rest"
    by blast
  then show ?thesis
    by (intro exI [of _ cb'] exI [of _ out]) (auto simp: ToolQuery_OnQuery_def dest: spec [of _ "[]"])
qed

theorem ToolQuery_prints_page_witness:
  "\<exists>cb' out. ToolQuery_OnQuery (plain_json None) (Some [sample_plain, sample_plain])
      (ToolQuery_new (plain_json None) '''' True True, HiSysEventTool_new sample_tool_env True) =
      Some (cb', put_text out (HiSysEventTool_new sample_tool_env True)) \<and>
    tc_autoExit cb' = tc_autoExit (ToolQuery_new (plain_json None) '''' True True) \<and>
    visible False out = concat (map (\<lambda>r. er_jsonStr r @ [CHR 0x0A]) [sample_plain, sample_plain])"
  by (rule ToolQuery_prints_page [OF plain_json_decorator_laws]) (simp add: sample_plain_event)

lemma sint_size64: "n < 2 ^ 63 \<Longrightarrow> sint (word_of_nat n :: 64 word) = int n"
  by (simp add: sint_uint unat_of_nat uint_nat signed_take_bit_int_eq_self_iff)

section \<open>Reading options\<close>

text \<open>The handlers of a list of options without \<^verbatim>\<open>-h\<close>, applied from left to right.\<close>

definition apply_opt :: "tool_env \<Rightarrow> bool \<Rightarrow> opt \<Rightarrow> arg_struct \<Rightarrow> arg_struct" where
  "apply_opt te check opt a =
     (case optHandlers te check (fst opt) of
        None \<Rightarrow> a
      | Some handler \<Rightarrow> handler (case snd opt of None \<Rightarrow> '''' | Some optarg \<Rightarrow> optarg) a)"

lemma HandleInput_loop_fold:
  "\<forall>opt \<in> set opts. fst opt \<noteq> CHR ''h'' \<Longrightarrow>
   HandleInput_loop te opts t =
     t\<lparr>tl_clientCmdArg := fold (apply_opt te (tl_isSupportEventCheck t)) opts (tl_clientCmdArg t)\<rparr>"
  by (induction opts arbitrary: t) (auto simp: apply_opt_def split: option.splits)

text \<open>The two letters for the begin, and the two for the end, set the same field.\<close>

definition opt_slot :: "opt \<Rightarrow> char" where
  "opt_slot opt = (if fst opt = CHR ''S'' then CHR ''s'' else if fst opt = CHR ''E'' then CHR ''e'' else fst opt)"

lemma optHandlers_letters:
  "optHandlers te v (CHR ''r'') = Some (\<lambda>optarg a. a\<lparr>ca_real := True\<rparr>)"
  "optHandlers te v (CHR ''c'') = Some (\<lambda>optarg a. a\<lparr>ca_ruleType := GetRuleTypeFromArg optarg\<rparr>)"
  "optHandlers te v (CHR ''o'') = Some (\<lambda>optarg a. a\<lparr>ca_domain := optarg\<rparr>)"
  "optHandlers te v (CHR ''n'') = Some (\<lambda>optarg a. a\<lparr>ca_eventName := optarg\<rparr>)"
  "optHandlers te v (CHR ''t'') = Some (\<lambda>optarg a. a\<lparr>ca_tag := optarg\<rparr>)"
  "optHandlers te v (CHR ''l'') = Some (\<lambda>optarg a. a\<lparr>ca_history := True\<rparr>)"
  "optHandlers te v (CHR ''s'') = Some (\<lambda>optarg a. a\<lparr>ca_beginTime := ParseNumFromStr optarg\<rparr>)"
  "optHandlers te v (CHR ''S'') = Some (\<lambda>optarg a. a\<lparr>ca_beginTime := ParseTimeStampFromArgs te optarg\<rparr>)"
  "optHandlers te v (CHR ''e'') = Some (\<lambda>optarg a. a\<lparr>ca_endTime := ParseNumFromStr optarg\<rparr>)"
  "optHandlers te v (CHR ''E'') = Some (\<lambda>optarg a. a\<lparr>ca_endTime := ParseTimeStampFromArgs te optarg\<rparr>)"
  "optHandlers te v (CHR ''m'') = Some (\<lambda>optarg a. a\<lparr>ca_maxEvents := ParseNumFromStr optarg\<rparr>)"
  "optHandlers te v (CHR ''g'') = Some (\<lambda>optarg a. a\<lparr>ca_eventType := GetEventTypeFromArg optarg\<rparr>)"
  "optHandlers te v (CHR ''v'') = (if v then Some (\<lambda>optarg a. a\<lparr>ca_checkValidEvent := True\<rparr>) else None)"
  by (simp_all add: optHandlers_def)

lemma optHandlers_Some: "optHandlers te v c = Some h \<Longrightarrow>
    c \<in> {CHR ''r'', CHR ''c'', CHR ''o'', CHR ''n'', CHR ''t'', CHR ''l'', CHR ''s'', CHR ''S'', CHR ''e'', CHR ''E'', CHR ''m'', CHR ''g'', CHR ''v''}"
  by (simp add: optHandlers_def split: if_splits)

lemma apply_opt_commute:
  assumes "opt_slot o1 \<noteq> opt_slot o2"
  shows "apply_opt te v o1 (apply_opt te v o2 a) = apply_opt te v o2 (apply_opt te v o1 a)"
proof (cases "optHandlers te v (fst o1) = None \<or> optHandlers te v (fst o2) = None")
  case False
  obtain c1 v1 c2 v2 where o: "o1 = (c1, v1)" "o2 = (c2, v2)"
    by fastforce
  have "c1 \<in> {CHR ''r'', CHR ''c'', CHR ''o'', CHR ''n'', CHR ''t'', CHR ''l'', CHR ''s'', CHR ''S'', CHR ''e'', CHR ''E'', CHR ''m'', CHR ''g'', CHR ''v''}"
    "c2 \<in> {CHR ''r'', CHR ''c'', CHR ''o'', CHR ''n'', CHR ''t'', CHR ''l'', CHR ''s'', CHR ''S'', CHR ''e'', CHR ''E'', CHR ''m'', CHR ''g'', CHR ''v''}"
    using False o optHandlers_Some by fastforce+
  then show ?thesis
    using assms unfolding o apply_opt_def opt_slot_def fst_conv snd_conv
    by (elim insertE emptyE) (simp_all add: optHandlers_letters)
qed (auto simp: apply_opt_def split: option.split)

lemma fold_apply_opt_perm:
  assumes "mset opts = mset opts'" "distinct (map opt_slot opts')"
  shows "fold (apply_opt te v) opts = fold (apply_opt te v) opts'"
proof (rule fold_multiset_equiv [OF _ assms(1)])
  fix o1 o2
  assume "o1 \<in> set opts" "o2 \<in> set opts"
  then have "o1 \<in> set opts'" "o2 \<in> set opts'"
    using assms(1) by (metis set_mset_mset)+
  then have "o1 = o2 \<or> opt_slot o1 \<noteq> opt_slot o2"
    using assms(2) by (auto simp: distinct_map inj_on_def)
  then show "apply_opt te v o1 \<circ> apply_opt te v o2 = apply_opt te v o2 \<circ> apply_opt te v o1"
    using apply_opt_commute by fastforce
qed

section \<open>What is asked of the server\<close>

lemma put_lines: "foldl (\<lambda>t s. put_line s t) t xs = t\<lparr>tl_out := tl_out t @ concat (map (\<lambda>s. s @ [CHR 0x0A]) xs)\<rparr>"
  by (induction xs arbitrary: t) (simp_all add: put_line_def put_text_def)

lemma DoCmdHelp_frame [simp]:
  "tl_clientCmdArg (DoCmdHelp t) = tl_clientCmdArg t" "tl_exit (DoCmdHelp t) = tl_exit t"
  "tl_autoExit (DoCmdHelp t) = tl_autoExit t" "tl_isSupportEventCheck (DoCmdHelp t) = tl_isSupportEventCheck t"
  unfolding DoCmdHelp_def Let_def put_lines by simp_all

lemma put_line_frame [simp]:
  "tl_clientCmdArg (put_line s t) = tl_clientCmdArg t" "tl_exit (put_line s t) = tl_exit t"
  by (simp_all add: put_line_def put_text_def)

lemma exit_process_frame [simp]:
  "tl_exit (exit_process code t) = Some code" "tl_clientCmdArg (exit_process code t) = tl_clientCmdArg t"
  by (simp_all add: exit_process_def)

text \<open>The arguments that \<^verbatim>\<open>CheckCmdLine\<close> accepts.\<close>

definition args_ok :: "arg_struct \<Rightarrow> bool" where
  "args_ok a \<longleftrightarrow> ca_real a \<noteq> ca_history a \<and> (ca_history a \<longrightarrow> \<not> (0 <s ca_endTime a \<and> ca_endTime a <s ca_beginTime a))"

lemma CheckCmdLine_result:
  "CheckCmdLine t = (t', ok) \<Longrightarrow>
     ok = args_ok (tl_clientCmdArg t) \<and> tl_clientCmdArg t' = tl_clientCmdArg t \<and> tl_exit t' = tl_exit t \<and> (ok \<longrightarrow> t' = t)"
  unfolding CheckCmdLine_def args_ok_def Let_def by (auto split: if_splits)

lemma ParseCmdLine_result:
  assumes "ParseCmdLine te argv t = (t', ok)" "tl_exit t' = None"
  shows "ok \<longrightarrow> args_ok (tl_clientCmdArg t')"
  using assms CheckCmdLine_result
  by (fastforce simp: ParseCmdLine_def Let_def split: option.splits if_splits)

definition tool_listener_rule :: "arg_struct \<Rightarrow> listener_rule" where
  "tool_listener_rule a =
     ListenerRule_new (ca_domain a) (ca_eventName a) (ca_tag a) (ca_ruleType a) (ca_eventType a)"

definition tool_query_rules :: "arg_struct \<Rightarrow> query_rule list" where
  "tool_query_rules a =
     (if ca_domain a \<noteq> [] \<or> ca_eventName a \<noteq> [] \<or> ca_eventType a \<noteq> 0
      then [QueryRule_new (ca_domain a) [ca_eventName a] WHOLE_WORD (ca_eventType a) ''''] else [])"

definition tool_query_argument :: "arg_struct \<Rightarrow> query_argument" where
  "tool_query_argument a =
     (let q = QueryArg_new (ca_beginTime a) (ca_endTime a) (ca_maxEvents a) (-1) (-1) in
      \<lparr>qa_beginTime = ar_beginTime q, qa_endTime = ar_endTime q, qa_maxEvents = ar_maxEvents q,
       qa_fromSeq = -1, qa_toSeq = -1\<rparr>)"

lemma Manager_AddListener_new_log:
  "\<exists>cb. map fst (rg_log (fst (Manager_AddListener sv (Some l) rules (registry_new files)))) =
     (if sv_present sv [] then [RemoveDeath cb, AddRequest (ConvertListenerRule rules) cb] else [])"
  by (auto simp: Manager_AddListener_def map_index_def new_base_def Base_AddListener_def Delegate_AddListener_def
      request_server_def registry_new_def Let_def split: prod.splits)

lemma Manager_Query_new_log:
  "map fst (rg_log (fst (Manager_Query sv (QueryArg_new b e m (-1) (-1)) rules (registry_new files)))) =
     (if sv_present sv []
      then [QueryRequest \<lparr>qa_beginTime = ar_beginTime (QueryArg_new b e m (-1) (-1)),
              qa_endTime = ar_endTime (QueryArg_new b e m (-1) (-1)),
              qa_maxEvents = ar_maxEvents (QueryArg_new b e m (-1) (-1)), qa_fromSeq = -1, qa_toSeq = -1\<rparr>
            (ConvertQueryRule rules)]
      else [])"
  by (simp add: Manager_Query_def Base_Query_def Delegate_Query_def request_server_def registry_new_def Let_def
      QueryArg_new_def)

text \<open>What the server is asked when the tool goes on waiting with the arguments \<open>a\<close>.\<close>

definition asked :: "'f server \<Rightarrow> arg_struct \<Rightarrow> request list \<Rightarrow> bool" where
  "asked sv a rqs \<longleftrightarrow>
     (if \<not> sv_present sv [] then rqs = []
      else if ca_real a then \<exists>cb. rqs = [RemoveDeath cb, AddRequest (ConvertListenerRule [tool_listener_rule a]) cb]
      else ca_ruleType a = WHOLE_WORD \<and> rqs = [QueryRequest (tool_query_argument a) (ConvertQueryRule (tool_query_rules a))])"

lemma DoAction_asks:
  assumes "DoAction te sv l t (registry_new files) = (t', st', acted)" "args_ok (tl_clientCmdArg t)"
  shows "tl_clientCmdArg t' = tl_clientCmdArg t \<and> tl_exit t' = tl_exit t \<and>
    (if acted then asked sv (tl_clientCmdArg t) (map fst (rg_log st')) else st' = registry_new files)"
proof -
  let ?a = "tl_clientCmdArg t"
  consider (regex) "ca_ruleType ?a = REGULAR_WORD"
      "\<not> IsValidRegex te (ca_domain ?a) \<or> \<not> IsValidRegex te (ca_eventName ?a) \<or> \<not> IsValidRegex te (ca_tag ?a)"
    | (ok) "\<not> (ca_ruleType ?a = REGULAR_WORD \<and>
       (\<not> IsValidRegex te (ca_domain ?a) \<or> \<not> IsValidRegex te (ca_eventName ?a) \<or> \<not> IsValidRegex te (ca_tag ?a)))"
    by blast
  then show ?thesis
  proof cases
    case regex
    with assms(1) show ?thesis
      by (auto simp: DoAction_def Let_def)
  next
    case ok
    obtain st1 r1 where add: "Manager_AddListener sv (Some l) [tool_listener_rule ?a] (registry_new files) = (st1, r1)"
      by fastforce
    obtain st2 r2 where query: "Manager_Query sv (QueryArg_new (ca_beginTime ?a) (ca_endTime ?a) (ca_maxEvents ?a) (-1) (-1))
        (tool_query_rules ?a) (registry_new files) = (st2, r2)"
      by fastforce
    show ?thesis
    proof (cases "ca_real ?a")
      case True
      have "asked sv ?a (map fst (rg_log st1))"
        using Manager_AddListener_new_log [of sv l "[tool_listener_rule ?a]" files] add True by (auto simp: asked_def)
      then show ?thesis
        using assms(1) ok True add
        by (auto simp: DoAction_def Let_def tool_listener_rule_def split: if_splits)
    next
      case False
      then have hist: "ca_history ?a"
        using assms(2) by (simp add: args_ok_def)
      have "asked sv ?a (map fst (rg_log st2))" if "ca_ruleType ?a = WHOLE_WORD"
        using Manager_Query_new_log [of sv "ca_beginTime ?a" "ca_endTime ?a" "ca_maxEvents ?a" "tool_query_rules ?a" files]
          query False that
        by (auto simp: asked_def tool_query_argument_def Let_def)
      then show ?thesis
        using assms(1) ok False hist query
        by (auto simp: DoAction_def Let_def tool_query_rules_def INVALID_EVENT_TYPE_def split: if_splits)
    qed
  qed
qed

lemma tool_main_asks:
  assumes "tool_main te sv l argv (registry_new files) = (t, st')"
  shows "if tl_exit t \<noteq> None then st' = registry_new files
    else args_ok (tl_clientCmdArg t) \<and> asked sv (tl_clientCmdArg t) (map fst (rg_log st'))"
proof -
  obtain t1 parsed where p: "ParseCmdLine te (Some argv) (HiSysEventTool_new te True) = (t1, parsed)"
    by fastforce
  obtain t2 st2 acted where a: "DoAction te sv l t1 (registry_new files) = (t2, st2, acted)"
    by (metis prod_cases3)
  show ?thesis
  proof (cases "tl_exit t1 = None \<and> parsed")
    case True
    then have "args_ok (tl_clientCmdArg t1)"
      using ParseCmdLine_result [OF p] by simp
    then show ?thesis
      using DoAction_asks [OF a] True assms p a by (auto simp: tool_main_def split: if_splits)
  next
    case False
    with assms p show ?thesis
      by (auto simp: tool_main_def split: if_splits)
  qed
qed

text \<open>
  C29. Whatever its arguments, the tool asks the server for at most one thing, and only when
  it was told to: a process that ends with its help text has asked for nothing; one that
  waits was given exactly one of \<^verbatim>\<open>-r\<close> and \<^verbatim>\<open>-l\<close>, and has made one subscription with the one
  rule its arguments describe, or one query, in whole words and with an end that is not
  before its begin, or nothing when there is no server.
\<close>

theorem tool_asks_once:
  assumes "tool_main te sv l argv (registry_new files) = (t, st')"
  shows "(tl_exit t \<noteq> None \<longrightarrow> rg_log st' = []) \<and>
    (tl_exit t = None \<longrightarrow>
       ca_real (tl_clientCmdArg t) \<noteq> ca_history (tl_clientCmdArg t) \<and>
       (if \<not> sv_present sv [] then rg_log st' = []
        else if ca_real (tl_clientCmdArg t) then
          \<exists>cb. map fst (rg_log st') =
            [RemoveDeath cb, AddRequest (ConvertListenerRule [tool_listener_rule (tl_clientCmdArg t)]) cb]
        else ca_ruleType (tl_clientCmdArg t) = WHOLE_WORD \<and>
          \<not> (0 <s ca_endTime (tl_clientCmdArg t) \<and> ca_endTime (tl_clientCmdArg t) <s ca_beginTime (tl_clientCmdArg t)) \<and>
          map fst (rg_log st') =
            [QueryRequest (tool_query_argument (tl_clientCmdArg t)) (ConvertQueryRule (tool_query_rules (tl_clientCmdArg t)))]))"
  using tool_main_asks [OF assms] by (auto simp: registry_new_def asked_def args_ok_def)

text \<open>
  C30. A query written on the command line is the query the server gets: with the options
  for the begin, the end, the count, the domain, the name and the type in any order, the
  server is asked for exactly that, with one rule in whole words, and the numbers unchanged
  for every begin and end up to the largest 64-bit and every count up to the largest 32-bit
  integer.
\<close>

theorem query_line_sent:
  assumes "sv_present sv []" "b \<le> e" "e < 2 ^ 63" "m < 2 ^ 31"
    "(g, gt) \<in> set [(''FAULT'', 1), (''STATISTIC'', 2), (''SECURITY'', 3), (''BEHAVIOR'', 4)]"
    "mset opts = mset [(CHR ''l'', None), (CHR ''s'', Some (decimal b)), (CHR ''e'', Some (decimal e)),
       (CHR ''m'', Some (decimal m)), (CHR ''o'', Some d), (CHR ''n'', Some n), (CHR ''g'', Some g)]"
  shows "map fst (rg_log (snd (tool_main te sv l (''hisysevent'' # concat (map render_opt opts)) (registry_new files)))) =
    [QueryRequest \<lparr>qa_beginTime = of_nat b, qa_endTime = of_nat e, qa_maxEvents = of_nat m, qa_fromSeq = -1, qa_toSeq = -1\<rparr>
       [\<lparr>qr_domain = d, qr_eventList = [n], qr_ruleType = WHOLE_WORD, qr_eventType = gt, qr_condition = ''''\<rparr>]]"
proof -
  let ?opts = "[(CHR ''l'', None), (CHR ''s'', Some (decimal b)), (CHR ''e'', Some (decimal e)),
       (CHR ''m'', Some (decimal m)), (CHR ''o'', Some d), (CHR ''n'', Some n), (CHR ''g'', Some g)]"
  let ?v = "te_isSupportEventCheck te"
  let ?sel = "if ?v then ''vrc:o:n:t:lS:s:E:e:m:hg:'' else ''rc:o:n:t:lS:s:E:e:m:hg:''"
  let ?t0 = "HiSysEventTool_new te True"
  define a where "a = arg_struct_default\<lparr>ca_history := True, ca_beginTime := of_nat b, ca_endTime := of_nat e,
      ca_maxEvents := of_nat m, ca_domain := d, ca_eventName := n, ca_eventType := gt\<rparr>"
  have ops: "set opts = set ?opts"
    using assms(6) by (metis set_mset_mset)
  have written: "list_all (opt_written ?sel) ?opts"
    by (simp add: opt_written_def)
  have "list_all (opt_written ?sel) opts"
    using written ops by (simp only: list_all_iff)
  then have opt: "getopt_all ?sel (concat (map render_opt opts)) = opts"
    by (rule getopt_all_render)
  have nums: "(ParseNumFromStr (decimal b) :: 64 word) = of_nat b" "(ParseNumFromStr (decimal e) :: 64 word) = of_nat e"
    "(ParseNumFromStr (decimal m) :: 32 word) = of_nat m"
    using assms(2-4) by (simp_all add: ParseNumFromStr_decimal)
  have g: "GetEventTypeFromArg g = gt" "gt \<noteq> 0"
    using assms(5) by (auto simp: GetEventTypeFromArg_def)
  have "distinct (map opt_slot ?opts)"
    by (simp add: opt_slot_def)
  then have "fold (apply_opt te ?v) opts arg_struct_default = fold (apply_opt te ?v) ?opts arg_struct_default"
    using fold_apply_opt_perm [OF assms(6)] by simp
  also have "\<dots> = a"
    by (simp add: a_def apply_opt_def optHandlers_letters nums g arg_struct_default_def)
  finally have "HandleInput te (''hisysevent'' # concat (map render_opt opts)) ?sel ?t0 = ?t0\<lparr>tl_clientCmdArg := a\<rparr>"
    using HandleInput_loop_fold [of opts te ?t0] ops opt by (simp add: HandleInput_def HiSysEventTool_new_def)
  moreover have "1 < length (''hisysevent'' # concat (map render_opt opts))"
    using assms(6) by (cases opts) (auto elim: render_opt.elims)
  moreover have order: "\<not> (0 <s (of_nat e :: 64 word) \<and> (of_nat e :: 64 word) <s of_nat b)"
    "\<not> (of_nat b :: 64 word) <s 0" "\<not> (of_nat e :: 64 word) <s 0" "\<not> (of_nat m :: 32 word) <s 0"
    using assms(2-4) by (simp_all add: word_sless_alt sint_size sint_size64)
  ultimately have "ParseCmdLine te (Some (''hisysevent'' # concat (map render_opt opts))) ?t0 = (?t0\<lparr>tl_clientCmdArg := a\<rparr>, True)"
    by (simp add: ParseCmdLine_def CheckCmdLine_def HiSysEventTool_new_def a_def arg_struct_default_def Let_def)
  then show ?thesis
    using assms(1) g order
    by (simp add: tool_main_def DoAction_def a_def HiSysEventTool_new_def arg_struct_default_def WHOLE_WORD_def REGULAR_WORD_def
        Let_def Manager_Query_def Base_Query_def Delegate_Query_def request_server_def registry_new_def QueryArg_new_def
        ConvertQueryRule_def QueryRule_new_def INVALID_EVENT_TYPE_def split: prod.split)
qed

theorem query_line_sent_witness:
  "map fst (rg_log (snd (tool_main sample_tool_env kind_server 5 [''hisysevent'', ''-o'', ''D'', ''-l'', ''-e'', decimal 20,
      ''-s'', decimal 10, ''-n'', ''E'', ''-g'', ''FAULT'', ''-m'', decimal 7] (registry_new [])))) =
    [QueryRequest \<lparr>qa_beginTime = of_nat 10, qa_endTime = of_nat 20, qa_maxEvents = of_nat 7, qa_fromSeq = -1, qa_toSeq = -1\<rparr>
       [\<lparr>qr_domain = ''D'', qr_eventList = [''E''], qr_ruleType = WHOLE_WORD, qr_eventType = 1, qr_condition = ''''\<rparr>]]"
  using query_line_sent [of kind_server 10 20 7 "''FAULT''" 1 "[(CHR ''o'', Some ''D''), (CHR ''l'', None),
      (CHR ''e'', Some (decimal 20)), (CHR ''s'', Some (decimal 10)), (CHR ''n'', Some ''E''), (CHR ''g'', Some ''FAULT''),
      (CHR ''m'', Some (decimal 7))]" "''D''" "''E''" sample_tool_env 5 "[]"]
  by (simp add: kind_server_def)

theorem tool_asks_once_witness:
  "\<exists>t st'. tool_main sample_tool_env kind_server 5 [''hisysevent'', ''-l'', ''-r''] (registry_new []) = (t, st') \<and>
     (tl_exit t \<noteq> None \<longrightarrow> rg_log st' = [])"
proof -
  obtain t st' where "tool_main sample_tool_env kind_server 5 [''hisysevent'', ''-l'', ''-r''] (registry_new []) = (t, st')"
    by fastforce
  with tool_asks_once [OF this] show ?thesis
    by blast
qed

text \<open>
  A query or subscription that failed still makes the tool wait, although no callback will
  ever come: it prints the error and goes on running.
\<close>

lemma failed_query_waits:
  "tl_exit (fst (tool_main sample_tool_env (kind_server\<lparr>sv_present := (\<lambda>_. False)\<rparr>) 5 [''hisysevent'', ''-l''] (registry_new []))) = None"
  "tl_out (fst (tool_main sample_tool_env (kind_server\<lparr>sv_present := (\<lambda>_. False)\<rparr>) 5 [''hisysevent'', ''-l''] (registry_new []))) =
     ''failed to query system event: service not found.'' @ [CHR 0x0A]"
  by code_simp+

end
