(* ===== verification/CallbackManager.thy ===== *)
theory CallbackManager
  imports Prelude "HOL-Library.Sublist"
begin

text \<open>
  The hand-over of events to JavaScript (js_callback_manager.cpp, napi_callback_context.h,
  napi_hisysevent_listener.cpp and napi_hisysevent_querier.cpp under
  src/interfaces/js/kits/napi). Events arrive on IPC threads; JavaScript may be called on its
  own thread only. Every listener or querier owns a manager: a queue of tasks, of which one at
  a time is loaded into the callback context and posted as a work on the event loop of the
  JavaScript thread; when the work is done it pops its task and posts the next.

  The context is shared by all the tasks of a listener and is read when the work runs, not
  when it is posted, so the store of contexts is part of the state. The answers of the engine
  (is there an event loop, could a work be allocated, could a handle scope be opened) are
  arguments of the operations. Here every operation is one piece, as a thread runs it that no
  other thread disturbs: the machine of this theory has whole calls of \<^verbatim>\<open>Add\<close>, as those of the
  one thread that delivers the pages of a query, whole completions of works and whole calls of
  \<^verbatim>\<open>Release\<close> as its steps. CallbackInterleaving cuts the operations where they give up the lock
  or read an atomic variable, and lets the pieces of several threads interleave.
\<close>

section \<open>Data\<close>

text \<open>
  A C++ function object is the closure it stands for or null. The release function that
  \<^verbatim>\<open>Add\<close> stores is never null: it is a lambda that captured the \<open>release\<close> argument.
\<close>

record 'f callback_context =
  env_set :: bool
  callback :: "'f option"
  release :: "'f option option"

type_synonym 'f task = "nat option \<times> 'f option \<times> 'f option"

record 'f js_callback_manager =
  inCalling :: bool
  IsReleased :: bool
  jsCallbacks :: "'f task list"

text \<open>The manager, the contexts by address, and the works posted on the loop, each by the
  address of its \<^verbatim>\<open>data\<close>.\<close>

record 'f js_machine =
  manager :: "'f js_callback_manager"
  contexts :: "nat \<Rightarrow> 'f callback_context"
  uv_works :: "nat list"

record engine =
  loop_ok :: bool
  work_ok :: bool
  scope_ok :: bool

text \<open>What the JavaScript thread executes.\<close>

datatype 'f js_call = Callback_called 'f | Release_called 'f

section \<open>The operations\<close>

definition set_inCalling :: "bool \<Rightarrow> 'f js_machine \<Rightarrow> 'f js_machine" where
  "set_inCalling b m = m\<lparr>manager := (manager m)\<lparr>inCalling := b\<rparr>\<rparr>"

definition set_jsCallbacks :: "'f task list \<Rightarrow> 'f js_machine \<Rightarrow> 'f js_machine" where
  "set_jsCallbacks q m = m\<lparr>manager := (manager m)\<lparr>jsCallbacks := q\<rparr>\<rparr>"

lemma set_inCalling_simps [simp]:
  "manager (set_inCalling b m) = (manager m)\<lparr>inCalling := b\<rparr>"
  "contexts (set_inCalling b m) = contexts m" "uv_works (set_inCalling b m) = uv_works m"
  by (simp_all add: set_inCalling_def)

lemma set_jsCallbacks_simps [simp]:
  "manager (set_jsCallbacks q m) = (manager m)\<lparr>jsCallbacks := q\<rparr>"
  "contexts (set_jsCallbacks q m) = contexts m" "uv_works (set_jsCallbacks q m) = uv_works m"
  by (simp_all add: set_jsCallbacks_def)

definition RunCallback :: "engine \<Rightarrow> nat \<Rightarrow> 'f task \<Rightarrow> 'f js_machine \<Rightarrow> 'f js_machine" where
  "RunCallback e ctx current m =
     (if \<not> loop_ok e then m
      else
        let c = (contexts m ctx)\<lparr>callback := fst (snd current),
                                  release := Some (snd (snd current))\<rparr>;
            m1 = m\<lparr>contexts := (contexts m)(ctx := c)\<rparr>
        in if \<not> work_ok e then m1 else m1\<lparr>uv_works := uv_works m1 @ [ctx]\<rparr>)"

definition ImmediateRun :: "engine \<Rightarrow> bool \<Rightarrow> 'f js_machine \<Rightarrow> 'f js_machine" where
  "ImmediateRun e needPop m0 =
     (let m = set_inCalling True m0 in
      if IsReleased (manager m) then m
      else
        let q0 = jsCallbacks (manager m);
            q = (if needPop \<and> q0 \<noteq> [] then tl q0 else q0);
            m1 = set_jsCallbacks q m
        in (case q of
              [] \<Rightarrow> set_inCalling False m1
            | current # _ \<Rightarrow>
                (case fst current of
                   None \<Rightarrow> set_inCalling False m1
                 | Some ctx \<Rightarrow> RunCallback e ctx current m1)))"

text \<open>
  \<^verbatim>\<open>Add\<close> up to the end of its locked section: the flag says whether the caller has to go on
  to \<^verbatim>\<open>ImmediateRun\<close>.
\<close>

definition Add_locked :: "nat option \<Rightarrow> 'f option \<Rightarrow> 'f option \<Rightarrow> 'f js_machine \<Rightarrow> bool \<times> 'f js_machine"
where
  "Add_locked context cb rel m =
     (if IsReleased (manager m) then (False, m)
      else (\<not> inCalling (manager m),
            set_jsCallbacks (jsCallbacks (manager m) @ [(context, cb, rel)]) m))"

text \<open>The whole call, by a thread that is alone between the lock and \<^verbatim>\<open>ImmediateRun\<close>.\<close>

definition Add :: "engine \<Rightarrow> nat option \<Rightarrow> 'f option \<Rightarrow> 'f option \<Rightarrow> 'f js_machine \<Rightarrow> 'f js_machine" where
  "Add e context cb rel m =
     (case Add_locked context cb rel m of (run, m1) \<Rightarrow>
        if run then ImmediateRun e False m1 else m1)"

definition Release :: "'f js_machine \<Rightarrow> 'f js_machine" where
  "Release m = m\<lparr>manager := (manager m)\<lparr>IsReleased := True, jsCallbacks := []\<rparr>\<rparr>"

text \<open>
  The loop takes the oldest work and runs its completion function. The release function is the
  lambda of \<^verbatim>\<open>Add\<close>: without a captured function it runs the next task, otherwise it calls the
  captured one, which destroys the manager's owner and so runs nothing further.
\<close>

definition AfterWork :: "engine \<Rightarrow> 'f js_machine \<Rightarrow> 'f js_call list \<times> 'f js_machine" where
  "AfterWork e m =
     (case uv_works m of
        [] \<Rightarrow> ([], m)
      | ctx # works \<Rightarrow>
          let m1 = m\<lparr>uv_works := works\<rparr>; c = contexts m1 ctx in
          if \<not> env_set c then ([], m1)
          else if \<not> scope_ok e then ([], m1)
          else
            let called = (case callback c of None \<Rightarrow> [] | Some f \<Rightarrow> [Callback_called f]) in
            (case release c of
               None \<Rightarrow> (called, m1)
             | Some None \<Rightarrow> (called, ImmediateRun e True m1)
             | Some (Some r) \<Rightarrow> (called @ [Release_called r], m1)))"

section \<open>Runs\<close>

text \<open>
  A run is any sequence of whole operations: the delivering thread adds a task, the loop
  completes a work, the owner is destroyed.
\<close>

datatype 'f js_label =
    L_Add engine "nat option" "'f option" "'f option"
  | L_AfterWork engine
  | L_Release

inductive js_step :: "'f js_machine \<Rightarrow> 'f js_label \<Rightarrow> 'f js_call list \<Rightarrow> 'f js_machine \<Rightarrow> bool" where
  add: "js_step m (L_Add e ctx cb rel) [] (Add e ctx cb rel m)"
| after: "AfterWork e m = (out, m') \<Longrightarrow> uv_works m \<noteq> [] \<Longrightarrow> js_step m (L_AfterWork e) out m'"
| release: "js_step m L_Release [] (Release m)"

inductive js_run :: "'f js_machine \<Rightarrow> 'f js_label list \<Rightarrow> 'f js_call list \<Rightarrow> 'f js_machine \<Rightarrow> bool"
  for m0 where
  start: "js_run m0 [] [] m0"
| more: "js_run m0 ls outs m \<Longrightarrow> js_step m l out m' \<Longrightarrow> js_run m0 (ls @ [l]) (outs @ out) m'"

inductive_cases js_add_elim: "js_step m (L_Add e ctx cb rel) out m'"
inductive_cases js_after_elim: "js_step m (L_AfterWork e) out m'"
inductive_cases js_release_elim: "js_step m L_Release out m'"

lemmas js_step_elims = js_add_elim js_after_elim js_release_elim

definition js_machine_new :: "(nat \<Rightarrow> 'f callback_context) \<Rightarrow> 'f js_machine" where
  "js_machine_new cs =
     \<lparr>manager = \<lparr>inCalling = False, IsReleased = False, jsCallbacks = []\<rparr>, contexts = cs, uv_works = []\<rparr>"

text \<open>The tasks a run hands over, in order, and the loop completing a number of works.\<close>

fun added :: "'f js_label list \<Rightarrow> 'f task list" where
  "added [] = []"
| "added (L_Add e ctx cb rel # ls) = (ctx, cb, rel) # added ls"
| "added (l # ls) = added ls"

primrec drain :: "engine \<Rightarrow> nat \<Rightarrow> 'f js_machine \<Rightarrow> 'f js_call list \<times> 'f js_machine" where
  "drain e 0 m = ([], m)"
| "drain e (Suc n) m =
     (case AfterWork e m of (out, m1) \<Rightarrow> (case drain e n m1 of (outs, m2) \<Rightarrow> (out @ outs, m2)))"

section \<open>The contract\<close>

text \<open>
  What JavaScript is to see of a sequence of tasks: every callback once, in order, up to the
  first task that came with a release function of its own, which is called after its callback
  and ends the sequence.
\<close>

fun task_calls :: "'f task list \<Rightarrow> 'f js_call list" where
  "task_calls [] = []"
| "task_calls ((ctx, cb, rel) # ts) =
     (case cb of None \<Rightarrow> [] | Some f \<Rightarrow> [Callback_called f]) @
     (case rel of None \<Rightarrow> task_calls ts | Some r \<Rightarrow> [Release_called r])"

definition ends :: "'f task list \<Rightarrow> bool" where
  "ends ts \<longleftrightarrow> (\<exists>t \<in> set ts. snd (snd t) \<noteq> None)"

lemma ends_simps [simp]:
  "\<not> ends []"
  "ends (t # ts) \<longleftrightarrow> snd (snd t) \<noteq> None \<or> ends ts"
  "ends (ts @ us) \<longleftrightarrow> ends ts \<or> ends us"
  by (auto simp: ends_def)

lemma task_calls_append:
  "task_calls (ts @ us) = task_calls ts @ (if ends ts then [] else task_calls us)"
  by (induction ts rule: task_calls.induct) (auto split: option.splits)

lemma task_calls_mono: "prefix outs (task_calls ts) \<Longrightarrow> prefix outs (task_calls (ts @ us))"
  by (auto simp: task_calls_append prefix_def)

lemma prefix_of_append: "outs @ xs = ys \<Longrightarrow> prefix outs ys"
  by (auto simp: prefix_def)

lemma task_calls_head:
  assumes "outs @ task_calls (t # ts) = ys"
  shows "prefix (outs @ task_calls [t]) ys"
proof -
  have "task_calls (t # ts) = task_calls [t] @ (if ends [t] then [] else task_calls ts)"
    using task_calls_append [of "[t]" ts] by simp
  then show ?thesis
    using assms by (intro prefix_of_append) (simp only: append_assoc)
qed

lemma added_append [simp]: "added (ls @ ls') = added ls @ added ls'"
  by (induction ls rule: added.induct) auto


section \<open>What holds in every run\<close>

text \<open>A context that holds a task, ready for the work that was posted for it.\<close>

definition loaded :: "'f js_machine \<Rightarrow> nat \<Rightarrow> 'f task \<Rightarrow> bool" where
  "loaded m ctx t \<longleftrightarrow> callback (contexts m ctx) = fst (snd t) \<and> release (contexts m ctx) = Some (snd (snd t))"

lemma AfterWork_loaded:
  assumes "uv_works m = ctx # ws" "loaded m ctx (c, cb, rel)"
  shows "AfterWork e m =
     (if env_set (contexts m ctx) \<and> scope_ok e
      then ((case cb of None \<Rightarrow> [] | Some f \<Rightarrow> [Callback_called f]) @
              (case rel of None \<Rightarrow> [] | Some r \<Rightarrow> [Release_called r]),
            case rel of None \<Rightarrow> ImmediateRun e True (m\<lparr>uv_works := ws\<rparr>) | Some r \<Rightarrow> m\<lparr>uv_works := ws\<rparr>)
      else ([], m\<lparr>uv_works := ws\<rparr>))"
  using assms by (simp add: AfterWork_def loaded_def Let_def split: option.split)

text \<open>
  Three situations, given the tasks \<open>a\<close> added and the calls \<open>outs\<close> made so far: nothing will
  ever run again; nothing to run; one work is posted, for the first task of the queue.
\<close>

definition js_dead :: "'f js_machine \<Rightarrow> 'f task list \<Rightarrow> 'f js_call list \<Rightarrow> bool" where
  "js_dead m a outs \<longleftrightarrow>
     uv_works m = [] \<and> (inCalling (manager m) \<or> IsReleased (manager m)) \<and> prefix outs (task_calls a)"

definition js_idle :: "'f js_machine \<Rightarrow> 'f task list \<Rightarrow> 'f js_call list \<Rightarrow> bool" where
  "js_idle m a outs \<longleftrightarrow>
     uv_works m = [] \<and> \<not> inCalling (manager m) \<and> \<not> IsReleased (manager m) \<and>
     (case jsCallbacks (manager m) of [] \<Rightarrow> True | t # _ \<Rightarrow> fst t = None) \<and>
     outs @ task_calls (jsCallbacks (manager m)) = task_calls a \<and>
     ends (jsCallbacks (manager m)) = ends a"

definition js_busy :: "'f js_machine \<Rightarrow> 'f task list \<Rightarrow> 'f js_call list \<Rightarrow> bool" where
  "js_busy m a outs \<longleftrightarrow>
     (\<exists>ctx t. uv_works m = [ctx] \<and> loaded m ctx t \<and>
        (if IsReleased (manager m) then prefix (outs @ task_calls [t]) (task_calls a)
         else inCalling (manager m) \<and> fst t = Some ctx \<and>
              (\<exists>ts. jsCallbacks (manager m) = t # ts \<and>
                    outs @ task_calls (t # ts) = task_calls a \<and> ends (t # ts) = ends a)))"

definition js_inv :: "'f js_machine \<Rightarrow> 'f task list \<Rightarrow> 'f js_call list \<Rightarrow> bool" where
  "js_inv m a outs \<longleftrightarrow> js_dead m a outs \<or> js_idle m a outs \<or> js_busy m a outs"

lemma js_inv_new: "js_inv (js_machine_new cs) [] []"
  by (simp add: js_inv_def js_idle_def js_machine_new_def)

lemma js_inv_prefix: "js_inv m a outs \<Longrightarrow> prefix outs (task_calls a)"
proof -
  assume inv: "js_inv m a outs"
  show ?thesis
  proof (cases "js_busy m a outs")
    case True
    then show ?thesis
      unfolding js_busy_def by (metis append_prefixD prefixI)
  next
    case False
    then show ?thesis
      using inv by (auto simp: js_inv_def js_dead_def js_idle_def dest: prefix_of_append)
  qed
qed

text \<open>With the queue \<open>q\<close> that is left after popping, \<^verbatim>\<open>ImmediateRun\<close> posts its head.\<close>

lemma ImmediateRun_eq:
  assumes "\<not> IsReleased (manager m)"
    and q: "q = (if needPop \<and> jsCallbacks (manager m) \<noteq> [] then tl (jsCallbacks (manager m))
                 else jsCallbacks (manager m))"
  shows "ImmediateRun e needPop m =
      (case q of [] \<Rightarrow> set_inCalling False (set_jsCallbacks q (set_inCalling True m))
       | t # _ \<Rightarrow> (case fst t of
           None \<Rightarrow> set_inCalling False (set_jsCallbacks q (set_inCalling True m))
         | Some ctx \<Rightarrow> RunCallback e ctx t (set_jsCallbacks q (set_inCalling True m))))"
  using assms(1) unfolding q by (simp add: ImmediateRun_def Let_def)

text \<open>
  Looking for the next task with no work posted: the queue is what \<open>outs\<close> leaves of \<open>a\<close>, less
  the head when it is to be popped.
\<close>

lemma js_inv_ImmediateRun:
  assumes none: "uv_works m = []" and alive: "\<not> IsReleased (manager m)"
    and q: "q = (if needPop \<and> jsCallbacks (manager m) \<noteq> [] then tl (jsCallbacks (manager m))
                 else jsCallbacks (manager m))"
    and rest: "outs @ task_calls q = task_calls a" "ends q = ends a"
  shows "js_inv (ImmediateRun e needPop m) a outs"
proof (cases q)
  case Nil
  then show ?thesis
    using none alive q rest
    by (simp add: js_inv_def js_idle_def ImmediateRun_def Let_def)
next
  case (Cons t ts)
  obtain c cb rel where t: "t = (c, cb, rel)"
    by (cases t)
  define m1 where "m1 = set_jsCallbacks q (set_inCalling True m)"
  have run: "ImmediateRun e needPop m =
      (case c of None \<Rightarrow> set_inCalling False m1 | Some ctx \<Rightarrow> RunCallback e ctx t m1)"
    using Cons t by (simp add: ImmediateRun_eq [OF alive q] m1_def split: option.split)
  have dead: "js_inv m2 a outs"
    if "uv_works m2 = []" "inCalling (manager m2)" for m2
    using that prefix_of_append [OF rest(1)] by (simp add: js_inv_def js_dead_def)
  show ?thesis
  proof (cases c)
    case None
    then show ?thesis
      using run none alive Cons t rest
      by (simp add: js_inv_def js_idle_def m1_def)
  next
    case (Some ctx)
    show ?thesis
    proof (cases "loop_ok e \<and> work_ok e")
      case True
      then show ?thesis
        using run Some none alive Cons t rest
        by (simp add: js_inv_def js_busy_def loaded_def m1_def
            RunCallback_def Let_def)
    next
      case False
      then show ?thesis
        using run Some none alive
        by (intro dead) (auto simp: m1_def RunCallback_def Let_def)
    qed
  qed
qed

lemma js_inv_Add:
  assumes inv: "js_inv m a outs"
  shows "js_inv (Add e ctx cb rel m) (a @ [(ctx, cb, rel)]) outs"
proof -
  let ?t = "(ctx, cb, rel)"
  let ?m = "set_jsCallbacks (jsCallbacks (manager m) @ [?t]) m"
  have grow: "outs @ task_calls (q @ [?t]) = task_calls (a @ [?t]) \<and> ends (q @ [?t]) = ends (a @ [?t])"
    if "outs @ task_calls q = task_calls a" "ends q = ends a" for q
    using that by (auto simp: task_calls_append simp flip: append_assoc)
  consider (gone) "IsReleased (manager m)" | (dead) "js_dead m a outs" "\<not> IsReleased (manager m)"
    | (idle) "js_idle m a outs" "\<not> IsReleased (manager m)"
    | (busy) "js_busy m a outs" "\<not> IsReleased (manager m)"
    using inv by (auto simp: js_inv_def)
  then show ?thesis
  proof cases
    case gone
    then have "Add e ctx cb rel m = m"
      by (simp add: Add_def Add_locked_def)
    moreover have "js_busy m a outs \<Longrightarrow> js_busy m (a @ [?t]) outs"
      using gone task_calls_mono unfolding js_busy_def by metis
    moreover have "js_dead m a outs \<Longrightarrow> js_dead m (a @ [?t]) outs"
      using task_calls_mono unfolding js_dead_def by metis
    ultimately show ?thesis
      using inv gone by (auto simp: js_inv_def js_idle_def)
  next
    case dead
    then have "Add e ctx cb rel m = ?m"
      by (simp add: Add_def Add_locked_def js_dead_def)
    then show ?thesis
      using dead by (auto simp: js_inv_def js_dead_def set_jsCallbacks_def intro: task_calls_mono)
  next
    case idle
    then have "Add e ctx cb rel m = ImmediateRun e False ?m"
      by (simp add: Add_def Add_locked_def js_idle_def)
    then show ?thesis
      using idle grow
      by (simp add: js_idle_def js_inv_ImmediateRun)
  next
    case busy
    then have "Add e ctx cb rel m = ?m"
      by (auto simp: Add_def Add_locked_def js_busy_def)
    moreover have "js_busy ?m (a @ [?t]) outs"
    proof -
      obtain c t ts where "uv_works m = [c]" "loaded m c t" "inCalling (manager m)" "fst t = Some c"
          "jsCallbacks (manager m) = t # ts" "outs @ task_calls (t # ts) = task_calls a" "ends (t # ts) = ends a"
        using busy unfolding js_busy_def by (auto simp del: task_calls.simps ends_simps)
      then show ?thesis
        using grow [of "t # ts"] busy(2)
        unfolding js_busy_def by (intro exI [of _ c] exI [of _ t]) (simp add: loaded_def)
    qed
    ultimately show ?thesis
      by (simp add: js_inv_def)
  qed
qed


lemma js_inv_AfterWork:
  assumes inv: "js_inv m a outs" and work: "uv_works m \<noteq> []" and run: "AfterWork e m = (out, m')"
  shows "js_inv m' a (outs @ out)"
proof -
  have "js_busy m a outs"
    using inv work by (auto simp: js_inv_def js_dead_def js_idle_def)
  then obtain ctx t where w: "uv_works m = [ctx]" and l: "loaded m ctx t"
    and st: "if IsReleased (manager m) then prefix (outs @ task_calls [t]) (task_calls a)
         else inCalling (manager m) \<and> fst t = Some ctx \<and>
              (\<exists>ts. jsCallbacks (manager m) = t # ts \<and>
                    outs @ task_calls (t # ts) = task_calls a \<and> ends (t # ts) = ends a)"
    unfolding js_busy_def by blast
  obtain c cb rel where t: "t = (c, cb, rel)"
    by (cases t)
  let ?m = "m\<lparr>uv_works := []\<rparr>"
  let ?called = "case cb of None \<Rightarrow> [] | Some f \<Rightarrow> [Callback_called f]"
  note after = AfterWork_loaded [OF w l [unfolded t], of e]
  have live: "inCalling (manager m) \<or> IsReleased (manager m)"
    using st by (auto split: if_splits)
  have dead: "js_inv ?m a (outs @ out)" if "prefix (outs @ out) (task_calls a)"
    using that live by (simp add: js_inv_def js_dead_def)
  have whole: "prefix (outs @ task_calls [t]) (task_calls a)"
    using st by (auto simp del: task_calls.simps ends_simps split: if_splits dest: task_calls_head)
  show ?thesis
  proof (cases "env_set (contexts m ctx) \<and> scope_ok e")
    case False
    then have "out = []" "m' = ?m"
      using run after by (auto split: if_splits)
    then show ?thesis
      using dead js_inv_prefix [OF inv] by simp
  next
    case True
    show ?thesis
    proof (cases rel)
      case (Some r)
      then have "out = ?called @ [Release_called r]" "m' = ?m"
        using run after True by simp_all
      then show ?thesis
        using dead whole by (simp add: t Some)
    next
      case None
      then have out: "out = ?called" "m' = ImmediateRun e True ?m"
        using run after True by simp_all
      show ?thesis
      proof (cases "IsReleased (manager m)")
        case True
        then show ?thesis
          using out whole
          by (simp add: js_inv_def js_dead_def ImmediateRun_def Let_def t None)
      next
        case False
        then obtain ts where "jsCallbacks (manager m) = t # ts"
            "outs @ task_calls (t # ts) = task_calls a" "ends (t # ts) = ends a"
          using st by auto
        then show ?thesis
          using out False by (auto intro!: js_inv_ImmediateRun simp: t None)
      qed
    qed
  qed
qed

lemma js_inv_Release:
  assumes inv: "js_inv m a outs"
  shows "js_inv (Release m) a outs"
proof (cases "js_busy m a outs")
  case True
  then obtain ctx t where "uv_works m = [ctx]" "loaded m ctx t"
      "prefix (outs @ task_calls [t]) (task_calls a)"
    unfolding js_busy_def
    by (auto simp del: task_calls.simps ends_simps split: if_splits dest: task_calls_head)
  then have "js_busy (Release m) a outs"
    unfolding js_busy_def
    by (intro exI [of _ ctx] exI [of _ t]) (simp add: Release_def loaded_def del: task_calls.simps)
  then show ?thesis
    by (simp add: js_inv_def)
next
  case False
  then show ?thesis
    using inv js_inv_prefix [OF inv]
    by (auto simp: js_inv_def js_dead_def js_idle_def Release_def)
qed

lemma js_inv_step:
  assumes "js_step m l out m'" "js_inv m a outs"
  shows "js_inv m' (a @ added [l]) (outs @ out)"
  using assms by (cases rule: js_step.cases) (auto simp: js_inv_Add js_inv_AfterWork js_inv_Release)

lemma js_run_inv:
  assumes "js_run (js_machine_new cs) ls outs m"
  shows "js_inv m (added ls) outs"
  using assms
proof (induction rule: js_run.induct)
  case start
  then show ?case
    by (simp add: js_inv_new)
next
  case (more ls outs m l out m')
  then show ?case
    using js_inv_step by fastforce
qed


section \<open>Progress\<close>

text \<open>
  When the engine serves every request, every context is given with its environment, and the
  owner is not destroyed, work is posted whenever there is something left to call.
\<close>

definition engine_serves :: "engine \<Rightarrow> bool" where
  "engine_serves e \<longleftrightarrow> loop_ok e \<and> work_ok e \<and> scope_ok e"

fun label_served :: "(nat \<Rightarrow> 'f callback_context) \<Rightarrow> 'f js_label \<Rightarrow> bool" where
  "label_served cs (L_Add e ctx cb rel) \<longleftrightarrow> engine_serves e \<and> (\<exists>c. ctx = Some c \<and> env_set (cs c))"
| "label_served cs (L_AfterWork e) \<longleftrightarrow> engine_serves e"
| "label_served cs L_Release \<longleftrightarrow> False"

definition js_live ::
  "(nat \<Rightarrow> 'f callback_context) \<Rightarrow> 'f js_machine \<Rightarrow> 'f task list \<Rightarrow> 'f js_call list \<Rightarrow> bool"
where
  "js_live cs m a outs \<longleftrightarrow>
     js_inv m a outs \<and> \<not> IsReleased (manager m) \<and>
     (\<forall>c. env_set (contexts m c) = env_set (cs c)) \<and>
     (\<forall>t \<in> set (jsCallbacks (manager m)). \<exists>c. fst t = Some c \<and> env_set (cs c)) \<and>
     (uv_works m \<noteq> [] \<or> jsCallbacks (manager m) = [] \<and> \<not> inCalling (manager m) \<or>
      inCalling (manager m) \<and> ends a \<and> outs = task_calls a)"

lemma js_busy_intro: "js_inv m a outs \<Longrightarrow> uv_works m \<noteq> [] \<Longrightarrow> js_busy m a outs"
  by (auto simp: js_inv_def js_dead_def js_idle_def)

lemma js_live_busy:
  assumes "js_live cs m a outs" "uv_works m \<noteq> []"
  obtains ctx cb rel ts where
    "uv_works m = [ctx]" "loaded m ctx (Some ctx, cb, rel)" "env_set (contexts m ctx)"
    "inCalling (manager m)" "jsCallbacks (manager m) = (Some ctx, cb, rel) # ts"
    "outs @ task_calls ((Some ctx, cb, rel) # ts) = task_calls a"
    "ends ((Some ctx, cb, rel) # ts) = ends a"
proof -
  have "js_busy m a outs" "\<not> IsReleased (manager m)"
    and good: "\<forall>t \<in> set (jsCallbacks (manager m)). \<exists>c. fst t = Some c \<and> env_set (contexts m c)"
    using assms js_busy_intro by (auto simp: js_live_def)
  then obtain ctx t ts where "uv_works m = [ctx]" "loaded m ctx t" "inCalling (manager m)"
      "fst t = Some ctx" "jsCallbacks (manager m) = t # ts" "outs @ task_calls (t # ts) = task_calls a"
      "ends (t # ts) = ends a"
    unfolding js_busy_def by (auto simp del: task_calls.simps ends_simps)
  then show ?thesis
    using that good by (cases t) (auto simp del: task_calls.simps ends_simps)
qed

lemma js_live_rest: "js_live cs m a outs \<Longrightarrow> uv_works m = [] \<Longrightarrow> outs = task_calls a"
  by (auto simp: js_live_def js_inv_def js_dead_def js_idle_def js_busy_def)

lemma ImmediateRun_frame [simp]:
  "IsReleased (manager (ImmediateRun e p m)) = IsReleased (manager m)"
  "env_set (contexts (ImmediateRun e p m) c) = env_set (contexts m c)"
  by (auto simp: ImmediateRun_def RunCallback_def Let_def split: list.split option.split)

lemma ImmediateRun_queue:
  assumes "\<not> IsReleased (manager m)"
    and "q = (if needPop \<and> jsCallbacks (manager m) \<noteq> [] then tl (jsCallbacks (manager m))
              else jsCallbacks (manager m))"
  shows "jsCallbacks (manager (ImmediateRun e needPop m)) = q"
  using assms
  by (auto simp: ImmediateRun_def RunCallback_def Let_def split: list.split option.split)

lemma ImmediateRun_posts:
  assumes alive: "\<not> IsReleased (manager m)" and "engine_serves e"
    and q: "q = (if needPop \<and> jsCallbacks (manager m) \<noteq> [] then tl (jsCallbacks (manager m))
              else jsCallbacks (manager m))"
    and "\<forall>t \<in> set q. fst t \<noteq> None"
  shows "uv_works (ImmediateRun e needPop m) \<noteq> [] \<or>
         q = [] \<and> \<not> inCalling (manager (ImmediateRun e needPop m))"
  using assms(2,4) unfolding ImmediateRun_eq [OF alive q]
  by (cases q) (auto simp: RunCallback_def Let_def engine_serves_def)

lemma js_live_ImmediateRun:
  assumes inv: "js_inv (ImmediateRun e needPop m) a outs"
    and alive: "\<not> IsReleased (manager m)" and serves: "engine_serves e"
    and envs: "\<forall>c. env_set (contexts m c) = env_set (cs c)"
    and good: "\<forall>t \<in> set (jsCallbacks (manager m)). \<exists>c. fst t = Some c \<and> env_set (cs c)"
  shows "js_live cs (ImmediateRun e needPop m) a outs"
proof -
  define q where "q = (if needPop \<and> jsCallbacks (manager m) \<noteq> [] then tl (jsCallbacks (manager m))
                       else jsCallbacks (manager m))"
  have "set q \<subseteq> set (jsCallbacks (manager m))"
    by (auto simp: q_def dest: list.set_sel(2))
  then have "\<forall>t \<in> set q. \<exists>c. fst t = Some c \<and> env_set (cs c)"
    using good by blast
  moreover from this have "\<forall>t \<in> set q. fst t \<noteq> None"
    by fastforce
  ultimately show ?thesis
    using inv alive envs ImmediateRun_queue [OF alive q_def, of e]
      ImmediateRun_posts [OF alive serves q_def]
    by (simp add: js_live_def)
qed

lemma js_live_Add:
  assumes live: "js_live cs m a outs" and ok: "label_served cs (L_Add e ctx cb rel)"
  shows "js_live cs (Add e ctx cb rel m) (a @ [(ctx, cb, rel)]) outs"
proof -
  let ?t = "(ctx, cb, rel)"
  let ?m = "set_jsCallbacks (jsCallbacks (manager m) @ [?t]) m"
  have alive: "\<not> IsReleased (manager m)"
    and inv: "js_inv (Add e ctx cb rel m) (a @ [?t]) outs"
    using live js_inv_Add by (auto simp: js_live_def)
  show ?thesis
  proof (cases "inCalling (manager m)")
    case True
    then have "Add e ctx cb rel m = ?m"
      using alive by (simp add: Add_def Add_locked_def)
    then show ?thesis
      using live ok True inv by (auto simp: js_live_def task_calls_append)
  next
    case False
    then have eq: "Add e ctx cb rel m = ImmediateRun e False ?m"
      using alive by (simp add: Add_def Add_locked_def)
    show ?thesis
      using inv live ok unfolding eq by (intro js_live_ImmediateRun) (auto simp: js_live_def)
  qed
qed

lemma js_live_AfterWork:
  assumes live: "js_live cs m a outs" and serves: "engine_serves e" and work: "uv_works m \<noteq> []"
    and run: "AfterWork e m = (out, m')"
  shows "js_live cs m' a (outs @ out)"
    and "uv_works m' = [] \<or> length (jsCallbacks (manager m')) < length (jsCallbacks (manager m))"
proof -
  obtain ctx cb rel ts where w: "uv_works m = [ctx]" and l: "loaded m ctx (Some ctx, cb, rel)"
    and en: "env_set (contexts m ctx)" and ic: "inCalling (manager m)"
    and q: "jsCallbacks (manager m) = (Some ctx, cb, rel) # ts"
    and calls: "outs @ task_calls ((Some ctx, cb, rel) # ts) = task_calls a"
    and en': "ends ((Some ctx, cb, rel) # ts) = ends a"
    using js_live_busy [OF live work] by metis
  have alive: "\<not> IsReleased (manager m)"
    using live by (simp add: js_live_def)
  have inv: "js_inv m' a (outs @ out)"
    using live js_inv_AfterWork [OF _ work run] by (simp add: js_live_def)
  have res: "(out, m') = ((case cb of None \<Rightarrow> [] | Some f \<Rightarrow> [Callback_called f]) @
              (case rel of None \<Rightarrow> [] | Some r \<Rightarrow> [Release_called r]),
            case rel of None \<Rightarrow> ImmediateRun e True (m\<lparr>uv_works := []\<rparr>) | Some r \<Rightarrow> m\<lparr>uv_works := []\<rparr>)"
    using AfterWork_loaded [OF w l, of e] run en serves by (simp add: engine_serves_def)
  have "js_live cs m' a (outs @ out) \<and>
    (uv_works m' = [] \<or> length (jsCallbacks (manager m')) < length (jsCallbacks (manager m)))"
  proof (cases rel)
    case None
    then have m': "m' = ImmediateRun e True (m\<lparr>uv_works := []\<rparr>)"
      using res by simp
    then have "jsCallbacks (manager m') = ts"
      using alive q by (simp add: ImmediateRun_queue)
    moreover have "js_live cs m' a (outs @ out)"
      using inv live serves unfolding m' by (intro js_live_ImmediateRun) (auto simp: js_live_def)
    ultimately show ?thesis
      using q by simp
  next
    case (Some r)
    then show ?thesis
      using res inv live ic calls en' q by (simp add: js_live_def)
  qed
  then show "js_live cs m' a (outs @ out)"
    and "uv_works m' = [] \<or> length (jsCallbacks (manager m')) < length (jsCallbacks (manager m))"
    by auto
qed

lemma js_run_live:
  assumes "js_run (js_machine_new cs) ls outs m" "\<forall>l \<in> set ls. label_served cs l"
  shows "js_live cs m (added ls) outs"
  using assms
proof (induction rule: js_run.induct)
  case start
  show ?case
    by (simp add: js_live_def js_inv_new) (simp add: js_machine_new_def)
next
  case (more ls outs m l out m')
  from more.hyps(2) more.IH more.prems show ?case
    by (cases rule: js_step.cases) (auto simp: js_live_Add js_live_AfterWork)
qed

lemma drain_rest [simp]: "uv_works m = [] \<Longrightarrow> drain e n m = ([], m)"
  by (induction n) (simp_all add: AfterWork_def)

lemma drain_calls_all:
  assumes "js_live cs m a outs" "engine_serves e" "length (jsCallbacks (manager m)) \<le> n"
  shows "outs @ fst (drain e n m) = task_calls a \<and> uv_works (snd (drain e n m)) = []"
  using assms(1,3)
proof (induction n arbitrary: m outs)
  case 0
  then have "uv_works m = []"
    using js_live_busy [of cs m a outs] by force
  then show ?case
    using js_live_rest [OF 0(1)] by simp
next
  case (Suc n)
  show ?case
  proof (cases "uv_works m = []")
    case True
    then show ?thesis
      using js_live_rest [OF Suc.prems(1)] by (simp del: drain.simps)
  next
    case False
    obtain out m' where run: "AfterWork e m = (out, m')"
      by (cases "AfterWork e m")
    note next_live = js_live_AfterWork [OF Suc.prems(1) assms(2) False run]
    show ?thesis
    proof (cases "uv_works m' = []")
      case True
      then show ?thesis
        using js_live_rest [OF next_live(1)] run by simp
    next
      case False
      then show ?thesis
        using Suc.IH [OF next_live(1)] next_live(2) Suc.prems(2) run
        by (simp add: case_prod_unfold)
    qed
  qed
qed


section \<open>Listeners and queriers\<close>

text \<open>
  The closures that the owners of a manager add. Each compares the thread it was created on
  with the one it runs on and calls one function of the JavaScript object; the release function
  of \<^verbatim>\<open>OnComplete\<close> calls the handler that drops the querier. Of what \<^verbatim>\<open>OnEvent\<close> captures, only
  the detail is read.
\<close>

datatype js_closure =
    Call_onEvent string
  | Call_onServiceDied
  | Call_onQuery "string list"
  | Call_onComplete int int int
  | Call_onCompleteHandler

datatype js_argument = Event_info string | Event_info_array "string list" | Js_int int

type_synonym js_invocation = "string \<times> js_argument list"

definition NapiListener_OnEvent ::
  "engine \<Rightarrow> nat \<Rightarrow> string \<Rightarrow> string \<Rightarrow> int \<Rightarrow> string \<Rightarrow> js_closure js_machine \<Rightarrow> js_closure js_machine"
where
  "NapiListener_OnEvent e callbackContext domain eventName eventType eventDetail m =
     Add e (Some callbackContext) (Some (Call_onEvent eventDetail)) None m"

definition NapiListener_OnServiceDied ::
  "engine \<Rightarrow> nat \<Rightarrow> js_closure js_machine \<Rightarrow> js_closure js_machine"
where
  "NapiListener_OnServiceDied e callbackContext m =
     Add e (Some callbackContext) (Some Call_onServiceDied) None m"

definition NapiQuerier_OnQuery ::
  "engine \<Rightarrow> nat \<Rightarrow> string list \<Rightarrow> int list \<Rightarrow> js_closure js_machine \<Rightarrow> js_closure js_machine"
where
  "NapiQuerier_OnQuery e callbackContext sysEvents seq m =
     Add e (Some callbackContext) (Some (Call_onQuery sysEvents)) None m"

definition NapiQuerier_OnComplete ::
  "engine \<Rightarrow> nat \<Rightarrow> int \<Rightarrow> int \<Rightarrow> int \<Rightarrow> js_closure js_machine \<Rightarrow> js_closure js_machine"
where
  "NapiQuerier_OnComplete e callbackContext reason totalCount seq m =
     Add e (Some callbackContext) (Some (Call_onComplete reason totalCount seq)) (Some Call_onCompleteHandler) m"

definition invoke :: "nat \<Rightarrow> nat \<Rightarrow> js_closure js_call \<Rightarrow> js_invocation option" where
  "invoke getproctid threadId call =
     (if threadId \<noteq> getproctid then None
      else Some (case (case call of Callback_called f \<Rightarrow> f | Release_called f \<Rightarrow> f) of
          Call_onEvent detail \<Rightarrow> (''onEvent'', [Event_info detail])
        | Call_onServiceDied \<Rightarrow> (''onServiceDied'', [])
        | Call_onQuery events \<Rightarrow> (''onQuery'', [Event_info_array events])
        | Call_onComplete reason totalCount seq \<Rightarrow> (''onComplete'', [Js_int reason, Js_int totalCount, Js_int seq])
        | Call_onCompleteHandler \<Rightarrow> (''ReleaseQuerier'', [])))"

text \<open>The tasks of one query: its pages, then its completion.\<close>

definition query_tasks :: "nat \<Rightarrow> string list list \<Rightarrow> int \<Rightarrow> int \<Rightarrow> int \<Rightarrow> js_closure task list" where
  "query_tasks ctx pages reason totalCount seq =
     map (\<lambda>p. (Some ctx, Some (Call_onQuery p), None)) pages @
     [(Some ctx, Some (Call_onComplete reason totalCount seq), Some Call_onCompleteHandler)]"

lemma querier_steps:
  "js_step m (L_Add e (Some ctx) (Some (Call_onQuery p)) None) [] (NapiQuerier_OnQuery e ctx p s m)"
  "js_step m (L_Add e (Some ctx) (Some (Call_onComplete reason totalCount q)) (Some Call_onCompleteHandler))
     [] (NapiQuerier_OnComplete e ctx reason totalCount q m)"
  unfolding NapiQuerier_OnQuery_def NapiQuerier_OnComplete_def by (rule js_step.add)+

lemma listener_steps:
  "js_step m (L_Add e (Some ctx) (Some (Call_onEvent d)) None) [] (NapiListener_OnEvent e ctx domain n t d m)"
  "js_step m (L_Add e (Some ctx) (Some Call_onServiceDied) None) [] (NapiListener_OnServiceDied e ctx m)"
  unfolding NapiListener_OnEvent_def NapiListener_OnServiceDied_def by (rule js_step.add)+

lemma query_tasks_calls:
  "List.map_filter (invoke self self) (task_calls (query_tasks ctx pages reason totalCount seq)) =
     map (\<lambda>p. (''onQuery'', [Event_info_array p])) pages @
     [(''onComplete'', [Js_int reason, Js_int totalCount, Js_int seq]), (''ReleaseQuerier'', [])]"
  by (induction pages) (simp_all add: query_tasks_def map_filter_simps invoke_def)

text \<open>A run of additions only.\<close>

lemma js_run_add:
  "js_run m0 ls outs m \<Longrightarrow> js_run m0 (ls @ [L_Add e ctx cb rel]) outs (Add e ctx cb rel m)"
  using js_run.more [OF _ js_step.add] by fastforce

lemma js_run_after:
  "js_run m0 ls outs m \<Longrightarrow> uv_works m \<noteq> [] \<Longrightarrow>
   js_run m0 (ls @ [L_AfterWork e]) (outs @ fst (AfterWork e m)) (snd (AfterWork e m))"
  using js_run.more [OF _ js_step.after] by (metis prod.collapse)

definition engine_up :: engine where
  "engine_up = \<lparr>loop_ok = True, work_ok = True, scope_ok = True\<rparr>"

definition fresh_contexts :: "nat \<Rightarrow> 'f callback_context" where
  "fresh_contexts c = \<lparr>env_set = True, callback = None, release = None\<rparr>"

lemmas js_eval = engine_up_def fresh_contexts_def js_machine_new_def Add_def Add_locked_def
  ImmediateRun_def RunCallback_def AfterWork_def set_inCalling_def set_jsCallbacks_def Let_def

section \<open>Theorems\<close>

text \<open>Of whole operations: the calls made are a prefix of the calls the added tasks stand for.\<close>

lemma whole_calls_in_order: "js_run (js_machine_new cs) ls outs m \<Longrightarrow> prefix outs (task_calls (added ls))"
  using js_inv_prefix [OF js_run_inv] .

text \<open>While the engine serves every request, no callback is lost: from any point of a run,
  after as many completed works as tasks are queued every call that the added tasks stand for
  has been made, exactly once and in order, and no work is left on the loop.\<close>

lemma callbacks_all_run:
  assumes "js_run (js_machine_new cs) ls outs m" "\<forall>l \<in> set ls. label_served cs l" "engine_serves e"
  shows "outs @ fst (drain e (length (jsCallbacks (manager m))) m) = task_calls (added ls) \<and>
         uv_works (snd (drain e (length (jsCallbacks (manager m))) m)) = []"
  using drain_calls_all [OF js_run_live [OF assms(1,2)] assms(3)] by simp

lemma callbacks_all_run_example:
  "let m = Add engine_up (Some 7) (Some ''a'') None (js_machine_new fresh_contexts);
       m' = Add engine_up (Some 7) (Some ''b'') None m
   in fst (drain engine_up 2 m') = [Callback_called ''a'', Callback_called ''b'']"
proof -
  let ?m = "Add engine_up (Some 7) (Some ''a'') None (js_machine_new fresh_contexts)"
  let ?m' = "Add engine_up (Some 7) (Some ''b'') None ?m"
  have "length (jsCallbacks (manager ?m')) = 2"
    by (simp add: js_eval)
  moreover have "engine_serves engine_up"
    by (simp add: engine_serves_def engine_up_def)
  moreover have "js_run (js_machine_new fresh_contexts)
      (([] @ [L_Add engine_up (Some 7) (Some ''a'') None]) @ [L_Add engine_up (Some 7) (Some ''b'') None]) [] ?m'"
    by (intro js_run_add js_run.start)
  ultimately show ?thesis
    using callbacks_all_run [of fresh_contexts _ "[]" ?m' engine_up]
    by (force simp: fresh_contexts_def Let_def)
qed

text \<open>C32. A query from JavaScript sees every page once, in the order of the result, then its
  completion with the code and the total, and then its querier is released, however the
  arrival of pages on the IPC thread and the completed works interleave.\<close>

theorem query_seen_by_javascript:
  assumes "js_run (js_machine_new cs) ls outs m" "\<forall>l \<in> set ls. label_served cs l" "engine_serves e"
    and "added ls = query_tasks ctx pages reason totalCount seq"
  shows "List.map_filter (invoke self self) (outs @ fst (drain e (length (jsCallbacks (manager m))) m)) =
     map (\<lambda>p. (''onQuery'', [Event_info_array p])) pages @
     [(''onComplete'', [Js_int reason, Js_int totalCount, Js_int seq]), (''ReleaseQuerier'', [])]"
  using drain_calls_all [OF js_run_live [OF assms(1,2)] assms(3)] assms(4)
  by (simp add: query_tasks_calls)

theorem query_seen_by_javascript_witness:
  "let m = NapiQuerier_OnQuery engine_up 3 [''x''] [] (js_machine_new fresh_contexts);
       m' = NapiQuerier_OnComplete engine_up 3 0 1 9 m
   in List.map_filter (invoke 5 5) (fst (drain engine_up 2 m')) =
        [(''onQuery'', [Event_info_array [''x'']]), (''onComplete'', [Js_int 0, Js_int 1, Js_int 9]),
         (''ReleaseQuerier'', [])]"
proof -
  let ?m = "Add engine_up (Some 3) (Some (Call_onQuery [''x''])) None (js_machine_new fresh_contexts)"
  let ?m' = "Add engine_up (Some 3) (Some (Call_onComplete 0 1 9)) (Some Call_onCompleteHandler) ?m"
  have "length (jsCallbacks (manager ?m')) = 2"
    by (simp add: js_eval)
  moreover have "engine_serves engine_up"
    by (simp add: engine_serves_def engine_up_def)
  moreover have "js_run (js_machine_new fresh_contexts)
      (([] @ [L_Add engine_up (Some 3) (Some (Call_onQuery [''x''])) None]) @
       [L_Add engine_up (Some 3) (Some (Call_onComplete 0 1 9)) (Some Call_onCompleteHandler)]) [] ?m'"
    by (intro js_run_add js_run.start)
  ultimately show ?thesis
    using query_seen_by_javascript [of fresh_contexts _ "[]" ?m' engine_up 3 "[[''x'']]" 0 1 9 5]
    by (force simp: fresh_contexts_def query_tasks_def NapiQuerier_OnQuery_def NapiQuerier_OnComplete_def Let_def)
qed

lemma js_stuck_step:
  assumes "js_step m l out m'" "uv_works m = []" "inCalling (manager m) \<or> IsReleased (manager m)"
  shows "out = [] \<and> uv_works m' = [] \<and> (inCalling (manager m') \<or> IsReleased (manager m'))"
  using assms by (cases rule: js_step.cases) (auto simp: Add_def Add_locked_def Release_def)

lemma js_stuck_run:
  assumes "js_run m ls outs m'" "uv_works m = []" "inCalling (manager m) \<or> IsReleased (manager m)"
  shows "outs = [] \<and> uv_works m' = [] \<and> (inCalling (manager m') \<or> IsReleased (manager m'))"
  using assms by (induction rule: js_run.induct) (auto dest: js_stuck_step)

text \<open>A task that cannot be posted blocks its owner for good: when the engine has no event
  loop or no memory for the work of a task added to an idle manager, the flag of a running
  callback stays set, and neither that task nor any task added later is ever called, however
  well the engine serves from then on.\<close>

lemma failed_post_blocks:
  assumes "uv_works m = []" "\<not> inCalling (manager m)" "jsCallbacks (manager m) = []"
    and "\<not> (loop_ok e \<and> work_ok e)"
    and "js_run (Add e (Some ctx) cb rel m) ls outs m'"
  shows "outs = [] \<and> uv_works m' = []"
proof -
  let ?m = "Add e (Some ctx) cb rel m"
  have "uv_works ?m = [] \<and> (inCalling (manager ?m) \<or> IsReleased (manager ?m))"
    using assms(1-4) by (auto simp: Add_def Add_locked_def ImmediateRun_def RunCallback_def Let_def)
  then show ?thesis
    using js_stuck_run [OF assms(5)] by auto
qed

lemma failed_post_blocks_example:
  "let e = \<lparr>loop_ok = False, work_ok = True, scope_ok = True\<rparr>;
       m = Add e (Some 7) (Some ''a'') None (js_machine_new fresh_contexts);
       m' = Add engine_up (Some 7) (Some ''b'') None m
   in js_run m ([] @ [L_Add engine_up (Some 7) (Some ''b'') None]) [] m' \<and> uv_works m' = [] \<and>
      length (jsCallbacks (manager m')) = 2"
proof -
  let ?e = "\<lparr>loop_ok = False, work_ok = True, scope_ok = True\<rparr>"
  let ?m = "Add ?e (Some 7) (Some ''a'') None (js_machine_new fresh_contexts)"
  have run: "js_run ?m ([] @ [L_Add engine_up (Some 7) (Some ''b'') None]) []
      (Add engine_up (Some 7) (Some ''b'') None ?m)"
    by (rule js_run_add [OF js_run.start])
  have "([] :: string js_call list) = [] \<and> uv_works (Add engine_up (Some 7) (Some ''b'') None ?m) = []"
    by (rule failed_post_blocks [OF _ _ _ _ run]) (simp_all add: js_machine_new_def)
  with run show ?thesis
    by (simp add: js_eval)
qed

text \<open>
  Two threads that add at the same time: both leave the locked section of \<^verbatim>\<open>Add\<close> before either
  sets \<^verbatim>\<open>inCalling\<close>, so both post a work for the first task. The first completed work then loads
  the second task into the shared context, where two further works find it.
\<close>

lemma racing_adds_call_twice:
  assumes "engine_serves e" "env_set (cs c)"
    and "Add_locked (Some c) (Some f) None (js_machine_new cs) = (run1, m1)"
    and "Add_locked (Some c) (Some g) None m1 = (run2, m2)"
  shows "run1 \<and> run2 \<and>
    fst (drain e 3 (ImmediateRun e False (ImmediateRun e False m2))) =
      [Callback_called f, Callback_called g, Callback_called g]"
proof -
  have "run1" "run2" and m2: "m2 = \<lparr>manager = \<lparr>inCalling = False, IsReleased = False,
      jsCallbacks = [(Some c, Some f, None), (Some c, Some g, None)]\<rparr>, contexts = cs, uv_works = []\<rparr>"
    using assms(3,4) by (auto simp: Add_locked_def js_machine_new_def set_jsCallbacks_def)
  then show ?thesis
    using assms(1,2) unfolding m2
    by (simp add: numeral_3_eq_3 engine_serves_def ImmediateRun_def AfterWork_def RunCallback_def
        set_inCalling_def set_jsCallbacks_def Let_def)
qed


text \<open>
  \<^verbatim>\<open>Release\<close> empties the queue but cannot recall a posted work: it still reads the context, which
  the destructor of the owner deletes right after \<^verbatim>\<open>Release\<close>.
\<close>

lemma released_work_still_runs:
  assumes "engine_serves e" "env_set (cs c)"
  shows "Callback_called f \<in>
    set (fst (AfterWork e (Release (Add e (Some c) (Some f) rel (js_machine_new cs)))))"
  using assms
  by (simp add: engine_serves_def js_machine_new_def Add_def Add_locked_def ImmediateRun_def
      RunCallback_def AfterWork_def Release_def Let_def split: option.split)

end
