(* ===== verification/CallbackInterleaving.thy ===== *)
theory CallbackInterleaving
  imports CallbackManager
begin

text \<open>
  The manager of callbacks (js_callback_manager.cpp under src/interfaces/js/kits/napi) run by
  several threads, step by step. The operations of CallbackManager are cut where the code
  gives up its lock or reads an atomic variable: \<^verbatim>\<open>Add\<close> tests \<^verbatim>\<open>IsReleased\<close>, pushes and tests
  \<^verbatim>\<open>inCalling\<close> under the lock, and only behind the lock goes on to \<^verbatim>\<open>ImmediateRun\<close>, which sets
  \<^verbatim>\<open>inCalling\<close>, tests \<^verbatim>\<open>IsReleased\<close>, chooses the task under the lock, tests \<^verbatim>\<open>IsReleased\<close> again and
  posts; the completion of a work calls the callback and then reads the release function;
  \<^verbatim>\<open>Release\<close> sets its flag and then empties the queue without the lock. Every thread has a
  program counter, and the steps of the threads interleave at will.

  The theory shows that the operations of CallbackManager are these steps in a row, what
  holds in every interleaving in which no two additions race for the first run, that one
  adding thread never races, and what the races do.
\<close>

section \<open>The pieces of the operations\<close>

text \<open>The locked section of \<^verbatim>\<open>Add\<close>; the flag says that \<^verbatim>\<open>ImmediateRun\<close> follows.\<close>

definition push_task :: "'f task \<Rightarrow> 'f js_machine \<Rightarrow> bool \<times> 'f js_machine" where
  "push_task task m = (\<not> inCalling (manager m), set_jsCallbacks (jsCallbacks (manager m) @ [task]) m)"

text \<open>
  The locked section of \<^verbatim>\<open>ImmediateRun\<close>. \<open>None\<close>: \<^verbatim>\<open>front\<close> of an empty queue, which the code
  reaches when the owner is released between the test of \<^verbatim>\<open>IsReleased\<close> before the lock and
  the one behind \<^verbatim>\<open>empty\<close>; its behaviour is undefined.
\<close>

definition choose_task :: "bool \<Rightarrow> 'f js_machine \<Rightarrow> ('f js_machine \<times> (nat \<times> 'f task) option) option" where
  "choose_task needPop m =
     (let q0 = jsCallbacks (manager m);
          q = (if needPop \<and> q0 \<noteq> [] then tl q0 else q0);
          m1 = set_jsCallbacks q m
      in (case q of
            [] \<Rightarrow> if IsReleased (manager m1) then None else Some (set_inCalling False m1, None)
          | current # _ \<Rightarrow> (case fst current of
                None \<Rightarrow> Some (set_inCalling False m1, None)
              | Some ctx \<Rightarrow>
                  if IsReleased (manager m1) then Some (set_inCalling False m1, None)
                  else Some (m1, Some (ctx, current)))))"

text \<open>The completion of the oldest work, up to the call of its callback.\<close>

definition work_callback :: "engine \<Rightarrow> 'f js_machine \<Rightarrow> 'f js_machine \<times> nat option \<times> 'f js_call list" where
  "work_callback e m =
     (case uv_works m of
        [] \<Rightarrow> (m, None, [])
      | ctx # works \<Rightarrow>
          let m1 = m\<lparr>uv_works := works\<rparr>; c = contexts m1 ctx in
          if \<not> env_set c \<or> \<not> scope_ok e then (m1, None, [])
          else (m1, Some ctx, case callback c of None \<Rightarrow> [] | Some f \<Rightarrow> [Callback_called f]))"

definition set_IsReleased :: "'f js_machine \<Rightarrow> 'f js_machine" where
  "set_IsReleased m = m\<lparr>manager := (manager m)\<lparr>IsReleased := True\<rparr>\<rparr>"

lemma set_IsReleased_simps [simp]:
  "manager (set_IsReleased m) = (manager m)\<lparr>IsReleased := True\<rparr>"
  "contexts (set_IsReleased m) = contexts m" "uv_works (set_IsReleased m) = uv_works m"
  by (simp_all add: set_IsReleased_def)

section \<open>Threads\<close>

text \<open>
  Where a thread stands inside the manager, before the named step; a thread without a program
  counter is outside.
\<close>

datatype 'f js_pc =
    Add_test "'f task"
  | Add_push "'f task"
  | Run_flag bool
  | Run_test bool
  | Run_choose bool
  | Run_check nat "'f task"
  | Run_post nat "'f task"
  | Work_release nat
  | Release_clear

record 'f js_threads =
  js_state :: "'f js_machine"
  js_at :: "nat \<Rightarrow> 'f js_pc option"

text \<open>One step of a thread inside the manager: the machine, where the thread stands then, and
  what it called; \<open>None\<close> where the behaviour is undefined.\<close>

fun pc_step :: "engine \<Rightarrow> 'f js_pc \<Rightarrow> 'f js_machine \<Rightarrow> ('f js_machine \<times> 'f js_pc option \<times> 'f js_call list) option"
where
  "pc_step e (Add_test task) m = Some (m, if IsReleased (manager m) then None else Some (Add_push task), [])"
| "pc_step e (Add_push task) m =
     (case push_task task m of (run, m1) \<Rightarrow> Some (m1, if run then Some (Run_flag False) else None, []))"
| "pc_step e (Run_flag needPop) m = Some (set_inCalling True m, Some (Run_test needPop), [])"
| "pc_step e (Run_test needPop) m = Some (m, if IsReleased (manager m) then None else Some (Run_choose needPop), [])"
| "pc_step e (Run_choose needPop) m =
     (case choose_task needPop m of
        None \<Rightarrow> None
      | Some (m1, None) \<Rightarrow> Some (m1, None, [])
      | Some (m1, Some (ctx, current)) \<Rightarrow> Some (m1, Some (Run_check ctx current), []))"
| "pc_step e (Run_check ctx current) m =
     Some (m, if IsReleased (manager m) then None else Some (Run_post ctx current), [])"
| "pc_step e (Run_post ctx current) m = Some (RunCallback e ctx current m, None, [])"
| "pc_step e (Work_release ctx) m =
     (case release (contexts m ctx) of
        None \<Rightarrow> Some (m, None, [])
      | Some None \<Rightarrow> Some (m, Some (Run_flag True), [])
      | Some (Some r) \<Rightarrow> Some (m, None, [Release_called r]))"
| "pc_step e Release_clear m = Some (set_jsCallbacks [] m, None, [])"

fun pushed_by :: "'f js_pc \<Rightarrow> 'f task list" where
  "pushed_by (Add_push task) = [task]"
| "pushed_by _ = []"

text \<open>An addition races when its locked section falls between the locked section of another
  one and the setting of \<^verbatim>\<open>inCalling\<close> that follows it.\<close>

fun is_push :: "'f js_pc \<Rightarrow> bool" where
  "is_push (Add_push task) = True"
| "is_push _ = False"

definition at_step :: "nat \<Rightarrow> 'f js_pc option \<Rightarrow> 'f js_machine \<Rightarrow> 'f js_threads \<Rightarrow> 'f js_threads" where
  "at_step i p m s = s\<lparr>js_state := m, js_at := (js_at s)(i := p)\<rparr>"

lemma at_step_simps [simp]:
  "js_state (at_step i p m s) = m" "js_at (at_step i p m s) = (js_at s)(i := p)"
  by (simp_all add: at_step_def)

text \<open>
  The steps: a thread of the set \<open>A\<close> calls \<^verbatim>\<open>Add\<close>, a thread completes the oldest work, a thread
  calls \<^verbatim>\<open>Release\<close>, or a thread inside goes on, with any of the answers \<open>E\<close> of the engine. The
  labels are the tasks pushed, the calls made and whether an addition races.
\<close>

inductive cb_step :: "engine set \<Rightarrow> nat set \<Rightarrow> 'f js_threads \<Rightarrow> 'f task list \<Rightarrow> 'f js_call list \<Rightarrow> bool \<Rightarrow>
    'f js_threads \<Rightarrow> bool" for E A where
  call_add: "js_at s i = None \<Longrightarrow> i \<in> A \<Longrightarrow>
    cb_step E A s [] [] False (at_step i (Some (Add_test task)) (js_state s) s)"
| call_release: "js_at s i = None \<Longrightarrow>
    cb_step E A s [] [] False (at_step i (Some Release_clear) (set_IsReleased (js_state s)) s)"
| work: "js_at s i = None \<Longrightarrow> e \<in> E \<Longrightarrow> uv_works (js_state s) \<noteq> [] \<Longrightarrow>
    work_callback e (js_state s) = (m, ctx, out) \<Longrightarrow>
    cb_step E A s [] out False (at_step i (map_option Work_release ctx) m s)"
| advance: "js_at s i = Some p \<Longrightarrow> e \<in> E \<Longrightarrow> pc_step e p (js_state s) = Some (m, p', out) \<Longrightarrow>
    cb_step E A s (pushed_by p) out (is_push p \<and> (\<exists>j. js_at s j = Some (Run_flag False))) (at_step i p' m s)"

inductive_cases cb_stepE: "cb_step E A s pushed out race s'"

inductive cb_run :: "engine set \<Rightarrow> nat set \<Rightarrow> 'f js_threads \<Rightarrow> 'f task list \<Rightarrow> 'f js_call list \<Rightarrow> bool \<Rightarrow>
    'f js_threads \<Rightarrow> bool" for E A s0 where
  start: "cb_run E A s0 [] [] False s0"
| more: "cb_run E A s0 pushed outs raced s \<Longrightarrow> cb_step E A s pushed' out race s' \<Longrightarrow>
    cb_run E A s0 (pushed @ pushed') (outs @ out) (raced \<or> race) s'"

definition js_threads_new :: "(nat \<Rightarrow> 'f callback_context) \<Rightarrow> 'f js_threads" where
  "js_threads_new cs = \<lparr>js_state = js_machine_new cs, js_at = (\<lambda>i. None)\<rparr>"

section \<open>The operations are these steps in a row\<close>

text \<open>What a thread does when no other thread interferes, with fuel for its steps.\<close>

fun run_alone :: "engine \<Rightarrow> nat \<Rightarrow> 'f js_pc option \<Rightarrow> 'f js_machine \<Rightarrow> ('f js_machine \<times> 'f js_call list) option" where
  "run_alone e n None m = Some (m, [])"
| "run_alone e 0 (Some p) m = None"
| "run_alone e (Suc n) (Some p) m =
     (case pc_step e p m of
        None \<Rightarrow> None
      | Some (m1, p', out) \<Rightarrow> map_option (\<lambda>(m2, outs). (m2, out @ outs)) (run_alone e n p' m1))"

lemma ImmediateRun_steps:
  assumes "5 \<le> k"
  shows "run_alone e k (Some (Run_flag needPop)) m = Some (ImmediateRun e needPop m, [])"
proof -
  have k: "k = Suc (Suc (Suc (Suc (Suc (k - 5)))))"
    using assms by simp
  show ?thesis
    by (subst k) (simp add: ImmediateRun_def choose_task_def Let_def split: list.split option.split)
qed

lemma Add_steps:
  "5 \<le> k \<Longrightarrow> run_alone e (Suc (Suc k)) (Some (Add_test (ctx, cb, rel))) m = Some (Add e ctx cb rel m, [])"
  by (simp add: ImmediateRun_steps Add_def Add_locked_def push_task_def)

lemma AfterWork_steps:
  assumes "5 \<le> k" "work_callback e m = (m1, ctx, out)"
  shows "\<exists>out'. run_alone e (Suc k) (map_option Work_release ctx) m1 = Some (snd (AfterWork e m), out') \<and>
    fst (AfterWork e m) = out @ out'"
proof (cases "uv_works m")
  case Nil
  then show ?thesis
    using assms by (simp add: work_callback_def AfterWork_def)
next
  case (Cons c ws)
  then show ?thesis
    using assms
    by (auto simp: ImmediateRun_steps work_callback_def AfterWork_def Let_def split: if_splits option.splits)
qed

lemma Release_steps: "run_alone e (Suc k) (Some Release_clear) (set_IsReleased m) = Some (Release m, [])"
  by (simp add: Release_def set_IsReleased_def set_jsCallbacks_def)

section \<open>What holds in every interleaving without a race\<close>

text \<open>
  \<open>outs\<close> and the tasks \<open>q\<close> still to be run make up the tasks \<open>a\<close> added. \<open>all_served\<close>: the engine
  answers every request and every task has a context with an environment.
\<close>

definition rest_ok :: "'f task list \<Rightarrow> 'f task list \<Rightarrow> 'f js_call list \<Rightarrow> bool" where
  "rest_ok q a outs \<longleftrightarrow> outs @ task_calls q = task_calls a \<and> ends q = ends a"

definition all_served :: "engine set \<Rightarrow> (nat \<Rightarrow> 'f callback_context) \<Rightarrow> 'f task list \<Rightarrow> bool" where
  "all_served E cs a \<longleftrightarrow> (\<forall>e \<in> E. engine_serves e) \<and> (\<forall>t \<in> set a. \<exists>c. fst t = Some c \<and> env_set (cs c))"

lemma rest_ok_grow: "rest_ok q a outs \<Longrightarrow> rest_ok (q @ [t]) (a @ [t]) outs"
  by (auto simp: rest_ok_def task_calls_append simp flip: append_assoc)

lemma rest_ok_prefix: "rest_ok q a outs \<Longrightarrow> prefix outs (task_calls a)"
  by (auto simp: rest_ok_def dest: prefix_of_append)

lemma served_grow: "all_served E cs (a @ [t]) \<Longrightarrow> all_served E cs a"
  by (simp add: all_served_def)

text \<open>Running a task, in two parts: its callback, then its release function.\<close>

lemma rest_ok_callback:
  "rest_ok ((c, cb, rel) # ts) a outs \<Longrightarrow>
   rest_ok ((c, None, rel) # ts) a (outs @ (case cb of None \<Rightarrow> [] | Some f \<Rightarrow> [Callback_called f]))"
  by (auto simp: rest_ok_def split: option.splits)

lemma rest_ok_next: "rest_ok ((c, None, None) # ts) a outs \<Longrightarrow> rest_ok ts a outs"
  by (simp add: rest_ok_def)

lemma rest_ok_release:
  "rest_ok ((c, None, Some r) # ts) a outs \<Longrightarrow> outs @ [Release_called r] = task_calls a \<and> ends a"
  by (auto simp: rest_ok_def)

text \<open>A blocked manager: nothing will run again.\<close>

definition blocked :: "bool \<Rightarrow> 'f task list \<Rightarrow> 'f js_call list \<Rightarrow> bool" where
  "blocked sv a outs \<longleftrightarrow> prefix outs (task_calls a) \<and> (sv \<longrightarrow> outs = task_calls a \<and> ends a)"

lemma blocked_grow: "blocked sv a outs \<Longrightarrow> (sv' \<Longrightarrow> sv) \<Longrightarrow> blocked sv' (a @ [t]) outs"
  by (auto simp: blocked_def task_calls_append intro: task_calls_mono)

text \<open>
  While the owner lives: \<open>act\<close> is where the one thread stands that is going to run a task, or
  has called its callback, if there is such a thread.
\<close>

fun running_inv :: "bool \<Rightarrow> 'f js_machine \<Rightarrow> 'f js_pc option \<Rightarrow> 'f task list \<Rightarrow> 'f js_call list \<Rightarrow> bool" where
  "running_inv sv m None a outs \<longleftrightarrow>
     (uv_works m = [] \<and> \<not> inCalling (manager m) \<and> rest_ok (jsCallbacks (manager m)) a outs \<and>
        (jsCallbacks (manager m) = [] \<or> fst (hd (jsCallbacks (manager m))) = None)) \<or>
     (uv_works m = [] \<and> inCalling (manager m) \<and> blocked sv a outs) \<or>
     (\<exists>ctx t ts. uv_works m = [ctx] \<and> loaded m ctx t \<and> inCalling (manager m) \<and> fst t = Some ctx \<and>
        jsCallbacks (manager m) = t # ts \<and> rest_ok (t # ts) a outs)"
| "running_inv sv m (Some (Run_flag needPop)) a outs \<longleftrightarrow> uv_works m = [] \<and>
     (if needPop then inCalling (manager m) \<and> jsCallbacks (manager m) \<noteq> [] \<and> rest_ok (tl (jsCallbacks (manager m))) a outs
      else \<not> inCalling (manager m) \<and> rest_ok (jsCallbacks (manager m)) a outs)"
| "running_inv sv m (Some (Run_check ctx t)) a outs \<longleftrightarrow> uv_works m = [] \<and> inCalling (manager m) \<and>
     fst t = Some ctx \<and> (\<exists>ts. jsCallbacks (manager m) = t # ts \<and> rest_ok (t # ts) a outs)"
| "running_inv sv m (Some (Run_post ctx t)) a outs \<longleftrightarrow> uv_works m = [] \<and> inCalling (manager m) \<and>
     fst t = Some ctx \<and> (\<exists>ts. jsCallbacks (manager m) = t # ts \<and> rest_ok (t # ts) a outs)"
| "running_inv sv m (Some (Work_release ctx)) a outs \<longleftrightarrow> uv_works m = [] \<and> inCalling (manager m) \<and>
     (\<exists>t ts rel. jsCallbacks (manager m) = t # ts \<and> release (contexts m ctx) = Some rel \<and>
        rest_ok ((Some ctx, None, rel) # ts) a outs)"
| "running_inv sv m (Some (Run_test needPop)) a outs \<longleftrightarrow> uv_works m = [] \<and> inCalling (manager m) \<and>
     (if needPop then jsCallbacks (manager m) \<noteq> [] \<and> rest_ok (tl (jsCallbacks (manager m))) a outs
      else rest_ok (jsCallbacks (manager m)) a outs)"
| "running_inv sv m (Some (Run_choose needPop)) a outs \<longleftrightarrow> uv_works m = [] \<and> inCalling (manager m) \<and>
     (if needPop then jsCallbacks (manager m) \<noteq> [] \<and> rest_ok (tl (jsCallbacks (manager m))) a outs
      else rest_ok (jsCallbacks (manager m)) a outs)"
| "running_inv sv m (Some p) a outs \<longleftrightarrow> False"

text \<open>Once the owner is released: one work or one thread may still be under way.\<close>

fun released_inv :: "'f js_machine \<Rightarrow> 'f js_pc option \<Rightarrow> 'f task list \<Rightarrow> 'f js_call list \<Rightarrow> bool" where
  "released_inv m None a outs \<longleftrightarrow>
     (uv_works m = [] \<and> prefix outs (task_calls a)) \<or>
     (\<exists>ctx t. uv_works m = [ctx] \<and> loaded m ctx t \<and> inCalling (manager m) \<and> prefix (outs @ task_calls [t]) (task_calls a))"
| "released_inv m (Some (Run_flag needPop)) a outs \<longleftrightarrow>
     uv_works m = [] \<and> (needPop \<longrightarrow> inCalling (manager m)) \<and> prefix outs (task_calls a)"
| "released_inv m (Some (Run_post ctx t)) a outs \<longleftrightarrow>
     uv_works m = [] \<and> inCalling (manager m) \<and> prefix (outs @ task_calls [t]) (task_calls a)"
| "released_inv m (Some (Work_release ctx)) a outs \<longleftrightarrow> uv_works m = [] \<and> inCalling (manager m) \<and>
     (\<exists>rel. release (contexts m ctx) = Some rel \<and> prefix (outs @ task_calls [(Some ctx, None, rel)]) (task_calls a))"
| "released_inv m (Some p) a outs \<longleftrightarrow> uv_works m = [] \<and> inCalling (manager m) \<and> prefix outs (task_calls a)"

definition frame_ok :: "(nat \<Rightarrow> 'f callback_context) \<Rightarrow> 'f js_machine \<Rightarrow> 'f task list \<Rightarrow> bool" where
  "frame_ok cs m a \<longleftrightarrow> (\<forall>c. env_set (contexts m c) = env_set (cs c)) \<and> set (jsCallbacks (manager m)) \<subseteq> set a"

definition core_inv :: "engine set \<Rightarrow> (nat \<Rightarrow> 'f callback_context) \<Rightarrow> 'f js_machine \<Rightarrow> 'f js_pc option \<Rightarrow>
    'f task list \<Rightarrow> 'f js_call list \<Rightarrow> bool" where
  "core_inv E cs m act a outs \<longleftrightarrow> frame_ok cs m a \<and>
     (if IsReleased (manager m) then released_inv m act a outs else running_inv (all_served E cs a) m act a outs)"

text \<open>The program counters of threads that are going to run a task or have called its callback.\<close>

fun active :: "'f js_pc \<Rightarrow> bool" where
  "active (Add_test task) = False"
| "active (Add_push task) = False"
| "active Release_clear = False"
| "active _ = True"

lemma rest_ok_head: "rest_ok (t # ts) a outs \<Longrightarrow> prefix (outs @ task_calls [t]) (task_calls a)"
  unfolding rest_ok_def by (rule task_calls_head [of _ _ ts]) (rule conjunct1)

lemma running_released:
  assumes "running_inv sv m act a outs"
  shows "released_inv (set_IsReleased m) act a outs"
proof (cases act)
  case None
  have l: "loaded (set_IsReleased m) ctx t = loaded m ctx t" for ctx t
    by (simp add: loaded_def)
  show ?thesis
    using assms rest_ok_prefix rest_ok_head unfolding None by (fastforce simp: l blocked_def)
next
  case (Some p)
  then show ?thesis
    using assms rest_ok_prefix rest_ok_head
    by (cases p) (auto split: if_splits simp del: task_calls.simps)
qed

lemma released_again: "released_inv m act a outs \<Longrightarrow> released_inv (set_IsReleased m) act a outs"
  by (cases "(m, act, a, outs)" rule: released_inv.cases) (auto simp: loaded_def)

lemma core_release: "core_inv E cs m act a outs \<Longrightarrow> core_inv E cs (set_IsReleased m) act a outs"
  using running_released released_again by (auto simp: core_inv_def frame_ok_def split: if_splits)

lemma core_clear:
  "core_inv E cs m act a outs \<Longrightarrow> IsReleased (manager m) \<Longrightarrow> core_inv E cs (set_jsCallbacks [] m) act a outs"
  by (cases "(m, act, a, outs)" rule: released_inv.cases) (auto simp: core_inv_def frame_ok_def loaded_def)

lemma core_push:
  assumes I: "core_inv E cs m act a outs" and no_race: "act \<noteq> Some (Run_flag False)"
    and p: "push_task t m = (run, m')"
  shows "core_inv E cs m' (if run then Some (Run_flag False) else act) (a @ [t]) outs \<and> (run \<longrightarrow> act = None)"
proof -
  have m': "m' = set_jsCallbacks (jsCallbacks (manager m) @ [t]) m" "run \<longleftrightarrow> \<not> inCalling (manager m)"
    using p by (auto simp: push_task_def)
  have f: "frame_ok cs m' (a @ [t])"
    using I by (auto simp: core_inv_def frame_ok_def m')
  have l: "loaded m' ctx u = loaded m ctx u" for ctx u
    by (simp add: loaded_def m')
  show ?thesis
  proof (cases "IsReleased (manager m)")
    case True
    then have r: "released_inv m act a outs"
      using I by (simp add: core_inv_def)
    have "released_inv m' (if run then Some (Run_flag False) else act) (a @ [t]) outs \<and> (run \<longrightarrow> act = None)"
    proof (cases act)
      case None
      consider "uv_works m = []" "prefix outs (task_calls a)"
        | ctx u where "uv_works m = [ctx]" "loaded m ctx u" "inCalling (manager m)"
            "prefix (outs @ task_calls [u]) (task_calls a)"
        using r None by auto
      then show ?thesis
      proof cases
        case 1
        then show ?thesis
          using task_calls_mono [OF 1(2)] by (simp add: m' None)
      next
        case 2
        then show ?thesis
          using task_calls_mono [OF 2(4)] l unfolding None
          by (auto simp: m' simp del: task_calls.simps split_paired_Ex)
      qed
    next
      case (Some q)
      then show ?thesis
        using r no_race task_calls_mono by (cases q) (auto simp: m' simp del: task_calls.simps)
    qed
    then show ?thesis
      using f True by (simp add: core_inv_def m')
  next
    case False
    then have r: "running_inv (all_served E cs a) m act a outs"
      using I by (simp add: core_inv_def)
    have "running_inv (all_served E cs (a @ [t])) m' (if run then Some (Run_flag False) else act) (a @ [t]) outs \<and>
        (run \<longrightarrow> act = None)"
    proof (cases act)
      case None
      consider (idle) "uv_works m = []" "\<not> inCalling (manager m)" "rest_ok (jsCallbacks (manager m)) a outs"
        | (stuck) "uv_works m = []" "inCalling (manager m)" "blocked (all_served E cs a) a outs"
        | (busy) ctx u ts where "uv_works m = [ctx]" "loaded m ctx u" "inCalling (manager m)" "fst u = Some ctx"
            "jsCallbacks (manager m) = u # ts" "rest_ok (u # ts) a outs"
        using r None by auto
      then show ?thesis
      proof cases
        case idle
        then show ?thesis
          by (simp add: m' None rest_ok_grow)
      next
        case stuck
        then show ?thesis
          using blocked_grow [OF stuck(3) served_grow] by (simp add: m' None)
      next
        case busy
        then show ?thesis
          using rest_ok_grow [OF busy(6), of t] l by (auto simp: m' None simp del: split_paired_Ex)
      qed
    next
      case (Some q)
      then show ?thesis
        using r no_race rest_ok_grow [of _ a outs t] rest_ok_grow [of "_ # _" a outs t, unfolded append_Cons]
        by (cases q) (auto simp: m' split: if_splits)
    qed
    then show ?thesis
      using f False by (simp add: core_inv_def m')
  qed
qed

lemma core_work:
  assumes I: "core_inv E cs m None a outs" and w: "uv_works m \<noteq> []" and e: "e \<in> E"
    and s: "work_callback e m = (m', ctx, out)"
  shows "core_inv E cs m' (map_option Work_release ctx) a (outs @ out)"
proof -
  obtain c t where c: "uv_works m = [c]" "loaded m c t" "inCalling (manager m)"
      and st: "if IsReleased (manager m) then prefix (outs @ task_calls [t]) (task_calls a)
        else fst t = Some c \<and> (\<exists>ts. jsCallbacks (manager m) = t # ts \<and> rest_ok (t # ts) a outs)"
    using I w by (fastforce simp: core_inv_def split: if_splits)
  obtain c' cb rel where t: "t = (c', cb, rel)" by (cases t)
  have m': "m' = m\<lparr>uv_works := []\<rparr>"
    using s c by (auto simp: work_callback_def Let_def split: if_splits)
  have f: "frame_ok cs m' a"
    using I by (simp add: core_inv_def frame_ok_def m')
  let ?called = "case cb of None \<Rightarrow> [] | Some f \<Rightarrow> [Callback_called f]"
  have pre: "prefix (outs @ ?called @ task_calls [(Some c, None, rel)]) (task_calls a) \<and> prefix outs (task_calls a)"
    if "prefix (outs @ task_calls [t]) (task_calls a)"
  proof -
    have "task_calls [t] = ?called @ task_calls [(Some c, None, rel)]"
      by (simp add: t)
    then show ?thesis
      using that by (metis append_prefixD)
  qed
  show ?thesis
  proof (cases "env_set (contexts m c) \<and> scope_ok e")
    case False
    then have s': "ctx = None" "out = []"
      using s c by (auto simp: work_callback_def Let_def)
    have "\<not> all_served E cs a" if "\<not> IsReleased (manager m)"
    proof
      assume "all_served E cs a"
      moreover have "t \<in> set a" "fst t = Some c"
        using st that I by (auto simp: core_inv_def frame_ok_def)
      ultimately show False
        using False e I by (auto simp: all_served_def engine_serves_def core_inv_def frame_ok_def)
    qed
    moreover have "prefix outs (task_calls a)"
      using st pre rest_ok_prefix by (auto split: if_splits)
    ultimately show ?thesis
      using f c(3) by (simp add: core_inv_def s' m' blocked_def)
  next
    case True
    then have s': "ctx = Some c" "out = ?called"
      using s c by (auto simp: work_callback_def Let_def loaded_def t)
    have r: "release (contexts m c) = Some rel"
      using c(2) by (simp add: loaded_def t)
    show ?thesis
    proof (cases "IsReleased (manager m)")
      case rel: True
      then show ?thesis
        using f c(3) r st pre by (simp add: core_inv_def s' m' del: task_calls.simps)
    next
      case alive: False
      then obtain ts where ts: "jsCallbacks (manager m) = t # ts" "rest_ok (t # ts) a outs" "fst t = Some c"
        using st by auto
      then have "rest_ok ((Some c, None, rel) # ts) a (outs @ ?called)"
        using rest_ok_callback [of c' cb rel ts a outs] by (simp add: t)
      then show ?thesis
        using f c(3) r alive ts(1) by (simp add: core_inv_def s' m' t)
    qed
  qed
qed

lemma core_choose:
  assumes I: "core_inv E cs m (Some (Run_choose needPop)) a outs" and s: "choose_task needPop m = Some (m', nxt)"
  shows "core_inv E cs m' (map_option (\<lambda>(ctx, t). Run_check ctx t) nxt) a outs"
proof -
  let ?q0 = "jsCallbacks (manager m)"
  define q where "q = (if needPop \<and> ?q0 \<noteq> [] then tl ?q0 else ?q0)"
  have sub: "set q \<subseteq> set ?q0"
    by (cases ?q0) (auto simp: q_def)
  have f: "frame_ok cs m2 a" if "contexts m2 = contexts m" "jsCallbacks (manager m2) = q" for m2
    using I sub that by (auto simp: core_inv_def frame_ok_def)
  have q_eq: "choose_task needPop m = (case q of
        [] \<Rightarrow> if IsReleased (manager m) then None else Some (set_inCalling False (set_jsCallbacks q m), None)
      | t # _ \<Rightarrow> (case fst t of None \<Rightarrow> Some (set_inCalling False (set_jsCallbacks q m), None)
          | Some ctx \<Rightarrow> if IsReleased (manager m) then Some (set_inCalling False (set_jsCallbacks q m), None)
              else Some (set_jsCallbacks q m, Some (ctx, t))))"
    unfolding choose_task_def Let_def q_def [symmetric] by (simp cong: list.case_cong option.case_cong)
  show ?thesis
  proof (cases "IsReleased (manager m)")
    case True
    then have "uv_works m = []" "prefix outs (task_calls a)"
      using I by (simp_all add: core_inv_def)
    then show ?thesis
      using s True f unfolding q_eq by (auto simp: core_inv_def split: list.splits option.splits)
  next
    case False
    then have r: "uv_works m = []" "inCalling (manager m)" "rest_ok q a outs"
      using I by (auto simp: core_inv_def q_def split: if_splits)
    show ?thesis
      using s False f r unfolding q_eq by (auto simp: core_inv_def split: list.splits option.splits)
  qed
qed

lemma core_post:
  assumes I: "core_inv E cs m (Some (Run_post ctx t)) a outs" and e: "e \<in> E"
  shows "core_inv E cs (RunCallback e ctx t m) None a outs"
proof -
  let ?m = "RunCallback e ctx t m"
  have m: "manager ?m = manager m" "\<And>c. env_set (contexts ?m c) = env_set (contexts m c)"
    by (auto simp: RunCallback_def Let_def)
  have f: "frame_ok cs ?m a"
    using I by (simp add: core_inv_def frame_ok_def m)
  show ?thesis
  proof (cases "loop_ok e \<and> work_ok e")
    case True
    then have p: "uv_works ?m = uv_works m @ [ctx]" "loaded ?m ctx t"
      by (simp_all add: RunCallback_def Let_def loaded_def)
    show ?thesis
    proof (cases "IsReleased (manager m)")
      case True
      then show ?thesis
        using I f p by (auto simp: core_inv_def m simp del: task_calls.simps split_paired_Ex)
    next
      case False
      then show ?thesis
        using I f p by (auto simp: core_inv_def m simp del: split_paired_Ex)
    qed
  next
    case False
    then have w: "uv_works ?m = uv_works m"
      by (auto simp: RunCallback_def Let_def)
    have "\<not> all_served E cs a"
      using False e by (auto simp: all_served_def engine_serves_def)
    then show ?thesis
      using I f w rest_ok_prefix by (auto simp: core_inv_def m blocked_def dest: append_prefixD split: if_splits)
  qed
qed

lemma core_advance:
  assumes I: "core_inv E cs m (Some p) a outs" and e: "e \<in> E" and act: "active p"
    and s: "pc_step e p m = Some (m', p', out)"
  shows "core_inv E cs m' p' a (outs @ out) \<and> (\<forall>p2. p' = Some p2 \<longrightarrow> active p2) \<and> pushed_by p = []"
proof (cases p)
  case (Run_flag n)
  then show ?thesis
    using I s by (auto simp: core_inv_def frame_ok_def split: if_splits)
next
  case (Run_test n)
  then show ?thesis
    using I s by (auto simp: core_inv_def split: if_splits)
next
  case (Run_choose n)
  obtain nxt where c: "choose_task n m = Some (m', nxt)" "p' = map_option (\<lambda>(ctx, t). Run_check ctx t) nxt" "out = []"
    using s by (auto simp: Run_choose split: option.splits)
  then show ?thesis
    using core_choose [OF I [unfolded Run_choose] c(1)] Run_choose by auto
next
  case (Run_check ctx t)
  then show ?thesis
    using I s rest_ok_head by (auto simp: core_inv_def split: if_splits simp del: task_calls.simps)
next
  case (Run_post ctx t)
  then show ?thesis
    using core_post [OF I [unfolded Run_post] e] s by auto
next
  case (Work_release ctx)
  show ?thesis
  proof (cases "IsReleased (manager m)")
    case True
    then show ?thesis
      using I s Work_release by (auto simp: core_inv_def split: option.splits intro: append_prefixD)
  next
    case False
    then obtain t ts rel where q: "jsCallbacks (manager m) = t # ts" "release (contexts m ctx) = Some rel"
        "rest_ok ((Some ctx, None, rel) # ts) a outs" "uv_works m = []" "inCalling (manager m)" "frame_ok cs m a"
      using I by (auto simp: core_inv_def Work_release)
    show ?thesis
    proof (cases rel)
      case None
      then show ?thesis
        using s q False rest_ok_next [of "Some ctx" ts a outs] by (auto simp: core_inv_def Work_release)
    next
      case (Some r)
      then show ?thesis
        using s q False rest_ok_release [of "Some ctx" r ts a outs] by (auto simp: core_inv_def Work_release blocked_def)
    qed
  qed
qed (use act in simp_all)

text \<open>The invariant of the threads: at most one of them is active, and it is where \<open>act\<close> says.\<close>

definition active_at :: "'f js_threads \<Rightarrow> nat \<Rightarrow> 'f js_pc option" where
  "active_at s i = (case js_at s i of None \<Rightarrow> None | Some p \<Rightarrow> if active p then Some p else None)"

lemma active_at_Some: "active_at s i = Some p \<longleftrightarrow> js_at s i = Some p \<and> active p"
  by (auto simp: active_at_def split: option.splits)

definition cb_inv :: "engine set \<Rightarrow> (nat \<Rightarrow> 'f callback_context) \<Rightarrow> 'f js_threads \<Rightarrow> 'f task list \<Rightarrow> 'f js_call list \<Rightarrow> bool"
where
  "cb_inv E cs s a outs \<longleftrightarrow>
     (\<forall>i. js_at s i = Some Release_clear \<longrightarrow> IsReleased (manager (js_state s))) \<and>
     (\<exists>act. core_inv E cs (js_state s) act a outs \<and>
        (case act of None \<Rightarrow> active_at s = (\<lambda>i. None)
         | Some p \<Rightarrow> active p \<and> (\<exists>i. active_at s = (\<lambda>j. if j = i then Some p else None))))"

lemma cb_invE:
  assumes "cb_inv E cs s a outs"
  obtains (idle) "core_inv E cs (js_state s) None a outs" "active_at s = (\<lambda>i. None)"
    | (busy) i p where "core_inv E cs (js_state s) (Some p) a outs" "active p"
        "active_at s = (\<lambda>j. if j = i then Some p else None)"
proof -
  obtain act where act: "core_inv E cs (js_state s) act a outs" "case act of None \<Rightarrow> active_at s = (\<lambda>i. None)
      | Some p \<Rightarrow> active p \<and> (\<exists>i. active_at s = (\<lambda>j. if j = i then Some p else None))"
    using assms unfolding cb_inv_def by blast
  show thesis
  proof (cases act)
    case None
    with act idle show thesis by simp
  next
    case (Some p)
    with act busy show thesis by auto
  qed
qed

lemma cb_inv_released:
  "cb_inv E cs s a outs \<Longrightarrow> js_at s i = Some Release_clear \<Longrightarrow> IsReleased (manager (js_state s))"
  unfolding cb_inv_def by blast

text \<open>A step of a thread that is not active, and one of the thread that is or of a thread that
  becomes it.\<close>

lemma cb_inv_inactive:
  assumes I: "cb_inv E cs s a outs"
    and core: "\<And>act. core_inv E cs (js_state s) act a outs \<Longrightarrow> (\<And>q. act = Some q \<Longrightarrow> \<exists>j. js_at s j = Some q) \<Longrightarrow>
      core_inv E cs m act a' outs'"
    and old: "active_at s i = None" and new: "\<And>q. p = Some q \<Longrightarrow> \<not> active q"
    and rel: "IsReleased (manager (js_state s)) \<Longrightarrow> IsReleased (manager m)"
      "p = Some Release_clear \<Longrightarrow> IsReleased (manager m)"
  shows "cb_inv E cs (at_step i p m s) a' outs'"
proof -
  have at: "active_at (at_step i p m s) = active_at s"
    using old new by (auto simp: active_at_def fun_eq_iff split: option.splits)
  have r: "\<forall>j. js_at (at_step i p m s) j = Some Release_clear \<longrightarrow> IsReleased (manager m)"
    using rel cb_inv_released [OF I] by auto
  from I show ?thesis
  proof (cases rule: cb_invE)
    case idle
    then show ?thesis
      using core [of None] r unfolding cb_inv_def at by (auto intro!: exI [of _ None])
  next
    case (busy j q)
    have "js_at s j = Some q"
      using busy(3) active_at_Some [of s j q] by simp
    then have "core_inv E cs m (Some q) a' outs'"
      using core [of "Some q"] busy(1) by auto
    then show ?thesis
      using busy r unfolding cb_inv_def at by (auto intro!: exI [of _ "Some q"])
  qed
qed

lemma cb_inv_active:
  assumes I: "cb_inv E cs s a outs" and core: "core_inv E cs m p a' outs'"
    and only: "\<And>j. j \<noteq> i \<Longrightarrow> active_at s j = None" and new: "\<And>q. p = Some q \<Longrightarrow> active q"
    and rel: "IsReleased (manager (js_state s)) \<Longrightarrow> IsReleased (manager m)"
  shows "cb_inv E cs (at_step i p m s) a' outs'"
proof -
  have at: "active_at (at_step i p m s) = (\<lambda>j. if j = i then p else None)"
    using only new by (auto simp: active_at_def fun_eq_iff split: option.splits)
  have "\<forall>j. js_at (at_step i p m s) j = Some Release_clear \<longrightarrow> IsReleased (manager m)"
    using rel cb_inv_released [OF I] new [of Release_clear] by auto
  then show ?thesis
    using core new unfolding cb_inv_def at by (cases p) (auto intro!: exI [of _ p])
qed

lemma active_no_work: "core_inv E cs m (Some p) a outs \<Longrightarrow> active p \<Longrightarrow> uv_works m = []"
  by (cases p) (auto simp: core_inv_def split: if_splits)

lemma pc_step_released: "pc_step e p m = Some (m', p', out) \<Longrightarrow> IsReleased (manager m') = IsReleased (manager m)"
  by (cases p)
    (auto simp: push_task_def choose_task_def RunCallback_def Let_def split: option.splits list.splits if_splits)

lemma cb_inv_push:
  assumes I: "cb_inv E cs s a outs" and p: "js_at s i = Some (Add_push task)"
    and no_race: "\<And>j. js_at s j \<noteq> Some (Run_flag False)" and r: "push_task task (js_state s) = (run, m)"
  shows "cb_inv E cs (at_step i (if run then Some (Run_flag False) else None) m s) (a @ [task]) outs"
proof -
  have rel: "IsReleased (manager m) = IsReleased (manager (js_state s))"
    using r by (auto simp: push_task_def)
  have old: "active_at s i = None"
    by (simp add: active_at_def p)
  have push: "core_inv E cs m (if run then Some (Run_flag False) else act) (a @ [task]) outs \<and> (run \<longrightarrow> act = None)"
    if "core_inv E cs (js_state s) act a outs" "\<And>q. act = Some q \<Longrightarrow> \<exists>j. js_at s j = Some q" for act
    by (rule core_push [OF that(1) _ r]) (use that(2) no_race in blast)
  show ?thesis
  proof (cases run)
    case True
    from I show ?thesis
    proof (cases rule: cb_invE)
      case idle
      then show ?thesis
        using push [of None] True rel cb_inv_active [OF I, of m "Some (Run_flag False)" "a @ [task]" outs i] by simp
    next
      case (busy j q)
      then have "js_at s j = Some q"
        using active_at_Some [of s j q] by simp
      then show ?thesis
        using push [of "Some q"] busy(1) True by auto
    qed
  next
    case False
    then show ?thesis
      using cb_inv_inactive [OF I, of m "a @ [task]" outs i None] push old rel by simp
  qed
qed

lemma cb_inv_step:
  assumes st: "cb_step E A s pushed out False s'" and I: "cb_inv E cs s a outs"
  shows "cb_inv E cs s' (a @ pushed) (outs @ out)"
  using st
proof cases
  case (call_add i task)
  then show ?thesis
    using cb_inv_inactive [OF I, of "js_state s" a outs i "Some (Add_test task)"] by (simp add: active_at_def)
next
  case (call_release i)
  then show ?thesis
    using cb_inv_inactive [OF I, of "set_IsReleased (js_state s)" a outs i "Some Release_clear"]
      core_release [of E cs "js_state s"] by (auto simp: active_at_def)
next
  case (work i e m ctx)
  from I have idle: "core_inv E cs (js_state s) None a outs" "active_at s = (\<lambda>i. None)"
    using active_no_work work(5) by (cases rule: cb_invE; blast)+
  have "IsReleased (manager m) = IsReleased (manager (js_state s))"
    using work(6) by (auto simp: work_callback_def Let_def split: list.splits if_splits)
  moreover have "map_option Work_release ctx = Some q \<Longrightarrow> active q" for q
    by (cases ctx) auto
  ultimately show ?thesis
    using cb_inv_active [OF I core_work [OF idle(1) work(5,4,6)], of i] idle(2) unfolding work(1,2) by auto
next
  case (advance i p e m p')
  note same = pc_step_released [OF advance(6)]
  have at: "active_at s i = (if active p then Some p else None)"
    by (simp add: active_at_def advance(4))
  consider "active p" | (test) task where "p = Add_test task" | (push) task where "p = Add_push task"
    | (clear) "p = Release_clear"
    by (cases p) auto
  then show ?thesis
  proof cases
    case 1
    from I have "core_inv E cs (js_state s) (Some p) a outs" and only: "\<And>j. j \<noteq> i \<Longrightarrow> active_at s j = None"
      using at 1 by (cases rule: cb_invE; simp split: if_splits)+
    then have "core_inv E cs m p' a (outs @ out) \<and> (\<forall>p2. p' = Some p2 \<longrightarrow> active p2) \<and> pushed_by p = []"
      using core_advance [OF _ advance(5) 1 advance(6)] by simp
    then show ?thesis
      using cb_inv_active [OF I, of m p' a "outs @ out" i] only same advance(1,3) by auto
  next
    case test
    then show ?thesis
      using cb_inv_inactive [OF I, of m a outs i p'] advance at by (auto split: if_splits)
  next
    case push
    then obtain run where "push_task task (js_state s) = (run, m)" "out = []"
        "p' = (if run then Some (Run_flag False) else None)"
      using advance by (auto split: prod.splits)
    then show ?thesis
      using cb_inv_push [OF I, of i task run m] advance(1-4) push by simp
  next
    case clear
    then have R: "IsReleased (manager (js_state s))"
      using cb_inv_released [OF I] advance(4) by simp
    have "m = set_jsCallbacks [] (js_state s)" "p' = None" "out = []"
      using advance clear by simp_all
    then show ?thesis
      using cb_inv_inactive [OF I core_clear [OF _ R], where i = i and p = None] R advance(1-3) clear at by simp
  qed
qed

lemma cb_inv_new: "cb_inv E cs (js_threads_new cs) [] []"
  unfolding cb_inv_def
  by (auto simp: active_at_def fun_eq_iff js_threads_new_def js_machine_new_def core_inv_def frame_ok_def rest_ok_def intro!: exI [of _ None])

lemma cb_inv_run:
  "cb_run E A (js_threads_new cs) pushed outs raced s \<Longrightarrow> \<not> raced \<Longrightarrow> cb_inv E cs s pushed outs"
proof (induction rule: cb_run.induct)
  case start
  show ?case by (rule cb_inv_new)
next
  case (more pushed outs raced s pushed' out race s')
  then show ?case
    using cb_inv_step by (cases race) auto
qed

text \<open>What the invariant says of the calls.\<close>

lemma released_prefix: "released_inv m act a outs \<Longrightarrow> prefix outs (task_calls a)"
  by (cases "(m, act, a, outs)" rule: released_inv.cases) (auto dest: append_prefixD simp del: task_calls.simps)

lemma core_prefix:
  assumes I: "core_inv E cs m act a outs" and act: "\<And>p. act = Some p \<Longrightarrow> active p"
  shows "prefix outs (task_calls a) \<and> length (uv_works m) \<le> 1"
proof -
  have "prefix outs (task_calls a)"
    using I released_prefix running_released by (fastforce simp: core_inv_def split: if_splits)
  moreover have "length (uv_works m) \<le> 1"
  proof (cases act)
    case None
    then show ?thesis
      using I by (auto simp: core_inv_def split: if_splits)
  next
    case (Some p)
    then show ?thesis
      using I act active_no_work by fastforce
  qed
  ultimately show ?thesis ..
qed

lemma core_quiescent:
  assumes I: "core_inv E cs m None a outs" and "all_served E cs a" "\<not> IsReleased (manager m)" "uv_works m = []"
  shows "outs = task_calls a"
proof (cases "jsCallbacks (manager m)")
  case Nil
  then show ?thesis
    using assms by (auto simp: core_inv_def blocked_def rest_ok_def)
next
  case (Cons t ts)
  then have "fst t \<noteq> None"
    using I assms(2) by (fastforce simp: core_inv_def frame_ok_def all_served_def)
  then show ?thesis
    using assms Cons by (auto simp: core_inv_def blocked_def)
qed

section \<open>One adding thread never races\<close>

fun adding :: "'f js_pc \<Rightarrow> bool" where
  "adding (Add_test task) = True"
| "adding (Add_push task) = True"
| "adding (Run_flag needPop) = (\<not> needPop)"
| "adding _ = False"

lemma pc_step_adding: "pc_step e p m = Some (m', Some p', out) \<Longrightarrow> adding p' \<Longrightarrow> adding p"
  by (cases p) (auto split: option.splits if_splits prod.splits)

lemma adders:
  "cb_run E A (js_threads_new cs) pushed outs raced s \<Longrightarrow> js_at s i = Some p \<Longrightarrow> adding p \<Longrightarrow> i \<in> A"
proof (induction arbitrary: i p rule: cb_run.induct)
  case start
  then show ?case by (simp add: js_threads_new_def)
next
  case (more pushed outs raced s pushed' out race s')
  from more.hyps(2) show ?case
  proof cases
    case (advance j q e m q')
    show ?thesis
    proof (cases "i = j")
      case True
      then have "adding q"
        using advance(3,6) more.prems pc_step_adding [of e q "js_state s" m p out] by simp
      then show ?thesis
        using more.IH [of j q] advance(4) True by simp
    next
      case False
      then show ?thesis
        using more.IH more.prems advance(3) by simp
    qed
  qed (use more.IH more.prems in \<open>auto split: if_splits\<close>)
qed

lemma one_adder_never_races:
  assumes "cb_run E A (js_threads_new cs) pushed outs raced s" "A \<subseteq> {k}"
  shows "\<not> raced"
  using assms
proof (induction rule: cb_run.induct)
  case (more pushed outs raced s pushed' out race s')
  from more.hyps(2) have "\<not> race"
  proof cases
    case (advance i p e m p')
    show ?thesis
    proof
      assume race
      then obtain task j where "p = Add_push task" "js_at s j = Some (Run_flag False)"
        using advance(2) by (cases p) auto
      moreover from this have "i = k" "j = k"
        using adders [OF more.hyps(1)] advance(4) more.prems by fastforce+
      ultimately show False
        using advance(4) by simp
    qed
  qed simp_all
  with more show ?case by simp
qed simp

section \<open>Schedules\<close>

text \<open>A schedule that the machine can execute, on an engine with one answer.\<close>

datatype 'f js_event = Call_add nat "'f task" | Call_release nat | Work nat | Advance nat

fun exec_event :: "engine \<Rightarrow> 'f js_event \<Rightarrow> 'f js_threads \<Rightarrow> ('f task list \<times> 'f js_call list \<times> 'f js_threads) option" where
  "exec_event e (Call_add i task) s =
     (if js_at s i \<noteq> None then None else Some ([], [], at_step i (Some (Add_test task)) (js_state s) s))"
| "exec_event e (Call_release i) s =
     (if js_at s i \<noteq> None then None
      else Some ([], [], at_step i (Some Release_clear) (set_IsReleased (js_state s)) s))"
| "exec_event e (Work i) s =
     (if js_at s i \<noteq> None \<or> uv_works (js_state s) = [] then None
      else case work_callback e (js_state s) of (m, ctx, out) \<Rightarrow>
        Some ([], out, at_step i (map_option Work_release ctx) m s))"
| "exec_event e (Advance i) s =
     (case js_at s i of None \<Rightarrow> None
      | Some p \<Rightarrow> (case pc_step e p (js_state s) of None \<Rightarrow> None
          | Some (m, p', out) \<Rightarrow> Some (pushed_by p, out, at_step i p' m s)))"

fun exec :: "engine \<Rightarrow> 'f js_event list \<Rightarrow> 'f js_threads \<Rightarrow> ('f task list \<times> 'f js_call list \<times> 'f js_threads) option" where
  "exec e [] s = Some ([], [], s)"
| "exec e (ev # evs) s =
     (case exec_event e ev s of None \<Rightarrow> None
      | Some (p1, o1, s1) \<Rightarrow> map_option (\<lambda>(p2, o2, s2). (p1 @ p2, o1 @ o2, s2)) (exec e evs s1))"

fun adders_of :: "'f js_event list \<Rightarrow> nat set" where
  "adders_of [] = {}"
| "adders_of (Call_add i task # evs) = insert i (adders_of evs)"
| "adders_of (ev # evs) = adders_of evs"

lemma exec_event_step:
  "exec_event e ev s = Some (pushed, out, s') \<Longrightarrow> adders_of [ev] \<subseteq> A \<Longrightarrow> \<exists>race. cb_step {e} A s pushed out race s'"
proof (induction e ev s rule: exec_event.induct)
  case (1 e i task s)
  then show ?case using cb_step.call_add [of s i A "{e}" task] by (auto split: if_splits)
next
  case (2 e i s)
  then show ?case using cb_step.call_release [of s i "{e}" A] by (auto split: if_splits)
next
  case (3 e i s)
  then show ?case by (fastforce split: if_splits prod.splits intro: cb_step.work)
next
  case (4 e i s)
  then show ?case by (fastforce split: option.splits prod.splits intro: cb_step.advance)
qed

lemma adders_of_Cons: "adders_of (ev # evs) = adders_of [ev] \<union> adders_of evs"
  by (cases ev) auto

lemma exec_run:
  "cb_run {e} A s0 pushed outs raced s \<Longrightarrow> exec e evs s = Some (p, out, s') \<Longrightarrow> adders_of evs \<subseteq> A \<Longrightarrow>
   \<exists>raced'. cb_run {e} A s0 (pushed @ p) (outs @ out) raced' s'"
proof (induction evs arbitrary: s pushed outs raced p out)
  case Nil
  then show ?case by auto
next
  case (Cons ev evs)
  obtain p1 o1 s1 p2 o2 where ex: "exec_event e ev s = Some (p1, o1, s1)" "exec e evs s1 = Some (p2, o2, s')"
      "p = p1 @ p2" "out = o1 @ o2"
    using Cons.prems(2) by (auto split: option.splits)
  have A: "adders_of [ev] \<subseteq> A" "adders_of evs \<subseteq> A"
    using Cons.prems(3) unfolding adders_of_Cons [of ev evs] by auto
  obtain race where "cb_step {e} A s p1 o1 race s1"
    using exec_event_step [OF ex(1) A(1)] by blast
  from cb_run.more [OF Cons.prems(1) this] Cons.IH [OF _ ex(2) A(2)] show ?case
    unfolding ex(3,4) by (metis append.assoc)
qed

section \<open>Theorems\<close>

lemma in_order:
  assumes "cb_run E A (js_threads_new cs) pushed outs raced s" "\<not> raced \<or> (\<exists>k. A \<subseteq> {k})"
  shows "prefix outs (task_calls pushed) \<and> length (uv_works (js_state s)) \<le> 1 \<and>
    (all_served E cs pushed \<and> \<not> IsReleased (manager (js_state s)) \<and> uv_works (js_state s) = [] \<and>
       (\<forall>i p. js_at s i = Some p \<longrightarrow> \<not> active p) \<longrightarrow> outs = task_calls pushed)"
proof -
  have "\<not> raced"
    using assms one_adder_never_races [OF assms(1)] by blast
  then have I: "cb_inv E cs s pushed outs"
    using cb_inv_run [OF assms(1)] by simp
  then have "prefix outs (task_calls pushed) \<and> length (uv_works (js_state s)) \<le> 1"
    by (cases rule: cb_invE) (auto dest: core_prefix)
  moreover have "outs = task_calls pushed"
    if "all_served E cs pushed" "\<not> IsReleased (manager (js_state s))" "uv_works (js_state s) = []"
      "\<forall>i p. js_at s i = Some p \<longrightarrow> \<not> active p"
    using I
  proof (cases rule: cb_invE)
    case idle
    then show ?thesis
      using core_quiescent that(1-3) by blast
  next
    case (busy i p)
    then show ?thesis
      using that(4) active_at_Some [of s i p] by simp
  qed
  ultimately show ?thesis
    by blast
qed



lemmas exec_eval = eval_nat_numeral js_threads_new_def js_machine_new_def fresh_contexts_def
  engine_up_def push_task_def choose_task_def work_callback_def RunCallback_def set_inCalling_def set_jsCallbacks_def
  set_IsReleased_def at_step_def Let_def


text \<open>While the owner lives no thread inside the manager is ever stuck.\<close>

lemma alive_can_step: "\<not> IsReleased (manager m) \<Longrightarrow> pc_step e p m \<noteq> None"
  by (cases p) (auto simp: choose_task_def Let_def split: prod.splits option.splits list.splits)

text \<open>
  The pages of a query are added by one thread, so the query is seen as
  \<open>query_seen_by_javascript\<close> says also when the steps of the additions and of the loop interleave.
\<close>

lemma query_seen_step_by_step:
  assumes "cb_run E {k} (js_threads_new cs) (query_tasks ctx pages reason totalCount seq) outs raced s"
    and "\<forall>e \<in> E. engine_serves e" "env_set (cs ctx)" "\<not> IsReleased (manager (js_state s))"
    and "uv_works (js_state s) = []" "\<forall>i p. js_at s i = Some p \<longrightarrow> \<not> active p"
  shows "List.map_filter (invoke self self) outs =
     map (\<lambda>p. (''onQuery'', [Event_info_array p])) pages @
     [(''onComplete'', [Js_int reason, Js_int totalCount, Js_int seq]), (''ReleaseQuerier'', [])]"
proof -
  have "all_served E cs (query_tasks ctx pages reason totalCount seq)"
    using assms(2,3) by (auto simp: all_served_def query_tasks_def)
  then have "outs = task_calls (query_tasks ctx pages reason totalCount seq)"
    using in_order [OF assms(1)] assms(4-6) by blast
  then show ?thesis
    by (simp add: query_tasks_calls)
qed

section \<open>What the races do\<close>

text \<open>
  Two threads push before either sets \<^verbatim>\<open>inCalling\<close>, so both post a work for the first task.
  The first completed work then loads the second task into the shared context, where two
  further works find it: its callback is called twice.
\<close>

definition racing_schedule :: "'f \<Rightarrow> 'f \<Rightarrow> 'f js_event list" where
  "racing_schedule f g =
     [Call_add 1 (Some 7, Some f, None), Call_add 2 (Some 7, Some g, None),
      Advance 1, Advance 2, Advance 1, Advance 2] @ replicate 5 (Advance 1) @ replicate 5 (Advance 2) @
     Work 0 # replicate 6 (Advance 0) @ Work 0 # replicate 4 (Advance 0) @ [Work 0]"

lemma racing_steps_call_twice:
  "\<exists>s. cb_run {engine_up} {1, 2} (js_threads_new fresh_contexts)
     [(Some 7, Some f, None), (Some 7, Some g, None)] [Callback_called f, Callback_called g, Callback_called g] True s"
proof -
  obtain s where ex: "exec engine_up (racing_schedule f g) (js_threads_new fresh_contexts) =
      Some ([(Some 7, Some f, None), (Some 7, Some g, None)], [Callback_called f, Callback_called g, Callback_called g], s)"
    by (simp add: exec_eval racing_schedule_def)
  have "adders_of (racing_schedule f g) \<subseteq> {1, 2}"
    by (simp add: racing_schedule_def eval_nat_numeral)
  from exec_run [OF cb_run.start ex this] obtain raced where
      run: "cb_run {engine_up} {1, 2} (js_threads_new fresh_contexts)
        [(Some 7, Some f, None), (Some 7, Some g, None)] [Callback_called f, Callback_called g, Callback_called g] raced s"
    by auto
  have raced
  proof (rule ccontr)
    assume "\<not> raced"
    then have "prefix [Callback_called f, Callback_called g, Callback_called g]
        (task_calls [(Some 7, Some f, None), (Some 7, Some g, None)])"
      using in_order [OF run] by blast
    then show False
      by simp
  qed
  with run show ?thesis
    by auto
qed

text \<open>
  A release that falls between the test of \<^verbatim>\<open>IsReleased\<close> and the locked section of the run that
  follows a completed work makes that run read the front of an empty queue.
\<close>

lemma release_reads_empty_queue:
  "\<exists>s pushed outs. exec engine_up
     (Call_add 1 (Some 7, Some f, None) # replicate 7 (Advance 1) @ Work 0 # replicate 3 (Advance 0) @
        [Call_release 2, Advance 2]) (js_threads_new fresh_contexts) = Some (pushed, outs, s) \<and>
     js_at s 0 = Some (Run_choose True) \<and> pc_step engine_up (Run_choose True) (js_state s) = None"
  by (simp add: exec_eval)

end
