(* ===== verification/NapiAdapter.thy ===== *)
theory NapiAdapter
  imports Writer EventRegistry ToolArguments FileUtil
begin

text \<open>
  Writing from JavaScript (napi_hisysevent_adapter.cpp and .h, the error table of
  napi_hisysevent_util.cpp and ret_def.h under src/interfaces/js/kits/napi): where the call
  came from is read off the engine's stack trace, the parsed event goes through the frequency
  limit and is written on a worker thread, and the outcome settles a promise or is handed to a
  callback. The theory composes with the C++ writer and shows that a write from JavaScript is
  the C++ write of the same keys and values.
\<close>

section \<open>Data\<close>

text \<open>\<^verbatim>\<open>std::variant\<close> of the parameter values; a \<^verbatim>\<open>double\<close> is its 64 bits. The
  parameters stand in the order in which the \<^verbatim>\<open>unordered_map\<close> is walked.\<close>

datatype Param =
    BL bool
  | DOU "64 word"
  | I64 "64 word"
  | U64 "64 word"
  | STR_VAL string
  | BOOL_ARR "bool list"
  | DOUBLE_ARR "64 word list"
  | I64_ARR "64 word list"
  | U64_ARR "64 word list"
  | STR_ARR "string list"

record HiSysEventInfo =
  ei_domain :: string
  ei_name :: string
  ei_eventType :: int
  ei_params :: "(string \<times> Param) list"

type_synonym JsCallerInfo = "string \<times> 64 word"

record HiSysEventAsyncContext =
  ac_promise :: bool
  ac_eventInfo :: HiSysEventInfo
  ac_eventWroteResult :: int
  ac_jsCallerInfo :: JsCallerInfo
  ac_timeStamp :: u64

section \<open>The caller of a write\<close>

text \<open>The loop of \<^verbatim>\<open>Split\<close>, from the positions \<open>start\<close> and \<open>end\<close> on, \<open>None\<close> being \<^verbatim>\<open>npos\<close>.\<close>

function Split_loop :: "string \<Rightarrow> char \<Rightarrow> nat \<Rightarrow> nat option \<Rightarrow> string list \<Rightarrow> nat \<times> string list" where
  "Split_loop origin delimiter start None ret = (start, ret)"
| "Split_loop origin delimiter start (Some end_pos) ret =
     (if end_pos \<ge> length origin \<or> end_pos < start then (start, ret)
      else if end_pos = start
        then Split_loop origin delimiter (start + 1) (find_char delimiter origin (start + 1)) ret
      else Split_loop origin delimiter (end_pos + 1) (find_char delimiter origin (end_pos + 1))
        (ret @ [take (end_pos - start) (drop start origin)]))"
  by pat_completeness auto
termination
  by (relation "measure (\<lambda>(origin, delimiter, start, end_pos, ret). length origin - start)") auto

definition Split :: "string \<Rightarrow> char \<Rightarrow> string list \<Rightarrow> string list" where
  "Split origin delimiter ret =
     (case Split_loop origin delimiter 0 (find_char delimiter origin 0) ret of (start, ret') \<Rightarrow>
        if start \<noteq> length origin then ret' @ [drop start origin] else ret')"

definition DEFAULT_LINE_NUM :: "64 word" where "DEFAULT_LINE_NUM = -1"

text \<open>The file name behind the last delimiter of a path.\<close>

definition base_name :: "string \<Rightarrow> string" where
  "base_name fileName = rev (takeWhile (\<lambda>c. c \<noteq> PATH_DELIMITER) (rev fileName))"

definition ParseCallerInfoFromStackTrace :: "string \<Rightarrow> JsCallerInfo \<Rightarrow> JsCallerInfo" where
  "ParseCallerInfoFromStackTrace stackTrace callerInfo =
     (if stackTrace = [] then callerInfo
      else let callInfos = Split stackTrace (CHR '' '') [] in
      if length callInfos \<le> 1 then callerInfo
      else let func = callInfos ! 1 in
      if length callInfos \<le> 2 then (func, snd callerInfo)
      else let lineInfos = Split (callInfos ! 2) (CHR '':'') [] in
      if length lineInfos \<le> 1 then (func, snd callerInfo)
      else (if func = ''anonymous'' then base_name (lineInfos ! 0) else func,
            case from_chars 64 (lineInfos ! 1) of None \<Rightarrow> DEFAULT_LINE_NUM | Some n \<Rightarrow> of_int n))"

text \<open>\<open>trace\<close> is \<open>None\<close> when the engine cannot build a stack trace.\<close>

definition ParseJsCallerInfo :: "string option \<Rightarrow> JsCallerInfo \<Rightarrow> JsCallerInfo" where
  "ParseJsCallerInfo trace callerInfo =
     (case trace of None \<Rightarrow> callerInfo | Some stackTrace \<Rightarrow> ParseCallerInfoFromStackTrace stackTrace callerInfo)"

section \<open>Writing\<close>

text \<open>The table of handlers, indexed by the alternative of the variant (\<^verbatim>\<open>int64_t\<close> is \<^verbatim>\<open>long\<close>).\<close>

primrec param_handler :: "mem_env \<Rightarrow> string \<Rightarrow> Param \<Rightarrow> event_base \<Rightarrow> event_base" where
  "param_handler env key (BL v) = InnerWrite_bool env key v"
| "param_handler env key (DOU v) = InnerWrite_double env key v"
| "param_handler env key (I64 v) = InnerWrite_long env key v"
| "param_handler env key (U64 v) = InnerWrite_ulong env key v"
| "param_handler env key (STR_VAL v) = InnerWrite_string env key v"
| "param_handler env key (BOOL_ARR v) = InnerWrite_bools env key v"
| "param_handler env key (DOUBLE_ARR v) = InnerWrite_doubles env key v"
| "param_handler env key (I64_ARR v) = InnerWrite_longs env key v"
| "param_handler env key (U64_ARR v) = InnerWrite_ulongs env key v"
| "param_handler env key (STR_ARR v) = InnerWrite_strings env key v"

primrec AppendParams :: "mem_env \<Rightarrow> (string \<times> Param) list \<Rightarrow> event_base \<Rightarrow> event_base" where
  "AppendParams env [] eb = eb"
| "AppendParams env (kv # params) eb = AppendParams env params (param_handler env (fst kv) (snd kv) eb)"

definition Napi_Write_event ::
  "os_env \<Rightarrow> proc_env \<Rightarrow> HiSysEventInfo \<Rightarrow> u64 \<Rightarrow> transport \<Rightarrow> transport \<times> int" where
  "Napi_Write_event os pe info timeStamp tp =
     (let env = pe_mem pe in
      if \<not> IsValidName (ei_domain info) MAX_DOMAIN_LENGTH
      then (tp, snd (ExplainThenReturnRetCode ERR_DOMAIN_NAME_INVALID))
      else if \<not> IsValidName (ei_name info) MAX_EVENT_NAME_LENGTH
      then (tp, snd (ExplainThenReturnRetCode ERR_EVENT_NAME_INVALID))
      else let eb1 = WritebaseInfo pe (EventBase_new env (ei_domain info) (ei_name info) (ei_eventType info) timeStamp) in
      if IsError eb1 then (tp, snd (ExplainThenReturnRetCode (GetRetCode eb1)))
      else let eb2 = InnerWrite env [] (AppendParams env (ei_params info) eb1) in
      if IsError eb2 then (tp, snd (ExplainThenReturnRetCode (GetRetCode eb2)))
      else case SendSysEvent os env eb2 tp of (eb3, tp') \<Rightarrow> (tp', GetRetCode eb3))"

text \<open>The worker thread; of \<open>we\<close> it uses the process and the platform, the limit being the
  default one and the time that of the call.\<close>

definition CheckThenWriteSysEvent ::
  "writer_env \<Rightarrow> HiSysEventAsyncContext \<Rightarrow> writer \<Rightarrow> writer \<times> HiSysEventAsyncContext" where
  "CheckThenWriteSysEvent we ctx w =
     (if ac_eventWroteResult ctx \<noteq> SUCCESS then (w, ctx)
      else let eventInfo = ac_eventInfo ctx; jsCallerInfo = ac_jsCallerInfo ctx in
        case CheckLimitWritingEvent (we_char_signed we) default_param (ei_name eventInfo)
          (fst jsCallerInfo) (snd jsCallerInfo) (ac_timeStamp ctx) (wr_lru w) of
        (lru, timeStamp) \<Rightarrow>
          let w1 = w\<lparr>wr_lru := lru\<rparr> in
          if timeStamp = INVALID_TIME_STAMP then (w1, ctx\<lparr>ac_eventWroteResult := ERR_WRITE_IN_HIGH_FREQ\<rparr>)
          else case Napi_Write_event (we_os we) (we_proc we) eventInfo timeStamp (wr_transport w1) of
            (tp, ret) \<Rightarrow> (w1\<lparr>wr_transport := tp\<rparr>, ctx\<lparr>ac_eventWroteResult := ret\<rparr>))"

section \<open>The outcome\<close>

definition JS_STR_PARM_LEN_LIMIT :: nat where "JS_STR_PARM_LEN_LIMIT = 1024 * 10"

definition HasStrParamLenOverLimit :: "HiSysEventInfo \<Rightarrow> bool" where
  "HasStrParamLenOverLimit info =
     list_ex (\<lambda>(key, value). case value of
         STR_VAL s \<Rightarrow> length s > JS_STR_PARM_LEN_LIMIT
       | STR_ARR allStr \<Rightarrow> list_ex (\<lambda>s. length s > JS_STR_PARM_LEN_LIMIT) allStr
       | _ \<Rightarrow> False) (ei_params info)"

text \<open>The codes of ret_code.h that the table names, and those of ret_def.h.\<close>

definition ERR_CAN_NOT_WRITE_DESCRIPTOR :: int where "ERR_CAN_NOT_WRITE_DESCRIPTOR = -14"
definition ERR_CAN_NOT_WRITE_PARCEL :: int where "ERR_CAN_NOT_WRITE_PARCEL = -15"
definition ERR_CAN_NOT_WRITE_REMOTE_OBJECT :: int where "ERR_CAN_NOT_WRITE_REMOTE_OBJECT = -16"
definition ERR_CAN_NOT_SEND_REQ :: int where "ERR_CAN_NOT_SEND_REQ = -17"
definition ERR_CAN_NOT_READ_PARCEL :: int where "ERR_CAN_NOT_READ_PARCEL = -18"
definition ERR_NO_PERMISSION :: int where "ERR_NO_PERMISSION = -19"
definition ERR_TOO_MANY_WATCHERS :: int where "ERR_TOO_MANY_WATCHERS = -26"
definition ERR_TOO_MANY_CONCURRENT_QUERIES :: int where "ERR_TOO_MANY_CONCURRENT_QUERIES = -28"
definition ERR_QUERY_TOO_FREQUENTLY :: int where "ERR_QUERY_TOO_FREQUENTLY = -31"
definition ERR_TOO_MANY_EVENTS :: int where "ERR_TOO_MANY_EVENTS = -32"
definition ERR_EXPORT_FREQUENCY_OVER_LIMIT :: int where "ERR_EXPORT_FREQUENCY_OVER_LIMIT = -33"
definition ERR_REMOVE_SUBSCRIBE :: int where "ERR_REMOVE_SUBSCRIBE = -34"

definition NAPI_PERMISSION_CHECK :: int where "NAPI_PERMISSION_CHECK = 201"
definition NAPI_NON_SYS_APP_PERMISSION :: int where "NAPI_NON_SYS_APP_PERMISSION = 202"
definition NAPI_PARAM_CHECK :: int where "NAPI_PARAM_CHECK = 401"
definition NAPI_INVALID_DOMAIN :: int where "NAPI_INVALID_DOMAIN = 11200001"
definition NAPI_INVALID_EVENT_NAME :: int where "NAPI_INVALID_EVENT_NAME = 11200002"
definition NAPI_ENV_ABNORMAL :: int where "NAPI_ENV_ABNORMAL = 11200003"
definition NAPI_CONTENT_OVER_LIMIT :: int where "NAPI_CONTENT_OVER_LIMIT = 11200004"
definition NAPI_INVALID_PARAM_NAME :: int where "NAPI_INVALID_PARAM_NAME = 11200051"
definition NAPI_STR_LEN_OVER_LIMIT :: int where "NAPI_STR_LEN_OVER_LIMIT = 11200052"
definition NAPI_PARAM_COUNT_OVER_LIMIT :: int where "NAPI_PARAM_COUNT_OVER_LIMIT = 11200053"
definition NAPI_ARRAY_SIZE_OVER_LIMIT :: int where "NAPI_ARRAY_SIZE_OVER_LIMIT = 11200054"
definition NAPI_WATCHER_COUNT_OVER_LIMIT :: int where "NAPI_WATCHER_COUNT_OVER_LIMIT = 11200101"
definition NAPI_WATCH_RULE_COUNT_OVER_LIMIT :: int where "NAPI_WATCH_RULE_COUNT_OVER_LIMIT = 11200102"
definition NAPI_WATCHER_NOT_EXIST :: int where "NAPI_WATCHER_NOT_EXIST = 11200201"
definition NAPI_QUERY_RULE_COUNT_OVER_LIMIT :: int where "NAPI_QUERY_RULE_COUNT_OVER_LIMIT = 11200301"
definition NAPI_INVALID_QUERY_RULE :: int where "NAPI_INVALID_QUERY_RULE = 11200302"
definition NAPI_CONCURRENT_QUERY_COUNT_OVER_LIMIT :: int where
  "NAPI_CONCURRENT_QUERY_COUNT_OVER_LIMIT = 11200303"
definition NAPI_QUERY_TOO_FREQUENTLY :: int where "NAPI_QUERY_TOO_FREQUENTLY = 11200304"
definition NAPI_REMOVE_SUBSCRIBE :: int where "NAPI_REMOVE_SUBSCRIBE = 11200305"
definition ERR_INVALID_DOMAIN_IN_QUERY_RULE :: int where "ERR_INVALID_DOMAIN_IN_QUERY_RULE = 112003001"
definition ERR_INVALID_EVENT_NAME_IN_QUERY_RULE :: int where "ERR_INVALID_EVENT_NAME_IN_QUERY_RULE = 112003002"
definition ERR_NAPI_LISTENER_NOT_FOUND :: int where "ERR_NAPI_LISTENER_NOT_FOUND = -107"

lemmas napi_code_defs = err_code_defs ERR_CAN_NOT_WRITE_DESCRIPTOR_def ERR_CAN_NOT_WRITE_PARCEL_def
  ERR_CAN_NOT_WRITE_REMOTE_OBJECT_def ERR_CAN_NOT_SEND_REQ_def ERR_CAN_NOT_READ_PARCEL_def
  ERR_NO_PERMISSION_def ERR_TOO_MANY_WATCHERS_def ERR_TOO_MANY_CONCURRENT_QUERIES_def
  ERR_QUERY_TOO_FREQUENTLY_def ERR_TOO_MANY_EVENTS_def ERR_EXPORT_FREQUENCY_OVER_LIMIT_def
  ERR_REMOVE_SUBSCRIBE_def ERR_INVALID_DOMAIN_IN_QUERY_RULE_def ERR_INVALID_EVENT_NAME_IN_QUERY_RULE_def
  ERR_NAPI_LISTENER_NOT_FOUND_def ERR_SYS_EVENT_SERVICE_NOT_FOUND_def ERR_TOO_MANY_WATCH_RULES_def
  ERR_LISTENER_NOT_EXIST_def ERR_TOO_MANY_QUERY_RULES_def ERR_QUERY_RULE_INVALID_def

lemmas napi_error_defs = NAPI_PERMISSION_CHECK_def NAPI_INVALID_DOMAIN_def NAPI_INVALID_EVENT_NAME_def
  NAPI_ENV_ABNORMAL_def NAPI_CONTENT_OVER_LIMIT_def NAPI_INVALID_PARAM_NAME_def NAPI_STR_LEN_OVER_LIMIT_def
  NAPI_PARAM_COUNT_OVER_LIMIT_def NAPI_ARRAY_SIZE_OVER_LIMIT_def NAPI_WATCHER_COUNT_OVER_LIMIT_def
  NAPI_WATCH_RULE_COUNT_OVER_LIMIT_def NAPI_WATCHER_NOT_EXIST_def NAPI_QUERY_RULE_COUNT_OVER_LIMIT_def
  NAPI_INVALID_QUERY_RULE_def NAPI_CONCURRENT_QUERY_COUNT_OVER_LIMIT_def NAPI_QUERY_TOO_FREQUENTLY_def
  NAPI_REMOVE_SUBSCRIBE_def


definition INVALID_DOMAIN_DES :: string where
  "INVALID_DOMAIN_DES = ''Invalid domain name. Possible causes are the specified event domain name does '' @
     ''not comply with the following rules: 1. Contains only digits, letters, and underscores (_); '' @
     ''2. Starts with a letter; '' @
     ''3. Is not empty and contains a maximum of 16 characters.''"

definition INVALID_NAME_DES :: string where
  "INVALID_NAME_DES = ''Invalid event name. Possible causes are the specified event name does not '' @
     ''comply with the following rules: 1. Contains only digits, letters, and underscores (_); '' @
     ''2. Starts with a letter; '' @
     ''3. Is not empty and contains a maximum of 32 characters.''"

definition INVALID_PARAM_NAME_DES :: string where
  "INVALID_PARAM_NAME_DES = ''Invalid parameter name. Possible causes are the specified event parameter '' @
     ''name does not comply with the following rules: 1. Contains only digits, letters, and underscores (_); '' @
     ''2. Starts with a letter; '' @
     ''3. Is not empty and contains a maximum of 48 characters.''"

definition INVALID_QUERY_RULE_DES :: string where
  "INVALID_QUERY_RULE_DES = ''Invalid query rule. Possible causes: '' @
     ''1. The event domain name in the query rule contains more than 16 characters or the event name contains more '' @
     ''than 32 characters; 2. The event domain name or event name in the query rule contains special characters; '' @
     ''3. The event domain name or event name in the query rule is empty.''"

definition abnormal :: "int \<times> string" where
  "abnormal = (NAPI_ENV_ABNORMAL, ''Abnormal environment'')"

definition errMap :: "(int \<times> int \<times> string) list" where
  "errMap = [
     (ERR_NO_PERMISSION, NAPI_PERMISSION_CHECK,
       ''Permission denied. An attempt was made to read sysevent forbidden'' @
       '' by permission: ohos.permission.READ_DFX_SYSEVENT.''),
     (ERR_DOMAIN_NAME_INVALID, NAPI_INVALID_DOMAIN, INVALID_DOMAIN_DES),
     (ERR_EVENT_NAME_INVALID, NAPI_INVALID_EVENT_NAME, INVALID_NAME_DES),
     (ERR_DOES_NOT_INIT, abnormal),
     (ERR_OVER_SIZE, NAPI_CONTENT_OVER_LIMIT, ''The event length exceeds the limit''),
     (ERR_KEY_NAME_INVALID, NAPI_INVALID_PARAM_NAME, INVALID_PARAM_NAME_DES),
     (ERR_VALUE_LENGTH_TOO_LONG, NAPI_STR_LEN_OVER_LIMIT,
       ''The size of the event parameter of the string type exceeds the limit''),
     (ERR_KEY_NUMBER_TOO_MUCH, NAPI_PARAM_COUNT_OVER_LIMIT,
       ''The number of event parameters exceeds the limit''),
     (ERR_ARRAY_TOO_MUCH, NAPI_ARRAY_SIZE_OVER_LIMIT,
       ''The number of event parameters of the array type exceeds the limit''),
     (ERR_SYS_EVENT_SERVICE_NOT_FOUND, abnormal),
     (ERR_CAN_NOT_WRITE_DESCRIPTOR, abnormal),
     (ERR_CAN_NOT_WRITE_PARCEL, abnormal),
     (ERR_CAN_NOT_WRITE_REMOTE_OBJECT, abnormal),
     (ERR_CAN_NOT_SEND_REQ, abnormal),
     (ERR_CAN_NOT_READ_PARCEL, abnormal),
     (ERR_SEND_FAIL, abnormal),
     (ERR_TOO_MANY_WATCHERS, NAPI_WATCHER_COUNT_OVER_LIMIT, ''The number of watchers exceeds the limit''),
     (ERR_TOO_MANY_WATCH_RULES, NAPI_WATCH_RULE_COUNT_OVER_LIMIT, ''The number of watch rules exceeds the limit''),
     (ERR_LISTENER_NOT_EXIST, NAPI_WATCHER_NOT_EXIST, ''The watcher does not exist''),
     (ERR_NAPI_LISTENER_NOT_FOUND, NAPI_WATCHER_NOT_EXIST, ''The watcher does not exist''),
     (ERR_TOO_MANY_QUERY_RULES, NAPI_QUERY_RULE_COUNT_OVER_LIMIT, ''The number of query rules exceeds the limit''),
     (ERR_TOO_MANY_CONCURRENT_QUERIES, NAPI_CONCURRENT_QUERY_COUNT_OVER_LIMIT,
       ''The number of concurrent queries exceeds the limit''),
     (ERR_QUERY_TOO_FREQUENTLY, NAPI_QUERY_TOO_FREQUENTLY, ''The query frequency exceeds the limit''),
     (ERR_INVALID_DOMAIN_IN_QUERY_RULE, NAPI_INVALID_QUERY_RULE, INVALID_QUERY_RULE_DES),
     (ERR_QUERY_RULE_INVALID, NAPI_INVALID_QUERY_RULE, INVALID_QUERY_RULE_DES),
     (ERR_INVALID_EVENT_NAME_IN_QUERY_RULE, NAPI_INVALID_QUERY_RULE, INVALID_QUERY_RULE_DES),
     (ERR_EXPORT_FREQUENCY_OVER_LIMIT, NAPI_QUERY_TOO_FREQUENTLY, ''The query frequency exceeds the limit''),
     (ERR_TOO_MANY_EVENTS, NAPI_QUERY_RULE_COUNT_OVER_LIMIT, ''The number of query rules exceeds the limit''),
     (ERR_REMOVE_SUBSCRIBE, NAPI_REMOVE_SUBSCRIBE, ''Unsubscription failed'')]"

definition GetErrorDetailByRet :: "int \<Rightarrow> int \<times> string" where
  "GetErrorDetailByRet retCode = (case map_of errMap retCode of None \<Rightarrow> abnormal | Some detail \<Rightarrow> detail)"

text \<open>A JavaScript error: its code as text, and its message.\<close>

type_synonym js_error = "string \<times> string"

definition CreateErrorByRet :: "int \<Rightarrow> js_error" where
  "CreateErrorByRet retCode = (case GetErrorDetailByRet retCode of (code, msg) \<Rightarrow> (decimal_int code, msg))"

text \<open>How the main thread settles a write: the promise if there is one, else the callback,
  which gets an error or null, and a value or null.\<close>

datatype js_outcome =
    Resolved "int option"
  | Rejected "js_error option"
  | CalledBack "js_error option" "int option"

definition complete_write :: "HiSysEventAsyncContext \<Rightarrow> js_outcome" where
  "complete_write ctx =
     (let isNormalWrote = (ac_eventWroteResult ctx = SUCCESS \<and> \<not> HasStrParamLenOverLimit (ac_eventInfo ctx));
          results =
            (if isNormalWrote then (None, Some (ac_eventWroteResult ctx))
             else (Some (CreateErrorByRet (if ac_eventWroteResult ctx = SUCCESS
                     then ERR_VALUE_LENGTH_TOO_LONG else ac_eventWroteResult ctx)), None)) in
      if ac_promise ctx
      then (if isNormalWrote then Resolved (snd results) else Rejected (fst results))
      else CalledBack (fst results) (snd results))"

text \<open>One call of \<^verbatim>\<open>Write\<close>: the clock is read on the calling thread, the worker writes, the main
  thread settles.\<close>

definition Napi_Write ::
  "writer_env \<Rightarrow> HiSysEventAsyncContext \<Rightarrow> writer \<Rightarrow> writer \<times> js_outcome" where
  "Napi_Write we ctx w =
     (case CheckThenWriteSysEvent we (ctx\<lparr>ac_timeStamp := we_now we\<rparr>) w of
        (w', ctx') \<Rightarrow> (w', complete_write ctx'))"


section \<open>A write from JavaScript is a C++ write\<close>

primrec cpp_of_param :: "Param \<Rightarrow> cpp_value" where
  "cpp_of_param (BL v) = VBool v"
| "cpp_of_param (DOU v) = VDouble v"
| "cpp_of_param (I64 v) = VLong v"
| "cpp_of_param (U64 v) = VULong v"
| "cpp_of_param (STR_VAL v) = VString v"
| "cpp_of_param (BOOL_ARR v) = VBools v"
| "cpp_of_param (DOUBLE_ARR v) = VDoubles v"
| "cpp_of_param (I64_ARR v) = VLongs v"
| "cpp_of_param (U64_ARR v) = VULongs v"
| "cpp_of_param (STR_ARR v) = VStrings v"

definition key_values :: "HiSysEventInfo \<Rightarrow> (string \<times> cpp_value) list" where
  "key_values info = map (\<lambda>(k, v). (k, cpp_of_param v)) (ei_params info)"

lemma param_handler_overload: "param_handler env key p = InnerWrite_overload env key (cpp_of_param p)"
  by (cases p) simp_all

lemma AppendParams_InnerWrite: "AppendParams env (ei_params info) eb = InnerWrite env (key_values info) eb"
proof -
  have "AppendParams env ps eb = InnerWrite env (map (\<lambda>(k, v). (k, cpp_of_param v)) ps) eb" for ps
    by (induction ps arbitrary: eb) (simp_all add: param_handler_overload split_beta)
  then show ?thesis
    by (simp add: key_values_def)
qed

text \<open>\<^verbatim>\<open>WritebaseInfo\<close> leaves the code of an invalid event or reports the failure of its buffer.\<close>

lemma append_or_fail_code:
  assumes "\<And>eb. eb_retCode (continue eb) \<in> {eb_retCode eb, ERR_RAW_DATA_WROTE_EXCEPTION}"
  shows "eb_retCode (append_or_fail env bs continue eb) \<in> {eb_retCode eb, ERR_RAW_DATA_WROTE_EXCEPTION}"
proof -
  have "eb_retCode (continue (eb\<lparr>eb_rawData := r\<rparr>)) \<in> {eb_retCode eb, ERR_RAW_DATA_WROTE_EXCEPTION}" for r
    using assms [of "eb\<lparr>eb_rawData := r\<rparr>"] by simp
  then show ?thesis
    by (auto simp: append_or_fail_def SetRetCode_def split: option.split prod.split)
qed

lemma append_or_fail_stop:
  "eb_retCode (append_or_fail env bs (\<lambda>eb. eb) eb) \<in> {eb_retCode eb, ERR_RAW_DATA_WROTE_EXCEPTION}"
  by (rule append_or_fail_code) simp

lemma WritebaseInfo_code:
  "eb_retCode (WritebaseInfo pe eb) \<in> {eb_retCode eb, ERR_RAW_DATA_WROTE_EXCEPTION}"
proof -
  have count: "eb_retCode (append_or_fail env bs (\<lambda>eb. eb) (eb\<lparr>eb_paramCntWroteOffset := n\<rparr>))
      \<in> {eb_retCode eb, ERR_RAW_DATA_WROTE_EXCEPTION}" for env bs eb n
    using append_or_fail_stop [of env bs "eb\<lparr>eb_paramCntWroteOffset := n\<rparr>"] by simp
  have start: "eb_retCode (fill_header pe (eb\<lparr>eb_rawData := r\<rparr>)) = eb_retCode eb" for r
    by (simp add: fill_header_def Let_def split: option.split)
  show ?thesis
    unfolding WritebaseInfo_def Let_def start [of "Some (RawData_new (pe_mem pe))", symmetric]
    by (intro append_or_fail_code) (simp add: append_or_fail_code count del: insert_iff)
qed


lemma Napi_Write_event_is_InnerWrite:
  "Napi_Write_event os pe info timeStamp tp =
   InnerWrite_event os pe (ei_domain info) (ei_name info) (ei_eventType info) timeStamp
     (KeyValues (key_values info)) tp"
proof (cases "IsValidName (ei_domain info) MAX_DOMAIN_LENGTH \<and> IsValidName (ei_name info) MAX_EVENT_NAME_LENGTH")
  case False
  then show ?thesis
    by (auto simp: Napi_Write_event_def InnerWrite_event_def EventBase_new_def IsError_def GetRetCode_def
        SetRetCode_def err_code_defs Let_def)
next
  case True
  let ?eb0 = "EventBase_new (pe_mem pe) (ei_domain info) (ei_name info) (ei_eventType info) timeStamp"
  have raw: "eb_retCode (WritebaseInfo pe ?eb0) = ERR_RAW_DATA_WROTE_EXCEPTION"
    if "IsError ?eb0"
  proof -
    have "eb_retCode ?eb0 = ERR_RAW_DATA_WROTE_EXCEPTION"
      using that True
      by (auto simp: EventBase_new_def IsError_def GetRetCode_def SetRetCode_def event_base_init_def
          err_code_defs Let_def split: if_splits)
    then show ?thesis
      using WritebaseInfo_code [of pe ?eb0] by auto
  qed
  show ?thesis
  proof (cases "IsError ?eb0")
    case err: True
    then have "eb_retCode ?eb0 = ERR_RAW_DATA_WROTE_EXCEPTION"
      using True
      by (auto simp: EventBase_new_def IsError_def GetRetCode_def SetRetCode_def event_base_init_def
          err_code_defs Let_def split: if_splits)
    then show ?thesis
      using err raw True
      by (simp add: Napi_Write_event_def InnerWrite_event_def IsError_def GetRetCode_def Let_def)
  next
    case False
    then show ?thesis
      using True
      by (simp add: Napi_Write_event_def InnerWrite_event_def AppendParams_InnerWrite Let_def)
  qed
qed

text \<open>A write from JavaScript is the C++ write of the same keys and values at the call site
  read off the stack trace, with the default frequency limit: the writer ends in the same
  state, and JavaScript sees success exactly when the C++ write returns success and no string
  is longer than the limit for JavaScript; any other code becomes its entry of the error
  table, and an event that was written with a string over that limit is reported as failed.\<close>

lemma js_write_is_cpp_write:
  assumes "ac_eventWroteResult ctx = SUCCESS"
    and "HiSysEvent_Write_cpp (we\<lparr>we_param := default_param\<rparr>) (fst (ac_jsCallerInfo ctx))
      (snd (ac_jsCallerInfo ctx)) (ei_domain (ac_eventInfo ctx)) (ei_name (ac_eventInfo ctx))
      (ei_eventType (ac_eventInfo ctx)) (KeyValues (key_values (ac_eventInfo ctx))) w = (w', code)"
  shows "Napi_Write we ctx w =
    (w', if code = SUCCESS \<and> \<not> HasStrParamLenOverLimit (ac_eventInfo ctx)
         then (if ac_promise ctx then Resolved (Some 0) else CalledBack None (Some 0))
         else let err = CreateErrorByRet (if code = SUCCESS then ERR_VALUE_LENGTH_TOO_LONG else code) in
           (if ac_promise ctx then Rejected (Some err) else CalledBack (Some err) None))"
proof -
  let ?i = "ac_eventInfo ctx" and ?c = "ac_jsCallerInfo ctx"
  obtain lru t where lim: "CheckLimitWritingEvent (we_char_signed we) default_param (ei_name ?i) (fst ?c) (snd ?c)
      (we_now we) (wr_lru w) = (lru, t)"
    by fastforce
  obtain tp ret where inner: "InnerWrite_event (we_os we) (we_proc we) (ei_domain ?i) (ei_name ?i)
      (ei_eventType ?i) t (KeyValues (key_values ?i)) (wr_transport w) = (tp, ret)"
    by fastforce
  have "CheckThenWriteSysEvent we (ctx\<lparr>ac_timeStamp := we_now we\<rparr>) w =
      (w', ctx\<lparr>ac_timeStamp := we_now we, ac_eventWroteResult := code\<rparr>)"
    using assms lim inner
    by (auto simp: CheckThenWriteSysEvent_def HiSysEvent_Write_cpp_def Napi_Write_event_is_InnerWrite Let_def
        split: if_splits)
  then show ?thesis
    by (auto simp: Napi_Write_def complete_write_def SUCCESS_def Let_def)
qed

lemma js_write_is_cpp_write_example:
  "\<exists>w' code. Napi_Write std_we \<lparr>ac_promise = True, ac_eventInfo = \<lparr>ei_domain = ''HIVIEW'', ei_name = ''LOAD'',
       ei_eventType = 4, ei_params = [(''KEY'', STR_VAL (replicate 10241 (CHR ''a'')))]\<rparr>,
       ac_eventWroteResult = 0, ac_jsCallerInfo = (''main'', 10), ac_timeStamp = 0\<rparr> std_w =
     (w', Rejected (Some (CreateErrorByRet (if code = SUCCESS then ERR_VALUE_LENGTH_TOO_LONG else code))))"
proof -
  let ?i = "\<lparr>ei_domain = ''HIVIEW'', ei_name = ''LOAD'', ei_eventType = 4,
      ei_params = [(''KEY'', STR_VAL (replicate 10241 (CHR ''a'')))]\<rparr>"
  let ?ctx = "\<lparr>ac_promise = True, ac_eventInfo = ?i, ac_eventWroteResult = 0,
      ac_jsCallerInfo = (''main'', 10), ac_timeStamp = 0\<rparr>"
  obtain w' code where "HiSysEvent_Write_cpp (std_we\<lparr>we_param := default_param\<rparr>) (fst (ac_jsCallerInfo ?ctx))
      (snd (ac_jsCallerInfo ?ctx)) (ei_domain (ac_eventInfo ?ctx)) (ei_name (ac_eventInfo ?ctx))
      (ei_eventType (ac_eventInfo ?ctx)) (KeyValues (key_values (ac_eventInfo ?ctx))) std_w = (w', code)"
    by fastforce
  note js_write_is_cpp_write [OF _ this]
  moreover have "HasStrParamLenOverLimit ?i"
    by (simp add: HasStrParamLenOverLimit_def JS_STR_PARM_LEN_LIMIT_def)
  ultimately show ?thesis
    by (simp add: SUCCESS_def Let_def) blast
qed


section \<open>Reading a stack trace\<close>

text \<open>What \<^verbatim>\<open>Split\<close> computes: the non-empty pieces between the delimiters.\<close>

function tokens :: "char \<Rightarrow> string \<Rightarrow> string list" where
  "tokens d s =
     (let p = takeWhile (\<lambda>c. c \<noteq> d) s in
      (if p = [] then [] else [p]) @
      (case dropWhile (\<lambda>c. c \<noteq> d) s of [] \<Rightarrow> [] | c # rest \<Rightarrow> tokens d rest))"
  by pat_completeness auto
termination
proof (relation "measure (\<lambda>(d, s). length s)")
  fix d :: char and s c rest
  assume "dropWhile (\<lambda>c. c \<noteq> d) s = c # rest"
  then have "Suc (length rest) \<le> length s"
    by (metis length_Cons length_dropWhile_le)
  then show "((d, rest), d, s) \<in> measure (\<lambda>(d, s). length s)"
    by simp
qed simp

declare tokens.simps [simp del]

lemma tokens_nil [simp]: "tokens d [] = []"
  by (simp add: tokens.simps [of d "[]"])

lemma tokens_none:
  assumes "d \<notin> set s" "s \<noteq> []"
  shows "tokens d s = [s]"
proof -
  have "takeWhile (\<lambda>c. c \<noteq> d) s = s" "dropWhile (\<lambda>c. c \<noteq> d) s = []"
    using assms(1) by (auto simp: takeWhile_eq_all_conv dropWhile_eq_Nil_conv)
  then show ?thesis
    using assms(2)
    by (subst tokens.simps) (simp add: Let_def del: takeWhile_eq_all_conv dropWhile_eq_Nil_conv)
qed

lemma tokens_piece:
  assumes "d \<notin> set p"
  shows "tokens d (p @ d # rest) = (if p = [] then [] else [p]) @ tokens d rest"
proof -
  have "takeWhile (\<lambda>c. c \<noteq> d) (p @ d # rest) = p" "dropWhile (\<lambda>c. c \<noteq> d) (p @ d # rest) = d # rest"
    using assms by (induction p) auto
  then show ?thesis
    by (subst tokens.simps) (simp add: Let_def)
qed

lemma find_char_drop:
  assumes "start \<le> length s"
  shows "find_char d s start = None \<and> d \<notin> set (drop start s) \<or>
    (\<exists>p rest. find_char d s start = Some (start + length p) \<and> d \<notin> set p \<and>
      drop start s = p @ d # rest \<and> start + length p < length s \<and> drop (start + length p + 1) s = rest)"
proof (cases "d \<in> set (drop start s)")
  case True
  let ?p = "takeWhile (\<lambda>c. c \<noteq> d) (drop start s)"
  obtain c rest where r: "dropWhile (\<lambda>c. c \<noteq> d) (drop start s) = c # rest"
    using True by (cases "dropWhile (\<lambda>c. c \<noteq> d) (drop start s)") (auto simp: dropWhile_eq_Nil_conv)
  then have "c = d"
    using hd_dropWhile [of "\<lambda>c. c \<noteq> d" "drop start s"] by simp
  then have eq: "drop start s = ?p @ d # rest"
    using r takeWhile_dropWhile_id [of "\<lambda>c. c \<noteq> d" "drop start s"] by simp
  have "drop (start + length ?p + 1) s = drop (length ?p + 1) (drop start s)"
    by (simp add: add.commute add.left_commute)
  also have "\<dots> = rest"
    by (subst (2) eq) simp
  finally have rest: "drop (start + length ?p + 1) s = rest" .
  have "start + length ?p < length s"
    using arg_cong [OF eq, of length] assms by simp
  moreover have "d \<notin> set ?p"
    by (auto dest: set_takeWhileD)
  moreover have "find_char d s start = Some (start + length ?p)"
    using True by (simp add: find_char_def)
  ultimately show ?thesis
    using eq rest by blast
next
  case False
  then show ?thesis
    by (simp add: find_char_def)
qed

lemma Split_loop_tokens:
  assumes "start \<le> length origin" "Split_loop origin d start (find_char d origin start) ret = (start', ret')"
  shows "ret' @ (if start' \<noteq> length origin then [drop start' origin] else []) = ret @ tokens d (drop start origin)"
  using assms
proof (induction "length origin - start" arbitrary: start ret rule: less_induct)
  case less
  from find_char_drop [OF less.prems(1), of d] show ?case
  proof (elim disjE conjE exE)
    assume none: "find_char d origin start = None" "d \<notin> set (drop start origin)"
    then have "start' = start" "ret' = ret"
      using less.prems(2) by simp_all
    then show ?thesis
      using none(2) less.prems(1) by (simp add: tokens_none)
  next
    fix p rest
    assume f: "find_char d origin start = Some (start + length p)" and p: "d \<notin> set p"
      and eq: "drop start origin = p @ d # rest" and lt: "start + length p < length origin"
      and rest: "drop (start + length p + 1) origin = rest"
    have step: "Split_loop origin d (start + length p + 1) (find_char d origin (start + length p + 1))
        (ret @ (if p = [] then [] else [p])) = (start', ret')"
      using less.prems(2) f lt by (simp add: eq split: if_splits)
    have "ret' @ (if start' \<noteq> length origin then [drop start' origin] else []) =
        (ret @ (if p = [] then [] else [p])) @ tokens d (drop (start + length p + 1) origin)"
      by (rule less.hyps [OF _ _ step]) (use lt in auto)
    then show ?thesis
      unfolding eq rest using p by (simp add: tokens_piece)
  qed
qed

lemma Split_tokens: "Split origin d ret = ret @ tokens d origin"
proof -
  obtain start ret' where "Split_loop origin d 0 (find_char d origin 0) ret = (start, ret')"
    by fastforce
  with Split_loop_tokens [OF _ this] show ?thesis
    by (auto simp: Split_def split: if_splits)
qed

lemma separators_no_digit: "\<not> is_digit_char (CHR '' '')" "\<not> is_digit_char (CHR '':'')"
  by (simp_all add: is_digit_char_def)

text \<open>The caller of a write is found in the engine's stack trace: from a line of the form
  \<^verbatim>\<open>at name path:line:rest\<close> the function name and the line number are read back, and for an
  anonymous function the name of the file stands for it.\<close>

lemma caller_info_read:
  assumes "CHR '' '' \<notin> set func" "func \<noteq> []" "CHR '' '' \<notin> set (dir @ file @ rest)"
    and "CHR '':'' \<notin> set (dir @ file)" "PATH_DELIMITER \<notin> set file" "file \<noteq> []"
    and "dir = [] \<or> last dir = PATH_DELIMITER" "n < 2 ^ 63"
  shows "ParseJsCallerInfo (Some (''at '' @ func @ '' '' @ dir @ file @ '':'' @ decimal n @ '':'' @ rest)) callerInfo =
    (if func = ''anonymous'' then file else func, of_nat n)"
proof -
  have space: "CHR '' '' \<notin> set (decimal n)" and colon: "CHR '':'' \<notin> set (decimal n)"
    using decimal_digits [of n] separators_no_digit unfolding list_all_iff by blast+
  let ?where = "dir @ file @ '':'' @ decimal n @ '':'' @ rest"
  have at: "tokens (CHR '' '') (''at'' @ CHR '' '' # func @ CHR '' '' # ?where) =
      [''at''] @ tokens (CHR '' '') (func @ CHR '' '' # ?where)"
    by (subst tokens_piece) simp_all
  also have "tokens (CHR '' '') (func @ CHR '' '' # ?where) = [func] @ tokens (CHR '' '') ?where"
    using assms(1,2) by (subst tokens_piece) simp_all
  also have "tokens (CHR '' '') ?where = [?where]"
    using assms(3) space by (intro tokens_none) auto
  finally have "tokens (CHR '' '') (''at '' @ func @ '' '' @ ?where) = [''at'', func, ?where]"
    by simp
  moreover have "tokens (CHR '':'') ?where = (dir @ file) # decimal n # tokens (CHR '':'') rest"
    using tokens_piece [of "CHR '':''" "dir @ file" "decimal n @ '':'' @ rest"]
      tokens_piece [of "CHR '':''" "decimal n" rest] assms colon decimal_digits [of n]
    by simp
  moreover have "base_name (dir @ file) = file"
  proof (cases "dir = []")
    case False
    then obtain d where "dir = d @ [PATH_DELIMITER]"
      using assms(7) by (metis append_butlast_last_id)
    then show ?thesis
      using assms(5) by (simp add: base_name_def takeWhile_append takeWhile_eq_all_conv)
  next
    case True
    have "takeWhile (\<lambda>c. c \<noteq> PATH_DELIMITER) (rev file) = rev file"
      using assms(5) by (auto simp: takeWhile_eq_all_conv)
    then show ?thesis
      by (simp add: base_name_def True del: takeWhile_eq_all_conv)
  qed
  moreover have "from_chars 64 (decimal n) = Some (int n)"
    using from_chars_decimal_int [of 64 "int n"] assms(8) by (simp add: decimal_int_def)
  ultimately show ?thesis
    by (simp add: ParseJsCallerInfo_def ParseCallerInfoFromStackTrace_def Split_tokens Let_def)
qed

lemma caller_info_read_example:
  "ParseJsCallerInfo (Some (''at '' @ ''anonymous'' @ '' '' @ ''ets/'' @ ''Index.ets'' @ '':'' @ decimal 42 @ '':'' @ ''7)''))
     ([], 0) = (''Index.ets'', 42)"
  using caller_info_read [of "''anonymous''" "''ets/''" "''Index.ets''" "''7)''" 42 "([], 0)"]
  by (simp add: PATH_DELIMITER_def)

end
