(* ===== verification/Doubles.thy ===== *)
theory Doubles
  imports Prelude Complex_Main
begin

text \<open>
  Doubles as their 64 bits: the rational number that the bits stand for, the conversions of C++
  between doubles and 64-bit integers, and what the bindings make of a number. A conversion of
  a number that does not fit is undefined in C++; what the platform makes of it is an argument.
  The theory shows that integers of up to 53 bits pass through a double unchanged, and that
  cutting off the fraction of a double gives a number that a double can hold.
\<close>

section \<open>The number that the bits stand for\<close>

definition f64_expo :: "64 word \<Rightarrow> nat" where
  "f64_expo d = unat d div 2 ^ 52 mod 2 ^ 11"

definition f64_frac :: "64 word \<Rightarrow> nat" where
  "f64_frac d = unat d mod 2 ^ 52"

definition f64_neg :: "64 word \<Rightarrow> bool" where
  "f64_neg d \<longleftrightarrow> unat d \<ge> 2 ^ 63"

text \<open>Mantissa and exponent: a number is its mantissa times \<open>2 ^ e / 2 ^ 1075\<close>.\<close>

definition f64_mant :: "64 word \<Rightarrow> nat" where
  "f64_mant d = (if f64_expo d = 0 then f64_frac d else 2 ^ 52 + f64_frac d)"

definition f64_shift :: "64 word \<Rightarrow> nat" where
  "f64_shift d = (if f64_expo d = 0 then 1 else f64_expo d)"

definition f64_nan :: "64 word \<Rightarrow> bool" where
  "f64_nan d \<longleftrightarrow> f64_expo d = 2047 \<and> f64_frac d \<noteq> 0"

definition f64_rat :: "64 word \<Rightarrow> rat option" where
  "f64_rat d =
     (if f64_expo d = 2047 then None
      else let v = of_nat (f64_mant d) * 2 ^ (f64_shift d - 1075) / 2 ^ (1075 - f64_shift d)
        in Some (if f64_neg d then - v else v))"

section \<open>Conversions\<close>

definition rat_trunc :: "rat \<Rightarrow> int" where
  "rat_trunc v = (if v < 0 then - \<lfloor>- v\<rfloor> else \<lfloor>v\<rfloor>)"

text \<open>\<^verbatim>\<open>static_cast\<close> of a double to the two integer types; \<open>ub\<close> answers for what does not fit.\<close>

definition f64_to_i64 :: "(64 word \<Rightarrow> 64 word) \<Rightarrow> 64 word \<Rightarrow> 64 word" where
  "f64_to_i64 ub d =
     (case f64_rat d of
        None \<Rightarrow> ub d
      | Some v \<Rightarrow> if - (2 ^ 63) \<le> rat_trunc v \<and> rat_trunc v < 2 ^ 63 then of_int (rat_trunc v) else ub d)"

definition f64_to_u64 :: "(64 word \<Rightarrow> 64 word) \<Rightarrow> 64 word \<Rightarrow> 64 word" where
  "f64_to_u64 ub d =
     (case f64_rat d of
        None \<Rightarrow> ub d
      | Some v \<Rightarrow> if 0 \<le> rat_trunc v \<and> rat_trunc v < 2 ^ 64 then of_int (rat_trunc v) else ub d)"

text \<open>\<^verbatim>\<open>static_cast\<close> of an integer to a double rounds to the nearest double, ties to even.\<close>

fun bit_count :: "nat \<Rightarrow> nat" where
  "bit_count n = (if n = 0 then 0 else bit_count (n div 2) + 1)"

declare bit_count.simps [simp del]

definition round_even :: "nat \<Rightarrow> nat \<Rightarrow> nat" where
  "round_even n k =
     (let q = n div 2 ^ k; r = n mod 2 ^ k; h = 2 ^ (k - 1) in
      if k > 0 \<and> (r > h \<or> r = h \<and> odd q) then q + 1 else q)"

definition f64_of_nat :: "nat \<Rightarrow> nat" where
  "f64_of_nat n =
     (if n = 0 then 0
      else let b = bit_count n;
               m = (if b \<le> 53 then n * 2 ^ (53 - b) else round_even n (b - 53))
        in (b + 1022) * 2 ^ 52 + (m - 2 ^ 52))"

definition f64_of_int :: "int \<Rightarrow> 64 word" where
  "f64_of_int i = of_nat ((if i < 0 then 2 ^ 63 else 0) + f64_of_nat (nat \<bar>i\<bar>))"

text \<open>\<^verbatim>\<open>fabs(a - b) > c\<close> for an integral double \<open>a\<close>. The difference of a number and its integral part
  is a double; where \<open>b\<close> is large, both are integers, so that rounding the difference does not
  move it across a literal below one.\<close>

definition f64_differs :: "64 word \<Rightarrow> 64 word \<Rightarrow> 64 word \<Rightarrow> bool" where
  "f64_differs c a b =
     (case (f64_rat c, f64_rat a, f64_rat b) of
        (Some t, Some v, Some w) \<Rightarrow> \<bar>v - w\<bar> > t
      | (Some t, Some v, None) \<Rightarrow> \<not> f64_nan b
      | _ \<Rightarrow> False)"

definition f64_less_zero :: "64 word \<Rightarrow> bool" where
  "f64_less_zero d = (case f64_rat d of Some v \<Rightarrow> v < 0 | None \<Rightarrow> f64_neg d \<and> \<not> f64_nan d)"

section \<open>Integers in doubles\<close>

lemma bit_count_bounds: "0 < n \<Longrightarrow> 0 < bit_count n \<and> 2 ^ (bit_count n - 1) \<le> n \<and> n < 2 ^ bit_count n"
proof (induction n rule: bit_count.induct)
  case (1 n)
  show ?case
  proof (cases "n div 2 = 0")
    case True
    then have "n = 1"
      using 1(2) by (metis One_nat_def less_2_cases_iff div_eq_0_iff zero_neq_numeral not_less0)
    then show ?thesis
      by (simp add: bit_count.simps)
  next
    case False
    have bc: "bit_count n = bit_count (n div 2) + 1"
      using 1(2) by (simp add: bit_count.simps [of n])
    have ih: "0 < bit_count (n div 2)" "2 ^ (bit_count (n div 2) - 1) \<le> n div 2" "n div 2 < 2 ^ bit_count (n div 2)"
      using 1(1) 1(2) False by auto
    obtain k where k: "bit_count (n div 2) = Suc k"
      using ih(1) gr0_implies_Suc by blast
    have "2 * 2 ^ k \<le> n" "n < 2 * (2 * 2 ^ k)"
      using ih(2,3) unfolding k by simp_all
    then show ?thesis
      using bc k by simp
  qed
qed


lemma bit_count_less: "n < 2 ^ k \<Longrightarrow> bit_count n \<le> k"
proof (cases "n = 0")
  case False
  assume "n < 2 ^ k"
  then have "2 ^ (bit_count n - 1) < (2::nat) ^ k"
    using bit_count_bounds [of n] False by (metis le_less_trans neq0_conv)
  then have "bit_count n - 1 < k"
    by (simp add: power_strict_increasing_iff)
  then show ?thesis
    by simp
qed (simp add: bit_count.simps)

lemma f64_fields:
  assumes "E < 2 ^ 11" "F < 2 ^ 52"
  shows "f64_expo (of_nat ((if s then 2 ^ 63 else 0) + (E * 2 ^ 52 + F))) = E" (is "f64_expo (of_nat ?n) = E")
    and "f64_frac (of_nat ((if s then 2 ^ 63 else 0) + (E * 2 ^ 52 + F))) = F"
    and "f64_neg (of_nat ((if s then 2 ^ 63 else 0) + (E * 2 ^ 52 + F))) = s"
proof -
  let ?S = "if s then 2 ^ 11 else (0::nat)"
  have n: "?n = (?S + E) * 2 ^ 52 + F"
    by simp
  have e: "E * 2 ^ 52 + F < 2 ^ 63"
    using assms by simp
  then have "?n < 2 ^ 64"
    by (cases s) simp_all
  moreover have "unat (of_nat k :: 64 word) = k" if "k < 2 ^ 64" for k
    using that by (simp add: unat_of_nat take_bit_nat_eq_self)
  ultimately have u: "unat (of_nat ?n :: 64 word) = ?n"
    by blast
  have "(k * 2 ^ 52 + F) div 2 ^ 52 = k" "(k * 2 ^ 52 + F) mod 2 ^ 52 = F" for k
    using assms(2) by simp_all
  from this [of "?S + E"] have "?n div 2 ^ 52 = ?S + E" "?n mod 2 ^ 52 = F"
    unfolding n .
  moreover have "(?S + E) mod 2 ^ 11 = E"
    using assms(1) by (cases s) simp_all
  ultimately show "f64_expo (of_nat ?n) = E" "f64_frac (of_nat ?n) = F"
    by (simp_all only: f64_expo_def f64_frac_def u)
  show "f64_neg (of_nat ?n) = s"
    using e by (simp only: f64_neg_def u) (cases s, simp_all)
qed

text \<open>The integers that a double holds: those whose bits beyond the first 53 are zero.\<close>

definition fits_double :: "nat \<Rightarrow> bool" where
  "fits_double n \<longleftrightarrow> 2 ^ (bit_count n - 53) dvd n"

lemma f64_of_nat_mant:
  assumes "0 < n" "fits_double n"
  shows "\<exists>m. 2 ^ 52 \<le> m \<and> m < 2 ^ 53 \<and> m * 2 ^ (bit_count n - 53) = n * 2 ^ (53 - bit_count n) \<and>
    f64_of_nat n = (bit_count n + 1022) * 2 ^ 52 + (m - 2 ^ 52)"
proof -
  let ?b = "bit_count n"
  have b: "0 < ?b" "2 ^ (?b - 1) \<le> n" "n < 2 ^ ?b"
    using bit_count_bounds [OF assms(1)] by auto
  show ?thesis
  proof (cases "?b \<le> 53")
    case True
    have "2 ^ (?b - 1) * 2 ^ (53 - ?b) \<le> n * 2 ^ (53 - ?b)" "n * 2 ^ (53 - ?b) < 2 ^ ?b * 2 ^ (53 - ?b)"
      using b(2,3) by (auto intro: mult_le_mono1)
    moreover have "2 ^ (?b - 1) * 2 ^ (53 - ?b) = (2::nat) ^ 52" "2 ^ ?b * 2 ^ (53 - ?b) = (2::nat) ^ 53"
      using b(1) True by (simp_all flip: power_add)
    ultimately have "2 ^ 52 \<le> n * 2 ^ (53 - ?b)" "n * 2 ^ (53 - ?b) < 2 ^ 53"
      by metis+
    then show ?thesis
      using True assms(1) by (intro exI [of _ "n * 2 ^ (53 - ?b)"]) (simp add: f64_of_nat_def Let_def)
  next
    case False
    then obtain q where q: "n = 2 ^ (?b - 53) * q"
      using assms(2) unfolding fits_double_def by (elim dvdE)
    have "?b - 1 = ?b - 53 + 52" "?b = ?b - 53 + 53"
      using False by simp_all
    then have "(2::nat) ^ (?b - 1) = 2 ^ (?b - 53) * 2 ^ 52" "(2::nat) ^ ?b = 2 ^ (?b - 53) * 2 ^ 53"
      by (metis power_add)+
    with b(2,3) q have "2 ^ (?b - 53) * 2 ^ 52 \<le> 2 ^ (?b - 53) * q" "2 ^ (?b - 53) * q < 2 ^ (?b - 53) * 2 ^ 53"
      by metis+
    then have qb: "2 ^ 52 \<le> q" "q < 2 ^ 53"
      by simp_all
    have "n div 2 ^ (?b - 53) = q" "n mod 2 ^ (?b - 53) = 0"
      by (subst q, simp)+
    then have "round_even n (?b - 53) = q"
      by (simp add: round_even_def)
    then show ?thesis
      using False qb assms(1) q by (intro exI [of _ q]) (simp add: f64_of_nat_def Let_def mult.commute)
  qed
qed

lemma f64_rat_of_int:
  assumes "nat \<bar>i\<bar> < 2 ^ 64" "fits_double (nat \<bar>i\<bar>)"
  shows "f64_rat (f64_of_int i) = Some (of_int i)"
proof (cases "i = 0")
  case True
  then show ?thesis
    by (simp add: f64_of_int_def f64_of_nat_def f64_rat_def f64_expo_def f64_frac_def f64_neg_def f64_mant_def)
next
  case False
  let ?n = "nat \<bar>i\<bar>" and ?b = "bit_count (nat \<bar>i\<bar>)"
  obtain m where m: "2 ^ 52 \<le> m" "m < 2 ^ 53" "m * 2 ^ (?b - 53) = ?n * 2 ^ (53 - ?b)"
      "f64_of_nat ?n = (?b + 1022) * 2 ^ 52 + (m - 2 ^ 52)"
    using f64_of_nat_mant [OF _ assms(2)] False by auto
  have b: "?b \<le> 64"
    using bit_count_less [OF assms(1)] .
  have E: "?b + 1022 < 2 ^ 11" "m - 2 ^ 52 < 2 ^ 52"
    using b m(1,2) by simp_all
  note f = f64_fields [OF E, of "i < 0", folded m(4), folded f64_of_int_def]
  have mant: "f64_mant (f64_of_int i) = m" "f64_shift (f64_of_int i) = ?b + 1022" "f64_expo (f64_of_int i) \<noteq> 2047"
    using f m(1) b by (simp_all add: f64_mant_def f64_shift_def)
  have d: "(1075::nat) - (?b + 1022) = 53 - ?b" "?b + 1022 - 1075 = ?b - (53::nat)"
    by simp_all
  have "of_nat m * 2 ^ (?b - 53) = (of_nat ?n * 2 ^ (53 - ?b) :: rat)"
    using m(3) by (metis of_nat_mult of_nat_numeral of_nat_power)
  then have "of_nat m * 2 ^ (?b - 53) / 2 ^ (53 - ?b) = (of_nat ?n :: rat)"
    by (simp add: field_simps)
  then show ?thesis
    using mant(3) f(3) by (auto simp: f64_rat_def mant d Let_def)
qed

lemma f64_mant_bound: "f64_mant d < 2 ^ 53"
proof -
  have "f64_frac d < 2 ^ 52"
    by (simp add: f64_frac_def)
  then show ?thesis
    by (simp add: f64_mant_def)
qed

lemma rat_trunc_nonneg: "0 \<le> v \<Longrightarrow> rat_trunc v = \<lfloor>v\<rfloor>"
  by (simp add: rat_trunc_def)

lemma rat_trunc_neg: "0 \<le> v \<Longrightarrow> rat_trunc (- v) = - rat_trunc v"
  by (cases "v = 0") (simp_all add: rat_trunc_def)

text \<open>Cutting off the fraction of a double gives a number that a double holds.\<close>

lemma trunc_fits:
  assumes "f64_rat d = Some v"
  shows "fits_double (nat \<bar>rat_trunc v\<bar>)"
proof -
  let ?m = "f64_mant d" and ?a = "f64_shift d - 1075" and ?c = "1075 - f64_shift d"
  let ?v = "of_nat ?m * 2 ^ ?a / 2 ^ ?c :: rat"
  have pos: "0 \<le> ?v"
    by simp
  have "\<bar>rat_trunc v\<bar> = \<bar>rat_trunc ?v\<bar>"
    using assms rat_trunc_neg [OF pos] by (auto simp: f64_rat_def Let_def split: if_splits)
  moreover have "rat_trunc ?v = int (?m * 2 ^ ?a div 2 ^ ?c)"
  proof -
    have "rat_trunc ?v = \<lfloor>of_nat (?m * 2 ^ ?a) / of_nat (2 ^ ?c) :: rat\<rfloor>"
      unfolding rat_trunc_nonneg [OF pos] by simp
    then show ?thesis
      by (metis floor_divide_of_nat_eq)
  qed
  ultimately have n: "nat \<bar>rat_trunc v\<bar> = ?m * 2 ^ ?a div 2 ^ ?c"
    by simp
  show ?thesis
  proof (cases "f64_shift d \<le> 1075")
    case True
    then have "nat \<bar>rat_trunc v\<bar> = ?m div 2 ^ ?c"
      using n by simp
    also have "\<dots> < 2 ^ 53"
      using f64_mant_bound [of d] by (meson div_le_dividend le_less_trans)
    finally show ?thesis
      unfolding fits_double_def using bit_count_less by fastforce
  next
    case False
    then have n': "nat \<bar>rat_trunc v\<bar> = ?m * 2 ^ ?a"
      using n by simp
    have "?m * 2 ^ ?a < 2 ^ 53 * 2 ^ ?a"
      using f64_mant_bound [of d] by simp
    then have "bit_count (?m * 2 ^ ?a) \<le> 53 + ?a"
      by (intro bit_count_less) (simp add: power_add)
    then show ?thesis
      unfolding fits_double_def n' by (intro dvd_mult le_imp_power_dvd) simp
  qed
qed

lemma f64_rat_trunc:
  assumes "f64_rat d = Some v" "\<bar>rat_trunc v\<bar> < 2 ^ 64"
  shows "f64_rat (f64_of_int (rat_trunc v)) = Some (of_int (rat_trunc v))"
  using f64_rat_of_int [OF _ trunc_fits [OF assms(1)]] assms(2) by (simp add: nat_less_iff)

lemma rat_trunc_close: "\<bar>of_int (rat_trunc v) - v\<bar> < 1"
  by (cases "v < 0") (simp_all add: rat_trunc_def, linarith+)

lemma rat_trunc_int [simp]: "rat_trunc (of_int i) = i"
  by (simp add: rat_trunc_def)

end
