(* ===== verification/JsValue.thy ===== *)
theory JsValue
  imports NapiAdapter Doubles
begin

text \<open>
  Reading JavaScript values (napi_hisysevent_util.cpp and .h under
  src/interfaces/js/kits/napi): attributes of objects, parameters of an event with the types
  that numbers, big integers and arrays get, listener rules, query rules and query arguments,
  and the errors thrown on the way. The Node-API is not part of the repository: the functions
  the code calls are the fields of the record \<open>napi\<close>, and their documented behaviour is the
  hypothesis \<open>napi_laws\<close> of the properties that need it.
\<close>

section \<open>The engine\<close>

datatype napi_valuetype =
    napi_undefined | napi_null | napi_boolean | napi_number | napi_string | napi_symbol | napi_object
  | napi_function | napi_external | napi_bigint

text \<open>A number is the 64 bits of its double; objects and functions have an identity.\<close>

datatype js_value =
    Js_undefined
  | Js_null
  | Js_boolean bool
  | Js_number "64 word"
  | Js_bigint int
  | Js_string string
  | Js_array "js_value list"
  | Js_object nat "(string \<times> js_value) list"
  | Js_function nat

primrec type_of :: "js_value \<Rightarrow> napi_valuetype" where
  "type_of Js_undefined = napi_undefined"
| "type_of Js_null = napi_null"
| "type_of (Js_boolean b) = napi_boolean"
| "type_of (Js_number d) = napi_number"
| "type_of (Js_bigint i) = napi_bigint"
| "type_of (Js_string s) = napi_string"
| "type_of (Js_array vs) = napi_object"
| "type_of (Js_object n ps) = napi_object"
| "type_of (Js_function n) = napi_function"

text \<open>
  \<open>None\<close> is a status other than \<^verbatim>\<open>napi_ok\<close>. The flag of the last three is whether an exception
  is pending. \<open>na_cast_i64\<close> and \<open>na_cast_u64\<close> are what the platform makes of a double that does
  not fit into the integer type.
\<close>

record napi =
  na_typeof :: "js_value \<Rightarrow> napi_valuetype option"
  na_is_array :: "js_value \<Rightarrow> bool option"
  na_get_bool :: "js_value \<Rightarrow> bool option"
  na_get_double :: "js_value \<Rightarrow> 64 word option"
  na_get_int32 :: "js_value \<Rightarrow> 32 word option"
  na_get_int64 :: "js_value \<Rightarrow> (64 word \<times> bool) option"
  na_get_uint64 :: "js_value \<Rightarrow> (64 word \<times> bool) option"
  na_get_utf8 :: "js_value \<Rightarrow> nat \<Rightarrow> string option"
  na_length :: "js_value \<Rightarrow> nat option"
  na_property :: "bool \<Rightarrow> js_value \<Rightarrow> string \<Rightarrow> js_value option"
  na_names :: "bool \<Rightarrow> js_value \<Rightarrow> js_value option"
  na_element :: "bool \<Rightarrow> js_value \<Rightarrow> nat \<Rightarrow> js_value option"
  na_cast_i64 :: "64 word \<Rightarrow> 64 word"
  na_cast_u64 :: "64 word \<Rightarrow> 64 word"

text \<open>
  Errors: an exception stays pending until the native function returns, and a second one is
  not thrown while one is pending.
\<close>

type_synonym js_pending = "js_error option"

definition ThrowError :: "int \<Rightarrow> string \<Rightarrow> js_pending \<Rightarrow> js_pending" where
  "ThrowError code msg pend = (case pend of None \<Rightarrow> Some (decimal_int code, msg) | Some e \<Rightarrow> Some e)"

definition ThrowParamMandatoryError :: "string \<Rightarrow> js_pending \<Rightarrow> js_pending" where
  "ThrowParamMandatoryError paramName =
     ThrowError NAPI_PARAM_CHECK (''Parameter error. The '' @ paramName @ '' parameter is mandatory.'')"

definition ThrowParamTypeError :: "string \<Rightarrow> string \<Rightarrow> js_pending \<Rightarrow> js_pending" where
  "ThrowParamTypeError paramName paramType =
     ThrowError NAPI_PARAM_CHECK (''Parameter error. The type of '' @ paramName @ '' must be '' @ paramType @ ''.'')"

definition ThrowSystemAppPermissionError :: "js_pending \<Rightarrow> js_pending" where
  "ThrowSystemAppPermissionError =
     ThrowError NAPI_NON_SYS_APP_PERMISSION
       (''Permission denied. '' @ ''System api can be invoked only by system applications.'')"

definition ThrowErrorByRet :: "int \<Rightarrow> js_pending \<Rightarrow> js_pending" where
  "ThrowErrorByRet retCode = (case GetErrorDetailByRet retCode of (code, msg) \<Rightarrow> ThrowError code msg)"

section \<open>Plain values\<close>

text \<open>A \<^verbatim>\<open>napi_value\<close> may be null; every function of the engine fails on a null one.\<close>

definition GetValueType :: "napi \<Rightarrow> js_value option \<Rightarrow> napi_valuetype" where
  "GetValueType na v = (case Option.bind v (na_typeof na) of None \<Rightarrow> napi_undefined | Some t \<Rightarrow> t)"

definition IsValueTypeValid :: "napi \<Rightarrow> js_value option \<Rightarrow> napi_valuetype \<Rightarrow> bool" where
  "IsValueTypeValid na jsObj typeName \<longleftrightarrow> GetValueType na jsObj = typeName"

definition IsNullOrUndefined :: "napi \<Rightarrow> js_value option \<Rightarrow> bool" where
  "IsNullOrUndefined na v \<longleftrightarrow> IsValueTypeValid na v napi_null \<or> IsValueTypeValid na v napi_undefined"

definition CheckValueIsArray :: "napi \<Rightarrow> js_value option \<Rightarrow> bool" where
  "CheckValueIsArray na jsObj =
     (if \<not> IsValueTypeValid na jsObj napi_object then False
      else case Option.bind jsObj (na_is_array na) of None \<Rightarrow> False | Some isArray \<Rightarrow> isArray)"

definition ParseBoolValue :: "napi \<Rightarrow> js_value option \<Rightarrow> bool" where
  "ParseBoolValue na v = (case Option.bind v (na_get_bool na) of None \<Rightarrow> False | Some b \<Rightarrow> b)"

definition ParseNumberValue :: "napi \<Rightarrow> js_value option \<Rightarrow> 64 word \<Rightarrow> 64 word" where
  "ParseNumberValue na v defaultValue =
     (case Option.bind v (na_get_double na) of None \<Rightarrow> defaultValue | Some d \<Rightarrow> d)"

definition BUF_SIZE :: nat where "BUF_SIZE = 1024 * 11"

text \<open>The buffer takes the text with a terminating NUL, at which the \<^verbatim>\<open>std::string\<close> ends.\<close>

definition ParseStringValue :: "napi \<Rightarrow> js_value option \<Rightarrow> string \<Rightarrow> string" where
  "ParseStringValue na v defaultValue =
     (case Option.bind v (\<lambda>x. na_get_utf8 na x (BUF_SIZE - 1)) of
        None \<Rightarrow> defaultValue
      | Some s \<Rightarrow> takeWhile (\<lambda>c. c \<noteq> CHR 0x00) s)"

definition ParseInt32Value :: "napi \<Rightarrow> js_value option \<Rightarrow> 32 word \<Rightarrow> 32 word" where
  "ParseInt32Value na v defaultValue = (case Option.bind v (na_get_int32 na) of None \<Rightarrow> defaultValue | Some i \<Rightarrow> i)"

definition ParseSignedBigIntValue :: "napi \<Rightarrow> js_value option \<Rightarrow> bool \<times> 64 word" where
  "ParseSignedBigIntValue na v =
     (case Option.bind v (na_get_int64 na) of None \<Rightarrow> (False, 0) | Some (i, lossless) \<Rightarrow> (lossless, i))"

definition ParseUnsignedBigIntValue :: "napi \<Rightarrow> js_value option \<Rightarrow> bool \<times> 64 word" where
  "ParseUnsignedBigIntValue na v =
     (case Option.bind v (na_get_uint64 na) of None \<Rightarrow> (False, 0) | Some (i, lossless) \<Rightarrow> (lossless, i))"

text \<open>The two results are references; the signed one is left alone when the unsigned one fits.\<close>

definition ParseBigIntResultValue ::
  "napi \<Rightarrow> js_value option \<Rightarrow> (bool \<times> 64 word) \<Rightarrow> (bool \<times> 64 word) \<times> (bool \<times> 64 word)" where
  "ParseBigIntResultValue na v i64Ret =
     (let u64Ret = ParseUnsignedBigIntValue na v in
      (u64Ret, if \<not> fst u64Ret then ParseSignedBigIntValue na v else i64Ret))"

text \<open>The literal \<^verbatim>\<open>1e-9\<close> as a double.\<close>

definition tiny :: "64 word" where "tiny = 0x3E112E0BE826D695"

definition IsFloatingNumber :: "napi \<Rightarrow> 64 word \<Rightarrow> bool" where
  "IsFloatingNumber na originalVal =
     (let i64Val = f64_to_i64 (na_cast_i64 na) originalVal; i64ToDVal = f64_of_int (sint i64Val) in
      f64_differs tiny i64ToDVal originalVal)"

section \<open>Attributes\<close>

definition GetPropertyByName :: "napi \<Rightarrow> js_pending \<Rightarrow> js_value option \<Rightarrow> string \<Rightarrow> js_value option" where
  "GetPropertyByName na pend obj propertyName = Option.bind obj (\<lambda>x. na_property na (pend \<noteq> None) x propertyName)"

definition TAG_ATTR :: string where "TAG_ATTR = ''tag''"
definition DOMAIN_ATTR :: string where "DOMAIN_ATTR = ''domain''"
definition NAME_ATTR :: string where "NAME_ATTR = ''name''"
definition EVENT_TYPE_ATTR :: string where "EVENT_TYPE_ATTR = ''eventType''"
definition PARAMS_ATTR :: string where "PARAMS_ATTR = ''params''"
definition RULE_TYPE_ATTR :: string where "RULE_TYPE_ATTR = ''ruleType''"
definition BEGIN_TIME_ATTR :: string where "BEGIN_TIME_ATTR = ''beginTime''"
definition END_TIME_ATTR :: string where "END_TIME_ATTR = ''endTime''"
definition MAX_EVENTS_ATTR :: string where "MAX_EVENTS_ATTR = ''maxEvents''"
definition BEGIN_SEQ_ATTR :: string where "BEGIN_SEQ_ATTR = ''fromSeq''"
definition END_SEQ_ATTR :: string where "END_SEQ_ATTR = ''toSeq''"
definition NAMES_ATTR :: string where "NAMES_ATTR = ''names''"
definition CONDITION_ATTR :: string where "CONDITION_ATTR = ''condition''"

lemmas attr_defs = TAG_ATTR_def DOMAIN_ATTR_def NAME_ATTR_def EVENT_TYPE_ATTR_def PARAMS_ATTR_def RULE_TYPE_ATTR_def
  BEGIN_TIME_ATTR_def END_TIME_ATTR_def MAX_EVENTS_ATTR_def BEGIN_SEQ_ATTR_def END_SEQ_ATTR_def NAMES_ATTR_def
  CONDITION_ATTR_def

text \<open>A getter returns the pending exception with its result.\<close>

definition GetTagAttribute :: "napi \<Rightarrow> js_value option \<Rightarrow> js_pending \<Rightarrow> js_pending \<times> string" where
  "GetTagAttribute na obj pend =
     (let propertyValue = GetPropertyByName na pend obj TAG_ATTR in
      if IsNullOrUndefined na propertyValue then (pend, [])
      else if IsValueTypeValid na propertyValue napi_string then (pend, ParseStringValue na propertyValue [])
      else (ThrowParamTypeError TAG_ATTR ''string'' pend, []))"

definition GetStringTypeAttribute ::
  "napi \<Rightarrow> js_value option \<Rightarrow> string \<Rightarrow> js_pending \<Rightarrow> js_pending \<times> string" where
  "GetStringTypeAttribute na obj propertyName pend =
     (let propertyValue = GetPropertyByName na pend obj propertyName in
      if \<not> IsValueTypeValid na propertyValue napi_string
      then (ThrowParamTypeError propertyName ''string'' pend, [])
      else (pend, ParseStringValue na propertyValue []))"

definition GetInt32TypeAttribute ::
  "napi \<Rightarrow> js_value option \<Rightarrow> string \<Rightarrow> 32 word \<Rightarrow> js_pending \<Rightarrow> js_pending \<times> 32 word" where
  "GetInt32TypeAttribute na obj propertyName defaultValue pend =
     (let propertyValue = GetPropertyByName na pend obj propertyName in
      if \<not> IsValueTypeValid na propertyValue napi_number
      then (ThrowParamTypeError propertyName ''number'' pend, defaultValue)
      else (pend, ParseInt32Value na propertyValue 0))"

definition GetLonglongTypeAttribute :: "napi \<Rightarrow> js_value option \<Rightarrow> 64 word \<Rightarrow> 64 word" where
  "GetLonglongTypeAttribute na val defaultValue =
     (let isNumberType = IsValueTypeValid na val napi_number; isBigIntType = IsValueTypeValid na val napi_bigint in
      if \<not> isNumberType \<and> \<not> isBigIntType then defaultValue
      else if isNumberType
      then f64_to_i64 (na_cast_i64 na) (ParseNumberValue na val (f64_of_int (sint defaultValue)))
      else snd (ParseSignedBigIntValue na val))"

section \<open>Parameters of an event\<close>

text \<open>Assigning to the map of parameters replaces the value of a key that is already there.\<close>

fun put_param :: "string \<Rightarrow> Param \<Rightarrow> (string \<times> Param) list \<Rightarrow> (string \<times> Param) list" where
  "put_param key p [] = [(key, p)]"
| "put_param key p (kv # ps) = (if fst kv = key then (key, p) # ps else kv # put_param key p ps)"

definition elements :: "napi \<Rightarrow> js_pending \<Rightarrow> js_value \<Rightarrow> nat \<Rightarrow> js_value option list" where
  "elements na pend array len = map (na_element na (pend \<noteq> None) array) [0..<len]"

text \<open>An element counts when it was got and has the type.\<close>

definition typed :: "napi \<Rightarrow> napi_valuetype \<Rightarrow> js_value option \<Rightarrow> bool" where
  "typed na t el \<longleftrightarrow> el \<noteq> None \<and> IsValueTypeValid na el t"

definition AppendBoolArrayData ::
  "napi \<Rightarrow> js_pending \<Rightarrow> string \<Rightarrow> js_value \<Rightarrow> nat \<Rightarrow> (string \<times> Param) list \<Rightarrow> (string \<times> Param) list" where
  "AppendBoolArrayData na pend key array len ps =
     put_param key (BOOL_ARR (map (ParseBoolValue na) (filter (typed na napi_boolean) (elements na pend array len)))) ps"

definition AppendStringArrayData ::
  "napi \<Rightarrow> js_pending \<Rightarrow> string \<Rightarrow> js_value \<Rightarrow> nat \<Rightarrow> (string \<times> Param) list \<Rightarrow> (string \<times> Param) list" where
  "AppendStringArrayData na pend key array len ps =
     put_param key (STR_ARR (map (\<lambda>el. ParseStringValue na el []) (filter (typed na napi_string) (elements na pend array len)))) ps"

datatype ParsedItem = U64_ITEM "64 word" | I64_ITEM "64 word" | DOUBLE_ITEM "64 word"

datatype ArrayParseStatus = AS_U64_ARR | AS_I64_ARR | AS_DOUBLE_ARR

text \<open>The three instances of \<^verbatim>\<open>AppendParamsToEventInfo\<close>: every item is cast to the item type.\<close>

primrec item_as_u64 :: "napi \<Rightarrow> ParsedItem \<Rightarrow> 64 word" where
  "item_as_u64 na (U64_ITEM w) = w"
| "item_as_u64 na (I64_ITEM w) = w"
| "item_as_u64 na (DOUBLE_ITEM d) = f64_to_u64 (na_cast_u64 na) d"

primrec item_as_i64 :: "napi \<Rightarrow> ParsedItem \<Rightarrow> 64 word" where
  "item_as_i64 na (U64_ITEM w) = w"
| "item_as_i64 na (I64_ITEM w) = w"
| "item_as_i64 na (DOUBLE_ITEM d) = f64_to_i64 (na_cast_i64 na) d"

primrec item_as_double :: "ParsedItem \<Rightarrow> 64 word" where
  "item_as_double (U64_ITEM w) = f64_of_int (uint w)"
| "item_as_double (I64_ITEM w) = f64_of_int (sint w)"
| "item_as_double (DOUBLE_ITEM d) = d"

primrec AppendParamsToEventInfo :: "napi \<Rightarrow> ArrayParseStatus \<Rightarrow> ParsedItem list \<Rightarrow> Param" where
  "AppendParamsToEventInfo na AS_U64_ARR src = U64_ARR (map (item_as_u64 na) src)"
| "AppendParamsToEventInfo na AS_I64_ARR src = I64_ARR (map (item_as_i64 na) src)"
| "AppendParamsToEventInfo na AS_DOUBLE_ARR src = DOUBLE_ARR (map item_as_double src)"

text \<open>One turn of the loop over an array of numbers, and of the one over big integers.\<close>

definition number_step ::
  "napi \<Rightarrow> js_value option \<Rightarrow> ArrayParseStatus \<times> ParsedItem list \<Rightarrow> ArrayParseStatus \<times> ParsedItem list" where
  "number_step na el st =
     (case st of (pStatus, parsedArray) \<Rightarrow>
        if \<not> typed na napi_number el then (pStatus, parsedArray)
        else let parsedVal = ParseNumberValue na el 0 in
          if IsFloatingNumber na parsedVal then (AS_DOUBLE_ARR, parsedArray @ [DOUBLE_ITEM parsedVal])
          else if f64_less_zero parsedVal \<and> pStatus \<noteq> AS_DOUBLE_ARR
          then (AS_I64_ARR, parsedArray @ [I64_ITEM (f64_to_i64 (na_cast_i64 na) parsedVal)])
          else (pStatus, parsedArray @ [U64_ITEM (f64_to_u64 (na_cast_u64 na) parsedVal)]))"

definition AppendNumberArrayData ::
  "napi \<Rightarrow> js_pending \<Rightarrow> string \<Rightarrow> js_value \<Rightarrow> nat \<Rightarrow> (string \<times> Param) list \<Rightarrow> (string \<times> Param) list" where
  "AppendNumberArrayData na pend key array len ps =
     (case fold (number_step na) (elements na pend array len) (AS_U64_ARR, []) of
        (pStatus, parsedArray) \<Rightarrow> put_param key (AppendParamsToEventInfo na pStatus parsedArray) ps)"

definition bigint_step ::
  "napi \<Rightarrow> js_value option \<Rightarrow> (bool \<times> 64 word) \<times> ArrayParseStatus \<times> ParsedItem list \<Rightarrow>
   (bool \<times> 64 word) \<times> ArrayParseStatus \<times> ParsedItem list" where
  "bigint_step na el st =
     (case st of (i64Ret, pStatus, parsedArray) \<Rightarrow>
        if \<not> typed na napi_bigint el then (i64Ret, pStatus, parsedArray)
        else case ParseBigIntResultValue na el i64Ret of (u64Ret, i64Ret') \<Rightarrow>
          if fst u64Ret then (i64Ret', pStatus, parsedArray @ [U64_ITEM (snd u64Ret)])
          else (i64Ret', AS_I64_ARR, parsedArray @ [I64_ITEM (snd i64Ret')]))"

definition AppendBigIntArrayData ::
  "napi \<Rightarrow> js_pending \<Rightarrow> string \<Rightarrow> js_value \<Rightarrow> nat \<Rightarrow> (string \<times> Param) list \<Rightarrow> (string \<times> Param) list" where
  "AppendBigIntArrayData na pend key array len ps =
     (case fold (bigint_step na) (elements na pend array len) ((False, 0), AS_U64_ARR, []) of
        (_, pStatus, parsedArray) \<Rightarrow>
          put_param key (if pStatus = AS_I64_ARR then AppendParamsToEventInfo na AS_I64_ARR parsedArray
            else AppendParamsToEventInfo na AS_U64_ARR parsedArray) ps)"

text \<open>The type of the first element decides how an array is read.\<close>

definition AddArrayParamToEventInfo ::
  "napi \<Rightarrow> js_pending \<Rightarrow> string \<Rightarrow> js_value \<Rightarrow> (string \<times> Param) list \<Rightarrow> (string \<times> Param) list" where
  "AddArrayParamToEventInfo na pend key array ps =
     (case na_length na array of
        None \<Rightarrow> ps
      | Some len \<Rightarrow>
          if len = 0 then ps
          else case na_element na (pend \<noteq> None) array 0 of
            None \<Rightarrow> ps
          | Some firstItem \<Rightarrow>
              (case na_typeof na firstItem of
                 None \<Rightarrow> ps
               | Some t \<Rightarrow>
                   if t = napi_boolean then AppendBoolArrayData na pend key array len ps
                   else if t = napi_number then AppendNumberArrayData na pend key array len ps
                   else if t = napi_bigint then AppendBigIntArrayData na pend key array len ps
                   else if t = napi_string then AppendStringArrayData na pend key array len ps
                   else ps))"

definition number_param :: "napi \<Rightarrow> 64 word \<Rightarrow> Param" where
  "number_param na parsedVal =
     (if IsFloatingNumber na parsedVal then DOU parsedVal
      else if f64_less_zero parsedVal then I64 (f64_to_i64 (na_cast_i64 na) parsedVal)
      else U64 (f64_to_u64 (na_cast_u64 na) parsedVal))"

definition bigint_param :: "napi \<Rightarrow> js_value option \<Rightarrow> Param" where
  "bigint_param na v =
     (case ParseBigIntResultValue na v (False, 0) of (u64Ret, i64Ret) \<Rightarrow>
        if fst u64Ret then U64 (snd u64Ret) else I64 (snd i64Ret))"

definition AddParamToEventInfo ::
  "napi \<Rightarrow> js_pending \<Rightarrow> string \<Rightarrow> js_value option \<Rightarrow> (string \<times> Param) list \<Rightarrow> (string \<times> Param) list" where
  "AddParamToEventInfo na pend key v ps =
     (case v of
        Some array \<Rightarrow>
          if CheckValueIsArray na v then AddArrayParamToEventInfo na pend key array ps
          else let t = GetValueType na v in
            if t = napi_boolean then put_param key (BL (ParseBoolValue na v)) ps
            else if t = napi_number then put_param key (number_param na (ParseNumberValue na v 0)) ps
            else if t = napi_string then put_param key (STR_VAL (ParseStringValue na v [])) ps
            else if t = napi_bigint then put_param key (bigint_param na v) ps
            else ps
      | None \<Rightarrow> ps)"

text \<open>A key must not contain one of four texts.\<close>

definition INVALID_KEY_TYPE_ARR :: "string list" where
  "INVALID_KEY_TYPE_ARR = [''[object Object]'', ''null'', ''()'', '','']"

definition CheckKeyTypeString :: "string \<Rightarrow> bool" where
  "CheckKeyTypeString str \<longleftrightarrow> \<not> list_ex (contains_text str) INVALID_KEY_TYPE_ARR"

text \<open>One turn of the loop over the names of the parameters.\<close>

definition param_step ::
  "napi \<Rightarrow> js_pending \<Rightarrow> js_value \<Rightarrow> js_value option \<Rightarrow> (string \<times> Param) list \<Rightarrow> (string \<times> Param) list" where
  "param_step na pend propertyValue key ps =
     (if \<not> IsValueTypeValid na key napi_string then ps
      else let buf = ParseStringValue na key [] in
        if \<not> CheckKeyTypeString buf then ps
        else AddParamToEventInfo na pend buf (GetPropertyByName na pend (Some propertyValue) buf) ps)"

definition GetObjectTypeAttribute ::
  "napi \<Rightarrow> js_pending \<Rightarrow> js_value option \<Rightarrow> string \<Rightarrow> (string \<times> Param) list \<Rightarrow> (string \<times> Param) list" where
  "GetObjectTypeAttribute na pend obj propertyName ps =
     (case GetPropertyByName na pend obj propertyName of
        None \<Rightarrow> ps
      | Some propertyValue \<Rightarrow>
          if \<not> IsValueTypeValid na (Some propertyValue) napi_object then ps
          else case na_names na (pend \<noteq> None) propertyValue of
            None \<Rightarrow> ps
          | Some keyArr \<Rightarrow>
              (case na_length na keyArr of
                 None \<Rightarrow> ps
               | Some len \<Rightarrow> fold (param_step na pend propertyValue) (elements na pend keyArr len) ps))"

text \<open>The information of an event; it starts empty, with the event type zero.\<close>

definition info_new :: HiSysEventInfo where
  "info_new = \<lparr>ei_domain = [], ei_name = [], ei_eventType = 0, ei_params = []\<rparr>"

definition FAULT_TYPE :: "32 word" where "FAULT_TYPE = 1"

definition ParseHiSysEventInfo ::
  "napi \<Rightarrow> js_value list \<Rightarrow> HiSysEventInfo \<Rightarrow> js_pending \<Rightarrow> js_pending \<times> HiSysEventInfo" where
  "ParseHiSysEventInfo na args info pend =
     (case args of
        [] \<Rightarrow> (pend, info)
      | obj # _ \<Rightarrow>
          if \<not> IsValueTypeValid na (Some obj) napi_object then (ThrowParamTypeError ''info'' ''object'' pend, info)
          else
            case GetStringTypeAttribute na (Some obj) DOMAIN_ATTR pend of (pend1, domain) \<Rightarrow>
            case GetStringTypeAttribute na (Some obj) NAME_ATTR pend1 of (pend2, name) \<Rightarrow>
            case GetInt32TypeAttribute na (Some obj) EVENT_TYPE_ATTR FAULT_TYPE pend2 of (pend3, eventType) \<Rightarrow>
              (pend3, info\<lparr>ei_domain := domain, ei_name := name, ei_eventType := sint eventType,
                 ei_params := GetObjectTypeAttribute na pend3 (Some obj) PARAMS_ATTR (ei_params info)\<rparr>))"

section \<open>Rules and query arguments\<close>

text \<open>The loop ends at the first element that cannot be got.\<close>

definition ParseStringArray :: "napi \<Rightarrow> js_pending \<Rightarrow> js_value option \<Rightarrow> string list \<Rightarrow> string list" where
  "ParseStringArray na pend arrayValue arrayDest =
     (case arrayValue of
        None \<Rightarrow> arrayDest
      | Some array \<Rightarrow>
          if \<not> CheckValueIsArray na arrayValue then arrayDest
          else case na_length na array of
            None \<Rightarrow> arrayDest
          | Some len \<Rightarrow> arrayDest @
              map (\<lambda>el. ParseStringValue na el [])
                (filter (\<lambda>el. IsValueTypeValid na el napi_string)
                  (takeWhile (\<lambda>el. el \<noteq> None) (elements na pend array len))))"

text \<open>\<^verbatim>\<open>RuleType\<close> is cast from an integer.\<close>

definition ParseListenerRule :: "napi \<Rightarrow> js_value option \<Rightarrow> js_pending \<Rightarrow> js_pending \<times> listener_rule" where
  "ParseListenerRule na obj pend =
     (if \<not> IsValueTypeValid na obj napi_object then (pend, ListenerRule_tag [] WHOLE_WORD)
      else
        case GetStringTypeAttribute na obj DOMAIN_ATTR pend of (pend1, domain) \<Rightarrow>
        case GetStringTypeAttribute na obj NAME_ATTR pend1 of (pend2, name) \<Rightarrow>
        case GetInt32TypeAttribute na obj RULE_TYPE_ATTR WHOLE_WORD pend2 of (pend3, ruleType) \<Rightarrow>
        case GetTagAttribute na obj pend3 of (pend4, tag) \<Rightarrow>
          (pend4, ListenerRule_new domain name tag ruleType 0))"

definition IsQueryRuleValid :: "query_rule \<Rightarrow> js_pending \<Rightarrow> js_pending \<times> bool" where
  "IsQueryRuleValid rule pend =
     (if \<not> IsValidName (ql_domain rule) MAX_DOMAIN_LENGTH
      then (ThrowErrorByRet ERR_INVALID_DOMAIN_IN_QUERY_RULE pend, False)
      else if list_ex (\<lambda>name. \<not> IsValidName name MAX_EVENT_NAME_LENGTH) (ql_eventList rule)
      then (ThrowErrorByRet ERR_INVALID_EVENT_NAME_IN_QUERY_RULE pend, False)
      else (pend, True))"

definition ParseQueryRule :: "napi \<Rightarrow> js_value option \<Rightarrow> js_pending \<Rightarrow> js_pending \<times> query_rule" where
  "ParseQueryRule na obj pend =
     (if \<not> IsValueTypeValid na obj napi_object then (pend, QueryRule_new [] [] WHOLE_WORD 0 [])
      else
        case GetStringTypeAttribute na obj DOMAIN_ATTR pend of (pend1, domain) \<Rightarrow>
          let names = ParseStringArray na pend1 (GetPropertyByName na pend1 obj NAMES_ATTR) [];
              condition = ParseStringValue na (GetPropertyByName na pend1 obj CONDITION_ATTR) [] in
          (pend1, QueryRule_new domain names WHOLE_WORD 0 condition))"

definition NAPI_SUCCESS :: int where "NAPI_SUCCESS = 0"
definition ERR_NAPI_PARSED_FAILED :: int where "ERR_NAPI_PARSED_FAILED = -101"
definition ERR_LISTENER_RULES_TYPE_NOT_ARRAY :: int where "ERR_LISTENER_RULES_TYPE_NOT_ARRAY = -102"
definition ERR_QUERY_ARG_TYPE_INVALID :: int where "ERR_QUERY_ARG_TYPE_INVALID = -104"
definition ERR_QUERY_RULES_TYPE_NOT_ARRAY :: int where "ERR_QUERY_RULES_TYPE_NOT_ARRAY = -105"

lemmas parse_code_defs = NAPI_SUCCESS_def ERR_NAPI_PARSED_FAILED_def ERR_LISTENER_RULES_TYPE_NOT_ARRAY_def
  ERR_QUERY_ARG_TYPE_INVALID_def ERR_QUERY_RULES_TYPE_NOT_ARRAY_def

text \<open>The loops from an index on; the exception that one rule leaves pending meets the next.\<close>

primrec listener_rules_loop ::
  "napi \<Rightarrow> js_value \<Rightarrow> nat list \<Rightarrow> listener_rule list \<Rightarrow> js_pending \<Rightarrow> js_pending \<times> int \<times> listener_rule list" where
  "listener_rules_loop na array [] rules pend = (pend, NAPI_SUCCESS, rules)"
| "listener_rules_loop na array (i # is) rules pend =
     (case na_element na (pend \<noteq> None) array i of
        None \<Rightarrow> (pend, ERR_NAPI_PARSED_FAILED, rules)
      | Some element \<Rightarrow>
          if IsValueTypeValid na (Some element) napi_object
          then (case ParseListenerRule na (Some element) pend of
            (pend', rule) \<Rightarrow> listener_rules_loop na array is (rules @ [rule]) pend')
          else listener_rules_loop na array is rules pend)"

primrec parse_rules_loop ::
  "napi \<Rightarrow> js_value \<Rightarrow> nat list \<Rightarrow> query_rule list \<Rightarrow> js_pending \<Rightarrow> js_pending \<times> int \<times> query_rule list" where
  "parse_rules_loop na array [] rules pend = (pend, NAPI_SUCCESS, rules)"
| "parse_rules_loop na array (i # is) rules pend =
     (case na_element na (pend \<noteq> None) array i of
        None \<Rightarrow> (pend, ERR_NAPI_PARSED_FAILED, rules)
      | Some element \<Rightarrow>
          if IsValueTypeValid na (Some element) napi_object
          then (case ParseQueryRule na (Some element) pend of
            (pend', rule) \<Rightarrow>
              (case IsQueryRuleValid rule pend' of
                 (pend'', ok) \<Rightarrow> parse_rules_loop na array is (if ok then rules @ [rule] else rules) pend''))
          else parse_rules_loop na array is rules pend)"

text \<open>What both functions do before their loop: the array is there, its length and the type of
  its first element can be got.\<close>

definition rules_array ::
  "napi \<Rightarrow> js_value option \<Rightarrow> int \<Rightarrow> js_pending \<Rightarrow> (js_pending \<times> int) + (js_value \<times> nat)" where
  "rules_array na array not_array pend =
     (if \<not> CheckValueIsArray na array then Inl (ThrowParamTypeError ''rules'' ''array'' pend, not_array)
      else case array of
        None \<Rightarrow> Inl (pend, ERR_NAPI_PARSED_FAILED)
      | Some a \<Rightarrow>
          (case na_length na a of
             None \<Rightarrow> Inl (pend, ERR_NAPI_PARSED_FAILED)
           | Some len \<Rightarrow>
               (case na_element na (pend \<noteq> None) a 0 of
                  None \<Rightarrow> Inl (pend, ERR_NAPI_PARSED_FAILED)
                | Some firstItem \<Rightarrow>
                    if na_typeof na firstItem = None then Inl (pend, ERR_NAPI_PARSED_FAILED)
                    else Inr (a, len))))"

definition ParseListenerRules ::
  "napi \<Rightarrow> js_value option \<Rightarrow> listener_rule list \<Rightarrow> js_pending \<Rightarrow> js_pending \<times> int \<times> listener_rule list" where
  "ParseListenerRules na array listenerRules pend =
     (case rules_array na array ERR_LISTENER_RULES_TYPE_NOT_ARRAY pend of
        Inl (pend', err) \<Rightarrow> (pend', err, listenerRules)
      | Inr (a, len) \<Rightarrow> listener_rules_loop na a [0..<len] listenerRules pend)"

definition ParseQueryRules ::
  "napi \<Rightarrow> js_value option \<Rightarrow> query_rule list \<Rightarrow> js_pending \<Rightarrow> js_pending \<times> int \<times> query_rule list" where
  "ParseQueryRules na array queryRules pend =
     (case rules_array na array ERR_QUERY_RULES_TYPE_NOT_ARRAY pend of
        Inl (pend', err) \<Rightarrow> (pend', err, queryRules)
      | Inr (a, len) \<Rightarrow> parse_rules_loop na a [0..<len] queryRules pend)"

definition JS_DEFAULT_TIME_STAMP :: "64 word" where "JS_DEFAULT_TIME_STAMP = -1"
definition DEFAULT_SEQ :: "64 word" where "DEFAULT_SEQ = 0"
definition DEFAULT_MAX_EVENTS :: "32 word" where "DEFAULT_MAX_EVENTS = 1000"

definition ParseQueryArg ::
  "napi \<Rightarrow> js_value option \<Rightarrow> query_arg \<Rightarrow> js_pending \<Rightarrow> js_pending \<times> int \<times> query_arg" where
  "ParseQueryArg na jsObj queryArg pend =
     (if \<not> IsValueTypeValid na jsObj napi_object
      then (ThrowParamTypeError ''queryArg'' ''object'' pend, ERR_QUERY_ARG_TYPE_INVALID, queryArg)
      else
        let beginTimeVal = GetPropertyByName na pend jsObj BEGIN_TIME_ATTR;
            endTimeVal = GetPropertyByName na pend jsObj END_TIME_ATTR;
            fromSeqVal = GetPropertyByName na pend jsObj BEGIN_SEQ_ATTR;
            toSeqVal = GetPropertyByName na pend jsObj END_SEQ_ATTR in
        if (IsNullOrUndefined na beginTimeVal \<or> IsNullOrUndefined na endTimeVal) \<and>
           (IsNullOrUndefined na fromSeqVal \<or> IsNullOrUndefined na toSeqVal)
        then (ThrowParamTypeError ''queryArg's member'' ''not null or undefined'' pend, ERR_QUERY_ARG_TYPE_INVALID, queryArg)
        else
          let beginTime = GetLonglongTypeAttribute na beginTimeVal JS_DEFAULT_TIME_STAMP;
              endTime = GetLonglongTypeAttribute na endTimeVal JS_DEFAULT_TIME_STAMP in
          case GetInt32TypeAttribute na jsObj MAX_EVENTS_ATTR DEFAULT_MAX_EVENTS pend of (pend', maxEvents) \<Rightarrow>
            (pend', NAPI_SUCCESS,
             \<lparr>ar_beginTime = (if beginTime <s 0 then 0 else beginTime),
              ar_endTime = (if endTime <s 0 then 0x7FFFFFFFFFFFFFFF else endTime),
              ar_maxEvents = (if maxEvents <s 0 then 0x7FFFFFFF else maxEvents),
              ar_fromSeq = GetLonglongTypeAttribute na fromSeqVal DEFAULT_SEQ,
              ar_toSeq = GetLonglongTypeAttribute na toSeqVal DEFAULT_SEQ\<rparr>))"

section \<open>The documented behaviour of the engine\<close>

text \<open>
  Types are those of the values, a value converts to its own type only, a text is cut at most
  three bytes before the end of the buffer (between two characters), big integers are reduced
  modulo \<open>2 ^ 64\<close> with a flag, and while no exception is pending the members of objects and
  arrays can be got. Nothing is assumed of property access while an exception is pending.
\<close>

definition utf8_laws :: "napi \<Rightarrow> bool" where
  "utf8_laws na \<longleftrightarrow>
     (\<forall>s n. n > 0 \<longrightarrow> (\<exists>t. na_get_utf8 na (Js_string s) n = Some t \<and> prefix t s \<and>
        (length s < n \<longrightarrow> t = s) \<and> (n \<le> length s \<longrightarrow> length t < n \<and> n < length t + 5)))"

definition napi_laws :: "napi \<Rightarrow> bool" where
  "napi_laws na \<longleftrightarrow>
     (\<forall>v. na_typeof na v = Some (type_of v)) \<and>
     (\<forall>v. na_is_array na v = Some (case v of Js_array _ \<Rightarrow> True | _ \<Rightarrow> False)) \<and>
     (\<forall>b. na_get_bool na (Js_boolean b) = Some b) \<and>
     (\<forall>d. na_get_double na (Js_number d) = Some d) \<and>
     (\<forall>d i. f64_rat d = Some (of_int i) \<longrightarrow> - (2 ^ 31) \<le> i \<longrightarrow> i < 2 ^ 31 \<longrightarrow>
        na_get_int32 na (Js_number d) = Some (of_int i)) \<and>
     (\<forall>i. na_get_int64 na (Js_bigint i) = Some (of_int i, - (2 ^ 63) \<le> i \<and> i < 2 ^ 63)) \<and>
     (\<forall>i. na_get_uint64 na (Js_bigint i) = Some (of_int i, 0 \<le> i \<and> i < 2 ^ 64)) \<and>
     utf8_laws na \<and> na_get_utf8 na Js_undefined = (\<lambda>_. None) \<and>
     (\<forall>vs. na_length na (Js_array vs) = Some (length vs)) \<and>
     (\<forall>n ps k. na_property na False (Js_object n ps) k =
        Some (case map_of ps k of None \<Rightarrow> Js_undefined | Some v \<Rightarrow> v)) \<and>
     (\<forall>n ps. distinct (map fst ps) \<longrightarrow> (\<exists>ks. na_names na False (Js_object n ps) = Some (Js_array (map Js_string ks)) \<and>
        distinct ks \<and> set ks = fst ` set ps)) \<and>
     (\<forall>vs i. na_element na False (Js_array vs) i = Some (if i < length vs then vs ! i else Js_undefined))"

lemma napi_simps:
  assumes "napi_laws na"
  shows "na_typeof na v = Some (type_of v)"
    and "na_is_array na v = Some (case v of Js_array _ \<Rightarrow> True | _ \<Rightarrow> False)"
    and "na_get_bool na (Js_boolean b) = Some b"
    and "na_get_double na (Js_number d) = Some d"
    and "na_get_int64 na (Js_bigint i) = Some (of_int i, - (2 ^ 63) \<le> i \<and> i < 2 ^ 63)"
    and "na_get_uint64 na (Js_bigint i) = Some (of_int i, 0 \<le> i \<and> i < 2 ^ 64)"
    and "na_get_utf8 na Js_undefined n = None"
    and "na_length na (Js_array vs) = Some (length vs)"
    and "na_property na False (Js_object m ps) k = Some (case map_of ps k of None \<Rightarrow> Js_undefined | Some v \<Rightarrow> v)"
    and "na_element na False (Js_array vs) j = Some (if j < length vs then vs ! j else Js_undefined)"
    and "GetValueType na (Some v) = type_of v"
    and "IsValueTypeValid na (Some v) t \<longleftrightarrow> type_of v = t"
  using assms by (simp_all add: napi_laws_def GetValueType_def IsValueTypeValid_def)

lemma napi_int32:
  assumes "napi_laws na" "f64_rat d = Some (of_int i)" "- (2 ^ 31) \<le> i" "i < 2 ^ 31"
  shows "na_get_int32 na (Js_number d) = Some (of_int i)"
  using assms by (simp add: napi_laws_def)

lemma napi_names:
  assumes "napi_laws na" "distinct (map fst ps)"
  obtains ks where "na_names na False (Js_object n ps) = Some (Js_array (map Js_string ks))" "distinct ks"
    "set ks = fst ` set ps"
proof -
  have "\<exists>ks. na_names na False (Js_object n ps) = Some (Js_array (map Js_string ks)) \<and> distinct ks \<and> set ks = fst ` set ps"
    using assms by (simp add: napi_laws_def)
  then show ?thesis
    using that by blast
qed

lemma elements_array:
  "napi_laws na \<Longrightarrow> elements na None (Js_array vs) (length vs) = map Some vs"
  by (rule nth_equalityI) (simp_all add: elements_def napi_simps)

text \<open>Strings without NUL that fit into the buffer are read whole, longer ones stay long.\<close>

definition fits_buffer :: "string \<Rightarrow> bool" where
  "fits_buffer s \<longleftrightarrow> no_nul s \<and> length s < BUF_SIZE - 1"

lemma takeWhile_no_nul: "no_nul s \<Longrightarrow> takeWhile (\<lambda>c. c \<noteq> CHR 0x00) s = s"
  by (auto simp: no_nul_def takeWhile_eq_all_conv)

lemma no_nul_prefix: "no_nul s \<Longrightarrow> prefix t s \<Longrightarrow> no_nul t"
  by (auto simp: no_nul_def dest: set_mono_prefix)

lemma ParseStringValue_whole:
  assumes "napi_laws na" "fits_buffer s"
  shows "ParseStringValue na (Some (Js_string s)) def = s"
proof -
  have "BUF_SIZE - 1 > 0"
    by (simp add: BUF_SIZE_def)
  then have "na_get_utf8 na (Js_string s) (BUF_SIZE - 1) = Some s"
    using assms unfolding napi_laws_def utf8_laws_def fits_buffer_def by metis
  then show ?thesis
    using assms(2) by (simp add: ParseStringValue_def takeWhile_no_nul fits_buffer_def)
qed

lemma ParseStringValue_long:
  assumes "napi_laws na" "no_nul s" "BUF_SIZE - 1 \<le> length s"
  shows "prefix (ParseStringValue na (Some (Js_string s)) def) s"
    and "length (ParseStringValue na (Some (Js_string s)) def) > JS_STR_PARM_LEN_LIMIT"
proof -
  have "BUF_SIZE - 1 > 0"
    by (simp add: BUF_SIZE_def)
  then obtain t where "na_get_utf8 na (Js_string s) (BUF_SIZE - 1) = Some t" "prefix t s" "BUF_SIZE - 1 < length t + 5"
    using assms(1,3) unfolding napi_laws_def utf8_laws_def by metis
  moreover from this have "ParseStringValue na (Some (Js_string s)) def = t"
    using assms(2) by (simp add: ParseStringValue_def takeWhile_no_nul no_nul_prefix)
  ultimately show "prefix (ParseStringValue na (Some (Js_string s)) def) s"
      "length (ParseStringValue na (Some (Js_string s)) def) > JS_STR_PARM_LEN_LIMIT"
    by (simp_all add: BUF_SIZE_def JS_STR_PARM_LEN_LIMIT_def)
qed

section \<open>Numbers\<close>

text \<open>The integers that a double value stands for, and numbers with a clear fraction.\<close>

definition num_int :: "64 word \<Rightarrow> int \<Rightarrow> bool" where
  "num_int d i \<longleftrightarrow> f64_rat d = Some (of_int i) \<and> - (2 ^ 63) \<le> i \<and> i < 2 ^ 63"

definition num_fraction :: "64 word \<Rightarrow> bool" where
  "num_fraction d \<longleftrightarrow> (\<exists>v. f64_rat d = Some v \<and> - (2 ^ 63) \<le> rat_trunc v \<and> rat_trunc v < 2 ^ 63 \<and>
     \<bar>of_int (rat_trunc v) - v\<bar> > 1 / 10 ^ 8)"

definition int_param :: "int \<Rightarrow> Param" where
  "int_param i = (if i < 0 then I64 (of_int i) else U64 (of_int i))"

lemma tiny_value: "\<exists>t. f64_rat tiny = Some t \<and> 0 < t \<and> t < 1 / 10 ^ 8"
proof -
  have "f64_rat tiny = Some (4835703278458517 / 4835703278458516698824704)"
    by (simp add: tiny_def f64_rat_def f64_expo_def f64_frac_def f64_mant_def f64_shift_def f64_neg_def)
  then show ?thesis
    by (intro exI [of _ "4835703278458517 / 4835703278458516698824704"]) simp
qed

lemma sint_of_int: "- (2 ^ 63) \<le> i \<Longrightarrow> i < 2 ^ 63 \<Longrightarrow> sint (of_int i :: 64 word) = i"
  by (simp add: signed_of_int signed_take_bit_int_eq_self)

lemma truncated_double:
  assumes "f64_rat d = Some v" "- (2 ^ 63) \<le> rat_trunc v" "rat_trunc v < 2 ^ 63"
  shows "f64_rat (f64_of_int (sint (f64_to_i64 ub d))) = Some (of_int (rat_trunc v))"
  using assms f64_rat_trunc [OF assms(1)] by (simp add: f64_to_i64_def sint_of_int)

lemma num_int_values:
  assumes "num_int d i"
  shows "\<not> IsFloatingNumber na d" "f64_less_zero d \<longleftrightarrow> i < 0" "f64_to_i64 ub d = of_int i"
    and "0 \<le> i \<Longrightarrow> f64_to_u64 ub d = of_int i"
proof -
  have d: "f64_rat d = Some (of_int i)" "- (2 ^ 63) \<le> i" "i < 2 ^ 63"
    using assms by (simp_all add: num_int_def)
  have "f64_rat (f64_of_int (sint (f64_to_i64 (na_cast_i64 na) d))) = Some (of_int i)"
    using truncated_double [OF d(1)] d(2,3) by simp
  then show "\<not> IsFloatingNumber na d"
    using d(1) tiny_value by (auto simp: IsFloatingNumber_def f64_differs_def Let_def)
  show "f64_less_zero d \<longleftrightarrow> i < 0" "f64_to_i64 ub d = of_int i" "0 \<le> i \<Longrightarrow> f64_to_u64 ub d = of_int i"
    using d by (simp_all add: f64_less_zero_def f64_to_i64_def f64_to_u64_def)
qed

lemma num_fraction_floating: "num_fraction d \<Longrightarrow> IsFloatingNumber na d"
  using tiny_value
  by (force simp: num_fraction_def IsFloatingNumber_def f64_differs_def Let_def truncated_double)

lemma number_param_int: "num_int d i \<Longrightarrow> number_param na d = int_param i"
  by (simp add: number_param_def int_param_def num_int_values)

lemma number_param_fraction: "num_fraction d \<Longrightarrow> number_param na d = DOU d"
  by (simp add: number_param_def num_fraction_floating)

section \<open>What a value becomes\<close>

text \<open>
  The specification of the types: integral numbers become integers, signed exactly when
  negative, other numbers stay doubles, an array is one of doubles when it has a fraction, of
  signed integers when it has a negative one, and else of unsigned integers. Numbers whose
  fraction is tiny and arrays with a negative integer behind a fraction are left out.
\<close>

definition ints_param :: "int list \<Rightarrow> Param" where
  "ints_param is = (if list_ex (\<lambda>i. i < 0) is then I64_ARR (map of_int is) else U64_ARR (map of_int is))"

definition bigint_fits :: "int \<Rightarrow> bool" where
  "bigint_fits i \<longleftrightarrow> - (2 ^ 63) \<le> i \<and> i < 2 ^ 64"

inductive typed_as :: "js_value \<Rightarrow> Param \<Rightarrow> bool" where
  t_bool: "typed_as (Js_boolean b) (BL b)"
| t_int: "num_int d i \<Longrightarrow> typed_as (Js_number d) (int_param i)"
| t_fraction: "num_fraction d \<Longrightarrow> typed_as (Js_number d) (DOU d)"
| t_bigint: "bigint_fits i \<Longrightarrow> typed_as (Js_bigint i) (int_param i)"
| t_string: "fits_buffer s \<Longrightarrow> typed_as (Js_string s) (STR_VAL s)"
| t_long_string: "no_nul s \<Longrightarrow> BUF_SIZE - 1 \<le> length s \<Longrightarrow> prefix t s \<Longrightarrow> length t > JS_STR_PARM_LEN_LIMIT \<Longrightarrow>
    typed_as (Js_string s) (STR_VAL t)"
| t_bools: "bs \<noteq> [] \<Longrightarrow> typed_as (Js_array (map Js_boolean bs)) (BOOL_ARR bs)"
| t_strings: "ss \<noteq> [] \<Longrightarrow> list_all fits_buffer ss \<Longrightarrow> typed_as (Js_array (map Js_string ss)) (STR_ARR ss)"
| t_ints: "is \<noteq> [] \<Longrightarrow> list_all2 num_int ds is \<Longrightarrow> typed_as (Js_array (map Js_number ds)) (ints_param is)"
| t_bigints: "is \<noteq> [] \<Longrightarrow> list_all bigint_fits is \<Longrightarrow> (list_ex (\<lambda>i. i < 0) is \<longrightarrow> list_all (\<lambda>i. i < 2 ^ 63) is) \<Longrightarrow>
    typed_as (Js_array (map Js_bigint is)) (ints_param is)"
| t_doubles: "ds = as @ f # bs \<Longrightarrow> \<forall>d \<in> set as. \<exists>i. num_int d i \<Longrightarrow> num_fraction f \<Longrightarrow>
    \<forall>d \<in> set bs. num_fraction d \<or> (\<exists>i \<ge> 0. num_int d i) \<Longrightarrow> list_all2 (\<lambda>d e. f64_rat e = f64_rat d) ds es \<Longrightarrow>
    typed_as (Js_array (map Js_number ds)) (DOUBLE_ARR es)"

definition int_item :: "int \<Rightarrow> ParsedItem" where
  "int_item i = (if i < 0 then I64_ITEM (of_int i) else U64_ITEM (of_int i))"

lemma number_step_int:
  assumes "napi_laws na" "num_int d i" "pStatus \<noteq> AS_DOUBLE_ARR \<or> 0 \<le> i"
  shows "number_step na (Some (Js_number d)) (pStatus, acc) =
    (if i < 0 then AS_I64_ARR else pStatus, acc @ [int_item i])"
  using assms(2,3) num_int_values [OF assms(2)]
  by (auto simp: number_step_def typed_def napi_simps [OF assms(1)] ParseNumberValue_def int_item_def Let_def)

lemma number_step_fraction:
  assumes "napi_laws na" "num_fraction d"
  shows "number_step na (Some (Js_number d)) (pStatus, acc) = (AS_DOUBLE_ARR, acc @ [DOUBLE_ITEM d])"
  using num_fraction_floating [OF assms(2)]
  by (simp add: number_step_def typed_def napi_simps [OF assms(1)] ParseNumberValue_def Let_def)

lemma number_fold_ints:
  assumes "napi_laws na" "list_all2 num_int ds is" "pStatus \<noteq> AS_DOUBLE_ARR"
  shows "fold (number_step na) (map (\<lambda>d. Some (Js_number d)) ds) (pStatus, acc) =
    (if list_ex (\<lambda>i. i < 0) is then AS_I64_ARR else pStatus, acc @ map int_item is)"
  using assms(2,3)
proof (induction ds "is" arbitrary: pStatus acc rule: list_all2_induct)
  case (Cons d ds i "is")
  then show ?case
    by (simp add: number_step_int [OF assms(1)])
qed simp

text \<open>The double that an item becomes stands for the same number.\<close>

definition same_number :: "64 word \<Rightarrow> ParsedItem \<Rightarrow> bool" where
  "same_number d it \<longleftrightarrow> f64_rat (item_as_double it) = f64_rat d"

lemma int_item_double:
  assumes "num_int d i"
  shows "same_number d (int_item i)"
proof -
  have d: "f64_rat d = Some (of_int i)" "- (2 ^ 63) \<le> i" "i < 2 ^ 63"
    using assms by (simp_all add: num_int_def)
  have "item_as_double (int_item i) = f64_of_int i"
    using d(2,3) by (simp add: int_item_def sint_of_int unsigned_of_int take_bit_int_eq_self)
  moreover have "fits_double (nat \<bar>i\<bar>)"
    using trunc_fits [OF d(1)] by simp
  ultimately show ?thesis
    using d f64_rat_of_int [of i] by (simp add: same_number_def)
qed

lemma int_items_double: "list_all2 num_int ds is \<Longrightarrow> list_all2 same_number ds (map int_item is)"
  by (simp add: list_all2_map2 list_all2_mono int_item_double)

lemma number_fold_doubles:
  assumes "napi_laws na" "\<forall>d \<in> set ds. num_fraction d \<or> (\<exists>i \<ge> 0. num_int d i)"
  shows "\<exists>items. fold (number_step na) (map (\<lambda>d. Some (Js_number d)) ds) (AS_DOUBLE_ARR, acc) = (AS_DOUBLE_ARR, acc @ items) \<and>
    list_all2 same_number ds items"
  using assms(2)
proof (induction ds arbitrary: acc)
  case (Cons d ds)
  then consider "num_fraction d" | i where "0 \<le> i" "num_int d i"
    by auto
  then obtain it where it: "number_step na (Some (Js_number d)) (AS_DOUBLE_ARR, acc) = (AS_DOUBLE_ARR, acc @ [it])"
      "same_number d it"
  proof cases
    case 1
    then show ?thesis
      using number_step_fraction [OF assms(1)] that by (simp add: same_number_def)
  next
    case 2
    then show ?thesis
      using number_step_int [OF assms(1) 2(2), of AS_DOUBLE_ARR acc] int_item_double [OF 2(2)] that by simp
  qed
  obtain items where "fold (number_step na) (map (\<lambda>d. Some (Js_number d)) ds) (AS_DOUBLE_ARR, acc @ [it]) =
      (AS_DOUBLE_ARR, (acc @ [it]) @ items)" "list_all2 same_number ds items"
    using Cons by fastforce
  then show ?case
    using it by (intro exI [of _ "it # items"]) simp
qed simp

lemma bigint_fold:
  assumes "napi_laws na" "list_all bigint_fits is"
  shows "\<exists>r. fold (bigint_step na) (map (\<lambda>i. Some (Js_bigint i)) is) (i64Ret, pStatus, acc) =
    (r, if list_ex (\<lambda>i. i < 0) is then AS_I64_ARR else pStatus, acc @ map int_item is)"
  using assms(2)
proof (induction "is" arbitrary: i64Ret pStatus acc)
  case (Cons i "is")
  have step: "bigint_step na (Some (Js_bigint i)) (i64Ret, pStatus, acc) =
      (if 0 \<le> i then i64Ret else (- (2 ^ 63) \<le> i \<and> i < 2 ^ 63, of_int i),
       if i < 0 then AS_I64_ARR else pStatus, acc @ [int_item i])"
    using Cons.prems
    by (simp add: bigint_step_def typed_def napi_simps [OF assms(1)] ParseBigIntResultValue_def
        ParseUnsignedBigIntValue_def ParseSignedBigIntValue_def int_item_def bigint_fits_def Let_def)
  have "list_all bigint_fits is"
    using Cons.prems by simp
  then obtain r where "fold (bigint_step na) (map (\<lambda>i. Some (Js_bigint i)) is)
      (if 0 \<le> i then i64Ret else (- (2 ^ 63) \<le> i \<and> i < 2 ^ 63, of_int i),
       if i < 0 then AS_I64_ARR else pStatus, acc @ [int_item i]) =
      (r, if list_ex (\<lambda>i. i < 0) is then AS_I64_ARR else if i < 0 then AS_I64_ARR else pStatus,
       (acc @ [int_item i]) @ map int_item is)"
    using Cons.IH by blast
  then show ?case
    using step by (intro exI [of _ r]) simp
qed simp

lemma items_as_ints:
  "map (item_as_u64 na) (map int_item is) = map of_int is"
  "map (item_as_i64 na) (map int_item is) = map of_int is"
  by (simp_all add: int_item_def)

lemma AddParam_cases:
  assumes "napi_laws na"
  shows "(case v of Js_array _ \<Rightarrow> False | _ \<Rightarrow> True) \<Longrightarrow> CheckValueIsArray na (Some v) = False"
    and "CheckValueIsArray na (Some (Js_array vs))"
  using assms by (auto simp: CheckValueIsArray_def napi_simps split: js_value.splits)

lemma array_first:
  assumes "napi_laws na" "vs \<noteq> []" "type_of (hd vs) = t"
  shows "na_element na False (Js_array vs) 0 = Some (hd vs)" "na_typeof na (hd vs) = Some t"
  using assms by (simp_all add: napi_simps hd_conv_nth)

lemma read_array:
  assumes "napi_laws na" "vs \<noteq> []"
  shows "AddParamToEventInfo na None key (Some (Js_array vs)) ps =
    (let t = type_of (hd vs); len = length vs in
     if t = napi_boolean then AppendBoolArrayData na None key (Js_array vs) len ps
     else if t = napi_number then AppendNumberArrayData na None key (Js_array vs) len ps
     else if t = napi_bigint then AppendBigIntArrayData na None key (Js_array vs) len ps
     else if t = napi_string then AppendStringArrayData na None key (Js_array vs) len ps
     else ps)"
  using assms array_first [OF assms refl]
  by (simp add: AddParamToEventInfo_def AddParam_cases AddArrayParamToEventInfo_def napi_simps Let_def)

lemma num_ints: "\<forall>d \<in> set ds. \<exists>i. num_int d i \<Longrightarrow> \<exists>is. list_all2 num_int ds is"
  by (induction ds) (auto intro: list_all2_Cons [THEN iffD2])

lemma read_doubles:
  assumes laws: "napi_laws na" and ds: "ds = as @ f # bs" "\<forall>d \<in> set as. \<exists>i. num_int d i" "num_fraction f"
      "\<forall>d \<in> set bs. num_fraction d \<or> (\<exists>i \<ge> 0. num_int d i)"
  shows "\<exists>es. list_all2 (\<lambda>d e. f64_rat e = f64_rat d) ds es \<and>
    AppendNumberArrayData na None key (Js_array (map Js_number ds)) (length ds) ps = put_param key (DOUBLE_ARR es) ps"
proof -
  obtain "is" where "is": "list_all2 num_int as is"
    using num_ints [OF ds(2)] by blast
  obtain items where items: "fold (number_step na) (map (\<lambda>d. Some (Js_number d)) bs)
      (AS_DOUBLE_ARR, map int_item is @ [DOUBLE_ITEM f]) = (AS_DOUBLE_ARR, (map int_item is @ [DOUBLE_ITEM f]) @ items)"
      "list_all2 same_number bs items"
    using number_fold_doubles [OF laws ds(4)] by blast
  let ?all = "map int_item is @ DOUBLE_ITEM f # items"
  have "fold (number_step na) (map (\<lambda>d. Some (Js_number d)) ds) (AS_U64_ARR, []) = (AS_DOUBLE_ARR, ?all)"
    using items(1) by (simp add: ds(1) number_fold_ints [OF laws "is"] number_step_fraction [OF laws ds(3)])
  moreover have "list_all2 same_number ds ?all"
    using int_items_double [OF "is"] items(2) unfolding ds(1)
    by (intro list_all2_appendI) (simp_all add: same_number_def)
  then have "list_all2 (\<lambda>d e. f64_rat e = f64_rat d) ds (map item_as_double ?all)"
    unfolding list_all2_map2 same_number_def [abs_def] .
  ultimately show ?thesis
    using elements_array [OF laws, of "map Js_number ds"]
    by (intro exI [of _ "map item_as_double ?all"]) (simp add: AppendNumberArrayData_def comp_def)
qed

text \<open>Every value of the specification is read with a type it admits.\<close>

lemma AddParam_typed:
  assumes laws: "napi_laws na" and "typed_as v p0"
  shows "\<exists>p. typed_as v p \<and> AddParamToEventInfo na None key (Some v) ps = put_param key p ps"
  using assms(2)
proof cases
  case (t_bool b)
  have "AddParamToEventInfo na None key (Some v) ps = put_param key (BL b) ps"
    by (simp add: t_bool AddParamToEventInfo_def AddParam_cases [OF laws] napi_simps [OF laws] ParseBoolValue_def)
  then show ?thesis
    using typed_as.t_bool t_bool by blast
next
  case (t_int d i)
  have "AddParamToEventInfo na None key (Some v) ps = put_param key (int_param i) ps"
    using number_param_int [OF t_int(3)]
    by (simp add: t_int AddParamToEventInfo_def AddParam_cases [OF laws] napi_simps [OF laws] ParseNumberValue_def)
  then show ?thesis
    using typed_as.t_int t_int by blast
next
  case (t_fraction d)
  have "AddParamToEventInfo na None key (Some v) ps = put_param key (DOU d) ps"
    using number_param_fraction [OF t_fraction(3)]
    by (simp add: t_fraction AddParamToEventInfo_def AddParam_cases [OF laws] napi_simps [OF laws] ParseNumberValue_def)
  then show ?thesis
    using typed_as.t_fraction t_fraction by blast
next
  case (t_bigint i)
  have "AddParamToEventInfo na None key (Some v) ps = put_param key (int_param i) ps"
    using t_bigint(3)
    by (simp add: t_bigint AddParamToEventInfo_def AddParam_cases [OF laws] napi_simps [OF laws] bigint_param_def
        ParseBigIntResultValue_def ParseUnsignedBigIntValue_def ParseSignedBigIntValue_def int_param_def bigint_fits_def
        Let_def)
  then show ?thesis
    using typed_as.t_bigint t_bigint by blast
next
  case (t_string s)
  have "AddParamToEventInfo na None key (Some v) ps = put_param key (STR_VAL s) ps"
    using ParseStringValue_whole [OF laws t_string(3)]
    by (simp add: t_string AddParamToEventInfo_def AddParam_cases [OF laws] napi_simps [OF laws])
  then show ?thesis
    using typed_as.t_string t_string by blast
next
  case (t_long_string s t)
  have "AddParamToEventInfo na None key (Some v) ps = put_param key (STR_VAL (ParseStringValue na (Some (Js_string s)) [])) ps"
    by (simp add: t_long_string AddParamToEventInfo_def AddParam_cases [OF laws] napi_simps [OF laws])
  then show ?thesis
    using typed_as.t_long_string [OF t_long_string(3,4)] ParseStringValue_long [OF laws t_long_string(3,4)]
      t_long_string(1) by blast
next
  case (t_bools bs)
  then have "hd (map Js_boolean bs) = Js_boolean (hd bs)"
    by (simp add: hd_map)
  then have "AddParamToEventInfo na None key (Some v) ps = put_param key (BOOL_ARR bs) ps"
    using t_bools elements_array [OF laws, of "map Js_boolean bs"]
    by (simp add: read_array [OF laws] AppendBoolArrayData_def typed_def filter_map comp_def
        ParseBoolValue_def napi_simps [OF laws])
  then show ?thesis
    using typed_as.t_bools t_bools by blast
next
  case (t_strings ss)
  then have "hd (map Js_string ss) = Js_string (hd ss)"
    by (simp add: hd_map)
  moreover have "map (\<lambda>s. ParseStringValue na (Some (Js_string s)) []) ss = ss"
    using t_strings(4) by (intro map_idI) (simp add: ParseStringValue_whole [OF laws] list_all_iff)
  ultimately have "AddParamToEventInfo na None key (Some v) ps = put_param key (STR_ARR ss) ps"
    using t_strings elements_array [OF laws, of "map Js_string ss"]
    by (simp add: read_array [OF laws] AppendStringArrayData_def typed_def filter_map comp_def
        napi_simps [OF laws])
  then show ?thesis
    using typed_as.t_strings t_strings by blast
next
  case (t_ints "is" ds)
  then have ne: "ds \<noteq> []"
    by auto
  then have "hd (map Js_number ds) = Js_number (hd ds)"
    by (simp add: hd_map)
  then have "AddParamToEventInfo na None key (Some v) ps = put_param key (ints_param is) ps"
    using t_ints ne elements_array [OF laws, of "map Js_number ds"]
    by (simp add: read_array [OF laws] AppendNumberArrayData_def comp_def number_fold_ints [OF laws t_ints(4)] ints_param_def
        items_as_ints [unfolded map_map comp_def])
  then show ?thesis
    using typed_as.t_ints t_ints by blast
next
  case (t_bigints "is")
  then have "hd (map Js_bigint is) = Js_bigint (hd is)"
    by (simp add: hd_map)
  then have "AddParamToEventInfo na None key (Some v) ps = put_param key (ints_param is) ps"
    using t_bigints elements_array [OF laws, of "map Js_bigint is"]
      bigint_fold [OF laws t_bigints(4), of "(False, 0)" AS_U64_ARR "[]"]
    by (auto simp: read_array [OF laws] AppendBigIntArrayData_def comp_def ints_param_def
        items_as_ints [unfolded map_map comp_def])
  then show ?thesis
    using typed_as.t_bigints t_bigints by blast
next
  case (t_doubles ds as f bs es)
  then have "ds \<noteq> []"
    by simp
  then have "hd (map Js_number ds) = Js_number (hd ds)" "ds \<noteq> []"
    by (simp_all add: hd_map)
  moreover obtain es' where "list_all2 (\<lambda>d e. f64_rat e = f64_rat d) ds es'"
      "AppendNumberArrayData na None key (Js_array (map Js_number ds)) (length ds) ps = put_param key (DOUBLE_ARR es') ps"
    using read_doubles [OF laws t_doubles(3-6)] by blast
  ultimately show ?thesis
    using typed_as.t_doubles [OF t_doubles(3-6)] by (auto simp: t_doubles(1) read_array [OF laws])
qed

section \<open>Reading an event\<close>

lemma map_of_put_param [simp]: "map_of (put_param k p ps) = (map_of ps)(k \<mapsto> p)"
  by (induction k p ps rule: put_param.induct) (auto simp: fun_eq_iff)

lemma keys_put_param: "fst ` set (put_param k p ps) = insert k (fst ` set ps)"
  by (induction k p ps rule: put_param.induct) auto

lemma permuted_params:
  assumes m: "mset qs = mset ps" and d: "distinct (map fst ps)"
  shows "distinct (map fst qs)" "map_of qs = map_of ps"
proof -
  have "mset (map fst qs) = mset (map fst ps)"
    using m by simp
  then show "distinct (map fst qs)"
    using d by (metis mset_eq_imp_distinct_iff)
  then show "map_of qs = map_of ps"
    using map_of_inject_set [OF _ d] m by (metis set_mset_mset)
qed

lemma distinct_put_param: "distinct (map fst ps) \<Longrightarrow> distinct (map fst (put_param k p ps))"
  by (induction k p ps rule: put_param.induct) (auto simp: keys_put_param)

definition good_key :: "string \<Rightarrow> bool" where
  "good_key k \<longleftrightarrow> fits_buffer k \<and> CheckKeyTypeString k"

definition good_params :: "(string \<times> js_value) list \<Rightarrow> bool" where
  "good_params qs \<longleftrightarrow> distinct (map fst qs) \<and> (\<forall>(k, v) \<in> set qs. good_key k \<and> (\<exists>p. typed_as v p))"

lemma param_step_good:
  assumes "napi_laws na" "good_params qs" "map_of qs k = Some v"
  shows "\<exists>p. typed_as v p \<and> param_step na None (Js_object m qs) (Some (Js_string k)) ps = put_param k p ps"
proof -
  have kv: "(k, v) \<in> set qs"
    using assms(3) by (rule map_of_SomeD)
  then have k: "fits_buffer k" "CheckKeyTypeString k"
    using assms(2) by (auto simp: good_params_def good_key_def)
  obtain p0 where "typed_as v p0"
    using assms(2) kv by (auto simp: good_params_def)
  then obtain p where "typed_as v p" "AddParamToEventInfo na None k (Some v) ps = put_param k p ps"
    using AddParam_typed [OF assms(1)] by blast
  then show ?thesis
    using k assms(3)
    by (intro exI [of _ p]) (simp add: param_step_def napi_simps [OF assms(1)] ParseStringValue_whole [OF assms(1)]
        GetPropertyByName_def Let_def)
qed

lemma param_fold_good:
  assumes "napi_laws na" "good_params qs"
  shows "distinct ks \<Longrightarrow> set ks \<subseteq> fst ` set qs \<Longrightarrow> distinct (map fst ps) \<Longrightarrow>
    \<exists>ps'. fold (param_step na None (Js_object m qs)) (map (\<lambda>k. Some (Js_string k)) ks) ps = ps' \<and> distinct (map fst ps') \<and>
      (\<forall>k. if k \<in> set ks then rel_option typed_as (map_of qs k) (map_of ps' k) else map_of ps' k = map_of ps k)"
proof (induction ks arbitrary: ps)
  case (Cons k ks)
  then obtain v where v: "map_of qs k = Some v"
    by (metis insert_subset list.simps(15) map_of_eq_None_iff not_None_eq)
  then obtain p where p: "typed_as v p"
      "param_step na None (Js_object m qs) (Some (Js_string k)) ps = put_param k p ps"
    using param_step_good [OF assms] by blast
  obtain ps' where ps': "fold (param_step na None (Js_object m qs)) (map (\<lambda>k. Some (Js_string k)) ks) (put_param k p ps) = ps'"
      "distinct (map fst ps')"
      "\<forall>k'. if k' \<in> set ks then rel_option typed_as (map_of qs k') (map_of ps' k')
        else map_of ps' k' = map_of (put_param k p ps) k'"
    using Cons.IH [of "put_param k p ps"] Cons.prems distinct_put_param by auto
  moreover have "map_of ps' k = Some p"
    using ps'(3) Cons.prems(1) by (auto dest: spec [of _ k])
  ultimately show ?case
    using p v by (intro exI [of _ ps']) (auto split: if_splits)
qed simp

lemma params_read:
  assumes "napi_laws na" "good_params qs" "map_of os propertyName = Some (Js_object m qs)"
  shows "\<exists>ps. GetObjectTypeAttribute na None (Some (Js_object n os)) propertyName [] = ps \<and> distinct (map fst ps) \<and>
    (\<forall>k. rel_option typed_as (map_of qs k) (map_of ps k))"
proof -
  have "distinct (map fst qs)"
    using assms(2) by (simp add: good_params_def)
  then obtain ks where ks: "na_names na False (Js_object m qs) = Some (Js_array (map Js_string ks))" "distinct ks"
      "set ks = fst ` set qs"
    using napi_names [OF assms(1)] by blast
  obtain ps where ps: "fold (param_step na None (Js_object m qs)) (map (\<lambda>k. Some (Js_string k)) ks) [] = ps"
      "distinct (map fst ps)"
      "\<forall>k. if k \<in> set ks then rel_option typed_as (map_of qs k) (map_of ps k) else map_of ps k = map_of [] k"
    using param_fold_good [OF assms(1,2) ks(2), of "[]"] ks(3) by auto
  have "rel_option typed_as (map_of qs k) (map_of ps k)" for k
    using ps(3) ks(3) by (cases "k \<in> set ks") (auto simp: map_of_eq_None_iff dest: spec [of _ k])
  moreover have "GetObjectTypeAttribute na None (Some (Js_object n os)) propertyName [] = ps"
    using assms(3) ks(1) ps(1) elements_array [OF assms(1), of "map Js_string ks"]
    by (simp add: GetObjectTypeAttribute_def GetPropertyByName_def napi_simps [OF assms(1)] comp_def)
  ultimately show ?thesis
    using ps(2) by blast
qed

lemma string_attribute:
  assumes "napi_laws na" "map_of os a = Some (Js_string s)" "fits_buffer s"
  shows "GetStringTypeAttribute na (Some (Js_object n os)) a None = (None, s)"
  using assms by (simp add: GetStringTypeAttribute_def GetPropertyByName_def napi_simps ParseStringValue_whole Let_def)

lemma int32_attribute:
  assumes "napi_laws na" "map_of os a = Some (Js_number d)" "f64_rat d = Some (of_int i)" "- (2 ^ 31) \<le> i" "i < 2 ^ 31"
  shows "GetInt32TypeAttribute na (Some (Js_object n os)) a def None = (None, of_int i)"
  using assms
  by (simp add: GetInt32TypeAttribute_def GetPropertyByName_def napi_simps ParseInt32Value_def napi_int32 Let_def)

text \<open>The object of a well-formed event, and what is read from it.\<close>

definition event_object :: "js_value \<Rightarrow> string \<Rightarrow> string \<Rightarrow> int \<Rightarrow> (string \<times> js_value) list \<Rightarrow> bool" where
  "event_object v domain name eventType qs \<longleftrightarrow>
     (\<exists>n os d m. v = Js_object n os \<and>
        map_of os DOMAIN_ATTR = Some (Js_string domain) \<and> fits_buffer domain \<and>
        map_of os NAME_ATTR = Some (Js_string name) \<and> fits_buffer name \<and>
        map_of os EVENT_TYPE_ATTR = Some (Js_number d) \<and> f64_rat d = Some (of_int eventType) \<and>
        - (2 ^ 31) \<le> eventType \<and> eventType < 2 ^ 31 \<and>
        map_of os PARAMS_ATTR = Some (Js_object m qs) \<and> good_params qs)"

lemma event_read:
  assumes laws: "napi_laws na" and "event_object v domain name eventType qs"
  shows "\<exists>ps. ParseHiSysEventInfo na (v # rest) info_new None =
      (None, \<lparr>ei_domain = domain, ei_name = name, ei_eventType = eventType, ei_params = ps\<rparr>) \<and>
    distinct (map fst ps) \<and> (\<forall>k. rel_option typed_as (map_of qs k) (map_of ps k))"
proof -
  obtain n os d m where v: "v = Js_object n os"
      and o1: "map_of os DOMAIN_ATTR = Some (Js_string domain)" "fits_buffer domain"
      and o2: "map_of os NAME_ATTR = Some (Js_string name)" "fits_buffer name"
      and o3: "map_of os EVENT_TYPE_ATTR = Some (Js_number d)" "f64_rat d = Some (of_int eventType)"
        "- (2 ^ 31) \<le> eventType" "eventType < 2 ^ 31"
      and o4: "map_of os PARAMS_ATTR = Some (Js_object m qs)" "good_params qs"
    using assms(2) unfolding event_object_def by blast
  obtain ps where ps: "GetObjectTypeAttribute na None (Some (Js_object n os)) PARAMS_ATTR [] = ps" "distinct (map fst ps)"
      "\<forall>k. rel_option typed_as (map_of qs k) (map_of ps k)"
    using params_read [OF laws o4(2,1)] by blast
  have "sint (of_int eventType :: 32 word) = eventType"
    using o3(3,4) by (simp add: signed_of_int signed_take_bit_int_eq_self)
  then have "ParseHiSysEventInfo na (v # rest) info_new None =
      (None, \<lparr>ei_domain = domain, ei_name = name, ei_eventType = eventType, ei_params = ps\<rparr>)"
    using ps(1)
    by (simp add: ParseHiSysEventInfo_def v napi_simps [OF laws] string_attribute [OF laws o1] string_attribute [OF laws o2]
        int32_attribute [OF laws o3] info_new_def)
  then show ?thesis
    using ps(2,3) by blast
qed

section \<open>An engine\<close>

text \<open>An engine with the documented behaviour that refuses property access while an exception
  is pending.\<close>

definition plain_napi :: napi where
  "plain_napi =
     \<lparr>na_typeof = (\<lambda>v. Some (type_of v)),
      na_is_array = (\<lambda>v. Some (case v of Js_array _ \<Rightarrow> True | _ \<Rightarrow> False)),
      na_get_bool = (\<lambda>v. case v of Js_boolean b \<Rightarrow> Some b | _ \<Rightarrow> None),
      na_get_double = (\<lambda>v. case v of Js_number d \<Rightarrow> Some d | _ \<Rightarrow> None),
      na_get_int32 = (\<lambda>v. case v of
          Js_number d \<Rightarrow> Some (case f64_rat d of None \<Rightarrow> 0 | Some r \<Rightarrow> of_int (rat_trunc r)) | _ \<Rightarrow> None),
      na_get_int64 = (\<lambda>v. case v of Js_bigint i \<Rightarrow> Some (of_int i, - (2 ^ 63) \<le> i \<and> i < 2 ^ 63) | _ \<Rightarrow> None),
      na_get_uint64 = (\<lambda>v. case v of Js_bigint i \<Rightarrow> Some (of_int i, 0 \<le> i \<and> i < 2 ^ 64) | _ \<Rightarrow> None),
      na_get_utf8 = (\<lambda>v n. case v of Js_string s \<Rightarrow> Some (take (n - 1) s) | _ \<Rightarrow> None),
      na_length = (\<lambda>v. case v of Js_array vs \<Rightarrow> Some (length vs) | _ \<Rightarrow> None),
      na_property = (\<lambda>pend v k. if pend then None else case v of
          Js_object n ps \<Rightarrow> Some (case map_of ps k of None \<Rightarrow> Js_undefined | Some x \<Rightarrow> x)
        | Js_undefined \<Rightarrow> None | Js_null \<Rightarrow> None | _ \<Rightarrow> Some Js_undefined),
      na_names = (\<lambda>pend v. if pend then None else case v of
          Js_object n ps \<Rightarrow> Some (Js_array (map (\<lambda>kv. Js_string (fst kv)) ps)) | _ \<Rightarrow> None),
      na_element = (\<lambda>pend v i. if pend then None else case v of
          Js_array vs \<Rightarrow> Some (if i < length vs then vs ! i else Js_undefined) | _ \<Rightarrow> None),
      na_cast_i64 = (\<lambda>d. 0x8000000000000000), na_cast_u64 = (\<lambda>d. 0)\<rparr>"

lemma plain_napi_laws: "napi_laws plain_napi"
proof -
  have "utf8_laws plain_napi"
    by (auto simp: utf8_laws_def plain_napi_def take_is_prefix)
  moreover have "\<exists>ks. map (\<lambda>kv. Js_string (fst kv)) ps = map Js_string ks \<and> distinct ks \<and> set ks = fst ` set ps"
    if "distinct (map fst ps)" for ps :: "(string \<times> js_value) list"
    using that by (intro exI [of _ "map fst ps"]) (simp add: comp_def)
  ultimately show ?thesis
    by (simp add: napi_laws_def plain_napi_def)
qed

section \<open>Reading rules and arguments of a query\<close>

definition rule_valid :: "query_rule \<Rightarrow> bool" where
  "rule_valid rule \<longleftrightarrow> IsValidName (ql_domain rule) MAX_DOMAIN_LENGTH \<and>
     list_all (\<lambda>name. IsValidName name MAX_EVENT_NAME_LENGTH) (ql_eventList rule)"

text \<open>The object of a rule; a rule without condition has the empty one.\<close>

definition rule_object :: "js_value \<Rightarrow> query_rule \<Rightarrow> bool" where
  "rule_object v rule \<longleftrightarrow>
     (\<exists>n os. v = Js_object n os \<and>
        map_of os DOMAIN_ATTR = Some (Js_string (ql_domain rule)) \<and> fits_buffer (ql_domain rule) \<and>
        map_of os NAMES_ATTR = Some (Js_array (map Js_string (ql_eventList rule))) \<and>
        list_all fits_buffer (ql_eventList rule) \<and>
        (map_of os CONDITION_ATTR = Some (Js_string (ql_condition rule)) \<and> fits_buffer (ql_condition rule) \<or>
         map_of os CONDITION_ATTR = None \<and> ql_condition rule = []) \<and>
        ql_ruleType rule = WHOLE_WORD \<and> ql_eventType rule = 0)"

lemma strings_read:
  assumes laws: "napi_laws na" and "list_all fits_buffer ss"
  shows "ParseStringArray na None (Some (Js_array (map Js_string ss))) dest = dest @ ss"
proof -
  have "map (\<lambda>s. ParseStringValue na (Some (Js_string s)) []) ss = ss"
    using assms(2) by (intro map_idI) (simp add: ParseStringValue_whole [OF laws] list_all_iff)
  moreover have "takeWhile (\<lambda>el. \<exists>y. el = Some y) (map (\<lambda>s. Some (Js_string s)) ss) = map (\<lambda>s. Some (Js_string s)) ss"
    by (simp add: takeWhile_eq_all_conv)
  ultimately show ?thesis
    using elements_array [OF laws, of "map Js_string ss"]
    by (simp add: ParseStringArray_def AddParam_cases [OF laws] napi_simps [OF laws] filter_map comp_def
        del: takeWhile_eq_all_conv)
qed

lemma rule_read:
  assumes laws: "napi_laws na" and "rule_object v rule"
  shows "ParseQueryRule na (Some v) None = (None, rule)" "type_of v = napi_object"
proof -
  obtain n os where v: "v = Js_object n os"
      and dom: "map_of os DOMAIN_ATTR = Some (Js_string (ql_domain rule))" "fits_buffer (ql_domain rule)"
      and names: "map_of os NAMES_ATTR = Some (Js_array (map Js_string (ql_eventList rule)))"
        "list_all fits_buffer (ql_eventList rule)"
      and cond: "map_of os CONDITION_ATTR = Some (Js_string (ql_condition rule)) \<and> fits_buffer (ql_condition rule) \<or>
         map_of os CONDITION_ATTR = None \<and> ql_condition rule = []"
      and rest: "ql_ruleType rule = WHOLE_WORD" "ql_eventType rule = 0"
    using assms(2) unfolding rule_object_def by blast
  have "ParseStringValue na (GetPropertyByName na None (Some v) CONDITION_ATTR) [] = ql_condition rule"
    using cond ParseStringValue_whole [OF laws]
    by (auto simp: v GetPropertyByName_def napi_simps [OF laws] ParseStringValue_def)
  moreover have "ParseStringArray na None (GetPropertyByName na None (Some v) NAMES_ATTR) [] = ql_eventList rule"
    using names strings_read [OF laws] by (simp add: v GetPropertyByName_def napi_simps [OF laws])
  ultimately show "ParseQueryRule na (Some v) None = (None, rule)" "type_of v = napi_object"
    using rest string_attribute [OF laws dom]
    by (simp_all add: ParseQueryRule_def napi_simps [OF laws] QueryRule_new_def v Let_def)
qed

lemma valid_rule_passes: "rule_valid rule \<Longrightarrow> IsQueryRuleValid rule pend = (pend, True)"
  by (auto simp: rule_valid_def IsQueryRuleValid_def list_all_iff list_ex_iff)

lemma invalid_rule_throws: "\<not> rule_valid rule \<Longrightarrow> \<exists>err. IsQueryRuleValid rule None = (Some err, False)"
  by (auto simp: rule_valid_def IsQueryRuleValid_def list_all_iff list_ex_iff ThrowErrorByRet_def ThrowError_def
      split: prod.split)

lemma rules_loop_read:
  assumes laws: "napi_laws na"
  shows "list_all2 rule_object vs rules \<Longrightarrow> list_all rule_valid rules \<Longrightarrow>
    parse_rules_loop na (Js_array (us @ vs @ ws)) ([length us..<length us + length vs] @ is) acc None =
    parse_rules_loop na (Js_array (us @ vs @ ws)) is (acc @ rules) None"
proof (induction vs rules arbitrary: us acc rule: list_all2_induct)
  case (Cons v vs r rs)
  have "[length us..<length us + length (v # vs)] = length us # [length (us @ [v])..<length (us @ [v]) + length vs]"
    by (subst upt_conv_Cons) simp_all
  then show ?case
    using Cons rule_read [OF laws Cons.hyps(1)] Cons.IH [of "us @ [v]" "acc @ [r]"]
    by (simp add: napi_simps [OF laws] valid_rule_passes)
qed simp

lemma rules_array_ready:
  assumes "napi_laws na"
  shows "rules_array na (Some (Js_array vs)) err None = Inr (Js_array vs, length vs)"
  by (simp add: rules_array_def AddParam_cases [OF assms] napi_simps [OF assms])

lemma rules_read:
  assumes laws: "napi_laws na" and "list_all2 rule_object vs rules" "list_all rule_valid rules"
  shows "ParseQueryRules na (Some (Js_array vs)) [] None = (None, NAPI_SUCCESS, rules)"
  using rules_loop_read [OF laws assms(2,3), of "[]" "[]" "[]" "[]"]
  by (simp add: ParseQueryRules_def rules_array_ready [OF laws])

text \<open>A rule with an invalid name throws, and is left out; when it is the last one the others
  are still returned with success, whatever the engine does while an exception is pending.\<close>

lemma invalid_last_rule_dropped:
  assumes laws: "napi_laws na" and "list_all2 rule_object vs rules" "list_all rule_valid rules"
    and "rule_object v rule" "\<not> rule_valid rule"
  shows "\<exists>err. ParseQueryRules na (Some (Js_array (vs @ [v]))) [] None = (Some err, NAPI_SUCCESS, rules)"
proof -
  obtain err where err: "IsQueryRuleValid rule None = (Some err, False)"
    using invalid_rule_throws [OF assms(5)] by blast
  have "[0..<length (vs @ [v])] = [length []..<length [] + length vs] @ [length vs]"
    by simp
  then have "ParseQueryRules na (Some (Js_array (vs @ [v]))) [] None = (Some err, NAPI_SUCCESS, rules)"
    using rules_loop_read [OF laws assms(2,3), of "[]" "[v]" "[length vs]" "[]"] rule_read [OF laws assms(4)] err
    by (simp add: ParseQueryRules_def rules_array_ready [OF laws] napi_simps [OF laws] nth_append)
  then show ?thesis
    by blast
qed

text \<open>The object of the arguments: times as numbers or big integers.\<close>

fun js_integer :: "js_value \<Rightarrow> int \<Rightarrow> bool" where
  "js_integer (Js_number d) i \<longleftrightarrow> num_int d i"
| "js_integer (Js_bigint j) i \<longleftrightarrow> j = i \<and> - (2 ^ 63) \<le> i \<and> i < 2 ^ 63"
| "js_integer _ i \<longleftrightarrow> False"

lemma longlong_read: "napi_laws na \<Longrightarrow> js_integer v i \<Longrightarrow> GetLonglongTypeAttribute na (Some v) def = of_int i"
  by (cases v) (simp_all add: GetLonglongTypeAttribute_def napi_simps ParseNumberValue_def num_int_values
      ParseSignedBigIntValue_def)

definition arg_object :: "js_value \<Rightarrow> int \<Rightarrow> int \<Rightarrow> int \<Rightarrow> bool" where
  "arg_object v b e m \<longleftrightarrow>
     (\<exists>n os bv ev d. v = Js_object n os \<and>
        map_of os BEGIN_TIME_ATTR = Some bv \<and> js_integer bv b \<and>
        map_of os END_TIME_ATTR = Some ev \<and> js_integer ev e \<and>
        map_of os MAX_EVENTS_ATTR = Some (Js_number d) \<and> f64_rat d = Some (of_int m) \<and> - (2 ^ 31) \<le> m \<and> m < 2 ^ 31 \<and>
        map_of os BEGIN_SEQ_ATTR = None \<and> map_of os END_SEQ_ATTR = None)"

lemma js_integer_type: "js_integer v i \<Longrightarrow> type_of v = napi_number \<or> type_of v = napi_bigint"
  by (cases v) auto

lemma js_integer_range: "js_integer v i \<Longrightarrow> - (2 ^ 63) \<le> i \<and> i < 2 ^ 63"
  by (cases v) (auto simp: num_int_def)

lemma arg_read:
  assumes laws: "napi_laws na" and "arg_object v b e m"
  shows "ParseQueryArg na (Some v) arg None = (None, NAPI_SUCCESS,
    \<lparr>ar_beginTime = of_int (if b < 0 then 0 else b), ar_endTime = of_int (if e < 0 then 2 ^ 63 - 1 else e),
     ar_maxEvents = of_int (if m < 0 then 2 ^ 31 - 1 else m), ar_fromSeq = 0, ar_toSeq = 0\<rparr>)"
proof -
  obtain n os bv ev d where v: "v = Js_object n os"
      and b: "map_of os BEGIN_TIME_ATTR = Some bv" "js_integer bv b"
      and e: "map_of os END_TIME_ATTR = Some ev" "js_integer ev e"
      and m: "map_of os MAX_EVENTS_ATTR = Some (Js_number d)" "f64_rat d = Some (of_int m)" "- (2 ^ 31) \<le> m" "m < 2 ^ 31"
      and s: "map_of os BEGIN_SEQ_ATTR = None" "map_of os END_SEQ_ATTR = None"
    using assms(2) unfolding arg_object_def by blast
  have range: "- (2 ^ 63) \<le> b \<and> b < 2 ^ 63" "- (2 ^ 63) \<le> e \<and> e < 2 ^ 63"
    using js_integer_range b(2) e(2) by blast+
  have neg: "(of_int b :: 64 word) <s 0 \<longleftrightarrow> b < 0" "(of_int e :: 64 word) <s 0 \<longleftrightarrow> e < 0" "(of_int m :: 32 word) <s 0 \<longleftrightarrow> m < 0"
    using range m(3,4) by (simp_all add: word_sless_alt sint_of_int signed_of_int signed_take_bit_int_eq_self)
  have "GetLonglongTypeAttribute na (Some Js_undefined) DEFAULT_SEQ = 0"
    by (simp add: GetLonglongTypeAttribute_def napi_simps [OF laws] DEFAULT_SEQ_def)
  then show ?thesis
    using js_integer_type [OF b(2)] js_integer_type [OF e(2)] s
    by (auto simp: ParseQueryArg_def napi_simps [OF laws] v GetPropertyByName_def b(1) e(1) IsNullOrUndefined_def
        longlong_read [OF laws b(2)] longlong_read [OF laws e(2)] int32_attribute [OF laws m] neg Let_def)
qed

section \<open>Surprises\<close>

text \<open>A negative integer behind a fraction is cast to an unsigned type, which it does not fit.\<close>

lemma negative_behind_fraction:
  assumes "napi_laws na" "num_int d i" "i < 0"
  shows "number_step na (Some (Js_number d)) (AS_DOUBLE_ARR, acc) =
    (AS_DOUBLE_ARR, acc @ [U64_ITEM (na_cast_u64 na d)])"
proof -
  have "f64_to_u64 (na_cast_u64 na) d = na_cast_u64 na d"
    using assms(2,3) by (simp add: f64_to_u64_def num_int_def)
  then show ?thesis
    using num_int_values [OF assms(2)] assms(3)
    by (simp add: number_step_def typed_def napi_simps [OF assms(1)] ParseNumberValue_def Let_def)
qed

text \<open>An event type that is no number throws, and yet the event is read, as a fault.\<close>

lemma wrong_type_is_fault:
  assumes laws: "napi_laws na" and "map_of os DOMAIN_ATTR = Some (Js_string domain)" "fits_buffer domain"
    and "map_of os NAME_ATTR = Some (Js_string name)" "fits_buffer name"
    and "map_of os EVENT_TYPE_ATTR = Some (Js_string t)"
  shows "\<exists>ps. ParseHiSysEventInfo na (Js_object n os # rest) info_new None =
    (ThrowParamTypeError EVENT_TYPE_ATTR ''number'' None,
     \<lparr>ei_domain = domain, ei_name = name, ei_eventType = 1, ei_params = ps\<rparr>)"
proof -
  have "GetInt32TypeAttribute na (Some (Js_object n os)) EVENT_TYPE_ATTR FAULT_TYPE None =
      (ThrowParamTypeError EVENT_TYPE_ATTR ''number'' None, FAULT_TYPE)"
    using assms(6) by (simp add: GetInt32TypeAttribute_def GetPropertyByName_def napi_simps [OF laws])
  then show ?thesis
    by (simp add: ParseHiSysEventInfo_def napi_simps [OF laws] string_attribute [OF laws assms(2,3)]
        string_attribute [OF laws assms(4,5)] info_new_def FAULT_TYPE_def)
qed

end
