(* ===== verification/JsEvent.thy ===== *)
theory JsEvent
  imports JsValue EventValue
begin

text \<open>
  Showing an event to JavaScript (napi_hisysevent_util.cpp): the text of an event is parsed,
  and an object with domain, name, type and parameters is built from it. The JSON library and
  the engine's functions that create values are parameters; \<open>json_views\<close> and \<open>maker_laws\<close> are
  their documented behaviour, over the JSON values and the JavaScript values as data. The
  theory shows what the object of an event holds.
\<close>

section \<open>Creating values\<close>

text \<open>
  Creating a value succeeds; setting a member may fail (\<open>None\<close>), which is only logged. The test
  for a boolean comes with its conversion \<open>asBool\<close>, which the record readers do not need.
\<close>

record js_maker =
  mk_boolean :: "bool \<Rightarrow> js_value"
  mk_double :: "64 word \<Rightarrow> js_value"
  mk_int32 :: "32 word \<Rightarrow> js_value"
  mk_uint32 :: "32 word \<Rightarrow> js_value"
  mk_bigint_int64 :: "64 word \<Rightarrow> js_value"
  mk_bigint_uint64 :: "64 word \<Rightarrow> js_value"
  mk_string_utf8 :: "string \<Rightarrow> js_value"
  mk_object :: js_value
  mk_array_with_length :: "nat \<Rightarrow> js_value"
  mk_set_named_property :: "js_value \<Rightarrow> string \<Rightarrow> js_value \<Rightarrow> js_value option"
  mk_set_element :: "js_value \<Rightarrow> nat \<Rightarrow> js_value \<Rightarrow> js_value option"

definition CreateBoolValue :: "js_maker \<Rightarrow> bool \<Rightarrow> js_value" where
  "CreateBoolValue mk v = mk_boolean mk v"

definition CreateDoubleValue :: "js_maker \<Rightarrow> 64 word \<Rightarrow> js_value" where
  "CreateDoubleValue mk v = mk_double mk v"

definition CreateInt32Value :: "js_maker \<Rightarrow> 32 word \<Rightarrow> js_value" where
  "CreateInt32Value mk v = mk_int32 mk v"

definition CreateUint32Value :: "js_maker \<Rightarrow> 32 word \<Rightarrow> js_value" where
  "CreateUint32Value mk v = mk_uint32 mk v"

definition CreateInt64Value :: "js_maker \<Rightarrow> 64 word \<Rightarrow> js_value" where
  "CreateInt64Value mk v = mk_bigint_int64 mk v"

definition CreateUInt64Value :: "js_maker \<Rightarrow> 64 word \<Rightarrow> js_value" where
  "CreateUInt64Value mk v = mk_bigint_uint64 mk v"

text \<open>The engine gets the text as a C string.\<close>

definition CreateStringValue :: "js_maker \<Rightarrow> string \<Rightarrow> js_value" where
  "CreateStringValue mk v = mk_string_utf8 mk (takeWhile (\<lambda>c. c \<noteq> CHR 0x00) v)"

definition SetNamedProperty :: "js_maker \<Rightarrow> js_value \<Rightarrow> string \<Rightarrow> js_value \<Rightarrow> js_value" where
  "SetNamedProperty mk obj propertyName propertyValue =
     (case mk_set_named_property mk obj (takeWhile (\<lambda>c. c \<noteq> CHR 0x00) propertyName) propertyValue of
        None \<Rightarrow> obj
      | Some obj' \<Rightarrow> obj')"

definition AppendStringPropertyToJsObject :: "js_maker \<Rightarrow> string \<Rightarrow> string \<Rightarrow> js_value \<Rightarrow> js_value" where
  "AppendStringPropertyToJsObject mk key v jsObj = SetNamedProperty mk jsObj key (CreateStringValue mk v)"

definition AppendInt32PropertyToJsObject :: "js_maker \<Rightarrow> string \<Rightarrow> 32 word \<Rightarrow> js_value \<Rightarrow> js_value" where
  "AppendInt32PropertyToJsObject mk key v jsObj = SetNamedProperty mk jsObj key (CreateInt32Value mk v)"

section \<open>From JSON to JavaScript\<close>

definition DOMAIN__KEY :: string where "DOMAIN__KEY = ''domain_''"
definition NAME__KEY :: string where "NAME__KEY = ''name_''"
definition TYPE__KEY :: string where "TYPE__KEY = ''type_''"

lemmas key_defs = DOMAIN__KEY_def NAME__KEY_def TYPE__KEY_def

definition IsBaseInfoKey :: "string \<Rightarrow> bool" where
  "IsBaseInfoKey propertyName \<longleftrightarrow>
     propertyName = DOMAIN__KEY \<or> propertyName = NAME__KEY \<or> propertyName = TYPE__KEY"

definition TranslateKeyToAttrName :: "string \<Rightarrow> string" where
  "TranslateKeyToAttrName key =
     (if key = DOMAIN__KEY then DOMAIN_ATTR
      else if key = NAME__KEY then NAME_ATTR
      else if key = TYPE__KEY then EVENT_TYPE_ATTR
      else [])"

text \<open>The result \<open>None\<close> of a function is an exception of the JSON library.\<close>

definition AppendBaseInfo :: "js_maker \<Rightarrow> 'j jsoncpp \<Rightarrow> js_value \<Rightarrow> string \<Rightarrow> 'j \<Rightarrow> js_value option" where
  "AppendBaseInfo mk jc sysEventInfo key v =
     (case (if (key = DOMAIN__KEY \<or> key = NAME__KEY) \<and> jc_isString jc v
            then map_option (\<lambda>s. AppendStringPropertyToJsObject mk (TranslateKeyToAttrName key) s sysEventInfo) (jc_asString jc v)
            else Some sysEventInfo) of
        None \<Rightarrow> None
      | Some obj1 \<Rightarrow>
          if key = TYPE__KEY \<and> jc_isInt jc v
          then map_option (\<lambda>i. AppendInt32PropertyToJsObject mk (TranslateKeyToAttrName key) i obj1) (jc_asInt jc v)
          else Some obj1)"

text \<open>The inner \<open>None\<close> is the result false, with no value.\<close>

definition CreateParamItemTypeValue ::
  "js_maker \<Rightarrow> ('j \<Rightarrow> bool option) \<Rightarrow> 'j jsoncpp \<Rightarrow> 'j \<Rightarrow> js_value option option" where
  "CreateParamItemTypeValue mk asBool jc v =
     (if jc_isBool jc v then map_option (\<lambda>b. Some (CreateBoolValue mk b)) (asBool v)
      else if jc_isInt jc v then map_option (\<lambda>i. Some (CreateInt32Value mk i)) (jc_asInt jc v)
      else if jc_isUInt jc v then map_option (\<lambda>i. Some (CreateUint32Value mk i)) (jc_asUInt jc v)
      else if jc_isInt64 jc v \<and> jc_type jc v \<noteq> uintValue
      then map_option (\<lambda>i. Some (CreateInt64Value mk i)) (jc_asInt64 jc v)
      else if jc_isUInt64 jc v \<and> jc_type jc v \<noteq> intValue
      then map_option (\<lambda>i. Some (CreateUInt64Value mk i)) (jc_asUInt64 jc v)
      else if jc_isDouble jc v then map_option (\<lambda>d. Some (CreateDoubleValue mk d)) (jc_asDouble jc v)
      else if jc_isString jc v then map_option (\<lambda>s. Some (CreateStringValue mk s)) (jc_asString jc v)
      else Some None)"

primrec array_params_loop ::
  "js_maker \<Rightarrow> ('j \<Rightarrow> bool option) \<Rightarrow> 'j jsoncpp \<Rightarrow> 'j \<Rightarrow> nat list \<Rightarrow> js_value \<Rightarrow> js_value option" where
  "array_params_loop mk asBool jc v [] array = Some array"
| "array_params_loop mk asBool jc v (i # is) array =
     (case CreateParamItemTypeValue mk asBool jc (jc_index jc v i) of
        None \<Rightarrow> None
      | Some None \<Rightarrow> array_params_loop mk asBool jc v is array
      | Some (Some item) \<Rightarrow>
          array_params_loop mk asBool jc v is
            (case mk_set_element mk array i item of None \<Rightarrow> array | Some array' \<Rightarrow> array'))"

definition AppendArrayParams ::
  "js_maker \<Rightarrow> ('j \<Rightarrow> bool option) \<Rightarrow> 'j jsoncpp \<Rightarrow> js_value \<Rightarrow> string \<Rightarrow> 'j \<Rightarrow> js_value option" where
  "AppendArrayParams mk asBool jc params key v =
     (let len = jc_size jc v in
      map_option (\<lambda>array. SetNamedProperty mk params key array)
        (array_params_loop mk asBool jc v [0..<len] (mk_array_with_length mk len)))"

definition AppendParamsInfo ::
  "js_maker \<Rightarrow> ('j \<Rightarrow> bool option) \<Rightarrow> 'j jsoncpp \<Rightarrow> js_value \<Rightarrow> string \<Rightarrow> 'j \<Rightarrow> js_value option" where
  "AppendParamsInfo mk asBool jc params key v =
     (if jc_isArray jc v then AppendArrayParams mk asBool jc params key v
      else case CreateParamItemTypeValue mk asBool jc v of
        None \<Rightarrow> None
      | Some None \<Rightarrow> Some params
      | Some (Some property) \<Rightarrow> Some (SetNamedProperty mk params key property))"

primrec event_members_loop ::
  "js_maker \<Rightarrow> ('j \<Rightarrow> bool option) \<Rightarrow> 'j jsoncpp \<Rightarrow> 'j \<Rightarrow> string list \<Rightarrow> js_value \<times> js_value \<Rightarrow> (js_value \<times> js_value) option" where
  "event_members_loop mk asBool jc eventJson [] st = Some st"
| "event_members_loop mk asBool jc eventJson (propertyName # names) st =
     (case st of (sysEventInfo, params) \<Rightarrow>
        if IsBaseInfoKey propertyName
        then (case AppendBaseInfo mk jc sysEventInfo propertyName (jc_member jc eventJson propertyName) of
            None \<Rightarrow> None
          | Some info' \<Rightarrow> event_members_loop mk asBool jc eventJson names (info', params))
        else (case AppendParamsInfo mk asBool jc params propertyName (jc_member jc eventJson propertyName) of
            None \<Rightarrow> None
          | Some params' \<Rightarrow> event_members_loop mk asBool jc eventJson names (sysEventInfo, params')))"

text \<open>\<open>sysEventInfo\<close> is what the variable holds before; it keeps it when the text is no object.\<close>

definition CreateHiSysEventInfoJsObject ::
  "js_maker \<Rightarrow> ('j \<Rightarrow> bool option) \<Rightarrow> 'j jsoncpp \<Rightarrow> string \<Rightarrow> js_value option \<Rightarrow> js_value option option" where
  "CreateHiSysEventInfoJsObject mk asBool jc jsonStr sysEventInfo =
     (case jc_parse jc jsonStr of (ok, eventJson) \<Rightarrow>
        if \<not> ok then Some sysEventInfo
        else if \<not> jc_isObject jc eventJson then Some sysEventInfo
        else map_option (\<lambda>st. Some (SetNamedProperty mk (fst st) PARAMS_ATTR (snd st)))
          (event_members_loop mk asBool jc eventJson (jc_names jc eventJson) (mk_object mk, mk_object mk)))"

text \<open>\<open>uninit\<close> is what the uninitialised variable of a turn of the loop holds.\<close>

primrec event_array_loop ::
  "js_maker \<Rightarrow> ('j \<Rightarrow> bool option) \<Rightarrow> 'j jsoncpp \<Rightarrow> (nat \<Rightarrow> js_value option) \<Rightarrow> string list \<Rightarrow> nat \<Rightarrow> js_value \<Rightarrow>
   js_value option" where
  "event_array_loop mk asBool jc uninit [] i array = Some array"
| "event_array_loop mk asBool jc uninit (s # originValues) i array =
     (case CreateHiSysEventInfoJsObject mk asBool jc s (uninit i) of
        None \<Rightarrow> None
      | Some item \<Rightarrow>
          event_array_loop mk asBool jc uninit originValues (i + 1)
            (case Option.bind item (mk_set_element mk array i) of None \<Rightarrow> array | Some array' \<Rightarrow> array'))"

definition CreateJsSysEventInfoArray ::
  "js_maker \<Rightarrow> ('j \<Rightarrow> bool option) \<Rightarrow> 'j jsoncpp \<Rightarrow> (nat \<Rightarrow> js_value option) \<Rightarrow> string list \<Rightarrow> js_value \<Rightarrow> js_value option" where
  "CreateJsSysEventInfoArray mk asBool jc uninit originValues array =
     event_array_loop mk asBool jc uninit originValues 0 array"

section \<open>The documented behaviour of library and engine\<close>

text \<open>The integer that a JSON number stands for; a number may be written as a real.\<close>

fun json_integral :: "json \<Rightarrow> int option" where
  "json_integral (JInt i) = Some i"
| "json_integral (JReal d) =
     (case f64_rat d of None \<Rightarrow> None | Some v \<Rightarrow> if v = of_int (rat_trunc v) then Some (rat_trunc v) else None)"
| "json_integral v = None"

definition integral_in :: "json \<Rightarrow> int \<Rightarrow> int \<Rightarrow> bool" where
  "integral_in v mn mx \<longleftrightarrow> (case json_integral v of None \<Rightarrow> False | Some i \<Rightarrow> mn \<le> i \<and> i \<le> mx)"

text \<open>
  \<open>view\<close> reads a value of the library as data: the tests are those of the data, and a value that
  passes a test converts to its content. Integers are of an integer type that holds them.
\<close>

definition scalar_views :: "'j jsoncpp \<Rightarrow> ('j \<Rightarrow> bool option) \<Rightarrow> ('j \<Rightarrow> json) \<Rightarrow> bool" where
  "scalar_views jc asBool view \<longleftrightarrow>
     (\<forall>v. jc_isBool jc v \<longleftrightarrow> (\<exists>b. view v = JBool b)) \<and>
     (\<forall>v b. view v = JBool b \<longrightarrow> asBool v = Some b) \<and>
     (\<forall>v. jc_isInt jc v \<longleftrightarrow> integral_in (view v) (- (2 ^ 31)) (2 ^ 31 - 1)) \<and>
     (\<forall>v. jc_isUInt jc v \<longleftrightarrow> integral_in (view v) 0 (2 ^ 32 - 1)) \<and>
     (\<forall>v. jc_isInt64 jc v \<longleftrightarrow> integral_in (view v) (- (2 ^ 63)) (2 ^ 63 - 1)) \<and>
     (\<forall>v. jc_isUInt64 jc v \<longleftrightarrow> integral_in (view v) 0 (2 ^ 64 - 1)) \<and>
     (\<forall>v i. json_integral (view v) = Some i \<longrightarrow>
        (jc_isInt jc v \<longrightarrow> jc_asInt jc v = Some (of_int i)) \<and> (jc_isUInt jc v \<longrightarrow> jc_asUInt jc v = Some (of_int i)) \<and>
        (jc_isInt64 jc v \<longrightarrow> jc_asInt64 jc v = Some (of_int i)) \<and> (jc_isUInt64 jc v \<longrightarrow> jc_asUInt64 jc v = Some (of_int i))) \<and>
     (\<forall>v i. view v = JInt i \<longrightarrow> jc_type jc v = intValue \<and> - (2 ^ 63) \<le> i \<and> i < 2 ^ 63 \<or>
        jc_type jc v = uintValue \<and> 0 \<le> i \<and> i < 2 ^ 64) \<and>
     (\<forall>v d. view v = JReal d \<longrightarrow> jc_type jc v = realValue \<and> jc_asDouble jc v = Some d) \<and>
     (\<forall>v. jc_isDouble jc v \<longleftrightarrow> (\<exists>i. view v = JInt i) \<or> (\<exists>d. view v = JReal d)) \<and>
     (\<forall>v. jc_isString jc v \<longleftrightarrow> (\<exists>s. view v = JStr s)) \<and>
     (\<forall>v s. view v = JStr s \<longrightarrow> jc_asString jc v = Some s)"

definition json_views :: "'j jsoncpp \<Rightarrow> ('j \<Rightarrow> bool option) \<Rightarrow> ('j \<Rightarrow> json) \<Rightarrow> bool" where
  "json_views jc asBool view \<longleftrightarrow>
     scalar_views jc asBool view \<and>
     (\<forall>v. jc_isArray jc v \<longleftrightarrow> (\<exists>xs. view v = JArr xs)) \<and>
     (\<forall>v xs. view v = JArr xs \<longrightarrow> jc_size jc v = length xs \<and> (\<forall>i < length xs. view (jc_index jc v i) = xs ! i)) \<and>
     (\<forall>v. jc_isObject jc v \<longleftrightarrow> (\<exists>kvs. view v = JObj kvs)) \<and>
     (\<forall>v kvs. view v = JObj kvs \<longrightarrow> distinct (jc_names jc v) \<and> set (jc_names jc v) = fst ` set kvs \<and>
        (\<forall>k x. map_of kvs k = Some x \<longrightarrow> view (jc_member jc v k) = x))"

fun put_prop :: "string \<Rightarrow> js_value \<Rightarrow> (string \<times> js_value) list \<Rightarrow> (string \<times> js_value) list" where
  "put_prop key v [] = [(key, v)]"
| "put_prop key v (kv # ps) = (if fst kv = key then (key, v) # ps else kv # put_prop key v ps)"

definition maker_laws :: "js_maker \<Rightarrow> bool" where
  "maker_laws mk \<longleftrightarrow>
     (\<forall>b. mk_boolean mk b = Js_boolean b) \<and>
     (\<forall>d. mk_double mk d = Js_number d) \<and>
     (\<forall>i. mk_int32 mk i = Js_number (f64_of_int (sint i))) \<and>
     (\<forall>i. mk_uint32 mk i = Js_number (f64_of_int (uint i))) \<and>
     (\<forall>i. mk_bigint_int64 mk i = Js_bigint (sint i)) \<and>
     (\<forall>i. mk_bigint_uint64 mk i = Js_bigint (uint i)) \<and>
     (\<forall>s. mk_string_utf8 mk s = Js_string s) \<and>
     (\<exists>n. mk_object mk = Js_object n []) \<and>
     (\<forall>n. mk_array_with_length mk n = Js_array (replicate n Js_undefined)) \<and>
     (\<forall>n ps k v. mk_set_named_property mk (Js_object n ps) k v = Some (Js_object n (put_prop k v ps))) \<and>
     (\<forall>vs i v. i < length vs \<longrightarrow> mk_set_element mk (Js_array vs) i v = Some (Js_array (vs[i := v])))"

section \<open>What is shown\<close>

text \<open>
  An integer of at most 32 bits, also one written as a real, becomes a number, a longer one of
  at most 64 bits a big integer; every other real stays the number it is.
\<close>

definition integer_shown :: "int \<Rightarrow> js_value option" where
  "integer_shown i =
     (if - (2 ^ 31) \<le> i \<and> i < 2 ^ 32 then Some (Js_number (f64_of_int i))
      else if - (2 ^ 63) \<le> i \<and> i < 2 ^ 64 then Some (Js_bigint i)
      else None)"

fun scalar_shown :: "json \<Rightarrow> js_value option" where
  "scalar_shown (JBool b) = Some (Js_boolean b)"
| "scalar_shown (JStr s) = Some (Js_string (cut_at_nul s))"
| "scalar_shown (JInt i) = integer_shown i"
| "scalar_shown (JReal d) =
     (case Option.bind (json_integral (JReal d)) integer_shown of None \<Rightarrow> Some (Js_number d) | Some x \<Rightarrow> Some x)"
| "scalar_shown v = None"

fun param_shown :: "json \<Rightarrow> js_value option" where
  "param_shown (JArr xs) =
     Some (Js_array (map (\<lambda>x. case scalar_shown x of None \<Rightarrow> Js_undefined | Some y \<Rightarrow> y) xs))"
| "param_shown v = scalar_shown v"

definition text_shown :: "json \<Rightarrow> js_value option" where
  "text_shown v = (case v of JStr s \<Rightarrow> scalar_shown v | _ \<Rightarrow> None)"

definition int32_shown :: "json \<Rightarrow> js_value option" where
  "int32_shown v = (if integral_in v (- (2 ^ 31)) (2 ^ 31 - 1) then scalar_shown v else None)"

definition base_shown :: "string \<Rightarrow> json \<Rightarrow> js_value option" where
  "base_shown key v = (if key = TYPE__KEY then int32_shown v else text_shown v)"

lemma CreateStringValue_shown:
  "maker_laws mk \<Longrightarrow> CreateStringValue mk s = Js_string (cut_at_nul s)"
  by (simp add: CreateStringValue_def cut_at_nul_def maker_laws_def)

lemma SetNamedProperty_object:
  assumes "maker_laws mk" "CHR 0x00 \<notin> set k"
  shows "SetNamedProperty mk (Js_object n ps) k v = Js_object n (put_prop k v ps)"
proof -
  have "takeWhile (\<lambda>c. c \<noteq> CHR 0x00) k = k"
    using assms(2) by (auto simp: takeWhile_eq_all_conv)
  then show ?thesis
    using assms(1) by (simp add: SetNamedProperty_def maker_laws_def del: takeWhile_eq_all_conv)
qed

lemma map_of_put_prop [simp]:
  "map_of (put_prop k v ps) = (map_of ps)(k \<mapsto> v)"
  by (induction k v ps rule: put_prop.induct) (auto simp: fun_eq_iff)

lemma sint_of_int_32: "- (2 ^ 31) \<le> i \<Longrightarrow> i < 2 ^ 31 \<Longrightarrow> sint (of_int i :: 32 word) = i"
  by (simp add: signed_of_int signed_take_bit_int_eq_self)

lemma uint_of_int_32: "0 \<le> i \<Longrightarrow> i < 2 ^ 32 \<Longrightarrow> uint (of_int i :: 32 word) = i"
  by (simp add: unsigned_of_int take_bit_int_eq_self)

lemma uint_of_int_64: "0 \<le> i \<Longrightarrow> i < 2 ^ 64 \<Longrightarrow> uint (of_int i :: 64 word) = i"
  by (simp add: unsigned_of_int take_bit_int_eq_self)

lemma scalar_viewsD:
  assumes "scalar_views jc asBool view"
  shows "jc_isBool jc v \<longleftrightarrow> (\<exists>b. view v = JBool b)"
    "view v = JBool b \<Longrightarrow> asBool v = Some b"
    "jc_isInt jc v \<longleftrightarrow> integral_in (view v) (- (2 ^ 31)) (2 ^ 31 - 1)"
    "jc_isUInt jc v \<longleftrightarrow> integral_in (view v) 0 (2 ^ 32 - 1)"
    "jc_isInt64 jc v \<longleftrightarrow> integral_in (view v) (- (2 ^ 63)) (2 ^ 63 - 1)"
    "jc_isUInt64 jc v \<longleftrightarrow> integral_in (view v) 0 (2 ^ 64 - 1)"
    "json_integral (view v) = Some i \<Longrightarrow> jc_isInt jc v \<Longrightarrow> jc_asInt jc v = Some (of_int i)"
    "json_integral (view v) = Some i \<Longrightarrow> jc_isUInt jc v \<Longrightarrow> jc_asUInt jc v = Some (of_int i)"
    "json_integral (view v) = Some i \<Longrightarrow> jc_isInt64 jc v \<Longrightarrow> jc_asInt64 jc v = Some (of_int i)"
    "json_integral (view v) = Some i \<Longrightarrow> jc_isUInt64 jc v \<Longrightarrow> jc_asUInt64 jc v = Some (of_int i)"
    "view v = JInt i \<Longrightarrow> jc_type jc v = intValue \<and> - (2 ^ 63) \<le> i \<and> i < 2 ^ 63 \<or>
        jc_type jc v = uintValue \<and> 0 \<le> i \<and> i < 2 ^ 64"
    "view v = JReal d \<Longrightarrow> jc_type jc v = realValue"
    "view v = JReal d \<Longrightarrow> jc_asDouble jc v = Some d"
    "jc_isDouble jc v \<longleftrightarrow> (\<exists>i. view v = JInt i) \<or> (\<exists>d. view v = JReal d)"
    "jc_isString jc v \<longleftrightarrow> (\<exists>s. view v = JStr s)"
    "view v = JStr s \<Longrightarrow> jc_asString jc v = Some s"
  using assms by (simp_all add: scalar_views_def)

lemma make_integer:
  assumes sv: "scalar_views jc asBool view" and mk: "maker_laws mk"
    and i: "json_integral (view v) = Some i"
    and ty: "view v = JInt i \<or> (\<exists>d. view v = JReal d)"
    and fits: "- (2 ^ 63) \<le> i" "i < 2 ^ 64"
  shows "CreateParamItemTypeValue mk asBool jc v = Some (integer_shown i)"
proof -
  have nb: "\<not> jc_isBool jc v"
    using ty by (auto simp: scalar_viewsD(1) [OF sv])
  have tests: "jc_isInt jc v \<longleftrightarrow> - (2 ^ 31) \<le> i \<and> i < 2 ^ 31" "jc_isUInt jc v \<longleftrightarrow> 0 \<le> i \<and> i < 2 ^ 32"
    "jc_isInt64 jc v \<longleftrightarrow> i < 2 ^ 63" "jc_isUInt64 jc v \<longleftrightarrow> 0 \<le> i"
    using i fits by (auto simp: scalar_viewsD(3-6) [OF sv] integral_in_def)
  have made: "jc_isInt jc v \<Longrightarrow> jc_asInt jc v = Some (of_int i)" "jc_isUInt jc v \<Longrightarrow> jc_asUInt jc v = Some (of_int i)"
    "jc_isInt64 jc v \<Longrightarrow> jc_asInt64 jc v = Some (of_int i)" "jc_isUInt64 jc v \<Longrightarrow> jc_asUInt64 jc v = Some (of_int i)"
    using scalar_viewsD(7-10) [OF sv i] by blast+
  have types: "jc_type jc v = uintValue \<Longrightarrow> 0 \<le> i" "jc_type jc v = intValue \<Longrightarrow> i < 2 ^ 63"
    using ty scalar_viewsD(11) [OF sv, of v i] scalar_viewsD(12) [OF sv, of v] by auto
  have m: "CreateInt32Value mk (of_int i) = Js_number (f64_of_int (sint (of_int i :: 32 word)))"
    "CreateUint32Value mk (of_int i) = Js_number (f64_of_int (uint (of_int i :: 32 word)))"
    "CreateInt64Value mk (of_int i) = Js_bigint (sint (of_int i :: 64 word))"
    "CreateUInt64Value mk (of_int i) = Js_bigint (uint (of_int i :: 64 word))"
    using mk by (simp_all add: CreateInt32Value_def CreateUint32Value_def CreateInt64Value_def CreateUInt64Value_def
        maker_laws_def)
  consider (i32) "- (2 ^ 31) \<le> i" "i < 2 ^ 31" | (u32) "2 ^ 31 \<le> i" "i < 2 ^ 32"
    | (i64) "jc_type jc v \<noteq> uintValue" "i < 2 ^ 63" "\<not> (- (2 ^ 31) \<le> i \<and> i < 2 ^ 32)"
    | (u64) "0 \<le> i" "2 ^ 32 \<le> i" "jc_type jc v \<noteq> intValue" "jc_type jc v = uintValue \<or> 2 ^ 63 \<le> i"
    using fits types by force
  then show ?thesis
  proof cases
    case i32
    then show ?thesis
      using nb tests made m by (simp add: CreateParamItemTypeValue_def integer_shown_def sint_of_int_32)
  next
    case u32
    then show ?thesis
      using nb tests made m by (simp add: CreateParamItemTypeValue_def integer_shown_def uint_of_int_32)
  next
    case i64
    have "\<not> jc_isInt jc v" "\<not> jc_isUInt jc v" "jc_isInt64 jc v"
      using i64 by (auto simp: tests)
    then show ?thesis
      using nb i64 fits made m by (simp add: CreateParamItemTypeValue_def integer_shown_def sint_of_int)
  next
    case u64
    have "\<not> jc_isInt jc v" "\<not> jc_isUInt jc v" "jc_isUInt64 jc v" "\<not> (jc_isInt64 jc v \<and> jc_type jc v \<noteq> uintValue)"
      using u64 by (auto simp: tests)
    moreover have "CreateUInt64Value mk (of_int i) = Js_bigint i"
      using m(4) uint_of_int_64 [OF u64(1) fits(2)] by simp
    ultimately show ?thesis
      using nb u64(2,3) fits made(4) by (auto simp add: CreateParamItemTypeValue_def integer_shown_def)
  qed
qed

lemma integer_shown_none: "integer_shown i = None \<longleftrightarrow> \<not> (- (2 ^ 63) \<le> i \<and> i < 2 ^ 64)"
  by (auto simp: integer_shown_def)

lemma make_scalar:
  assumes sv: "scalar_views jc asBool view" and mk: "maker_laws mk"
  shows "CreateParamItemTypeValue mk asBool jc v = Some (scalar_shown (view v))"
proof -
  note d = scalar_viewsD(1,3-6,14,15) [OF sv]
  have rest: "jc_isBool jc v \<or> jc_isInt jc v \<or> jc_isUInt jc v \<or> jc_isInt64 jc v \<or> jc_isUInt64 jc v \<or>
      jc_isDouble jc v \<or> jc_isString jc v \<or> CreateParamItemTypeValue mk asBool jc v = Some None"
    by (simp add: CreateParamItemTypeValue_def)
  show ?thesis
  proof (cases "view v")
    case (JBool b)
    then show ?thesis
      using d(1) scalar_viewsD(2) [OF sv JBool] mk
      by (auto simp: CreateParamItemTypeValue_def CreateBoolValue_def maker_laws_def)
  next
    case (JStr s)
    then show ?thesis
      using d scalar_viewsD(16) [OF sv JStr] CreateStringValue_shown [OF mk]
      by (simp add: CreateParamItemTypeValue_def integral_in_def)
  next
    case (JInt i)
    then have "- (2 ^ 63) \<le> i" "i < 2 ^ 64"
      using scalar_viewsD(11) [OF sv JInt] by auto
    then show ?thesis
      using make_integer [OF sv mk, of v i] JInt by simp
  next
    case (JReal x)
    show ?thesis
    proof (cases "Option.bind (json_integral (view v)) integer_shown")
      case None
      then have "\<not> integral_in (view v) (- (2 ^ 63)) (2 ^ 64 - 1)"
        by (auto simp: integral_in_def integer_shown_none split: option.splits)
      then have "\<not> jc_isInt jc v" "\<not> jc_isUInt jc v" "\<not> jc_isInt64 jc v" "\<not> jc_isUInt64 jc v"
        unfolding d by (auto simp: integral_in_def split: option.splits)
      then show ?thesis
        using JReal None d scalar_viewsD(13) [OF sv JReal] mk
        by (auto simp: CreateParamItemTypeValue_def CreateDoubleValue_def maker_laws_def)
    next
      case (Some y)
      then obtain i where i: "json_integral (view v) = Some i" "integer_shown i = Some y"
        by (auto simp: bind_eq_Some_conv)
      then have "- (2 ^ 63) \<le> i" "i < 2 ^ 64"
        using integer_shown_none [of i] by auto
      then have "CreateParamItemTypeValue mk asBool jc v = Some (Some y)"
        using make_integer [OF sv mk i(1)] JReal i(2) by simp
      then show ?thesis
        using JReal i by simp
    qed
  qed (use d rest in \<open>auto simp: integral_in_def\<close>)
qed

definition item_shown :: "json \<Rightarrow> js_value" where
  "item_shown x = (case scalar_shown x of None \<Rightarrow> Js_undefined | Some y \<Rightarrow> y)"

lemma array_filled:
  assumes sv: "scalar_views jc asBool view" and mk: "maker_laws mk"
    and el: "\<And>i. i < length xs \<Longrightarrow> view (jc_index jc v i) = xs ! i"
    and n: "n \<le> length xs"
  shows "array_params_loop mk asBool jc v [n..<length xs]
      (Js_array (map item_shown (take n xs) @ replicate (length xs - n) Js_undefined)) =
    Some (Js_array (map item_shown xs))"
  using n
proof (induction "length xs - n" arbitrary: n)
  case 0
  then show ?case by simp
next
  case (Suc m)
  then have n: "n < length xs" by simp
  let ?arr = "map item_shown (take n xs) @ replicate (length xs - n) Js_undefined"
  have grow: "?arr[n := item_shown (xs ! n)] =
      map item_shown (take (Suc n) xs) @ replicate (length xs - Suc n) Js_undefined"
    using n by (simp add: list_update_append take_Suc_conv_app_nth Suc_diff_Suc [symmetric])
  have keep: "scalar_shown (xs ! n) = None \<Longrightarrow> ?arr[n := item_shown (xs ! n)] = ?arr"
    using n by (simp add: item_shown_def list_update_append Suc_diff_Suc [symmetric])
  have next_turn: "array_params_loop mk asBool jc v [Suc n..<length xs]
      (Js_array (?arr[n := item_shown (xs ! n)])) = Some (Js_array (map item_shown xs))"
    unfolding grow using Suc by simp
  have set: "mk_set_element mk (Js_array ?arr) n y = Some (Js_array (?arr[n := y]))" for y
    using mk n by (simp add: maker_laws_def)
  show ?case
  proof (cases "scalar_shown (xs ! n)")
    case None
    then show ?thesis
      using next_turn keep [OF None] n by (simp add: upt_rec [of n] make_scalar [OF sv mk] el)
  next
    case (Some y)
    then have "item_shown (xs ! n) = y"
      by (simp add: item_shown_def)
    then show ?thesis
      using next_turn n Some set [of y] by (simp add: upt_rec [of n] make_scalar [OF sv mk] el)
  qed
qed

lemma json_viewsD:
  assumes "json_views jc asBool view"
  shows "scalar_views jc asBool view"
    "jc_isArray jc v \<longleftrightarrow> (\<exists>xs. view v = JArr xs)"
    "view v = JArr xs \<Longrightarrow> jc_size jc v = length xs"
    "view v = JArr xs \<Longrightarrow> i < length xs \<Longrightarrow> view (jc_index jc v i) = xs ! i"
    "jc_isObject jc v \<longleftrightarrow> (\<exists>kvs. view v = JObj kvs)"
    "view v = JObj kvs \<Longrightarrow> distinct (jc_names jc v)"
    "view v = JObj kvs \<Longrightarrow> set (jc_names jc v) = fst ` set kvs"
    "view v = JObj kvs \<Longrightarrow> map_of kvs k = Some x \<Longrightarrow> view (jc_member jc v k) = x"
  using assms by (auto simp: json_views_def)

lemma param_appended:
  assumes jv: "json_views jc asBool view" and mk: "maker_laws mk" and k: "CHR 0x00 \<notin> set k"
  shows "AppendParamsInfo mk asBool jc (Js_object m ps) k v =
    Some (case param_shown (view v) of None \<Rightarrow> Js_object m ps | Some y \<Rightarrow> Js_object m (put_prop k y ps))"
proof (cases "\<exists>xs. view v = JArr xs")
  case True
  then obtain xs where xs: "view v = JArr xs" by blast
  have "mk_array_with_length mk (length xs) = Js_array (map item_shown (take 0 xs) @ replicate (length xs - 0) Js_undefined)"
    using mk by (simp add: maker_laws_def)
  then have "array_params_loop mk asBool jc v [0..<length xs] (mk_array_with_length mk (length xs)) =
      Some (Js_array (map item_shown xs))"
    using array_filled [OF json_viewsD(1) [OF jv] mk json_viewsD(4) [OF jv xs], of 0] by simp
  then show ?thesis
    using xs json_viewsD(2) [OF jv, of v] json_viewsD(3) [OF jv xs] SetNamedProperty_object [OF mk k]
    by (simp add: AppendParamsInfo_def AppendArrayParams_def item_shown_def [abs_def])
next
  case False
  then have "param_shown (view v) = scalar_shown (view v)"
    by (cases "view v") auto
  then show ?thesis
    using False json_viewsD(2) [OF jv, of v] SetNamedProperty_object [OF mk k]
    by (simp add: AppendParamsInfo_def make_scalar [OF json_viewsD(1) [OF jv] mk] split: option.split)
qed

lemma IsBaseInfoKey_cases:
  "IsBaseInfoKey k \<Longrightarrow> (k = DOMAIN__KEY \<Longrightarrow> P) \<Longrightarrow> (k = NAME__KEY \<Longrightarrow> P) \<Longrightarrow> (k = TYPE__KEY \<Longrightarrow> P) \<Longrightarrow> P"
  by (auto simp: IsBaseInfoKey_def)

lemma base_appended:
  assumes jv: "json_views jc asBool view" and mk: "maker_laws mk" and k: "IsBaseInfoKey k"
  shows "AppendBaseInfo mk jc (Js_object n os) k v =
    Some (case base_shown k (view v) of None \<Rightarrow> Js_object n os
      | Some y \<Rightarrow> Js_object n (put_prop (TranslateKeyToAttrName k) y os))"
proof -
  note d = scalar_viewsD [OF json_viewsD(1) [OF jv], of v]
  have nul: "CHR 0x00 \<notin> set (TranslateKeyToAttrName k)"
    using k by (auto simp: IsBaseInfoKey_def TranslateKeyToAttrName_def key_defs attr_defs)
  note put = SetNamedProperty_object [OF mk nul]
  show ?thesis
  proof (cases "k = TYPE__KEY")
    case True
    have no_text: "\<not> (k = DOMAIN__KEY \<or> k = NAME__KEY)"
      using True by (simp add: key_defs)
    show ?thesis
    proof (cases "jc_isInt jc v")
      case yes: True
      then obtain i where i: "json_integral (view v) = Some i" "- (2 ^ 31) \<le> i" "i < 2 ^ 31"
        unfolding d(3) by (auto simp: integral_in_def split: option.splits)
      have shown: "scalar_shown (view v) = Some (Js_number (f64_of_int i))"
        using i by (cases "view v") (auto simp: integer_shown_def)
      have "CreateInt32Value mk (of_int i) = Js_number (f64_of_int i)"
        using mk i by (simp add: CreateInt32Value_def maker_laws_def sint_of_int_32)
      then show ?thesis
        using yes True no_text d(7) [OF i(1)] shown yes [unfolded d(3)] put
        by (simp add: AppendBaseInfo_def base_shown_def int32_shown_def AppendInt32PropertyToJsObject_def)
    next
      case no: False
      then show ?thesis
        using True no_text d(3) by (simp add: AppendBaseInfo_def base_shown_def int32_shown_def)
    qed
  next
    case False
    then have key: "k = DOMAIN__KEY \<or> k = NAME__KEY"
      using k by (auto simp: IsBaseInfoKey_def)
    show ?thesis
      using False key d(15,16) put CreateStringValue_shown [OF mk]
      by (cases "view v") (simp_all add: AppendBaseInfo_def base_shown_def text_shown_def AppendStringPropertyToJsObject_def)
  qed
qed

lemma attr_of_base_key:
  "IsBaseInfoKey k \<Longrightarrow> IsBaseInfoKey k' \<Longrightarrow> TranslateKeyToAttrName k = TranslateKeyToAttrName k' \<longleftrightarrow> k = k'"
  "IsBaseInfoKey k \<Longrightarrow> TranslateKeyToAttrName k \<noteq> PARAMS_ATTR"
  by (auto simp: IsBaseInfoKey_def TranslateKeyToAttrName_def key_defs attr_defs)

text \<open>What the loop leaves at a key, whatever the order of the members.\<close>

lemma members_shown:
  assumes jv: "json_views jc asBool view" and mk: "maker_laws mk"
    and ks: "\<forall>k \<in> set ks. CHR 0x00 \<notin> set k"
  shows "\<exists>os' ps'. event_members_loop mk asBool jc e ks (Js_object n os, Js_object m ps) =
      Some (Js_object n os', Js_object m ps') \<and>
    (\<forall>k. IsBaseInfoKey k \<longrightarrow> map_of os' (TranslateKeyToAttrName k) =
       (if k \<in> set ks \<and> base_shown k (view (jc_member jc e k)) \<noteq> None then base_shown k (view (jc_member jc e k))
        else map_of os (TranslateKeyToAttrName k))) \<and>
    (\<forall>k. map_of ps' k =
       (if k \<in> set ks \<and> \<not> IsBaseInfoKey k \<and> param_shown (view (jc_member jc e k)) \<noteq> None
        then param_shown (view (jc_member jc e k)) else map_of ps k))"
  using ks
proof (induction ks arbitrary: os ps)
  case Nil
  then show ?case by simp
next
  case (Cons k ks)
  show ?case
  proof (cases "IsBaseInfoKey k")
    case True
    let ?b = "base_shown k (view (jc_member jc e k))"
    let ?os = "case ?b of None \<Rightarrow> os | Some y \<Rightarrow> put_prop (TranslateKeyToAttrName k) y os"
    have step: "event_members_loop mk asBool jc e (k # ks) (Js_object n os, Js_object m ps) =
        event_members_loop mk asBool jc e ks (Js_object n ?os, Js_object m ps)"
      using True base_appended [OF jv mk True] by (simp split: option.split)
    have m: "map_of ?os (TranslateKeyToAttrName k') =
        (if k' = k \<and> ?b \<noteq> None then ?b else map_of os (TranslateKeyToAttrName k'))" if "IsBaseInfoKey k'" for k'
      using attr_of_base_key(1) [OF that True] by (auto split: option.split)
    obtain os' ps' where IH: "event_members_loop mk asBool jc e ks (Js_object n ?os, Js_object m ps) =
        Some (Js_object n os', Js_object m ps')"
      "\<And>k. IsBaseInfoKey k \<Longrightarrow> map_of os' (TranslateKeyToAttrName k) =
         (if k \<in> set ks \<and> base_shown k (view (jc_member jc e k)) \<noteq> None then base_shown k (view (jc_member jc e k))
          else map_of ?os (TranslateKeyToAttrName k))"
      "\<And>k. map_of ps' k =
         (if k \<in> set ks \<and> \<not> IsBaseInfoKey k \<and> param_shown (view (jc_member jc e k)) \<noteq> None
          then param_shown (view (jc_member jc e k)) else map_of ps k)"
      using Cons.IH [of ?os ps] Cons.prems by auto
    show ?thesis
    proof (rule exI [of _ os'], rule exI [of _ ps'], intro conjI allI impI)
      show "event_members_loop mk asBool jc e (k # ks) (Js_object n os, Js_object m ps) = Some (Js_object n os', Js_object m ps')"
        by (rule trans [OF step IH(1)])
    next
      fix k' assume b: "IsBaseInfoKey k'"
      show "map_of os' (TranslateKeyToAttrName k') =
          (if k' \<in> set (k # ks) \<and> base_shown k' (view (jc_member jc e k')) \<noteq> None
           then base_shown k' (view (jc_member jc e k')) else map_of os (TranslateKeyToAttrName k'))"
        unfolding IH(2) [OF b] m [OF b] by auto
    next
      fix k'
      show "map_of ps' k' =
          (if k' \<in> set (k # ks) \<and> \<not> IsBaseInfoKey k' \<and> param_shown (view (jc_member jc e k')) \<noteq> None
           then param_shown (view (jc_member jc e k')) else map_of ps k')"
        unfolding IH(3) using True by auto
    qed
  next
    case False
    let ?p = "param_shown (view (jc_member jc e k))"
    let ?ps = "case ?p of None \<Rightarrow> ps | Some y \<Rightarrow> put_prop k y ps"
    have k: "CHR 0x00 \<notin> set k"
      using Cons.prems by simp
    have step: "event_members_loop mk asBool jc e (k # ks) (Js_object n os, Js_object m ps) =
        event_members_loop mk asBool jc e ks (Js_object n os, Js_object m ?ps)"
      using False param_appended [OF jv mk k] by (simp split: option.split)
    have m: "map_of ?ps k' = (if k' = k \<and> ?p \<noteq> None then ?p else map_of ps k')" for k'
      by (auto split: option.split)
    obtain os' ps' where IH: "event_members_loop mk asBool jc e ks (Js_object n os, Js_object m ?ps) =
        Some (Js_object n os', Js_object m ps')"
      "\<And>k. IsBaseInfoKey k \<Longrightarrow> map_of os' (TranslateKeyToAttrName k) =
         (if k \<in> set ks \<and> base_shown k (view (jc_member jc e k)) \<noteq> None then base_shown k (view (jc_member jc e k))
          else map_of os (TranslateKeyToAttrName k))"
      "\<And>k. map_of ps' k =
         (if k \<in> set ks \<and> \<not> IsBaseInfoKey k \<and> param_shown (view (jc_member jc e k)) \<noteq> None
          then param_shown (view (jc_member jc e k)) else map_of ?ps k)"
      using Cons.IH [of os ?ps] Cons.prems by auto
    show ?thesis
    proof (rule exI [of _ os'], rule exI [of _ ps'], intro conjI allI impI)
      show "event_members_loop mk asBool jc e (k # ks) (Js_object n os, Js_object m ps) = Some (Js_object n os', Js_object m ps')"
        by (rule trans [OF step IH(1)])
    next
      fix k' assume b: "IsBaseInfoKey k'"
      show "map_of os' (TranslateKeyToAttrName k') =
          (if k' \<in> set (k # ks) \<and> base_shown k' (view (jc_member jc e k')) \<noteq> None
           then base_shown k' (view (jc_member jc e k')) else map_of os (TranslateKeyToAttrName k'))"
        unfolding IH(2) [OF b] using False b by auto
    next
      fix k'
      show "map_of ps' k' =
          (if k' \<in> set (k # ks) \<and> \<not> IsBaseInfoKey k' \<and> param_shown (view (jc_member jc e k')) \<noteq> None
           then param_shown (view (jc_member jc e k')) else map_of ps k')"
        unfolding IH(3) m using False by auto
    qed
  qed
qed

section \<open>Properties\<close>

text \<open>
  C38. An event shown to JavaScript is the event: when its text parses to an object, domain,
  name and type become the attributes of the same meaning, and the member of the parameters at
  a key is the JavaScript value of the JSON value there, for booleans, texts, numbers of every
  width and arrays of them; whatever the order of the members, a key that is none of these
  holds nothing else.
\<close>

theorem event_shown_to_js:
  assumes jv: "json_views jc asBool view" and mk: "maker_laws mk"
    and parsed: "jc_parse jc jsonStr = (True, v)" "view v = JObj kvs"
    and keys: "\<forall>k \<in> fst ` set kvs. CHR 0x00 \<notin> set k"
  shows "\<exists>n os m ps.
    CreateHiSysEventInfoJsObject mk asBool jc jsonStr before = Some (Some (Js_object n os)) \<and>
    map_of os ''params'' = Some (Js_object m ps) \<and>
    map_of os ''domain'' = Option.bind (map_of kvs ''domain_'') text_shown \<and>
    map_of os ''name'' = Option.bind (map_of kvs ''name_'') text_shown \<and>
    map_of os ''eventType'' = Option.bind (map_of kvs ''type_'') int32_shown \<and>
    (\<forall>k. map_of ps k = (if k \<in> {''domain_'', ''name_'', ''type_''} then None else Option.bind (map_of kvs k) param_shown))"
proof -
  obtain n where n: "mk_object mk = Js_object n []"
    using mk by (auto simp: maker_laws_def)
  have names: "set (jc_names jc v) = fst ` set kvs"
    by (rule json_viewsD(7) [OF jv parsed(2)])
  obtain os ps where m: "event_members_loop mk asBool jc v (jc_names jc v) (Js_object n [], Js_object n []) =
      Some (Js_object n os, Js_object n ps)"
    "\<And>k. IsBaseInfoKey k \<Longrightarrow> map_of os (TranslateKeyToAttrName k) =
       (if k \<in> set (jc_names jc v) \<and> base_shown k (view (jc_member jc v k)) \<noteq> None
        then base_shown k (view (jc_member jc v k)) else None)"
    "\<And>k. map_of ps k =
       (if k \<in> set (jc_names jc v) \<and> \<not> IsBaseInfoKey k \<and> param_shown (view (jc_member jc v k)) \<noteq> None
        then param_shown (view (jc_member jc v k)) else None)"
    using members_shown [OF jv mk, of "jc_names jc v" v n "[]" n "[]"] keys names by auto
  have no_nul: "CHR 0x00 \<notin> set PARAMS_ATTR"
    by (simp add: PARAMS_ATTR_def)
  have object: "jc_isObject jc v"
    using json_viewsD(5) [OF jv] parsed(2) by auto
  have lookup: "(if k \<in> set (jc_names jc v) \<and> f (view (jc_member jc v k)) \<noteq> None
      then f (view (jc_member jc v k)) else None) = Option.bind (map_of kvs k) f" for k and f :: "json \<Rightarrow> js_value option"
  proof (cases "map_of kvs k")
    case None
    then have "k \<notin> set (jc_names jc v)"
      by (simp add: names map_of_eq_None_iff)
    then show ?thesis
      using None by simp
  next
    case (Some x)
    then have "k \<in> set (jc_names jc v)"
      by (metis names map_of_eq_None_iff option.distinct(1))
    then show ?thesis
      using Some json_viewsD(8) [OF jv parsed(2) Some] by simp
  qed
  let ?os = "put_prop PARAMS_ATTR (Js_object n ps) os"
  have base: "map_of ?os (TranslateKeyToAttrName k) = Option.bind (map_of kvs k) (base_shown k)" if "IsBaseInfoKey k" for k
    using m(2) [OF that] lookup [of k "base_shown k"] attr_of_base_key(2) [OF that] by simp
  have made: "CreateHiSysEventInfoJsObject mk asBool jc jsonStr before = Some (Some (Js_object n ?os))"
    using parsed(1) object m(1) n SetNamedProperty_object [OF mk no_nul]
    by (simp add: CreateHiSysEventInfoJsObject_def)
  have params: "map_of ps k = (if k \<in> {''domain_'', ''name_'', ''type_''} then None else Option.bind (map_of kvs k) param_shown)"
    for k
    using m(3) [of k] lookup [of k param_shown] by (auto simp: IsBaseInfoKey_def key_defs)
  have "map_of ?os ''params'' = Some (Js_object n ps)"
    by (simp add: PARAMS_ATTR_def)
  moreover have "map_of ?os ''domain'' = Option.bind (map_of kvs ''domain_'') text_shown"
    "map_of ?os ''name'' = Option.bind (map_of kvs ''name_'') text_shown"
    "map_of ?os ''eventType'' = Option.bind (map_of kvs ''type_'') int32_shown"
    using base [of DOMAIN__KEY] base [of NAME__KEY] base [of TYPE__KEY]
    by (simp_all add: IsBaseInfoKey_def TranslateKeyToAttrName_def key_defs attr_defs base_shown_def [abs_def])
  ultimately show ?thesis
    using made params by blast
qed

text \<open>A library and an engine that behave as documented.\<close>

primrec held :: "json \<Rightarrow> json" where
  "held JNull = JNull"
| "held (JBool b) = JBool b"
| "held (JInt i) = (if - (2 ^ 63) \<le> i \<and> i < 2 ^ 64 then JInt i else JNull)"
| "held (JReal d) = JReal d"
| "held (JStr s) = JStr s"
| "held (JArr xs) = JArr (map held xs)"
| "held (JObj kvs) = JObj (map (map_prod id held) kvs)"

definition typed_json :: "json \<Rightarrow> json jsoncpp" where
  "typed_json doc = (plain_json (Some doc))
     \<lparr>jc_type := (\<lambda>v. json_kind (held v)), jc_isBool := (\<lambda>v. case v of JBool b \<Rightarrow> True | _ \<Rightarrow> False),
      jc_isInt := (\<lambda>v. integral_in (held v) (- (2 ^ 31)) (2 ^ 31 - 1)),
      jc_isUInt := (\<lambda>v. integral_in (held v) 0 (2 ^ 32 - 1)),
      jc_isInt64 := (\<lambda>v. integral_in (held v) (- (2 ^ 63)) (2 ^ 63 - 1)),
      jc_isUInt64 := (\<lambda>v. integral_in (held v) 0 (2 ^ 64 - 1)),
      jc_isDouble := (\<lambda>v. case held v of JInt i \<Rightarrow> True | JReal d \<Rightarrow> True | _ \<Rightarrow> False),
      jc_asInt := (\<lambda>v. map_option of_int (json_integral (held v))),
      jc_asUInt := (\<lambda>v. map_option of_int (json_integral (held v))),
      jc_asInt64 := (\<lambda>v. map_option of_int (json_integral (held v))),
      jc_asUInt64 := (\<lambda>v. map_option of_int (json_integral (held v))),
      jc_names := (\<lambda>v. remdups (map fst (json_members v)))\<rparr>"

primrec as_bool :: "json \<Rightarrow> bool option" where
  "as_bool JNull = Some False"
| "as_bool (JBool b) = Some b"
| "as_bool (JInt i) = Some (i \<noteq> 0)"
| "as_bool (JReal d) = Some (f64_differs 0 d 0)"
| "as_bool (JStr s) = None"
| "as_bool (JArr xs) = None"
| "as_bool (JObj kvs) = None"

lemma held_eq:
  "held v = JBool b \<longleftrightarrow> v = JBool b"
  "held v = JReal d \<longleftrightarrow> v = JReal d"
  "held v = JStr s \<longleftrightarrow> v = JStr s"
  "held v = JInt i \<longleftrightarrow> v = JInt i \<and> - (2 ^ 63) \<le> i \<and> i < 2 ^ 64"
  "held v = JArr ys \<longleftrightarrow> (\<exists>xs. v = JArr xs \<and> ys = map held xs)"
  "held v = JObj lvs \<longleftrightarrow> (\<exists>kvs. v = JObj kvs \<and> lvs = map (map_prod id held) kvs)"
  by (cases v; auto)+

lemma typed_json_fields:
  "jc_type (typed_json doc) v = json_kind (held v)"
  "jc_isBool (typed_json doc) v \<longleftrightarrow> (\<exists>b. held v = JBool b)"
  "jc_isInt (typed_json doc) v \<longleftrightarrow> integral_in (held v) (- (2 ^ 31)) (2 ^ 31 - 1)"
  "jc_isUInt (typed_json doc) v \<longleftrightarrow> integral_in (held v) 0 (2 ^ 32 - 1)"
  "jc_isInt64 (typed_json doc) v \<longleftrightarrow> integral_in (held v) (- (2 ^ 63)) (2 ^ 63 - 1)"
  "jc_isUInt64 (typed_json doc) v \<longleftrightarrow> integral_in (held v) 0 (2 ^ 64 - 1)"
  "jc_isDouble (typed_json doc) v \<longleftrightarrow> (\<exists>i. held v = JInt i) \<or> (\<exists>d. held v = JReal d)"
  "jc_isString (typed_json doc) v \<longleftrightarrow> (\<exists>s. held v = JStr s)"
  "jc_isArray (typed_json doc) v \<longleftrightarrow> (\<exists>xs. held v = JArr xs)"
  "jc_isObject (typed_json doc) v \<longleftrightarrow> (\<exists>kvs. held v = JObj kvs)"
proof -
  show "jc_type (typed_json doc) v = json_kind (held v)"
    "jc_isInt (typed_json doc) v \<longleftrightarrow> integral_in (held v) (- (2 ^ 31)) (2 ^ 31 - 1)"
    "jc_isUInt (typed_json doc) v \<longleftrightarrow> integral_in (held v) 0 (2 ^ 32 - 1)"
    "jc_isInt64 (typed_json doc) v \<longleftrightarrow> integral_in (held v) (- (2 ^ 63)) (2 ^ 63 - 1)"
    "jc_isUInt64 (typed_json doc) v \<longleftrightarrow> integral_in (held v) 0 (2 ^ 64 - 1)"
    by (simp_all add: typed_json_def)
  show "jc_isBool (typed_json doc) v \<longleftrightarrow> (\<exists>b. held v = JBool b)"
    "jc_isDouble (typed_json doc) v \<longleftrightarrow> (\<exists>i. held v = JInt i) \<or> (\<exists>d. held v = JReal d)"
    "jc_isString (typed_json doc) v \<longleftrightarrow> (\<exists>s. held v = JStr s)"
    "jc_isArray (typed_json doc) v \<longleftrightarrow> (\<exists>xs. held v = JArr xs)"
    "jc_isObject (typed_json doc) v \<longleftrightarrow> (\<exists>kvs. held v = JObj kvs)"
    by (cases v; simp add: typed_json_def plain_json_def)+
qed

lemma typed_json_values:
  "jc_asInt (typed_json doc) v = map_option of_int (json_integral (held v))"
  "jc_asUInt (typed_json doc) v = map_option of_int (json_integral (held v))"
  "jc_asInt64 (typed_json doc) v = map_option of_int (json_integral (held v))"
  "jc_asUInt64 (typed_json doc) v = map_option of_int (json_integral (held v))"
  "held v = JReal d \<Longrightarrow> jc_asDouble (typed_json doc) v = Some d"
  "held v = JStr s \<Longrightarrow> jc_asString (typed_json doc) v = Some s"
  by (simp_all add: typed_json_def plain_json_def held_eq)

lemma typed_json_scalars: "scalar_views (typed_json doc) as_bool held"
proof -
  have kinds: "held v = JInt i \<Longrightarrow> json_kind (held v) = intValue \<and> - (2 ^ 63) \<le> i \<and> i < 2 ^ 63 \<or>
        json_kind (held v) = uintValue \<and> 0 \<le> i \<and> i < 2 ^ 64" for v i
    unfolding held_eq by auto
  have reals: "held v = JReal d \<Longrightarrow> json_kind (held v) = realValue" "held v = JBool b \<Longrightarrow> as_bool v = Some b" for v d b
    unfolding held_eq by auto
  show ?thesis
    unfolding scalar_views_def typed_json_fields typed_json_values(1-4)
    by (intro conjI allI impI refl kinds reals typed_json_values(5,6); simp)
qed

lemma typed_json_views: "json_views (typed_json doc) as_bool held"
proof -
  let ?jc = "typed_json doc"
  have arr: "jc_size ?jc v = length xs \<and> (\<forall>i < length xs. held (jc_index ?jc v i) = xs ! i)" if "held v = JArr xs" for v xs
    using that unfolding held_eq by (auto simp: typed_json_def plain_json_def)
  have look: "map_of (map (map_prod id held) kvs) k = map_option held (map_of kvs k)" for kvs k
    by (induction kvs) auto
  have obj: "distinct (jc_names ?jc v) \<and> set (jc_names ?jc v) = fst ` set kvs \<and>
      (\<forall>k x. map_of kvs k = Some x \<longrightarrow> held (jc_member ?jc v k) = x)" if "held v = JObj kvs" for v kvs
    using that unfolding held_eq by (auto simp: typed_json_def plain_json_def json_entry_def look image_image) force+
  show ?thesis
    unfolding json_views_def
    by (intro conjI typed_json_scalars allI impI typed_json_fields(9,10)) (use arr obj in blast)+
qed

definition plain_maker :: js_maker where
  "plain_maker =
     \<lparr>mk_boolean = Js_boolean, mk_double = Js_number, mk_int32 = (\<lambda>i. Js_number (f64_of_int (sint i))),
      mk_uint32 = (\<lambda>i. Js_number (f64_of_int (uint i))), mk_bigint_int64 = (\<lambda>i. Js_bigint (sint i)),
      mk_bigint_uint64 = (\<lambda>i. Js_bigint (uint i)), mk_string_utf8 = Js_string, mk_object = Js_object 0 [],
      mk_array_with_length = (\<lambda>n. Js_array (replicate n Js_undefined)),
      mk_set_named_property =
        (\<lambda>v k x. case v of Js_object n ps \<Rightarrow> Some (Js_object n (put_prop k x ps)) | _ \<Rightarrow> None),
      mk_set_element = (\<lambda>v i x. case v of Js_array vs \<Rightarrow> if i < length vs then Some (Js_array (vs[i := x])) else None
        | _ \<Rightarrow> None)\<rparr>"

lemma plain_maker_laws: "maker_laws plain_maker"
  by (simp add: maker_laws_def plain_maker_def)

theorem event_shown_to_js_witness:
  "\<exists>n os m ps.
    CreateHiSysEventInfoJsObject plain_maker as_bool
      (typed_json (JObj [(''domain_'', JStr ''AAFWK''), (''PID'', JInt 7), (''TIME'', JInt (- (2 ^ 40))), (''L'', JArr [JBool True, JNull])]))
      ''text'' None = Some (Some (Js_object n os)) \<and>
    map_of os ''params'' = Some (Js_object m ps) \<and> map_of os ''domain'' = Some (Js_string ''AAFWK'') \<and>
    map_of ps ''PID'' = Some (Js_number (f64_of_int 7)) \<and> map_of ps ''TIME'' = Some (Js_bigint (- (2 ^ 40))) \<and>
    map_of ps ''L'' = Some (Js_array [Js_boolean True, Js_undefined]) \<and> map_of ps ''domain_'' = None"
proof -
  let ?kvs = "[(''domain_'', JStr ''AAFWK''), (''PID'', JInt 7), (''TIME'', JInt (- (2 ^ 40))), (''L'', JArr [JBool True, JNull])]"
  have parsed: "jc_parse (typed_json (JObj ?kvs)) ''text'' = (True, JObj ?kvs)" "held (JObj ?kvs) = JObj ?kvs"
    by (simp_all add: typed_json_def plain_json_def)
  have nul: "\<forall>k \<in> fst ` set ?kvs. CHR 0x00 \<notin> set k"
    by simp
  note shown = event_shown_to_js [where view = held and v = "JObj ?kvs", OF typed_json_views plain_maker_laws parsed nul]
  from shown [of None]
  obtain n os m ps where e: "CreateHiSysEventInfoJsObject plain_maker as_bool (typed_json (JObj ?kvs)) ''text'' None =
      Some (Some (Js_object n os))" "map_of os ''params'' = Some (Js_object m ps)"
    "map_of os ''domain'' = Option.bind (map_of ?kvs ''domain_'') text_shown"
    "map_of os ''name'' = Option.bind (map_of ?kvs ''name_'') text_shown"
    "map_of os ''eventType'' = Option.bind (map_of ?kvs ''type_'') int32_shown"
    "\<forall>k. map_of ps k = (if k \<in> {''domain_'', ''name_'', ''type_''} then None else Option.bind (map_of ?kvs k) param_shown)"
    by (elim exE conjE) (rule that)
  have "map_of os ''domain'' = Some (Js_string ''AAFWK'')"
    using e(3) by (simp add: text_shown_def cut_at_nul_def)
  moreover have "map_of ps ''PID'' = Some (Js_number (f64_of_int 7))" "map_of ps ''TIME'' = Some (Js_bigint (- (2 ^ 40)))"
    "map_of ps ''L'' = Some (Js_array [Js_boolean True, Js_undefined])" "map_of ps ''domain_'' = None"
    by (simp_all add: e(6) integer_shown_def)
  ultimately show ?thesis
    using e(1,2) by blast
qed

end
