(* ===== verification/JsModule.thy ===== *)
theory JsModule
  imports JsEvent EventRegistry
begin

text \<open>
  The functions that the JavaScript module exports (napi_hisysevent_js.cpp under
  src/interfaces/js/kits/napi): what a call reads from its arguments, the exception it leaves
  pending, the write, the request to the service and the tables of watchers and queriers. The
  theory composes the reading of values with the C++ writer and the registry and shows what a
  call of each kind achieves.
\<close>

section \<open>The process\<close>

text \<open>
  What one call meets: the engine, whether the caller is a system application, the thread, the
  stack trace, the order in which the two kinds of \<^verbatim>\<open>unordered_map\<close> are walked, and what an
  uninitialised type holds. \<open>je_refer\<close> says whether a reference to a value can be created; the
  handle of one that cannot is null.
\<close>

type_synonym js_ref = "nat option"

type_synonym js_table = "js_ref \<Rightarrow> (int \<times> nat) option"

record js_env =
  je_napi :: napi
  je_maker :: js_maker
  je_system_app :: bool
  je_memory :: bool
  je_scope :: bool
  je_thread :: int
  je_trace :: "string option"
  je_uninit :: napi_valuetype
  je_refer :: "js_value \<Rightarrow> bool"
  je_strict_equals :: "js_value \<Rightarrow> js_value \<Rightarrow> bool option"
  je_param_order :: "(string \<times> Param) list \<Rightarrow> (string \<times> Param) list"
  je_ref_order :: "js_table \<Rightarrow> js_ref list"

text \<open>
  The state behind the calls: references and the values they keep, the two tables, which map a
  reference to a thread and an object, and the registry. Listener objects are numbers of the
  registry, querier objects are numbers of their own.
\<close>

record 'f js_module =
  jm_refs :: "nat \<Rightarrow> js_value option"
  jm_next_ref :: nat
  jm_listeners :: js_table
  jm_queriers :: js_table
  jm_next_querier :: nat
  jm_registry :: "'f registry"

definition js_module_new :: "'f \<Rightarrow> 'f js_module" where
  "js_module_new files =
     \<lparr>jm_refs = (\<lambda>_. None), jm_next_ref = 0, jm_listeners = (\<lambda>_. None), jm_queriers = (\<lambda>_. None), jm_next_querier = 0,
      jm_registry = registry_new files\<rparr>"

definition new_reference :: "js_env \<Rightarrow> js_value \<Rightarrow> 'f js_module \<Rightarrow> 'f js_module \<times> js_ref" where
  "new_reference je v st =
     (if je_refer je v
      then (st\<lparr>jm_refs := (jm_refs st)(jm_next_ref st \<mapsto> v), jm_next_ref := jm_next_ref st + 1\<rparr>, Some (jm_next_ref st))
      else (st, None))"

definition reference_value :: "js_ref \<Rightarrow> 'f js_module \<Rightarrow> js_value option" where
  "reference_value ref st = Option.bind ref (jm_refs st)"

text \<open>The first entry of this thread whose object is the given one; \<open>None\<close> is the end.\<close>

definition CompareAndReturnCacheItem ::
  "js_env \<Rightarrow> 'f js_module \<Rightarrow> js_value \<Rightarrow> js_table \<Rightarrow> (js_ref \<times> nat) option" where
  "CompareAndReturnCacheItem je st standard resources =
     (case find (\<lambda>ref. case resources ref of
            None \<Rightarrow> False
          | Some (pid, _) \<Rightarrow> pid = je_thread je \<and>
              (case reference_value ref st of
                 None \<Rightarrow> False
               | Some val \<Rightarrow> je_strict_equals je standard val = Some True)) (je_ref_order je resources) of
        None \<Rightarrow> None
      | Some ref \<Rightarrow> map_option (\<lambda>(pid, obj). (ref, obj)) (resources ref))"

text \<open>A call gets as many parameters as it asks for, undefined ones behind the arguments.\<close>

definition js_params :: "nat \<Rightarrow> js_value list \<Rightarrow> js_value list" where
  "js_params n args = take n (args @ replicate n Js_undefined)"

text \<open>A call leaves a state, an exception or none, and a value, \<open>None\<close> being null or undefined.\<close>

type_synonym 'f js_result = "'f js_module \<times> js_pending \<times> js_value option"

section \<open>Writing\<close>

definition WRITE_FUNC_MAX_PARAM_NUM :: nat where "WRITE_FUNC_MAX_PARAM_NUM = 2"
definition ADD_LISTENER_FUNC_MAX_PARAM_NUM :: nat where "ADD_LISTENER_FUNC_MAX_PARAM_NUM = 1"
definition REMOVE_LISTENER_FUNC_MAX_PARAM_NUM :: nat where "REMOVE_LISTENER_FUNC_MAX_PARAM_NUM = 1"
definition QUERY_FUNC_MAX_PARAM_NUM :: nat where "QUERY_FUNC_MAX_PARAM_NUM = 3"
definition EXPORT_FUNC_MAX_PARAM_NUM :: nat where "EXPORT_FUNC_MAX_PARAM_NUM = 2"
definition SUBSCRIBE_FUNC_MAX_PARAM_NUM :: nat where "SUBSCRIBE_FUNC_MAX_PARAM_NUM = 1"
definition TIME_STAMP_LENGTH :: nat where "TIME_STAMP_LENGTH = 13"
definition DEFAULT_EVENT_COUNT :: "32 word" where "DEFAULT_EVENT_COUNT = 1000"
definition RULES_ATTR :: string where "RULES_ATTR = ''rules''"

lemmas module_defs = WRITE_FUNC_MAX_PARAM_NUM_def ADD_LISTENER_FUNC_MAX_PARAM_NUM_def
  REMOVE_LISTENER_FUNC_MAX_PARAM_NUM_def QUERY_FUNC_MAX_PARAM_NUM_def EXPORT_FUNC_MAX_PARAM_NUM_def
  SUBSCRIBE_FUNC_MAX_PARAM_NUM_def TIME_STAMP_LENGTH_def RULES_ATTR_def

text \<open>The context that the call hands to the worker; the promise is made when there is no callback.\<close>

definition write_context :: "js_env \<Rightarrow> js_value list \<Rightarrow> HiSysEventInfo \<Rightarrow> HiSysEventAsyncContext" where
  "write_context je args info =
     (let params = js_params WRITE_FUNC_MAX_PARAM_NUM args; paramNum = length args;
          callback =
            (paramNum = WRITE_FUNC_MAX_PARAM_NUM \<and>
             (case na_typeof (je_napi je) (params ! (paramNum - 1)) of None \<Rightarrow> je_uninit je | Some t \<Rightarrow> t) = napi_function \<and>
             je_refer je (params ! (paramNum - 1))) in
      \<lparr>ac_promise = \<not> callback,
       ac_eventInfo = info\<lparr>ei_params := je_param_order je (ei_params info)\<rparr>,
       ac_eventWroteResult = SUCCESS,
       ac_jsCallerInfo = ParseJsCallerInfo (je_trace je) ([], 0),
       ac_timeStamp = 0\<rparr>)"

text \<open>The outcome is that of the asynchronous write, when there is one.\<close>

definition Js_Write ::
  "js_env \<Rightarrow> writer_env \<Rightarrow> js_value list \<Rightarrow> writer \<Rightarrow> writer \<times> js_pending \<times> js_outcome option" where
  "Js_Write je we args w =
     (if \<not> je_system_app je then (w, ThrowSystemAppPermissionError None, None)
      else if length args < WRITE_FUNC_MAX_PARAM_NUM - 1 then (w, ThrowParamMandatoryError ''info'' None, None)
      else if \<not> je_memory je then (w, None, None)
      else case ParseHiSysEventInfo (je_napi je) (js_params WRITE_FUNC_MAX_PARAM_NUM args) info_new None of
        (pend, info) \<Rightarrow>
          (case Napi_Write we (write_context je args info) w of (w', outcome) \<Rightarrow> (w', pend, Some outcome)))"

section \<open>Watchers\<close>

definition AddWatcher :: "js_env \<Rightarrow> 'f server \<Rightarrow> js_value list \<Rightarrow> 'f js_module \<Rightarrow> 'f js_result" where
  "AddWatcher je sv args st =
     (if \<not> je_system_app je then (st, ThrowSystemAppPermissionError None, None)
      else if length args < ADD_LISTENER_FUNC_MAX_PARAM_NUM then (st, ThrowParamMandatoryError ''watcher'' None, None)
      else
        let watcher = js_params ADD_LISTENER_FUNC_MAX_PARAM_NUM args ! 0;
            jsRulesVal = GetPropertyByName (je_napi je) None (Some watcher) RULES_ATTR in
        case ParseListenerRules (je_napi je) jsRulesVal [] None of (pend, parsed, rules) \<Rightarrow>
          if parsed \<noteq> SUCCESS then (st, pend, None)
          else
            case new_reference je watcher st of (st1, ref) \<Rightarrow>
            case new_base (jm_registry st1) of (rg1, listener) \<Rightarrow>
            case Base_AddListener sv (Some listener) rules rg1 of (rg2, ret) \<Rightarrow>
              let st2 = st1\<lparr>jm_registry := rg2\<rparr> in
              if ret \<noteq> NAPI_SUCCESS then (st2, ThrowErrorByRet ret pend, None)
              else (st2\<lparr>jm_listeners := (jm_listeners st2)(ref \<mapsto> (je_thread je, listener))\<rparr>, pend, None))"

definition RemoveWatcher :: "js_env \<Rightarrow> 'f server \<Rightarrow> js_value list \<Rightarrow> 'f js_module \<Rightarrow> 'f js_result" where
  "RemoveWatcher je sv args st =
     (if \<not> je_system_app je then (st, ThrowSystemAppPermissionError None, None)
      else if length args < REMOVE_LISTENER_FUNC_MAX_PARAM_NUM then (st, ThrowParamMandatoryError ''watcher'' None, None)
      else case CompareAndReturnCacheItem je st (js_params REMOVE_LISTENER_FUNC_MAX_PARAM_NUM args ! 0) (jm_listeners st) of
        None \<Rightarrow> (st, ThrowErrorByRet ERR_NAPI_LISTENER_NOT_FOUND None, None)
      | Some (ref, listener) \<Rightarrow>
          (case Base_RemoveListener sv (Some listener) (jm_registry st) of (rg, ret) \<Rightarrow>
             let st1 = st\<lparr>jm_registry := rg\<rparr> in
             if ret \<noteq> NAPI_SUCCESS then (st1, ThrowErrorByRet ret None, None)
             else (st1\<lparr>jm_listeners := (jm_listeners st1)(ref := None)\<rparr>, None, None)))"

section \<open>Queries\<close>

text \<open>\<^verbatim>\<open>ReleaseQuerier\<close> runs when a query is complete.\<close>

definition ReleaseQuerier :: "js_env \<Rightarrow> js_ref \<Rightarrow> 'f js_module \<Rightarrow> 'f js_module" where
  "ReleaseQuerier je ref st =
     (if \<not> je_scope je then st
      else case Option.bind (reference_value ref st) (\<lambda>querier. CompareAndReturnCacheItem je st querier (jm_queriers st)) of
        None \<Rightarrow> st
      | Some (r, _) \<Rightarrow> st\<lparr>jm_queriers := (jm_queriers st)(r := None)\<rparr>)"

definition query_arg_default :: query_arg where
  "query_arg_default = QueryArg_new JS_DEFAULT_TIME_STAMP JS_DEFAULT_TIME_STAMP DEFAULT_EVENT_COUNT (-1) (-1)"

text \<open>What \<^verbatim>\<open>Query\<close> and \<^verbatim>\<open>ExportSysEvents\<close> have in common: argument and rules, or an end.\<close>

definition query_request ::
  "js_env \<Rightarrow> js_value \<Rightarrow> js_value \<Rightarrow> js_pending + (js_pending \<times> query_arg \<times> query_rule list)" where
  "query_request je argVal rulesVal =
     (case ParseQueryArg (je_napi je) (Some argVal) query_arg_default None of (pend, parsed, arg) \<Rightarrow>
        if parsed \<noteq> SUCCESS then Inl pend
        else case ParseQueryRules (je_napi je) (Some rulesVal) [] pend of (pend', parsed', rules) \<Rightarrow>
          if parsed' \<noteq> SUCCESS then Inl pend' else Inr (pend', arg, rules))"

definition Js_Query :: "js_env \<Rightarrow> 'f server \<Rightarrow> js_value list \<Rightarrow> 'f js_module \<Rightarrow> 'f js_result" where
  "Js_Query je sv args st =
     (if \<not> je_system_app je then (st, ThrowSystemAppPermissionError None, None)
      else if length args < QUERY_FUNC_MAX_PARAM_NUM
      then (st, ThrowParamMandatoryError ([''queryArg'', ''rules'', ''querier''] ! length args) None, None)
      else
        let params = js_params QUERY_FUNC_MAX_PARAM_NUM args in
        case query_request je (params ! 0) (params ! 1) of
          Inl pend \<Rightarrow> (st, pend, None)
        | Inr (pend, arg, rules) \<Rightarrow>
            if IsNullOrUndefined (je_napi je) (Some (params ! 2))
            then (st, ThrowParamTypeError ''querier'' ''Querier'' pend, None)
            else
              case new_reference je (params ! 2) st of (st1, ref) \<Rightarrow>
              case Base_Query sv arg rules (jm_registry st1) of (rg, ret) \<Rightarrow>
                (st1\<lparr>jm_registry := rg, jm_next_querier := jm_next_querier st1 + 1,
                    jm_queriers := (jm_queriers st1)(ref \<mapsto> (je_thread je, jm_next_querier st1))\<rparr>,
                 if ret \<noteq> NAPI_SUCCESS then ThrowErrorByRet ret pend else pend, None))"

text \<open>A result of less than 13 digits is an error code, of which the low 32 bits count.\<close>

definition time_stamp_or_error :: "js_env \<Rightarrow> int \<Rightarrow> js_pending \<Rightarrow> js_pending \<times> js_value option" where
  "time_stamp_or_error je ret pend =
     (if length (decimal_int ret) < TIME_STAMP_LENGTH
      then (ThrowErrorByRet (signed_take_bit 31 ret) pend, None)
      else (pend, Some (CreateInt64Value (je_maker je) (of_int ret))))"

definition ExportSysEvents :: "js_env \<Rightarrow> 'f server \<Rightarrow> js_value list \<Rightarrow> 'f js_module \<Rightarrow> 'f js_result" where
  "ExportSysEvents je sv args st =
     (if \<not> je_system_app je then (st, ThrowSystemAppPermissionError None, None)
      else if length args < EXPORT_FUNC_MAX_PARAM_NUM
      then (st, ThrowParamMandatoryError ([''queryArg'', ''rules''] ! length args) None, None)
      else
        let params = js_params EXPORT_FUNC_MAX_PARAM_NUM args in
        case query_request je (params ! 0) (params ! 1) of
          Inl pend \<Rightarrow> (st, pend, None)
        | Inr (pend, arg, rules) \<Rightarrow>
            (case Base_Export sv arg rules (jm_registry st) of (rg, ret) \<Rightarrow>
               (st\<lparr>jm_registry := rg\<rparr>, time_stamp_or_error je ret pend)))"

definition Js_Subscribe :: "js_env \<Rightarrow> 'f server \<Rightarrow> js_value list \<Rightarrow> 'f js_module \<Rightarrow> 'f js_result" where
  "Js_Subscribe je sv args st =
     (if \<not> je_system_app je then (st, ThrowSystemAppPermissionError None, None)
      else if length args < SUBSCRIBE_FUNC_MAX_PARAM_NUM then (st, ThrowParamMandatoryError ''rules'' None, None)
      else case ParseQueryRules (je_napi je) (Some (js_params SUBSCRIBE_FUNC_MAX_PARAM_NUM args ! 0)) [] None of
        (pend, parsed, rules) \<Rightarrow>
          if parsed \<noteq> SUCCESS then (st, pend, None)
          else (case Base_Subscribe sv rules (jm_registry st) of (rg, ret) \<Rightarrow>
            (st\<lparr>jm_registry := rg\<rparr>, time_stamp_or_error je ret pend)))"

definition Js_Unsubscribe :: "js_env \<Rightarrow> 'f server \<Rightarrow> 'f js_module \<Rightarrow> 'f js_result" where
  "Js_Unsubscribe je sv st =
     (if \<not> je_system_app je then (st, ThrowSystemAppPermissionError None, None)
      else case Base_Unsubscribe sv (jm_registry st) of (rg, ret) \<Rightarrow>
        (st\<lparr>jm_registry := rg\<rparr>, if ret \<noteq> NAPI_SUCCESS then ThrowErrorByRet ret None else None, None))"

section \<open>What a write achieves\<close>

text \<open>The order in which the parameters are walked is some order of them.\<close>

definition walks :: "js_env \<Rightarrow> bool" where
  "walks je \<longleftrightarrow> (\<forall>ps. mset (je_param_order je ps) = mset ps)"

lemma walked_params:
  assumes "walks je" "distinct (map fst ps)"
  shows "distinct (map fst (je_param_order je ps))" "map_of (je_param_order je ps) = map_of ps"
  using permuted_params [OF assms(1) [unfolded walks_def, rule_format] assms(2)] .

text \<open>How JavaScript learns of the code of a write.\<close>

definition write_outcome :: "bool \<Rightarrow> HiSysEventInfo \<Rightarrow> int \<Rightarrow> js_outcome" where
  "write_outcome promise info code =
     (if code = SUCCESS \<and> \<not> HasStrParamLenOverLimit info
      then (if promise then Resolved (Some 0) else CalledBack None (Some 0))
      else let err = CreateErrorByRet (if code = SUCCESS then ERR_VALUE_LENGTH_TOO_LONG else code) in
        (if promise then Rejected (Some err) else CalledBack (Some err) None))"

lemma no_short_call: "\<not> length (v # rest) < WRITE_FUNC_MAX_PARAM_NUM - 1"
  by (simp add: module_defs)

lemma write_params: "js_params WRITE_FUNC_MAX_PARAM_NUM (v # rest) = v # (if rest = [] then [Js_undefined] else [hd rest])"
  by (cases rest) (simp_all add: js_params_def module_defs numeral_2_eq_2)

text \<open>
  C35. An event written from JavaScript arrives as the event: for an object with domain, name,
  type and parameters, a call by a system application throws nothing and is the C++ write of
  that domain, name and type at the call site of the stack trace, with the default frequency
  limit, of parameters that are, key by key, those of the object with the types the values
  have; the writer ends in the same state, and JavaScript learns of the code of the C++ write,
  or of a string over its limit.
\<close>

theorem js_event_written:
  assumes laws: "napi_laws (je_napi je)" "walks je" and call: "je_system_app je" "je_memory je"
    and event: "event_object v domain name eventType qs"
  shows "\<exists>ps. distinct (map fst ps) \<and> (\<forall>k. rel_option typed_as (map_of qs k) (map_of ps k)) \<and>
    (let info = \<lparr>ei_domain = domain, ei_name = name, ei_eventType = eventType, ei_params = ps\<rparr>;
         promise = ac_promise (write_context je (v # rest) info);
         caller = ParseJsCallerInfo (je_trace je) ([], 0) in
     \<forall>w' code. HiSysEvent_Write_cpp (we\<lparr>we_param := default_param\<rparr>) (fst caller) (snd caller) domain name eventType
         (KeyValues (map (\<lambda>(k, p). (k, cpp_of_param p)) ps)) w = (w', code) \<longrightarrow>
       Js_Write je we (v # rest) w = (w', None, Some (write_outcome promise info code)))"
proof -
  obtain ps where ps: "ParseHiSysEventInfo (je_napi je) (js_params WRITE_FUNC_MAX_PARAM_NUM (v # rest)) info_new None =
      (None, \<lparr>ei_domain = domain, ei_name = name, ei_eventType = eventType, ei_params = ps\<rparr>)"
    "distinct (map fst ps)" "\<forall>k. rel_option typed_as (map_of qs k) (map_of ps k)"
    using event_read [OF laws(1) event] unfolding write_params by blast
  let ?walked = "je_param_order je ps"
  let ?info = "\<lparr>ei_domain = domain, ei_name = name, ei_eventType = eventType, ei_params = ?walked\<rparr>"
  let ?ctx = "write_context je (v # rest) \<lparr>ei_domain = domain, ei_name = name, ei_eventType = eventType, ei_params = ps\<rparr>"
  let ?caller = "ParseJsCallerInfo (je_trace je) ([], 0)"
  have ctx: "ac_eventWroteResult ?ctx = SUCCESS" "ac_eventInfo ?ctx = ?info" "ac_jsCallerInfo ?ctx = ?caller"
    "ac_promise (write_context je (v # rest) ?info) = ac_promise ?ctx"
    by (simp_all add: write_context_def Let_def)
  have "Js_Write je we (v # rest) w = (w', None, Some (write_outcome (ac_promise ?ctx) ?info code))"
    if "HiSysEvent_Write_cpp (we\<lparr>we_param := default_param\<rparr>) (fst ?caller) (snd ?caller) domain name eventType
         (KeyValues (map (\<lambda>(k, p). (k, cpp_of_param p)) ?walked)) w = (w', code)" for w' code
  proof -
    have "Napi_Write we ?ctx w = (w', write_outcome (ac_promise ?ctx) ?info code)"
      using js_write_is_cpp_write [OF ctx(1), of we w w' code] that by (simp add: ctx key_values_def write_outcome_def)
    then show ?thesis
      using call ps(1) no_short_call by (simp add: Js_Write_def)
  qed
  then show ?thesis
    using walked_params [OF laws(2) ps(2)] ps(3) ctx(4) by (intro exI [of _ ?walked]) (simp add: Let_def)
qed

text \<open>An environment for the examples.\<close>

definition plain_js_env :: js_env where
  "plain_js_env =
     \<lparr>je_napi = plain_napi, je_maker = plain_maker, je_system_app = True, je_memory = True, je_scope = True,
      je_thread = 1, je_trace = None, je_uninit = napi_undefined, je_refer = (\<lambda>v. True),
      je_strict_equals = (\<lambda>v x. Some (v = x)), je_param_order = rev, je_ref_order = (\<lambda>m. map Some [0..<10])\<rparr>"

lemma plain_js_env_simps [simp]:
  "je_napi plain_js_env = plain_napi" "je_system_app plain_js_env" "je_memory plain_js_env" "walks plain_js_env"
  "je_refer plain_js_env v" "je_thread plain_js_env = 1" "je_strict_equals plain_js_env v x = Some (v = x)"
  "je_ref_order plain_js_env m = map Some [0..<10]" "je_trace plain_js_env = None"
  by (simp_all add: plain_js_env_def walks_def)

definition plain_js_event :: js_value where
  "plain_js_event = Js_object 1
     [(''domain'', Js_string ''HIVIEW''), (''name'', Js_string ''LOAD''), (''eventType'', Js_number (f64_of_int 4)),
      (''params'', Js_object 2 [(''KEY'', Js_boolean True)])]"

lemma plain_js_event_object: "event_object plain_js_event ''HIVIEW'' ''LOAD'' 4 [(''KEY'', Js_boolean True)]"
proof -
  have "f64_rat (f64_of_int 4) = Some (of_int 4)"
    by (rule f64_rat_of_int) (simp_all add: fits_double_def bit_count.simps)
  moreover have "CheckKeyTypeString ''KEY''"
    by code_simp
  moreover have "Ex (typed_as (Js_boolean True))"
    by (blast intro: typed_as.t_bool)
  ultimately show ?thesis
    by (simp add: event_object_def plain_js_event_def attr_defs fits_buffer_def no_nul_def BUF_SIZE_def good_params_def
        good_key_def)
qed

inductive_cases typed_boolean: "typed_as (Js_boolean b) p"

theorem js_event_written_witness:
  "\<exists>ps w' code. map_of ps ''KEY'' = Some (BL True) \<and>
     Js_Write plain_js_env std_we [plain_js_event] std_w = (w', None, Some (write_outcome True
       \<lparr>ei_domain = ''HIVIEW'', ei_name = ''LOAD'', ei_eventType = 4, ei_params = ps\<rparr> code))"
proof -
  have env: "napi_laws (je_napi plain_js_env)" "walks plain_js_env" "je_system_app plain_js_env" "je_memory plain_js_env"
    by (simp_all add: plain_napi_laws)
  have promise: "ac_promise (write_context plain_js_env [plain_js_event] i)" for i
    by (simp add: write_context_def module_defs Let_def)
  note written = js_event_written [OF env plain_js_event_object, of "[]" std_we std_w]
  from written obtain ps where ps: "\<forall>k. rel_option typed_as (map_of [(''KEY'', Js_boolean True)] k) (map_of ps k)"
    and wr: "\<forall>w' code. HiSysEvent_Write_cpp (std_we\<lparr>we_param := default_param\<rparr>) [] 0 ''HIVIEW'' ''LOAD'' 4
         (KeyValues (map (\<lambda>(k, p). (k, cpp_of_param p)) ps)) std_w = (w', code) \<longrightarrow>
       Js_Write plain_js_env std_we [plain_js_event] std_w = (w', None, Some (write_outcome True
         \<lparr>ei_domain = ''HIVIEW'', ei_name = ''LOAD'', ei_eventType = 4, ei_params = ps\<rparr> code))"
    unfolding Let_def plain_js_env_simps ParseJsCallerInfo_def option.case fst_conv snd_conv
    using promise by (elim exE conjE) (simp only: if_True simp_thms that)
  have "map_of ps ''KEY'' = Some (BL True)"
    using ps [rule_format, of "''KEY''"] by (auto simp: option_rel_Some1 elim: typed_boolean)
  then show ?thesis
    using wr by (metis surj_pair)
qed

section \<open>What a query achieves\<close>

text \<open>The bounds of an argument as the service gets them; a negative one is no bound.\<close>

definition bounds_sent :: "int \<Rightarrow> int \<Rightarrow> int \<Rightarrow> query_argument" where
  "bounds_sent b e m =
     \<lparr>qa_beginTime = of_int (if b < 0 then 0 else b), qa_endTime = of_int (if e < 0 then 2 ^ 63 - 1 else e),
      qa_maxEvents = of_int (if m < 0 then 2 ^ 31 - 1 else m), qa_fromSeq = 0, qa_toSeq = 0\<rparr>"

lemma params_given:
  "length args = n \<Longrightarrow> js_params n args = args"
  by (simp add: js_params_def)

lemma request_read:
  assumes laws: "napi_laws (je_napi je)" and arg: "arg_object v b e m"
    and rules: "list_all2 rule_object vs rules" "list_all rule_valid rules"
  shows "\<exists>qarg. query_request je v (Js_array vs) = Inr (None, qarg, rules) \<and>
    \<lparr>qa_beginTime = ar_beginTime qarg, qa_endTime = ar_endTime qarg, qa_maxEvents = ar_maxEvents qarg,
     qa_fromSeq = ar_fromSeq qarg, qa_toSeq = ar_toSeq qarg\<rparr> = bounds_sent b e m"
  using arg_read [OF laws arg, of query_arg_default] rules_read [OF laws rules]
  by (simp add: query_request_def bounds_sent_def NAPI_SUCCESS_def SUCCESS_def)

lemma failed_call_throws: "ret \<noteq> 0 \<Longrightarrow> ThrowErrorByRet ret None = Some (CreateErrorByRet ret)"
  by (simp add: ThrowErrorByRet_def CreateErrorByRet_def ThrowError_def split: prod.split)

text \<open>
  C36. A query of JavaScript is one request to the service: for an argument with the two times
  and the count, an array of valid rules and a querier, the service gets the times and the
  count, a negative one as the widest bound, and the rules in their order; the querier is kept
  by a new entry of the table, and JavaScript sees the error of the table for the code of the
  service exactly when the code is no success.
\<close>

theorem js_query_sent:
  assumes laws: "napi_laws (je_napi je)" and call: "je_system_app je" "je_refer je q"
    and arg: "arg_object v b e m" and rules: "list_all2 rule_object vs rules" "list_all rule_valid rules"
    and querier: "q \<noteq> Js_null" "q \<noteq> Js_undefined"
    and service: "sv_present sv (rg_log (jm_registry st))"
  shows "let rq = QueryRequest (bounds_sent b e m) (ConvertQueryRule rules);
      reply = sv_reply sv (rg_log (jm_registry st)) rq in
    \<exists>st'. Js_Query je sv [v, Js_array vs, q] st =
      (st', if reply = 0 then None else Some (CreateErrorByRet reply), None) \<and>
    rg_log (jm_registry st') = rg_log (jm_registry st) @ [(rq, reply)] \<and>
    (\<exists>ref. jm_queriers st' = (jm_queriers st)(ref \<mapsto> (je_thread je, jm_next_querier st)) \<and>
       reference_value ref st' = Some q) \<and>
    jm_listeners st' = jm_listeners st"
proof -
  obtain qarg where rq: "query_request je v (Js_array vs) = Inr (None, qarg, rules)"
    and sent: "\<lparr>qa_beginTime = ar_beginTime qarg, qa_endTime = ar_endTime qarg, qa_maxEvents = ar_maxEvents qarg,
     qa_fromSeq = ar_fromSeq qarg, qa_toSeq = ar_toSeq qarg\<rparr> = bounds_sent b e m"
    using request_read [OF laws arg rules] by blast
  obtain st1 where new: "new_reference je q st = (st1, Some (jm_next_ref st))" "jm_registry st1 = jm_registry st"
    "jm_queriers st1 = jm_queriers st" "jm_next_querier st1 = jm_next_querier st" "jm_listeners st1 = jm_listeners st"
    "jm_refs st1 (jm_next_ref st) = Some q"
    using call(2) by (simp add: new_reference_def)
  let ?rq = "QueryRequest (bounds_sent b e m) (ConvertQueryRule rules)"
  let ?reply = "sv_reply sv (rg_log (jm_registry st)) ?rq"
  have ask: "Base_Query sv qarg rules (jm_registry st) =
      (jm_registry st\<lparr>rg_log := rg_log (jm_registry st) @ [(?rq, ?reply)]\<rparr>, ?reply)"
    using service sent by (simp add: Base_Query_def Delegate_Query_def request_server_def Let_def)
  have "\<not> IsNullOrUndefined (je_napi je) (Some q)"
    using querier by (cases q) (auto simp: IsNullOrUndefined_def napi_simps [OF laws])
  then have "Js_Query je sv [v, Js_array vs, q] st =
      (st1\<lparr>jm_registry := jm_registry st\<lparr>rg_log := rg_log (jm_registry st) @ [(?rq, ?reply)]\<rparr>,
         jm_next_querier := jm_next_querier st + 1,
         jm_queriers := (jm_queriers st)(Some (jm_next_ref st) \<mapsto> (je_thread je, jm_next_querier st))\<rparr>,
       if ?reply = 0 then None else Some (CreateErrorByRet ?reply), None)"
    using call rq ask new(1-4) failed_call_throws [of ?reply]
    by (simp add: Js_Query_def module_defs params_given NAPI_SUCCESS_def)
  then show ?thesis
    unfolding Let_def using new by (intro exI conjI) (assumption | simp add: reference_value_def)+
qed

definition plain_arg :: js_value where
  "plain_arg = Js_object 3
     [(''beginTime'', Js_bigint 5), (''endTime'', Js_bigint (-1)), (''maxEvents'', Js_number (f64_of_int 10))]"

definition plain_rule :: js_value where
  "plain_rule = Js_object 4 [(''domain'', Js_string ''HIVIEW''), (''names'', Js_array [Js_string ''LOAD''])]"

theorem js_query_sent_witness:
  "\<exists>st'. Js_Query plain_js_env kind_server [plain_arg, Js_array [plain_rule], Js_object 5 []] (js_module_new []) =
      (st', None, None) \<and>
    rg_log (jm_registry st') = [(QueryRequest (bounds_sent 5 (-1) 10)
      (ConvertQueryRule [QueryRule_new ''HIVIEW'' [''LOAD''] WHOLE_WORD 0 []]), 0)]"
proof -
  have "f64_rat (f64_of_int 10) = Some (of_int 10)"
    by (rule f64_rat_of_int) (simp_all add: fits_double_def bit_count.simps)
  then have arg: "arg_object plain_arg 5 (-1) 10"
    by (simp add: arg_object_def plain_arg_def attr_defs)
  have rules: "list_all2 rule_object [plain_rule] [QueryRule_new ''HIVIEW'' [''LOAD''] WHOLE_WORD 0 []]"
    by (simp add: rule_object_def plain_rule_def QueryRule_new_def attr_defs fits_buffer_def no_nul_def BUF_SIZE_def)
  have valid: "list_all rule_valid [QueryRule_new ''HIVIEW'' [''LOAD''] WHOLE_WORD 0 []]"
    by (simp add: rule_valid_def QueryRule_new_def) code_simp
  have env: "napi_laws (je_napi plain_js_env)" "je_system_app plain_js_env" "je_refer plain_js_env (Js_object 5 [])"
    by (simp_all add: plain_napi_laws)
  have service: "sv_present kind_server (rg_log (jm_registry (js_module_new [])))"
    by (simp add: kind_server_def)
  have "sv_reply kind_server log rq = 0" "rg_log (jm_registry (js_module_new [])) = []" for log rq
    by (simp_all add: kind_server_def js_module_new_def registry_new_def)
  then show ?thesis
    using js_query_sent [OF env arg rules valid _ _ service] unfolding Let_def by auto
qed

section \<open>Watchers and the service\<close>

text \<open>The states that calls of the module lead to, on any threads, when references can be created.\<close>

inductive js_reaches :: "'f server \<Rightarrow> 'f js_module \<Rightarrow> bool" for sv where
  start: "js_reaches sv (js_module_new files)"
| add: "js_reaches sv st \<Longrightarrow> (\<forall>v. je_refer je v) \<Longrightarrow> AddWatcher je sv args st = (st', pend, ret) \<Longrightarrow> js_reaches sv st'"
| remove: "js_reaches sv st \<Longrightarrow> RemoveWatcher je sv args st = (st', pend, ret) \<Longrightarrow> js_reaches sv st'"
| query: "js_reaches sv st \<Longrightarrow> Js_Query je sv args st = (st', pend, ret) \<Longrightarrow> js_reaches sv st'"
| release: "js_reaches sv st \<Longrightarrow> js_reaches sv (ReleaseQuerier je ref st)"
| export: "js_reaches sv st \<Longrightarrow> ExportSysEvents je sv args st = (st', pend, ret) \<Longrightarrow> js_reaches sv st'"
| subscribe: "js_reaches sv st \<Longrightarrow> Js_Subscribe je sv args st = (st', pend, ret) \<Longrightarrow> js_reaches sv st'"
| unsubscribe: "js_reaches sv st \<Longrightarrow> Js_Unsubscribe je sv st = (st', pend, ret) \<Longrightarrow> js_reaches sv st'"

text \<open>
  The listeners of the table account for what the service holds, and each entry has a
  reference that keeps the object of the watcher.
\<close>

definition watched :: "'f js_module \<Rightarrow> nat set" where
  "watched st = snd ` ran (jm_listeners st)"

definition module_ok :: "'f js_module \<Rightarrow> bool" where
  "module_ok st \<longleftrightarrow>
     backed (watched st) (jm_registry st) \<and> (\<forall>b \<in> watched st. b < rg_next (jm_registry st)) \<and>
     (\<forall>ref. jm_listeners st ref \<noteq> None \<longrightarrow> (\<exists>n < jm_next_ref st. ref = Some n \<and> jm_refs st n \<noteq> None))"

lemma watched_insert: "jm_listeners st ref = None \<Longrightarrow>
    watched (st\<lparr>jm_listeners := (jm_listeners st)(ref \<mapsto> (pid, l))\<rparr>) = insert l (watched st)"
  by (simp add: watched_def ran_map_upd)

lemma watched_erase: "watched (st\<lparr>jm_listeners := (jm_listeners st)(ref := None)\<rparr>) \<subseteq> watched st"
    "jm_listeners st ref = Some (pid, l) \<Longrightarrow> watched st - {l} \<subseteq> watched (st\<lparr>jm_listeners := (jm_listeners st)(ref := None)\<rparr>)"
proof -
  show "watched (st\<lparr>jm_listeners := (jm_listeners st)(ref := None)\<rparr>) \<subseteq> watched st"
    using ran_erase(1) [of "jm_listeners st" ref] by (auto simp: watched_def)
  show "watched st - {l} \<subseteq> watched (st\<lparr>jm_listeners := (jm_listeners st)(ref := None)\<rparr>)"
    if "jm_listeners st ref = Some (pid, l)"
    using ran_erase(2) [of "jm_listeners st" ref "(pid, l)"] that by (force simp: watched_def)
qed

lemma AddWatcher_cases:
  assumes call: "AddWatcher je sv args st = (st', pend, r)" and refer: "\<forall>v. je_refer je v" and changed: "st' \<noteq> st"
  obtains watcher rules rg1 l rg2 ret st1 where
    "new_base (jm_registry st) = (rg1, l)" "Base_AddListener sv (Some l) rules rg1 = (rg2, ret)"
    "st1 = st\<lparr>jm_refs := (jm_refs st)(jm_next_ref st \<mapsto> watcher), jm_next_ref := jm_next_ref st + 1, jm_registry := rg2\<rparr>"
    "st' = (if ret = 0 then st1\<lparr>jm_listeners := (jm_listeners st1)(Some (jm_next_ref st) \<mapsto> (je_thread je, l))\<rparr> else st1)"
proof -
  let ?watcher = "js_params ADD_LISTENER_FUNC_MAX_PARAM_NUM args ! 0"
  obtain p parsed rules where parse: "ParseListenerRules (je_napi je)
      (GetPropertyByName (je_napi je) None (Some ?watcher) RULES_ATTR) [] None = (p, parsed, rules)"
    by (rule prod_cases3)
  obtain rg1 l where base: "new_base (jm_registry st) = (rg1, l)"
    by (rule prod.exhaust)
  obtain rg2 ret where add: "Base_AddListener sv (Some l) rules rg1 = (rg2, ret)"
    by (rule prod.exhaust)
  let ?st1 = "st\<lparr>jm_refs := (jm_refs st)(jm_next_ref st \<mapsto> ?watcher), jm_next_ref := jm_next_ref st + 1, jm_registry := rg2\<rparr>"
  have "st' = (if ret = 0 then ?st1\<lparr>jm_listeners := (jm_listeners ?st1)(Some (jm_next_ref st) \<mapsto> (je_thread je, l))\<rparr> else ?st1)"
    using call changed refer parse base add
    by (simp add: AddWatcher_def new_reference_def NAPI_SUCCESS_def Let_def split: if_splits)
  then show thesis
    by (rule that [OF base add refl])
qed

lemma AddWatcher_ok:
  assumes ok: "module_ok st" and refer: "\<forall>v. je_refer je v" and call: "AddWatcher je sv args st = (st', pend, r)"
  shows "module_ok st'"
proof -
  show ?thesis
  proof (cases "st' = st")
    case False
    obtain watcher rules rg1 l rg2 ret st1 where added:
      "new_base (jm_registry st) = (rg1, l)" "Base_AddListener sv (Some l) rules rg1 = (rg2, ret)"
      "st1 = st\<lparr>jm_refs := (jm_refs st)(jm_next_ref st \<mapsto> watcher), jm_next_ref := jm_next_ref st + 1, jm_registry := rg2\<rparr>"
      "st' = (if ret = 0 then st1\<lparr>jm_listeners := (jm_listeners st1)(Some (jm_next_ref st) \<mapsto> (je_thread je, l))\<rparr> else st1)"
      by (rule AddWatcher_cases [OF call refer False])
    have free: "jm_listeners st (Some (jm_next_ref st)) = None"
      using ok unfolding module_ok_def by (metis less_irrefl option.inject)
    have w: "watched st' = (if ret = 0 then insert l (watched st) else watched st)" "jm_registry st' = rg2"
      using added(3,4) free watched_insert [of st1 "Some (jm_next_ref st)" "je_thread je" l] by (auto simp: watched_def)
    have refs: "jm_next_ref st' = jm_next_ref st + 1" "jm_refs st' = (jm_refs st)(jm_next_ref st \<mapsto> watcher)"
        "ref \<noteq> Some (jm_next_ref st) \<Longrightarrow> jm_listeners st' ref = jm_listeners st ref" for ref
      using added(3,4) by simp_all
    have "\<exists>n < jm_next_ref st'. ref = Some n \<and> jm_refs st' n \<noteq> None" if listed: "jm_listeners st' ref \<noteq> None" for ref
    proof (cases "ref = Some (jm_next_ref st)")
      case False
      then obtain n where "n < jm_next_ref st" "ref = Some n" "jm_refs st n \<noteq> None"
        using ok listed refs(3) unfolding module_ok_def by metis
      then show ?thesis
        using refs(1,2) by (intro exI [of _ n]) simp
    qed (use refs(1,2) in simp)
    moreover have "backed (watched st') rg2" "l < rg_next rg2"
      using base_manager.fresh_add [OF _ added(1,2), of "watched st"] ok by (auto simp: module_ok_def w)
    moreover have "c < rg_next rg2" if "c \<in> watched st" for c
      using base_manager.fresh_add_keeps [OF added(1,2), of c] ok that by (auto simp: module_ok_def)
    ultimately show ?thesis
      unfolding module_ok_def w by (auto split: if_splits)
  qed (use ok in simp)
qed

lemma found_entry:
  assumes "CompareAndReturnCacheItem je st standard resources = Some (ref, obj)"
  shows "resources ref = Some (je_thread je, obj)"
    and "\<exists>val. reference_value ref st = Some val \<and> je_strict_equals je standard val = Some True"
proof -
  obtain r where r: "find (\<lambda>ref. case resources ref of
            None \<Rightarrow> False
          | Some (pid, _) \<Rightarrow> pid = je_thread je \<and>
              (case reference_value ref st of
                 None \<Rightarrow> False
               | Some val \<Rightarrow> je_strict_equals je standard val = Some True)) (je_ref_order je resources) = Some r"
      "map_option (\<lambda>(pid, obj). (r, obj)) (resources r) = Some (ref, obj)"
    using assms by (auto simp: CompareAndReturnCacheItem_def split: option.splits)
  then show "resources ref = Some (je_thread je, obj)"
      "\<exists>val. reference_value ref st = Some val \<and> je_strict_equals je standard val = Some True"
    by (auto simp: find_Some_iff split: option.splits prod.splits)
qed

lemma RemoveWatcher_ok:
  assumes "reliable sv" "module_ok st" "RemoveWatcher je sv args st = (st', pend, r)"
  shows "module_ok st'"
proof -
  consider (refused) "st' = st"
    | (asked) standard ref l rg ret where
      "CompareAndReturnCacheItem je st standard (jm_listeners st) = Some (ref, l)"
      "Base_RemoveListener sv (Some l) (jm_registry st) = (rg, ret)"
      "st' = (if ret = 0 then st\<lparr>jm_registry := rg, jm_listeners := (jm_listeners st)(ref := None)\<rparr> else st\<lparr>jm_registry := rg\<rparr>)"
    using assms(3) by (auto simp: RemoveWatcher_def NAPI_SUCCESS_def Let_def split: if_splits prod.splits option.splits)
  then show ?thesis
  proof cases
    case refused
    then show ?thesis
      using assms(2) by simp
  next
    case asked
    note entry = found_entry(1) [OF asked(1)]
    have w: "watched st' \<subseteq> watched st" "watched st - {l} \<subseteq> watched st'" "ret \<noteq> 0 \<Longrightarrow> watched st' = watched st"
        "jm_registry st' = rg"
      using watched_erase(1) [of st ref] watched_erase(2) [OF entry] by (auto simp: asked(3) watched_def)
    have "backed (if ret = 0 then watched st - {l} else watched st) rg"
      using base_manager.remove_law [OF assms(1) _ asked(2)] assms(2) by (simp add: module_ok_def)
    then have "backed (watched st') rg"
      using base_manager.inv_mono w(2,3) by (metis (full_types))
    moreover have "c < rg_next rg" if "c \<in> watched st'" for c
      using base_manager.remove_keeps [OF asked(2), of c] assms(2) that w(1) by (auto simp: module_ok_def)
    moreover have "jm_listeners st' ref' \<noteq> None \<Longrightarrow> \<exists>n < jm_next_ref st'. ref' = Some n \<and> jm_refs st' n \<noteq> None" for ref'
      using assms(2) by (auto simp: asked(3) module_ok_def split: if_splits)
    ultimately show ?thesis
      unfolding module_ok_def w(4) by blast
  qed
qed

text \<open>Every other call leaves the table alone and the references that there are.\<close>

lemma calm_ok:
  assumes "module_ok st" "quiet (jm_registry st) (jm_registry st')" "jm_listeners st' = jm_listeners st"
    "jm_next_ref st \<le> jm_next_ref st'" "\<And>n. n < jm_next_ref st \<Longrightarrow> jm_refs st' n = jm_refs st n"
  shows "module_ok st'"
proof -
  have "watched st' = watched st"
    using assms(3) by (simp add: watched_def)
  moreover have "jm_listeners st' ref \<noteq> None \<Longrightarrow> \<exists>n < jm_next_ref st'. ref = Some n \<and> jm_refs st' n \<noteq> None" for ref
    using assms(1,3,4) assms(5) unfolding module_ok_def by (metis order_less_le_trans)
  ultimately show ?thesis
    using assms(1,2) by (simp add: module_ok_def quiet_def backed_def callback_of_def)
qed

lemma Base_Query_quiet: "quiet st (fst (Base_Query sv arg rules st))"
  using quiet_calls(1) [of st sv arg rules] by (simp add: Manager_Query_def)

lemma calm_calls:
  assumes "module_ok st"
  shows "Js_Query je sv args st = (st', pend, ret) \<Longrightarrow> module_ok st'"
    "ExportSysEvents je sv args st = (st', pend, ret) \<Longrightarrow> module_ok st'"
    "Js_Subscribe je sv args st = (st', pend, ret) \<Longrightarrow> module_ok st'"
    "Js_Unsubscribe je sv st = (st', pend, ret) \<Longrightarrow> module_ok st'"
    "module_ok (ReleaseQuerier je ref st)"
proof -
  have regs: "module_ok (st\<lparr>jm_registry := fst (f (jm_registry st))\<rparr>)"
    if "quiet (jm_registry st) (fst (f (jm_registry st)))" for f :: "'a registry \<Rightarrow> 'a registry \<times> int"
    by (rule calm_ok [OF assms]) (use that in simp_all)
  show "module_ok st'" if call: "Js_Query je sv args st = (st', pend, ret)"
  proof (cases "st' = st")
    case False
    then obtain v st1 r rg code arg rules where new: "new_reference je v st = (st1, r)"
      and asked: "Base_Query sv arg rules (jm_registry st1) = (rg, code)"
      and st': "jm_registry st' = rg" "jm_listeners st' = jm_listeners st1" "jm_next_ref st' = jm_next_ref st1"
        "jm_refs st' = jm_refs st1"
      using call by (auto simp: Js_Query_def Let_def split: if_splits prod.splits sum.splits)
    show ?thesis
      by (rule calm_ok [OF assms])
        (use new asked Base_Query_quiet [of "jm_registry st1" sv arg rules] in
          \<open>auto simp: st' new_reference_def split: if_splits\<close>)
  qed (use assms in simp)
  have "module_ok (st\<lparr>jm_registry := rg\<rparr>)" if "Base_Export sv arg rules (jm_registry st) = (rg, code)" for arg rules rg code
    using regs [of "Base_Export sv arg rules"] quiet_calls(2) [of "jm_registry st" sv arg rules] that by simp
  then show "module_ok st'" if "ExportSysEvents je sv args st = (st', pend, ret)"
    using that assms by (auto simp: ExportSysEvents_def Let_def split: if_splits prod.splits sum.splits)
  have "module_ok (st\<lparr>jm_registry := rg\<rparr>)" if "Base_Subscribe sv rules (jm_registry st) = (rg, code)" for rules rg code
    using regs [of "Base_Subscribe sv rules"] quiet_calls(3) [of "jm_registry st" sv rules] that by simp
  then show "module_ok st'" if "Js_Subscribe je sv args st = (st', pend, ret)"
    using that assms by (auto simp: Js_Subscribe_def Let_def split: if_splits prod.splits)
  have "module_ok (st\<lparr>jm_registry := rg\<rparr>)" if "Base_Unsubscribe sv (jm_registry st) = (rg, code)" for rg code
    using regs [of "Base_Unsubscribe sv"] quiet_calls(4) [of "jm_registry st" sv] that by simp
  then show "module_ok st'" if "Js_Unsubscribe je sv st = (st', pend, ret)"
    using that assms by (auto simp: Js_Unsubscribe_def Let_def split: if_splits prod.splits)
  show "module_ok (ReleaseQuerier je ref st)"
    by (rule calm_ok [OF assms]) (auto simp: ReleaseQuerier_def quiet_refl split: option.split)
qed

lemma js_reaches_ok:
  assumes "reliable sv" "js_reaches sv st"
  shows "module_ok st"
  using assms(2)
proof induction
  case (start files)
  then show ?case
    by (simp add: module_ok_def js_module_new_def registry_new_def watched_def backed_def ran_def)
qed (blast intro: AddWatcher_ok RemoveWatcher_ok [OF assms(1)] calm_calls)+

text \<open>
  C37. No watcher of JavaScript is lost: after any calls of the module, on any threads, as long
  as the service answers removals, each callback the service holds is that of an entry of the
  table of watchers, whose reference keeps the object that the watcher was added with, so that
  it can be found and removed.
\<close>

theorem js_watchers_accounted:
  assumes "reliable sv" "js_reaches sv st" "cb \<in> served (rg_log (jm_registry st))"
  shows "\<exists>n thread l dg watcher. jm_listeners st (Some n) = Some (thread, l) \<and> jm_refs st n = Some watcher \<and>
    rg_proxy (jm_registry st) l = Some dg \<and> dg_spListenerCallBack dg = Some cb"
proof -
  have ok: "module_ok st"
    by (rule js_reaches_ok [OF assms(1,2)])
  then obtain l where l: "l \<in> watched st" "callback_of (jm_registry st) l = Some cb"
    using assms(3) by (auto simp: module_ok_def backed_def)
  then obtain ref thread where entry: "jm_listeners st ref = Some (thread, l)"
    by (auto simp: watched_def ran_def)
  then obtain n where "ref = Some n" "jm_refs st n \<noteq> None"
    using ok by (force simp: module_ok_def)
  then show ?thesis
    using entry l(2) by (fastforce simp: callback_of_def split: option.splits)
qed

definition plain_watcher :: js_value where
  "plain_watcher = Js_object 6 [(''rules'', Js_array [])]"

lemma plain_watcher_added:
  obtains st where "AddWatcher plain_js_env kind_server [plain_watcher] (js_module_new []) = (st, None, None)"
    "served (rg_log (jm_registry st)) = {1}" "jm_listeners st = [Some 0 \<mapsto> (1, 0)]" "jm_refs st 0 = Some plain_watcher"
    "callback_of (jm_registry st) 0 = Some 1"
proof -
  have "ParseListenerRules plain_napi (GetPropertyByName plain_napi None (Some plain_watcher) ''rules'') [] None =
      (None, 0, [])"
    by (simp add: ParseListenerRules_def rules_array_def CheckValueIsArray_def IsValueTypeValid_def GetValueType_def
        plain_napi_def plain_watcher_def GetPropertyByName_def NAPI_SUCCESS_def)
  then show thesis
    using that
    by (simp add: AddWatcher_def module_defs js_params_def SUCCESS_def NAPI_SUCCESS_def new_reference_def
        js_module_new_def registry_eval kind_server_def callback_of_def served_def IPC_CALL_SUCCEED_def)
qed

theorem js_watchers_accounted_witness:
  "\<exists>st n. js_reaches kind_server st \<and> 1 \<in> served (rg_log (jm_registry st)) \<and> jm_refs st n = Some plain_watcher \<and>
     jm_listeners st (Some n) \<noteq> None"
proof -
  obtain st where st: "AddWatcher plain_js_env kind_server [plain_watcher] (js_module_new []) = (st, None, None)"
    "served (rg_log (jm_registry st)) = {1}" "jm_listeners st = [Some 0 \<mapsto> (1, 0)]" "jm_refs st 0 = Some plain_watcher"
    by (rule plain_watcher_added)
  have "js_reaches kind_server st"
    by (rule js_reaches.add [OF js_reaches.start _ st(1)]) simp
  from js_watchers_accounted [OF kind_server_reliable this, of 1] this st show ?thesis
    by (auto split: if_splits)
qed

text \<open>
  A watcher is removed by the object it was added with: when the entry is the only one of this
  thread with the object, the callback is taken back and the entry is gone.
\<close>

lemma watcher_removed:
  assumes "reliable sv" and call: "je_system_app je" "\<And>v x. je_strict_equals je v x = Some (v = x)"
      "set (je_ref_order je (jm_listeners st)) \<supseteq> dom (jm_listeners st)"
    and entry: "jm_listeners st (Some n) = Some (je_thread je, l)" "jm_refs st n = Some watcher"
    and only: "\<And>ref l'. jm_listeners st ref = Some (je_thread je, l') \<Longrightarrow> reference_value ref st = Some watcher \<Longrightarrow> ref = Some n"
    and held: "callback_of (jm_registry st) l = Some cb"
  shows "\<exists>st'. RemoveWatcher je sv [watcher] st = (st', None, None) \<and>
    jm_listeners st' = (jm_listeners st)(Some n := None) \<and>
    rg_log (jm_registry st') = rg_log (jm_registry st) @ [(RemoveRequest cb, 0)]"
proof -
  define P where "P = (\<lambda>ref. case jm_listeners st ref of None \<Rightarrow> False
    | Some (pid, _) \<Rightarrow> pid = je_thread je \<and>
        (case reference_value ref st of None \<Rightarrow> False | Some val \<Rightarrow> je_strict_equals je watcher val = Some True))"
  have P: "P ref \<longleftrightarrow> ref = Some n" for ref
  proof
    assume "P ref"
    then obtain l' where "jm_listeners st ref = Some (je_thread je, l')" "reference_value ref st = Some watcher"
      by (auto simp: P_def call(2) split: option.splits)
    then show "ref = Some n"
      by (rule only)
  qed (simp add: P_def entry call(2) reference_value_def)
  have "Some n \<in> set (je_ref_order je (jm_listeners st))"
    using call(3) entry(1) by blast
  then have "find P (je_ref_order je (jm_listeners st)) \<noteq> None"
    using P by (simp add: find_None_iff)
  then obtain r where r: "find P (je_ref_order je (jm_listeners st)) = Some r"
    by blast
  then have "P r"
    by (auto simp: find_Some_iff)
  then have "find P (je_ref_order je (jm_listeners st)) = Some (Some n)"
    using r P by simp
  then have found: "CompareAndReturnCacheItem je st watcher (jm_listeners st) = Some (Some n, l)"
    using entry(1) by (simp add: CompareAndReturnCacheItem_def P_def)
  obtain dg where "rg_proxy (jm_registry st) l = Some dg" "dg_spListenerCallBack dg = Some cb"
    using held by (auto simp: callback_of_def split: option.splits)
  then show ?thesis
    using found assms(1) call(1)
    by (simp add: RemoveWatcher_def module_defs js_params_def Base_RemoveListener_def Delegate_RemoveListener_def
        request_server_def reliable_def NAPI_SUCCESS_def IPC_CALL_SUCCEED_def Let_def)
qed

section \<open>Surprises\<close>

text \<open>A rule with an invalid name throws, and yet the query is sent without it; if it is the only
  rule, a query without any rule is sent.\<close>

lemma invalid_rule_query_sent:
  assumes laws: "napi_laws (je_napi je)" and arg: "arg_object v b e m"
    and "rule_object rv rule" "\<not> rule_valid rule"
  shows "\<exists>err qarg. query_request je v (Js_array [rv]) = Inr (Some err, qarg, [])"
proof -
  obtain err where "ParseQueryRules (je_napi je) (Some (Js_array [rv])) [] None = (Some err, NAPI_SUCCESS, [])"
    using invalid_last_rule_dropped [OF laws, of "[]" "[]" rv rule] assms(3,4) by auto
  then show ?thesis
    using arg_read [OF laws arg, of query_arg_default] by (simp add: query_request_def NAPI_SUCCESS_def SUCCESS_def)
qed

text \<open>The entry of a refused query stays: the service never completes it.\<close>

lemma refused_query_kept:
  assumes "query_request je v rules = Inr (None, qarg, qrules)" "je_system_app je" "je_refer je q"
    "\<not> IsNullOrUndefined (je_napi je) (Some q)" "\<not> sv_present sv (rg_log (jm_registry st))"
  shows "\<exists>st'. Js_Query je sv [v, rules, q] st = (st', Some (CreateErrorByRet ERR_SYS_EVENT_SERVICE_NOT_FOUND), None) \<and>
    jm_registry st' = jm_registry st \<and> jm_queriers st' (Some (jm_next_ref st)) = Some (je_thread je, jm_next_querier st)"
  using assms failed_call_throws [of ERR_SYS_EVENT_SERVICE_NOT_FOUND]
  by (simp add: Js_Query_def module_defs params_given new_reference_def Base_Query_def Delegate_Query_def
      NAPI_SUCCESS_def ERR_SYS_EVENT_SERVICE_NOT_FOUND_def)

end
