(* ===== verification/AniValue.thy ===== *)
theory AniValue
  imports JsEvent
begin

text \<open>
  Values of ArkTS (hisysevent_ani_util.cpp and .h under src/interfaces/ets/ani/hisysevent):
  reading and creating them, the errors thrown, and the object of an event. The runtime is not
  part of the repository: the functions of its interface that the code calls are the fields of
  the record \<open>ani\<close>, and their documented behaviour is \<open>ani_laws\<close>.
\<close>

section \<open>The runtime\<close>

datatype ani_value =
    Ani_undefined
  | Ani_null
  | Ani_boolean bool
  | Ani_int "32 word"
  | Ani_long "64 word"
  | Ani_double "64 word"
  | Ani_string string
  | Ani_bigint int
  | Ani_enum "32 word"
  | Ani_array "ani_value list"
  | Ani_object nat "(string \<times> ani_value) list"
  | Ani_function nat

text \<open>
  One step of the iterator over the keys of a record: a call that fails, a flag or a key that
  cannot be got, or a key. The end of the list of steps is the end of the iteration.
\<close>

datatype ani_step = Next_failed | Done_failed | Key_failed | Next_key ani_value

datatype ani_argument = No_argument | Double_argument "64 word" | Boolean_argument bool | Int_argument "32 word"

text \<open>
  The handle of a class is its name, that of a method the name of its class and its own; \<open>None\<close>
  is a status other than \<^verbatim>\<open>ANI_OK\<close>. A reference may be null, which is \<open>None\<close>, too. \<open>an_garbage\<close>
  and \<open>an_garbage_size\<close> are what an uninitialised reference and an uninitialised size hold.
\<close>

record ani =
  an_find_class :: "string \<Rightarrow> bool"
  an_find_method :: "string \<Rightarrow> string \<Rightarrow> string option \<Rightarrow> bool"
  an_find_static :: "string \<Rightarrow> string \<Rightarrow> bool"
  an_find_enum :: "string \<Rightarrow> bool"
  an_is_array :: "ani_value option \<Rightarrow> bool option"
  an_is_undefined :: "ani_value option \<Rightarrow> bool option"
  an_instance_of :: "ani_value option \<Rightarrow> string \<Rightarrow> bool option"
  an_call_boolean :: "ani_value \<Rightarrow> string \<Rightarrow> string \<Rightarrow> bool option"
  an_call_int :: "ani_value \<Rightarrow> string \<Rightarrow> string \<Rightarrow> 32 word option"
  an_call_long :: "ani_value \<Rightarrow> string \<Rightarrow> string \<Rightarrow> 64 word option"
  an_call_double :: "ani_value \<Rightarrow> string \<Rightarrow> string \<Rightarrow> 64 word option"
  an_keys :: "ani_value \<Rightarrow> ani_step list option"
  an_get :: "ani_value \<Rightarrow> ani_value \<Rightarrow> ani_value option"
  an_utf8_size :: "ani_value \<Rightarrow> nat option"
  an_utf8 :: "ani_value \<Rightarrow> nat \<Rightarrow> string option"
  an_length :: "ani_value \<Rightarrow> nat option"
  an_element :: "ani_value \<Rightarrow> nat \<Rightarrow> ani_value option"
  an_property :: "ani_value \<Rightarrow> string \<Rightarrow> ani_value option"
  an_property_long :: "ani_value \<Rightarrow> string \<Rightarrow> 64 word option"
  an_enum_int :: "ani_value \<Rightarrow> 32 word option"
  an_new :: "string \<Rightarrow> string option \<Rightarrow> ani_argument \<Rightarrow> ani_value option"
  an_new_string :: "string \<Rightarrow> ani_value option"
  an_new_array :: "nat \<Rightarrow> ani_value option \<Rightarrow> ani_value option"
  an_undefined :: "ani_value option"
  an_enum_item :: "string \<Rightarrow> nat \<Rightarrow> ani_value option"
  an_set :: "ani_value \<Rightarrow> string \<Rightarrow> ani_value option \<Rightarrow> ani_value option"
  an_set_int :: "ani_value \<Rightarrow> string \<Rightarrow> 32 word \<Rightarrow> ani_value option"
  an_set_element :: "ani_value \<Rightarrow> nat \<Rightarrow> ani_value option \<Rightarrow> ani_value option"
  an_throw :: "ani_value \<Rightarrow> bool"
  an_garbage :: "ani_value option"
  an_garbage_size :: nat

section \<open>Reading\<close>

definition CLASS_NAME_INT :: string where "CLASS_NAME_INT = ''std.core.Int''"
definition CLASS_NAME_BOOLEAN :: string where "CLASS_NAME_BOOLEAN = ''std.core.Boolean''"
definition CLASS_NAME_DOUBLE :: string where "CLASS_NAME_DOUBLE = ''std.core.Double''"
definition CLASS_NAME_STRING :: string where "CLASS_NAME_STRING = ''std.core.String''"
definition CLASS_NAME_BIGINT :: string where "CLASS_NAME_BIGINT = ''std.core.BigInt''"
definition CLASS_NAME_ARRAY :: string where "CLASS_NAME_ARRAY = ''std.core.Array''"
definition CLASS_NAME_SYSEVENTINFOANI :: string where "CLASS_NAME_SYSEVENTINFOANI = ''@ohos.hiSysEvent.SysEventInfoAni''"
definition ENUM_NAME_EVENT_TYPE :: string where "ENUM_NAME_EVENT_TYPE = ''@ohos.hiSysEvent.hiSysEvent.EventType''"
definition CLASS_NAME_RESULTINNER :: string where "CLASS_NAME_RESULTINNER = ''@ohos.hiSysEvent.ResultInner''"
definition CLASS_NAME_BUSINESSERROR :: string where "CLASS_NAME_BUSINESSERROR = ''@ohos.base.BusinessError''"
definition FUNC_NAME_GETLONG :: string where "FUNC_NAME_GETLONG = ''getLong''"
definition FUNC_NAME_TOBOOLEAN :: string where "FUNC_NAME_TOBOOLEAN = ''toBoolean''"
definition FUNC_NAME_TOINT :: string where "FUNC_NAME_TOINT = ''toInt''"
definition FUNC_NAME_TODOUBLE :: string where "FUNC_NAME_TODOUBLE = ''toDouble''"
definition CONSTRUCTOR_NAME :: string where "CONSTRUCTOR_NAME = ''<ctor>''"

lemmas ani_name_defs = CLASS_NAME_INT_def CLASS_NAME_BOOLEAN_def CLASS_NAME_DOUBLE_def CLASS_NAME_STRING_def
  CLASS_NAME_BIGINT_def CLASS_NAME_ARRAY_def CLASS_NAME_SYSEVENTINFOANI_def ENUM_NAME_EVENT_TYPE_def
  CLASS_NAME_RESULTINNER_def CLASS_NAME_BUSINESSERROR_def FUNC_NAME_GETLONG_def FUNC_NAME_TOBOOLEAN_def
  FUNC_NAME_TOINT_def FUNC_NAME_TODOUBLE_def CONSTRUCTOR_NAME_def

text \<open>The environment is never null: the runtime passes it to every call.\<close>

definition Ani_IsArray :: "ani \<Rightarrow> ani_value option \<Rightarrow> bool" where
  "Ani_IsArray an obj =
     (if \<not> an_find_class an CLASS_NAME_ARRAY then False
      else if \<not> an_find_static an CLASS_NAME_ARRAY ''isArray'' then False
      else case an_is_array an obj of None \<Rightarrow> False | Some isArray \<Rightarrow> isArray)"

definition Ani_IsRefUndefined :: "ani \<Rightarrow> ani_value option \<Rightarrow> bool" where
  "Ani_IsRefUndefined an ref = (case an_is_undefined an ref of None \<Rightarrow> False | Some isUndefined \<Rightarrow> isUndefined)"

definition Ani_ParseBigintValue :: "ani \<Rightarrow> ani_value option \<Rightarrow> 64 word" where
  "Ani_ParseBigintValue an ref =
     (if \<not> an_find_class an CLASS_NAME_BIGINT then 0
      else if \<not> an_find_method an CLASS_NAME_BIGINT FUNC_NAME_GETLONG (Some '':l'') then 0
      else case Option.bind ref (\<lambda>v. an_call_long an v CLASS_NAME_BIGINT FUNC_NAME_GETLONG) of
        None \<Rightarrow> 0 | Some longNum \<Rightarrow> longNum)"

definition Ani_ParseBoolValue :: "ani \<Rightarrow> ani_value option \<Rightarrow> bool" where
  "Ani_ParseBoolValue an ref =
     (if \<not> an_find_class an CLASS_NAME_BOOLEAN then False
      else if \<not> an_find_method an CLASS_NAME_BOOLEAN FUNC_NAME_TOBOOLEAN (Some '':z'') then False
      else case Option.bind ref (\<lambda>v. an_call_boolean an v CLASS_NAME_BOOLEAN FUNC_NAME_TOBOOLEAN) of
        None \<Rightarrow> False | Some booleanVal \<Rightarrow> booleanVal)"

definition Ani_ParseIntValue :: "ani \<Rightarrow> ani_value option \<Rightarrow> 32 word" where
  "Ani_ParseIntValue an ref =
     (if \<not> an_find_class an CLASS_NAME_INT then 0
      else if \<not> an_find_method an CLASS_NAME_INT FUNC_NAME_TOINT (Some '':i'') then 0
      else case Option.bind ref (\<lambda>v. an_call_int an v CLASS_NAME_INT FUNC_NAME_TOINT) of
        None \<Rightarrow> 0 | Some intVal \<Rightarrow> intVal)"

definition Ani_ParseNumberValue :: "ani \<Rightarrow> ani_value option \<Rightarrow> 64 word" where
  "Ani_ParseNumberValue an ref =
     (if \<not> an_find_class an CLASS_NAME_DOUBLE then 0
      else if \<not> an_find_method an CLASS_NAME_DOUBLE FUNC_NAME_TODOUBLE (Some '':d'') then 0
      else case Option.bind ref (\<lambda>v. an_call_double an v CLASS_NAME_DOUBLE FUNC_NAME_TODOUBLE) of
        None \<Rightarrow> 0 | Some doubleVal \<Rightarrow> doubleVal)"

text \<open>A text is read as a C string.\<close>

definition Ani_ParseStringValue :: "ani \<Rightarrow> ani_value option \<Rightarrow> string" where
  "Ani_ParseStringValue an ref =
     (case Option.bind ref (an_utf8_size an) of
        None \<Rightarrow> []
      | Some strSize \<Rightarrow>
          (case Option.bind ref (\<lambda>v. an_utf8 an v (strSize + 1)) of
             None \<Rightarrow> []
           | Some content \<Rightarrow> cut_at_nul content))"

definition Ani_AniStringToStdString :: "ani \<Rightarrow> ani_value option \<Rightarrow> string" where
  "Ani_AniStringToStdString an ref =
     (let strSize = (case Option.bind ref (an_utf8_size an) of None \<Rightarrow> an_garbage_size an | Some n \<Rightarrow> n) in
      case Option.bind ref (\<lambda>v. an_utf8 an v (strSize + 1)) of None \<Rightarrow> [] | Some content \<Rightarrow> cut_at_nul content)"

text \<open>\<^verbatim>\<open>std::map\<close> keeps its keys in the order of their bytes.\<close>

fun text_less :: "string \<Rightarrow> string \<Rightarrow> bool" where
  "text_less s [] = False"
| "text_less [] (d # t) = True"
| "text_less (c # s) (d # t) =
     ((of_char c :: nat) < of_char d \<or> c = d \<and> text_less s t)"

fun map_put :: "string \<Rightarrow> 'v \<Rightarrow> (string \<times> 'v) list \<Rightarrow> (string \<times> 'v) list" where
  "map_put k v [] = [(k, v)]"
| "map_put k v (kv # m) =
     (if fst kv = k then (k, v) # m else if text_less k (fst kv) then (k, v) # kv # m else kv # map_put k v m)"

primrec record_loop ::
  "ani \<Rightarrow> ani_value \<Rightarrow> ani_step list \<Rightarrow> (string \<times> ani_value) list \<Rightarrow> (string \<times> ani_value) list" where
  "record_loop an recordRef [] recordResult = recordResult"
| "record_loop an recordRef (s # steps) recordResult =
     (case s of
        Next_key keyRef \<Rightarrow>
          (case an_get an recordRef keyRef of
             None \<Rightarrow> recordResult
           | Some valueRef \<Rightarrow>
               let keyStr = Ani_ParseStringValue an (Some keyRef) in
               record_loop an recordRef steps
                 (if \<not> CheckKeyTypeString keyStr then recordResult else map_put keyStr valueRef recordResult))
      | _ \<Rightarrow> recordResult)"

definition Ani_ParseRecord :: "ani \<Rightarrow> ani_value option \<Rightarrow> (string \<times> ani_value) list" where
  "Ani_ParseRecord an recordRef =
     (case recordRef of
        None \<Rightarrow> []
      | Some r \<Rightarrow> (case an_keys an r of None \<Rightarrow> [] | Some steps \<Rightarrow> record_loop an r steps []))"

text \<open>
  The five functions that read an array end with false at the first element that cannot be
  got; their result is given up then.
\<close>

definition read_elements :: "ani \<Rightarrow> (ani_value option \<Rightarrow> 'a) \<Rightarrow> ani_value option \<Rightarrow> 'a list option" where
  "read_elements an parse arrayRef =
     (case Option.bind arrayRef (an_length an) of
        None \<Rightarrow> None
      | Some len \<Rightarrow>
          let els = map (\<lambda>i. Option.bind arrayRef (\<lambda>v. an_element an v i)) [0..<len] in
          if None \<in> set els then None else Some (map parse els))"

definition GetBooleans :: "ani \<Rightarrow> ani_value option \<Rightarrow> bool list option" where
  "GetBooleans an arrayRef = read_elements an (Ani_ParseBoolValue an) arrayRef"

definition GetDoubles :: "ani \<Rightarrow> ani_value option \<Rightarrow> 64 word list option" where
  "GetDoubles an arrayRef = read_elements an (Ani_ParseNumberValue an) arrayRef"

definition GetStrings :: "ani \<Rightarrow> ani_value option \<Rightarrow> string list option" where
  "GetStrings an arrayRef = read_elements an (Ani_ParseStringValue an) arrayRef"

definition GetIntsToDoubles :: "ani \<Rightarrow> ani_value option \<Rightarrow> 64 word list option" where
  "GetIntsToDoubles an arrayRef = read_elements an (\<lambda>el. f64_of_int (sint (Ani_ParseIntValue an el))) arrayRef"

definition GetBigints :: "ani \<Rightarrow> ani_value option \<Rightarrow> 64 word list option" where
  "GetBigints an arrayRef = read_elements an (Ani_ParseBigintValue an) arrayRef"

section \<open>Creating\<close>

text \<open>All functions that create an object look up its class and its constructor first.\<close>

definition new_object :: "ani \<Rightarrow> string \<Rightarrow> string option \<Rightarrow> ani_argument \<Rightarrow> ani_value option" where
  "new_object an cls sig arg =
     (if \<not> an_find_class an cls then None
      else if \<not> an_find_method an cls CONSTRUCTOR_NAME sig then None
      else an_new an cls sig arg)"

definition CreateDoubleInt64 :: "ani \<Rightarrow> 64 word \<Rightarrow> ani_value option" where
  "CreateDoubleInt64 an number = new_object an CLASS_NAME_DOUBLE (Some ''d:'') (Double_argument (f64_of_int (sint number)))"

definition CreateDouble :: "ani \<Rightarrow> 64 word \<Rightarrow> ani_value option" where
  "CreateDouble an number = new_object an CLASS_NAME_DOUBLE (Some ''d:'') (Double_argument number)"

definition CreateBool :: "ani \<Rightarrow> bool \<Rightarrow> ani_value option" where
  "CreateBool an boolValue = new_object an CLASS_NAME_BOOLEAN (Some ''d:'') (Boolean_argument boolValue)"

definition CreateDoubleUint64 :: "ani \<Rightarrow> 64 word \<Rightarrow> ani_value option" where
  "CreateDoubleUint64 an number = new_object an CLASS_NAME_DOUBLE (Some ''d:'') (Double_argument (f64_of_int (uint number)))"

definition CreateDoubleInt32 :: "ani \<Rightarrow> 32 word \<Rightarrow> ani_value option" where
  "CreateDoubleInt32 an number = new_object an CLASS_NAME_DOUBLE (Some ''d:'') (Double_argument (f64_of_int (sint number)))"

definition CreateDoubleUint32 :: "ani \<Rightarrow> 32 word \<Rightarrow> ani_value option" where
  "CreateDoubleUint32 an number = new_object an CLASS_NAME_DOUBLE (Some ''d:'') (Double_argument (f64_of_int (uint number)))"

definition CreateAniInt :: "ani \<Rightarrow> 32 word \<Rightarrow> ani_value option" where
  "CreateAniInt an number = new_object an CLASS_NAME_INT (Some ''i:'') (Int_argument number)"

definition Ani_CreateStringValue :: "ani \<Rightarrow> string \<Rightarrow> ani_value option" where
  "Ani_CreateStringValue an v = an_new_string an v"

definition GetAniUndefined :: "ani \<Rightarrow> ani_value option" where
  "GetAniUndefined an = an_undefined an"

definition ANI_EVENTTYPE_INDEX_MAP :: "(int \<times> nat) list" where
  "ANI_EVENTTYPE_INDEX_MAP = [(1, 0), (2, 1), (3, 2), (4, 3)]"

definition ToAniEnum :: "ani \<Rightarrow> int \<Rightarrow> ani_value option" where
  "ToAniEnum an v =
     (case map_of ANI_EVENTTYPE_INDEX_MAP v of
        None \<Rightarrow> None
      | Some enumIndex \<Rightarrow>
          if \<not> an_find_enum an ENUM_NAME_EVENT_TYPE then None else an_enum_item an ENUM_NAME_EVENT_TYPE enumIndex)"

text \<open>Setting a member changes the object, or leaves it when it fails, which is only logged.\<close>

definition set_logged :: "ani \<Rightarrow> ani_value \<Rightarrow> string \<Rightarrow> ani_value option \<Rightarrow> ani_value" where
  "set_logged an obj propertyName v = (case an_set an obj propertyName v of None \<Rightarrow> obj | Some obj' \<Rightarrow> obj')"

section \<open>Errors and results\<close>

definition ANI_SUCCESS :: int where "ANI_SUCCESS = 0"
definition ERR_ANI_PARSED_FAILED :: int where "ERR_ANI_PARSED_FAILED = -101"
definition ERR_ANI_LISTENER_NOT_FOUND :: int where "ERR_ANI_LISTENER_NOT_FOUND = -107"

lemmas ani_code_defs = ANI_SUCCESS_def ERR_ANI_PARSED_FAILED_def ERR_ANI_LISTENER_NOT_FOUND_def

text \<open>The table is that of the JavaScript binding with an entry for success.\<close>

definition ani_errMap :: "(int \<times> int \<times> string) list" where
  "ani_errMap =
    [(IPC_CALL_SUCCEED, ANI_SUCCESS, ''success.''),
     (ERR_NO_PERMISSION, NAPI_PERMISSION_CHECK,
       ''Permission denied. An attempt was made to read sysevent forbidden'' @
       '' by permission: ohos.permission.READ_DFX_SYSEVENT.''),
     (ERR_DOMAIN_NAME_INVALID, NAPI_INVALID_DOMAIN, ''Invalid event domain''),
     (ERR_EVENT_NAME_INVALID, NAPI_INVALID_EVENT_NAME, ''Invalid event name''),
     (ERR_DOES_NOT_INIT, abnormal),
     (ERR_OVER_SIZE, NAPI_CONTENT_OVER_LIMIT, ''The event length exceeds the limit''),
     (ERR_KEY_NAME_INVALID, NAPI_INVALID_PARAM_NAME, ''Invalid event parameter''),
     (ERR_VALUE_LENGTH_TOO_LONG, NAPI_STR_LEN_OVER_LIMIT,
       ''The size of the event parameter of the string type exceeds the limit''),
     (ERR_KEY_NUMBER_TOO_MUCH, NAPI_PARAM_COUNT_OVER_LIMIT, ''The number of event parameters exceeds the limit''),
     (ERR_ARRAY_TOO_MUCH, NAPI_ARRAY_SIZE_OVER_LIMIT,
       ''The number of event parameters of the array type exceeds the limit''),
     (ERR_SYS_EVENT_SERVICE_NOT_FOUND, abnormal),
     (ERR_CAN_NOT_WRITE_DESCRIPTOR, abnormal),
     (ERR_CAN_NOT_WRITE_PARCEL, abnormal),
     (ERR_CAN_NOT_WRITE_REMOTE_OBJECT, abnormal),
     (ERR_CAN_NOT_SEND_REQ, abnormal),
     (ERR_CAN_NOT_READ_PARCEL, abnormal),
     (ERR_SEND_FAIL, abnormal),
     (ERR_TOO_MANY_WATCHERS, NAPI_WATCHER_COUNT_OVER_LIMIT, ''The number of watchers exceeds the limit''),
     (ERR_TOO_MANY_WATCH_RULES, NAPI_WATCH_RULE_COUNT_OVER_LIMIT, ''The number of watch rules exceeds the limit''),
     (ERR_LISTENER_NOT_EXIST, NAPI_WATCHER_NOT_EXIST, ''The watcher does not exist''),
     (ERR_ANI_LISTENER_NOT_FOUND, NAPI_WATCHER_NOT_EXIST, ''The watcher does not exist''),
     (ERR_TOO_MANY_QUERY_RULES, NAPI_QUERY_RULE_COUNT_OVER_LIMIT, ''The number of query rules exceeds the limit''),
     (ERR_TOO_MANY_CONCURRENT_QUERIES, NAPI_CONCURRENT_QUERY_COUNT_OVER_LIMIT,
       ''The number of concurrent queries exceeds the limit''),
     (ERR_QUERY_TOO_FREQUENTLY, NAPI_QUERY_TOO_FREQUENTLY, ''The query frequency exceeds the limit''),
     (ERR_INVALID_DOMAIN_IN_QUERY_RULE, NAPI_INVALID_QUERY_RULE, ''Invalid query rule''),
     (ERR_QUERY_RULE_INVALID, NAPI_INVALID_QUERY_RULE, ''Invalid query rule''),
     (ERR_INVALID_EVENT_NAME_IN_QUERY_RULE, NAPI_INVALID_QUERY_RULE, ''Invalid query rule''),
     (ERR_EXPORT_FREQUENCY_OVER_LIMIT, NAPI_QUERY_TOO_FREQUENTLY, ''The query frequency exceeds the limit''),
     (ERR_TOO_MANY_EVENTS, NAPI_QUERY_RULE_COUNT_OVER_LIMIT, ''The number of query rules exceeds the limit''),
     (ERR_REMOVE_SUBSCRIBE, NAPI_REMOVE_SUBSCRIBE, ''Unsubscription failed'')]"

definition Ani_GetErrorDetailByRet :: "int \<Rightarrow> int \<times> string" where
  "Ani_GetErrorDetailByRet retCode = (case map_of ani_errMap retCode of None \<Rightarrow> abnormal | Some detail \<Rightarrow> detail)"

text \<open>What is thrown: the error object, or nothing when a step fails.\<close>

definition ThrowAniError :: "ani \<Rightarrow> int \<Rightarrow> string \<Rightarrow> ani_value option" where
  "ThrowAniError an code message =
     (case new_object an CLASS_NAME_BUSINESSERROR (Some '':'') No_argument of
        None \<Rightarrow> None
      | Some error \<Rightarrow>
          (case an_set_int an error ''code_'' (of_int code) of
             None \<Rightarrow> None
           | Some error1 \<Rightarrow>
               (case an_new_string an message of
                  None \<Rightarrow> None
                | Some messageRef \<Rightarrow>
                    (case an_set an error1 ''message'' (Some messageRef) of
                       None \<Rightarrow> None
                     | Some error2 \<Rightarrow> if an_throw an error2 then Some error2 else None))))"

definition Ani_ThrowErrorByRet :: "ani \<Rightarrow> int \<Rightarrow> ani_value option" where
  "Ani_ThrowErrorByRet an retCode = (case Ani_GetErrorDetailByRet retCode of (code, msg) \<Rightarrow> ThrowAniError an code msg)"

text \<open>The result object of a write, null when it cannot be made. A setter that is not found is
  called as a null method, which fails.\<close>

definition call_setter :: "ani \<Rightarrow> string \<Rightarrow> string \<Rightarrow> (ani_value \<Rightarrow> ani_value option) \<Rightarrow> ani_value \<Rightarrow> ani_value option" where
  "call_setter an cls setter call obj = (if \<not> an_find_method an cls setter None then None else call obj)"

definition WriteResult :: "ani \<Rightarrow> int \<times> string \<Rightarrow> ani_value option" where
  "WriteResult an result =
     (case new_object an CLASS_NAME_RESULTINNER None No_argument of
        None \<Rightarrow> None
      | Some resultObj \<Rightarrow>
          (case call_setter an CLASS_NAME_RESULTINNER ''<set>code'' (\<lambda>obj. an_set_int an obj ''code'' (of_int (fst result))) resultObj of
             None \<Rightarrow> Some resultObj
           | Some obj1 \<Rightarrow>
               (case call_setter an CLASS_NAME_RESULTINNER ''<set>message''
                   (\<lambda>obj. an_set an obj ''message'' (an_new_string an (snd result))) obj1 of
                  None \<Rightarrow> Some obj1
                | Some obj2 \<Rightarrow> Some obj2)))"

section \<open>The object of an event\<close>

definition Ani_TranslateKeyToAttrName :: "string \<Rightarrow> string" where
  "Ani_TranslateKeyToAttrName key =
     (if key = DOMAIN__KEY then DOMAIN_ATTR
      else if key = NAME__KEY then NAME_ATTR
      else if key = TYPE__KEY then EVENT_TYPE_ATTR
      else [])"

definition Ani_IsBaseInfoKey :: "string \<Rightarrow> bool" where
  "Ani_IsBaseInfoKey propertyName \<longleftrightarrow>
     propertyName = DOMAIN__KEY \<or> propertyName = NAME__KEY \<or> propertyName = TYPE__KEY"

definition Ani_AppendInt32PropertyToJsObject :: "ani \<Rightarrow> 32 word \<Rightarrow> ani_value \<Rightarrow> ani_value" where
  "Ani_AppendInt32PropertyToJsObject an v sysEventInfo =
     (if \<not> an_find_class an CLASS_NAME_SYSEVENTINFOANI then sysEventInfo
      else set_logged an sysEventInfo ''eventType'' (ToAniEnum an (sint v)))"

definition Ani_AppendStringPropertyToJsObject :: "ani \<Rightarrow> string \<Rightarrow> string \<Rightarrow> ani_value \<Rightarrow> ani_value" where
  "Ani_AppendStringPropertyToJsObject an key v sysEventInfo =
     (if \<not> an_find_class an CLASS_NAME_SYSEVENTINFOANI then sysEventInfo
      else if key = DOMAIN_ATTR then set_logged an sysEventInfo ''domain'' (Ani_CreateStringValue an v)
      else if key = NAME_ATTR then set_logged an sysEventInfo ''name'' (Ani_CreateStringValue an v)
      else sysEventInfo)"

definition Ani_AppendBaseInfo :: "ani \<Rightarrow> 'j jsoncpp \<Rightarrow> ani_value \<Rightarrow> string \<Rightarrow> 'j \<Rightarrow> ani_value option" where
  "Ani_AppendBaseInfo an jc sysEventInfo key v =
     (case (if (key = DOMAIN__KEY \<or> key = NAME__KEY) \<and> jc_isString jc v
            then map_option (\<lambda>s. Ani_AppendStringPropertyToJsObject an (Ani_TranslateKeyToAttrName key) s sysEventInfo)
              (jc_asString jc v)
            else Some sysEventInfo) of
        None \<Rightarrow> None
      | Some obj1 \<Rightarrow>
          if key = TYPE__KEY \<and> jc_isInt jc v
          then map_option (\<lambda>i. Ani_AppendInt32PropertyToJsObject an i obj1) (jc_asInt jc v)
          else Some obj1)"

text \<open>
  \<open>None\<close> is an exception of the JSON library, \<open>Some None\<close> the result false; the value may be
  null although the result is true.
\<close>

definition Ani_CreateParamItemTypeValue ::
  "ani \<Rightarrow> ('j \<Rightarrow> bool option) \<Rightarrow> 'j jsoncpp \<Rightarrow> 'j \<Rightarrow> ani_value option option option" where
  "Ani_CreateParamItemTypeValue an asBool jc v =
     (if jc_isBool jc v then map_option (\<lambda>b. Some (CreateBool an b)) (asBool v)
      else if jc_isInt jc v then map_option (\<lambda>i. Some (CreateDoubleInt32 an i)) (jc_asInt jc v)
      else if jc_isUInt jc v then map_option (\<lambda>i. Some (CreateDoubleUint32 an i)) (jc_asUInt jc v)
      else if jc_isInt64 jc v \<and> jc_type jc v \<noteq> uintValue
      then map_option (\<lambda>i. Some (CreateDoubleInt64 an i)) (jc_asInt64 jc v)
      else if jc_isUInt64 jc v \<and> jc_type jc v \<noteq> intValue
      then map_option (\<lambda>i. Some (CreateDoubleUint64 an i)) (jc_asUInt64 jc v)
      else if jc_isDouble jc v then map_option (\<lambda>d. Some (CreateDouble an d)) (jc_asDouble jc v)
      else if jc_isString jc v then map_option (\<lambda>s. Some (Ani_CreateStringValue an s)) (jc_asString jc v)
      else Some None)"

text \<open>The loop over the items; \<open>Some None\<close> is the early return when an item cannot be set.\<close>

primrec ani_array_params_loop ::
  "ani \<Rightarrow> ('j \<Rightarrow> bool option) \<Rightarrow> 'j jsoncpp \<Rightarrow> 'j \<Rightarrow> nat list \<Rightarrow> ani_value \<Rightarrow> ani_value option option" where
  "ani_array_params_loop an asBool jc v [] array = Some (Some array)"
| "ani_array_params_loop an asBool jc v (i # is) array =
     (case Ani_CreateParamItemTypeValue an asBool jc (jc_index jc v i) of
        None \<Rightarrow> None
      | Some None \<Rightarrow> ani_array_params_loop an asBool jc v is array
      | Some (Some item) \<Rightarrow>
          (case an_set_element an array i item of
             None \<Rightarrow> Some None
           | Some array' \<Rightarrow> ani_array_params_loop an asBool jc v is array'))"

definition Ani_AppendArrayParams ::
  "ani \<Rightarrow> ('j \<Rightarrow> bool option) \<Rightarrow> 'j jsoncpp \<Rightarrow> ani_value \<Rightarrow> 'j \<Rightarrow> ani_value option" where
  "Ani_AppendArrayParams an asBool jc sysEventInfo v =
     (let len = jc_size jc v in
      if \<not> an_find_class an CLASS_NAME_SYSEVENTINFOANI then Some sysEventInfo
      else case an_new_array an len (if len > 0 then GetAniUndefined an else None) of
        None \<Rightarrow> Some sysEventInfo
      | Some array \<Rightarrow>
          (case ani_array_params_loop an asBool jc v [0..<len] array of
             None \<Rightarrow> None
           | Some None \<Rightarrow> Some sysEventInfo
           | Some (Some array') \<Rightarrow> Some (set_logged an sysEventInfo ''params'' (Some array'))))"

definition Ani_AppendParamsInfo ::
  "ani \<Rightarrow> ('j \<Rightarrow> bool option) \<Rightarrow> 'j jsoncpp \<Rightarrow> ani_value \<Rightarrow> 'j \<Rightarrow> ani_value option" where
  "Ani_AppendParamsInfo an asBool jc sysEventInfo v =
     (if jc_isArray jc v then Ani_AppendArrayParams an asBool jc sysEventInfo v
      else case Ani_CreateParamItemTypeValue an asBool jc v of
        None \<Rightarrow> None
      | Some None \<Rightarrow> Some sysEventInfo
      | Some (Some property) \<Rightarrow> Some (set_logged an sysEventInfo ''params'' property))"

primrec ani_members_loop ::
  "ani \<Rightarrow> ('j \<Rightarrow> bool option) \<Rightarrow> 'j jsoncpp \<Rightarrow> 'j \<Rightarrow> string list \<Rightarrow> ani_value \<Rightarrow> ani_value option" where
  "ani_members_loop an asBool jc eventJson [] sysEventInfo = Some sysEventInfo"
| "ani_members_loop an asBool jc eventJson (propertyName # names) sysEventInfo =
     (case (if Ani_IsBaseInfoKey propertyName
            then Ani_AppendBaseInfo an jc sysEventInfo propertyName (jc_member jc eventJson propertyName)
            else Ani_AppendParamsInfo an asBool jc sysEventInfo (jc_member jc eventJson propertyName)) of
        None \<Rightarrow> None
      | Some info' \<Rightarrow> ani_members_loop an asBool jc eventJson names info')"

definition Ani_CreateHiSysEventInfoJsObject ::
  "ani \<Rightarrow> ('j \<Rightarrow> bool option) \<Rightarrow> 'j jsoncpp \<Rightarrow> string \<Rightarrow> ani_value \<Rightarrow> ani_value option" where
  "Ani_CreateHiSysEventInfoJsObject an asBool jc jsonStr sysEventInfo =
     (case jc_parse jc jsonStr of (ok, eventJson) \<Rightarrow>
        if \<not> ok then Some sysEventInfo
        else if \<not> jc_isObject jc eventJson then Some sysEventInfo
        else ani_members_loop an asBool jc eventJson (jc_names jc eventJson) sysEventInfo)"

primrec ani_event_array_loop ::
  "ani \<Rightarrow> ('j \<Rightarrow> bool option) \<Rightarrow> 'j jsoncpp \<Rightarrow> string list \<Rightarrow> nat \<Rightarrow> ani_value \<Rightarrow> ani_value option" where
  "ani_event_array_loop an asBool jc [] i array = Some array"
| "ani_event_array_loop an asBool jc (s # originValues) i array =
     (case an_new an CLASS_NAME_SYSEVENTINFOANI None No_argument of
        None \<Rightarrow> Some array
      | Some sysEventInfo \<Rightarrow>
          (case Ani_CreateHiSysEventInfoJsObject an asBool jc s sysEventInfo of
             None \<Rightarrow> None
           | Some item \<Rightarrow>
               ani_event_array_loop an asBool jc originValues (i + 1)
                 (case an_set_element an array i (Some item) of None \<Rightarrow> array | Some array' \<Rightarrow> array')))"

definition Ani_CreateJsSysEventInfoArray ::
  "ani \<Rightarrow> ('j \<Rightarrow> bool option) \<Rightarrow> 'j jsoncpp \<Rightarrow> string list \<Rightarrow> ani_value \<Rightarrow> ani_value option" where
  "Ani_CreateJsSysEventInfoArray an asBool jc originValues array =
     (if \<not> an_find_class an CLASS_NAME_SYSEVENTINFOANI then Some array
      else if \<not> an_find_method an CLASS_NAME_SYSEVENTINFOANI CONSTRUCTOR_NAME None then Some array
      else ani_event_array_loop an asBool jc originValues 0 array)"

section \<open>The documented behaviour of the runtime\<close>

primrec ani_class_of :: "ani_value \<Rightarrow> string" where
  "ani_class_of Ani_undefined = []"
| "ani_class_of Ani_null = []"
| "ani_class_of (Ani_boolean b) = ''std.core.Boolean''"
| "ani_class_of (Ani_int i) = ''std.core.Int''"
| "ani_class_of (Ani_long i) = ''std.core.Long''"
| "ani_class_of (Ani_double d) = ''std.core.Double''"
| "ani_class_of (Ani_string s) = ''std.core.String''"
| "ani_class_of (Ani_bigint i) = ''std.core.BigInt''"
| "ani_class_of (Ani_enum i) = ''std.core.Enum''"
| "ani_class_of (Ani_array vs) = ''std.core.Array''"
| "ani_class_of (Ani_object n ps) = ''std.core.Object''"
| "ani_class_of (Ani_function n) = ''std.core.Function''"

text \<open>
  Classes, methods and enumerations are found; the tests are those of the values; a method of a
  class converts the values of this class. Nothing is assumed of values of another class.
\<close>

definition ani_laws :: "ani \<Rightarrow> bool" where
  "ani_laws an \<longleftrightarrow>
     (\<forall>c. an_find_class an c) \<and> (\<forall>c m s. an_find_method an c m s) \<and> (\<forall>c m. an_find_static an c m) \<and>
     (\<forall>v. an_is_array an (Some v) = Some (case v of Ani_array _ \<Rightarrow> True | _ \<Rightarrow> False)) \<and>
     (\<forall>v. an_is_undefined an (Some v) = Some (v = Ani_undefined)) \<and>
     (\<forall>v c. an_instance_of an (Some v) c = Some (ani_class_of v = c)) \<and>
     (\<forall>b. an_call_boolean an (Ani_boolean b) CLASS_NAME_BOOLEAN FUNC_NAME_TOBOOLEAN = Some b) \<and>
     (\<forall>i. an_call_int an (Ani_int i) CLASS_NAME_INT FUNC_NAME_TOINT = Some i) \<and>
     (\<forall>i. an_call_long an (Ani_bigint i) CLASS_NAME_BIGINT FUNC_NAME_GETLONG = Some (of_int i)) \<and>
     (\<forall>d. an_call_double an (Ani_double d) CLASS_NAME_DOUBLE FUNC_NAME_TODOUBLE = Some d) \<and>
     (\<forall>n ps. distinct (map fst ps) \<longrightarrow>
        an_keys an (Ani_object n ps) = Some (map (\<lambda>kv. Next_key (Ani_string (fst kv))) ps)) \<and>
     (\<forall>n ps k. an_get an (Ani_object n ps) (Ani_string k) = map_of ps k) \<and>
     (\<forall>s. an_utf8_size an (Ani_string s) = Some (length s)) \<and>
     (\<forall>s n. length s < n \<longrightarrow> an_utf8 an (Ani_string s) n = Some s) \<and>
     (\<forall>vs. an_length an (Ani_array vs) = Some (length vs)) \<and>
     (\<forall>vs i. i < length vs \<longrightarrow> an_element an (Ani_array vs) i = Some (vs ! i)) \<and>
     (\<forall>n ps k. an_property an (Ani_object n ps) k = Some (case map_of ps k of None \<Rightarrow> Ani_undefined | Some v \<Rightarrow> v)) \<and>
     (\<forall>n ps k w. map_of ps k = Some (Ani_long w) \<longrightarrow> an_property_long an (Ani_object n ps) k = Some w) \<and>
     (\<forall>i. an_enum_int an (Ani_enum i) = Some i)"

lemma ani_simps:
  assumes "ani_laws an"
  shows "an_find_class an c" "an_find_method an c m s" "an_find_static an c m"
    "an_is_array an (Some v) = Some (case v of Ani_array _ \<Rightarrow> True | _ \<Rightarrow> False)"
    "an_is_undefined an (Some v) = Some (v = Ani_undefined)"
    "an_instance_of an (Some v) c = Some (ani_class_of v = c)"
    "an_call_boolean an (Ani_boolean b) CLASS_NAME_BOOLEAN FUNC_NAME_TOBOOLEAN = Some b"
    "an_call_int an (Ani_int i32) CLASS_NAME_INT FUNC_NAME_TOINT = Some i32"
    "an_call_long an (Ani_bigint i) CLASS_NAME_BIGINT FUNC_NAME_GETLONG = Some (of_int i)"
    "an_call_double an (Ani_double d) CLASS_NAME_DOUBLE FUNC_NAME_TODOUBLE = Some d"
    "distinct (map fst ps) \<Longrightarrow> an_keys an (Ani_object n ps) = Some (map (\<lambda>kv. Next_key (Ani_string (fst kv))) ps)"
    "an_get an (Ani_object n ps) (Ani_string k) = map_of ps k"
    "an_utf8_size an (Ani_string t) = Some (length t)"
    "length t < j \<Longrightarrow> an_utf8 an (Ani_string t) j = Some t"
    "an_length an (Ani_array vs) = Some (length vs)"
    "j < length vs \<Longrightarrow> an_element an (Ani_array vs) j = Some (vs ! j)"
    "an_property an (Ani_object n ps) k = Some (case map_of ps k of None \<Rightarrow> Ani_undefined | Some v \<Rightarrow> v)"
    "map_of ps k = Some (Ani_long w) \<Longrightarrow> an_property_long an (Ani_object n ps) k = Some w"
    "an_enum_int an (Ani_enum i32) = Some i32"
  using assms by (simp_all add: ani_laws_def)

lemma ani_values:
  assumes "ani_laws an"
  shows "Ani_ParseBoolValue an (Some (Ani_boolean b)) = b" "Ani_ParseIntValue an (Some (Ani_int i32)) = i32"
    "Ani_ParseNumberValue an (Some (Ani_double d)) = d" "Ani_ParseBigintValue an (Some (Ani_bigint i)) = of_int i"
    "no_nul s \<Longrightarrow> Ani_ParseStringValue an (Some (Ani_string s)) = s"
    "Ani_IsRefUndefined an (Some v) \<longleftrightarrow> v = Ani_undefined"
    "Ani_IsArray an (Some v) \<longleftrightarrow> (case v of Ani_array _ \<Rightarrow> True | _ \<Rightarrow> False)"
  by (simp_all add: Ani_ParseBoolValue_def Ani_ParseIntValue_def Ani_ParseNumberValue_def Ani_ParseBigintValue_def
      Ani_ParseStringValue_def Ani_IsRefUndefined_def Ani_IsArray_def cut_at_nul_def takeWhile_no_nul ani_simps [OF assms])

lemma elements_read:
  assumes "ani_laws an"
  shows "read_elements an parse (Some (Ani_array vs)) = Some (map (\<lambda>v. parse (Some v)) vs)"
proof -
  have "map (an_element an (Ani_array vs)) [0..<length vs] = map Some vs"
    by (rule nth_equalityI) (simp_all add: ani_simps [OF assms])
  then show ?thesis
    by (simp add: read_elements_def ani_simps [OF assms])
qed

text \<open>The map of a record has its entries, whatever the order of the keys.\<close>

lemma map_of_map_put [simp]: "map_of (map_put k v m) = (map_of m)(k \<mapsto> v)"
  by (induction k v m rule: map_put.induct) (auto simp: fun_eq_iff)

lemma keys_map_put: "fst ` set (map_put k v m) = insert k (fst ` set m)"
  by (induction k v m rule: map_put.induct) auto

lemma text_less_irrefl [simp]: "\<not> text_less s s"
  by (induction s) auto

lemma text_less_trans: "text_less s t \<Longrightarrow> text_less t u \<Longrightarrow> text_less s u"
proof (induction s t arbitrary: u rule: text_less.induct)
  case (2 d t)
  then show ?case by (cases u) auto
next
  case (3 c s d t)
  then show ?case by (cases u) auto
qed simp

lemma text_less_total: "s \<noteq> t \<Longrightarrow> text_less s t \<or> text_less t s"
proof (induction s t rule: text_less.induct)
  case (1 s)
  then show ?case by (cases s) auto
next
  case (3 c s d t)
  have "c = d \<or> (of_char c :: nat) \<noteq> of_char d"
    by (metis of_char_eq_iff)
  then show ?case
    using 3 by auto
qed simp

definition ordered :: "(string \<times> 'v) list \<Rightarrow> bool" where
  "ordered m \<longleftrightarrow> sorted_wrt text_less (map fst m)"

lemma ordered_map_put: "ordered m \<Longrightarrow> ordered (map_put k v m)"
proof (induction k v m rule: map_put.induct)
  case (2 k v kv m)
  have rest: "ordered m" "\<forall>k' \<in> fst ` set m. text_less (fst kv) k'"
    using 2(2) by (auto simp: ordered_def)
  consider (same) "fst kv = k" | (before) "fst kv \<noteq> k" "text_less k (fst kv)"
    | (behind) "fst kv \<noteq> k" "\<not> text_less k (fst kv)" "text_less (fst kv) k"
    using text_less_total by blast
  then show ?case
  proof cases
    case same
    then show ?thesis
      using rest by (simp add: ordered_def)
  next
    case before
    then have "\<forall>k' \<in> fst ` set m. text_less k k'"
      using rest(2) text_less_trans by blast
    then show ?thesis
      using before rest by (simp add: ordered_def)
  next
    case behind
    have "\<forall>k' \<in> fst ` set (map_put k v m). text_less (fst kv) k'"
      using rest(2) behind(3) by (simp add: keys_map_put)
    then show ?thesis
      using behind(1,2) 2(1) [OF behind(1,2) rest(1)] by (simp add: ordered_def)
  qed
qed (simp add: ordered_def)

lemma ordered_distinct: "ordered m \<Longrightarrow> distinct (map fst m)"
  by (induction m) (auto simp: ordered_def)

end
