(* ===== verification/AniModule.thy ===== *)
theory AniModule
  imports AniValue EventRegistry
begin

text \<open>
  The functions of the ArkTS binding (hisysevent_ani.cpp and .h under
  src/interfaces/ets/ani/hisysevent): reading events, rules and arguments, the call site, the
  write, watchers, queries, export and subscription. The theory composes them with the C++
  writer and the registry, and shows what a write and a query achieve, and where they differ
  from the JavaScript binding.
\<close>

section \<open>The process\<close>

text \<open>
  What one call meets. \<open>ae_stack\<close>, \<open>ae_stack_length\<close>, \<open>ae_stack_item\<close> and \<open>ae_to_string\<close> are
  the stack trace of the runtime; \<open>ae_refer\<close> says whether a global reference can be created.
\<close>

type_synonym ani_ref = "nat option"

type_synonym ani_table = "ani_ref \<Rightarrow> (int \<times> nat) option"

record ani_env =
  ae_ani :: ani
  ae_system_app :: bool
  ae_thread :: int
  ae_stack :: "ani_value option"
  ae_stack_length :: "ani_value \<Rightarrow> nat option"
  ae_stack_item :: "ani_value \<Rightarrow> nat \<Rightarrow> ani_value option"
  ae_to_string :: "ani_value \<Rightarrow> ani_value option"
  ae_event_type :: int
  ae_refer :: "ani_value \<Rightarrow> bool"
  ae_strict_equals :: "ani_value \<Rightarrow> ani_value \<Rightarrow> bool option"
  ae_param_order :: "(string \<times> Param) list \<Rightarrow> (string \<times> Param) list"
  ae_ref_order :: "ani_table \<Rightarrow> ani_ref list"

record 'f ani_module =
  am_refs :: "nat \<Rightarrow> ani_value option"
  am_next_ref :: nat
  am_listeners :: ani_table
  am_queriers :: ani_table
  am_next_querier :: nat
  am_registry :: "'f registry"

section \<open>Parameters of an event\<close>

datatype AniArgsType = ANI_UNKNOWN | ANI_BOOLEAN | ANI_INT | ANI_DOUBLE | ANI_STRING | ANI_BIGINT | ANI_UNDEFINED

primrec type_number :: "AniArgsType \<Rightarrow> nat" where
  "type_number ANI_UNKNOWN = 0"
| "type_number ANI_BOOLEAN = 1"
| "type_number ANI_INT = 2"
| "type_number ANI_DOUBLE = 3"
| "type_number ANI_STRING = 4"
| "type_number ANI_BIGINT = 5"
| "type_number ANI_UNDEFINED = 6"

definition OBJECT_TYPE :: "(string \<times> AniArgsType) list" where
  "OBJECT_TYPE =
    [(CLASS_NAME_BOOLEAN, ANI_BOOLEAN), (CLASS_NAME_INT, ANI_INT), (CLASS_NAME_DOUBLE, ANI_DOUBLE),
     (CLASS_NAME_STRING, ANI_STRING), (CLASS_NAME_BIGINT, ANI_BIGINT)]"

definition GetArgType :: "ani \<Rightarrow> ani_value option \<Rightarrow> AniArgsType" where
  "GetArgType an elementObj =
     (if Ani_IsRefUndefined an elementObj then ANI_UNDEFINED
      else case find (\<lambda>(cls, t). an_find_class an cls \<and> an_instance_of an elementObj cls = Some True) OBJECT_TYPE of
        None \<Rightarrow> ANI_UNKNOWN
      | Some (cls, t) \<Rightarrow> t)"

definition IsValidParamType :: "AniArgsType \<Rightarrow> bool" where
  "IsValidParamType type \<longleftrightarrow> type_number type > type_number ANI_UNKNOWN \<and> type_number type < type_number ANI_UNDEFINED"

definition GetArrayType :: "ani \<Rightarrow> ani_value option \<Rightarrow> AniArgsType" where
  "GetArrayType an arrayRef =
     (case Option.bind arrayRef (\<lambda>v. an_element an v 0) of
        None \<Rightarrow> ANI_UNKNOWN
      | Some valueRef \<Rightarrow> GetArgType an (Some valueRef))"

text \<open>A function that adds to the parameters returns them with its boolean result.\<close>

definition put_read ::
  "string \<Rightarrow> ('a \<Rightarrow> Param) \<Rightarrow> 'a option \<Rightarrow> (string \<times> Param) list \<Rightarrow> (string \<times> Param) list \<times> bool" where
  "put_read key mk r ps = (case r of None \<Rightarrow> (ps, False) | Some x \<Rightarrow> (put_param key (mk x) ps, True))"

definition AddArrayParamToEventInfoExec ::
  "ani \<Rightarrow> string \<Rightarrow> ani_value option \<Rightarrow> AniArgsType \<Rightarrow> (string \<times> Param) list \<Rightarrow> (string \<times> Param) list \<times> bool" where
  "AddArrayParamToEventInfoExec an key arrayRef arrayType ps =
     (case arrayType of
        ANI_BOOLEAN \<Rightarrow> put_read key BOOL_ARR (GetBooleans an arrayRef) ps
      | ANI_INT \<Rightarrow> put_read key DOUBLE_ARR (GetIntsToDoubles an arrayRef) ps
      | ANI_DOUBLE \<Rightarrow> put_read key DOUBLE_ARR (GetDoubles an arrayRef) ps
      | ANI_STRING \<Rightarrow> put_read key STR_ARR (GetStrings an arrayRef) ps
      | ANI_BIGINT \<Rightarrow> put_read key I64_ARR (GetBigints an arrayRef) ps
      | _ \<Rightarrow> (ps, False))"

definition Ani_AddArrayParamToEventInfo ::
  "ani \<Rightarrow> string \<Rightarrow> ani_value option \<Rightarrow> (string \<times> Param) list \<Rightarrow> (string \<times> Param) list \<times> bool" where
  "Ani_AddArrayParamToEventInfo an key arrayRef ps =
     (let arrayType = GetArrayType an arrayRef in
      if \<not> IsValidParamType arrayType then (ps, False)
      else AddArrayParamToEventInfoExec an key arrayRef arrayType ps)"

definition Ani_AddParamToEventInfo ::
  "ani \<Rightarrow> string \<Rightarrow> ani_value option \<Rightarrow> (string \<times> Param) list \<Rightarrow> (string \<times> Param) list \<times> bool" where
  "Ani_AddParamToEventInfo an key v ps =
     (let type = GetArgType an v in
      if \<not> IsValidParamType type then (ps, False)
      else case type of
        ANI_BOOLEAN \<Rightarrow> (put_param key (BL (Ani_ParseBoolValue an v)) ps, True)
      | ANI_INT \<Rightarrow> (put_param key (DOU (f64_of_int (sint (Ani_ParseIntValue an v)))) ps, True)
      | ANI_DOUBLE \<Rightarrow> (put_param key (DOU (Ani_ParseNumberValue an v)) ps, True)
      | ANI_STRING \<Rightarrow> (put_param key (STR_VAL (Ani_ParseStringValue an v)) ps, True)
      | ANI_BIGINT \<Rightarrow> (put_param key (I64 (Ani_ParseBigintValue an v)) ps, True)
      | _ \<Rightarrow> (ps, False))"

definition AddParamsToEventInfo ::
  "ani \<Rightarrow> string \<times> ani_value \<Rightarrow> (string \<times> Param) list \<Rightarrow> (string \<times> Param) list \<times> bool" where
  "AddParamsToEventInfo an param ps =
     (if Ani_IsArray an (Some (snd param)) then Ani_AddArrayParamToEventInfo an (fst param) (Some (snd param)) ps
      else Ani_AddParamToEventInfo an (fst param) (Some (snd param)) ps)"

text \<open>The loop ends at the first parameter that cannot be added.\<close>

primrec params_loop ::
  "ani \<Rightarrow> (string \<times> ani_value) list \<Rightarrow> (string \<times> Param) list \<Rightarrow> (string \<times> Param) list \<times> bool" where
  "params_loop an [] ps = (ps, True)"
| "params_loop an (param # paramsMap) ps =
     (case AddParamsToEventInfo an param ps of
        (ps', False) \<Rightarrow> (ps', False)
      | (ps', True) \<Rightarrow> params_loop an paramsMap ps')"

definition ParseParamsInSysEventInfo ::
  "ani \<Rightarrow> ani_value option \<Rightarrow> (string \<times> Param) list \<Rightarrow> (string \<times> Param) list \<times> bool" where
  "ParseParamsInSysEventInfo an params ps =
     (if Ani_IsRefUndefined an params then (ps, True) else params_loop an (Ani_ParseRecord an params) ps)"

text \<open>Every early return keeps what was read before.\<close>

definition ParseSysEventInfo :: "ani \<Rightarrow> ani_value \<Rightarrow> HiSysEventInfo \<Rightarrow> HiSysEventInfo" where
  "ParseSysEventInfo an info eventInfo =
     (case an_property an info ''domain'' of
        None \<Rightarrow> eventInfo
      | Some domainRef \<Rightarrow>
          let info1 = eventInfo\<lparr>ei_domain := Ani_ParseStringValue an (Some domainRef)\<rparr> in
          (case an_property an info ''name'' of
             None \<Rightarrow> info1
           | Some nameRef \<Rightarrow>
               let info2 = info1\<lparr>ei_name := Ani_ParseStringValue an (Some nameRef)\<rparr> in
               (case Option.bind (an_property an info ''eventType'') (an_enum_int an) of
                  None \<Rightarrow> info2
                | Some eventTypeValue \<Rightarrow>
                    let info3 = info2\<lparr>ei_eventType := sint eventTypeValue\<rparr> in
                    (case an_property an info ''params'' of
                       None \<Rightarrow> info3
                     | Some paramsRef \<Rightarrow>
                         info3\<lparr>ei_params := fst (ParseParamsInSysEventInfo an (Some paramsRef) (ei_params info3))\<rparr>))))"

section \<open>The call site and the write\<close>

text \<open>The functions of this name are the same text as those of the JavaScript adapter.\<close>

definition Ani_Split :: "string \<Rightarrow> char \<Rightarrow> string list \<Rightarrow> string list" where
  "Ani_Split origin delimiter ret = Split origin delimiter ret"

definition Ani_AppendParams :: "mem_env \<Rightarrow> (string \<times> Param) list \<Rightarrow> event_base \<Rightarrow> event_base" where
  "Ani_AppendParams env params eb = AppendParams env params eb"

text \<open>\<^verbatim>\<open>std::stoll\<close> of digits throws when the number does not fit: \<open>None\<close>.\<close>

definition stoll :: "string \<Rightarrow> int option" where
  "stoll digits = (if digits_nat digits < 2 ^ 63 then Some (int (digits_nat digits)) else None)"

definition Ani_ParseCallerInfoFromStackTrace :: "string \<Rightarrow> JsCallerInfo \<Rightarrow> JsCallerInfo option" where
  "Ani_ParseCallerInfoFromStackTrace stackTrace callerInfo =
     (if stackTrace = [] then Some callerInfo
      else let callInfos = Ani_Split stackTrace (CHR '' '') [] in
      if length callInfos \<le> 1 then Some callerInfo
      else let func = callInfos ! 1 in
      if length callInfos \<le> 2 then Some (func, snd callerInfo)
      else let lineInfos = Ani_Split (callInfos ! 2) (CHR '':'') [] in
      if length lineInfos \<le> 1 then Some (func, snd callerInfo)
      else let func' = (if func = ''anonymous'' then base_name (lineInfos ! 0) else func) in
      if list_ex (\<lambda>c. \<not> is_digit_char c) (lineInfos ! 1) then Some (func', DEFAULT_LINE_NUM)
      else map_option (\<lambda>n. (func', of_int n)) (stoll (lineInfos ! 1)))"

text \<open>The text of every element of the trace replaces that of the one before.\<close>

definition GetStack :: "ani_env \<Rightarrow> string" where
  "GetStack ae =
     (let an = ae_ani ae;
          trace = (case ae_stack ae of None \<Rightarrow> an_garbage an | Some v \<Rightarrow> Some v);
          len = (case Option.bind trace (ae_stack_length ae) of None \<Rightarrow> 0 | Some n \<Rightarrow> n) in
      fold (\<lambda>i stackTrace.
          let element = Option.bind trace (\<lambda>v. ae_stack_item ae v i);
              stackTraceStr = (case Option.bind element (ae_to_string ae) of None \<Rightarrow> an_garbage an | Some s \<Rightarrow> Some s) in
          Ani_AniStringToStdString an stackTraceStr) [0..<len] [])"

definition ParseCallerInfo :: "ani_env \<Rightarrow> JsCallerInfo \<Rightarrow> JsCallerInfo option" where
  "ParseCallerInfo ae callerInfo = Ani_ParseCallerInfoFromStackTrace (GetStack ae) callerInfo"

definition Ani_CheckThenWriteSysEvent ::
  "writer_env \<Rightarrow> HiSysEventInfo \<Rightarrow> JsCallerInfo \<Rightarrow> u64 \<Rightarrow> writer \<Rightarrow> writer \<times> u64" where
  "Ani_CheckThenWriteSysEvent we eventInfo jsCallerInfo timeStamp w =
     (case CheckLimitWritingEvent (we_char_signed we) default_param (ei_name eventInfo)
        (fst jsCallerInfo) (snd jsCallerInfo) timeStamp (wr_lru w) of
      (lru, t) \<Rightarrow> (w\<lparr>wr_lru := lru\<rparr>, t))"

text \<open>The time stamp that the limit returns is not tested; \<open>None\<close> is an exception.\<close>

definition WriteInner :: "ani_env \<Rightarrow> writer_env \<Rightarrow> HiSysEventInfo \<Rightarrow> writer \<Rightarrow> (writer \<times> int) option" where
  "WriteInner ae we eventInfo w =
     (case ParseCallerInfo ae ([], 0) of
        None \<Rightarrow> None
      | Some jsCallerInfo \<Rightarrow>
          (case Ani_CheckThenWriteSysEvent we eventInfo jsCallerInfo (we_now we) w of
             (w1, timeStamp) \<Rightarrow>
               let env = pe_mem (we_proc we) in
               if \<not> IsValidName (ei_domain eventInfo) MAX_DOMAIN_LENGTH
               then Some (w1, snd (ExplainThenReturnRetCode ERR_DOMAIN_NAME_INVALID))
               else if \<not> IsValidName (ei_name eventInfo) MAX_EVENT_NAME_LENGTH
               then Some (w1, snd (ExplainThenReturnRetCode ERR_EVENT_NAME_INVALID))
               else let eb1 = WritebaseInfo (we_proc we)
                   (EventBase_new env (ei_domain eventInfo) (ei_name eventInfo) (ei_eventType eventInfo) timeStamp) in
               if IsError eb1 then Some (w1, snd (ExplainThenReturnRetCode (GetRetCode eb1)))
               else let eb2 = InnerWrite env [] (Ani_AppendParams env (ae_param_order ae (ei_params eventInfo)) eb1) in
               if IsError eb2 then Some (w1, snd (ExplainThenReturnRetCode (GetRetCode eb2)))
               else case SendSysEvent (we_os we) env eb2 (wr_transport w1) of
                 (eb3, tp) \<Rightarrow> Some (w1\<lparr>wr_transport := tp\<rparr>, GetRetCode eb3)))"

definition non_system_app :: "int \<times> string" where
  "non_system_app =
     (NAPI_NON_SYS_APP_PERMISSION, ''Permission denied. '' @ ''System api can be invoked only by system applications.'')"

definition WriteSync ::
  "ani_env \<Rightarrow> writer_env \<Rightarrow> ani_value \<Rightarrow> writer \<Rightarrow> (writer \<times> ani_value option) option" where
  "WriteSync ae we info w =
     (if \<not> ae_system_app ae then Some (w, WriteResult (ae_ani ae) non_system_app)
      else
        let eventInfo = ParseSysEventInfo (ae_ani ae) info
          \<lparr>ei_domain = [], ei_name = [], ei_eventType = ae_event_type ae, ei_params = []\<rparr> in
        map_option (\<lambda>(w', ret). (w', WriteResult (ae_ani ae) (Ani_GetErrorDetailByRet ret))) (WriteInner ae we eventInfo w))"

section \<open>Rules and arguments\<close>

definition Ani_ParseListenerRule :: "ani \<Rightarrow> ani_value \<Rightarrow> listener_rule" where
  "Ani_ParseListenerRule an v =
     (case an_property an v ''domain'' of
        None \<Rightarrow> ListenerRule_tag [] WHOLE_WORD
      | Some domainRef \<Rightarrow>
          (case an_property an v ''name'' of
             None \<Rightarrow> ListenerRule_tag [] WHOLE_WORD
           | Some nameRef \<Rightarrow>
               (case an_property an v ''tag'' of
                  None \<Rightarrow> ListenerRule_tag [] WHOLE_WORD
                | Some tagRef \<Rightarrow>
                    let tag = (if \<not> Ani_IsRefUndefined an (Some tagRef) then Ani_ParseStringValue an (Some tagRef) else []) in
                    (case Option.bind (an_property an v ''ruleType'') (an_enum_int an) of
                       None \<Rightarrow> ListenerRule_tag [] WHOLE_WORD
                     | Some ruleType \<Rightarrow>
                         ListenerRule_new (Ani_ParseStringValue an (Some domainRef)) (Ani_ParseStringValue an (Some nameRef))
                           tag ruleType 0))))"

definition ParseWatcher :: "ani \<Rightarrow> ani_value \<Rightarrow> listener_rule list" where
  "ParseWatcher an watcher =
     (case an_property an watcher ''rules'' of
        None \<Rightarrow> []
      | Some rulesRef \<Rightarrow>
          (case an_length an rulesRef of
             None \<Rightarrow> []
           | Some len \<Rightarrow>
               map (\<lambda>el. Ani_ParseListenerRule an (the el))
                 (takeWhile (\<lambda>el. el \<noteq> None) (map (an_element an rulesRef) [0..<len]))))"

text \<open>The default rule of an error keeps the names read so far.\<close>

definition Ani_ParseQueryRule :: "ani \<Rightarrow> ani_value \<Rightarrow> query_rule" where
  "Ani_ParseQueryRule an v =
     (case an_property an v ''names'' of
        None \<Rightarrow> QueryRule_new [] [] WHOLE_WORD 0 []
      | Some namesRef \<Rightarrow>
          (case an_length an namesRef of
             None \<Rightarrow> QueryRule_new [] [] WHOLE_WORD 0 []
           | Some len \<Rightarrow>
               let els = map (an_element an namesRef) [0..<len];
                   names = map (Ani_ParseStringValue an) (takeWhile (\<lambda>el. el \<noteq> None) els) in
               if None \<in> set els then QueryRule_new [] names WHOLE_WORD 0 []
               else (case an_property an v ''domain'' of
                  None \<Rightarrow> QueryRule_new [] names WHOLE_WORD 0 []
                | Some domainRef \<Rightarrow>
                    let conditionRef = an_property an v ''condition'' in
                    QueryRule_new (Ani_ParseStringValue an (Some domainRef)) names WHOLE_WORD 0
                      (if \<not> Ani_IsRefUndefined an conditionRef then Ani_ParseStringValue an conditionRef else []))))"

text \<open>A function that may throw returns the error thrown, or \<open>None\<close>, with its result.\<close>

definition Ani_IsQueryRuleValid :: "ani \<Rightarrow> query_rule \<Rightarrow> ani_value option \<times> bool" where
  "Ani_IsQueryRuleValid an rule =
     (if \<not> IsValidName (ql_domain rule) MAX_DOMAIN_LENGTH
      then (Ani_ThrowErrorByRet an ERR_INVALID_DOMAIN_IN_QUERY_RULE, False)
      else if list_ex (\<lambda>name. \<not> IsValidName name MAX_EVENT_NAME_LENGTH) (ql_eventList rule)
      then (Ani_ThrowErrorByRet an ERR_INVALID_EVENT_NAME_IN_QUERY_RULE, False)
      else (None, True))"

primrec ani_rules_loop ::
  "ani \<Rightarrow> ani_value \<Rightarrow> nat list \<Rightarrow> query_rule list \<Rightarrow> ani_value option \<times> int \<times> query_rule list" where
  "ani_rules_loop an rulesAni [] rules = (None, ANI_SUCCESS, rules)"
| "ani_rules_loop an rulesAni (i # is) rules =
     (case an_element an rulesAni i of
        None \<Rightarrow> (None, ERR_ANI_PARSED_FAILED, rules)
      | Some v \<Rightarrow>
          let queryRule = Ani_ParseQueryRule an v in
          (case Ani_IsQueryRuleValid an queryRule of
             (thrown, True) \<Rightarrow> ani_rules_loop an rulesAni is (rules @ [queryRule])
           | (thrown, False) \<Rightarrow> (thrown, ERR_ANI_PARSED_FAILED, rules)))"

definition Ani_ParseQueryRules :: "ani \<Rightarrow> ani_value \<Rightarrow> ani_value option \<times> int \<times> query_rule list" where
  "Ani_ParseQueryRules an rulesAni =
     (case an_length an rulesAni of
        None \<Rightarrow> (None, ERR_ANI_PARSED_FAILED, [])
      | Some len \<Rightarrow> ani_rules_loop an rulesAni [0..<len] [])"

text \<open>The members are assigned as they are; a member that cannot be got is zero.\<close>

definition long_property :: "ani \<Rightarrow> ani_value \<Rightarrow> string \<Rightarrow> 64 word" where
  "long_property an v k = (case an_property_long an v k of None \<Rightarrow> 0 | Some w \<Rightarrow> w)"

definition Ani_ParseQueryArg :: "ani \<Rightarrow> ani_value \<Rightarrow> query_arg \<Rightarrow> query_arg" where
  "Ani_ParseQueryArg an queryArgAni queryArg =
     (let fromSeqRef = an_property an queryArgAni ''fromSeq''; toSeqRef = an_property an queryArgAni ''toSeq'' in
      \<lparr>ar_beginTime = long_property an queryArgAni ''beginTime'',
       ar_endTime = long_property an queryArgAni ''endTime'',
       ar_maxEvents = ucast (long_property an queryArgAni ''maxEvents''),
       ar_fromSeq = (if \<not> Ani_IsRefUndefined an fromSeqRef then Ani_ParseBigintValue an fromSeqRef else ar_fromSeq queryArg),
       ar_toSeq = (if \<not> Ani_IsRefUndefined an toSeqRef then Ani_ParseBigintValue an toSeqRef else ar_toSeq queryArg)\<rparr>)"

section \<open>Watchers\<close>

definition ani_new_reference :: "ani_env \<Rightarrow> ani_value \<Rightarrow> 'f ani_module \<Rightarrow> 'f ani_module \<times> ani_ref" where
  "ani_new_reference ae v st =
     (if ae_refer ae v
      then (st\<lparr>am_refs := (am_refs st)(am_next_ref st \<mapsto> v), am_next_ref := am_next_ref st + 1\<rparr>, Some (am_next_ref st))
      else (st, None))"

text \<open>A reference is used as the object itself.\<close>

definition Ani_CompareAndReturnCacheItem ::
  "ani_env \<Rightarrow> 'f ani_module \<Rightarrow> ani_value \<Rightarrow> ani_table \<Rightarrow> (ani_ref \<times> nat) option" where
  "Ani_CompareAndReturnCacheItem ae st standard resources =
     (case find (\<lambda>ref. case resources ref of
            None \<Rightarrow> False
          | Some (pid, _) \<Rightarrow> pid = ae_thread ae \<and>
              (case Option.bind ref (am_refs st) of
                 None \<Rightarrow> False
               | Some val \<Rightarrow> ae_strict_equals ae standard val = Some True)) (ae_ref_order ae resources) of
        None \<Rightarrow> None
      | Some ref \<Rightarrow> map_option (\<lambda>(pid, obj). (ref, obj)) (resources ref))"

text \<open>
  When the registration fails, the context is deleted although the listener owns it: \<open>None\<close> is
  the use of the deleted context by the destructor of the listener, which runs at the end of
  the call unless the callback object made for the listener keeps it.
\<close>

definition Ani_AddWatcher ::
  "ani_env \<Rightarrow> 'f server \<Rightarrow> ani_value \<Rightarrow> 'f ani_module \<Rightarrow> ('f ani_module \<times> ani_value option) option" where
  "Ani_AddWatcher ae sv watcher st =
     (if \<not> ae_system_app ae then Some (st, ThrowAniError (ae_ani ae) (fst non_system_app) (snd non_system_app))
      else
        let rules = ParseWatcher (ae_ani ae) watcher in
        case ani_new_reference ae watcher st of (st1, ref) \<Rightarrow>
        case new_base (am_registry st1) of (rg1, listener) \<Rightarrow>
        case Base_AddListener sv (Some listener) rules rg1 of (rg2, ret) \<Rightarrow>
          let st2 = st1\<lparr>am_registry := rg2\<rparr> in
          if ret \<noteq> ANI_SUCCESS
          then (if callback_of rg2 listener = None then None else Some (st2, Ani_ThrowErrorByRet (ae_ani ae) ret))
          else Some (st2\<lparr>am_listeners := (am_listeners st2)(ref \<mapsto> (ae_thread ae, listener))\<rparr>, None))"

definition Ani_RemoveWatcher ::
  "ani_env \<Rightarrow> 'f server \<Rightarrow> ani_value \<Rightarrow> 'f ani_module \<Rightarrow> 'f ani_module \<times> ani_value option" where
  "Ani_RemoveWatcher ae sv watcher st =
     (if \<not> ae_system_app ae then (st, ThrowAniError (ae_ani ae) (fst non_system_app) (snd non_system_app))
      else case Ani_CompareAndReturnCacheItem ae st watcher (am_listeners st) of
        None \<Rightarrow> (st, Ani_ThrowErrorByRet (ae_ani ae) ERR_ANI_LISTENER_NOT_FOUND)
      | Some (ref, listener) \<Rightarrow>
          (case Base_RemoveListener sv (Some listener) (am_registry st) of (rg, ret) \<Rightarrow>
             let st1 = st\<lparr>am_registry := rg\<rparr> in
             if ret \<noteq> ANI_SUCCESS then (st1, Ani_ThrowErrorByRet (ae_ani ae) ret)
             else (st1\<lparr>am_listeners := (am_listeners st1)(ref := None)\<rparr>, None)))"

section \<open>Queries\<close>

definition ani_query_arg_default :: query_arg where
  "ani_query_arg_default = QueryArg_new (-1) (-1) 1000 (-1) (-1)"

text \<open>The handler of a complete query; its thread is the one on which the results arrive.\<close>

definition ani_complete :: "ani_env \<Rightarrow> ani_value \<Rightarrow> 'f ani_module \<Rightarrow> 'f ani_module" where
  "ani_complete ae querierObj st =
     (case Ani_CompareAndReturnCacheItem ae st querierObj (am_queriers st) of
        None \<Rightarrow> st
      | Some (r, _) \<Rightarrow> st\<lparr>am_queriers := (am_queriers st)(r := None)\<rparr>)"

definition Ani_Query ::
  "ani_env \<Rightarrow> 'f server \<Rightarrow> ani_value \<Rightarrow> ani_value \<Rightarrow> ani_value \<Rightarrow> 'f ani_module \<Rightarrow> 'f ani_module \<times> ani_value option" where
  "Ani_Query ae sv queryArgAni rulesAni querierAni st =
     (if \<not> ae_system_app ae then (st, ThrowAniError (ae_ani ae) (fst non_system_app) (snd non_system_app))
      else
        let queryArg = Ani_ParseQueryArg (ae_ani ae) queryArgAni ani_query_arg_default in
        case Ani_ParseQueryRules (ae_ani ae) rulesAni of (thrown, result, rules) \<Rightarrow>
          if result \<noteq> SUCCESS then (st, thrown)
          else
            case ani_new_reference ae querierAni st of (st1, ref) \<Rightarrow>
            case Base_Query sv queryArg rules (am_registry st1) of (rg, ret) \<Rightarrow>
              let st2 = st1\<lparr>am_registry := rg\<rparr> in
              if ret \<noteq> ANI_SUCCESS then (st2, Ani_ThrowErrorByRet (ae_ani ae) ret)
              else (st2\<lparr>am_next_querier := am_next_querier st2 + 1,
                  am_queriers := (am_queriers st2)(ref \<mapsto> (ae_thread ae, am_next_querier st2))\<rparr>, None))"

text \<open>The result is a double, also for a code.\<close>

definition ani_time_stamp :: "ani_env \<Rightarrow> int \<Rightarrow> ani_value option \<times> 64 word" where
  "ani_time_stamp ae ret =
     (if length (decimal_int ret) < 13
      then (Ani_ThrowErrorByRet (ae_ani ae) (signed_take_bit 31 ret), 0)
      else (None, f64_of_int ret))"

definition Ani_ExportSysEvents ::
  "ani_env \<Rightarrow> 'f server \<Rightarrow> ani_value \<Rightarrow> ani_value \<Rightarrow> 'f ani_module \<Rightarrow> 'f ani_module \<times> ani_value option \<times> 64 word" where
  "Ani_ExportSysEvents ae sv queryArgAni rulesAni st =
     (if \<not> ae_system_app ae then (st, ThrowAniError (ae_ani ae) (fst non_system_app) (snd non_system_app), 0)
      else
        let queryArg = Ani_ParseQueryArg (ae_ani ae) queryArgAni ani_query_arg_default in
        case Ani_ParseQueryRules (ae_ani ae) rulesAni of (thrown, result, rules) \<Rightarrow>
          if result \<noteq> SUCCESS then (st, thrown, f64_of_int result)
          else (case Base_Export sv queryArg rules (am_registry st) of (rg, ret) \<Rightarrow>
            (st\<lparr>am_registry := rg\<rparr>, ani_time_stamp ae ret)))"

definition Ani_Subscribe ::
  "ani_env \<Rightarrow> 'f server \<Rightarrow> ani_value \<Rightarrow> 'f ani_module \<Rightarrow> 'f ani_module \<times> ani_value option \<times> 64 word" where
  "Ani_Subscribe ae sv rulesAni st =
     (if \<not> ae_system_app ae then (st, ThrowAniError (ae_ani ae) (fst non_system_app) (snd non_system_app), 0)
      else case Ani_ParseQueryRules (ae_ani ae) rulesAni of (thrown, result, rules) \<Rightarrow>
          if result \<noteq> SUCCESS then (st, thrown, f64_of_int result)
          else (case Base_Subscribe sv rules (am_registry st) of (rg, ret) \<Rightarrow>
            (st\<lparr>am_registry := rg\<rparr>, ani_time_stamp ae ret)))"

definition Ani_Unsubscribe :: "ani_env \<Rightarrow> 'f server \<Rightarrow> 'f ani_module \<Rightarrow> 'f ani_module \<times> ani_value option" where
  "Ani_Unsubscribe ae sv st =
     (if \<not> ae_system_app ae then (st, ThrowAniError (ae_ani ae) (fst non_system_app) (snd non_system_app))
      else case Base_Unsubscribe sv (am_registry st) of (rg, ret) \<Rightarrow>
        (st\<lparr>am_registry := rg\<rparr>, if ret \<noteq> ANI_SUCCESS then Ani_ThrowErrorByRet (ae_ani ae) ret else None))"

section \<open>What a write achieves\<close>

text \<open>
  Which parameter a value is: integers become doubles, big integers lose what is above 64 bits,
  an array has the type of its first element.
\<close>

inductive ani_typed :: "ani_value \<Rightarrow> Param \<Rightarrow> bool" where
  at_bool: "ani_typed (Ani_boolean b) (BL b)"
| at_int: "ani_typed (Ani_int i) (DOU (f64_of_int (sint i)))"
| at_double: "ani_typed (Ani_double d) (DOU d)"
| at_string: "no_nul s \<Longrightarrow> ani_typed (Ani_string s) (STR_VAL s)"
| at_bigint: "ani_typed (Ani_bigint i) (I64 (of_int i))"
| at_bools: "bs \<noteq> [] \<Longrightarrow> ani_typed (Ani_array (map Ani_boolean bs)) (BOOL_ARR bs)"
| at_ints: "is \<noteq> [] \<Longrightarrow> ani_typed (Ani_array (map Ani_int is)) (DOUBLE_ARR (map (\<lambda>i. f64_of_int (sint i)) is))"
| at_doubles: "ds \<noteq> [] \<Longrightarrow> ani_typed (Ani_array (map Ani_double ds)) (DOUBLE_ARR ds)"
| at_strings: "ss \<noteq> [] \<Longrightarrow> list_all no_nul ss \<Longrightarrow> ani_typed (Ani_array (map Ani_string ss)) (STR_ARR ss)"
| at_bigints: "is \<noteq> [] \<Longrightarrow> ani_typed (Ani_array (map Ani_bigint is)) (I64_ARR (map of_int is))"

lemma arg_types:
  assumes "ani_laws an"
  shows "GetArgType an (Some (Ani_boolean b)) = ANI_BOOLEAN" "GetArgType an (Some (Ani_int i)) = ANI_INT"
    "GetArgType an (Some (Ani_double d)) = ANI_DOUBLE" "GetArgType an (Some (Ani_string s)) = ANI_STRING"
    "GetArgType an (Some (Ani_bigint j)) = ANI_BIGINT" "GetArgType an (Some (Ani_long w)) = ANI_UNKNOWN"
  by (simp_all add: GetArgType_def OBJECT_TYPE_def ani_values [OF assms] ani_simps [OF assms] ani_name_defs)

lemma array_types:
  assumes "ani_laws an"
  shows "bs \<noteq> [] \<Longrightarrow> GetArrayType an (Some (Ani_array (map Ani_boolean bs))) = ANI_BOOLEAN"
    "is \<noteq> [] \<Longrightarrow> GetArrayType an (Some (Ani_array (map Ani_int is))) = ANI_INT"
    "ds \<noteq> [] \<Longrightarrow> GetArrayType an (Some (Ani_array (map Ani_double ds))) = ANI_DOUBLE"
    "ss \<noteq> [] \<Longrightarrow> GetArrayType an (Some (Ani_array (map Ani_string ss))) = ANI_STRING"
    "js \<noteq> [] \<Longrightarrow> GetArrayType an (Some (Ani_array (map Ani_bigint js))) = ANI_BIGINT"
  by (simp_all add: GetArrayType_def ani_simps [OF assms] arg_types [OF assms])

lemma typed_added:
  assumes laws: "ani_laws an" and "ani_typed v p"
  shows "AddParamsToEventInfo an (k, v) ps = (put_param k p ps, True)"
  using assms(2)
proof cases
  case (at_strings ss)
  have "map (\<lambda>s. Ani_ParseStringValue an (Some (Ani_string s))) ss = ss"
    using at_strings(4) by (intro map_idI) (simp add: ani_values [OF laws] list_all_iff)
  then show ?thesis
    using at_strings
    by (simp add: AddParamsToEventInfo_def ani_values [OF laws] Ani_AddArrayParamToEventInfo_def IsValidParamType_def
        array_types [OF laws] AddArrayParamToEventInfoExec_def put_read_def GetStrings_def elements_read [OF laws] comp_def
        del: map_eq_conv)
qed (simp_all add: AddParamsToEventInfo_def ani_values [OF laws] Ani_AddArrayParamToEventInfo_def
    Ani_AddParamToEventInfo_def IsValidParamType_def arg_types [OF laws] array_types [OF laws] AddArrayParamToEventInfoExec_def put_read_def
    GetBooleans_def GetIntsToDoubles_def GetDoubles_def GetBigints_def elements_read [OF laws] comp_def Let_def)

definition ani_params :: "(string \<times> ani_value) list \<Rightarrow> bool" where
  "ani_params qs \<longleftrightarrow> distinct (map fst qs) \<and>
     (\<forall>(k, v) \<in> set qs. no_nul k \<and> CheckKeyTypeString k \<and> (\<exists>p. ani_typed v p))"

lemma record_read:
  assumes laws: "ani_laws an" and keys: "\<forall>(k, v) \<in> set qs. no_nul k \<and> CheckKeyTypeString k \<and> map_of all_qs k = Some v"
  shows "record_loop an (Ani_object n all_qs) (map (\<lambda>kv. Next_key (Ani_string (fst kv))) qs) m =
    fold (\<lambda>(k, v). map_put k v) qs m"
  using keys
proof (induction qs arbitrary: m)
  case (Cons kv qs)
  then show ?case
    by (cases kv) (simp add: ani_simps [OF laws] ani_values [OF laws] Let_def)
qed simp

lemma fold_map_put:
  "ordered m \<Longrightarrow> distinct (map fst qs) \<Longrightarrow> ordered (fold (\<lambda>(k, v). map_put k v) qs m) \<and>
     map_of (fold (\<lambda>(k, v). map_put k v) qs m) = map_of m ++ map_of qs"
proof (induction qs arbitrary: m)
  case (Cons kv qs)
  obtain k v where kv: "kv = (k, v)"
    by (rule prod.exhaust)
  have none: "map_of qs k = None"
    using Cons.prems(2) by (simp add: kv map_of_eq_None_iff)
  have "ordered (map_put k v m)" "distinct (map fst qs)"
    using Cons.prems ordered_map_put by (simp_all add: kv)
  note ih = Cons.IH [OF this, unfolded map_of_map_put]
  have "((map_of m)(k \<mapsto> v) ++ map_of qs) x = (map_of m ++ map_of (kv # qs)) x" for x
    using none by (cases "x = k") (simp_all add: kv map_add_def split: option.split)
  then have "(map_of m)(k \<mapsto> v) ++ map_of qs = map_of m ++ map_of (kv # qs)"
    by (rule ext)
  then show ?case
    unfolding fold.simps comp_def kv prod.case using ih by (simp only: kv simp_thms)
qed (simp add: ordered_def)

lemma params_added:
  assumes laws: "ani_laws an"
  shows "\<forall>(k, v) \<in> set m. \<exists>p. ani_typed v p \<Longrightarrow> distinct (map fst ps) \<Longrightarrow>
    \<exists>ps'. params_loop an m ps = (ps', True) \<and> distinct (map fst ps') \<and>
      (distinct (map fst m) \<longrightarrow>
        (\<forall>k. case map_of m k of None \<Rightarrow> map_of ps' k = map_of ps k | Some v \<Rightarrow> \<exists>p. ani_typed v p \<and> map_of ps' k = Some p))"
proof (induction m arbitrary: ps)
  case (Cons kv m)
  obtain k v where kv: "kv = (k, v)"
    by (rule prod.exhaust)
  obtain p where p: "ani_typed v p"
    using Cons.prems(1) kv by auto
  obtain ps' where ps': "params_loop an m (put_param k p ps) = (ps', True)" "distinct (map fst ps')"
    "distinct (map fst m) \<Longrightarrow> \<forall>k'. case map_of m k' of None \<Rightarrow> map_of ps' k' = map_of (put_param k p ps) k'
       | Some v \<Rightarrow> \<exists>p. ani_typed v p \<and> map_of ps' k' = Some p"
    using Cons.IH [of "put_param k p ps"] Cons.prems distinct_put_param by (auto simp: kv)
  have "case map_of (kv # m) k' of None \<Rightarrow> map_of ps' k' = map_of ps k' | Some v \<Rightarrow> \<exists>p. ani_typed v p \<and> map_of ps' k' = Some p"
    if d: "distinct (map fst (kv # m))" for k'
  proof (cases "k' = k")
    case True
    have "map_of m k = None"
      using d by (simp add: kv map_of_eq_None_iff)
    then show ?thesis
      using True ps'(3) d p by (auto simp: kv dest: spec [of _ k])
  next
    case False
    have "case map_of m k' of None \<Rightarrow> map_of ps' k' = map_of (put_param k p ps) k'
       | Some v \<Rightarrow> \<exists>p. ani_typed v p \<and> map_of ps' k' = Some p"
      using ps'(3) d by (simp add: kv)
    then show ?thesis
      using False by (simp add: kv split: option.splits)
  qed
  then show ?case
    using ps'(1,2) typed_added [OF laws p, of k ps] by (auto simp: kv)
qed simp

lemma ani_params_read:
  assumes laws: "ani_laws an" and qs: "ani_params qs"
  shows "\<exists>ps. ParseParamsInSysEventInfo an (Some (Ani_object n qs)) [] = (ps, True) \<and> distinct (map fst ps) \<and>
    (\<forall>k. rel_option ani_typed (map_of qs k) (map_of ps k))"
proof -
  let ?m = "fold (\<lambda>(k, v). map_put k v) qs []"
  have d: "distinct (map fst qs)"
    using qs by (simp add: ani_params_def)
  have m: "ordered ?m" "map_of ?m = map_of qs"
    using fold_map_put [of "[]" qs] d by (simp_all add: ordered_def)
  have rec: "Ani_ParseRecord an (Some (Ani_object n qs)) = ?m"
    using qs d record_read [OF laws, of qs qs n "[]"]
    by (simp add: Ani_ParseRecord_def ani_simps(11) [OF laws d] ani_params_def split_beta)
  have "(k, v) \<in> set qs" if "(k, v) \<in> set ?m" for k v
    using that map_of_is_SomeI [OF ordered_distinct [OF m(1)], of k v] m(2) by (simp add: map_of_SomeD)
  then have "\<forall>(k, v) \<in> set ?m. \<exists>p. ani_typed v p"
    using qs unfolding ani_params_def by fast
  then obtain ps where ps: "params_loop an ?m [] = (ps, True)" "distinct (map fst ps)"
    "\<forall>k. case map_of qs k of None \<Rightarrow> map_of ps k = map_of [] k | Some v \<Rightarrow> \<exists>p. ani_typed v p \<and> map_of ps k = Some p"
    using params_added [OF laws, of ?m "[]"] ordered_distinct [OF m(1)] m(2) by auto
  have "rel_option ani_typed (map_of qs k) (map_of ps k)" for k
    using spec [OF ps(3), of k] by (cases "map_of qs k") auto
  then show ?thesis
    using ps(1,2) rec by (auto simp: ParseParamsInSysEventInfo_def ani_values [OF laws])
qed

text \<open>The object of an event; without parameters it may lack \<^verbatim>\<open>params\<close>.\<close>

definition ani_event :: "ani_value \<Rightarrow> string \<Rightarrow> string \<Rightarrow> int \<Rightarrow> (string \<times> ani_value) list \<Rightarrow> bool" where
  "ani_event v domain name eventType qs \<longleftrightarrow> no_nul domain \<and> no_nul name \<and> ani_params qs \<and>
     (\<exists>n m fields e. v = Ani_object n fields \<and> map_of fields ''domain'' = Some (Ani_string domain) \<and>
        map_of fields ''name'' = Some (Ani_string name) \<and> map_of fields ''eventType'' = Some (Ani_enum e) \<and> eventType = sint e \<and>
        (map_of fields ''params'' = Some (Ani_object m qs) \<or> map_of fields ''params'' = None \<and> qs = []))"

lemma ani_event_read:
  assumes laws: "ani_laws an" and event: "ani_event v domain name eventType qs" and fresh: "ei_params info = []"
  shows "\<exists>ps. ParseSysEventInfo an v info =
      \<lparr>ei_domain = domain, ei_name = name, ei_eventType = eventType, ei_params = ps\<rparr> \<and>
    distinct (map fst ps) \<and> (\<forall>k. rel_option ani_typed (map_of qs k) (map_of ps k))"
proof -
  obtain n m fields e where v: "v = Ani_object n fields" and qs: "ani_params qs"
    and attrs: "map_of fields ''domain'' = Some (Ani_string domain)" "map_of fields ''name'' = Some (Ani_string name)"
      "map_of fields ''eventType'' = Some (Ani_enum e)" "eventType = sint e" "no_nul domain" "no_nul name"
    and params: "map_of fields ''params'' = Some (Ani_object m qs) \<or> map_of fields ''params'' = None \<and> qs = []"
    using event by (auto simp: ani_event_def)
  obtain ps where ps: "ParseParamsInSysEventInfo an (Some (Ani_object m qs)) [] = (ps, True)" "distinct (map fst ps)"
    "\<forall>k. rel_option ani_typed (map_of qs k) (map_of ps k)"
    using ani_params_read [OF laws qs] by blast
  show ?thesis
    using params
  proof
    assume "map_of fields ''params'' = Some (Ani_object m qs)"
    then show ?thesis
      using attrs ps fresh by (intro exI [of _ ps])
        (simp add: ParseSysEventInfo_def v ani_simps [OF laws] ani_values [OF laws] Let_def)
  next
    assume "map_of fields ''params'' = None \<and> qs = []"
    then show ?thesis
      using attrs fresh by (intro exI [of _ "[]"])
        (simp add: ParseSysEventInfo_def v ani_simps [OF laws] ani_values [OF laws] ParseParamsInSysEventInfo_def Let_def)
  qed
qed

text \<open>Writing goes on after the limit as the C++ writer does, but with every time stamp.\<close>

lemma WriteInner_written:
  assumes caller: "ParseCallerInfo ae ([], 0) = Some caller"
    and limit: "CheckLimitWritingEvent (we_char_signed we) default_param (ei_name info) (fst caller) (snd caller)
      (we_now we) (wr_lru w) = (lru, t)"
    and inner: "InnerWrite_event (we_os we) (we_proc we) (ei_domain info) (ei_name info) (ei_eventType info) t
      (KeyValues (map (\<lambda>(k, p). (k, cpp_of_param p)) (ae_param_order ae (ei_params info)))) (wr_transport w) = (tp, ret)"
  shows "WriteInner ae we info w = Some (w\<lparr>wr_lru := lru, wr_transport := tp\<rparr>, ret)"
proof -
  let ?info = "info\<lparr>ei_params := ae_param_order ae (ei_params info)\<rparr>"
  have napi: "Napi_Write_event (we_os we) (we_proc we) ?info t (wr_transport w) = (tp, ret)"
    using inner by (simp add: Napi_Write_event_is_InnerWrite key_values_def)
  have "w\<lparr>wr_lru := lru\<rparr> = w\<lparr>wr_lru := lru, wr_transport := wr_transport w\<rparr>"
    by simp
  then show ?thesis
    using napi caller limit
    by (auto simp: WriteInner_def Ani_CheckThenWriteSysEvent_def Napi_Write_event_def Ani_AppendParams_def Let_def
        split: if_splits prod.splits)
qed

text \<open>
  C39. An event object written from ArkTS is sent with its domain, name and type and one
  parameter for each entry of its record, in some order: integers as doubles, big integers as
  their low 64 bits, arrays with the type of their first element. The frequency limit is that
  of the call site read off the stack trace; its result is only the time stamp of the event,
  also when it is the invalid one of a refused event. ArkTS gets the entry of the error table
  for the code of the write.
\<close>

theorem ani_event_written:
  assumes laws: "ani_laws (ae_ani ae)" "\<forall>ps. mset (ae_param_order ae ps) = mset ps" and call: "ae_system_app ae"
    and event: "ani_event v domain name eventType qs" and caller: "ParseCallerInfo ae ([], 0) = Some caller"
  shows "\<exists>ps. distinct (map fst ps) \<and> (\<forall>k. rel_option ani_typed (map_of qs k) (map_of ps k)) \<and>
    (\<forall>lru t tp ret. CheckLimitWritingEvent (we_char_signed we) default_param name (fst caller) (snd caller)
        (we_now we) (wr_lru w) = (lru, t) \<longrightarrow>
      InnerWrite_event (we_os we) (we_proc we) domain name eventType t
        (KeyValues (map (\<lambda>(k, p). (k, cpp_of_param p)) ps)) (wr_transport w) = (tp, ret) \<longrightarrow>
      WriteSync ae we v w =
        Some (w\<lparr>wr_lru := lru, wr_transport := tp\<rparr>, WriteResult (ae_ani ae) (Ani_GetErrorDetailByRet ret)))"
proof -
  let ?info0 = "\<lparr>ei_domain = [], ei_name = [], ei_eventType = ae_event_type ae, ei_params = []\<rparr>"
  obtain ps where ps: "ParseSysEventInfo (ae_ani ae) v ?info0 =
      \<lparr>ei_domain = domain, ei_name = name, ei_eventType = eventType, ei_params = ps\<rparr>"
    "distinct (map fst ps)" "\<forall>k. rel_option ani_typed (map_of qs k) (map_of ps k)"
    using ani_event_read [OF laws(1) event, of ?info0] by auto
  have walked: "distinct (map fst (ae_param_order ae ps))" "map_of (ae_param_order ae ps) = map_of ps"
    using permuted_params [OF _ ps(2), of "ae_param_order ae ps"] laws(2) by simp_all
  show ?thesis
    using walked ps call WriteInner_written [OF caller, of we
        "\<lparr>ei_domain = domain, ei_name = name, ei_eventType = eventType, ei_params = ps\<rparr>" w]
    by (intro exI [of _ "ae_param_order ae ps"]) (simp add: WriteSync_def)
qed

text \<open>A runtime on which everything works.\<close>

definition plain_ani :: ani where
  "plain_ani =
     \<lparr>an_find_class = (\<lambda>c. True), an_find_method = (\<lambda>c m s. True), an_find_static = (\<lambda>c m. True), an_find_enum = (\<lambda>c. True),
      an_is_array = (\<lambda>v. map_option (case_ani_value False False (\<lambda>_. False) (\<lambda>_. False) (\<lambda>_. False) (\<lambda>_. False) (\<lambda>_. False)
        (\<lambda>_. False) (\<lambda>_. False) (\<lambda>_. True) (\<lambda>_ _. False) (\<lambda>_. False)) v),
      an_is_undefined = map_option (\<lambda>v. v = Ani_undefined),
      an_instance_of = (\<lambda>v c. map_option (\<lambda>x. ani_class_of x = c) v),
      an_call_boolean = (\<lambda>v c m. case v of Ani_boolean b \<Rightarrow> Some b | _ \<Rightarrow> None),
      an_call_int = (\<lambda>v c m. case v of Ani_int i \<Rightarrow> Some i | _ \<Rightarrow> None),
      an_call_long = (\<lambda>v c m. case v of Ani_bigint i \<Rightarrow> Some (of_int i) | _ \<Rightarrow> None),
      an_call_double = (\<lambda>v c m. case v of Ani_double d \<Rightarrow> Some d | _ \<Rightarrow> None),
      an_keys = (\<lambda>v. case v of Ani_object n ps \<Rightarrow> Some (map (\<lambda>kv. Next_key (Ani_string (fst kv))) ps) | _ \<Rightarrow> None),
      an_get = (\<lambda>v k. case v of Ani_object n ps \<Rightarrow> (case k of Ani_string s \<Rightarrow> map_of ps s | _ \<Rightarrow> None) | _ \<Rightarrow> None),
      an_utf8_size = (\<lambda>v. case v of Ani_string s \<Rightarrow> Some (length s) | _ \<Rightarrow> None),
      an_utf8 = (\<lambda>v n. case v of Ani_string s \<Rightarrow> if length s < n then Some s else None | _ \<Rightarrow> None),
      an_length = (\<lambda>v. case v of Ani_array vs \<Rightarrow> Some (length vs) | _ \<Rightarrow> None),
      an_element = (\<lambda>v i. case v of Ani_array vs \<Rightarrow> if i < length vs then Some (vs ! i) else None | _ \<Rightarrow> None),
      an_property = (\<lambda>v k. case v of Ani_object n ps \<Rightarrow> Some (case map_of ps k of None \<Rightarrow> Ani_undefined | Some x \<Rightarrow> x) | _ \<Rightarrow> None),
      an_property_long = (\<lambda>v k. case v of Ani_object n ps \<Rightarrow> (case map_of ps k of Some (Ani_long w) \<Rightarrow> Some w | _ \<Rightarrow> None) | _ \<Rightarrow> None),
      an_enum_int = (\<lambda>v. case v of Ani_enum i \<Rightarrow> Some i | _ \<Rightarrow> None),
      an_new = (\<lambda>c s a. Some (Ani_object 0 [])),
      an_new_string = (\<lambda>s. Some (Ani_string s)),
      an_new_array = (\<lambda>n v. Some (Ani_array (replicate n (case v of None \<Rightarrow> Ani_null | Some x \<Rightarrow> x)))),
      an_undefined = Some Ani_undefined,
      an_enum_item = (\<lambda>c i. Some (Ani_enum (of_nat i))),
      an_set = (\<lambda>v k x. case v of Ani_object n ps \<Rightarrow> map_option (\<lambda>y. Ani_object n (map_put k y ps)) x | _ \<Rightarrow> None),
      an_set_int = (\<lambda>v k i. case v of Ani_object n ps \<Rightarrow> Some (Ani_object n (map_put k (Ani_int i) ps)) | _ \<Rightarrow> None),
      an_set_element = (\<lambda>v i x. case v of Ani_array vs \<Rightarrow> if i < length vs then map_option (\<lambda>y. Ani_array (vs[i := y])) x else None | _ \<Rightarrow> None),
      an_throw = (\<lambda>v. True), an_garbage = None, an_garbage_size = 0\<rparr>"

lemma plain_ani_laws: "ani_laws plain_ani"
  by (simp add: ani_laws_def plain_ani_def split: ani_value.split)

definition plain_ani_env :: ani_env where
  "plain_ani_env =
     \<lparr>ae_ani = plain_ani, ae_system_app = True, ae_thread = 1, ae_stack = Some Ani_null, ae_stack_length = (\<lambda>v. Some 1),
      ae_stack_item = (\<lambda>v i. Some Ani_null), ae_to_string = (\<lambda>v. Some (Ani_string ''at main main.ets:10:5'')),
      ae_event_type = 0, ae_refer = (\<lambda>v. True), ae_strict_equals = (\<lambda>v x. Some (v = x)), ae_param_order = rev,
      ae_ref_order = (\<lambda>m. map Some [0..<10])\<rparr>"

lemma plain_ani_env_simps [simp]:
  "ae_ani plain_ani_env = plain_ani" "ae_system_app plain_ani_env" "ae_refer plain_ani_env v"
  "ae_param_order plain_ani_env = rev" "ae_thread plain_ani_env = 1"
  by (simp_all add: plain_ani_env_def)

lemma plain_trace: "Ani_ParseCallerInfoFromStackTrace ''at main main.ets:10:5'' ([], 0) = Some (''main'', 10)"
proof -
  have "tokens (CHR '' '') ''at main main.ets:10:5'' = [''at'', ''main'', ''main.ets:10:5'']"
    by code_simp
  moreover have "tokens (CHR '':'') ''main.ets:10:5'' = [''main.ets'', ''10'', ''5'']"
    by code_simp
  moreover have "\<not> list_ex (\<lambda>c. \<not> is_digit_char c) ''10''" "stoll ''10'' = Some 10"
    by (simp_all add: is_digit_char_def stoll_def digits_nat_def of_char_def)
  ultimately show ?thesis
    by (simp add: Ani_ParseCallerInfoFromStackTrace_def Ani_Split_def Split_tokens Let_def)
qed

lemma plain_ani_caller: "ParseCallerInfo plain_ani_env ([], 0) = Some (''main'', 10)"
proof -
  have "GetStack plain_ani_env = ''at main main.ets:10:5''"
    by (simp add: GetStack_def plain_ani_env_def plain_ani_def Ani_AniStringToStdString_def cut_at_nul_def)
  then show ?thesis
    using plain_trace by (simp add: ParseCallerInfo_def)
qed

definition plain_ani_event :: ani_value where
  "plain_ani_event = Ani_object 1 [(''domain'', Ani_string ''HIVIEW''), (''name'', Ani_string ''LOAD''),
     (''eventType'', Ani_enum 4), (''params'', Ani_object 2 [(''KEY'', Ani_int 5)])]"

lemma plain_ani_event_object: "ani_event plain_ani_event ''HIVIEW'' ''LOAD'' 4 [(''KEY'', Ani_int 5)]"
proof -
  have "CheckKeyTypeString ''KEY''"
    by code_simp
  then have "ani_params [(''KEY'', Ani_int 5)]"
    using at_int [of 5] by (auto simp: ani_params_def no_nul_def)
  then show ?thesis
    by (simp add: ani_event_def plain_ani_event_def no_nul_def)
qed

inductive_cases ani_typed_int: "ani_typed (Ani_int i) p"

theorem ani_event_written_witness:
  "\<exists>ps. map_of ps ''KEY'' = Some (DOU (f64_of_int 5)) \<and>
     (\<forall>lru t tp ret. CheckLimitWritingEvent True default_param ''LOAD'' ''main'' 10 7000 (wr_lru std_w) = (lru, t) \<longrightarrow>
        InnerWrite_event os_up std_pe ''HIVIEW'' ''LOAD'' 4 t (KeyValues (map (\<lambda>(k, p). (k, cpp_of_param p)) ps))
          (wr_transport std_w) = (tp, ret) \<longrightarrow>
        WriteSync plain_ani_env std_we plain_ani_event std_w =
          Some (std_w\<lparr>wr_lru := lru, wr_transport := tp\<rparr>, WriteResult plain_ani (Ani_GetErrorDetailByRet ret)))"
proof -
  have env: "ani_laws (ae_ani plain_ani_env)" "\<forall>ps. mset (ae_param_order plain_ani_env ps) = mset ps" "ae_system_app plain_ani_env"
    by (simp_all add: plain_ani_laws)
  note written = ani_event_written [OF env plain_ani_event_object plain_ani_caller, of std_we std_w]
  have we: "we_char_signed std_we" "we_now std_we = 7000" "we_os std_we = os_up" "we_proc std_we = std_pe"
    by (simp_all add: std_we_def)
  from written obtain ps where ps: "\<forall>k. rel_option ani_typed (map_of [(''KEY'', Ani_int 5)] k) (map_of ps k)"
    and wr: "\<forall>lru t tp ret. CheckLimitWritingEvent True default_param ''LOAD'' ''main'' 10 7000 (wr_lru std_w) = (lru, t) \<longrightarrow>
        InnerWrite_event os_up std_pe ''HIVIEW'' ''LOAD'' 4 t (KeyValues (map (\<lambda>(k, p). (k, cpp_of_param p)) ps))
          (wr_transport std_w) = (tp, ret) \<longrightarrow>
        WriteSync plain_ani_env std_we plain_ani_event std_w =
          Some (std_w\<lparr>wr_lru := lru, wr_transport := tp\<rparr>, WriteResult plain_ani (Ani_GetErrorDetailByRet ret))"
    by (auto simp: we)
  have "map_of ps ''KEY'' = Some (DOU (f64_of_int 5))"
    using ps [rule_format, of "''KEY''"] by (auto simp: option_rel_Some1 elim!: ani_typed_int)
  then show ?thesis
    using wr by blast
qed

section \<open>What a query achieves\<close>

text \<open>The object of an argument without sequence bounds, and that of a rule.\<close>

definition ani_arg :: "ani_value \<Rightarrow> 64 word \<Rightarrow> 64 word \<Rightarrow> 64 word \<Rightarrow> bool" where
  "ani_arg v b e m \<longleftrightarrow>
     (\<exists>n fields. v = Ani_object n fields \<and> map_of fields ''beginTime'' = Some (Ani_long b) \<and>
        map_of fields ''endTime'' = Some (Ani_long e) \<and> map_of fields ''maxEvents'' = Some (Ani_long m) \<and>
        map_of fields ''fromSeq'' = None \<and> map_of fields ''toSeq'' = None)"

definition ani_rule :: "ani_value \<Rightarrow> query_rule \<Rightarrow> bool" where
  "ani_rule v rule \<longleftrightarrow>
     (\<exists>n fields. v = Ani_object n fields \<and>
        map_of fields ''names'' = Some (Ani_array (map Ani_string (ql_eventList rule))) \<and> list_all no_nul (ql_eventList rule) \<and>
        map_of fields ''domain'' = Some (Ani_string (ql_domain rule)) \<and> no_nul (ql_domain rule) \<and>
        (map_of fields ''condition'' = Some (Ani_string (ql_condition rule)) \<and> no_nul (ql_condition rule) \<or>
         map_of fields ''condition'' = None \<and> ql_condition rule = []) \<and>
        ql_ruleType rule = WHOLE_WORD \<and> ql_eventType rule = 0)"

lemma ani_arg_read:
  assumes laws: "ani_laws an" and "ani_arg v b e m"
  shows "Ani_ParseQueryArg an v arg =
    \<lparr>ar_beginTime = b, ar_endTime = e, ar_maxEvents = ucast m, ar_fromSeq = ar_fromSeq arg, ar_toSeq = ar_toSeq arg\<rparr>"
  using assms(2) by (auto simp: ani_arg_def Ani_ParseQueryArg_def long_property_def ani_simps [OF laws] ani_values [OF laws] Let_def)

lemma ani_rule_read:
  assumes laws: "ani_laws an" and "ani_rule v rule"
  shows "Ani_ParseQueryRule an v = rule"
proof -
  obtain n fields where v: "v = Ani_object n fields"
    and names: "map_of fields ''names'' = Some (Ani_array (map Ani_string (ql_eventList rule)))" "list_all no_nul (ql_eventList rule)"
    and dom: "map_of fields ''domain'' = Some (Ani_string (ql_domain rule))" "no_nul (ql_domain rule)"
    and cond: "map_of fields ''condition'' = Some (Ani_string (ql_condition rule)) \<and> no_nul (ql_condition rule) \<or>
         map_of fields ''condition'' = None \<and> ql_condition rule = []"
    and types: "ql_ruleType rule = WHOLE_WORD" "ql_eventType rule = 0"
    using assms(2) by (auto simp: ani_rule_def)
  let ?names = "map Ani_string (ql_eventList rule)"
  have els: "map (an_element an (Ani_array ?names)) [0..<length (ql_eventList rule)] = map Some ?names"
    by (rule nth_equalityI) (simp_all add: ani_simps [OF laws])
  have all: "takeWhile (\<lambda>el. el \<noteq> None) (map Some ?names) = map Some ?names"
    by (simp add: takeWhile_eq_all_conv)
  have texts: "map (Ani_ParseStringValue an) (map Some ?names) = ql_eventList rule"
    using names(2) by (simp add: map_idI ani_values [OF laws] list_all_iff)
  have none: "None \<notin> set (map Some ?names)"
    by auto
  have rule: "QueryRule_new (ql_domain rule) (ql_eventList rule) WHOLE_WORD 0 (ql_condition rule) = rule"
    using types by (simp add: QueryRule_new_def)
  show ?thesis
    using cond names(1) dom rule els
    by (auto simp only: Ani_ParseQueryRule_def v ani_simps [OF laws] ani_values [OF laws] Let_def option.case els all texts none
        length_map if_False if_True option.inject ani_value.distinct simp_thms)
qed

lemma ani_valid_rule: "rule_valid rule \<Longrightarrow> Ani_IsQueryRuleValid an rule = (None, True)"
  by (simp add: rule_valid_def Ani_IsQueryRuleValid_def list_ex_iff list_all_iff)

lemma ani_rules_loop_read:
  assumes laws: "ani_laws an"
  shows "list_all2 ani_rule vs rules \<Longrightarrow> list_all rule_valid rules \<Longrightarrow>
    ani_rules_loop an (Ani_array (us @ vs)) [length us..<length us + length vs] read = (None, ANI_SUCCESS, read @ rules)"
proof (induction vs rules arbitrary: us read rule: list_all2_induct)
  case (Cons v vs rule rules)
  have "[length us..<length us + length (v # vs)] = length us # [length (us @ [v])..<length (us @ [v]) + length vs]"
    by (simp add: upt_conv_Cons del: upt_Suc)
  then show ?case
    using Cons.IH [of "us @ [v]" "read @ [rule]"] Cons.prems ani_rule_read [OF laws Cons.hyps(1)] ani_valid_rule [of rule an]
    by (simp add: ani_simps [OF laws] Let_def)
qed simp

lemma ani_rules_read:
  assumes "ani_laws an" "list_all2 ani_rule vs rules" "list_all rule_valid rules"
  shows "Ani_ParseQueryRules an (Ani_array vs) = (None, ANI_SUCCESS, rules)"
  using ani_rules_loop_read [OF assms, of "[]" "[]"] by (simp add: Ani_ParseQueryRules_def ani_simps [OF assms(1)])

text \<open>
  The service gets the times and the count of the argument as they are, a negative one, too,
  and no sequence bounds; the querier is kept only when the service accepts the query.
\<close>

lemma ani_query_sent:
  assumes laws: "ani_laws (ae_ani ae)" and call: "ae_system_app ae" "ae_refer ae q"
    and arg: "ani_arg v b e m" and rules: "list_all2 ani_rule vs rules" "list_all rule_valid rules"
    and service: "sv_present sv (rg_log (am_registry st))"
  defines "rq \<equiv> QueryRequest \<lparr>qa_beginTime = b, qa_endTime = e, qa_maxEvents = ucast m, qa_fromSeq = -1, qa_toSeq = -1\<rparr>
    (ConvertQueryRule rules)"
  defines "reply \<equiv> sv_reply sv (rg_log (am_registry st)) rq"
  shows "\<exists>st' thrown. Ani_Query ae sv v (Ani_array vs) q st = (st', thrown) \<and>
    rg_log (am_registry st') = rg_log (am_registry st) @ [(rq, reply)] \<and>
    thrown = (if reply = 0 then None else Ani_ThrowErrorByRet (ae_ani ae) reply) \<and>
    am_queriers st' = (if reply = 0 then (am_queriers st)(Some (am_next_ref st) \<mapsto> (ae_thread ae, am_next_querier st))
      else am_queriers st)"
proof -
  have parsed: "Ani_ParseQueryArg (ae_ani ae) v ani_query_arg_default =
      \<lparr>ar_beginTime = b, ar_endTime = e, ar_maxEvents = ucast m, ar_fromSeq = -1, ar_toSeq = -1\<rparr>"
    by (simp add: ani_arg_read [OF laws arg] ani_query_arg_default_def QueryArg_new_def)
  show ?thesis
    using call service
    by (simp add: Ani_Query_def parsed ani_rules_read [OF laws rules] ANI_SUCCESS_def SUCCESS_def ani_new_reference_def
        Base_Query_def Delegate_Query_def request_server_def rq_def reply_def Let_def)
qed

section \<open>Where the binding departs from the other interfaces\<close>

text \<open>An event over the frequency limit, which C++ refuses, is sent with the invalid time stamp.\<close>

lemma refused_event_sent:
  assumes "ParseCallerInfo ae ([], 0) = Some caller"
    and limit: "CheckLimitWritingEvent (we_char_signed we) default_param (ei_name info) (fst caller) (snd caller)
      (we_now we) (wr_lru w) = (lru, INVALID_TIME_STAMP)"
    and "InnerWrite_event (we_os we) (we_proc we) (ei_domain info) (ei_name info) (ei_eventType info) INVALID_TIME_STAMP
      (KeyValues (map (\<lambda>(k, p). (k, cpp_of_param p)) (ae_param_order ae (ei_params info)))) (wr_transport w) = (tp, ret)"
  shows "WriteInner ae we info w = Some (w\<lparr>wr_lru := lru, wr_transport := tp\<rparr>, ret)"
    and "HiSysEvent_Write_cpp (we\<lparr>we_param := default_param\<rparr>) (fst caller) (snd caller) (ei_domain info) (ei_name info)
      (ei_eventType info) kvs w = (w\<lparr>wr_lru := lru\<rparr>, ERR_WRITE_IN_HIGH_FREQ)"
  using WriteInner_written [OF assms] limit by (simp_all add: HiSysEvent_Write_cpp_def Let_def)

text \<open>A line number of a trace that does not fit into 64 bits is an exception.\<close>

lemma long_line_number_throws:
  "2 ^ 63 \<le> digits_nat digits \<Longrightarrow> list_all is_digit_char digits \<Longrightarrow>
     Ani_Split trace (CHR '' '') [] = [head, func, site] \<Longrightarrow> Ani_Split site (CHR '':'') [] = [file, digits] \<Longrightarrow>
     trace \<noteq> [] \<Longrightarrow> Ani_ParseCallerInfoFromStackTrace trace caller = None"
  by (simp add: Ani_ParseCallerInfoFromStackTrace_def stoll_def list_ex_iff list_all_iff Let_def)

text \<open>An array whose first element is no boolean, number, string or big integer ends the parameters.\<close>

lemma untyped_value_ends:
  "ani_laws an \<Longrightarrow> AddParamsToEventInfo an (k, Ani_long w) ps = (ps, False)"
  by (simp add: AddParamsToEventInfo_def Ani_AddParamToEventInfo_def arg_types ani_values IsValidParamType_def)

lemma empty_array_ends:
  "ani_laws an \<Longrightarrow> an_element an (Ani_array []) 0 = None \<Longrightarrow> AddParamsToEventInfo an (k, Ani_array []) ps = (ps, False)"
  by (simp add: AddParamsToEventInfo_def Ani_AddArrayParamToEventInfo_def GetArrayType_def ani_values IsValidParamType_def)

text \<open>Of an event with several parameters the object keeps the last one.\<close>

lemma map_put_again: "map_put k v (map_put k u m) = map_put k v m"
  by (induction k u m rule: map_put.induct) auto

lemma last_param_kept:
  assumes "Ani_AppendParamsInfo plain_ani asBool jc (Ani_object n ps) a = Some (Ani_object n (map_put ''params'' x ps))"
    and "jc_isString jc b" "jc_asString jc b = Some s" "\<not> jc_isArray jc b" "\<not> jc_isBool jc b" "\<not> jc_isInt jc b"
      "\<not> jc_isUInt jc b" "\<not> jc_isInt64 jc b" "\<not> jc_isUInt64 jc b" "\<not> jc_isDouble jc b"
  shows "Option.bind (Ani_AppendParamsInfo plain_ani asBool jc (Ani_object n ps) a)
      (\<lambda>obj. Ani_AppendParamsInfo plain_ani asBool jc obj b) =
    Some (Ani_object n (map_put ''params'' (Ani_string s) ps))"
  using assms by (simp add: Ani_AppendParamsInfo_def Ani_CreateParamItemTypeValue_def set_logged_def plain_ani_def
      Ani_CreateStringValue_def map_put_again)

text \<open>On the thread that delivers the results no entry of the thread of the query is found.\<close>

lemma foreign_entry_not_found:
  "(\<forall>ref pid obj. resources ref = Some (pid, obj) \<longrightarrow> pid \<noteq> ae_thread ae) \<Longrightarrow>
     Ani_CompareAndReturnCacheItem ae st standard resources = None"
  by (fastforce simp: Ani_CompareAndReturnCacheItem_def find_Some_iff split: option.splits prod.splits)

lemma complete_query_kept:
  "(\<forall>ref pid obj. am_queriers st ref = Some (pid, obj) \<longrightarrow> pid \<noteq> ae_thread ae) \<Longrightarrow> ani_complete ae q st = st"
  by (simp add: ani_complete_def foreign_entry_not_found)

text \<open>Without the service the registration fails, and the deleted context is deleted again.\<close>

lemma failed_watcher_deletes_twice:
  "ae_system_app ae \<Longrightarrow> \<not> sv_present sv (rg_log (am_registry st)) \<Longrightarrow> Ani_AddWatcher ae sv watcher st = None"
  by (simp add: Ani_AddWatcher_def ani_new_reference_def new_base_def Base_AddListener_def Delegate_AddListener_def
      callback_of_def ANI_SUCCESS_def ERR_SYS_EVENT_SERVICE_NOT_FOUND_def Let_def)

end
