(* ===== verification/AniCallbacks.thy ===== *)
theory AniCallbacks
  imports CallbackInterleaving AniModule
begin

text \<open>
  The calls into ArkTS (ani_callback_manager.cpp, ani_hisysevent_listener.cpp,
  ani_hisysevent_querier.cpp and their headers under src/interfaces/ets/ani/hisysevent). The
  manager has the queue of the manager of JavaScript callbacks, but runs its tasks on the
  thread that delivers them, without an event loop. Every thread has a program counter and
  makes one step for each locked section, each atomic variable and each call, as in
  CallbackInterleaving. The theory shows that each step is one of that machine on an engine
  that serves everything, the calling thread being the one that completes the posted work, so
  that the invariant carries over, and what ArkTS is called with.
\<close>

section \<open>The manager\<close>

text \<open>
  A context has the functions of its task, the release function being the lambda that \<^verbatim>\<open>Add\<close>
  makes.
\<close>

record 'f ani_context =
  cx_callback :: "'f option"
  cx_release :: "'f option option"

record 'f ani_callback_manager =
  cm_inCalling :: bool
  cm_IsReleased :: bool
  cm_AniCallbacks :: "'f task list"

record 'f ani_machine =
  aq_manager :: "'f ani_callback_manager"
  aq_contexts :: "nat \<Rightarrow> 'f ani_context"

definition Ani_set_inCalling :: "bool \<Rightarrow> 'f ani_machine \<Rightarrow> 'f ani_machine" where
  "Ani_set_inCalling b m = m\<lparr>aq_manager := (aq_manager m)\<lparr>cm_inCalling := b\<rparr>\<rparr>"

definition Ani_set_IsReleased :: "'f ani_machine \<Rightarrow> 'f ani_machine" where
  "Ani_set_IsReleased m = m\<lparr>aq_manager := (aq_manager m)\<lparr>cm_IsReleased := True\<rparr>\<rparr>"

definition Ani_set_queue :: "'f task list \<Rightarrow> 'f ani_machine \<Rightarrow> 'f ani_machine" where
  "Ani_set_queue q m = m\<lparr>aq_manager := (aq_manager m)\<lparr>cm_AniCallbacks := q\<rparr>\<rparr>"

text \<open>The locked section of \<^verbatim>\<open>Add\<close>; the flag says that \<^verbatim>\<open>ImmediateRun\<close> follows.\<close>

definition Ani_push_task :: "'f task \<Rightarrow> 'f ani_machine \<Rightarrow> bool \<times> 'f ani_machine" where
  "Ani_push_task task m =
     (\<not> cm_inCalling (aq_manager m), Ani_set_queue (cm_AniCallbacks (aq_manager m) @ [task]) m)"

text \<open>The locked section of \<^verbatim>\<open>ImmediateRun\<close>; \<open>None\<close> is \<^verbatim>\<open>front\<close> of an empty queue.\<close>

definition Ani_choose_task :: "bool \<Rightarrow> 'f ani_machine \<Rightarrow> ('f ani_machine \<times> (nat \<times> 'f task) option) option" where
  "Ani_choose_task needPop m =
     (let q0 = cm_AniCallbacks (aq_manager m);
          q = (if needPop \<and> q0 \<noteq> [] then tl q0 else q0);
          m1 = Ani_set_queue q m
      in (case q of
            [] \<Rightarrow> if cm_IsReleased (aq_manager m1) then None else Some (Ani_set_inCalling False m1, None)
          | current # _ \<Rightarrow> (case fst current of
                None \<Rightarrow> Some (Ani_set_inCalling False m1, None)
              | Some ctx \<Rightarrow>
                  if cm_IsReleased (aq_manager m1) then Some (Ani_set_inCalling False m1, None)
                  else Some (m1, Some (ctx, current)))))"

text \<open>\<^verbatim>\<open>RunCallback\<close> writes both functions into the context, then calls the first.\<close>

definition Ani_store :: "nat \<Rightarrow> 'f task \<Rightarrow> 'f ani_machine \<Rightarrow> 'f ani_machine" where
  "Ani_store ctx current m =
     m\<lparr>aq_contexts := (aq_contexts m)(ctx := \<lparr>cx_callback = fst (snd current), cx_release = Some (snd (snd current))\<rparr>)\<rparr>"

definition Ani_called :: "nat \<Rightarrow> 'f ani_machine \<Rightarrow> 'f js_call list" where
  "Ani_called ctx m = (case cx_callback (aq_contexts m ctx) of None \<Rightarrow> [] | Some f \<Rightarrow> [Callback_called f])"

definition Ani_Release :: "'f ani_machine \<Rightarrow> 'f ani_machine" where
  "Ani_Release m = Ani_set_queue [] (Ani_set_IsReleased m)"

section \<open>Threads\<close>

text \<open>Where a thread stands, before the named step.\<close>

datatype 'f ani_pc =
    A_test "'f task"
  | A_push "'f task"
  | A_flag bool
  | A_runtest bool
  | A_choose bool
  | A_check nat "'f task"
  | A_store nat "'f task"
  | A_call nat
  | A_return nat
  | A_clear

record 'f ani_threads =
  an_state :: "'f ani_machine"
  an_at :: "nat \<Rightarrow> 'f ani_pc option"

text \<open>
  One step of a thread inside the manager. \<open>None\<close>: behind its lock \<^verbatim>\<open>Add\<close> reads the virtual
  machine of its context, which may be null; or the queue that is read is empty.
\<close>

fun ani_pc_step :: "'f ani_pc \<Rightarrow> 'f ani_machine \<Rightarrow> ('f ani_machine \<times> 'f ani_pc option \<times> 'f js_call list) option" where
  "ani_pc_step (A_test task) m = Some (m, if cm_IsReleased (aq_manager m) then None else Some (A_push task), [])"
| "ani_pc_step (A_push task) m =
     (case Ani_push_task task m of (run, m1) \<Rightarrow>
        if \<not> run then Some (m1, None, [])
        else if fst task = None then None else Some (m1, Some (A_flag False), []))"
| "ani_pc_step (A_flag needPop) m = Some (Ani_set_inCalling True m, Some (A_runtest needPop), [])"
| "ani_pc_step (A_runtest needPop) m =
     Some (m, if cm_IsReleased (aq_manager m) then None else Some (A_choose needPop), [])"
| "ani_pc_step (A_choose needPop) m =
     (case Ani_choose_task needPop m of
        None \<Rightarrow> None
      | Some (m1, None) \<Rightarrow> Some (m1, None, [])
      | Some (m1, Some (ctx, current)) \<Rightarrow> Some (m1, Some (A_check ctx current), []))"
| "ani_pc_step (A_check ctx current) m =
     Some (m, if cm_IsReleased (aq_manager m) then None else Some (A_store ctx current), [])"
| "ani_pc_step (A_store ctx current) m = Some (Ani_store ctx current m, Some (A_call ctx), [])"
| "ani_pc_step (A_call ctx) m = Some (m, Some (A_return ctx), Ani_called ctx m)"
| "ani_pc_step (A_return ctx) m =
     (case cx_release (aq_contexts m ctx) of
        None \<Rightarrow> Some (m, None, [])
      | Some None \<Rightarrow> Some (m, Some (A_flag True), [])
      | Some (Some r) \<Rightarrow> Some (m, None, [Release_called r]))"
| "ani_pc_step A_clear m = Some (Ani_set_queue [] m, None, [])"

fun ani_pushed_by :: "'f ani_pc \<Rightarrow> 'f task list" where
  "ani_pushed_by (A_push task) = [task]"
| "ani_pushed_by _ = []"

definition ani_at_step :: "nat \<Rightarrow> 'f ani_pc option \<Rightarrow> 'f ani_machine \<Rightarrow> 'f ani_threads \<Rightarrow> 'f ani_threads" where
  "ani_at_step i p m s = s\<lparr>an_state := m, an_at := (an_at s)(i := p)\<rparr>"


text \<open>
  The steps: a thread of the set \<open>A\<close> calls \<^verbatim>\<open>Add\<close>, a thread calls \<^verbatim>\<open>Release\<close>, a thread inside
  goes on. The labels are those of \<open>cb_step\<close>.
\<close>

definition ani_call_add :: "nat \<Rightarrow> 'f task \<Rightarrow> 'f ani_threads \<Rightarrow> 'f ani_threads" where
  "ani_call_add i task s = ani_at_step i (Some (A_test task)) (an_state s) s"

inductive ani_step_rel :: "nat set \<Rightarrow> 'f ani_threads \<Rightarrow> 'f task list \<Rightarrow> 'f js_call list \<Rightarrow> bool \<Rightarrow> 'f ani_threads \<Rightarrow> bool"
  for A where
  call_add: "an_at s i = None \<Longrightarrow> i \<in> A \<Longrightarrow> ani_step_rel A s [] [] False (ani_call_add i task s)"
| call_release: "an_at s i = None \<Longrightarrow>
    ani_step_rel A s [] [] False (ani_at_step i (Some A_clear) (Ani_set_IsReleased (an_state s)) s)"
| advance: "an_at s i = Some p \<Longrightarrow> ani_pc_step p (an_state s) = Some (m, p', out) \<Longrightarrow>
    ani_step_rel A s (ani_pushed_by p) out (ani_pushed_by p \<noteq> [] \<and> (\<exists>j. an_at s j = Some (A_flag False)))
      (ani_at_step i p' m s)"

inductive_cases ani_step_relE: "ani_step_rel A s pushed out race s'"


definition ani_threads_new :: "(nat \<Rightarrow> 'f ani_context) \<Rightarrow> 'f ani_threads" where
  "ani_threads_new cs =
     \<lparr>an_state = \<lparr>aq_manager = \<lparr>cm_inCalling = False, cm_IsReleased = False, cm_AniCallbacks = []\<rparr>, aq_contexts = cs\<rparr>,
      an_at = (\<lambda>i. None)\<rparr>"

section \<open>The manager of JavaScript callbacks on a serving engine\<close>

definition to_js_context :: "'f ani_context \<Rightarrow> 'f callback_context" where
  "to_js_context c = \<lparr>env_set = True, callback = cx_callback c, release = cx_release c\<rparr>"

definition to_js_manager :: "'f ani_callback_manager \<Rightarrow> 'f js_callback_manager" where
  "to_js_manager g = \<lparr>inCalling = cm_inCalling g, IsReleased = cm_IsReleased g, jsCallbacks = cm_AniCallbacks g\<rparr>"

definition to_js :: "nat list \<Rightarrow> 'f ani_machine \<Rightarrow> 'f js_machine" where
  "to_js works m =
     \<lparr>manager = to_js_manager (aq_manager m), contexts = (\<lambda>c. to_js_context (aq_contexts m c)), uv_works = works\<rparr>"




lemma to_js_simps [simp]:
  "inCalling (manager (to_js w m)) = cm_inCalling (aq_manager m)"
  "IsReleased (manager (to_js w m)) = cm_IsReleased (aq_manager m)"
  "jsCallbacks (manager (to_js w m)) = cm_AniCallbacks (aq_manager m)"
  "uv_works (to_js w m) = w" "contexts (to_js w m) c = to_js_context (aq_contexts m c)"
  "set_inCalling b (to_js w m) = to_js w (Ani_set_inCalling b m)"
  "set_jsCallbacks q (to_js w m) = to_js w (Ani_set_queue q m)"
  "set_IsReleased (to_js w m) = to_js w (Ani_set_IsReleased m)"
  "cm_IsReleased (aq_manager (Ani_set_queue q m)) = cm_IsReleased (aq_manager m)"
  by (simp_all add: to_js_def to_js_manager_def set_inCalling_def set_jsCallbacks_def set_IsReleased_def
      Ani_set_inCalling_def Ani_set_queue_def Ani_set_IsReleased_def)

lemma to_js_context_simps [simp]:
  "env_set (to_js_context c)" "callback (to_js_context c) = cx_callback c" "release (to_js_context c) = cx_release c"
  by (simp_all add: to_js_context_def)

lemma engine_up_simps [simp]: "loop_ok engine_up" "work_ok engine_up" "scope_ok engine_up"
  by (simp_all add: engine_up_def)
















section \<open>Listeners and queriers\<close>

definition CLASS_NAME_WATCHERANI :: string where "CLASS_NAME_WATCHERANI = ''@ohos.hiSysEvent.WatcherAni''"
definition CLASS_NAME_QUERIERANI :: string where "CLASS_NAME_QUERIERANI = ''@ohos.hiSysEvent.QuerierAni''"

text \<open>The functions that the owners add, with what they capture and use.\<close>

datatype ani_closure =
    On_event string
  | On_service_died
  | On_query "string list"
  | On_complete "32 word" "32 word"
  | On_complete_handler

text \<open>Each operation of an owner begins one call of \<^verbatim>\<open>Add\<close>, on the thread that delivers.\<close>

definition AniListener_OnEvent ::
  "nat \<Rightarrow> nat \<Rightarrow> string \<Rightarrow> string \<Rightarrow> int \<Rightarrow> string \<Rightarrow> ani_closure ani_threads \<Rightarrow> ani_closure ani_threads" where
  "AniListener_OnEvent i context domain eventName eventType eventDetail s =
     ani_call_add i (Some context, Some (On_event eventDetail), None) s"

definition AniListener_OnServiceDied :: "nat \<Rightarrow> nat \<Rightarrow> ani_closure ani_threads \<Rightarrow> ani_closure ani_threads" where
  "AniListener_OnServiceDied i context s = ani_call_add i (Some context, Some On_service_died, None) s"

definition AniQuerier_OnQuery ::
  "nat \<Rightarrow> nat \<Rightarrow> string list \<Rightarrow> int list \<Rightarrow> ani_closure ani_threads \<Rightarrow> ani_closure ani_threads" where
  "AniQuerier_OnQuery i context sysEvents seq s = ani_call_add i (Some context, Some (On_query sysEvents), None) s"

definition AniQuerier_OnComplete ::
  "nat \<Rightarrow> nat \<Rightarrow> 32 word \<Rightarrow> 32 word \<Rightarrow> int \<Rightarrow> ani_closure ani_threads \<Rightarrow> ani_closure ani_threads" where
  "AniQuerier_OnComplete i context reason totalCount seq s =
     ani_call_add i (Some context, Some (On_complete reason totalCount), Some On_complete_handler) s"

text \<open>
  What a closure does with the object behind the reference: a call of a function of ArkTS with
  its arguments, or one that reads more arguments than there are. \<open>None\<close> is an exception of
  the JSON library. \<open>attached\<close> says whether the thread could be attached.
\<close>

datatype ani_invocation = Arkts_call ani_value "ani_value option list" | Arkts_overread ani_value

definition with_function :: "ani \<Rightarrow> string \<Rightarrow> ani_value option \<Rightarrow> string \<Rightarrow> (ani_value \<Rightarrow> ani_invocation) \<Rightarrow> ani_invocation list" where
  "with_function an cls ref name call =
     (if \<not> an_find_class an cls then []
      else case Option.bind ref (\<lambda>obj. an_property an obj name) of None \<Rightarrow> [] | Some f \<Rightarrow> [call f])"

definition event_called ::
  "ani \<Rightarrow> bool \<Rightarrow> ('j \<Rightarrow> bool option) \<Rightarrow> 'j jsoncpp \<Rightarrow> ani_value option \<Rightarrow> string \<Rightarrow> ani_invocation list option" where
  "event_called an attached asBool jc ref eventDetail =
     (if \<not> attached then Some []
      else case new_object an CLASS_NAME_SYSEVENTINFOANI None No_argument of
        None \<Rightarrow> Some []
      | Some sysEventInfo \<Rightarrow>
          map_option (\<lambda>info. with_function an CLASS_NAME_WATCHERANI ref ''onEvent'' (\<lambda>f. Arkts_call f [Some info]))
            (Ani_CreateHiSysEventInfoJsObject an asBool jc eventDetail sysEventInfo))"

definition service_died_called :: "ani \<Rightarrow> bool \<Rightarrow> ani_value option \<Rightarrow> ani_invocation list" where
  "service_died_called an attached ref =
     (if \<not> attached then [] else with_function an CLASS_NAME_WATCHERANI ref ''onServiceDied'' Arkts_overread)"

definition query_called ::
  "ani \<Rightarrow> bool \<Rightarrow> ('j \<Rightarrow> bool option) \<Rightarrow> 'j jsoncpp \<Rightarrow> ani_value option \<Rightarrow> string list \<Rightarrow> ani_invocation list option" where
  "query_called an attached asBool jc ref sysEvents =
     (if \<not> attached then Some []
      else if \<not> an_find_class an CLASS_NAME_SYSEVENTINFOANI then Some []
      else case an_new_array an (length sysEvents) (GetAniUndefined an) of
        None \<Rightarrow> Some []
      | Some array \<Rightarrow>
          map_option (\<lambda>sysEventInfoJsArray. with_function an CLASS_NAME_QUERIERANI ref ''onQuery''
              (\<lambda>f. Arkts_call f [Some sysEventInfoJsArray]))
            (Ani_CreateJsSysEventInfoArray an asBool jc sysEvents array))"

definition complete_called :: "ani \<Rightarrow> bool \<Rightarrow> ani_value option \<Rightarrow> 32 word \<Rightarrow> 32 word \<Rightarrow> ani_invocation list" where
  "complete_called an attached ref reason totalCount =
     (if \<not> attached then []
      else with_function an CLASS_NAME_QUERIERANI ref ''onComplete''
        (\<lambda>f. Arkts_call f [CreateAniInt an reason, CreateAniInt an totalCount]))"

text \<open>The end of an owner: its manager is released and its reference deleted when an
  environment can be got or attached.\<close>

definition owner_destroyed ::
  "bool \<Rightarrow> bool \<Rightarrow> ani_ref \<Rightarrow> 'f ani_machine \<times> (nat \<Rightarrow> ani_value option) \<Rightarrow> 'f ani_machine \<times> (nat \<Rightarrow> ani_value option)" where
  "owner_destroyed gotEnv attached ref st =
     (Ani_Release (fst st),
      if gotEnv \<or> attached then (case ref of None \<Rightarrow> snd st | Some n \<Rightarrow> (snd st)(n := None)) else snd st)"

section \<open>Schedules\<close>

text \<open>A schedule that the machine can execute: an owner's operation, or a thread that goes on.\<close>

datatype 'f ani_action = Ani_begin "'f ani_threads \<Rightarrow> 'f ani_threads" | Ani_go nat

fun ani_exec :: "'f ani_action list \<Rightarrow> 'f ani_threads \<Rightarrow> ('f task list \<times> 'f js_call list \<times> 'f ani_threads) option" where
  "ani_exec [] s = Some ([], [], s)"
| "ani_exec (Ani_begin f # evs) s = ani_exec evs (f s)"
| "ani_exec (Ani_go i # evs) s =
     (case an_at s i of None \<Rightarrow> None
      | Some p \<Rightarrow> (case ani_pc_step p (an_state s) of None \<Rightarrow> None
          | Some (m, p', out) \<Rightarrow>
              map_option (\<lambda>(p2, o2, s2). (ani_pushed_by p @ p2, out @ o2, s2)) (ani_exec evs (ani_at_step i p' m s))))"




section \<open>What ArkTS sees\<close>



lemmas ani_exec_eval = eval_nat_numeral ani_threads_new_def Ani_push_task_def Ani_choose_task_def Ani_store_def
  Ani_called_def Ani_set_inCalling_def Ani_set_queue_def Ani_set_IsReleased_def ani_at_step_def ani_call_add_def
  AniQuerier_OnQuery_def AniQuerier_OnComplete_def Let_def


text \<open>The calls of one query, and what one of them passes to ArkTS.\<close>

definition ani_query_tasks :: "nat \<Rightarrow> string list list \<Rightarrow> 32 word \<Rightarrow> 32 word \<Rightarrow> ani_closure task list" where
  "ani_query_tasks ctx pages reason totalCount =
     map (\<lambda>p. (Some ctx, Some (On_query p), None)) pages @
     [(Some ctx, Some (On_complete reason totalCount), Some On_complete_handler)]"

lemma ani_query_tasks_calls:
  "task_calls (ani_query_tasks ctx pages reason totalCount) =
     map (\<lambda>p. Callback_called (On_query p)) pages @
     [Callback_called (On_complete reason totalCount), Release_called On_complete_handler]"
  by (induction pages) (simp_all add: ani_query_tasks_def)

lemma event_passed:
  assumes "ani_laws an" "an_new an CLASS_NAME_SYSEVENTINFOANI None No_argument = Some obj"
    and "Ani_CreateHiSysEventInfoJsObject an asBool jc detail obj = Some info" "map_of ps ''onEvent'' = Some f"
  shows "event_called an True asBool jc (Some (Ani_object n ps)) detail = Some [Arkts_call f [Some info]]"
  using assms(2-4) by (simp add: event_called_def new_object_def with_function_def ani_simps [OF assms(1)])

lemma page_passed:
  assumes "ani_laws an" "an_new_array an (length events) (GetAniUndefined an) = Some array"
    and "Ani_CreateJsSysEventInfoArray an asBool jc events array = Some infos" "map_of ps ''onQuery'' = Some f"
  shows "query_called an True asBool jc (Some (Ani_object n ps)) events = Some [Arkts_call f [Some infos]]"
  using assms(2-4) by (simp add: query_called_def with_function_def ani_simps [OF assms(1)])

text \<open>The call for a dead service passes no arguments but says that there is one.\<close>

lemma service_died_overreads:
  "ani_laws an \<Longrightarrow> map_of ps ''onServiceDied'' = Some f \<Longrightarrow>
     service_died_called an True (Some (Ani_object n ps)) = [Arkts_overread f]"
  by (simp add: service_died_called_def with_function_def ani_simps)

text \<open>The race of two additions: both threads call, the context is shared, and one callback is
  called twice.\<close>

lemma ani_racing_adds_call_twice:
  "\<exists>s. ani_exec
     ([Ani_begin (ani_call_add 1 (Some 7, Some f, None)), Ani_begin (ani_call_add 2 (Some 7, Some g, None)),
       Ani_go 1, Ani_go 2, Ani_go 1, Ani_go 2] @ replicate 5 (Ani_go 1) @ replicate 5 (Ani_go 2) @
      replicate 8 (Ani_go 1) @ [Ani_go 2])
     (ani_threads_new (\<lambda>c. \<lparr>cx_callback = None, cx_release = None\<rparr>)) =
     Some ([(Some 7, Some f, None), (Some 7, Some g, None)], [Callback_called f, Callback_called g, Callback_called g], s)"
  by (simp add: ani_exec_eval)

text \<open>After the completion of a query its manager is blocked: only the end of its owner, which
  the handler does not bring about from the thread that delivers (\<open>complete_query_kept\<close>), follows.
  The thread leaves with \<^verbatim>\<open>inCalling\<close> set, and no later addition goes on to run its task.\<close>

lemma complete_blocks_manager:
  assumes "cx_release (aq_contexts m ctx) = Some (Some r)" "cm_inCalling (aq_manager m)"
  shows "ani_pc_step (A_return ctx) m = Some (m, None, [Release_called r])"
    "\<exists>m'. ani_pc_step (A_push task) m = Some (m', None, []) \<and> cm_inCalling (aq_manager m')"
  using assms by (simp_all add: Ani_push_task_def Ani_set_queue_def)

end
