(* ===== verification/RustWrapper.thy ===== *)
theory RustWrapper
  imports Writer EventRegistry RecordConvertor
begin

text \<open>
  The border between Rust and C++ (frameworks/native/c_wrapper/source/hisysevent_c_wrapper.cpp
  and hisysevent_c_wrapper.h): the structures that Rust fills are copied into those of the C
  interface, which live uninitialised on the stack. The copies leave out the terminating NUL, so
  what the stack held before is an argument here, and the theory shows when the copies say what
  Rust said.
\<close>

section \<open>Data\<close>

text \<open>A character array is its bytes. The union of the value is that of the C interface.\<close>

definition MAX_LENGTH_OF_PARAM_NAME :: nat where "MAX_LENGTH_OF_PARAM_NAME = 49"
definition MAX_EVENT_LIST_LEN :: nat where "MAX_EVENT_LIST_LEN = 339"
definition HISYSEVENT_STRING :: nat where "HISYSEVENT_STRING = 12"

record HiSysEventParamWrapper =
  pw_paramName :: "byte list"
  pw_paramType :: nat
  pw_paramValue :: c_value
  pw_arraySize :: nat

record HiSysEventQueryRuleWrapper =
  qw_domain :: "byte list"
  qw_eventList :: "byte list"
  qw_eventListSize :: nat
  qw_condition :: "string option"

text \<open>The C structures with their arrays as memory.\<close>

record param_memory =
  pm_name :: "byte list"
  pm_t :: nat
  pm_v :: c_value
  pm_arraySize :: nat

record rule_memory =
  rm_domain :: "byte list"
  rm_eventList :: "byte list list"
  rm_eventListSize :: nat
  rm_condition :: "string option"

text \<open>What the C interface reads in them: every array as a C string.\<close>

definition read_param :: "param_memory \<Rightarrow> c_param" where
  "read_param p = \<lparr>cp_name = c_string (pm_name p), cp_t = pm_t p, cp_v = pm_v p, cp_arraySize = pm_arraySize p\<rparr>"

definition read_rule :: "rule_memory \<Rightarrow> query_rule_c" where
  "read_rule r = \<lparr>qc_domain = c_string (rm_domain r), qc_eventList = map c_string (rm_eventList r),
     qc_eventListSize = rm_eventListSize r, qc_condition = rm_condition r\<rparr>"

section \<open>Conversions\<close>

text \<open>The copying loop: bytes up to a NUL or \<open>n\<close> of them, over what the array held.\<close>

definition copy_name :: "nat \<Rightarrow> byte list \<Rightarrow> byte list \<Rightarrow> byte list" where
  "copy_name n src dest = splice_at 0 (takeWhile (\<lambda>b. b \<noteq> 0) (take n src)) dest"

definition ConvertParamWrapper :: "HiSysEventParamWrapper list \<Rightarrow> param_memory list \<Rightarrow> param_memory list" where
  "ConvertParamWrapper src dest =
     map2 (\<lambda>wrapper d. d\<lparr>pm_name := copy_name MAX_LENGTH_OF_PARAM_NAME (pw_paramName wrapper) (pm_name d),
        pm_t := pw_paramType wrapper, pm_v := pw_paramValue wrapper, pm_arraySize := pw_arraySize wrapper\<rparr>) src dest"

text \<open>
  The loop of \<^verbatim>\<open>SplitStringToArray\<close> at a position, with the index of the next array, the slice
  and the arrays; \<open>None\<close> is a write behind the last array. \<^verbatim>\<open>memcpy_s\<close> copies a slice whose
  length fits.
\<close>

definition bar :: byte where "bar = byte_of_char (CHR ''|'')"

definition slice_fits :: "int \<Rightarrow> bool" where
  "slice_fits cpyLen \<longleftrightarrow> 0 < cpyLen \<and> cpyLen \<le> int MAX_LENGTH_OF_EVENT_NAME"

definition store_slice :: "byte list \<Rightarrow> nat \<Rightarrow> nat \<Rightarrow> nat \<Rightarrow> byte list list \<Rightarrow> byte list list option" where
  "store_slice src sliceBegin n i dest =
     (if i \<ge> length dest then None
      else Some (dest[i := splice_at 0 (take n (drop sliceBegin src)) (dest ! i)]))"

function Split_walk ::
  "byte list \<Rightarrow> nat \<Rightarrow> nat \<Rightarrow> nat \<Rightarrow> nat \<Rightarrow> nat \<Rightarrow> int \<Rightarrow> byte list list \<Rightarrow>
   (nat \<times> nat \<times> nat \<times> int \<times> byte list list) option" where
  "Split_walk src srcMaxLen destSize curPos destItemIndex sliceBegin sliceEnd dest =
     (if curPos < srcMaxLen \<and> src ! curPos \<noteq> 0 then
        if src ! curPos \<noteq> bar
        then Split_walk src srcMaxLen destSize (curPos + 1) destItemIndex sliceBegin sliceEnd dest
        else
          let sliceEnd = int curPos - 1; cpyLen = sliceEnd - int sliceBegin + 1 in
          if \<not> slice_fits cpyLen
          then Split_walk src srcMaxLen destSize (curPos + 1) destItemIndex (curPos + 1) sliceEnd dest
          else (case store_slice src sliceBegin (nat cpyLen) destItemIndex dest of
              None \<Rightarrow> None
            | Some dest' \<Rightarrow>
                if destItemIndex + 1 \<ge> destSize
                then Some (curPos + 1, destItemIndex + 1, curPos + 1, sliceEnd, dest')
                else Split_walk src srcMaxLen destSize (curPos + 1) (destItemIndex + 1) (curPos + 1) sliceEnd dest')
      else Some (curPos, destItemIndex, sliceBegin, sliceEnd, dest))"
  by pat_completeness auto
termination
  by (relation "measure (\<lambda>(src, srcMaxLen, destSize, curPos, i, b, e, dest). srcMaxLen - curPos)") auto

declare Split_walk.simps [simp del]

definition SplitStringToArray ::
  "byte list \<Rightarrow> nat \<Rightarrow> byte list list \<Rightarrow> nat \<Rightarrow> byte list list option" where
  "SplitStringToArray src srcMaxLen dest destSize =
     (case Split_walk src srcMaxLen destSize 0 0 0 1 dest of
        None \<Rightarrow> None
      | Some (curPos, destItemIndex, sliceBegin, sliceEnd0, dest') \<Rightarrow>
          let sliceEnd = (if curPos \<ge> srcMaxLen \<or> src ! curPos = 0 then int curPos - 1 else sliceEnd0);
              cpyLen = sliceEnd - int sliceBegin + 1 in
          if \<not> slice_fits cpyLen \<or> destItemIndex \<ge> destSize then Some dest'
          else store_slice src sliceBegin (nat cpyLen) destItemIndex dest')"

fun ConvertQueryRuleWrapper ::
  "HiSysEventQueryRuleWrapper list \<Rightarrow> rule_memory list \<Rightarrow> rule_memory list option" where
  "ConvertQueryRuleWrapper (wrapper # src) (d # dest) =
     (case SplitStringToArray (qw_eventList wrapper) MAX_EVENT_LIST_LEN (rm_eventList d) (qw_eventListSize wrapper) of
        None \<Rightarrow> None
      | Some eventList \<Rightarrow>
          map_option (\<lambda>rest. \<lparr>rm_domain = copy_name MAX_LENGTH_OF_EVENT_DOMAIN (qw_domain wrapper) (rm_domain d),
              rm_eventList = eventList, rm_eventListSize = qw_eventListSize wrapper,
              rm_condition = qw_condition wrapper\<rparr> # rest)
            (ConvertQueryRuleWrapper src dest))"
| "ConvertQueryRuleWrapper src dest = Some []"

section \<open>The functions for Rust\<close>

text \<open>
  \<open>stack\<close> is what the local arrays hold when the function starts; the result of a write
  names the strings that are deleted after it.
\<close>

definition HiSysEventWriteWrapper ::
  "writer_env \<Rightarrow> param_memory list \<Rightarrow> string \<Rightarrow> 64 word \<Rightarrow> string option \<Rightarrow> string option \<Rightarrow> int \<Rightarrow>
   HiSysEventParamWrapper list \<Rightarrow> nat \<Rightarrow> writer \<Rightarrow> writer \<times> int \<times> string list" where
  "HiSysEventWriteWrapper we stack func line domain name type paramWrappers sz w =
     (let params = ConvertParamWrapper (take sz paramWrappers) stack in
      case HiSysEvent_Write we func line domain name type (Some (map read_param params)) sz w of
        (w', ret) \<Rightarrow>
          (w', ret, List.map_filter (\<lambda>p. if pm_t p = HISYSEVENT_STRING then cv_s (pm_v p) else None) params))"

definition GetHiSysEventRecordByIndexWrapper :: "record_c list \<Rightarrow> nat \<Rightarrow> nat \<Rightarrow> record_c" where
  "GetHiSysEventRecordByIndexWrapper records cnt index =
     (if index \<ge> cnt then InitRecord else records ! index)"

section \<open>What Rust writes into an array\<close>

text \<open>Rust copies a text into an array of zeros, and joins names with bars.\<close>

definition padded :: "nat \<Rightarrow> string \<Rightarrow> byte list" where
  "padded n s = bytes_of_string s @ replicate (n - length s) 0"

fun bar_join :: "string list \<Rightarrow> string" where
  "bar_join [] = []"
| "bar_join [n] = n"
| "bar_join (n # m # ns) = n @ CHR ''|'' # bar_join (m # ns)"

lemma length_padded [simp]: "length s \<le> n \<Longrightarrow> length (padded n s) = n"
  by (simp add: padded_def)

lemma c_string_zeros:
  assumes "no_nul s" "length s < n"
  shows "c_string (bytes_of_string s @ replicate (n - length s) 0) = s"
proof -
  obtain m where "n - length s = Suc m"
    using assms(2) by (metis Suc_diff_Suc)
  then show ?thesis
    using c_string_padded [OF assms(1)] by simp
qed

lemma bytes_nonzero: "no_nul s \<Longrightarrow> \<forall>b \<in> set (bytes_of_string s). b \<noteq> 0"
  by (auto simp: bytes_of_string_def no_nul_def)

lemma copied_name:
  assumes "no_nul s" "length s < n"
  shows "c_string (copy_name n (padded n s) (replicate n 0)) = s"
proof -
  have "takeWhile (\<lambda>b. b \<noteq> 0) (take n (padded n s)) = bytes_of_string s"
    using assms bytes_nonzero [OF assms(1)] by (simp add: padded_def takeWhile_append)
  then show ?thesis
    using c_string_zeros [OF assms] by (simp add: copy_name_def splice_at_def)
qed

lemma stored_slice:
  assumes "no_nul s" "length s < n"
  shows "c_string (splice_at 0 (bytes_of_string s) (replicate n 0)) = s"
  using c_string_zeros [OF assms] by (simp add: splice_at_def)

text \<open>Without the zeros of the stack the copy runs on into what the array held before.\<close>

lemma copied_name_runs_on:
  assumes "no_nul s" "length s + 1 < n" "b \<noteq> 0" "length s + 1 + length old = n"
    and "dest = bytes_of_string (replicate (length s) (CHR ''?'')) @ b # old"
  shows "c_string (copy_name n (padded n s) dest) \<noteq> s"
proof -
  have "takeWhile (\<lambda>b. b \<noteq> 0) (take n (padded n s)) = bytes_of_string s"
    using assms bytes_nonzero [OF assms(1)] by (simp add: padded_def takeWhile_append)
  then have "copy_name n (padded n s) dest = bytes_of_string s @ b # old"
    using assms(5) by (simp add: copy_name_def splice_at_def)
  moreover have "takeWhile (\<lambda>b. b \<noteq> 0) (bytes_of_string s @ b # old) =
      bytes_of_string s @ b # takeWhile (\<lambda>b. b \<noteq> 0) old"
    using bytes_nonzero [OF assms(1)] assms(3) by (simp add: takeWhile_append)
  ultimately have "length (c_string (copy_name n (padded n s) dest)) \<noteq> length s"
    by (simp add: c_string_def string_of_bytes_def)
  then show ?thesis
    by metis
qed

section \<open>Splitting the joined names\<close>

lemma nth_middle:
  assumes "length pre \<le> j" "j < length pre + length m"
  shows "(pre @ m @ post) ! j \<in> set m"
proof -
  have "(pre @ m @ post) ! j = m ! (j - length pre)"
    using assms by (auto simp: nth_append)
  then show ?thesis
    using assms by (simp add: less_diff_conv2)
qed

lemma Split_walk_scan:
  assumes "\<forall>j. curPos \<le> j \<and> j < e \<longrightarrow> src ! j \<noteq> 0 \<and> src ! j \<noteq> bar" "curPos \<le> e" "e \<le> srcMaxLen"
  shows "Split_walk src srcMaxLen destSize curPos i b se dest = Split_walk src srcMaxLen destSize e i b se dest"
  using assms
proof (induction "e - curPos" arbitrary: curPos)
  case (Suc k)
  have lt: "curPos < e"
    using Suc.hyps(2) by simp
  then have "src ! curPos \<noteq> 0 \<and> src ! curPos \<noteq> bar"
    using Suc.prems(1) by blast
  then have step: "Split_walk src srcMaxLen destSize curPos i b se dest =
      Split_walk src srcMaxLen destSize (curPos + 1) i b se dest"
    using lt Suc.prems(3) by (simp add: Split_walk.simps [of src srcMaxLen destSize curPos])
  show ?case
    unfolding step
  proof (rule Suc.hyps(1))
    show "\<forall>j. curPos + 1 \<le> j \<and> j < e \<longrightarrow> src ! j \<noteq> 0 \<and> src ! j \<noteq> bar"
      using Suc.prems(1) by (meson add_leD1)
  qed (use lt Suc in simp_all)
qed simp

definition Split_rest ::
  "byte list \<Rightarrow> nat \<Rightarrow> nat \<Rightarrow> (nat \<times> nat \<times> nat \<times> int \<times> byte list list) option \<Rightarrow> byte list list option" where
  "Split_rest src srcMaxLen destSize res = (case res of
        None \<Rightarrow> None
      | Some (curPos, destItemIndex, sliceBegin, sliceEnd0, dest') \<Rightarrow>
          let sliceEnd = (if curPos \<ge> srcMaxLen \<or> src ! curPos = 0 then int curPos - 1 else sliceEnd0);
              cpyLen = sliceEnd - int sliceBegin + 1 in
          if \<not> slice_fits cpyLen \<or> destItemIndex \<ge> destSize then Some dest'
          else store_slice src sliceBegin (nat cpyLen) destItemIndex dest')"

lemma SplitStringToArray_rest:
  "SplitStringToArray src srcMaxLen dest destSize =
   Split_rest src srcMaxLen destSize (Split_walk src srcMaxLen destSize 0 0 0 1 dest)"
  by (simp add: SplitStringToArray_def Split_rest_def)

primrec fill :: "string list \<Rightarrow> nat \<Rightarrow> byte list list \<Rightarrow> byte list list" where
  "fill [] i dest = dest"
| "fill (n # ns) i dest = fill ns (i + 1) (dest[i := splice_at 0 (bytes_of_string n) (dest ! i)])"

definition good_name :: "string \<Rightarrow> bool" where
  "good_name n \<longleftrightarrow> n \<noteq> [] \<and> length n < MAX_LENGTH_OF_EVENT_NAME \<and> no_nul n \<and> CHR ''|'' \<notin> set n"

lemma good_bytes: "good_name n \<Longrightarrow> b \<in> set (bytes_of_string n) \<Longrightarrow> b \<noteq> 0 \<and> b \<noteq> bar"
  by (auto simp: good_name_def no_nul_def bytes_of_string_def bar_def)

lemma bytes_append [simp]: "bytes_of_string (s @ t) = bytes_of_string s @ bytes_of_string t"
  by (simp add: bytes_of_string_def)

lemma bytes_Cons [simp]: "bytes_of_string (c # t) = byte_of_char c # bytes_of_string t"
  by (simp add: bytes_of_string_def)

lemma Split_walk_names:
  assumes "ns \<noteq> []" "list_all good_name ns" "src = pre @ bytes_of_string (bar_join ns) @ post"
    and "length src = srcMaxLen" "post = [] \<or> hd post = 0"
    and "i + length ns \<le> length dest" "i + length ns \<le> destSize"
  shows "Split_rest src srcMaxLen destSize
      (Split_walk src srcMaxLen destSize (length pre) i (length pre) se dest) = Some (fill ns i dest)"
  using assms
proof (induction ns arbitrary: pre i se dest rule: bar_join.induct)
  case (2 n)
  let ?e = "length pre + length n"
  have good: "good_name n"
    using 2 by simp
  have at: "src ! j \<in> set (bytes_of_string n)" if "length pre \<le> j" "j < ?e" for j
    using nth_middle [of pre j "bytes_of_string n" post] that 2(3) by simp
  have fits: "0 < length n" "length n \<le> MAX_LENGTH_OF_EVENT_NAME"
    using good by (auto simp: good_name_def)
  have "\<not> (?e < srcMaxLen \<and> src ! ?e \<noteq> 0)"
    using 2(3-5) by (cases post) (auto simp: nth_append)
  then have "Split_walk src srcMaxLen destSize ?e i (length pre) se dest = Some (?e, i, length pre, se, dest)"
      "?e \<ge> srcMaxLen \<or> src ! ?e = 0"
    by (auto simp: Split_walk.simps [of src srcMaxLen destSize ?e])
  moreover have "Split_walk src srcMaxLen destSize (length pre) i (length pre) se dest =
      Split_walk src srcMaxLen destSize ?e i (length pre) se dest"
    using at good_bytes [OF good] 2(3,4) by (intro Split_walk_scan) auto
  moreover have "take (length n) (drop (length pre) src) = bytes_of_string n"
    using 2(3) by simp
  ultimately show ?case
    using 2(6,7) fits by (simp add: Split_rest_def slice_fits_def store_slice_def Let_def)
next
  case (3 n m ns)
  let ?e = "length pre + length n"
  have good: "good_name n"
    using 3(3) by simp
  have src: "src = (pre @ bytes_of_string n @ [bar]) @ bytes_of_string (bar_join (m # ns)) @ post"
    using 3(4) by (simp add: bar_def)
  have at: "src ! j \<in> set (bytes_of_string n)" if "length pre \<le> j" "j < ?e" for j
    using nth_middle [of pre j "bytes_of_string n" "bar # bytes_of_string (bar_join (m # ns)) @ post"] that src by simp
  have fits: "0 < length n" "length n \<le> MAX_LENGTH_OF_EVENT_NAME"
    using good by (auto simp: good_name_def)
  have sep: "?e < srcMaxLen" "src ! ?e = bar" "bar \<noteq> 0"
    using 3(5) by (simp_all add: src nth_append bar_def)
  have slice: "take (length n) (drop (length pre) src) = bytes_of_string n"
    using 3(4) by simp
  let ?d = "dest[i := splice_at 0 (bytes_of_string n) (dest ! i)]"
  have "Split_walk src srcMaxLen destSize (length pre) i (length pre) se dest =
      Split_walk src srcMaxLen destSize ?e i (length pre) se dest"
    using at good_bytes [OF good] sep(1) by (intro Split_walk_scan) auto
  also have "\<dots> = Split_walk src srcMaxLen destSize (?e + 1) (i + 1) (?e + 1) (int ?e - 1) ?d"
    using sep fits slice 3(7,8)
    by (subst Split_walk.simps) (simp add: slice_fits_def store_slice_def Let_def)
  finally show ?case
    using 3(1) [of "pre @ bytes_of_string n @ [bar]" "i + 1" ?d "int ?e - 1"] 3(3,5-8) src
    by (simp add: add.assoc)
qed simp


lemma length_fill [simp]: "length (fill ns i dest) = length dest"
  by (induction ns arbitrary: i dest) simp_all

lemma nth_fill:
  "i + length ns \<le> length dest \<Longrightarrow> j < length dest \<Longrightarrow>
   fill ns i dest ! j =
     (if i \<le> j \<and> j < i + length ns then splice_at 0 (bytes_of_string (ns ! (j - i))) (dest ! j) else dest ! j)"
proof (induction ns arbitrary: i dest)
  case (Cons n ns)
  then show ?case
    by (cases "j = i") (auto simp: nth_Cons' Suc_le_eq)
qed auto

text \<open>The zeroed structures of the stack, and the C strings in a filled list of names.\<close>

definition zero_param :: param_memory where
  "zero_param = \<lparr>pm_name = replicate MAX_LENGTH_OF_PARAM_NAME 0, pm_t = 0,
     pm_v = \<lparr>cv_bits = 0, cv_s = None, cv_array = None, cv_strs = None\<rparr>, pm_arraySize = 0\<rparr>"

definition zero_rule :: rule_memory where
  "zero_rule = \<lparr>rm_domain = replicate MAX_LENGTH_OF_EVENT_DOMAIN 0,
     rm_eventList = replicate MAX_NUMBER_OF_EVENT_LIST (replicate MAX_LENGTH_OF_EVENT_NAME 0),
     rm_eventListSize = 0, rm_condition = None\<rparr>"

lemma c_string_zero [simp]: "c_string (replicate n 0) = []"
  by (simp add: c_string_def string_of_bytes_def takeWhile_replicate)

lemma filled_names:
  assumes "list_all good_name ns" "length ns \<le> k"
  shows "map c_string (fill ns 0 (replicate k (replicate MAX_LENGTH_OF_EVENT_NAME 0))) =
    ns @ replicate (k - length ns) []"
proof (rule nth_equalityI)
  fix j
  assume "j < length (map c_string (fill ns 0 (replicate k (replicate MAX_LENGTH_OF_EVENT_NAME 0))))"
  then have j: "j < k"
    by simp
  show "map c_string (fill ns 0 (replicate k (replicate MAX_LENGTH_OF_EVENT_NAME 0))) ! j =
      (ns @ replicate (k - length ns) []) ! j"
  proof (cases "j < length ns")
    case True
    then have "good_name (ns ! j)"
      using assms(1) by (simp add: list_all_length)
    then show ?thesis
      using True j assms(2) by (simp add: nth_fill nth_append good_name_def stored_slice)
  next
    case False
    then show ?thesis
      using j assms(2) by (simp add: nth_fill nth_append)
  qed
qed (use assms(2) in simp)

lemma length_bar_join:
  "list_all good_name ns \<Longrightarrow> length (bar_join ns) \<le> MAX_LENGTH_OF_EVENT_NAME * length ns"
  by (induction ns rule: bar_join.induct) (auto simp: good_name_def)

lemma no_nul_bar_join: "list_all good_name ns \<Longrightarrow> no_nul (bar_join ns)"
  by (induction ns rule: bar_join.induct) (auto simp: good_name_def no_nul_def)

text \<open>The names that Rust joins with bars come back as the separate arrays they were: up to
  ten non-empty names without bars fill the first arrays of a zeroed list, in their order,
  and leave the others empty.\<close>

lemma event_list_joined:
  assumes "list_all good_name ns" "ns \<noteq> []" "length ns \<le> MAX_NUMBER_OF_EVENT_LIST"
  shows "map_option (map c_string)
      (SplitStringToArray (padded MAX_EVENT_LIST_LEN (bar_join ns)) MAX_EVENT_LIST_LEN
        (rm_eventList zero_rule) (length ns)) =
    Some (ns @ replicate (MAX_NUMBER_OF_EVENT_LIST - length ns) [])"
proof -
  let ?src = "padded MAX_EVENT_LIST_LEN (bar_join ns)"
  let ?dest = "replicate MAX_NUMBER_OF_EVENT_LIST (replicate MAX_LENGTH_OF_EVENT_NAME (0 :: byte))"
  let ?post = "replicate (MAX_EVENT_LIST_LEN - length (bar_join ns)) (0 :: byte)"
  have "length (bar_join ns) \<le> MAX_EVENT_LIST_LEN"
    using length_bar_join [OF assms(1)] assms(3)
    by (simp add: MAX_EVENT_LIST_LEN_def MAX_LENGTH_OF_EVENT_NAME_def MAX_NUMBER_OF_EVENT_LIST_def)
  then have "length ?src = MAX_EVENT_LIST_LEN" "?src = [] @ bytes_of_string (bar_join ns) @ ?post"
    "?post = [] \<or> hd ?post = 0"
    by (simp_all add: padded_def) (cases "MAX_EVENT_LIST_LEN - length (bar_join ns)"; simp)
  then have "SplitStringToArray ?src MAX_EVENT_LIST_LEN ?dest (length ns) = Some (fill ns 0 ?dest)"
    using Split_walk_names [of ns ?src "[]" ?post MAX_EVENT_LIST_LEN 0 ?dest "length ns" 1] assms
    by (simp add: SplitStringToArray_rest)
  then show ?thesis
    using filled_names [OF assms(1,3)] by (simp add: zero_rule_def)
qed

lemma event_list_joined_example:
  "map_option (map c_string)
      (SplitStringToArray (padded MAX_EVENT_LIST_LEN (bar_join [''START'', ''STOP''])) MAX_EVENT_LIST_LEN
        (rm_eventList zero_rule) 2) =
    Some ([''START'', ''STOP''] @ replicate 8 [])"
  using event_list_joined [of "[''START'', ''STOP'']"]
  by (simp add: good_name_def no_nul_def MAX_LENGTH_OF_EVENT_NAME_def MAX_NUMBER_OF_EVENT_LIST_def
      numeral_2_eq_2)


text \<open>
  An array of eleven names is more than the C structure has, and is not refused: the eleventh
  is copied behind the last array.
\<close>

lemma event_list_overrun:
  "SplitStringToArray (padded MAX_EVENT_LIST_LEN (bar_join (replicate 11 ''E''))) MAX_EVENT_LIST_LEN
     (rm_eventList zero_rule) 11 = None"
  by code_simp

text \<open>A name of 33 characters fills its array up to the last byte.\<close>

lemma long_name_unterminated:
  "map_option (\<lambda>arrays. 0 \<in> set (arrays ! 0))
     (SplitStringToArray (padded MAX_EVENT_LIST_LEN (replicate 33 (CHR ''E''))) MAX_EVENT_LIST_LEN
       (rm_eventList zero_rule) 1) = Some False"
  by code_simp

section \<open>Rules and parameters from Rust\<close>

text \<open>What Rust puts into the wrappers.\<close>

definition rust_rule :: "string \<times> string list \<times> string option \<Rightarrow> HiSysEventQueryRuleWrapper" where
  "rust_rule r = (case r of (domain, names, cond) \<Rightarrow>
     \<lparr>qw_domain = padded MAX_LENGTH_OF_EVENT_DOMAIN domain, qw_eventList = padded MAX_EVENT_LIST_LEN (bar_join names),
      qw_eventListSize = length names, qw_condition = cond\<rparr>)"

definition good_rule :: "string \<times> string list \<times> string option \<Rightarrow> bool" where
  "good_rule r \<longleftrightarrow> (case r of (domain, names, cond) \<Rightarrow>
     domain \<noteq> [] \<and> no_nul domain \<and> length domain < MAX_LENGTH_OF_EVENT_DOMAIN \<and>
     names \<noteq> [] \<and> length names \<le> MAX_NUMBER_OF_EVENT_LIST \<and> list_all good_name names)"

definition rust_param :: "c_param \<Rightarrow> HiSysEventParamWrapper" where
  "rust_param p = \<lparr>pw_paramName = padded MAX_LENGTH_OF_PARAM_NAME (cp_name p), pw_paramType = cp_t p,
     pw_paramValue = cp_v p, pw_arraySize = cp_arraySize p\<rparr>"

definition good_param :: "c_param \<Rightarrow> bool" where
  "good_param p \<longleftrightarrow> no_nul (cp_name p) \<and> length (cp_name p) < MAX_LENGTH_OF_PARAM_NAME"

lemma rule_converted:
  assumes "good_rule r"
  obtains m where
    "ConvertQueryRuleWrapper [rust_rule r] [zero_rule] = Some [m]"
    "read_rule m = \<lparr>qc_domain = fst r, qc_eventList = fst (snd r) @
       replicate (MAX_NUMBER_OF_EVENT_LIST - length (fst (snd r))) [], qc_eventListSize = length (fst (snd r)),
       qc_condition = snd (snd r)\<rparr>"
proof -
  obtain domain names cond where r: "r = (domain, names, cond)"
    by (cases r)
  obtain arrays where arrays:
    "SplitStringToArray (padded MAX_EVENT_LIST_LEN (bar_join names)) MAX_EVENT_LIST_LEN (rm_eventList zero_rule)
       (length names) = Some arrays"
    "map c_string arrays = names @ replicate (MAX_NUMBER_OF_EVENT_LIST - length names) []"
    using event_list_joined [of names] assms by (auto simp: r good_rule_def)
  have "c_string (copy_name MAX_LENGTH_OF_EVENT_DOMAIN (padded MAX_LENGTH_OF_EVENT_DOMAIN domain)
      (rm_domain zero_rule)) = domain"
    using assms by (simp add: r good_rule_def zero_rule_def copied_name)
  then show ?thesis
    using that arrays by (simp add: r rust_rule_def read_rule_def)
qed

lemma ConvertQueryRuleWrapper_cons:
  "ConvertQueryRuleWrapper [w] [d] = Some [m] \<Longrightarrow>
   ConvertQueryRuleWrapper (w # ws) (d # ds) = map_option ((#) m) (ConvertQueryRuleWrapper ws ds)"
  by (auto split: option.splits)

text \<open>The rules as the C interface reads them.\<close>

definition c_rule :: "string \<times> string list \<times> string option \<Rightarrow> query_rule_c" where
  "c_rule r = (case r of (domain, names, cond) \<Rightarrow>
     \<lparr>qc_domain = domain, qc_eventList = names @ replicate (MAX_NUMBER_OF_EVENT_LIST - length names) [],
      qc_eventListSize = length names, qc_condition = cond\<rparr>)"

lemma rules_converted:
  assumes "list_all good_rule rs"
  shows "map_option (map read_rule) (ConvertQueryRuleWrapper (map rust_rule rs) (replicate (length rs) zero_rule)) =
    Some (map c_rule rs)"
  using assms
proof (induction rs)
  case (Cons r rs)
  then obtain m where m: "ConvertQueryRuleWrapper [rust_rule r] [zero_rule] = Some [m]" "read_rule m = c_rule r"
    using rule_converted [of r] by (auto simp: c_rule_def split_beta)
  from Cons obtain ms where
    "ConvertQueryRuleWrapper (map rust_rule rs) (replicate (length rs) zero_rule) = Some ms"
    "map read_rule ms = map c_rule rs"
    by auto
  then show ?case
    using m by (simp add: ConvertQueryRuleWrapper_cons [OF m(1)] del: ConvertQueryRuleWrapper.simps)
qed simp

lemma params_converted:
  "list_all good_param ps \<Longrightarrow>
   map read_param (ConvertParamWrapper (map rust_param ps) (replicate (length ps) zero_param)) = ps"
proof (induction ps)
  case (Cons p ps)
  have "c_string (copy_name MAX_LENGTH_OF_PARAM_NAME (padded MAX_LENGTH_OF_PARAM_NAME (cp_name p))
      (pm_name zero_param)) = cp_name p"
    using Cons.prems by (simp add: good_param_def zero_param_def copied_name)
  then show ?case
    using Cons by (simp add: ConvertParamWrapper_def read_param_def rust_param_def)
qed (simp add: ConvertParamWrapper_def)

text \<open>A write from Rust is the C write of the same parameters when the local array is zero
  before it: names of up to 48 characters arrive whole, and so do types, values and sizes. The
  strings of the string parameters, and only they, are deleted afterwards.\<close>

lemma rust_write_is_C_write:
  assumes "list_all good_param ps"
  shows "HiSysEventWriteWrapper we (replicate (length ps) zero_param) func line domain name type
      (map rust_param ps) (length ps) w =
    (fst (HiSysEvent_Write we func line domain name type (Some ps) (length ps) w),
     snd (HiSysEvent_Write we func line domain name type (Some ps) (length ps) w),
     List.map_filter (\<lambda>p. if cp_t p = HISYSEVENT_STRING then cv_s (cp_v p) else None) ps)"
proof -
  let ?ms = "ConvertParamWrapper (map rust_param ps) (replicate (length ps) zero_param)"
  have read: "map read_param ?ms = ps"
    using params_converted [OF assms] .
  have "List.map_filter (\<lambda>p. if pm_t p = HISYSEVENT_STRING then cv_s (pm_v p) else None) ms =
      List.map_filter (\<lambda>p. if cp_t p = HISYSEVENT_STRING then cv_s (cp_v p) else None) (map read_param ms)" for ms
    by (simp add: List.map_filter_def filter_map comp_def read_param_def cong: filter_cong)
  then show ?thesis
    using read by (simp add: HiSysEventWriteWrapper_def split_beta)
qed

lemma rust_write_is_C_write_example:
  "let p = \<lparr>cp_name = ''KEY'', cp_t = 12, cp_v = \<lparr>cv_bits = 0, cv_s = Some ''text'', cv_array = None, cv_strs = None\<rparr>,
       cp_arraySize = 0\<rparr>
   in snd (snd (HiSysEventWriteWrapper std_we [zero_param] ''main'' 10 (Some ''HIVIEW'') (Some ''LOAD'') 4
        [rust_param p] 1 std_w)) = [''text'']"
proof -
  let ?p = "\<lparr>cp_name = ''KEY'', cp_t = 12, cp_v = \<lparr>cv_bits = 0, cv_s = Some ''text'', cv_array = None, cv_strs = None\<rparr>,
       cp_arraySize = 0\<rparr>"
  have "list_all good_param [?p]"
    by (simp add: good_param_def no_nul_def MAX_LENGTH_OF_PARAM_NAME_def)
  from rust_write_is_C_write [OF this, of std_we "''main''" 10 "Some ''HIVIEW''" "Some ''LOAD''" 4 std_w] show ?thesis
    by (simp add: List.map_filter_def HISYSEVENT_STRING_def Let_def)
qed

end
