(* ===== verification/RustBinding.thy ===== *)
theory RustBinding
  imports RustWrapper
begin

text \<open>
  The objects behind the Rust interface (hisysevent_rust_manager.cpp, hisysevent_rust_listener.cpp,
  hisysevent_rust_querier.cpp and the creation functions of hisysevent_c_wrapper.cpp under
  frameworks/native/c_wrapper/source). Rust owns a watcher or a querier through a raw pointer; the
  listener that C++ makes for it keeps the same pointer. A status in the structure decides who
  frees it: each of the two sides gives it up once, and the second one deletes it. The theory
  shows that a client that opens and recycles every structure at most once never makes the code
  read or delete freed memory, and which uses of the interface do.
\<close>

section \<open>Structures and the objects that point to them\<close>

definition STATUS_MEM_NEED_RECYCLE :: int where "STATUS_MEM_NEED_RECYCLE = 1"
definition STATUS_MEM_FREED :: int where "STATUS_MEM_FREED = 0"
definition STATUS_NORMAL :: int where "STATUS_NORMAL = 2"

lemmas status_defs = STATUS_MEM_NEED_RECYCLE_def STATUS_MEM_FREED_def STATUS_NORMAL_def

text \<open>
  \<^verbatim>\<open>HiSysEventRustWatcherC\<close> and \<^verbatim>\<open>HiSysEventRustQuerierC\<close>: the two Rust callbacks, which are the
  key of the maps, their wrappers, and the status.
\<close>

record handle =
  ha_key :: "nat \<times> nat"
  ha_wrappers :: "nat \<times> nat"
  ha_status :: int

text \<open>
  \<open>hs_mem\<close>: the structures by address, \<open>None\<close> once deleted. \<open>hs_live\<close>: the listener (querier)
  objects that exist, each with its pointer. \<open>hs_table\<close>: the map \<^verbatim>\<open>g_watchers\<close> (\<^verbatim>\<open>g_queriers\<close>)
  from the two callbacks to the object.
\<close>

record handles =
  hs_mem :: "nat \<Rightarrow> handle option"
  hs_next :: nat
  hs_live :: "(nat \<times> nat) list"
  hs_table :: "((nat \<times> nat) \<times> nat) list"

definition handles_new :: handles where
  "handles_new = \<lparr>hs_mem = (\<lambda>_. None), hs_next = 0, hs_live = [], hs_table = []\<rparr>"

definition tbl_put :: "'k \<Rightarrow> 'v \<Rightarrow> ('k \<times> 'v) list \<Rightarrow> ('k \<times> 'v) list" where
  "tbl_put k v t = (k, v) # filter (\<lambda>x. fst x \<noteq> k) t"

definition tbl_erase :: "'k \<Rightarrow> ('k \<times> 'v) list \<Rightarrow> ('k \<times> 'v) list" where
  "tbl_erase k t = filter (\<lambda>x. fst x \<noteq> k) t"

text \<open>Giving a structure up; \<open>None\<close> is an access to deleted memory.\<close>

definition RecycleWatcher :: "nat \<Rightarrow> (nat \<Rightarrow> handle option) \<Rightarrow> (nat \<Rightarrow> handle option) option" where
  "RecycleWatcher p mem =
     (case mem p of
        None \<Rightarrow> None
      | Some h \<Rightarrow>
          if ha_status h = STATUS_MEM_FREED then Some mem
          else if ha_status h = STATUS_MEM_NEED_RECYCLE then Some (mem(p := None))
          else Some (mem(p \<mapsto> h\<lparr>ha_status := STATUS_MEM_NEED_RECYCLE\<rparr>)))"

definition RecycleQuerier :: "nat \<Rightarrow> (nat \<Rightarrow> handle option) \<Rightarrow> (nat \<Rightarrow> handle option) option" where
  "RecycleQuerier p mem =
     (case mem p of
        None \<Rightarrow> None
      | Some h \<Rightarrow>
          if ha_status h = STATUS_MEM_FREED then Some mem
          else if ha_status h = STATUS_MEM_NEED_RECYCLE then Some (mem(p := None))
          else Some (mem(p \<mapsto> h\<lparr>ha_status := STATUS_MEM_NEED_RECYCLE\<rparr>)))"

lemma RecycleQuerier_eq: "RecycleQuerier = RecycleWatcher"
  by (simp add: fun_eq_iff RecycleQuerier_def RecycleWatcher_def)

text \<open>
  The destructors: the last reference to an object goes, and the object gives its structure up.
  \<open>held\<close> says which objects something outside the map refers to; \<open>recycle\<close> is what the
  destructor calls.
\<close>

type_synonym recycler = "nat \<Rightarrow> (nat \<Rightarrow> handle option) \<Rightarrow> (nat \<Rightarrow> handle option) option"

primrec destroy_each :: "recycler \<Rightarrow> nat list \<Rightarrow> (nat \<Rightarrow> handle option) \<Rightarrow> (nat \<Rightarrow> handle option) option" where
  "destroy_each recycle [] mem = Some mem"
| "destroy_each recycle (p # ps) mem =
     (case recycle p mem of None \<Rightarrow> None | Some mem' \<Rightarrow> destroy_each recycle ps mem')"

definition referenced :: "(nat \<Rightarrow> bool) \<Rightarrow> handles \<Rightarrow> nat \<Rightarrow> bool" where
  "referenced held hs ob \<longleftrightarrow> ob \<in> set (map snd (hs_table hs)) \<or> held ob"

definition collect :: "recycler \<Rightarrow> (nat \<Rightarrow> bool) \<Rightarrow> handles \<Rightarrow> handles option" where
  "collect recycle held hs =
     map_option (\<lambda>mem. hs\<lparr>hs_mem := mem, hs_live := filter (\<lambda>x. referenced held hs (fst x)) (hs_live hs)\<rparr>)
       (destroy_each recycle (map snd (filter (\<lambda>x. \<not> referenced held hs (fst x)) (hs_live hs))) (hs_mem hs))"

text \<open>Creation: null callbacks or no memory give a null pointer. Opening adds an object, and its
  entry in the map on success. Recycling looks the object up by the callbacks of the structure.\<close>

definition create_handle ::
  "nat option \<Rightarrow> nat option \<Rightarrow> nat option \<Rightarrow> nat option \<Rightarrow> bool \<Rightarrow> handles \<Rightarrow> handles \<times> nat option" where
  "create_handle cb1 wrapper1 cb2 wrapper2 memory_ok hs =
     (case (cb1, wrapper1, cb2, wrapper2) of
        (Some c1, Some w1, Some c2, Some w2) \<Rightarrow>
          if \<not> memory_ok then (hs, None)
          else (hs\<lparr>hs_mem := (hs_mem hs)(hs_next hs \<mapsto>
                   \<lparr>ha_key = (c1, c2), ha_wrappers = (w1, w2), ha_status = STATUS_NORMAL\<rparr>),
                 hs_next := hs_next hs + 1\<rparr>, Some (hs_next hs))
      | _ \<Rightarrow> (hs, None))"

definition open_handle :: "nat \<Rightarrow> nat \<Rightarrow> (nat \<times> nat) option \<Rightarrow> handles \<Rightarrow> handles" where
  "open_handle ob p entry hs =
     hs\<lparr>hs_live := hs_live hs @ [(ob, p)],
        hs_table := (case entry of None \<Rightarrow> hs_table hs | Some k \<Rightarrow> tbl_put k ob (hs_table hs))\<rparr>"

definition recycle_handle :: "recycler \<Rightarrow> nat \<Rightarrow> handles \<Rightarrow> handles option" where
  "recycle_handle recycle p hs =
     (case hs_mem hs p of
        None \<Rightarrow> None
      | Some h \<Rightarrow>
          (case map_of (hs_table hs) (ha_key h) of
             None \<Rightarrow> Some hs
           | Some ob \<Rightarrow>
               map_option (\<lambda>mem. hs\<lparr>hs_mem := mem, hs_table := tbl_erase (ha_key h) (hs_table hs)\<rparr>)
                 (recycle p (hs_mem hs))))"

section \<open>The functions of the Rust interface\<close>

text \<open>
  The state: the registrations of the process, the structures of watchers and of queriers with
  their objects, the map \<^verbatim>\<open>g_baseWatchers\<close>, and the objects that the server refers to. A
  listener object has the number of the base listener that holds it; the base listener is held
  by \<^verbatim>\<open>g_baseWatchers\<close>, by its own callback object as long as its delegate exists (they refer to
  each other), or by the server.
\<close>

record 'f rust_state =
  rs_reg :: "'f registry"
  rs_watchers :: handles
  rs_queriers :: handles
  rs_baseWatchers :: "((nat \<times> nat) \<times> nat) list"
  rs_remote :: "nat list"
  rs_remoteQueries :: "nat list"
  rs_nextQuery :: nat

definition rust_state_new :: "'f registry \<Rightarrow> 'f rust_state" where
  "rust_state_new reg = \<lparr>rs_reg = reg, rs_watchers = handles_new, rs_queriers = handles_new,
     rs_baseWatchers = [], rs_remote = [], rs_remoteQueries = [], rs_nextQuery = 0\<rparr>"

definition base_held :: "'f rust_state \<Rightarrow> nat \<Rightarrow> bool" where
  "base_held st b \<longleftrightarrow>
     b \<in> set (map snd (rs_baseWatchers st)) \<or>
     (case rg_proxy (rs_reg st) b of None \<Rightarrow> False | Some dg \<Rightarrow> dg_spListenerCallBack dg \<noteq> None) \<or>
     b \<in> set (rs_remote st)"

text \<open>The end of a function: objects that nothing refers to any more are destroyed.\<close>

definition leave :: "'f rust_state \<Rightarrow> 'f rust_state option" where
  "leave st =
     (case collect RecycleWatcher (base_held st) (rs_watchers st) of
        None \<Rightarrow> None
      | Some ws \<Rightarrow>
          map_option (\<lambda>qs. st\<lparr>rs_watchers := ws, rs_queriers := qs\<rparr>)
            (collect RecycleQuerier (\<lambda>q. q \<in> set (rs_remoteQueries st)) (rs_queriers st)))"

text \<open>A pointer argument is \<open>None\<close> when null. What reads a deleted structure has no result.\<close>

definition CreateRustEventWatcher ::
  "nat option \<Rightarrow> nat option \<Rightarrow> nat option \<Rightarrow> nat option \<Rightarrow> bool \<Rightarrow> 'f rust_state \<Rightarrow> 'f rust_state \<times> nat option" where
  "CreateRustEventWatcher onEventRustCb onEventWrapperCb onServiceDiedRustCb onServiceDiedWrapperCb memory_ok st =
     (case create_handle onEventRustCb onEventWrapperCb onServiceDiedRustCb onServiceDiedWrapperCb memory_ok (rs_watchers st) of
        (ws, p) \<Rightarrow> (st\<lparr>rs_watchers := ws\<rparr>, p))"

definition CreateRustEventQuerier ::
  "nat option \<Rightarrow> nat option \<Rightarrow> nat option \<Rightarrow> nat option \<Rightarrow> bool \<Rightarrow> 'f rust_state \<Rightarrow> 'f rust_state \<times> nat option" where
  "CreateRustEventQuerier onQueryRustCb onQueryWrapperCb onCompleteRustCb onCompleteWrapperCb memory_ok st =
     (case create_handle onQueryRustCb onQueryWrapperCb onCompleteRustCb onCompleteWrapperCb memory_ok (rs_queriers st) of
        (qs, p) \<Rightarrow> (st\<lparr>rs_queriers := qs\<rparr>, p))"

definition Rust_AddWatcher ::
  "'f server \<Rightarrow> nat option \<Rightarrow> watch_rule_c list \<Rightarrow> nat \<Rightarrow> 'f rust_state \<Rightarrow> ('f rust_state \<times> int) option" where
  "Rust_AddWatcher sv watcher rules ruleSize st =
     (case watcher of
        None \<Rightarrow> Some (st, ERR_LISTENER_NOT_EXIST)
      | Some p \<Rightarrow>
          (case hs_mem (rs_watchers st) p of
             None \<Rightarrow> None
           | Some h \<Rightarrow>
               if ha_status h \<noteq> STATUS_NORMAL then Some (st, ERR_LISTENER_NOT_EXIST)
               else case watch_rules_loop rules ruleSize [] of
                 None \<Rightarrow> None
               | Some watchRules \<Rightarrow>
                   (case new_base (rs_reg st) of (reg1, b) \<Rightarrow>
                    case Base_AddListener sv (Some b) watchRules reg1 of (reg2, ret) \<Rightarrow>
                      let sent = (case rg_proxy reg2 b of None \<Rightarrow> False | Some dg \<Rightarrow> dg_spListenerCallBack dg \<noteq> None);
                          st1 = st\<lparr>rs_reg := reg2, rs_remote := (if sent then b # rs_remote st else rs_remote st)\<rparr>;
                          st2 = (if ret \<noteq> IPC_CALL_SUCCEED
                            then st1\<lparr>rs_watchers := open_handle b p None (rs_watchers st)\<rparr>
                            else st1\<lparr>rs_watchers := open_handle b p (Some (ha_key h)) (rs_watchers st),
                                     rs_baseWatchers := tbl_put (ha_key h) b (rs_baseWatchers st)\<rparr>)
                      in map_option (\<lambda>st3. (st3, ret)) (leave st2))))"

definition Rust_RemoveWatcher ::
  "'f server \<Rightarrow> nat option \<Rightarrow> 'f rust_state \<Rightarrow> ('f rust_state \<times> int) option" where
  "Rust_RemoveWatcher sv watcher st =
     (case watcher of
        None \<Rightarrow> Some (st, ERR_LISTENER_NOT_EXIST)
      | Some p \<Rightarrow>
          (case hs_mem (rs_watchers st) p of
             None \<Rightarrow> None
           | Some h \<Rightarrow>
               if ha_status h \<noteq> STATUS_NORMAL then Some (st, ERR_LISTENER_NOT_EXIST)
               else case map_of (rs_baseWatchers st) (ha_key h) of
                 None \<Rightarrow> Some (st, ERR_LISTENER_NOT_EXIST)
               | Some b \<Rightarrow>
                   (case Base_RemoveListener sv (Some b) (rs_reg st) of (reg, ret) \<Rightarrow>
                      let st1 = st\<lparr>rs_reg := reg\<rparr>;
                          st2 = (if ret \<noteq> IPC_CALL_SUCCEED then st1
                            else st1\<lparr>rs_baseWatchers := tbl_erase (ha_key h) (rs_baseWatchers st)\<rparr>)
                      in map_option (\<lambda>st3. (st3, ret)) (leave st2))))"

definition Rust_RecycleWatcher :: "nat option \<Rightarrow> 'f rust_state \<Rightarrow> 'f rust_state option" where
  "Rust_RecycleWatcher watcher st =
     (case watcher of
        None \<Rightarrow> Some st
      | Some p \<Rightarrow>
          (case recycle_handle RecycleWatcher p (rs_watchers st) of
             None \<Rightarrow> None
           | Some ws \<Rightarrow> leave (st\<lparr>rs_watchers := ws\<rparr>)))"

definition Rust_Query ::
  "'f server \<Rightarrow> (64 word \<times> 64 word \<times> 32 word) option \<Rightarrow> query_rule_c list \<Rightarrow> nat \<Rightarrow> nat option \<Rightarrow>
   'f rust_state \<Rightarrow> ('f rust_state \<times> int) option" where
  "Rust_Query sv arg rules ruleSize querier st =
     (case querier of
        None \<Rightarrow> Some (st, ERR_LISTENER_NOT_EXIST)
      | Some p \<Rightarrow>
          (case hs_mem (rs_queriers st) p of
             None \<Rightarrow> None
           | Some h \<Rightarrow>
               if ha_status h \<noteq> STATUS_NORMAL then Some (st, ERR_LISTENER_NOT_EXIST)
               else case query_rules_loop rules ruleSize [] of
                 None \<Rightarrow> None
               | Some (Inl err) \<Rightarrow> Some (st, err)
               | Some (Inr queryRules) \<Rightarrow>
                   (case (case arg of None \<Rightarrow> (0, 0, 0) | Some a \<Rightarrow> a) of (beginTime, endTime, maxEvents) \<Rightarrow>
                    case Base_Query sv (QueryArg_new beginTime endTime maxEvents (-1) (-1)) queryRules (rs_reg st) of
                      (reg, ret) \<Rightarrow>
                        let q = rs_nextQuery st;
                            st1 = st\<lparr>rs_reg := reg, rs_nextQuery := q + 1,
                              rs_remoteQueries := (if sv_present sv (rg_log (rs_reg st)) then q # rs_remoteQueries st
                                else rs_remoteQueries st),
                              rs_queriers := open_handle q p
                                (if ret = IPC_CALL_SUCCEED then Some (ha_key h) else None) (rs_queriers st)\<rparr>
                        in map_option (\<lambda>st2. (st2, ret)) (leave st1))))"

definition Rust_RecycleQuerier :: "nat option \<Rightarrow> 'f rust_state \<Rightarrow> 'f rust_state option" where
  "Rust_RecycleQuerier querier st =
     (case querier of
        None \<Rightarrow> Some st
      | Some p \<Rightarrow>
          (case recycle_handle RecycleQuerier p (rs_queriers st) of
             None \<Rightarrow> None
           | Some qs \<Rightarrow> leave (st\<lparr>rs_queriers := qs\<rparr>)))"

text \<open>The wrapper of a query converts the rules on its stack first.\<close>

definition HiSysEventQueryWrapper ::
  "'f server \<Rightarrow> rule_memory list \<Rightarrow> (64 word \<times> 64 word \<times> 32 word) option \<Rightarrow> HiSysEventQueryRuleWrapper list \<Rightarrow> nat \<Rightarrow>
   nat option \<Rightarrow> 'f rust_state \<Rightarrow> ('f rust_state \<times> int) option" where
  "HiSysEventQueryWrapper sv stack arg queryRules ruleSize querier st =
     (case ConvertQueryRuleWrapper (take ruleSize queryRules) stack of
        None \<Rightarrow> None
      | Some rules \<Rightarrow> Rust_Query sv arg (map read_rule rules) ruleSize querier st)"

section \<open>Callbacks\<close>

text \<open>
  An event or the death of the service reaches the listener object, a page or the completion the
  querier object; each reads the structure for the callbacks. The first component of a call is
  the pair of the wrapper and its Rust callback.
\<close>

definition handle_of :: "nat \<Rightarrow> handles \<Rightarrow> handle option option" where
  "handle_of ob hs = (case map_of (hs_live hs) ob of None \<Rightarrow> None | Some p \<Rightarrow> Some (hs_mem hs p))"

text \<open>\<open>Some None\<close>: the object exists, and its structure does not. The record of \<^verbatim>\<open>OnEvent\<close> is a local
  variable without initialisation, \<open>stack_record\<close>.\<close>

definition RustListener_OnEvent ::
  "c_lib \<Rightarrow> 'j jsoncpp \<Rightarrow> record_c \<Rightarrow> nat \<Rightarrow> 'j event_record option \<Rightarrow> heap \<Rightarrow> 'f rust_state \<Rightarrow>
   (heap \<times> ((nat \<times> nat) \<times> c_call) list) option" where
  "RustListener_OnEvent cl jc stack_record ob sysEvent h st =
     (case handle_of ob (rs_watchers st) of
        None \<Rightarrow> Some (h, [])
      | Some None \<Rightarrow> None
      | Some (Some w) \<Rightarrow>
          (case sysEvent of
             None \<Rightarrow> Some (h, [])
           | Some e \<Rightarrow>
               (case ConvertRecord cl jc e (h, stack_record) of
                  None \<Rightarrow> None
                | Some ((h1, r), res) \<Rightarrow>
                    Some (fst (DeleteRecord (h1, r)), [((fst (ha_wrappers w), fst (ha_key w)), EventCall h1 r)]))))"

definition RustListener_OnServiceDied :: "nat \<Rightarrow> 'f rust_state \<Rightarrow> ((nat \<times> nat) \<times> c_call) list option" where
  "RustListener_OnServiceDied ob st =
     (case handle_of ob (rs_watchers st) of
        None \<Rightarrow> Some []
      | Some None \<Rightarrow> None
      | Some (Some w) \<Rightarrow> Some [((snd (ha_wrappers w), snd (ha_key w)), DiedCall)])"

definition RustQuerier_OnQuery ::
  "c_lib \<Rightarrow> 'j jsoncpp \<Rightarrow> nat \<Rightarrow> 'j event_record list option \<Rightarrow> heap \<Rightarrow> 'f rust_state \<Rightarrow>
   (heap \<times> ((nat \<times> nat) \<times> c_call) list) option" where
  "RustQuerier_OnQuery cl jc ob sysEvents h st =
     (case handle_of ob (rs_queriers st) of
        None \<Rightarrow> Some (h, [])
      | Some None \<Rightarrow> None
      | Some (Some w) \<Rightarrow>
          (let call = (\<lambda>c. ((fst (ha_wrappers w), fst (ha_key w)), c)) in
           case sysEvents of
             None \<Rightarrow> Some (h, [call (QueryCall h None 0)])
           | Some [] \<Rightarrow> Some (h, [call (QueryCall h None 0)])
           | Some es \<Rightarrow>
               (case alloc cl (length es) (Records (length es)) h of
                  (h1, None) \<Rightarrow> Some (h1, [])
                | (h1, Some a) \<Rightarrow>
                    (case OnQuery_loop cl jc es [] h1 of
                       None \<Rightarrow> None
                     | Some (h2, recs, ok) \<Rightarrow>
                         Some (DeleteRecords (Some a) recs (length recs) h2,
                           if ok then [call (QueryCall h2 (Some recs) (length es))] else [])))))"

definition RustQuerier_OnComplete :: "nat \<Rightarrow> int \<Rightarrow> int \<Rightarrow> 'f rust_state \<Rightarrow> ((nat \<times> nat) \<times> c_call) list option" where
  "RustQuerier_OnComplete ob reason cnt st =
     (case handle_of ob (rs_queriers st) of
        None \<Rightarrow> Some []
      | Some None \<Rightarrow> None
      | Some (Some w) \<Rightarrow> Some [((snd (ha_wrappers w), snd (ha_key w)), CompleteCall reason cnt)])"


text \<open>
  An event whose domain is too long for the record leaves the pointers of the record as they
  were on the stack, and \<^verbatim>\<open>OnEvent\<close> deletes them.
\<close>

lemma OnEvent_deletes_stack_pointer:
  assumes "handle_of ob (rs_watchers st) = Some (Some w)" "GetDomain jc e = Some d"
    and "length d \<ge> MAX_LENGTH_OF_EVENT_DOMAIN" "rc_jsonStr stack_record = Some a" "hp_blocks h a = Some block"
  shows "\<exists>h' calls. RustListener_OnEvent cl jc stack_record ob (Some e) h st = Some (h', calls) \<and> hp_blocks h' a = None"
proof -
  have "ConvertRecord cl jc e (h, stack_record) = Some ((h, stack_record), -1)"
    using assms(2,3)
    by (simp add: ConvertRecord_def then_conv_def ConvertDomain_def copy_field_def CopyCString_def
        MAX_LENGTH_OF_EVENT_DOMAIN_def)
  then show ?thesis
    using assms(1,4)
    by (simp add: RustListener_OnEvent_def DeleteRecord_def DeletePointer_def delete_block_def split: prod.split option.split)
qed

section \<open>Who frees a structure\<close>

text \<open>
  The invariant of the structures: the keys \<open>ks\<close> of all that were created, the addresses \<open>A\<close>
  that were opened and \<open>R\<close> that were recycled.
\<close>

definition hs_inv :: "(nat \<times> nat) list \<Rightarrow> nat set \<Rightarrow> nat set \<Rightarrow> handles \<Rightarrow> bool" where
  "hs_inv ks A R hs \<longleftrightarrow>
     hs_next hs = length ks \<and> distinct ks \<and>
     (\<forall>p h. hs_mem hs p = Some h \<longrightarrow> p < length ks \<and> ha_key h = ks ! p \<and>
        ha_status h \<in> {STATUS_MEM_NEED_RECYCLE, STATUS_NORMAL}) \<and>
     (\<forall>p < length ks. p \<notin> R \<longrightarrow> hs_mem hs p \<noteq> None) \<and>
     (\<forall>x \<in> set (hs_live hs). hs_mem hs (snd x) \<noteq> None \<and> snd x \<in> A) \<and>
     distinct (map snd (hs_live hs)) \<and>
     (\<forall>x \<in> set (hs_table hs). \<exists>p. (snd x, p) \<in> set (hs_live hs) \<and> p \<notin> R \<and> p < length ks \<and> fst x = ks ! p) \<and>
     (\<forall>p h. hs_mem hs p = Some h \<and> p \<notin> R \<and> (p \<notin> A \<or> (\<exists>ob. (ob, p) \<in> set (hs_live hs))) \<longrightarrow>
        ha_status h = STATUS_NORMAL)"

lemma hs_inv_new: "hs_inv [] {} {} handles_new"
  by (simp add: hs_inv_def handles_new_def)

lemma hs_inv_create:
  assumes inv: "hs_inv ks A R hs" and fresh: "(c1, c2) \<notin> set ks"
  shows "hs_inv (ks @ [(c1, c2)]) A R (fst (create_handle (Some c1) (Some w1) (Some c2) (Some w2) True hs))"
  using assms unfolding hs_inv_def create_handle_def
  by (auto simp: nth_append less_Suc_eq split: if_splits)


lemma tbl_put_mem: "x \<in> set (tbl_put k v t) \<Longrightarrow> x = (k, v) \<or> x \<in> set t"
  by (auto simp: tbl_put_def)

lemma tbl_erase_mem: "x \<in> set (tbl_erase k t) \<longleftrightarrow> x \<in> set t \<and> fst x \<noteq> k"
  by (auto simp: tbl_erase_def)

lemma hs_inv_open:
  assumes inv: "hs_inv ks A R hs" and p: "p < length ks" "p \<notin> A" "p \<notin> R"
    and entry: "entry = None \<or> entry = Some (ks ! p)"
  shows "hs_inv ks (insert p A) R (open_handle ob p entry hs)"
proof -
  let ?hs = "open_handle ob p entry hs"
  have live: "hs_live ?hs = hs_live hs @ [(ob, p)]" and mem: "hs_mem ?hs = hs_mem hs" "hs_next ?hs = hs_next hs"
    by (simp_all add: open_handle_def)
  have new: "p \<notin> set (map snd (hs_live hs))"
    using inv p(2) by (auto simp: hs_inv_def)
  have normal: "\<forall>q h. hs_mem hs q = Some h \<and> q \<notin> R \<and> (q \<notin> A \<or> (\<exists>ob. (ob, q) \<in> set (hs_live hs))) \<longrightarrow>
      ha_status h = STATUS_NORMAL"
    using inv unfolding hs_inv_def by blast
  have "\<forall>x \<in> set (hs_table ?hs). \<exists>q. (snd x, q) \<in> set (hs_live ?hs) \<and> q \<notin> R \<and> q < length ks \<and> fst x = ks ! q"
  proof
    fix x
    assume "x \<in> set (hs_table ?hs)"
    then have "x \<in> set (hs_table hs) \<or> x = (ks ! p, ob)"
      using entry tbl_put_mem by (fastforce simp: open_handle_def)
    then show "\<exists>q. (snd x, q) \<in> set (hs_live ?hs) \<and> q \<notin> R \<and> q < length ks \<and> fst x = ks ! q"
      using inv p unfolding live hs_inv_def by auto
  qed
  moreover have "distinct (map snd (hs_live ?hs))"
    using inv new by (simp add: live hs_inv_def)
  moreover have "\<forall>q h. hs_mem hs q = Some h \<and> q \<notin> R \<and> (q \<notin> insert p A \<or> (\<exists>ob. (ob, q) \<in> set (hs_live ?hs))) \<longrightarrow>
      ha_status h = STATUS_NORMAL"
    using normal p(2) unfolding live by auto
  ultimately show ?thesis
    using inv p(1,3) unfolding hs_inv_def by (simp add: live mem)
qed

text \<open>A structure that was refused counts as opened.\<close>

lemma hs_inv_refused:
  assumes inv: "hs_inv ks A R hs"
  shows "hs_inv ks (insert p A) R hs"
proof -
  have "\<forall>q h. hs_mem hs q = Some h \<and> q \<notin> R \<and> (q \<notin> A \<or> (\<exists>ob. (ob, q) \<in> set (hs_live hs))) \<longrightarrow>
      ha_status h = STATUS_NORMAL"
    using inv unfolding hs_inv_def by blast
  then have "\<forall>q h. hs_mem hs q = Some h \<and> q \<notin> R \<and> (q \<notin> insert p A \<or> (\<exists>ob. (ob, q) \<in> set (hs_live hs))) \<longrightarrow>
      ha_status h = STATUS_NORMAL"
    by blast
  then show ?thesis
    using inv unfolding hs_inv_def by simp
qed

text \<open>Giving up the structure of a live object that was not recycled leaves it allocated.\<close>

lemma RecycleWatcher_cases:
  assumes "mem p = Some h" "ha_status h \<in> {STATUS_MEM_NEED_RECYCLE, STATUS_NORMAL}"
  shows "RecycleWatcher p mem =
    Some (if ha_status h = STATUS_NORMAL then mem(p \<mapsto> h\<lparr>ha_status := STATUS_MEM_NEED_RECYCLE\<rparr>) else mem(p := None))"
  using assms by (auto simp: RecycleWatcher_def status_defs)

lemma hs_inv_recycle:
  assumes inv: "hs_inv ks A R hs" and p: "p < length ks" "p \<notin> R"
  obtains hs' where "recycle_handle RecycleWatcher p hs = Some hs'" "hs_inv ks A (insert p R) hs'"
proof -
  obtain h where h: "hs_mem hs p = Some h" "ha_key h = ks ! p"
      "ha_status h \<in> {STATUS_MEM_NEED_RECYCLE, STATUS_NORMAL}"
    using inv p unfolding hs_inv_def by (metis not_None_eq)
  have dks: "distinct ks"
    using inv by (simp add: hs_inv_def)
  show ?thesis
  proof (cases "map_of (hs_table hs) (ha_key h)")
    case None
    then have no: "\<forall>x \<in> set (hs_table hs). fst x \<noteq> ks ! p"
      using h(2) by (metis image_eqI map_of_eq_None_iff)
    have "hs_inv ks A (insert p R) hs"
      using inv no unfolding hs_inv_def by auto (metis fst_conv snd_conv)+
    then show ?thesis
      using that None h(1) by (simp add: recycle_handle_def)
  next
    case (Some ob)
    then have "(ks ! p, ob) \<in> set (hs_table hs)"
      using h(2) by (metis map_of_SomeD)
    then obtain q where q: "(ob, q) \<in> set (hs_live hs)" "q < length ks" "ks ! p = ks ! q"
      using inv unfolding hs_inv_def by fastforce
    then have "q = p"
      using dks p(1) nth_eq_iff_index_eq by metis
    then have "ha_status h = STATUS_NORMAL"
      using inv h(1) p(2) q(1) unfolding hs_inv_def by blast
    then have rec: "RecycleWatcher p (hs_mem hs) =
        Some ((hs_mem hs)(p \<mapsto> h\<lparr>ha_status := STATUS_MEM_NEED_RECYCLE\<rparr>))"
      using RecycleWatcher_cases [of "hs_mem hs" p h] h by simp
    let ?hs = "hs\<lparr>hs_mem := (hs_mem hs)(p \<mapsto> h\<lparr>ha_status := STATUS_MEM_NEED_RECYCLE\<rparr>),
        hs_table := tbl_erase (ks ! p) (hs_table hs)\<rparr>"
    have "\<forall>x \<in> set (hs_table ?hs). \<exists>q. (snd x, q) \<in> set (hs_live ?hs) \<and> q \<notin> insert p R \<and> q < length ks \<and> fst x = ks ! q"
    proof
      fix x
      assume "x \<in> set (hs_table ?hs)"
      then have "x \<in> set (hs_table hs)" "fst x \<noteq> ks ! p"
        by (auto simp: tbl_erase_mem)
      then show "\<exists>q. (snd x, q) \<in> set (hs_live ?hs) \<and> q \<notin> insert p R \<and> q < length ks \<and> fst x = ks ! q"
        using inv unfolding hs_inv_def by fastforce
    qed
    moreover have "hs_inv ks A (insert p R) ?hs \<longleftrightarrow>
        (\<forall>x \<in> set (hs_table ?hs). \<exists>q. (snd x, q) \<in> set (hs_live ?hs) \<and> q \<notin> insert p R \<and> q < length ks \<and> fst x = ks ! q)"
      using inv h p unfolding hs_inv_def by (auto simp: status_defs)
    ultimately show ?thesis
      using that Some h rec by (simp add: recycle_handle_def)
  qed
qed


text \<open>Destroying objects with different structures: each structure is given up once.\<close>

definition given_up :: "handle option \<Rightarrow> handle option" where
  "given_up m = (case m of None \<Rightarrow> None
     | Some h \<Rightarrow> if ha_status h = STATUS_NORMAL then Some (h\<lparr>ha_status := STATUS_MEM_NEED_RECYCLE\<rparr>) else None)"

lemma destroy_each_mem:
  assumes "distinct ps"
    and "\<forall>p \<in> set ps. \<exists>h. mem p = Some h \<and> ha_status h \<in> {STATUS_MEM_NEED_RECYCLE, STATUS_NORMAL}"
  shows "destroy_each RecycleWatcher ps mem = Some (\<lambda>q. if q \<in> set ps then given_up (mem q) else mem q)"
  using assms
proof (induction ps arbitrary: mem)
  case (Cons p ps)
  then obtain h where h: "mem p = Some h" "ha_status h \<in> {STATUS_MEM_NEED_RECYCLE, STATUS_NORMAL}"
    by auto
  let ?mem = "mem(p := given_up (mem p))"
  have "RecycleWatcher p mem = Some ?mem"
    using RecycleWatcher_cases [of mem p h] h by (auto simp: given_up_def fun_eq_iff)
  moreover have "destroy_each RecycleWatcher ps ?mem =
      Some (\<lambda>q. if q \<in> set ps then given_up (?mem q) else ?mem q)"
    using Cons.prems by (intro Cons.IH) auto
  ultimately show ?case
    using Cons.prems(1) by (auto simp: fun_eq_iff)
qed simp

lemma hs_inv_collect:
  assumes inv: "hs_inv ks A R hs"
  obtains hs' where "collect RecycleWatcher held hs = Some hs'" "hs_inv ks A R hs'" "hs_table hs' = hs_table hs"
proof -
  let ?keep = "\<lambda>x. referenced held hs (fst x)"
  let ?dead = "map snd (filter (\<lambda>x. \<not> ?keep x) (hs_live hs))"
  let ?mem = "\<lambda>q. if q \<in> set ?dead then given_up (hs_mem hs q) else hs_mem hs q"
  let ?hs = "hs\<lparr>hs_mem := ?mem, hs_live := filter ?keep (hs_live hs)\<rparr>"
  have dist: "distinct (map snd (hs_live hs))"
    and ks: "hs_next hs = length ks" "distinct ks"
    and mem: "\<And>p h. hs_mem hs p = Some h \<Longrightarrow> p < length ks \<and> ha_key h = ks ! p \<and>
        ha_status h \<in> {STATUS_MEM_NEED_RECYCLE, STATUS_NORMAL}"
    and alloc: "\<And>p. p < length ks \<Longrightarrow> p \<notin> R \<Longrightarrow> hs_mem hs p \<noteq> None"
    and live: "\<And>ob p. (ob, p) \<in> set (hs_live hs) \<Longrightarrow> hs_mem hs p \<noteq> None \<and> p \<in> A"
    and table: "\<And>x. x \<in> set (hs_table hs) \<Longrightarrow>
        \<exists>p. (snd x, p) \<in> set (hs_live hs) \<and> p \<notin> R \<and> p < length ks \<and> fst x = ks ! p"
    and normal: "\<And>p h ob. hs_mem hs p = Some h \<Longrightarrow> p \<notin> R \<Longrightarrow> p \<notin> A \<or> (ob, p) \<in> set (hs_live hs) \<Longrightarrow>
        ha_status h = STATUS_NORMAL"
    using inv unfolding hs_inv_def by fastforce+
  have once: "a = b" if "(a, p) \<in> set (hs_live hs)" "(b, p) \<in> set (hs_live hs)" for a b p
    using that dist by (metis (no_types, lifting) distinct_map inj_on_def prod.inject snd_conv)
  have dead: "q \<in> set ?dead \<longleftrightarrow> (\<exists>ob. (ob, q) \<in> set (hs_live hs) \<and> \<not> referenced held hs ob)" for q
    by force
  have "distinct ?dead"
    using dist by (simp add: distinct_map_filter)
  then have "destroy_each RecycleWatcher ?dead (hs_mem hs) = Some ?mem"
    using live mem by (intro destroy_each_mem) (fastforce simp: dead)+
  then have "collect RecycleWatcher held hs = Some ?hs"
    by (simp add: collect_def)
  moreover have "hs_inv ks A R ?hs"
    unfolding hs_inv_def
  proof (intro conjI allI ballI impI)
    fix p h
    assume p: "hs_mem ?hs p = Some h"
    then obtain h0 where h0: "hs_mem hs p = Some h0" "h = h0 \<or> h = h0\<lparr>ha_status := STATUS_MEM_NEED_RECYCLE\<rparr>"
      by (auto simp: given_up_def split: if_splits option.splits)
    then show "p < length ks" "ha_key h = ks ! p" "ha_status h \<in> {STATUS_MEM_NEED_RECYCLE, STATUS_NORMAL}"
      using mem [OF h0(1)] by auto
  next
    fix p
    assume p: "p < length ks" "p \<notin> R"
    then obtain h where h: "hs_mem hs p = Some h"
      using alloc by blast
    show "hs_mem ?hs p \<noteq> None"
    proof (cases "p \<in> set ?dead")
      case True
      then obtain ob where "(ob, p) \<in> set (hs_live hs)"
        using dead by blast
      then have "ha_status h = STATUS_NORMAL"
        using normal h p(2) by blast
      with True h show ?thesis
        by (simp add: given_up_def)
    next
      case False
      with h show ?thesis
        by simp
    qed
  next
    fix x
    assume x: "x \<in> set (hs_live ?hs)"
    then have x': "(fst x, snd x) \<in> set (hs_live hs)" "referenced held hs (fst x)"
      by auto
    then have "snd x \<notin> set ?dead"
      using once dead by blast
    then show "hs_mem ?hs (snd x) \<noteq> None" "snd x \<in> A"
      using live [OF x'(1)] by auto
  next
    fix x
    assume x: "x \<in> set (hs_table ?hs)"
    then have "referenced held hs (snd x)"
      by (auto simp: referenced_def)
    then show "\<exists>p. (snd x, p) \<in> set (hs_live ?hs) \<and> p \<notin> R \<and> p < length ks \<and> fst x = ks ! p"
      using table [of x] x by auto
  next
    fix p h
    assume "hs_mem ?hs p = Some h \<and> p \<notin> R \<and> (p \<notin> A \<or> (\<exists>ob. (ob, p) \<in> set (hs_live ?hs)))"
    then have p: "hs_mem ?hs p = Some h" "p \<notin> R" "p \<notin> A \<or> (\<exists>ob. (ob, p) \<in> set (hs_live ?hs))"
      by auto
    have "p \<notin> set ?dead"
    proof
      assume "p \<in> set ?dead"
      then obtain ob where ob: "(ob, p) \<in> set (hs_live hs)" "\<not> referenced held hs ob"
        using dead by blast
      then have "p \<in> A"
        using live by blast
      then obtain ob' where "(ob', p) \<in> set (hs_live hs)" "referenced held hs ob'"
        using p(3) by auto
      then show False
        using once ob by blast
    qed
    then show "ha_status h = STATUS_NORMAL"
      using normal [of p h] p by auto
  qed (use ks dist in \<open>simp_all add: distinct_map_filter\<close>)
  ultimately show ?thesis
    using that by simp
qed


section \<open>Runs of a client and the server\<close>

text \<open>
  The client creates, opens, removes and recycles; the server lets go of an object it was given,
  or calls one. \<open>O_Call\<close> and \<open>O_Answer\<close> read the structure as every callback does.
\<close>

datatype rust_op =
    O_Create "nat \<times> nat"
  | O_Add nat "watch_rule_c list" nat
  | O_Remove nat
  | O_Recycle nat
  | O_CreateQuerier "nat \<times> nat"
  | O_Query nat "(64 word \<times> 64 word \<times> 32 word) option" "query_rule_c list" nat
  | O_RecycleQuerier nat
  | O_Drop nat
  | O_DropQuery nat
  | O_Call nat
  | O_Answer nat

primrec rust_exec :: "'f server \<Rightarrow> rust_op \<Rightarrow> 'f rust_state \<Rightarrow> 'f rust_state option" where
  "rust_exec sv (O_Create key) st =
     Some (fst (CreateRustEventWatcher (Some (fst key)) (Some 0) (Some (snd key)) (Some 1) True st))"
| "rust_exec sv (O_Add p rules n) st = map_option fst (Rust_AddWatcher sv (Some p) rules n st)"
| "rust_exec sv (O_Remove p) st = map_option fst (Rust_RemoveWatcher sv (Some p) st)"
| "rust_exec sv (O_Recycle p) st = Rust_RecycleWatcher (Some p) st"
| "rust_exec sv (O_CreateQuerier key) st =
     Some (fst (CreateRustEventQuerier (Some (fst key)) (Some 0) (Some (snd key)) (Some 1) True st))"
| "rust_exec sv (O_Query p arg rules n) st = map_option fst (Rust_Query sv arg rules n (Some p) st)"
| "rust_exec sv (O_RecycleQuerier p) st = Rust_RecycleQuerier (Some p) st"
| "rust_exec sv (O_Drop b) st = leave (st\<lparr>rs_remote := filter (\<lambda>x. x \<noteq> b) (rs_remote st)\<rparr>)"
| "rust_exec sv (O_DropQuery q) st = leave (st\<lparr>rs_remoteQueries := filter (\<lambda>x. x \<noteq> q) (rs_remoteQueries st)\<rparr>)"
| "rust_exec sv (O_Call b) st = map_option (\<lambda>_. st) (RustListener_OnServiceDied b st)"
| "rust_exec sv (O_Answer q) st = map_option (\<lambda>_. st) (RustQuerier_OnComplete q 0 0 st)"

primrec rust_run :: "'f server \<Rightarrow> rust_op list \<Rightarrow> 'f rust_state \<Rightarrow> 'f rust_state option" where
  "rust_run sv [] st = Some st"
| "rust_run sv (op # ops) st = (case rust_exec sv op st of None \<Rightarrow> None | Some st' \<Rightarrow> rust_run sv ops st')"

text \<open>
  The discipline, for watchers and for queriers: different callbacks for every structure; a
  structure is used after its creation and not after its recycling; it is opened (a watcher
  added, a querier used for a query) and recycled at most once. What is passed with a length is
  as long as it says.
\<close>

type_synonym client = "(nat \<times> nat) list \<times> nat set \<times> nat set"

definition usable :: "client \<Rightarrow> nat \<Rightarrow> bool" where
  "usable c p \<longleftrightarrow> (case c of (ks, A, R) \<Rightarrow> p < length ks \<and> p \<notin> R)"

fun disciplined :: "client \<Rightarrow> client \<Rightarrow> rust_op list \<Rightarrow> bool" where
  "disciplined w q [] = True"
| "disciplined (ks, A, R) q (O_Create key # ops) \<longleftrightarrow> key \<notin> set ks \<and> disciplined (ks @ [key], A, R) q ops"
| "disciplined (ks, A, R) q (O_Add p rules n # ops) \<longleftrightarrow>
     usable (ks, A, R) p \<and> p \<notin> A \<and> watch_rules_loop rules n [] \<noteq> None \<and> disciplined (ks, insert p A, R) q ops"
| "disciplined w q (O_Remove p # ops) \<longleftrightarrow> usable w p \<and> disciplined w q ops"
| "disciplined (ks, A, R) q (O_Recycle p # ops) \<longleftrightarrow> usable (ks, A, R) p \<and> disciplined (ks, A, insert p R) q ops"
| "disciplined w (ks, A, R) (O_CreateQuerier key # ops) \<longleftrightarrow> key \<notin> set ks \<and> disciplined w (ks @ [key], A, R) ops"
| "disciplined w (ks, A, R) (O_Query p arg rules n # ops) \<longleftrightarrow>
     usable (ks, A, R) p \<and> p \<notin> A \<and> query_rules_loop rules n [] \<noteq> None \<and> disciplined w (ks, insert p A, R) ops"
| "disciplined w (ks, A, R) (O_RecycleQuerier p # ops) \<longleftrightarrow>
     usable (ks, A, R) p \<and> disciplined w (ks, A, insert p R) ops"
| "disciplined w q (op # ops) \<longleftrightarrow> disciplined w q ops"

definition client_inv :: "client \<Rightarrow> handles \<Rightarrow> bool" where
  "client_inv c hs \<longleftrightarrow> (case c of (ks, A, R) \<Rightarrow> hs_inv ks A R hs)"

definition rust_inv :: "client \<Rightarrow> client \<Rightarrow> 'f rust_state \<Rightarrow> bool" where
  "rust_inv w q st \<longleftrightarrow> client_inv w (rs_watchers st) \<and> client_inv q (rs_queriers st)"

lemma leave_inv:
  assumes "rust_inv w q st"
  obtains st' where "leave st = Some st'" "rust_inv w q st'"
proof -
  obtain ks A R ks' A' R' where c: "w = (ks, A, R)" "q = (ks', A', R')"
    by (cases w, cases q)
  then have inv: "hs_inv ks A R (rs_watchers st)" "hs_inv ks' A' R' (rs_queriers st)"
    using assms by (simp_all add: rust_inv_def client_inv_def)
  obtain ws where "collect RecycleWatcher (base_held st) (rs_watchers st) = Some ws" "hs_inv ks A R ws"
    using hs_inv_collect [OF inv(1)] by metis
  moreover obtain qs where "collect RecycleQuerier (\<lambda>x. x \<in> set (rs_remoteQueries st)) (rs_queriers st) = Some qs"
      "hs_inv ks' A' R' qs"
    using hs_inv_collect [OF inv(2)] unfolding RecycleQuerier_eq by metis
  ultimately show ?thesis
    using that by (simp add: leave_def rust_inv_def client_inv_def c)
qed

lemma usable_structure:
  assumes "client_inv c hs" "usable c p"
  obtains h where "hs_mem hs p = Some h" "\<And>ks A R. c = (ks, A, R) \<Longrightarrow> ha_key h = ks ! p"
proof -
  obtain ks A R where c: "c = (ks, A, R)"
    by (cases c)
  then have "hs_inv ks A R hs" "p < length ks" "p \<notin> R"
    using assms by (simp_all add: client_inv_def usable_def)
  then show ?thesis
    using that c unfolding hs_inv_def by fastforce
qed

text \<open>A live object has its structure.\<close>

lemma live_structure:
  assumes "client_inv c hs"
  shows "handle_of ob hs \<noteq> Some None"
proof -
  have "hs_mem hs p \<noteq> None" if "map_of (hs_live hs) ob = Some p" for p
    using map_of_SomeD [OF that] assms by (cases c) (fastforce simp: client_inv_def hs_inv_def)
  then show ?thesis
    by (auto simp: handle_of_def split: option.splits)
qed


lemma Rust_AddWatcher_inv:
  assumes inv: "rust_inv (ks, A, R) q st" and p: "usable (ks, A, R) p" "p \<notin> A"
    and rules: "watch_rules_loop rules n [] \<noteq> None"
  obtains st' ret where "Rust_AddWatcher sv (Some p) rules n st = Some (st', ret)"
    "rust_inv (ks, insert p A, R) q st' "
proof -
  have hs: "hs_inv ks A R (rs_watchers st)"
    using inv by (simp add: rust_inv_def client_inv_def)
  obtain h where h: "hs_mem (rs_watchers st) p = Some h" "ha_key h = ks ! p"
    using usable_structure [of "(ks, A, R)" "rs_watchers st" p] inv p(1) by (auto simp: rust_inv_def)
  obtain rs where rs: "watch_rules_loop rules n [] = Some rs"
    using rules by blast
  have pp: "p < length ks" "p \<notin> R"
    using p(1) by (simp_all add: usable_def)
  then have "ha_status h = STATUS_NORMAL"
    using hs h(1) p(2) unfolding hs_inv_def by blast
  obtain reg1 b where b: "new_base (rs_reg st) = (reg1, b)"
    by fastforce
  obtain reg2 ret where ret: "Base_AddListener sv (Some b) rs reg1 = (reg2, ret)"
    by fastforce
  define st2 where "st2 = (let
      sent = (case rg_proxy reg2 b of None \<Rightarrow> False | Some dg \<Rightarrow> dg_spListenerCallBack dg \<noteq> None);
      st1 = st\<lparr>rs_reg := reg2, rs_remote := (if sent then b # rs_remote st else rs_remote st)\<rparr>
    in if ret \<noteq> IPC_CALL_SUCCEED
       then st1\<lparr>rs_watchers := open_handle b p None (rs_watchers st)\<rparr>
       else st1\<lparr>rs_watchers := open_handle b p (Some (ha_key h)) (rs_watchers st),
                rs_baseWatchers := tbl_put (ha_key h) b (rs_baseWatchers st)\<rparr>)"
  have "rust_inv (ks, insert p A, R) q st2"
    using inv hs_inv_open [OF hs pp(1) p(2) pp(2)] h(2)
    by (simp add: st2_def rust_inv_def client_inv_def Let_def)
  then obtain st3 where "leave st2 = Some st3" "rust_inv (ks, insert p A, R) q st3"
    using leave_inv by blast
  moreover have "Rust_AddWatcher sv (Some p) rules n st = map_option (\<lambda>st3. (st3, ret)) (leave st2)"
    using h(1) \<open>ha_status h = STATUS_NORMAL\<close> rs b ret
    by (simp add: Rust_AddWatcher_def st2_def Let_def)
  ultimately show ?thesis
    using that by simp
qed

lemma Rust_RemoveWatcher_inv:
  assumes inv: "rust_inv w q st" and p: "usable w p"
  obtains st' ret where "Rust_RemoveWatcher sv (Some p) st = Some (st', ret)" "rust_inv w q st'"
proof -
  obtain h where h: "hs_mem (rs_watchers st) p = Some h"
    using inv p unfolding rust_inv_def by (metis usable_structure)
  show ?thesis
  proof (cases "ha_status h = STATUS_NORMAL \<and> map_of (rs_baseWatchers st) (ha_key h) \<noteq> None")
    case True
    then obtain b where b: "map_of (rs_baseWatchers st) (ha_key h) = Some b"
      by blast
    obtain reg ret where ret: "Base_RemoveListener sv (Some b) (rs_reg st) = (reg, ret)"
      by fastforce
    define st2 where "st2 = (if ret \<noteq> IPC_CALL_SUCCEED then st\<lparr>rs_reg := reg\<rparr>
        else st\<lparr>rs_reg := reg, rs_baseWatchers := tbl_erase (ha_key h) (rs_baseWatchers st)\<rparr>)"
    have "rust_inv w q st2"
      using inv by (simp add: st2_def rust_inv_def)
    then obtain st3 where "leave st2 = Some st3" "rust_inv w q st3"
      using leave_inv by blast
    moreover have "Rust_RemoveWatcher sv (Some p) st = map_option (\<lambda>st3. (st3, ret)) (leave st2)"
      using h True b ret by (simp add: Rust_RemoveWatcher_def st2_def Let_def)
    ultimately show ?thesis
      using that by simp
  next
    case False
    then have "Rust_RemoveWatcher sv (Some p) st = Some (st, ERR_LISTENER_NOT_EXIST)"
      using h by (auto simp: Rust_RemoveWatcher_def)
    then show ?thesis
      using that inv by blast
  qed
qed

lemma Rust_Query_inv:
  assumes inv: "rust_inv w (ks, A, R) st" and p: "usable (ks, A, R) p" "p \<notin> A"
    and rules: "query_rules_loop rules n [] \<noteq> None"
  obtains st' ret where "Rust_Query sv arg rules n (Some p) st = Some (st', ret)" "rust_inv w (ks, insert p A, R) st'"
proof -
  have hs: "hs_inv ks A R (rs_queriers st)"
    using inv by (simp add: rust_inv_def client_inv_def)
  obtain h where h: "hs_mem (rs_queriers st) p = Some h" "ha_key h = ks ! p"
    using usable_structure [of "(ks, A, R)" "rs_queriers st" p] inv p(1) by (auto simp: rust_inv_def)
  have pp: "p < length ks" "p \<notin> R"
    using p(1) by (simp_all add: usable_def)
  then have normal: "ha_status h = STATUS_NORMAL"
    using hs h(1) p(2) unfolding hs_inv_def by blast
  obtain res where res: "query_rules_loop rules n [] = Some res"
    using rules by blast
  show ?thesis
  proof (cases res)
    case (Inl err)
    have "hs_inv ks (insert p A) R (rs_queriers st)"
      using hs_inv_refused [OF hs] .
    then have "rust_inv w (ks, insert p A, R) st"
      using inv by (simp add: rust_inv_def client_inv_def)
    then show ?thesis
      using that h(1) normal res Inl by (simp add: Rust_Query_def)
  next
    case (Inr queryRules)
    obtain b e m where arg: "(case arg of None \<Rightarrow> (0, 0, 0) | Some a \<Rightarrow> a) = (b, e, m)"
      by (metis prod_cases3)
    obtain reg ret where ret: "Base_Query sv (QueryArg_new b e m (-1) (-1)) queryRules (rs_reg st) = (reg, ret)"
      by fastforce
    define st1 where "st1 = st\<lparr>rs_reg := reg, rs_nextQuery := rs_nextQuery st + 1,
        rs_remoteQueries := (if sv_present sv (rg_log (rs_reg st)) then rs_nextQuery st # rs_remoteQueries st
          else rs_remoteQueries st),
        rs_queriers := open_handle (rs_nextQuery st) p
          (if ret = IPC_CALL_SUCCEED then Some (ha_key h) else None) (rs_queriers st)\<rparr>"
    have "hs_inv ks (insert p A) R (rs_queriers st1)"
      using hs_inv_open [OF hs pp(1) p(2) pp(2)] h(2) by (simp add: st1_def)
    then have "rust_inv w (ks, insert p A, R) st1"
      using inv by (simp add: rust_inv_def client_inv_def) (simp add: st1_def)
    then obtain st2 where "leave st1 = Some st2" "rust_inv w (ks, insert p A, R) st2"
      using leave_inv by blast
    moreover have "Rust_Query sv arg rules n (Some p) st = map_option (\<lambda>st2. (st2, ret)) (leave st1)"
      using h(1) normal res Inr arg ret by (simp add: Rust_Query_def st1_def Let_def)
    ultimately show ?thesis
      using that by simp
  qed
qed


lemma exec_step:
  assumes "rust_inv w q st" "disciplined w q (op # ops)"
  obtains st' w' q' where "rust_exec sv op st = Some st'" "rust_inv w' q' st'" "disciplined w' q' ops"
proof -
  obtain ks A R where w: "w = (ks, A, R)"
    by (cases w)
  obtain ks' A' R' where q: "q = (ks', A', R')"
    by (cases q)
  have inv: "hs_inv ks A R (rs_watchers st)" "hs_inv ks' A' R' (rs_queriers st)"
    using assms(1) by (simp_all add: w q rust_inv_def client_inv_def)
  note d = assms(2)[unfolded w q]
  note result = that
  have leaving: thesis if "rust_exec sv op st = leave st1" "rust_inv w1 q1 st1" "disciplined w1 q1 ops" for st1 w1 q1
    using leave_inv [OF that(2)] that result by metis
  show ?thesis
  proof (cases op)
    case (O_Create key)
    then show ?thesis
      using that [of _ "(ks @ [key], A, R)" q] d inv(2) hs_inv_create [OF inv(1), of "fst key" "snd key" 0 1]
      by (simp add: CreateRustEventWatcher_def rust_inv_def client_inv_def w q split_beta)
  next
    case (O_Add p rules n)
    then show ?thesis
      using d Rust_AddWatcher_inv [of ks A R q st p rules n sv] assms(1) that [of _ "(ks, insert p A, R)" q]
      by (force simp: w q)
  next
    case (O_Remove p)
    then show ?thesis
      using d Rust_RemoveWatcher_inv [OF assms(1), of p sv] that [of _ w q] by (force simp: w q)
  next
    case (O_Recycle p)
    then obtain ws where "recycle_handle RecycleWatcher p (rs_watchers st) = Some ws" "hs_inv ks A (insert p R) ws"
      using hs_inv_recycle [OF inv(1), of p] d by (auto simp: usable_def)
    then show ?thesis
      using leaving [of "st\<lparr>rs_watchers := ws\<rparr>" "(ks, A, insert p R)" q] d O_Recycle inv(2)
      by (simp add: Rust_RecycleWatcher_def rust_inv_def client_inv_def q)
  next
    case (O_CreateQuerier key)
    then show ?thesis
      using that [of _ w "(ks' @ [key], A', R')"] d inv(1) hs_inv_create [OF inv(2), of "fst key" "snd key" 0 1]
      by (simp add: CreateRustEventQuerier_def rust_inv_def client_inv_def w q split_beta)
  next
    case (O_Query p arg rules n)
    then show ?thesis
      using d Rust_Query_inv [of w ks' A' R' st p rules n sv arg] assms(1) that [of _ w "(ks', insert p A', R')"]
      by (force simp: w q)
  next
    case (O_RecycleQuerier p)
    then obtain qs where "recycle_handle RecycleWatcher p (rs_queriers st) = Some qs" "hs_inv ks' A' (insert p R') qs"
      using hs_inv_recycle [OF inv(2), of p] d by (auto simp: usable_def)
    then show ?thesis
      using leaving [of "st\<lparr>rs_queriers := qs\<rparr>" w "(ks', A', insert p R')"] d O_RecycleQuerier inv(1)
      by (simp add: Rust_RecycleQuerier_def RecycleQuerier_eq rust_inv_def client_inv_def w)
  next
    case (O_Drop b)
    then show ?thesis
      using leaving [of "st\<lparr>rs_remote := filter (\<lambda>x. x \<noteq> b) (rs_remote st)\<rparr>" w q] assms(1) d
      by (simp add: rust_inv_def w q)
  next
    case (O_DropQuery b)
    then show ?thesis
      using leaving [of "st\<lparr>rs_remoteQueries := filter (\<lambda>x. x \<noteq> b) (rs_remoteQueries st)\<rparr>" w q] assms(1) d
      by (simp add: rust_inv_def w q)
  next
    case (O_Call b)
    have "handle_of b (rs_watchers st) \<noteq> Some None"
      using assms(1) live_structure unfolding rust_inv_def by blast
    then show ?thesis
      using that [of st w q] assms(1) d O_Call
      by (auto simp: RustListener_OnServiceDied_def w q split: option.splits)
  next
    case (O_Answer b)
    have "handle_of b (rs_queriers st) \<noteq> Some None"
      using assms(1) live_structure unfolding rust_inv_def by blast
    then show ?thesis
      using that [of st w q] assms(1) d O_Answer
      by (auto simp: RustQuerier_OnComplete_def w q split: option.splits)
  qed
qed

lemma run_safe:
  "rust_inv w q st \<Longrightarrow> disciplined w q ops \<Longrightarrow> \<exists>st'. rust_run sv ops st = Some st'"
proof (induction ops arbitrary: w q st)
  case (Cons op ops)
  then obtain st' w' q' where "rust_exec sv op st = Some st'" "rust_inv w' q' st'" "disciplined w' q' ops"
    using exec_step by metis
  then show ?case
    using Cons.IH by simp
qed simp

lemma rust_inv_new: "rust_inv ([], {}, {}) ([], {}, {}) (rust_state_new reg)"
  by (simp add: rust_inv_def client_inv_def rust_state_new_def hs_inv_new)

text \<open>C34. A disciplined Rust client is safe, whatever the server answers, keeps, drops and calls:
  when every watcher and querier has callbacks of its own, is opened at most once, recycled at
  most once and not used afterwards, no function reads a structure that has been deleted and
  none is deleted twice, in any interleaving with the callbacks of the server.\<close>

theorem rust_structures_safe:
  assumes "disciplined ([], {}, {}) ([], {}, {}) ops"
  shows "\<exists>st. rust_run sv ops (rust_state_new reg) = Some st"
  using run_safe [OF rust_inv_new assms] .


text \<open>The life of one watcher: added, removed, dropped by the server and recycled, it is freed.\<close>

definition watcher_life :: "rust_op list" where
  "watcher_life = [O_Create (1, 2), O_Add 0 [] 0, O_Call 0, O_Remove 0, O_Drop 0, O_Recycle 0]"

definition std_rust :: "string list rust_state" where
  "std_rust = rust_state_new (registry_new [])"

definition freed_after :: "string list server \<Rightarrow> rust_op list \<Rightarrow> nat \<Rightarrow> bool option" where
  "freed_after sv ops p = map_option (\<lambda>st. hs_mem (rs_watchers st) p = None) (rust_run sv ops std_rust)"

lemma watcher_life_freed: "freed_after kind_server watcher_life 0 = Some True"
  by code_simp

theorem rust_structures_safe_witness:
  "\<exists>st. rust_run kind_server watcher_life std_rust = Some st"
proof -
  have "disciplined ([], {}, {}) ([], {}, {}) watcher_life"
    by (simp add: watcher_life_def usable_def)
  from rust_structures_safe [OF this] show ?thesis
    unfolding std_rust_def .
qed

text \<open>
  Outside the discipline. A watcher whose addition fails is given up by the listener that is
  thrown away with it: it cannot be added again, and recycling does not find it, so that it is
  never freed.
\<close>

definition absent_server :: "string list server" where
  "absent_server = kind_server\<lparr>sv_present := (\<lambda>log. False)\<rparr>"

lemma failed_add_spoils_watcher:
  "map_option (\<lambda>st. map_option snd (Rust_AddWatcher kind_server (Some 0) [] 0 st))
     (rust_run absent_server [O_Create (1, 2), O_Add 0 [] 0] std_rust) = Some (Some ERR_LISTENER_NOT_EXIST)"
  "freed_after absent_server [O_Create (1, 2), O_Add 0 [] 0, O_Recycle 0] 0 = Some False"
  by code_simp+

text \<open>
  A watcher that is added, removed and added again can no longer be removed, although it is
  registered; recycling it frees the structure that the registered listener still uses for the
  next event.
\<close>

definition added_again :: "rust_op list" where
  "added_again = [O_Create (1, 2), O_Add 0 [] 0, O_Remove 0, O_Drop 0, O_Add 0 [] 0]"

lemma added_again_unremovable:
  "map_option (\<lambda>st. map_option snd (Rust_RemoveWatcher kind_server (Some 0) st))
     (rust_run kind_server added_again std_rust) = Some (Some ERR_LISTENER_NOT_EXIST)"
  "rust_run kind_server (added_again @ [O_Recycle 0, O_Call 2]) std_rust = None"
  by code_simp+

text \<open>
  The maps are keyed by the two callbacks. Rust closures without captured variables all have the
  same address, and then a second watcher takes the place of the first: removing the first
  unregisters the second.
\<close>

lemma same_callbacks_removed:
  "map_option (\<lambda>st. map_option (\<lambda>r. last (rg_log (rs_reg (fst r)))) (Rust_RemoveWatcher kind_server (Some 0) st))
     (rust_run kind_server [O_Create (1, 1), O_Create (1, 1), O_Add 0 [] 0, O_Add 1 [] 0] std_rust) =
   Some (Some (RemoveRequest 3, 0))"
  "map_option (\<lambda>st. rs_baseWatchers st)
     (rust_run kind_server [O_Create (1, 1), O_Create (1, 1), O_Add 0 [] 0, O_Add 1 [] 0] std_rust) = Some [((1, 1), 2)]"
  by code_simp+


section \<open>Queries from Rust\<close>

lemma run_inv:
  assumes "rust_inv w q st0" "disciplined w q (ops @ rest)" "rust_run sv ops st0 = Some st"
  shows "\<exists>w' q'. rust_inv w' q' st \<and> disciplined w' q' rest"
  using assms
proof (induction ops arbitrary: w q st0)
  case (Cons op ops)
  then have "disciplined w q (op # ops @ rest)"
    by simp
  then obtain st' w' q' where "rust_exec sv op st0 = Some st'" "rust_inv w' q' st'" "disciplined w' q' (ops @ rest)"
    using exec_step [OF Cons.prems(1)] by metis
  then show ?case
    using Cons.IH Cons.prems(3) by simp
next
  case Nil
  then show ?case
    by (intro exI [of _ w] exI [of _ q]) simp
qed

lemma leave_reg: "leave st = Some st' \<Longrightarrow> rs_reg st' = rs_reg st"
  by (auto simp: leave_def split: option.splits)

text \<open>The rule that the server gets for one of Rust.\<close>

definition sent_rust_rule :: "string \<times> string list \<times> string option \<Rightarrow> sys_event_query_rule" where
  "sent_rust_rule r = (case r of (domain, names, cond) \<Rightarrow>
     \<lparr>qr_domain = domain, qr_eventList = names, qr_ruleType = WHOLE_WORD, qr_eventType = 0,
      qr_condition = (case cond of None \<Rightarrow> '''' | Some c \<Rightarrow> c)\<rparr>)"

lemma c_rule_usable:
  "good_rule r \<Longrightarrow> rule_usable (c_rule r) \<and> sent_rule (c_rule r) = sent_rust_rule r"
  by (auto simp: good_rule_def c_rule_def rule_usable_def sent_rule_def sent_rust_rule_def split: option.split)

lemma c_rules_loop:
  assumes "list_all good_rule rs"
  obtains qs where "query_rules_loop (map c_rule rs) (length rs) [] = Some (Inr qs)"
    "ConvertQueryRule qs = map sent_rust_rule rs"
proof -
  have "list_all rule_usable (take (length rs) (map c_rule rs))"
    using assms c_rule_usable by (auto simp: list_all_iff)
  from query_rules_loop_usable [OF _ this, of "[]"] obtain qs where
    "query_rules_loop (map c_rule rs) (length rs) [] = Some (Inr qs)"
    "ConvertQueryRule qs = map sent_rule (map c_rule rs)"
    by auto
  moreover have "map sent_rule (map c_rule rs) = map sent_rust_rule rs"
    using assms c_rule_usable by (simp add: list_all_iff)
  ultimately show ?thesis
    using that by simp
qed

text \<open>A query from Rust reaches the server as Rust wrote it: in any state that a disciplined
  client can reach, with a querier that it has not used yet, the bytes of the domains and of
  the joined event names become one request with these rules and the normalised time range,
  and Rust gets the server's code.\<close>

lemma rust_query_sent:
  assumes "disciplined ([], {}, {}) ([], {}, {}) (ops @ [O_Query p (Some (b, e, m)) (map c_rule rs) (length rs)])"
    and "rust_run sv ops (rust_state_new reg) = Some st"
    and "list_all good_rule rs" "sv_present sv (rg_log (rs_reg st))"
    and "rq = QueryRequest \<lparr>qa_beginTime = (if b <s 0 then 0 else b),
           qa_endTime = (if e <s 0 then 0x7FFFFFFFFFFFFFFF else e), qa_maxEvents = (if m <s 0 then 0x7FFFFFFF else m),
           qa_fromSeq = -1, qa_toSeq = -1\<rparr> (map sent_rust_rule rs)"
  shows "\<exists>st'. HiSysEventQueryWrapper sv (replicate (length rs) zero_rule) (Some (b, e, m)) (map rust_rule rs)
      (length rs) (Some p) st = Some (st', sv_reply sv (rg_log (rs_reg st)) rq) \<and>
    rg_log (rs_reg st') = rg_log (rs_reg st) @ [(rq, sv_reply sv (rg_log (rs_reg st)) rq)]"
proof -
  obtain w q where inv: "rust_inv w q st"
      and d: "disciplined w q [O_Query p (Some (b, e, m)) (map c_rule rs) (length rs)]"
    using run_inv [OF rust_inv_new assms(1,2)] by blast
  obtain ks A R where q: "q = (ks, A, R)"
    by (cases q)
  with d have p: "usable (ks, A, R) p" "p \<notin> A"
    by simp_all
  obtain qs where qs: "query_rules_loop (map c_rule rs) (length rs) [] = Some (Inr qs)"
      "ConvertQueryRule qs = map sent_rust_rule rs"
    using c_rules_loop [OF assms(3)] by blast
  obtain st' ret where sent: "Rust_Query sv (Some (b, e, m)) (map c_rule rs) (length rs) (Some p) st = Some (st', ret)"
    using Rust_Query_inv [OF inv [unfolded q] p, of "map c_rule rs" "length rs" sv "Some (b, e, m)"] qs(1)
    by (metis option.distinct(1))
  obtain ms where ms: "ConvertQueryRuleWrapper (map rust_rule rs) (replicate (length rs) zero_rule) = Some ms"
      "map read_rule ms = map c_rule rs"
    using rules_converted [OF assms(3)] by auto
  have hs: "hs_inv ks A R (rs_queriers st)"
    using inv by (simp add: rust_inv_def client_inv_def q)
  obtain h where h: "hs_mem (rs_queriers st) p = Some h"
    using inv p(1) unfolding rust_inv_def q by (metis usable_structure)
  have "ha_status h = STATUS_NORMAL"
    using hs h p unfolding hs_inv_def usable_def by auto
  then have "ret = sv_reply sv (rg_log (rs_reg st)) rq \<and>
      rg_log (rs_reg st') = rg_log (rs_reg st) @ [(rq, sv_reply sv (rg_log (rs_reg st)) rq)]"
    using sent h qs assms(4)
    by (auto simp: Rust_Query_def Base_Query_def Delegate_Query_def request_server_def QueryArg_new_def assms(5) Let_def
        dest!: leave_reg)
  then show ?thesis
    using sent ms by (simp add: HiSysEventQueryWrapper_def)
qed

lemma rust_query_sent_example:
  "let r = (''HIVIEW'', [''START'', ''STOP''], None) in
   \<exists>st'. HiSysEventQueryWrapper kind_server [zero_rule] (Some (-1, 5, 10)) [rust_rule r] 1 (Some 0)
     (the (rust_run kind_server [O_CreateQuerier (1, 2)] std_rust)) = Some (st', 0) \<and>
     map fst (rg_log (rs_reg st')) = [QueryRequest \<lparr>qa_beginTime = 0, qa_endTime = 5, qa_maxEvents = 10,
       qa_fromSeq = -1, qa_toSeq = -1\<rparr> [sent_rust_rule r]]"
proof -
  let ?r = "(''HIVIEW'', [''START'', ''STOP''], None :: string option)"
  let ?ops = "[O_CreateQuerier (1, 2)]"
  obtain st where st: "rust_run kind_server ?ops (rust_state_new (registry_new [])) = Some st"
    by simp
  have good: "list_all good_rule [?r]"
    by (simp add: good_rule_def good_name_def no_nul_def MAX_LENGTH_OF_EVENT_DOMAIN_def
        MAX_LENGTH_OF_EVENT_NAME_def MAX_NUMBER_OF_EVENT_LIST_def)
  obtain qs where "query_rules_loop (map c_rule [?r]) (length [?r]) [] = Some (Inr qs)"
    using c_rules_loop [OF good] by blast
  then have d: "disciplined ([], {}, {}) ([], {}, {})
      (?ops @ [O_Query 0 (Some (-1, 5, 10)) (map c_rule [?r]) (length [?r])])"
    by (simp add: usable_def)
  have log: "rg_log (rs_reg st) = []"
    using st by (auto simp: rust_state_new_def registry_new_def CreateRustEventQuerier_def split: prod.splits)
  have range: "\<not> (5 :: 64 word) <s 0" "\<not> (10 :: 32 word) <s 0" "(-1 :: 64 word) <s 0"
    by code_simp+
  have reply: "sv_reply kind_server l rq = 0" for l rq
    by (simp add: kind_server_def)
  have "sv_present kind_server (rg_log (rs_reg st))"
    by (simp add: kind_server_def)
  from rust_query_sent [OF d st good this refl] obtain st' where
    "HiSysEventQueryWrapper kind_server (replicate (length [?r]) zero_rule) (Some (-1, 5, 10)) (map rust_rule [?r])
       (length [?r]) (Some 0) st = Some (st', 0)"
    "rg_log (rs_reg st') = [] @ [(QueryRequest \<lparr>qa_beginTime = 0, qa_endTime = 5, qa_maxEvents = 10,
       qa_fromSeq = -1, qa_toSeq = -1\<rparr> [sent_rust_rule ?r], 0)]"
    unfolding log by (auto simp: reply range)
  then show ?thesis
    using st by (simp add: std_rust_def del: rust_run.simps)
qed
end
