(* ===== verification/Spec2Isabelle.thy ===== *)
theory Spec2Isabelle
  imports Writer EasyWriter QueryDelivery HiSysEventTool CallbackManager CallbackInterleaving JsModule AniCallbacks
    RustBinding
begin

text \<open>
  Verification of hisysevent, the library that applications use to write system events, to
  read event records, and to subscribe to and query events.

  \<^bold>\<open>The program.\<close> A write starts at a macro or template of
  interfaces/native/innerkits/hisysevent/include/hisysevent.h or at the C function of
  hisysevent_c.cpp. The domain mask and the frequency limit may refuse it; otherwise an event
  object checks every name and value, encodes them into a growing byte buffer behind a fixed
  header, and hands the buffer to a datagram socket of the event server, with retries and a
  queue of failed records. A second writer in plain C (hisysevent_easy) encodes an event with
  one string into a fixed buffer. On the reading side (hisysevent_manager) the text of an
  event is parsed as JSON, read by typed member functions, and converted to a C structure for
  C callbacks. The command line tool makes one subscription or query of its options and prints
  events, in checking mode with undefined keys and ill-typed values in red, for which it
  scans event texts with a small scanner of its own.

  \<^bold>\<open>Theories and sources.\<close> Paths are below interfaces/native/innerkits/ unless they start with
  frameworks/.

  \<^item> Prelude: bytes, C strings, little-endian integers, and the contract of a byte sink
    (locale \<open>byte_sink\<close>), which both the C++ buffer and the C buffer implement.
  \<^item> SysEventDef (hisysevent/include/def.h, hisysevent.cpp): codes, limits, event types.
  \<^item> StringFilter (stringfilter.cpp): tables, name check and escaping. The name check is the
    identifier grammar; escaping is inverted by a reader of JSON string bodies. The locale
    \<open>name_filter\<close> states what the writer needs of a name check.
  \<^item> RawData, RawDataEncoder, EncodedParam (raw_data.cpp, raw_data_encoder.h and .cpp,
    encoded_param.h and .cpp): the buffer with its invariant \<open>rd_ok\<close> and abstraction
    \<open>contents\<close>, the encodings with their reference decoders, one constructor of
    \<open>param_value\<close> for each parameter class.
  \<^item> EventHeader (raw_data_base_def.h and .cpp): packed layouts, time zones.
  \<^item> HiSysEvent (hisysevent.h, hisysevent.cpp, hisysevent_c.h): the event under construction,
    the checks, each overload of \<open>InnerWrite\<close> and each \<open>Append*Param\<close>, the finishing of the
    record. EventRecord states what a write promises on the list of accepted parameters
    (\<open>spec_step\<close>) and proves that both interfaces implement it and that the finished bytes
    decode to it.
  \<^item> EventSocket (event_socket_factory.cpp): the choice of the socket from the bytes.
  \<^item> Transport (transport.cpp): attempts, retries, the queue. System calls are answered by
    parameters and logged; the log is what the theorems speak about.
  \<^item> WriteController (write_controller.cpp): hash, cache and limiter. The cache keeps list
    nodes and iterators as the code does; it refines a move-to-front list, and the locale
    \<open>record_cache\<close> states what the limiter needs of a cache. The two locked sections of a
    call are two steps of a thread (\<open>limit_begin\<close>, \<open>limit_finish\<close>), which \<open>limit_run\<close>
    executes for any schedule.
  \<^item> DomainMask (hisysevent.h): the template recursion over \<^verbatim>\<open>DOMAIN_MASKS\<close>.
  \<^item> Writer (hisysevent.h, hisysevent.cpp, hisysevent_c.cpp): the entry points, composed of
    the theories above.
  \<^item> EasyWriter (hisysevent_easy/): the C writer.
  \<^item> JsonFlatten (frameworks/native/json_flatten_parser.cpp): the scanner, with each access
    to the text checked.
  \<^item> EventValue, RecordReader (hisysevent_manager/hisysevent_record.cpp): JSON values and the
    typed readers. The JSON library is the record \<open>jsoncpp\<close> of functions, whose documented
    laws are \<open>json_laws\<close>; \<open>None\<close> is an exception of the library.
  \<^item> StringUtil (frameworks/native/util/string_util.cpp): an explicit heap of blocks and the
    functions that copy strings into it.
  \<^item> RecordConvertor (hisysevent_record_convertor.cpp, hisysevent_record_c.cpp,
    hisysevent_query_callback_c.cpp, hisysevent_listener_c.cpp): the C structure, its release
    and its readers, and the callback adapters.
  \<^item> Parcelables, QueryDelivery, FileUtil (adapter/native/idl/src/): the objects that cross the
    process boundary, with the locale \<open>parcelable\<close> for what a class of them promises and
    vectors handled once inside it; the way of a page of results through shared memory, stub
    and proxies to the callback (also hisysevent_manager/include/hisysevent_base_listener.h and
    hisysevent_base_query_callback.h); paths and directories.
  \<^item> EventRegistry (adapter/native/idl/src/hisysevent_delegate.cpp, and in hisysevent_manager/
    hisysevent_base_manager.cpp, hisysevent_manager.cpp, hisysevent_manager_c.cpp,
    include/hisysevent_rules.h): listeners, watchers, queries, export and subscription. The
    state has numbers for the objects, both maps and the log of requests; \<open>reaches\<close> is the
    step relation of both interfaces, and the locale \<open>registrar\<close> states what the two managers
    need of the base manager.
  \<^item> JsonDecorator (frameworks/native/hisysevent_json_decorator.cpp): the comparison of an event
    with its definition and the colours. \<open>has_type\<close> and \<open>verdict\<close> state what it means for an
    event to be typed by its definition, \<open>visible\<close> what a terminal shows of a text.
  \<^item> ToolArguments, HiSysEventTool (frameworks/native/hisysevent_tool.cpp,
    hisysevent_tool_listener.cpp, hisysevent_tool_query.cpp, main.cpp): options, numbers and
    times; the tool with its output and exit code, composed with EventRegistry for what it
    asks the server and with JsonDecorator for what it prints; \<open>wait_step\<close> interleaves the
    waiting and the notifying thread, with spurious wake-ups.
  \<^item> CallbackManager (interfaces/js/kits/napi/src/js_callback_manager.cpp,
    napi_hisysevent_listener.cpp, napi_hisysevent_querier.cpp): the queue of callbacks that are
    run one after the other on the thread of the JavaScript engine. \<open>js_step\<close> is the step
    relation of whole additions, completed works and releases, as of one delivering thread; the
    record \<open>engine\<close> says what the engine grants.
  \<^item> CallbackInterleaving (the same manager): its operations cut where they give up the lock or
    read an atomic variable. Every thread has a program counter (\<open>js_pc\<close>), \<open>pc_step\<close> is one
    step of a thread and \<open>cb_step\<close> interleaves the threads; the operations of CallbackManager
    are these steps in a row (\<open>Add_steps\<close>, \<open>ImmediateRun_steps\<close>, \<open>AfterWork_steps\<close>,
    \<open>Release_steps\<close>).
  \<^item> NapiAdapter (napi_hisysevent_adapter.h and .cpp, the error table of
    napi_hisysevent_util.cpp): a write from JavaScript, the call site read from the stack trace,
    and the error or value that JavaScript gets.
  \<^item> Doubles, JsValue, JsEvent (napi_hisysevent_util.cpp and .h): doubles as their bits, with
    the integers and fractions they stand for; the reading of events, rules and arguments
    from JavaScript values, and the making of the object of an event. The engine is the record
    \<open>napi\<close>, its documented behaviour \<open>napi_laws\<close> and \<open>maker_laws\<close>; \<open>typed_as\<close> states which
    parameter a value is, \<open>param_shown\<close> which value a parameter is shown as.
  \<^item> JsModule (napi_hisysevent_js.cpp): the functions the module exports, composed with
    NapiAdapter for the write and with EventRegistry for watchers, queries, export and
    subscription. \<open>js_reaches\<close> is the step relation of the calls; it rests on the laws of
    \<open>registrar\<close>, as the other two interfaces do.
  \<^item> AniValue (interfaces/ets/ani/hisysevent/src/hisysevent_ani_util.cpp and its header): the
    same for ArkTS: values read and made, the errors, the object of an event. The runtime is
    the record \<open>ani\<close>, its documented behaviour \<open>ani_laws\<close>. A \<^verbatim>\<open>std::map\<close> is a list of entries in
    the order of the keys (\<open>map_put\<close>, \<open>ordered\<close>).
  \<^item> AniModule (hisysevent_ani.cpp and .h): the functions that ArkTS calls, composed with the
    parts of the C++ writer (HiSysEvent, WriteController) and with EventRegistry.
    \<open>ani_typed\<close> states which parameter a value is.
  \<^item> AniCallbacks (ani_callback_manager.cpp, ani_hisysevent_listener.cpp,
    ani_hisysevent_querier.cpp): the queue of calls into ArkTS, also with a program counter for
    each thread, simulated step by step by that of JavaScript on a serving engine (\<open>to_cb\<close>),
    and what ArkTS is called with.
  \<^item> RustWrapper, RustBinding (frameworks/native/c_wrapper/): the structures that Rust passes,
    as bytes, and their conversion; watchers and queriers with the memory of their structures,
    composed with EventRegistry, where \<open>None\<close> is an access to deleted memory.

  \<^bold>\<open>What the properties show.\<close> Writing end to end, its refusals, and the equality of the C and
  C++ entry points and the result code of a write (Writer); the round trip of the record and
  its limits (EventRecord); delivery in order, accounting of records and bounded work of the transport
  (Transport); the limiter as independent counters, while the calls of a site do not overlap
  (WriteController); the C writer's record,
  refusals and agreement with the C++ encoder (EasyWriter); round trips of the encoders, the
  escaping and the time zones; totality and round trip of the scanner (JsonFlatten);
  exception safety and exactness of the readers (RecordReader); faithfulness and absence of
  leaks of the C structures and strings (StringUtil, RecordConvertor); delivery of query pages
  (QueryDelivery), round trips of parcels (Parcelables), the registrations that the server
  holds, with what a failed removal leaves behind (EventRegistry), decoration by type
  (JsonDecorator), what the tool asks for, prints and waits for (HiSysEventTool), the order
  and the completeness of the calls into JavaScript (CallbackManager for a query,
  CallbackInterleaving for any threads that do not race), what JavaScript sees of an event (JsEvent), the event, the query and the watchers of a call of JavaScript (JsModule),
  an event written from ArkTS (AniModule), the order of the calls into ArkTS (AniCallbacks),
  the agreement of writes from Rust with the C writes (RustWrapper), and the memory
  safety and the queries of a disciplined Rust client (RustBinding). Lemmas named after a
  surprise (\<open>mask_surprises\<close>, \<open>Parse_misreads\<close>, \<open>overlong_string_kept\<close>, \<open>overlapping_calls_count_once\<close>,
  \<open>time_zone_table_sign\<close>, \<open>ConvertCStringVec_no_array\<close>, \<open>watcher_added_twice\<close>,
  \<open>event_list_overread\<close>, \<open>parent_at_end_is_legal\<close>, \<open>decorate_surprises\<close>,
  \<open>missed_notification_reachable\<close>, \<open>failed_query_waits\<close>, \<open>february_30_accepted\<close>, \<open>racing_adds_call_twice\<close>,
  \<open>racing_steps_call_twice\<close>, \<open>release_reads_empty_queue\<close>, \<open>ani_racing_adds_call_twice\<close>,
  \<open>failed_post_blocks\<close>, \<open>released_work_still_runs\<close>, \<open>copied_name_runs_on\<close>,
  \<open>long_name_unterminated\<close>, \<open>event_list_overrun\<close>, \<open>failed_add_spoils_watcher\<close>,
  \<open>added_again_unremovable\<close>, \<open>same_callbacks_removed\<close>, \<open>OnEvent_deletes_stack_pointer\<close>,
  \<open>negative_behind_fraction\<close>, \<open>wrong_type_is_fault\<close>, \<open>invalid_rule_query_sent\<close>, \<open>refused_query_kept\<close>, \<open>refused_event_sent\<close>,
  \<open>last_param_kept\<close>, \<open>complete_query_kept\<close>, \<open>failed_watcher_deletes_twice\<close>, \<open>service_died_overreads\<close>)
  record where the code departs from its comments or does what no caller expects.

  \<^bold>\<open>Bounds and termination.\<close> No model of code has fuel (\<open>run_alone\<close>, which runs one thread to
  the end of its operation, has, and seven steps are enough): every loop is a structural recursion or
  a function with a termination proof, by the remaining text for the scanners and the mask,
  by the value that is shifted for the varints, and by the number of attempts left for a
  send. Runs of the two threads of the tool are bounded by a measure and the number of
  spurious wake-ups. The limits are those of the code. Machine integers are words of their width, and
  floating-point numbers are their bit patterns.

  \<^bold>\<open>Parameters.\<close> The allocator, \<^verbatim>\<open>memcpy_s\<close> and \<^verbatim>\<open>strcpy_s\<close>, the clock, the process data, the
  trace identifier, the answers of system calls and of the event server, the file system, the
  IPC library, the JSON library, the JavaScript engine and the ArkTS runtime are arguments of the
  definitions; what the theorems assume of them is named in their hypotheses.

  \<^bold>\<open>Threads.\<close> Where the order of the steps of several threads decides what happens, each locked
  section, each access to an atomic variable and each call is a step of its own: in
  WriteController, CallbackInterleaving, AniCallbacks and for \<^verbatim>\<open>WaitClient\<close>. What a theorem
  excludes there (overlapping calls of one site, additions that race for the first run) is a
  hypothesis, and a lemma shows what happens otherwise. The locks themselves are not modelled.
  Everywhere else a call runs whole: the theorems of Writer and Transport speak of one call or
  of calls one after the other, and those of EventRegistry, RustBinding, JsModule and AniModule
  of sequences of calls and notifications.

  \<^bold>\<open>Not modelled.\<close> Logging. The set-up of the JavaScript
  module, which names its functions and enumerations in the engine; the end of the life of the
  objects behind JavaScript watchers; the naming of the ArkTS functions in the runtime; the tests.
\<close>

end
